(* ===== verification/Hui_Prelude.thy ===== *)
theory Hui_Prelude
  imports Main "HOL-Library.Word"
begin

text \<open>
  Shared prelude of the development. It names the integer types of
  \<^verbatim>\<open>src/src/internal/basictypes_in.h\<close>, the error codes of
  \<^verbatim>\<open>src/src/internal/error_in.h\<close>, the memory image of a machine integer (the host is
  the little-endian 64-bit Linux of the build files), and collects the generic facts on
  lists and words that the component theories share.
\<close>

unbundle bit_operations_syntax

named_theorems hui_defs \<open>definitions of small operations that proofs unfold together\<close>
named_theorems hui_bytes \<open>facts on the byte images of machine integers\<close>

subsection \<open>Basic types\<close>

type_synonym HUCH = "8 word"
type_synonym HUSN = "16 word"
type_synonym HUN = "32 word"
type_synonym HULN = "64 word"
type_synonym HMEM = "8 word list"
type_synonym HSTR = string

subsection \<open>Error codes\<close>

datatype huicpp_errs_enum =
    ERR_OK | INVL_PARA | ERR_STATUS | SRC_ERR | OVER_FLOW | IO_FAILED | MEMORY_OUT
  | TIME_OUT | NOT_EXISTS | DEP_ERROR | NETWORK_ERROR | SYS_FAILED | UN_SUPPORT
  | UNKOWN_ERR | ERR_END

type_synonym RET_T = huicpp_errs_enum

definition IS_OK :: "RET_T \<Rightarrow> bool" where
  "IS_OK cb \<longleftrightarrow> cb = ERR_OK"

lemma IS_OK_simps [simp]: "IS_OK ERR_OK" "IS_OK e \<longleftrightarrow> e = ERR_OK"
  by (auto simp: IS_OK_def)

text \<open>The statuses of the children of a pool, of processes or of threads.\<close>

datatype ChildStatus = CS_UNUSED | CS_IDLE | CS_BUSY | CS_UNKNOWN

subsection \<open>Byte images of machine integers\<close>

text \<open>
  The object representation of an unsigned integer on the little-endian host: the value
  in base 256, least significant byte first.
\<close>

primrec le_digits :: "nat \<Rightarrow> nat \<Rightarrow> HMEM" where
  "le_digits 0 x = []"
| "le_digits (Suc n) x = word_of_nat (x mod 256) # le_digits n (x div 256)"

primrec le_value :: "HMEM \<Rightarrow> nat" where
  "le_value [] = 0"
| "le_value (b # bs) = unat b + 256 * le_value bs"

definition size_of :: "'a::len itself \<Rightarrow> nat" where
  "size_of _ = LENGTH('a) div 8"

definition obj_bytes :: "'a::len word \<Rightarrow> HMEM" where
  "obj_bytes w = le_digits (size_of TYPE('a)) (unat w)"

definition obj_of_bytes :: "HMEM \<Rightarrow> 'a::len word" where
  "obj_of_bytes bs = word_of_nat (le_value bs)"

lemma unat_byte: "unat (b :: HUCH) < 256"
  using unsigned_less [of b, where ?'a = nat] by simp

lemma length_le_digits [simp]: "length (le_digits n x) = n"
  by (induction n arbitrary: x) auto

lemma le_value_digits [hui_bytes]: "le_value (le_digits n x) = x mod 256 ^ n"
proof (induction n arbitrary: x)
  case (Suc n)
  then show ?case
    by (simp add: unat_of_nat mod_mult2_eq mult.commute)
qed simp

lemma le_value_bound [hui_bytes]: "le_value bs < 256 ^ length bs"
proof (induction bs)
  case (Cons b bs)
  with unat_byte [of b] show ?case by simp
qed simp

lemma length_obj_bytes [simp]: "length (obj_bytes (w :: 'a::len word)) = size_of TYPE('a)"
  by (simp add: obj_bytes_def)

lemma size_of_simps [simp]:
  "size_of TYPE(8) = 1" "size_of TYPE(16) = 2" "size_of TYPE(32) = 4" "size_of TYPE(64) = 8"
  by (simp_all add: size_of_def)

text \<open>A width that is a whole number of bytes: the only widths the program's types have.\<close>

definition byte_width :: "'a::len itself \<Rightarrow> bool" where
  "byte_width _ \<longleftrightarrow> 8 * size_of TYPE('a) = LENGTH('a)"

lemma byte_width_simps [simp]:
  "byte_width TYPE(8)" "byte_width TYPE(16)" "byte_width TYPE(32)" "byte_width TYPE(64)"
  by (simp_all add: byte_width_def)

lemma obj_roundtrip [hui_bytes]:
  assumes "byte_width TYPE('a::len)"
  shows "obj_of_bytes (obj_bytes (w :: 'a word)) = w"
proof -
  have "(256::nat) ^ size_of TYPE('a) = 2 ^ (8 * size_of TYPE('a))"
    by (simp add: power_mult)
  also have "\<dots> = 2 ^ LENGTH('a)"
    using assms by (simp add: byte_width_def)
  finally show ?thesis
    by (simp add: obj_of_bytes_def obj_bytes_def le_value_digits)
qed

lemma obj_bytes_8 [simp]: "obj_bytes (b :: HUCH) = [b]"
  using unat_byte [of b] by (simp add: obj_bytes_def)

lemma obj_of_bytes_8 [simp]: "(obj_of_bytes [b] :: HUCH) = b"
  by (simp add: obj_of_bytes_def)

subsection \<open>Sizes and raw memory\<close>

text \<open>
  \<^verbatim>\<open>size_t\<close> subtraction (64 bits), and copies inside one allocated block. A copy that
  leaves the block is undefined behaviour of the program and is \<open>None\<close> here.
\<close>

definition size_sub :: "nat \<Rightarrow> nat \<Rightarrow> nat" where
  "size_sub a b = (if b \<le> a then a - b else 2 ^ 64 + a - b)"

definition mem_read :: "'a list \<Rightarrow> nat \<Rightarrow> nat \<Rightarrow> 'a list option" where
  "mem_read m pos n = (if pos + n \<le> length m then Some (take n (drop pos m)) else None)"

definition mem_write :: "'a list \<Rightarrow> nat \<Rightarrow> 'a list \<Rightarrow> 'a list option" where
  "mem_write m pos bs =
     (if pos + length bs \<le> length m
      then Some (take pos m @ bs @ drop (pos + length bs) m) else None)"

lemma size_sub_le [simp]: "b \<le> a \<Longrightarrow> size_sub a b = a - b"
  by (simp add: size_sub_def)

lemma mem_read_Some [simp]: "pos + n \<le> length m \<Longrightarrow> mem_read m pos n = Some (take n (drop pos m))"
  by (simp add: mem_read_def)

lemma mem_read_SomeD: "mem_read m pos n = Some bs \<Longrightarrow> length bs = n \<and> pos + n \<le> length m"
  by (auto simp: mem_read_def split: if_splits)

lemma mem_write_length: "mem_write m pos bs = Some m' \<Longrightarrow> length m' = length m"
  by (auto simp: mem_write_def split: if_splits)

lemma mem_read_write: "mem_write m pos bs = Some m' \<Longrightarrow> mem_read m' pos (length bs) = Some bs"
  by (auto simp: mem_write_def mem_read_def split: if_splits)

subsection \<open>Counters\<close>

lemma unat_inc:
  assumes "i < (n :: 'a::len word)"
  shows "unat (i + 1) = unat i + 1"
proof -
  have "unat i + 1 < 2 ^ LENGTH('a)"
    using assms unsigned_less [of n, where ?'a = nat] unfolding word_less_nat_alt by linarith
  then show ?thesis by (simp add: unat_word_ariths)
qed

lemma unat_inc_decreases:
  "i < (n :: 'a::len word) \<Longrightarrow> unat n - unat (i + 1) < unat n - unat i"
  by (simp add: unat_inc word_less_nat_alt diff_less_mono2)

subsection \<open>Generic list facts\<close>

lemma take_append_length [simp]: "n = length xs \<Longrightarrow> take n (xs @ ys) = xs"
  by simp

lemma drop_append_length [simp]: "n = length xs \<Longrightarrow> drop n (xs @ ys) = ys"
  by simp

lemma drop_splice:
  assumes "p + i \<le> length v"
  shows "drop p (take (p + i) v @ xs @ drop (p + j) v) = take i (drop p v) @ xs @ drop j (drop p v)"
  using assms by (simp add: drop_take add.commute)

lemma fold_max_ge: "x \<le> b \<or> x \<in> set ps \<Longrightarrow> (x :: 'a::linorder) \<le> fold max ps b"
proof (induction ps arbitrary: b)
  case (Cons p ps)
  have "x \<le> max p b \<or> x \<in> set ps" using Cons.prems by (auto simp: le_max_iff_disj)
  from Cons.IH [OF this] show ?case by simp
qed simp

subsection \<open>Bytes and characters\<close>

definition bytes_of :: "string \<Rightarrow> HMEM" where
  "bytes_of s = map (\<lambda>c. word_of_nat (of_char c)) s"

definition str_of :: "HMEM \<Rightarrow> string" where
  "str_of bs = map (\<lambda>b. char_of (unat b)) bs"

lemma str_of_bytes_of [simp]: "str_of (bytes_of s) = s"
  by (induction s) (simp_all add: str_of_def bytes_of_def unat_of_nat)

lemma bytes_of_str_of [simp]: "bytes_of (str_of bs) = bs"
  by (induction bs) (use unat_byte in \<open>simp_all add: str_of_def bytes_of_def\<close>)

lemma bytes_empty [simp]: "bytes_of s = [] \<longleftrightarrow> s = []" "str_of bs = [] \<longleftrightarrow> bs = []"
  by (simp_all add: bytes_of_def str_of_def)

lemma length_bytes [simp]: "length (bytes_of s) = length s" "length (str_of bs) = length bs"
  by (simp_all add: bytes_of_def str_of_def)

end
