(* ===== verification/Data_Stream.thy ===== *)
theory Data_Stream
  imports Hui_Prelude
begin

text \<open>
  The byte streams of \<^verbatim>\<open>src/src/hserialize.h\<close>: the in-memory buffer \<^verbatim>\<open>CDataStream\<close> and the
  counting stream \<^verbatim>\<open>CSizeComputer\<close>. The serialization templates are written against
  "anything that supports .read and .write"; that contract is the locale \<open>byte_stream\<close>
  (over \<open>byte_sink\<close> for write-only streams), and both classes are interpreted in it.

  Iterators into the buffer are absolute positions in the vector. An access outside the
  vector is undefined behaviour of the code and yields \<open>None\<close>.
\<close>

subsection \<open>The contract of a stream\<close>

text \<open>
  A sink absorbs bytes: writing twice is writing the concatenation. A stream moreover has
  unread bytes: a write appends to them, and a read that does not ask for more than there
  is takes a prefix of them.
\<close>

locale byte_sink =
  fixes wr :: "'s \<Rightarrow> HMEM \<Rightarrow> 's"
  assumes write_write [simp]: "wr (wr s as) bs = wr s (as @ bs)"
    and write_Nil [simp]: "wr s [] = s"

locale byte_stream = byte_sink wr
  for wr :: "'s \<Rightarrow> HMEM \<Rightarrow> 's" +
  fixes content :: "'s \<Rightarrow> HMEM"
    and inv :: "'s \<Rightarrow> bool"
    and rd :: "'s \<Rightarrow> nat \<Rightarrow> (HMEM \<times> 's) option"
    and readable :: "'s \<Rightarrow> bool"
  assumes write_content: "inv s \<Longrightarrow> content (wr s bs) = content s @ bs"
    and write_inv: "inv s \<Longrightarrow> inv (wr s bs)"
    and read_prefix:
    "\<lbrakk>inv s; readable s; content s = bs @ rest; length bs = n\<rbrakk> \<Longrightarrow>
       \<exists>s'. rd s n = Some (bs, s') \<and> content s' = rest \<and> inv s' \<and> readable s'"
begin

definition at_bytes :: "'s \<Rightarrow> HMEM \<Rightarrow> bool" where
  "at_bytes s bs \<longleftrightarrow> inv s \<and> readable s \<and> content s = bs"

lemma read_at:
  assumes "at_bytes s (bs @ rest)" "length bs = n"
  obtains s' where "rd s n = Some (bs, s')" "at_bytes s' rest"
  using read_prefix [of s bs rest n] assms by (auto simp: at_bytes_def)

lemma read_all_written:
  assumes "inv s" "content s = []" "readable (wr s bs)"
  shows "at_bytes (wr s bs) bs"
  using assms by (simp add: at_bytes_def write_content write_inv)

end

subsection \<open>CDataStream: state and constructors\<close>

record CDataStream =
  vch :: HMEM
  nReadPos :: HUN
  ds_state :: "16 word"
  exceptmask :: "16 word"

definition CDataStream_Init :: "CDataStream \<Rightarrow> CDataStream" where
  "CDataStream_Init s = s\<lparr>nReadPos := 0, ds_state := 0\<rparr>"

text \<open>
  The constructors copy a byte range and call \<^verbatim>\<open>Init\<close>, which leaves \<^verbatim>\<open>exceptmask\<close>
  indeterminate: the value found there is the argument \<open>em\<close>.
\<close>

definition CDataStream_new :: "16 word \<Rightarrow> HMEM \<Rightarrow> CDataStream" where
  "CDataStream_new em data =
     CDataStream_Init \<lparr>vch = data, nReadPos = 0, ds_state = 0, exceptmask = em\<rparr>"

subsection \<open>CDataStream: the vector subset\<close>

definition CDataStream_begin :: "CDataStream \<Rightarrow> nat" where
  "CDataStream_begin s = unat (nReadPos s)"

definition CDataStream_end :: "CDataStream \<Rightarrow> nat" where
  "CDataStream_end s = length (vch s)"

definition CDataStream_str :: "CDataStream \<Rightarrow> HMEM" where
  "CDataStream_str s = drop (CDataStream_begin s) (vch s)"

definition CDataStream_append :: "CDataStream \<Rightarrow> CDataStream \<Rightarrow> CDataStream" where
  "CDataStream_append a b = a\<lparr>vch := vch a @ drop (CDataStream_begin b) (vch b)\<rparr>"

definition CDataStream_plus :: "CDataStream \<Rightarrow> CDataStream \<Rightarrow> CDataStream" where
  "CDataStream_plus a b = (let ret = a in CDataStream_append ret b)"

definition CDataStream_size :: "CDataStream \<Rightarrow> nat" where
  "CDataStream_size s = size_sub (length (vch s)) (unat (nReadPos s))"

definition CDataStream_empty :: "CDataStream \<Rightarrow> bool" where
  "CDataStream_empty s \<longleftrightarrow> length (vch s) = unat (nReadPos s)"

definition CDataStream_resize :: "CDataStream \<Rightarrow> nat \<Rightarrow> HUCH \<Rightarrow> CDataStream" where
  "CDataStream_resize s n c =
     (let m = n + unat (nReadPos s)
      in s\<lparr>vch := take m (vch s) @ replicate (m - length (vch s)) c\<rparr>)"

definition CDataStream_at :: "CDataStream \<Rightarrow> nat \<Rightarrow> HUCH option" where
  "CDataStream_at s pos =
     (if pos + unat (nReadPos s) < length (vch s)
      then Some (vch s ! (pos + unat (nReadPos s))) else None)"

definition CDataStream_clear :: "CDataStream \<Rightarrow> CDataStream" where
  "CDataStream_clear s = s\<lparr>vch := [], nReadPos := 0\<rparr>"

text \<open>\<^verbatim>\<open>vector::insert\<close> and \<^verbatim>\<open>vector::erase\<close> at a position.\<close>

definition vec_insert :: "'a list \<Rightarrow> nat \<Rightarrow> 'a list \<Rightarrow> 'a list option" where
  "vec_insert v it xs = (if it \<le> length v then Some (take it v @ xs @ drop it v) else None)"

definition vec_erase :: "'a list \<Rightarrow> nat \<Rightarrow> nat \<Rightarrow> 'a list option" where
  "vec_erase v first to =
     (if first \<le> to \<and> to \<le> length v then Some (take first v @ drop to v) else None)"

definition CDataStream_insert_one :: "CDataStream \<Rightarrow> nat \<Rightarrow> HUCH \<Rightarrow> CDataStream option" where
  "CDataStream_insert_one s it x = map_option (\<lambda>v. s\<lparr>vch := v\<rparr>) (vec_insert (vch s) it [x])"

definition CDataStream_insert_n :: "CDataStream \<Rightarrow> nat \<Rightarrow> nat \<Rightarrow> HUCH \<Rightarrow> CDataStream option" where
  "CDataStream_insert_n s it n x =
     map_option (\<lambda>v. s\<lparr>vch := v\<rparr>) (vec_insert (vch s) it (replicate n x))"

text \<open>
  Both range overloads have this body. The comparison is made on the length cut to
  \<^verbatim>\<open>unsigned int\<close>; in the special case the room left by earlier reads is reused.
\<close>

definition CDataStream_insert :: "CDataStream \<Rightarrow> nat \<Rightarrow> HMEM \<Rightarrow> CDataStream option" where
  "CDataStream_insert s it xs =
     (if it = unat (nReadPos s) \<and> (word_of_nat (length xs) :: HUN) \<le> nReadPos s
      then (let np = nReadPos s - word_of_nat (length xs)
            in map_option (\<lambda>v. s\<lparr>vch := v, nReadPos := np\<rparr>) (mem_write (vch s) (unat np) xs))
      else map_option (\<lambda>v. s\<lparr>vch := v\<rparr>) (vec_insert (vch s) it xs))"

definition CDataStream_erase :: "CDataStream \<Rightarrow> nat \<Rightarrow> (nat \<times> CDataStream) option" where
  "CDataStream_erase s it =
     (if it = unat (nReadPos s)
      then (let np = nReadPos s + 1
            in if unat np \<ge> length (vch s)
               then Some (0, s\<lparr>nReadPos := 0, vch := []\<rparr>)
               else Some (unat np, s\<lparr>nReadPos := np\<rparr>))
      else if it < length (vch s)
      then map_option (\<lambda>v. (it, s\<lparr>vch := v\<rparr>)) (vec_erase (vch s) it (Suc it))
      else None)"

definition CDataStream_erase_range ::
    "CDataStream \<Rightarrow> nat \<Rightarrow> nat \<Rightarrow> (nat \<times> CDataStream) option" where
  "CDataStream_erase_range s first to =
     (if first = unat (nReadPos s)
      then (if to = length (vch s)
            then Some (0, s\<lparr>nReadPos := 0, vch := []\<rparr>)
            else Some (to, s\<lparr>nReadPos := word_of_nat to\<rparr>))
      else map_option (\<lambda>v. (first, s\<lparr>vch := v\<rparr>)) (vec_erase (vch s) first to))"

definition CDataStream_Compact :: "CDataStream \<Rightarrow> CDataStream" where
  "CDataStream_Compact s = s\<lparr>vch := drop (unat (nReadPos s)) (vch s), nReadPos := 0\<rparr>"

definition CDataStream_Rewind :: "CDataStream \<Rightarrow> nat \<Rightarrow> bool \<times> CDataStream" where
  "CDataStream_Rewind s n =
     (if n > unat (nReadPos s) then (False, s)
      else (True, s\<lparr>nReadPos := nReadPos s - word_of_nat n\<rparr>))"

subsection \<open>CDataStream: the stream subset\<close>

definition CDataStream_setstate :: "CDataStream \<Rightarrow> 16 word \<Rightarrow> CDataStream" where
  "CDataStream_setstate s bits = s\<lparr>ds_state := ds_state s OR bits\<rparr>"

definition CDataStream_eof :: "CDataStream \<Rightarrow> bool" where
  "CDataStream_eof s \<longleftrightarrow> CDataStream_size s = 0"

definition CDataStream_good :: "CDataStream \<Rightarrow> bool" where
  "CDataStream_good s \<longleftrightarrow> \<not> CDataStream_eof s \<and> ds_state s = 0"

definition CDataStream_clear_state :: "CDataStream \<Rightarrow> 16 word \<Rightarrow> CDataStream" where
  "CDataStream_clear_state s n = s\<lparr>ds_state := n\<rparr>"

definition CDataStream_exceptions :: "CDataStream \<Rightarrow> 16 word \<Rightarrow> 16 word \<times> CDataStream" where
  "CDataStream_exceptions s em =
     (exceptmask s, CDataStream_setstate (s\<lparr>exceptmask := em\<rparr>) 0)"

definition CDataStream_read :: "CDataStream \<Rightarrow> nat \<Rightarrow> (HMEM \<times> CDataStream) option" where
  "CDataStream_read s nSize =
     (let pos = unat (nReadPos s);
          nReadPosNext = (word_of_nat (pos + nSize) :: HUN)
      in if unat nReadPosNext \<ge> length (vch s)
         then (let n' = (if unat nReadPosNext > length (vch s)
                         then size_sub (length (vch s)) pos else nSize)
               in map_option
                    (\<lambda>bs. (bs @ replicate (nSize - n') 0, s\<lparr>nReadPos := 0, vch := []\<rparr>))
                    (mem_read (vch s) pos n'))
         else map_option (\<lambda>bs. (bs, s\<lparr>nReadPos := nReadPosNext\<rparr>)) (mem_read (vch s) pos nSize))"

text \<open>
  In \<^verbatim>\<open>ignore\<close> the body of the inner \<^verbatim>\<open>if\<close> is the statement \<^verbatim>\<open>nReadPos = 0;\<close>, so the
  position is reset only when the end is passed, not when it is reached.
\<close>

definition CDataStream_ignore :: "CDataStream \<Rightarrow> HUN \<Rightarrow> CDataStream" where
  "CDataStream_ignore s nSize =
     (let nReadPosNext = nReadPos s + nSize
      in if unat nReadPosNext \<ge> length (vch s)
         then (if unat nReadPosNext > length (vch s) then s\<lparr>nReadPos := 0\<rparr> else s)\<lparr>vch := []\<rparr>
         else s\<lparr>nReadPos := nReadPosNext\<rparr>)"

definition CDataStream_write :: "CDataStream \<Rightarrow> HMEM \<Rightarrow> CDataStream" where
  "CDataStream_write s bs = s\<lparr>vch := vch s @ bs\<rparr>"

definition CDataStream_Serialize :: "('s \<Rightarrow> HMEM \<Rightarrow> 's) \<Rightarrow> CDataStream \<Rightarrow> 's \<Rightarrow> 's" where
  "CDataStream_Serialize wr s os = (if vch s \<noteq> [] then wr os (vch s) else os)"

definition CDataStream_GetAndClear :: "CDataStream \<Rightarrow> HMEM \<Rightarrow> HMEM \<times> CDataStream" where
  "CDataStream_GetAndClear s data =
     (data @ drop (CDataStream_begin s) (vch s), CDataStream_clear s)"

subsection \<open>CSizeComputer\<close>

record CSizeComputer =
  sc_nSize :: nat

definition CSizeComputer_write :: "CSizeComputer \<Rightarrow> HMEM \<Rightarrow> CSizeComputer" where
  "CSizeComputer_write c bs = c\<lparr>sc_nSize := sc_nSize c + length bs\<rparr>"

subsection \<open>The unread bytes, and the stream as a FIFO of bytes\<close>

definition ds_inv :: "CDataStream \<Rightarrow> bool" where
  "ds_inv s \<longleftrightarrow> unat (nReadPos s) \<le> length (vch s)"

definition ds_small :: "CDataStream \<Rightarrow> bool" where
  "ds_small s \<longleftrightarrow> length (vch s) < 2 ^ 32"

lemmas ds_basic = ds_inv_def ds_small_def CDataStream_str_def CDataStream_begin_def

lemma unat_HUN_small: "n < 2 ^ 32 \<Longrightarrow> unat (word_of_nat n :: HUN) = n"
  by (simp add: unat_of_nat)

lemma CDataStream_size_str: "ds_inv s \<Longrightarrow> CDataStream_size s = length (CDataStream_str s)"
  by (simp add: CDataStream_size_def ds_basic)

lemma CDataStream_read_prefix:
  assumes "ds_inv s" "ds_small s" "CDataStream_str s = bs @ rest" "length bs = n"
  shows "\<exists>s'. CDataStream_read s n = Some (bs, s') \<and> CDataStream_str s' = rest
           \<and> ds_inv s' \<and> ds_small s'"
proof -
  let ?p = "unat (nReadPos s)"
  from assms(3) have len: "length (vch s) - ?p = length bs + length rest"
    by (metis CDataStream_str_def CDataStream_begin_def length_append length_drop)
  with assms have le: "?p + n \<le> length (vch s)"
    by (simp add: ds_basic)
  with assms(2) have nxt: "unat (word_of_nat (?p + n) :: HUN) = ?p + n"
    by (intro unat_HUN_small) (simp add: ds_small_def)
  have bs: "take n (drop ?p (vch s)) = bs"
    using assms(3,4) by (simp add: ds_basic)
  have rest: "drop (?p + n) (vch s) = rest"
    using assms(3,4) by (metis CDataStream_str_def CDataStream_begin_def add.commute drop_drop
        drop_append_length)
  show ?thesis
  proof (cases "?p + n = length (vch s)")
    case True
    then have "rest = []" using rest by simp
    with True nxt bs show ?thesis
      by (simp add: CDataStream_read_def Let_def ds_basic del: of_nat_add) (use assms(4) in simp)
  next
    case False
    with le nxt bs rest assms(2) show ?thesis
      by (simp add: CDataStream_read_def Let_def ds_basic del: of_nat_add)
  qed
qed

interpretation data_stream: byte_stream CDataStream_write CDataStream_str ds_inv
    CDataStream_read ds_small
proof unfold_locales
  fix s :: CDataStream and as bs rest n
  show "CDataStream_write (CDataStream_write s as) bs = CDataStream_write s (as @ bs)"
    and "CDataStream_write s [] = s"
    by (simp_all add: CDataStream_write_def)
  assume inv: "ds_inv s"
  then show "CDataStream_str (CDataStream_write s bs) = CDataStream_str s @ bs"
    and "ds_inv (CDataStream_write s bs)"
    by (simp_all add: CDataStream_write_def ds_basic)
  assume "ds_small s" "CDataStream_str s = bs @ rest" "length bs = n"
  with inv show "\<exists>s'. CDataStream_read s n = Some (bs, s') \<and> CDataStream_str s' = rest
      \<and> ds_inv s' \<and> ds_small s'"
    by (rule CDataStream_read_prefix)
qed

interpretation size_computer: byte_sink CSizeComputer_write
  by unfold_locales (simp_all add: CSizeComputer_write_def)

subsection \<open>Reading what was written\<close>

fun CDataStream_reads :: "CDataStream \<Rightarrow> nat list \<Rightarrow> (HMEM list \<times> CDataStream) option" where
  "CDataStream_reads s [] = Some ([], s)"
| "CDataStream_reads s (n # ns) =
     (case CDataStream_read s n of
        None \<Rightarrow> None
      | Some (bs, s') \<Rightarrow> map_option (\<lambda>(bss, t). (bs # bss, t)) (CDataStream_reads s' ns))"

lemma foldl_CDataStream_write:
  "foldl CDataStream_write s chunks = CDataStream_write s (concat chunks)"
  by (induction chunks arbitrary: s) simp_all

lemma CDataStream_reads_at:
  "data_stream.at_bytes s (concat chunks) \<Longrightarrow>
     \<exists>s'. CDataStream_reads s (map length chunks) = Some (chunks, s') \<and>
          data_stream.at_bytes s' []"
proof (induction chunks arbitrary: s)
  case (Cons c chunks)
  from Cons.prems obtain s1 where
    "CDataStream_read s (length c) = Some (c, s1)" "data_stream.at_bytes s1 (concat chunks)"
    by (auto elim: data_stream.read_at)
  with Cons.IH show ?case by fastforce
qed simp

text \<open>
  chunks of bytes written to an empty stream in any split are read back in the same
  order, and the stream is empty afterwards, as long as the buffer stays below 4 GiB (the
  range of the 32-bit read position).
\<close>

theorem CDataStream_fifo:
  assumes "ds_inv s" "CDataStream_str s = []" "ds_small (foldl CDataStream_write s chunks)"
  shows "\<exists>s'. CDataStream_reads (foldl CDataStream_write s chunks) (map length chunks)
                = Some (chunks, s') \<and> CDataStream_str s' = [] \<and> CDataStream_empty s'"
proof -
  have "data_stream.at_bytes (foldl CDataStream_write s chunks) (concat chunks)"
    using data_stream.read_all_written [of s "concat chunks"] assms
    by (simp add: foldl_CDataStream_write)
  from CDataStream_reads_at [OF this] obtain s' where
    s': "CDataStream_reads (foldl CDataStream_write s chunks) (map length chunks)
           = Some (chunks, s')" "data_stream.at_bytes s' []"
    by blast
  from s'(2) have "CDataStream_str s' = [] \<and> CDataStream_empty s'"
    by (auto simp: data_stream.at_bytes_def CDataStream_empty_def ds_basic)
  with s'(1) show ?thesis by blast
qed

theorem CDataStream_fifo_witness:
  "\<exists>s'. CDataStream_reads (foldl CDataStream_write (CDataStream_new 0 []) [[1, 2], [3]])
           (map length [[1 :: HUCH, 2], [3]]) = Some ([[1, 2], [3]], s') \<and> CDataStream_str s' = [] \<and> CDataStream_empty s'"
  using CDataStream_fifo [of "CDataStream_new 0 []" "[[1, 2], [3]]"]
  by (simp add: CDataStream_new_def CDataStream_Init_def CDataStream_write_def ds_basic
      del: CDataStream_reads.simps)

text \<open>
  a read that asks for more than the unread bytes never touches memory outside the
  buffer: it returns all unread bytes, pads the destination with zeros to the requested
  length, and leaves an empty stream.
\<close>

theorem CDataStream_short_read:
  assumes "ds_inv s" "CDataStream_size s < n" "unat (nReadPos s) + n < 2 ^ 32"
  shows "CDataStream_read s n =
           Some (CDataStream_str s @ replicate (n - CDataStream_size s) 0,
                 s\<lparr>nReadPos := 0, vch := []\<rparr>)"
proof -
  have "unat (word_of_nat (unat (nReadPos s) + n) :: HUN) = unat (nReadPos s) + n"
    using assms(3) by (rule unat_HUN_small)
  with assms(1,2) show ?thesis
    by (simp add: CDataStream_read_def CDataStream_size_def Let_def ds_basic del: of_nat_add)
qed

theorem CDataStream_short_read_witness:
  "CDataStream_read (CDataStream_new 0 [7]) 3 =
     Some ([7] @ replicate 2 0, (CDataStream_new 0 [7])\<lparr>nReadPos := 0, vch := []\<rparr>)"
  using CDataStream_short_read [of "CDataStream_new 0 [7]" 3]
  by (simp add: CDataStream_new_def CDataStream_Init_def CDataStream_size_def ds_basic)

subsection \<open>Insertion and erasure as edits of the unread bytes\<close>

lemma word_of_nat_le_HUN:
  "n < 2 ^ 32 \<Longrightarrow> (word_of_nat n :: HUN) \<le> w \<longleftrightarrow> n \<le> unat w"
  by (simp add: word_le_nat_alt unat_HUN_small)

lemma unat_sub_HUN:
  "\<lbrakk>n < 2 ^ 32; n \<le> unat w\<rbrakk> \<Longrightarrow> unat (w - (word_of_nat n :: HUN)) = unat w - n"
  by (simp add: unat_sub word_of_nat_le_HUN unat_HUN_small)

text \<open>
  Inserting a range before the \<open>k\<close>-th unread byte inserts it there and keeps the
  position valid, whether the room of already read bytes is reused or the vector grows.
\<close>

theorem CDataStream_insert_spec:
  assumes "ds_inv s" "k \<le> CDataStream_size s" "length xs < 2 ^ 32"
  shows "\<exists>s'. CDataStream_insert s (CDataStream_begin s + k) xs = Some s' \<and> ds_inv s' \<and>
           CDataStream_str s' = take k (CDataStream_str s) @ xs @ drop k (CDataStream_str s)"
proof (cases "k = 0 \<and> length xs \<le> unat (nReadPos s)")
  case True
  then show ?thesis
    using assms unat_sub_HUN [of "length xs" "nReadPos s"]
    by (simp add: CDataStream_insert_def word_of_nat_le_HUN Let_def mem_write_def ds_basic)
next
  case False
  then have "\<not> (k = 0 \<and> (word_of_nat (length xs) :: HUN) \<le> nReadPos s)"
    using assms(3) by (simp add: word_of_nat_le_HUN)
  then show ?thesis
    using assms drop_splice [of "unat (nReadPos s)" k "vch s" xs k]
    by (auto simp: CDataStream_insert_def vec_insert_def CDataStream_size_def ds_basic)
qed

theorem CDataStream_insert_spec_witness:
  "\<exists>s'. CDataStream_insert \<lparr>vch = [1, 2, 3], nReadPos = 2, ds_state = 0, exceptmask = 0\<rparr> 2 [9, 8]
      = Some s' \<and> ds_inv s' \<and> CDataStream_str s' = [9, 8, 3]"
  using CDataStream_insert_spec
    [of "\<lparr>vch = [1, 2, 3], nReadPos = 2, ds_state = 0, exceptmask = 0\<rparr>" 0 "[9, 8]"]
  by (simp add: CDataStream_size_def ds_basic)

text \<open>
  erasing the unread bytes from the \<open>i\<close>-th to before the \<open>j\<close>-th removes exactly them,
  also on the two paths that only move the read position.
\<close>

theorem CDataStream_erase_range_spec:
  assumes "ds_inv s" "ds_small s" "i \<le> j" "j \<le> CDataStream_size s"
  shows "\<exists>it s'. CDataStream_erase_range s (CDataStream_begin s + i) (CDataStream_begin s + j)
             = Some (it, s') \<and> ds_inv s' \<and>
           CDataStream_str s' = take i (CDataStream_str s) @ drop j (CDataStream_str s)"
proof -
  have le: "unat (nReadPos s) + j \<le> length (vch s)"
    using assms by (simp add: CDataStream_size_def ds_basic)
  have small: "unat (word_of_nat (unat (nReadPos s) + j) :: HUN) = unat (nReadPos s) + j"
    using assms(2) le by (intro unat_HUN_small) (simp add: ds_small_def)
  show ?thesis
  proof (cases "i = 0")
    case True
    with le small show ?thesis
      by (simp add: CDataStream_erase_range_def ds_basic add.commute del: of_nat_add)
  next
    case False
    with le assms(3) drop_splice [of "unat (nReadPos s)" i "vch s" "[]" j] show ?thesis
      by (simp add: CDataStream_erase_range_def vec_erase_def ds_basic)
  qed
qed

theorem CDataStream_erase_range_spec_witness:
  "\<exists>it s'. CDataStream_erase_range (CDataStream_new 0 [1, 2, 3, 4]) 1 3 = Some (it, s') \<and>
     ds_inv s' \<and> CDataStream_str s' = [1, 4]"
  using CDataStream_erase_range_spec [of "CDataStream_new 0 [1, 2, 3, 4]" 1 3]
  by (simp add: CDataStream_new_def CDataStream_Init_def CDataStream_size_def ds_basic)

text \<open>
  a read that does not drain the buffer can be undone: rewinding by its length
  restores the stream exactly.
\<close>

theorem CDataStream_rewind_read:
  assumes "ds_inv s" "ds_small s" "n < CDataStream_size s"
  shows "\<exists>bs s'. CDataStream_read s n = Some (bs, s') \<and> bs = take n (CDataStream_str s) \<and>
           CDataStream_Rewind s' n = (True, s)"
proof -
  let ?p = "unat (nReadPos s)"
  have le: "?p + n < length (vch s)"
    using assms by (simp add: CDataStream_size_def ds_basic)
  with assms(2) have n: "unat (word_of_nat (?p + n) :: HUN) = ?p + n"
    by (intro unat_HUN_small) (simp add: ds_small_def)
  have "word_of_nat (?p + n) - word_of_nat n = nReadPos s"
    by simp
  with n le assms(1) show ?thesis
    by (simp add: CDataStream_read_def CDataStream_Rewind_def CDataStream_size_def ds_basic
        Let_def del: of_nat_add)
qed

theorem CDataStream_rewind_read_witness:
  "\<exists>bs s'. CDataStream_read (CDataStream_new 0 [1, 2, 3]) 2 = Some (bs, s') \<and> bs = [1, 2] \<and>
      CDataStream_Rewind s' 2 = (True, CDataStream_new 0 [1, 2, 3])"
  using CDataStream_rewind_read [of "CDataStream_new 0 [1, 2, 3]" 2]
  by (simp add: CDataStream_new_def CDataStream_Init_def CDataStream_size_def ds_basic)

text \<open>
  skipping exactly to the end with \<^verbatim>\<open>ignore\<close> clears the buffer but keeps the read
  position, so the stream then claims a size of almost \<open>2 ^ 64\<close> bytes, is not at
  end of file, and every further read copies from outside the (empty) buffer.
\<close>

theorem CDataStream_ignore_to_end:
  assumes "ds_inv s" "ds_small s" "0 < nReadPos s"
    and "unat n = CDataStream_size s"
  shows "vch (CDataStream_ignore s n) = [] \<and> \<not> ds_inv (CDataStream_ignore s n) \<and>
         CDataStream_size (CDataStream_ignore s n) = 2 ^ 64 - unat (nReadPos s) \<and>
         \<not> CDataStream_eof (CDataStream_ignore s n) \<and>
         (\<forall>m. unat (nReadPos s) + m < 2 ^ 32 \<longrightarrow> CDataStream_read (CDataStream_ignore s n) m = None)"
proof -
  have pos: "0 < unat (nReadPos s)"
    using assms(3) by (simp add: word_less_nat_alt)
  have "unat (nReadPos s + n) = length (vch s)"
    using assms by (subst unat_add_lem [THEN iffD1]) (simp_all add: CDataStream_size_def ds_basic)
  then have "CDataStream_ignore s n = s\<lparr>vch := []\<rparr>"
    by (simp add: CDataStream_ignore_def)
  moreover have lt: "unat (nReadPos s) < 2 ^ 32"
    using unsigned_less [of "nReadPos s", where ?'a = nat] by simp
  moreover have "CDataStream_read (s\<lparr>vch := []\<rparr>) m = None" if "unat (nReadPos s) + m < 2 ^ 32" for m
    using pos lt unat_HUN_small [OF that]
    by (simp add: CDataStream_read_def Let_def size_sub_def mem_read_def del: of_nat_add)
  ultimately show ?thesis
    using pos by (simp add: CDataStream_size_def CDataStream_eof_def size_sub_def ds_basic)
qed

theorem CDataStream_ignore_to_end_witness:
  "\<not> CDataStream_eof (CDataStream_ignore
     \<lparr>vch = [1, 2, 3], nReadPos = 1, ds_state = 0, exceptmask = 0\<rparr> 2)"
  by (rule CDataStream_ignore_to_end [THEN conjunct2, THEN conjunct2, THEN conjunct2,
        THEN conjunct1])
    (simp_all add: CDataStream_size_def ds_basic)

end
