(* ===== verification/Serialize_Int.thy ===== *)
theory Serialize_Int
  imports Data_Stream
begin

text \<open>
  The scalar part of \<^verbatim>\<open>src/src/hserialize.h\<close>: fixed-width integers and booleans, the
  compact size prefix and the variable-length integers. The templates' stream parameter
  is the pair of its operations \<open>wr\<close> and \<open>rd\<close>; \<open>None\<close> is an access outside memory (or, for
  the unbounded loop of \<^verbatim>\<open>ReadVarInt\<close>, no return). Signed integers have the byte image of
  the unsigned integer of their width. The locale \<open>codec\<close> is the contract between a type's
  three overloads (size, write, read) that the container templates rely on.
\<close>

subsection \<open>Scalars\<close>

definition WRITEDATA :: "('s \<Rightarrow> HMEM \<Rightarrow> 's) \<Rightarrow> 's \<Rightarrow> 'a::len word \<Rightarrow> 's" where
  "WRITEDATA wr s obj = wr s (obj_bytes obj)"

definition READDATA :: "('s \<Rightarrow> nat \<Rightarrow> (HMEM \<times> 's) option) \<Rightarrow> 's \<Rightarrow> ('a::len word \<times> 's) option" where
  "READDATA rd s = map_option (\<lambda>(bs, s'). (obj_of_bytes bs, s')) (rd s (size_of TYPE('a)))"

definition GetSerializeSize_int :: "'a::len word \<Rightarrow> nat" where
  "GetSerializeSize_int a = size_of TYPE('a)"

definition Serialize_int :: "('s \<Rightarrow> HMEM \<Rightarrow> 's) \<Rightarrow> 's \<Rightarrow> 'a::len word \<Rightarrow> 's" where
  "Serialize_int wr s a = WRITEDATA wr s a"

definition Unserialize_int ::
    "('s \<Rightarrow> nat \<Rightarrow> (HMEM \<times> 's) option) \<Rightarrow> 's \<Rightarrow> ('a::len word \<times> 's) option" where
  "Unserialize_int rd s = READDATA rd s"

definition GetSerializeSize_bool :: "bool \<Rightarrow> nat" where
  "GetSerializeSize_bool a = size_of TYPE(8)"

definition Serialize_bool :: "('s \<Rightarrow> HMEM \<Rightarrow> 's) \<Rightarrow> 's \<Rightarrow> bool \<Rightarrow> 's" where
  "Serialize_bool wr s a = (let f = (if a then 1 else 0 :: HUCH) in WRITEDATA wr s f)"

definition Unserialize_bool :: "('s \<Rightarrow> nat \<Rightarrow> (HMEM \<times> 's) option) \<Rightarrow> 's \<Rightarrow> (bool \<times> 's) option" where
  "Unserialize_bool rd s =
     map_option (\<lambda>(f :: HUCH, s'). (f \<noteq> 0, s')) (READDATA rd s)"

subsection \<open>Compact size\<close>

definition GetSizeOfCompactSize :: "HULN \<Rightarrow> nat" where
  "GetSizeOfCompactSize nSize =
     (if nSize < 253 then size_of TYPE(8)
      else if nSize \<le> 0xFFFF then size_of TYPE(8) + size_of TYPE(16)
      else if nSize \<le> 0xFFFFFFFF then size_of TYPE(8) + size_of TYPE(32)
      else size_of TYPE(8) + size_of TYPE(64))"

definition WriteCompactSize :: "('s \<Rightarrow> HMEM \<Rightarrow> 's) \<Rightarrow> 's \<Rightarrow> HULN \<Rightarrow> 's" where
  "WriteCompactSize wr os nSize =
     (if nSize < 253 then WRITEDATA wr os (ucast nSize :: HUCH)
      else if nSize \<le> 0xFFFF then WRITEDATA wr (WRITEDATA wr os (253 :: HUCH)) (ucast nSize :: HUSN)
      else if nSize \<le> 0xFFFFFFFF then WRITEDATA wr (WRITEDATA wr os (254 :: HUCH)) (ucast nSize :: HUN)
      else WRITEDATA wr (WRITEDATA wr os (255 :: HUCH)) nSize)"

definition ReadCompactSize :: "('s \<Rightarrow> nat \<Rightarrow> (HMEM \<times> 's) option) \<Rightarrow> 's \<Rightarrow> (HULN \<times> 's) option" where
  "ReadCompactSize rd is =
     (case READDATA rd is of
        None \<Rightarrow> None
      | Some (chSize :: HUCH, is) \<Rightarrow>
          (if chSize < 253 then Some (ucast chSize, is)
           else if chSize = 253 then
             map_option (\<lambda>(xSize :: HUSN, is). (ucast xSize, is)) (READDATA rd is)
           else if chSize = 254 then
             map_option (\<lambda>(xSize :: HUN, is). (ucast xSize, is)) (READDATA rd is)
           else READDATA rd is))"

subsection \<open>Variable-length integers\<close>

lemma unat_0x7F: "unat (0x7F :: 'a::len word) = 2 ^ min LENGTH('a) 7 - 1"
proof -
  have "(127::nat) = mask 7" by (simp add: mask_eq_exp_minus_1)
  then have "take_bit LENGTH('a) (127::nat) = mask (min LENGTH('a) 7)"
    by (simp only: take_bit_of_mask)
  then show ?thesis
    by (simp add: unat_numeral mask_eq_exp_minus_1)
qed

lemma varint_shift:
  assumes "\<not> n \<le> (0x7F :: 'a::len word)"
  shows "unat (drop_bit 7 n - 1) = unat n div 128 - 1"
    and "128 \<le> unat n" and "drop_bit 7 n - 1 + 1 = drop_bit 7 n"
proof -
  have gt: "unat n > 2 ^ min LENGTH('a) 7 - 1"
    using assms unfolding word_le_nat_alt unat_0x7F by simp
  moreover have "unat n < 2 ^ LENGTH('a)"
    by (rule unsigned_less)
  ultimately have "\<not> LENGTH('a) \<le> 7"
    using min_absorb1 [of "LENGTH('a)" 7] by (intro notI) linarith
  with gt show n: "128 \<le> unat n" by simp
  have d: "unat (drop_bit 7 n) = unat n div 128"
    by (subst unat_drop_bit_eq) (simp add: drop_bit_eq_div)
  with n have "(1 :: 'a word) \<le> drop_bit 7 n"
    by (simp add: word_le_nat_alt)
  with d show "unat (drop_bit 7 n - 1) = unat n div 128 - 1"
    by (simp add: unat_sub)
  show "drop_bit 7 n - 1 + 1 = drop_bit 7 n" by simp
qed

lemma varint_decreases:
  "\<not> n \<le> (0x7F :: 'a::len word) \<Longrightarrow> unat (drop_bit 7 n - 1) < unat n"
  using varint_shift(1,2) [of n] by simp

function GetSizeOfVarInt_loop :: "'a::len word \<Rightarrow> nat \<Rightarrow> nat" where
  "GetSizeOfVarInt_loop n nRet =
     (let nRet = nRet + 1
      in if n \<le> 0x7F then nRet else GetSizeOfVarInt_loop (drop_bit 7 n - 1) nRet)"
  by pat_completeness auto
termination
  by (relation "measure (\<lambda>(n, _). unat n)") (auto simp: varint_decreases)

definition GetSizeOfVarInt :: "'a::len word \<Rightarrow> nat" where
  "GetSizeOfVarInt n = GetSizeOfVarInt_loop n 0"

text \<open>
  The local array \<^verbatim>\<open>tmp\<close> has \<open>(sizeof n * 8 + 6) / 7\<close> bytes; storing past it is \<open>None\<close>. Its
  initial bytes (indeterminate in the code, zero here) are never written out.
\<close>

function WriteVarInt_fill :: "'a::len word \<Rightarrow> nat \<Rightarrow> HMEM \<Rightarrow> (nat \<times> HMEM) option" where
  "WriteVarInt_fill n len tmp =
     (if len < length tmp
      then (let tmp = tmp[len := ucast (n AND 0x7F) OR (if len \<noteq> 0 then 0x80 else 0)]
            in if n \<le> 0x7F then Some (len, tmp)
               else WriteVarInt_fill (drop_bit 7 n - 1) (len + 1) tmp)
      else None)"
  by pat_completeness auto
termination
  by (relation "measure (\<lambda>(n, _). unat n)") (auto simp: varint_decreases)

fun WriteVarInt_out :: "('s \<Rightarrow> HMEM \<Rightarrow> 's) \<Rightarrow> 's \<Rightarrow> HMEM \<Rightarrow> nat \<Rightarrow> 's" where
  "WriteVarInt_out wr os tmp 0 = WRITEDATA wr os (tmp ! 0)"
| "WriteVarInt_out wr os tmp (Suc len) =
     WriteVarInt_out wr (WRITEDATA wr os (tmp ! Suc len)) tmp len"

definition WriteVarInt :: "('s \<Rightarrow> HMEM \<Rightarrow> 's) \<Rightarrow> 's \<Rightarrow> 'a::len word \<Rightarrow> 's option" where
  "WriteVarInt wr os n =
     (case WriteVarInt_fill n 0 (replicate ((size_of TYPE('a) * 8 + 6) div 7) 0) of
        None \<Rightarrow> None
      | Some (len, tmp) \<Rightarrow> Some (WriteVarInt_out wr os tmp len))"

partial_function (option) ReadVarInt_loop ::
    "('s \<Rightarrow> nat \<Rightarrow> (HMEM \<times> 's) option) \<Rightarrow> 's \<Rightarrow> 'a::len word \<Rightarrow> ('a word \<times> 's) option" where
  "ReadVarInt_loop rd is n =
     (case READDATA rd is of
        None \<Rightarrow> None
      | Some (chData :: HUCH, is') \<Rightarrow>
          (let n' = push_bit 7 n OR ucast (chData AND 0x7F)
           in if chData AND 0x80 \<noteq> 0 then ReadVarInt_loop rd is' (n' + 1) else Some (n', is')))"

definition ReadVarInt ::
    "('s \<Rightarrow> nat \<Rightarrow> (HMEM \<times> 's) option) \<Rightarrow> 's \<Rightarrow> ('a::len word \<times> 's) option" where
  "ReadVarInt rd is = ReadVarInt_loop rd is 0"

declare GetSizeOfVarInt_loop.simps [simp del] WriteVarInt_fill.simps [simp del]

subsection \<open>The bytes of a variable-length integer\<close>

function varint_digits :: "nat \<Rightarrow> 'a::len word \<Rightarrow> HMEM" where
  "varint_digits len n =
     (ucast (n AND 0x7F) OR (if len \<noteq> 0 then 0x80 else 0))
       # (if n \<le> 0x7F then [] else varint_digits (len + 1) (drop_bit 7 n - 1))"
  by pat_completeness auto
termination
  by (relation "measure (\<lambda>(_, n). unat n)") (auto simp: varint_decreases)

declare varint_digits.simps [simp del]

definition varint_bytes :: "'a::len word \<Rightarrow> HMEM" where
  "varint_bytes n = rev (varint_digits 0 n)"

lemma GetSizeOfVarInt_loop_digits:
  "GetSizeOfVarInt_loop n r = r + length (varint_digits len n)"
proof (induction n r arbitrary: len rule: GetSizeOfVarInt_loop.induct)
  case (1 n r)
  then show ?case
    by (cases "n \<le> 0x7F")
      (simp_all add: GetSizeOfVarInt_loop.simps [of n r] varint_digits.simps [of len n])
qed

lemma length_varint_bytes: "length (varint_bytes n) = GetSizeOfVarInt n"
  by (simp add: varint_bytes_def GetSizeOfVarInt_def GetSizeOfVarInt_loop_digits [of n 0 0])

lemma varint_digits_bound:
  "unat n < 2 ^ (7 * m) \<Longrightarrow> 0 < m \<Longrightarrow> length (varint_digits len n) \<le> m"
proof (induction m arbitrary: len n)
  case (Suc m)
  show ?case
  proof (cases "n \<le> 0x7F")
    case False
    note shift = varint_shift [OF False]
    from Suc.prems(1) have lt: "unat n < 128 * 2 ^ (7 * m)"
      by (simp add: power_add)
    then have "unat n div 128 < 2 ^ (7 * m)"
      by (simp add: less_mult_imp_div_less mult.commute)
    moreover have "m \<noteq> 0"
      using lt shift(2) by (cases m) auto
    ultimately have "length (varint_digits (len + 1) (drop_bit 7 n - 1)) \<le> m"
      by (intro Suc.IH) (simp_all add: shift(1))
    with False show ?thesis
      by (simp add: varint_digits.simps [of len n])
  qed (simp add: varint_digits.simps [of len n])
qed simp

lemma WriteVarInt_fill_digits:
  assumes "length (varint_digits (length pre) n) \<le> length junk"
  shows "WriteVarInt_fill n (length pre) (pre @ junk) =
    Some (length pre + length (varint_digits (length pre) n) - 1,
          pre @ varint_digits (length pre) n @ drop (length (varint_digits (length pre) n)) junk)"
  using assms
proof (induction n arbitrary: pre junk rule: measure_induct_rule [where f = unat])
  case (less n)
  let ?l = "length pre"
  let ?d = "ucast (n AND 0x7F) OR (if ?l \<noteq> 0 then 0x80 else 0) :: HUCH"
  from less.prems obtain j junk' where j: "junk = j # junk'"
    by (cases junk) (auto simp: varint_digits.simps [of ?l n])
  then have upd: "(pre @ junk)[?l := ?d] = (pre @ [?d]) @ junk'" and lt: "?l < length (pre @ junk)"
    by (simp_all add: list_update_append)
  show ?case
  proof (cases "n \<le> 0x7F")
    case True
    with upd lt j show ?thesis
      unfolding WriteVarInt_fill.simps [of n ?l "pre @ junk"] varint_digits.simps [of ?l n]
      by simp
  next
    case False
    have "WriteVarInt_fill (drop_bit 7 n - 1) (Suc ?l) ((pre @ [?d]) @ junk') =
      Some (?l + length (varint_digits (Suc ?l) (drop_bit 7 n - 1)),
        (pre @ [?d]) @ varint_digits (Suc ?l) (drop_bit 7 n - 1)
          @ drop (length (varint_digits (Suc ?l) (drop_bit 7 n - 1))) junk')"
      using less.IH [OF varint_decreases [OF False], of "pre @ [?d]" junk'] less.prems False j
      by (simp add: varint_digits.simps [of ?l n])
    with False upd lt j show ?thesis
      unfolding WriteVarInt_fill.simps [of n ?l "pre @ junk"] varint_digits.simps [of ?l n]
      by (simp add: Let_def)
  qed
qed

lemma WriteVarInt_out_bytes:
  assumes "\<And>s as bs. wr (wr s as) bs = wr s (as @ bs)" "len < length tmp"
  shows "WriteVarInt_out wr os tmp len = wr os (rev (take (Suc len) tmp))"
  using assms(2)
proof (induction len arbitrary: os)
  case 0
  then show ?case by (cases tmp) (simp_all add: WRITEDATA_def)
next
  case (Suc len)
  then show ?case
    by (simp add: WRITEDATA_def assms(1) take_Suc_conv_app_nth)
qed

lemma length_varint_digits_le:
  assumes "byte_width TYPE('a::len)"
  shows "length (varint_digits len (n :: 'a word)) \<le> (size_of TYPE('a) * 8 + 6) div 7"
proof (rule varint_digits_bound)
  let ?m = "(size_of TYPE('a) * 8 + 6) div 7"
  have L: "LENGTH('a) = size_of TYPE('a) * 8"
    using assms by (simp add: byte_width_def)
  have pos: "0 < LENGTH('a)" by simp
  have "LENGTH('a) \<le> 7 * ?m" using L by linarith
  then have "(2::nat) ^ LENGTH('a) \<le> 2 ^ (7 * ?m)"
    by (rule power_increasing) simp
  with unsigned_less [of n, where ?'a = nat] show "unat n < 2 ^ (7 * ?m)"
    by (rule less_le_trans)
  show "0 < ?m" using L pos by linarith
qed

subsection \<open>Bit facts of the seven-bit groups\<close>

lemma mask7: "(0x7F :: 'a::len word) = mask 7"
  by (simp add: mask_eq_exp_minus_1)

lemma bit_0x80: "bit (0x80 :: 'a::semiring_bits) k \<longleftrightarrow> possible_bit TYPE('a) 7 \<and> k = 7"
proof -
  have "(0x80 :: 'a) = 2 ^ 7" by simp
  then show ?thesis by (simp only: bit_exp_iff) auto
qed

lemma group_value:
  assumes "f = 0 \<or> f = 0x80"
  shows "ucast ((ucast (n AND 0x7F) OR f :: HUCH) AND 0x7F) = (n AND 0x7F :: 'a::len word)"
  using assms unfolding mask7
  by (auto intro!: bit_eqI simp: bit_simps bit_0x80)

lemma group_join: "push_bit 7 (drop_bit 7 n) OR (n AND 0x7F) = (n :: 'a::len word)"
  unfolding mask7 by (rule bit_eqI) (auto simp: bit_simps bit_0x80)

lemma group_small: "n \<le> 0x7F \<Longrightarrow> n AND 0x7F = (n :: 'a::len word)"
proof -
  assume "n \<le> 0x7F"
  then have le: "unat n \<le> 2 ^ min LENGTH('a) 7 - 1"
    unfolding word_le_nat_alt unat_0x7F .
  have "(2::nat) ^ min LENGTH('a) 7 \<le> 2 ^ 7"
    by (rule power_increasing) simp_all
  with le have "unat n < 2 ^ 7" by simp
  then have "take_bit 7 n = n"
    by (intro word_unat_eq_iff [THEN iffD2])
      (simp only: unsigned_take_bit_eq take_bit_nat_eq_self)
  then show ?thesis
    by (simp add: mask7 take_bit_eq_mask)
qed

lemma group_flag:
  "(ucast (n AND 0x7F :: 'a::len word) OR 0x80 :: HUCH) AND 0x80 \<noteq> 0"
  "(ucast (n AND 0x7F :: 'a::len word) :: HUCH) AND 0x80 = 0"
proof -
  have "bit ((ucast (n AND 0x7F :: 'a word) OR 0x80 :: HUCH) AND 0x80) 7"
    unfolding mask7 by (simp add: bit_simps bit_0x80)
  then show "(ucast (n AND 0x7F :: 'a word) OR 0x80 :: HUCH) AND 0x80 \<noteq> 0" by auto
  show "(ucast (n AND 0x7F :: 'a word) :: HUCH) AND 0x80 = 0"
    unfolding mask7 by (rule bit_eqI) (auto simp: bit_simps bit_0x80)
qed

subsection \<open>The codec contract\<close>

text \<open>
  A type's overloads agree on one encoding: \<^verbatim>\<open>Serialize\<close> writes it, \<^verbatim>\<open>GetSerializeSize\<close> is its
  length, and \<^verbatim>\<open>Unserialize\<close> at it returns the value and leaves the stream right behind it.
  \<open>ok\<close> delimits the values for which the type promises this.
\<close>

locale encoder = byte_sink wr for wr :: "'s \<Rightarrow> HMEM \<Rightarrow> 's" +
  fixes ser :: "'s \<Rightarrow> 'x \<Rightarrow> 's option"
    and sz :: "'x \<Rightarrow> nat"
    and enc :: "'x \<Rightarrow> HMEM"
    and ok :: "'x \<Rightarrow> bool"
  assumes ser_enc: "ok x \<Longrightarrow> ser s x = Some (wr s (enc x))"
    and size_enc: "ok x \<Longrightarrow> sz x = length (enc x)"

locale codec = encoder wr ser sz enc ok + byte_stream wr content inv rd readable
  for wr :: "'s \<Rightarrow> HMEM \<Rightarrow> 's" and content :: "'s \<Rightarrow> HMEM" and inv :: "'s \<Rightarrow> bool"
    and rd :: "'s \<Rightarrow> nat \<Rightarrow> (HMEM \<times> 's) option" and readable :: "'s \<Rightarrow> bool"
    and ser :: "'s \<Rightarrow> 'x \<Rightarrow> 's option" and sz :: "'x \<Rightarrow> nat" and enc :: "'x \<Rightarrow> HMEM"
    and ok :: "'x \<Rightarrow> bool" +
  fixes unser :: "'s \<Rightarrow> ('x \<times> 's) option"
  assumes unser_at: "ok x \<Longrightarrow> at_bytes s (enc x @ rest) \<Longrightarrow>
      \<exists>s'. unser s = Some (x, s') \<and> at_bytes s' rest"
begin

lemma ser_unser:
  assumes "ok x" "inv s" "content s = []" "readable (wr s (enc x))"
  shows "\<exists>s1 s2. ser s x = Some s1 \<and> length (content s1) = sz x
    \<and> unser s1 = Some (x, s2) \<and> content s2 = []"
proof -
  have "at_bytes (wr s (enc x)) (enc x @ [])"
    using read_all_written [OF assms(2-4)] by simp
  from unser_at [OF assms(1) this] obtain s2
    where "unser (wr s (enc x)) = Some (x, s2)" "at_bytes s2 []" by blast
  with assms show ?thesis
    by (auto simp: ser_enc size_enc write_content at_bytes_def)
qed

end

context byte_sink
begin

lemma int_encoder:
  "encoder wr (\<lambda>s x. Some (Serialize_int wr s (x :: 'a::len word)))
     GetSerializeSize_int obj_bytes (\<lambda>_. byte_width TYPE('a))"
  by unfold_locales (simp_all add: Serialize_int_def WRITEDATA_def GetSerializeSize_int_def)

lemma bool_encoder:
  "encoder wr (\<lambda>s x. Some (Serialize_bool wr s x))
     GetSerializeSize_bool (\<lambda>a. [if a then 1 else 0]) (\<lambda>_. True)"
  by unfold_locales
    (simp_all add: Serialize_bool_def WRITEDATA_def GetSerializeSize_bool_def Let_def)

end

context byte_stream
begin

lemma codecI:
  assumes "encoder wr ser sz enc ok"
    and "\<And>x s rest. ok x \<Longrightarrow> at_bytes s (enc x @ rest) \<Longrightarrow>
      \<exists>s'. unser s = Some (x, s') \<and> at_bytes s' rest"
  shows "codec wr content inv rd readable ser sz enc ok unser"
  using assms byte_stream_axioms by (simp add: codec_def codec_axioms_def)

lemma READDATA_at:
  assumes "byte_width TYPE('a::len)" "at_bytes s (obj_bytes (w :: 'a word) @ rest)"
  shows "\<exists>s'. READDATA rd s = Some (w, s') \<and> at_bytes s' rest"
proof -
  obtain s' where "rd s (size_of TYPE('a)) = Some (obj_bytes w, s')" "at_bytes s' rest"
    by (rule read_at [OF assms(2) length_obj_bytes])
  with assms(1) show ?thesis by (simp add: READDATA_def obj_roundtrip)
qed

lemma READDATA_byte:
  assumes "at_bytes s (b # rest)"
  shows "\<exists>s'. READDATA rd s = Some (b, s') \<and> at_bytes s' rest"
  using READDATA_at [of s b rest] assms by simp

lemma int_codec:
  "codec wr content inv rd readable (\<lambda>s x. Some (Serialize_int wr s (x :: 'a::len word)))
     GetSerializeSize_int obj_bytes (\<lambda>_. byte_width TYPE('a)) (Unserialize_int rd)"
  by (rule codecI [OF int_encoder]) (auto simp: Unserialize_int_def dest: READDATA_at)

lemma bool_codec:
  "codec wr content inv rd readable (\<lambda>s x. Some (Serialize_bool wr s x))
     GetSerializeSize_bool (\<lambda>a. [if a then 1 else 0]) (\<lambda>_. True) (Unserialize_bool rd)"
proof (rule codecI [OF bool_encoder])
  fix x :: bool and s rest
  assume "at_bytes s ([if x then 1 else 0] @ rest)"
  then obtain s' where "READDATA rd s = Some (if x then 1 else 0 :: HUCH, s')" "at_bytes s' rest"
    using READDATA_byte by fastforce
  then show "\<exists>s'. Unserialize_bool rd s = Some (x, s') \<and> at_bytes s' rest"
    by (auto simp: Unserialize_bool_def)
qed

end

subsection \<open>The encoding of a compact size\<close>

definition compact_bytes :: "HULN \<Rightarrow> HMEM" where
  "compact_bytes n =
     (if n < 253 then [ucast n]
      else if n \<le> 0xFFFF then 253 # obj_bytes (ucast n :: HUSN)
      else if n \<le> 0xFFFFFFFF then 254 # obj_bytes (ucast n :: HUN)
      else 255 # obj_bytes n)"

lemma ucast_down_up:
  assumes "unat (n :: HULN) < 2 ^ LENGTH('b)"
  shows "ucast (ucast n :: 'b::len word) = n"
  by (rule word_unat_eq_iff [THEN iffD2])
    (use assms unsigned_less [of n, where ?'a = nat] in
      \<open>simp add: unsigned_ucast_eq unsigned_take_bit_eq take_bit_nat_eq_self\<close>)

lemma compact_ucast:
  "n < 253 \<Longrightarrow> ucast (ucast n :: HUCH) = (n :: HULN)"
  "n < 253 \<Longrightarrow> (ucast n :: HUCH) < 253"
  "n \<le> 0xFFFF \<Longrightarrow> ucast (ucast n :: HUSN) = (n :: HULN)"
  "n \<le> 0xFFFFFFFF \<Longrightarrow> ucast (ucast n :: HUN) = (n :: HULN)"
     apply (auto intro!: ucast_down_up simp: word_less_nat_alt word_le_nat_alt)
  apply (simp add: unsigned_ucast_eq take_bit_nat_eq_self)
  done

lemma length_compact_bytes: "length (compact_bytes n) = GetSizeOfCompactSize n"
  by (simp add: GetSizeOfCompactSize_def compact_bytes_def)

context byte_sink
begin

lemma WriteCompactSize_bytes: "WriteCompactSize wr s n = wr s (compact_bytes n)"
  by (simp add: WriteCompactSize_def compact_bytes_def WRITEDATA_def)

lemma compact_encoder:
  "encoder wr (\<lambda>s x. Some (WriteCompactSize wr s x)) GetSizeOfCompactSize compact_bytes (\<lambda>_. True)"
  by unfold_locales (simp_all add: WriteCompactSize_bytes length_compact_bytes)

lemma WriteVarInt_bytes:
  assumes "byte_width TYPE('a::len)"
  shows "WriteVarInt wr os (n :: 'a word) = Some (wr os (varint_bytes n))"
proof -
  let ?tmp = "replicate ((size_of TYPE('a) * 8 + 6) div 7) (0 :: HUCH)"
  let ?D = "varint_digits 0 n"
  have le: "length ?D \<le> length ?tmp"
    using length_varint_digits_le [OF assms, of 0 n] by simp
  have ne: "0 < length ?D"
    by (subst varint_digits.simps) simp
  have "WriteVarInt_fill n 0 ?tmp = Some (length ?D - 1, ?D @ drop (length ?D) ?tmp)"
    using WriteVarInt_fill_digits [of "[]" n ?tmp] le by simp
  moreover have "WriteVarInt_out wr os (?D @ drop (length ?D) ?tmp) (length ?D - 1)
      = wr os (rev (take (Suc (length ?D - 1)) (?D @ drop (length ?D) ?tmp)))"
  proof (rule WriteVarInt_out_bytes)
    show "length ?D - 1 < length (?D @ drop (length ?D) ?tmp)"
      using ne unfolding length_append by linarith
  qed simp
  ultimately show ?thesis
    using ne by (simp add: WriteVarInt_def varint_bytes_def)
qed

lemma varint_encoder:
  "encoder wr (WriteVarInt wr) GetSizeOfVarInt varint_bytes (\<lambda>_ :: 'a::len word. byte_width TYPE('a))"
  by unfold_locales (auto simp: WriteVarInt_bytes length_varint_bytes)

end

context byte_stream
begin

lemma ReadCompactSize_at:
  assumes "at_bytes s (compact_bytes n @ rest)"
  shows "\<exists>s'. ReadCompactSize rd s = Some (n, s') \<and> at_bytes s' rest"
proof -
  consider (b8) "n < 253" | (b16) "\<not> n < 253" "n \<le> 0xFFFF"
    | (b32) "\<not> n < 253" "\<not> n \<le> 0xFFFF" "n \<le> 0xFFFFFFFF"
    | (b64) "\<not> n < 253" "\<not> n \<le> 0xFFFF" "\<not> n \<le> 0xFFFFFFFF" by blast
  then show ?thesis
  proof cases
    case b8
    with assms obtain s' where "READDATA rd s = Some (ucast n :: HUCH, s')" "at_bytes s' rest"
      using READDATA_byte by (fastforce simp: compact_bytes_def)
    with b8 show ?thesis by (simp add: ReadCompactSize_def compact_ucast)
  next
    case b16
    with assms have "at_bytes s (253 # obj_bytes (ucast n :: HUSN) @ rest)"
      by (simp add: compact_bytes_def)
    then obtain s1 where 1: "READDATA rd s = Some (253 :: HUCH, s1)"
        "at_bytes s1 (obj_bytes (ucast n :: HUSN) @ rest)"
      using READDATA_byte by blast
    then obtain s2 where "READDATA rd s1 = Some (ucast n :: HUSN, s2)" "at_bytes s2 rest"
      using READDATA_at [of s1 "ucast n :: HUSN"] by auto
    with 1(1) b16 show ?thesis by (simp add: ReadCompactSize_def compact_ucast)
  next
    case b32
    with assms have "at_bytes s (254 # obj_bytes (ucast n :: HUN) @ rest)"
      by (simp add: compact_bytes_def)
    then obtain s1 where 1: "READDATA rd s = Some (254 :: HUCH, s1)"
        "at_bytes s1 (obj_bytes (ucast n :: HUN) @ rest)"
      using READDATA_byte by blast
    then obtain s2 where "READDATA rd s1 = Some (ucast n :: HUN, s2)" "at_bytes s2 rest"
      using READDATA_at [of s1 "ucast n :: HUN"] by auto
    with 1(1) b32 show ?thesis by (simp add: ReadCompactSize_def compact_ucast)
  next
    case b64
    with assms have "at_bytes s (255 # obj_bytes n @ rest)"
      by (simp add: compact_bytes_def)
    then obtain s1 where 1: "READDATA rd s = Some (255 :: HUCH, s1)" "at_bytes s1 (obj_bytes n @ rest)"
      using READDATA_byte by blast
    then obtain s2 where "READDATA rd s1 = Some (n, s2)" "at_bytes s2 rest"
      using READDATA_at [of s1 n] by auto
    with 1(1) b64 show ?thesis by (simp add: ReadCompactSize_def)
  qed
qed

lemma compact_codec:
  "codec wr content inv rd readable (\<lambda>s x. Some (WriteCompactSize wr s x))
     GetSizeOfCompactSize compact_bytes (\<lambda>_. True) (ReadCompactSize rd)"
  by (rule codecI [OF compact_encoder]) (rule ReadCompactSize_at)

text \<open>Reading a variable-length integer.\<close>

lemma ReadVarInt_step:
  assumes "at_bytes s (b # rest)"
  shows "\<exists>s'. at_bytes s' rest \<and> ReadVarInt_loop rd s n =
    (let n' = push_bit 7 n OR ucast (b AND 0x7F)
     in if b AND 0x80 \<noteq> 0 then ReadVarInt_loop rd s' (n' + 1) else Some (n', s'))"
  using READDATA_byte [OF assms] by (auto simp: ReadVarInt_loop.simps [of rd s n])

lemma ReadVarInt_loop_digits:
  fixes m :: "'a::len word"
  assumes "at_bytes s (rev (varint_digits (Suc l) m) @ rest)"
  shows "\<exists>s'. at_bytes s' rest \<and> ReadVarInt_loop rd s 0 = ReadVarInt_loop rd s' (m + 1)"
  using assms
proof (induction m arbitrary: l s rest rule: measure_induct_rule [where f = unat])
  case (less m)
  let ?d = "ucast (m AND 0x7F) OR 0x80 :: HUCH"
  show ?case
  proof (cases "m \<le> 0x7F")
    case True
    with less.prems have "at_bytes s (?d # rest)"
      by (simp add: varint_digits.simps [of "Suc l" m])
    from ReadVarInt_step [OF this, of "0 :: 'a word"] show ?thesis
      using group_value [of "0x80" m] group_small [OF True] group_flag(1) [of m] by auto
  next
    case False
    with less.prems have "at_bytes s (rev (varint_digits (Suc (Suc l)) (drop_bit 7 m - 1)) @ ?d # rest)"
      by (simp add: varint_digits.simps [of "Suc l" m])
    from less.IH [OF varint_decreases [OF False] this] obtain s1
      where "at_bytes s1 (?d # rest)" "ReadVarInt_loop rd s 0 = ReadVarInt_loop rd s1 (drop_bit 7 m)"
      using varint_shift(3) [OF False] by auto
    with ReadVarInt_step [of s1 ?d rest "drop_bit 7 m"] show ?thesis
      using group_value [of "0x80" m] group_join [of m] group_flag(1) [of m] by auto
  qed
qed

lemma ReadVarInt_at:
  fixes n :: "'a::len word"
  assumes "at_bytes s (varint_bytes n @ rest)"
  shows "\<exists>s'. ReadVarInt rd s = Some (n, s') \<and> at_bytes s' rest"
proof (cases "n \<le> 0x7F")
  case True
  with assms have "at_bytes s (ucast (n AND 0x7F) # rest)"
    by (simp add: varint_bytes_def varint_digits.simps [of 0 n])
  from ReadVarInt_step [OF this, of "0 :: 'a word"] show ?thesis
    using group_value [of 0 n] group_small [OF True] group_flag(2) [of n]
    by (auto simp: ReadVarInt_def)
next
  case False
  with assms have "at_bytes s (rev (varint_digits (Suc 0) (drop_bit 7 n - 1)) @ ucast (n AND 0x7F) # rest)"
    by (simp add: varint_bytes_def varint_digits.simps [of 0 n])
  from ReadVarInt_loop_digits [OF this] obtain s1
    where "at_bytes s1 (ucast (n AND 0x7F) # rest)"
      "ReadVarInt_loop rd s 0 = ReadVarInt_loop rd s1 (drop_bit 7 n)"
    using varint_shift(3) [OF False] by auto
  with ReadVarInt_step [of s1 "ucast (n AND 0x7F)" rest "drop_bit 7 n"] show ?thesis
    using group_value [of 0 n] group_join [of n] group_flag(2) [of n]
    by (auto simp: ReadVarInt_def)
qed

lemma varint_codec:
  "codec wr content inv rd readable (WriteVarInt wr) GetSizeOfVarInt varint_bytes
     (\<lambda>_ :: 'a::len word. byte_width TYPE('a)) (ReadVarInt rd)"
  by (rule codecI [OF varint_encoder]) (rule ReadVarInt_at)

end

subsection \<open>The scalar codecs on the data stream\<close>

interpretation ds_int: codec CDataStream_write CDataStream_str ds_inv CDataStream_read ds_small
    "\<lambda>s x. Some (Serialize_int CDataStream_write s (x :: 'a::len word))" GetSerializeSize_int
    obj_bytes "\<lambda>_. byte_width TYPE('a)" "Unserialize_int CDataStream_read"
  by (rule data_stream.int_codec)

interpretation ds_bool: codec CDataStream_write CDataStream_str ds_inv CDataStream_read ds_small
    "\<lambda>s x. Some (Serialize_bool CDataStream_write s x)" GetSerializeSize_bool
    "\<lambda>a. [if a then 1 else 0]" "\<lambda>_. True" "Unserialize_bool CDataStream_read"
  by (rule data_stream.bool_codec)

interpretation ds_compact: codec CDataStream_write CDataStream_str ds_inv CDataStream_read ds_small
    "\<lambda>s x. Some (WriteCompactSize CDataStream_write s x)" GetSizeOfCompactSize
    compact_bytes "\<lambda>_. True" "ReadCompactSize CDataStream_read"
  by (rule data_stream.compact_codec)

interpretation ds_varint: codec CDataStream_write CDataStream_str ds_inv CDataStream_read ds_small
    "WriteVarInt CDataStream_write" GetSizeOfVarInt varint_bytes
    "\<lambda>_ :: 'a::len word. byte_width TYPE('a)" "ReadVarInt CDataStream_read"
  by (rule data_stream.varint_codec)

lemma ds_small_write:
  "ds_small (CDataStream_write s bs) \<longleftrightarrow> length (vch s) + length bs < 2 ^ 32"
  by (simp add: ds_small_def CDataStream_write_def)

text \<open>
  C6: a variable-length integer of any byte width survives a trip through the stream. The
  writer never leaves its fixed array, it writes exactly \<^verbatim>\<open>GetSizeOfVarInt\<close> bytes, and the
  reader, whose loop has no bound of its own, returns, with the stream empty again.
\<close>

theorem VarInt_roundtrip:
  fixes n :: "'a::len word"
  assumes "byte_width TYPE('a)" "ds_inv s" "CDataStream_str s = []"
    and "length (vch s) + GetSizeOfVarInt n < 2 ^ 32"
  shows "\<exists>s1 s2. WriteVarInt CDataStream_write s n = Some s1 \<and>
           length (CDataStream_str s1) = GetSizeOfVarInt n \<and>
           ReadVarInt CDataStream_read s1 = Some (n, s2) \<and> CDataStream_str s2 = []"
  using assms by (intro ds_varint.ser_unser) (simp_all add: ds_small_write length_varint_bytes)

theorem VarInt_roundtrip_witness:
  "\<exists>s1 s2. WriteVarInt CDataStream_write (CDataStream_new 0 []) (300 :: HUN) = Some s1 \<and>
     length (CDataStream_str s1) = 2 \<and>
     ReadVarInt CDataStream_read s1 = Some (300 :: HUN, s2) \<and> CDataStream_str s2 = []"
proof -
  have "GetSizeOfVarInt (300 :: HUN) = 2"
    by (simp add: GetSizeOfVarInt_def GetSizeOfVarInt_loop.simps)
  then show ?thesis
    using VarInt_roundtrip [of "CDataStream_new 0 []" "300 :: HUN"]
    by (simp add: CDataStream_new_def CDataStream_Init_def ds_basic)
qed

text \<open>
  a compact size survives a trip through the stream in 1, 3, 5 or 9 bytes, the number
  \<^verbatim>\<open>GetSizeOfCompactSize\<close> announces.
\<close>

theorem CompactSize_roundtrip:
  assumes "ds_inv s" "CDataStream_str s = []" "length (vch s) + 9 < 2 ^ 32"
  shows "\<exists>s2. ReadCompactSize CDataStream_read (WriteCompactSize CDataStream_write s n) = Some (n, s2) \<and>
           length (CDataStream_str (WriteCompactSize CDataStream_write s n)) = GetSizeOfCompactSize n \<and>
           CDataStream_str s2 = [] \<and>
           GetSizeOfCompactSize n =
             (if unat n < 253 then 1 else if unat n < 2 ^ 16 then 3 else if unat n < 2 ^ 32 then 5 else 9)"
proof -
  have sz: "GetSizeOfCompactSize n =
      (if unat n < 253 then 1 else if unat n < 2 ^ 16 then 3 else if unat n < 2 ^ 32 then 5 else 9)"
    by (auto simp: GetSizeOfCompactSize_def word_less_nat_alt word_le_nat_alt)
  then have "GetSizeOfCompactSize n \<le> 9" by simp
  then have "ds_small (CDataStream_write s (compact_bytes n))"
    using assms(3) by (simp add: ds_small_write length_compact_bytes)
  from ds_compact.ser_unser [OF TrueI assms(1,2) this] sz show ?thesis by auto
qed

theorem CompactSize_roundtrip_witness:
  "\<exists>s2. ReadCompactSize CDataStream_read
          (WriteCompactSize CDataStream_write (CDataStream_new 0 []) 70000) = Some (70000, s2) \<and>
        CDataStream_str s2 = []"
  using CompactSize_roundtrip [of "CDataStream_new 0 []" 70000]
  by (auto simp: CDataStream_new_def CDataStream_Init_def ds_basic)

end
