(* ===== verification/Serialize_Containers.thy ===== *)
theory Serialize_Containers
  imports Serialize_Int "HOL-Library.Monad_Syntax"
begin

text \<open>
  The container templates of \<^verbatim>\<open>src/src/hserialize.h\<close>: strings, vectors (the raw-copy and the
  element-wise versions with their bounded-block read loops), pairs, maps and sets, and the
  wrappers for flat data. Element operations are parameters; the lemmas assume the codec
  contract for them and show it for the container, so that nested containers compose.

  A \<^verbatim>\<open>std::map\<close> or \<^verbatim>\<open>std::set\<close> is the list of its nodes in iteration order, ascending by key.
\<close>

subsection \<open>Flat data\<close>

definition CFlatData_GetSerializeSize :: "HMEM \<Rightarrow> nat" where
  "CFlatData_GetSerializeSize obj = length obj"

definition CFlatData_Serialize :: "('s \<Rightarrow> HMEM \<Rightarrow> 's) \<Rightarrow> 's \<Rightarrow> HMEM \<Rightarrow> 's" where
  "CFlatData_Serialize wr s obj = wr s obj"

definition CFlatData_Unserialize ::
    "('s \<Rightarrow> nat \<Rightarrow> (HMEM \<times> 's) option) \<Rightarrow> HMEM \<Rightarrow> 's \<Rightarrow> (HMEM \<times> 's) option" where
  "CFlatData_Unserialize rd obj s = rd s (length obj)"

subsection \<open>Arrays of fundamental elements\<close>

definition objs_bytes :: "'a::len word list \<Rightarrow> HMEM" where
  "objs_bytes v = concat (map obj_bytes v)"

primrec objs_of_bytes :: "nat \<Rightarrow> HMEM \<Rightarrow> 'a::len word list" where
  "objs_of_bytes 0 bs = []"
| "objs_of_bytes (Suc n) bs =
     obj_of_bytes (take (size_of TYPE('a)) bs) # objs_of_bytes n (drop (size_of TYPE('a)) bs)"

subsection \<open>Strings\<close>

definition GetSerializeSize_string :: "'a::len word list \<Rightarrow> nat" where
  "GetSerializeSize_string str =
     GetSizeOfCompactSize (word_of_nat (length str)) + length str * size_of TYPE('a)"

definition Serialize_string :: "('s \<Rightarrow> HMEM \<Rightarrow> 's) \<Rightarrow> 's \<Rightarrow> 'a::len word list \<Rightarrow> 's" where
  "Serialize_string wr os str =
     (let os = WriteCompactSize wr os (word_of_nat (length str))
      in if str \<noteq> [] then wr os (objs_bytes str) else os)"

definition Unserialize_string ::
    "('s \<Rightarrow> nat \<Rightarrow> (HMEM \<times> 's) option) \<Rightarrow> 's \<Rightarrow> ('a::len word list \<times> 's) option" where
  "Unserialize_string rd is =
     do { (n, is) \<leftarrow> ReadCompactSize rd is;
          let nSize = (ucast n :: HUN);
          if nSize \<noteq> 0
          then do { (bs, is) \<leftarrow> rd is (unat nSize * size_of TYPE('a));
                    Some (objs_of_bytes (unat nSize) bs, is) }
          else Some ([], is) }"

subsection \<open>Vectors\<close>

definition GetSerializeSize_vector_true :: "'a::len word list \<Rightarrow> nat" where
  "GetSerializeSize_vector_true v =
     GetSizeOfCompactSize (word_of_nat (length v)) + length v * size_of TYPE('a)"

definition GetSerializeSize_vector_false :: "('x \<Rightarrow> nat) \<Rightarrow> 'x list \<Rightarrow> nat" where
  "GetSerializeSize_vector_false sz v =
     foldl (\<lambda>nSize x. nSize + sz x) (GetSizeOfCompactSize (word_of_nat (length v))) v"

definition Serialize_vector_true :: "('s \<Rightarrow> HMEM \<Rightarrow> 's) \<Rightarrow> 's \<Rightarrow> 'a::len word list \<Rightarrow> 's" where
  "Serialize_vector_true wr os v =
     (let os = WriteCompactSize wr os (word_of_nat (length v))
      in if v \<noteq> [] then wr os (objs_bytes v) else os)"

fun Serialize_elems :: "('s \<Rightarrow> 'x \<Rightarrow> 's option) \<Rightarrow> 's \<Rightarrow> 'x list \<Rightarrow> 's option" where
  "Serialize_elems ser os [] = Some os"
| "Serialize_elems ser os (x # xs) = do { os \<leftarrow> ser os x; Serialize_elems ser os xs }"

definition Serialize_vector_false ::
    "('s \<Rightarrow> HMEM \<Rightarrow> 's) \<Rightarrow> ('s \<Rightarrow> 'x \<Rightarrow> 's option) \<Rightarrow> 's \<Rightarrow> 'x list \<Rightarrow> 's option" where
  "Serialize_vector_false wr ser os v =
     Serialize_elems ser (WriteCompactSize wr os (word_of_nat (length v))) v"

text \<open>
  The raw read loop. The three numbers are \<^verbatim>\<open>unsigned int\<close>; every round makes progress, so
  the loop ends for every announced size.
\<close>

definition vec_resize :: "'x \<Rightarrow> 'x list \<Rightarrow> nat \<Rightarrow> 'x list" where
  "vec_resize d v n = take n v @ replicate (n - length v) d"

definition read_blk :: "'a::len itself \<Rightarrow> HUN \<Rightarrow> HUN \<Rightarrow> HUN" where
  "read_blk T nSize i = min (nSize - i) (word_of_nat (1 + 4999999 div size_of T))"

lemma read_blk_progress:
  assumes "i < nSize"
  shows "0 < unat (read_blk TYPE('a::len) nSize i)"
    and "unat (i + read_blk TYPE('a::len) nSize i) = unat i + unat (read_blk TYPE('a) nSize i)"
    and "unat i + unat (read_blk TYPE('a) nSize i) \<le> unat nSize"
proof -
  let ?c = "1 + 4999999 div size_of TYPE('a)"
  have "?c \<le> 1 + 4999999" by (intro add_left_mono div_le_dividend)
  also have "\<dots> < 2 ^ 32" by simp
  finally have c: "unat (word_of_nat ?c :: HUN) = ?c"
    by (rule unat_HUN_small)
  have d: "unat (nSize - i) = unat nSize - unat i"
    using assms by (simp add: unat_sub)
  have lt: "unat i < unat nSize" using assms by (simp add: word_less_nat_alt)
  have b: "unat (read_blk TYPE('a) nSize i) = min (unat nSize - unat i) ?c"
    using c d by (simp add: read_blk_def min_def word_le_nat_alt del: of_nat_add of_nat_Suc)
  with lt show "0 < unat (read_blk TYPE('a) nSize i)"
    and le: "unat i + unat (read_blk TYPE('a) nSize i) \<le> unat nSize" by auto
  have "unat nSize < 2 ^ 32" using unsigned_less [of nSize, where ?'a = nat] by simp
  with le show "unat (i + read_blk TYPE('a) nSize i) = unat i + unat (read_blk TYPE('a) nSize i)"
    by (subst unat_add_lem [THEN iffD1]) simp_all
qed

lemma read_blk_decreases:
  "i < nSize \<Longrightarrow>
     unat nSize - unat (i + read_blk TYPE('a::len) nSize i) < unat nSize - unat i"
  using read_blk_progress [where ?'a = 'a, of i nSize] by linarith

function Unserialize_vector_true_loop ::
    "('s \<Rightarrow> nat \<Rightarrow> (HMEM \<times> 's) option) \<Rightarrow> HUN \<Rightarrow> HUN \<Rightarrow> 'a::len word list \<Rightarrow> 's
       \<Rightarrow> ('a word list \<times> 's) option" where
  "Unserialize_vector_true_loop rd nSize i v is =
     (if i < nSize
      then (let blk = read_blk TYPE('a) nSize i;
                v = vec_resize 0 v (unat (i + blk))
            in do { (bs, is) \<leftarrow> rd is (unat blk * size_of TYPE('a));
                    v \<leftarrow> mem_write v (unat i) (objs_of_bytes (unat blk) bs);
                    Unserialize_vector_true_loop rd nSize (i + blk) v is })
      else Some (v, is))"
  by pat_completeness auto
termination
  by (relation "measure (\<lambda>(_, nSize, i, _, _). unat nSize - unat i)")
    (simp_all add: read_blk_decreases)

definition Unserialize_vector_true ::
    "('s \<Rightarrow> nat \<Rightarrow> (HMEM \<times> 's) option) \<Rightarrow> 's \<Rightarrow> ('a::len word list \<times> 's) option" where
  "Unserialize_vector_true rd is =
     do { (n, is) \<leftarrow> ReadCompactSize rd is;
          Unserialize_vector_true_loop rd (ucast n) 0 [] is }"

text \<open>
  The element-wise loops. \<open>T_size\<close> is \<^verbatim>\<open>sizeof(T)\<close> and \<open>d\<close> the value \<^verbatim>\<open>resize\<close> constructs. The
  outer loop adds \<^verbatim>\<open>5000000 / sizeof(T)\<close> to an \<^verbatim>\<open>unsigned int\<close> and need not end.
\<close>

function Unserialize_elems ::
    "('s \<Rightarrow> ('x \<times> 's) option) \<Rightarrow> HUN \<Rightarrow> HUN \<Rightarrow> 'x list \<Rightarrow> 's \<Rightarrow> (HUN \<times> 'x list \<times> 's) option" where
  "Unserialize_elems unser nMid i v is =
     (if i < nMid
      then do { (x, is) \<leftarrow> unser is;
                Unserialize_elems unser nMid (i + 1) (v[unat i := x]) is }
      else Some (i, v, is))"
  by pat_completeness auto
termination
  by (relation "measure (\<lambda>(_, nMid, i, _, _). unat nMid - unat i)")
    (simp_all add: unat_inc_decreases)

partial_function (option) Unserialize_vector_false_loop ::
    "('s \<Rightarrow> ('x \<times> 's) option) \<Rightarrow> nat \<Rightarrow> 'x \<Rightarrow> HUN \<Rightarrow> HUN \<Rightarrow> HUN \<Rightarrow> 'x list \<Rightarrow> 's
       \<Rightarrow> ('x list \<times> 's) option" where
  "Unserialize_vector_false_loop unser T_size d nSize nMid i v is =
     (if nMid < nSize
      then (let nMid = nMid + word_of_nat (5000000 div T_size);
                nMid = (if nMid > nSize then nSize else nMid);
                v = vec_resize d v (unat nMid)
            in do { (i, v, is) \<leftarrow> Unserialize_elems unser nMid i v is;
                    Unserialize_vector_false_loop unser T_size d nSize nMid i v is })
      else Some (v, is))"

definition Unserialize_vector_false ::
    "('s \<Rightarrow> nat \<Rightarrow> (HMEM \<times> 's) option) \<Rightarrow> ('s \<Rightarrow> ('x \<times> 's) option) \<Rightarrow> nat \<Rightarrow> 'x \<Rightarrow> 's
       \<Rightarrow> ('x list \<times> 's) option" where
  "Unserialize_vector_false rd unser T_size d is =
     do { (n, is) \<leftarrow> ReadCompactSize rd is;
          Unserialize_vector_false_loop unser T_size d (ucast n) 0 0 [] is }"

declare Unserialize_vector_true_loop.simps [simp del] Unserialize_elems.simps [simp del]

subsection \<open>Pairs\<close>

definition GetSerializeSize_pair :: "('k \<Rightarrow> nat) \<Rightarrow> ('t \<Rightarrow> nat) \<Rightarrow> 'k \<times> 't \<Rightarrow> nat" where
  "GetSerializeSize_pair sz1 sz2 item = sz1 (fst item) + sz2 (snd item)"

definition Serialize_pair ::
    "('s \<Rightarrow> 'k \<Rightarrow> 's option) \<Rightarrow> ('s \<Rightarrow> 't \<Rightarrow> 's option) \<Rightarrow> 's \<Rightarrow> 'k \<times> 't \<Rightarrow> 's option" where
  "Serialize_pair ser1 ser2 os item = do { os \<leftarrow> ser1 os (fst item); ser2 os (snd item) }"

definition Unserialize_pair ::
    "('s \<Rightarrow> ('k \<times> 's) option) \<Rightarrow> ('s \<Rightarrow> ('t \<times> 's) option) \<Rightarrow> 's \<Rightarrow> (('k \<times> 't) \<times> 's) option" where
  "Unserialize_pair unser1 unser2 is =
     do { (a, is) \<leftarrow> unser1 is; (b, is) \<leftarrow> unser2 is; Some ((a, b), is) }"

subsection \<open>Maps and sets\<close>

text \<open>
  \<^verbatim>\<open>insert\<close> with a hint: the hint only affects the cost. An element with an equivalent key
  is kept and the new one is dropped. The order \<open>lt\<close> is the template parameter \<^verbatim>\<open>Pred\<close>.
\<close>

fun map_insert :: "('k \<Rightarrow> 'k \<Rightarrow> bool) \<Rightarrow> 'k \<times> 't \<Rightarrow> ('k \<times> 't) list \<Rightarrow> ('k \<times> 't) list" where
  "map_insert lt item [] = [item]"
| "map_insert lt item (x # m) =
     (if lt (fst item) (fst x) then item # x # m
      else if lt (fst x) (fst item) then x # map_insert lt item m else x # m)"

definition GetSerializeSize_map ::
    "('k \<Rightarrow> nat) \<Rightarrow> ('t \<Rightarrow> nat) \<Rightarrow> ('k \<times> 't) list \<Rightarrow> nat" where
  "GetSerializeSize_map sz1 sz2 m =
     foldl (\<lambda>nSize x. nSize + GetSerializeSize_pair sz1 sz2 x)
       (GetSizeOfCompactSize (word_of_nat (length m))) m"

definition Serialize_map ::
    "('s \<Rightarrow> HMEM \<Rightarrow> 's) \<Rightarrow> ('s \<Rightarrow> 'k \<Rightarrow> 's option) \<Rightarrow> ('s \<Rightarrow> 't \<Rightarrow> 's option)
       \<Rightarrow> 's \<Rightarrow> ('k \<times> 't) list \<Rightarrow> 's option" where
  "Serialize_map wr ser1 ser2 os m =
     Serialize_elems (Serialize_pair ser1 ser2) (WriteCompactSize wr os (word_of_nat (length m))) m"

primrec Unserialize_map_loop ::
    "('k \<Rightarrow> 'k \<Rightarrow> bool) \<Rightarrow> ('s \<Rightarrow> (('k \<times> 't) \<times> 's) option) \<Rightarrow> nat \<Rightarrow> ('k \<times> 't) list \<Rightarrow> 's
       \<Rightarrow> (('k \<times> 't) list \<times> 's) option" where
  "Unserialize_map_loop lt unser 0 m is = Some (m, is)"
| "Unserialize_map_loop lt unser (Suc n) m is =
     do { (item, is) \<leftarrow> unser is; Unserialize_map_loop lt unser n (map_insert lt item m) is }"

definition Unserialize_map ::
    "('s \<Rightarrow> nat \<Rightarrow> (HMEM \<times> 's) option) \<Rightarrow> ('k \<Rightarrow> 'k \<Rightarrow> bool) \<Rightarrow> ('s \<Rightarrow> ('k \<times> 's) option)
       \<Rightarrow> ('s \<Rightarrow> ('t \<times> 's) option) \<Rightarrow> 's \<Rightarrow> (('k \<times> 't) list \<times> 's) option" where
  "Unserialize_map rd lt unser1 unser2 is =
     do { (n, is) \<leftarrow> ReadCompactSize rd is;
          Unserialize_map_loop lt (Unserialize_pair unser1 unser2) (unat (ucast n :: HUN)) [] is }"

fun set_insert :: "('k \<Rightarrow> 'k \<Rightarrow> bool) \<Rightarrow> 'k \<Rightarrow> 'k list \<Rightarrow> 'k list" where
  "set_insert lt key [] = [key]"
| "set_insert lt key (x # m) =
     (if lt key x then key # x # m else if lt x key then x # set_insert lt key m else x # m)"

definition GetSerializeSize_set :: "('k \<Rightarrow> nat) \<Rightarrow> 'k list \<Rightarrow> nat" where
  "GetSerializeSize_set sz m =
     foldl (\<lambda>nSize x. nSize + sz x) (GetSizeOfCompactSize (word_of_nat (length m))) m"

definition Serialize_set ::
    "('s \<Rightarrow> HMEM \<Rightarrow> 's) \<Rightarrow> ('s \<Rightarrow> 'k \<Rightarrow> 's option) \<Rightarrow> 's \<Rightarrow> 'k list \<Rightarrow> 's option" where
  "Serialize_set wr ser os m =
     Serialize_elems ser (WriteCompactSize wr os (word_of_nat (length m))) m"

primrec Unserialize_set_loop ::
    "('k \<Rightarrow> 'k \<Rightarrow> bool) \<Rightarrow> ('s \<Rightarrow> ('k \<times> 's) option) \<Rightarrow> nat \<Rightarrow> 'k list \<Rightarrow> 's
       \<Rightarrow> ('k list \<times> 's) option" where
  "Unserialize_set_loop lt unser 0 m is = Some (m, is)"
| "Unserialize_set_loop lt unser (Suc n) m is =
     do { (key, is) \<leftarrow> unser is; Unserialize_set_loop lt unser n (set_insert lt key m) is }"

definition Unserialize_set ::
    "('s \<Rightarrow> nat \<Rightarrow> (HMEM \<times> 's) option) \<Rightarrow> ('k \<Rightarrow> 'k \<Rightarrow> bool) \<Rightarrow> ('s \<Rightarrow> ('k \<times> 's) option) \<Rightarrow> 's
       \<Rightarrow> ('k list \<times> 's) option" where
  "Unserialize_set rd lt unser is =
     do { (n, is) \<leftarrow> ReadCompactSize rd is;
          Unserialize_set_loop lt unser (unat (ucast n :: HUN)) [] is }"

subsection \<open>Encodings of arrays and sequences\<close>

definition seq_bytes :: "('x \<Rightarrow> HMEM) \<Rightarrow> 'x list \<Rightarrow> HMEM" where
  "seq_bytes enc xs = compact_bytes (word_of_nat (length xs)) @ concat (map enc xs)"

definition set_ok :: "('x \<Rightarrow> 'x \<Rightarrow> bool) \<Rightarrow> 'x list \<Rightarrow> bool" where
  "set_ok lt m \<longleftrightarrow> asymp lt \<and> sorted_wrt lt m \<and> length m < 2 ^ 32"

lemma objs_bytes_simps [simp]:
  "objs_bytes [] = []" "objs_bytes (x # v) = obj_bytes x @ objs_bytes v"
  by (simp_all add: objs_bytes_def)

lemma length_objs_bytes [simp]:
  "length (objs_bytes (v :: 'a::len word list)) = length v * size_of TYPE('a)"
  by (induction v) simp_all

lemma objs_bytes_append: "objs_bytes (u @ v) = objs_bytes u @ objs_bytes v"
  by (simp add: objs_bytes_def)

lemma objs_roundtrip:
  assumes "byte_width TYPE('a::len)"
  shows "objs_of_bytes (length v) (objs_bytes v) = (v :: 'a word list)"
  by (induction v) (simp_all add: obj_roundtrip assms)

lemma length_objs_of_bytes [simp]: "length (objs_of_bytes n bs) = n"
  by (induction n arbitrary: bs) simp_all

lemma length_seq_bytes:
  assumes "\<And>x. x \<in> set v \<Longrightarrow> sz x = length (enc x)"
  shows "length (seq_bytes enc v) =
    foldl (\<lambda>nSize x. nSize + sz x) (GetSizeOfCompactSize (word_of_nat (length v))) v"
proof -
  have "foldl (\<lambda>nSize x. nSize + sz x) a v = a + length (concat (map enc v))" for a
    using assms by (induction v arbitrary: a) simp_all
  then show ?thesis by (simp add: seq_bytes_def length_compact_bytes)
qed

lemma ucast_small_size:
  assumes "n < 2 ^ 32"
  shows "unat (ucast (word_of_nat n :: HULN) :: HUN) = n"
proof -
  have "n < 2 ^ 64" using assms by simp
  with assms show ?thesis
    by (simp add: unsigned_ucast_eq unat_of_nat take_bit_eq_mod)
qed

subsection \<open>Containers on a sink\<close>

context byte_sink
begin

lemma string_encoder:
  "encoder wr (\<lambda>s x. Some (Serialize_string wr s x)) GetSerializeSize_string
     (seq_bytes obj_bytes) (\<lambda>v :: 'a::len word list. byte_width TYPE('a) \<and> length v < 2 ^ 32)"
  by unfold_locales
    (simp_all add: Serialize_string_def GetSerializeSize_string_def WriteCompactSize_bytes
      seq_bytes_def length_compact_bytes Let_def flip: objs_bytes_def)

lemma vector_true_encoder:
  "encoder wr (\<lambda>s x. Some (Serialize_vector_true wr s x)) GetSerializeSize_vector_true
     (seq_bytes obj_bytes) (\<lambda>v :: 'a::len word list. byte_width TYPE('a) \<and> length v < 2 ^ 32)"
  by unfold_locales
    (simp_all add: Serialize_vector_true_def GetSerializeSize_vector_true_def
      WriteCompactSize_bytes seq_bytes_def length_compact_bytes Let_def flip: objs_bytes_def)

end

context encoder
begin

lemma Serialize_elems_enc:
  "list_all ok v \<Longrightarrow> Serialize_elems ser os v = Some (wr os (concat (map enc v)))"
  by (induction v arbitrary: os) (simp_all add: ser_enc)

lemma vector_false_encoder:
  "encoder wr (Serialize_vector_false wr ser) (GetSerializeSize_vector_false sz) (seq_bytes enc)
     (\<lambda>v. list_all ok v \<and> length v + 5000000 < 2 ^ 32)"
  by unfold_locales
    (auto simp: Serialize_vector_false_def Serialize_elems_enc WriteCompactSize_bytes seq_bytes_def
      GetSerializeSize_vector_false_def list_all_iff size_enc length_seq_bytes [symmetric])

lemma set_encoder:
  "encoder wr (Serialize_set wr ser) (GetSerializeSize_set sz) (seq_bytes enc)
     (\<lambda>m. list_all ok m \<and> set_ok lt m)"
  by unfold_locales
    (auto simp: Serialize_set_def Serialize_elems_enc WriteCompactSize_bytes seq_bytes_def
      GetSerializeSize_set_def list_all_iff size_enc length_seq_bytes [symmetric])

end

locale pair_encoder = k: encoder wr ser1 sz1 enc1 ok1 + t: encoder wr ser2 sz2 enc2 ok2
  for wr :: "'s \<Rightarrow> HMEM \<Rightarrow> 's"
    and ser1 :: "'s \<Rightarrow> 'k \<Rightarrow> 's option" and sz1 enc1 ok1
    and ser2 :: "'s \<Rightarrow> 't \<Rightarrow> 's option" and sz2 enc2 ok2
begin

definition pair_bytes :: "'k \<times> 't \<Rightarrow> HMEM" where
  "pair_bytes x = enc1 (fst x) @ enc2 (snd x)"

definition pair_ok :: "'k \<times> 't \<Rightarrow> bool" where
  "pair_ok x \<longleftrightarrow> ok1 (fst x) \<and> ok2 (snd x)"

lemma pair_encoder: "encoder wr (Serialize_pair ser1 ser2) (GetSerializeSize_pair sz1 sz2) pair_bytes pair_ok"
  by unfold_locales
    (simp_all add: Serialize_pair_def GetSerializeSize_pair_def pair_bytes_def pair_ok_def
      k.ser_enc t.ser_enc k.size_enc t.size_enc)

end

sublocale pair_encoder \<subseteq> item: encoder wr "Serialize_pair ser1 ser2" "GetSerializeSize_pair sz1 sz2"
    pair_bytes pair_ok
  by (rule pair_encoder)

context pair_encoder
begin

lemma map_encoder:
  "encoder wr (Serialize_map wr ser1 ser2) (GetSerializeSize_map sz1 sz2) (seq_bytes pair_bytes)
     (\<lambda>m. list_all pair_ok m \<and> set_ok (\<lambda>a b. lt (fst a) (fst b)) m)"
  by unfold_locales
    (auto simp: Serialize_map_def item.Serialize_elems_enc k.WriteCompactSize_bytes seq_bytes_def
      GetSerializeSize_map_def list_all_iff item.size_enc length_seq_bytes [symmetric])

end

subsection \<open>Containers on a stream\<close>

context byte_stream
begin

lemma string_codec:
  "codec wr content inv rd readable (\<lambda>s x. Some (Serialize_string wr s x)) GetSerializeSize_string
     (seq_bytes obj_bytes) (\<lambda>v :: 'a::len word list. byte_width TYPE('a) \<and> length v < 2 ^ 32)
     (Unserialize_string rd)"
proof (rule codecI [OF string_encoder])
  fix v :: "'a word list" and s rest
  assume ok: "byte_width TYPE('a) \<and> length v < 2 ^ 32"
  assume "at_bytes s (seq_bytes obj_bytes v @ rest)"
  then have "at_bytes s (compact_bytes (word_of_nat (length v)) @ (objs_bytes v @ rest))"
    by (simp add: seq_bytes_def objs_bytes_def)
  from ReadCompactSize_at [OF this] obtain s1 where
    s1: "ReadCompactSize rd s = Some (word_of_nat (length v), s1)" "at_bytes s1 (objs_bytes v @ rest)"
    by blast
  obtain s2 where "rd s1 (length v * size_of TYPE('a)) = Some (objs_bytes v, s2)" "at_bytes s2 rest"
    by (rule read_at [OF s1(2)]) simp_all
  moreover have "(ucast (word_of_nat (length v) :: HULN) :: HUN) = 0 \<longleftrightarrow> v = []"
    using ok ucast_small_size [of "length v"] by (metis length_0_conv unsigned_0 unsigned_eq_0_iff)
  ultimately show "\<exists>s'. Unserialize_string rd s = Some (v, s') \<and> at_bytes s' rest"
    using s1 ok by (auto simp: Unserialize_string_def ucast_small_size objs_roundtrip Let_def)
qed

lemma flat_data_codec:
  "codec wr content inv rd readable (\<lambda>s x. Some (CFlatData_Serialize wr s x))
     CFlatData_GetSerializeSize (\<lambda>x. x) (\<lambda>x. length x = length obj) (CFlatData_Unserialize rd obj)"
proof (rule codecI)
  show "encoder wr (\<lambda>s x. Some (CFlatData_Serialize wr s x)) CFlatData_GetSerializeSize (\<lambda>x. x)
      (\<lambda>x. length x = length obj)"
    by unfold_locales (simp_all add: CFlatData_Serialize_def CFlatData_GetSerializeSize_def)
qed (auto simp: CFlatData_Unserialize_def elim: read_at)

lemma Unserialize_vector_true_loop_at:
  fixes v w :: "'a::len word list"
  assumes "byte_width TYPE('a)" "at_bytes s (objs_bytes w @ rest)"
    and "length v = unat i" "length v + length w = unat nSize"
  shows "\<exists>s'. Unserialize_vector_true_loop rd nSize i v s = Some (v @ w, s') \<and> at_bytes s' rest"
  using assms(2-4)
proof (induction "length w" arbitrary: i v w s rule: less_induct)
  case less
  show ?case
  proof (cases "i < nSize")
    case False
    with less.prems show ?thesis
      by (cases w)
        (simp_all add: Unserialize_vector_true_loop.simps [of rd nSize i] word_less_nat_alt)
  next
    case True
    let ?b = "read_blk TYPE('a) nSize i"
    note blk = read_blk_progress [where ?'a = 'a, OF True]
    have le: "unat ?b \<le> length w" using blk(3) less.prems by linarith
    have "at_bytes s (objs_bytes (take (unat ?b) w) @ (objs_bytes (drop (unat ?b) w) @ rest))"
      using less.prems(1) by (simp flip: objs_bytes_append append_assoc)
    then obtain s1 where s1: "rd s (unat ?b * size_of TYPE('a)) = Some (objs_bytes (take (unat ?b) w), s1)"
        "at_bytes s1 (objs_bytes (drop (unat ?b) w) @ rest)"
      by (rule read_at) (use le in \<open>simp add: min_absorb2\<close>)
    have dec: "objs_of_bytes (unat ?b) (objs_bytes (take (unat ?b) w)) = take (unat ?b) w"
      using objs_roundtrip [OF assms(1), of "take (unat ?b) w"] le by (simp add: min_absorb2)
    have wr: "mem_write (vec_resize 0 v (unat (i + ?b))) (unat i) (take (unat ?b) w)
        = Some (v @ take (unat ?b) w)"
      using less.prems(2) le by (simp add: vec_resize_def mem_write_def blk(2))
    have "\<exists>s'. Unserialize_vector_true_loop rd nSize (i + ?b) (v @ take (unat ?b) w) s1
        = Some ((v @ take (unat ?b) w) @ drop (unat ?b) w, s') \<and> at_bytes s' rest"
      by (rule less.hyps) (use blk less.prems le s1(2) in simp_all)
    with True s1(1) dec wr show ?thesis
      by (simp add: Unserialize_vector_true_loop.simps [of rd nSize i] Let_def)
  qed
qed

lemma vector_true_codec:
  "codec wr content inv rd readable (\<lambda>s x. Some (Serialize_vector_true wr s x))
     GetSerializeSize_vector_true (seq_bytes obj_bytes)
     (\<lambda>v :: 'a::len word list. byte_width TYPE('a) \<and> length v < 2 ^ 32)
     (Unserialize_vector_true rd)"
proof (rule codecI [OF vector_true_encoder])
  fix v :: "'a word list" and s rest
  assume ok: "byte_width TYPE('a) \<and> length v < 2 ^ 32"
  assume "at_bytes s (seq_bytes obj_bytes v @ rest)"
  then have "at_bytes s (compact_bytes (word_of_nat (length v)) @ (objs_bytes v @ rest))"
    by (simp add: seq_bytes_def objs_bytes_def)
  from ReadCompactSize_at [OF this] obtain s1 where
    s1: "ReadCompactSize rd s = Some (word_of_nat (length v), s1)" "at_bytes s1 (objs_bytes v @ rest)"
    by blast
  show "\<exists>s'. Unserialize_vector_true rd s = Some (v, s') \<and> at_bytes s' rest"
    using Unserialize_vector_true_loop_at [OF _ s1(2), of "[]" 0] s1(1) ok
    by (simp add: Unserialize_vector_true_def ucast_small_size)
qed

end

text \<open>The element-wise loops, for any element type that keeps the codec contract.\<close>

context codec
begin

lemma Unserialize_elems_at:
  assumes "list_all ok w" "at_bytes s (concat (map enc w) @ rest)"
    and "length u = unat i" "length u + length w = unat nMid" "length junk = length w"
  shows "\<exists>s'. Unserialize_elems unser nMid i (u @ junk) s = Some (nMid, u @ w, s') \<and> at_bytes s' rest"
  using assms
proof (induction w arbitrary: u i junk s)
  case Nil
  then show ?case
    by (simp add: Unserialize_elems.simps [of unser nMid i] word_less_nat_alt word_unat_eq_iff)
next
  case (Cons x w)
  then have lt: "i < nMid" by (simp add: word_less_nat_alt)
  from Cons.prems have "at_bytes s (enc x @ (concat (map enc w) @ rest))" "ok x" by simp_all
  with unser_at obtain s1 where s1: "unser s = Some (x, s1)" "at_bytes s1 (concat (map enc w) @ rest)"
    by blast
  from Cons.prems(5) obtain j junk' where j: "junk = j # junk'" "length junk' = length w"
    by (cases junk) auto
  have "\<exists>s'. Unserialize_elems unser nMid (i + 1) ((u @ [x]) @ junk') s1
      = Some (nMid, (u @ [x]) @ w, s') \<and> at_bytes s' rest"
    by (rule Cons.IH) (use Cons.prems s1(2) j(2) unat_inc [OF lt] in simp_all)
  with lt s1(1) j(1) Cons.prems(3) show ?case
    by (simp add: Unserialize_elems.simps [of unser nMid i] list_update_append)
qed

lemma Unserialize_vector_false_loop_at:
  assumes "0 < T_size" "T_size \<le> 5000000" "unat nSize + 5000000 < 2 ^ 32"
    and "list_all ok w" "at_bytes s (concat (map enc w) @ rest)"
    and "length v = unat nMid" "length v + length w = unat nSize"
  shows "\<exists>s'. Unserialize_vector_false_loop unser T_size d nSize nMid nMid v s = Some (v @ w, s')
    \<and> at_bytes s' rest"
  using assms(4-7)
proof (induction "length w" arbitrary: nMid v w s rule: less_induct)
  case less
  show ?case
  proof (cases "nMid < nSize")
    case False
    with less.prems show ?thesis
      by (cases w) (simp_all add: word_less_nat_alt
          Unserialize_vector_false_loop.simps [of unser T_size d nSize nMid])
  next
    case True
    let ?c = "5000000 div T_size"
    let ?m = "nMid + word_of_nat ?c"
    let ?n = "if ?m > nSize then nSize else ?m"
    let ?k = "min ?c (length w)"
    have c: "0 < ?c" "?c \<le> 5000000"
      using assms(1,2) by (simp_all add: div_greater_zero_iff)
    have "unat (word_of_nat ?c :: HUN) = ?c"
      by (rule unat_HUN_small, rule le_less_trans [OF c(2)]) simp
    moreover have "unat nMid \<le> unat nSize" using True by (simp add: word_less_nat_alt)
    moreover have "unat nMid + ?c < 2 ^ 32"
      using calculation(2) assms(3) c(2) by linarith
    ultimately have "unat ?m = unat nMid + ?c"
      by (subst unat_add_lem [THEN iffD1]) simp_all
    then have n: "unat ?n = unat nMid + ?k"
      using less.prems(3,4) by (auto simp: word_less_nat_alt min_def)
    have len: "length (take ?k w) = ?k" by simp
    have kpos: "0 < ?k" using c(1) True less.prems(3,4) by (auto simp: word_less_nat_alt)
    have "concat (map enc w) = concat (map enc (take ?k w)) @ concat (map enc (drop ?k w))"
      by (metis append_take_drop_id concat_append map_append)
    then have at: "at_bytes s (concat (map enc (take ?k w)) @ (concat (map enc (drop ?k w)) @ rest))"
      using less.prems(2) by simp
    have all: "list_all ok (take ?k w)" "list_all ok (drop ?k w)"
      using less.prems(1) by (auto simp: list_all_iff dest: in_set_takeD in_set_dropD)
    have "\<exists>s'. Unserialize_elems unser ?n nMid (v @ replicate ?k d) s = Some (?n, v @ take ?k w, s')
        \<and> at_bytes s' (concat (map enc (drop ?k w)) @ rest)"
      by (rule Unserialize_elems_at [OF all(1) at less.prems(3)])
        (simp_all only: n len less.prems(3) length_replicate)
    then obtain s1 where s1: "Unserialize_elems unser ?n nMid (v @ replicate ?k d) s
        = Some (?n, v @ take ?k w, s1)" "at_bytes s1 (concat (map enc (drop ?k w)) @ rest)"
      by blast
    have vr: "vec_resize d v (unat ?n) = v @ replicate ?k d"
      unfolding n using less.prems(3) by (simp add: vec_resize_def)
    have "\<exists>s'. Unserialize_vector_false_loop unser T_size d nSize ?n ?n (v @ take ?k w) s1
        = Some ((v @ take ?k w) @ drop ?k w, s') \<and> at_bytes s' rest"
    proof (rule less.hyps [OF _ all(2) s1(2)])
      show "length (drop ?k w) < length w" using kpos by (cases w) auto
      show "length (v @ take ?k w) = unat ?n" unfolding n using less.prems(3) by simp
      show "length (v @ take ?k w) + length (drop ?k w) = unat nSize" using less.prems(4) by simp
    qed
    with True s1(1) vr show ?thesis
      by (simp only: Unserialize_vector_false_loop.simps [of unser T_size d nSize nMid] Let_def
          if_True bind.bind_lunit prod.case append_assoc append_take_drop_id)
  qed
qed

lemma vector_false_codec:
  assumes "0 < T_size" "T_size \<le> 5000000"
  shows "codec wr content inv rd readable (Serialize_vector_false wr ser)
     (GetSerializeSize_vector_false sz) (seq_bytes enc)
     (\<lambda>v. list_all ok v \<and> length v + 5000000 < 2 ^ 32) (Unserialize_vector_false rd unser T_size d)"
proof (rule codecI [OF vector_false_encoder])
  fix v s rest
  assume ok: "list_all ok v \<and> length v + 5000000 < 2 ^ 32"
  assume "at_bytes s (seq_bytes enc v @ rest)"
  then have "at_bytes s (compact_bytes (word_of_nat (length v)) @ (concat (map enc v) @ rest))"
    by (simp add: seq_bytes_def)
  from ReadCompactSize_at [OF this] obtain s1 where
    s1: "ReadCompactSize rd s = Some (word_of_nat (length v), s1)"
      "at_bytes s1 (concat (map enc v) @ rest)"
    by blast
  have n: "unat (ucast (word_of_nat (length v) :: HULN) :: HUN) = length v"
    by (rule ucast_small_size) (use ok in linarith)
  show "\<exists>s'. Unserialize_vector_false rd unser T_size d s = Some (v, s') \<and> at_bytes s' rest"
    using Unserialize_vector_false_loop_at [OF assms _ _ s1(2), of "ucast (word_of_nat (length v) :: HULN)" "[]" 0] s1(1) ok n
    by (simp add: Unserialize_vector_false_def)
qed

end

subsection \<open>Maps and sets on a stream\<close>

lemma map_insert_greatest:
  "asymp lt \<Longrightarrow> \<forall>x \<in> set m. lt (fst x) (fst item) \<Longrightarrow> map_insert lt item m = m @ [item]"
  by (induction m) (auto dest: asympD)

lemma set_insert_greatest:
  "asymp lt \<Longrightarrow> \<forall>x \<in> set m. lt x key \<Longrightarrow> set_insert lt key m = m @ [key]"
  by (induction m) (auto dest: asympD)

context codec
begin

lemma Unserialize_set_loop_at:
  assumes "asymp lt" "sorted_wrt lt (m @ w)" "list_all ok w" "at_bytes s (concat (map enc w) @ rest)"
  shows "\<exists>s'. Unserialize_set_loop lt unser (length w) m s = Some (m @ w, s') \<and> at_bytes s' rest"
  using assms(2-4)
proof (induction w arbitrary: m s)
  case (Cons x w)
  then have "at_bytes s (enc x @ (concat (map enc w) @ rest))" "ok x" by simp_all
  with unser_at obtain s1 where "unser s = Some (x, s1)" "at_bytes s1 (concat (map enc w) @ rest)"
    by blast
  moreover have "set_insert lt x m = m @ [x]"
    using Cons.prems(1) by (intro set_insert_greatest assms(1)) (auto simp: sorted_wrt_append)
  ultimately show ?case
    using Cons.IH [of "m @ [x]" s1] Cons.prems by simp
qed simp

lemma set_codec:
  "codec wr content inv rd readable (Serialize_set wr ser) (GetSerializeSize_set sz) (seq_bytes enc)
     (\<lambda>m. list_all ok m \<and> set_ok lt m) (Unserialize_set rd lt unser)"
proof (rule codecI [OF set_encoder])
  fix m s rest
  assume ok: "list_all ok m \<and> set_ok lt m"
  assume "at_bytes s (seq_bytes enc m @ rest)"
  then have "at_bytes s (compact_bytes (word_of_nat (length m)) @ (concat (map enc m) @ rest))"
    by (simp add: seq_bytes_def)
  from ReadCompactSize_at [OF this] obtain s1 where
    s1: "ReadCompactSize rd s = Some (word_of_nat (length m), s1)"
      "at_bytes s1 (concat (map enc m) @ rest)"
    by blast
  with Unserialize_set_loop_at [of lt "[]" m s1 rest] ok
  show "\<exists>s'. Unserialize_set rd lt unser s = Some (m, s') \<and> at_bytes s' rest"
    by (simp add: Unserialize_set_def set_ok_def ucast_small_size)
qed

end

locale pair_codec = pair_encoder wr ser1 sz1 enc1 ok1 ser2 sz2 enc2 ok2
    + k: codec wr content inv rd readable ser1 sz1 enc1 ok1 unser1
    + t: codec wr content inv rd readable ser2 sz2 enc2 ok2 unser2
  for wr :: "'s \<Rightarrow> HMEM \<Rightarrow> 's" and content inv rd readable
    and ser1 :: "'s \<Rightarrow> 'k \<Rightarrow> 's option" and sz1 enc1 ok1 unser1
    and ser2 :: "'s \<Rightarrow> 't \<Rightarrow> 's option" and sz2 enc2 ok2 unser2
begin

lemma pair_codec:
  "codec wr content inv rd readable (Serialize_pair ser1 ser2) (GetSerializeSize_pair sz1 sz2)
     pair_bytes pair_ok (Unserialize_pair unser1 unser2)"
proof (rule k.codecI [OF pair_encoder])
  fix x :: "'k \<times> 't" and s rest
  assume ok: "pair_ok x" and "k.at_bytes s (pair_bytes x @ rest)"
  then have "k.at_bytes s (enc1 (fst x) @ (enc2 (snd x) @ rest))" by (simp add: pair_bytes_def)
  then obtain s1 where s1: "unser1 s = Some (fst x, s1)" "k.at_bytes s1 (enc2 (snd x) @ rest)"
    using k.unser_at [of "fst x" s] ok unfolding pair_ok_def by blast
  then obtain s2 where "unser2 s1 = Some (snd x, s2)" "k.at_bytes s2 rest"
    using t.unser_at [of "snd x" s1] ok unfolding pair_ok_def by blast
  with s1(1) show "\<exists>s'. Unserialize_pair unser1 unser2 s = Some (x, s') \<and> k.at_bytes s' rest"
    by (simp add: Unserialize_pair_def)
qed

end

sublocale pair_codec \<subseteq> item: codec wr content inv rd readable "Serialize_pair ser1 ser2"
    "GetSerializeSize_pair sz1 sz2" pair_bytes pair_ok "Unserialize_pair unser1 unser2"
  by (rule pair_codec)

context pair_codec
begin

lemma Unserialize_map_loop_at:
  assumes "asymp lt" "sorted_wrt (\<lambda>a b. lt (fst a) (fst b)) (m @ w)" "list_all pair_ok w"
    and "k.at_bytes s (concat (map pair_bytes w) @ rest)"
  shows "\<exists>s'. Unserialize_map_loop lt (Unserialize_pair unser1 unser2) (length w) m s
    = Some (m @ w, s') \<and> k.at_bytes s' rest"
  using assms(2-4)
proof (induction w arbitrary: m s)
  case (Cons x w)
  then have "k.at_bytes s (pair_bytes x @ (concat (map pair_bytes w) @ rest))" "pair_ok x"
    by simp_all
  with item.unser_at obtain s1 where "Unserialize_pair unser1 unser2 s = Some (x, s1)"
      "k.at_bytes s1 (concat (map pair_bytes w) @ rest)"
    by blast
  moreover have "map_insert lt x m = m @ [x]"
    using Cons.prems(1) by (intro map_insert_greatest assms(1)) (auto simp: sorted_wrt_append)
  ultimately show ?case
    using Cons.IH [of "m @ [x]" s1] Cons.prems by simp
qed simp

lemma map_codec:
  assumes "asymp lt"
  shows "codec wr content inv rd readable (Serialize_map wr ser1 ser2) (GetSerializeSize_map sz1 sz2)
     (seq_bytes pair_bytes) (\<lambda>m. list_all pair_ok m \<and> set_ok (\<lambda>a b. lt (fst a) (fst b)) m)
     (Unserialize_map rd lt unser1 unser2)"
proof (rule k.codecI [OF map_encoder])
  fix m s rest
  assume ok: "list_all pair_ok m \<and> set_ok (\<lambda>a b. lt (fst a) (fst b)) m"
  assume "k.at_bytes s (seq_bytes pair_bytes m @ rest)"
  then have "k.at_bytes s (compact_bytes (word_of_nat (length m)) @ (concat (map pair_bytes m) @ rest))"
    by (simp add: seq_bytes_def)
  from k.ReadCompactSize_at [OF this] obtain s1 where
    s1: "ReadCompactSize rd s = Some (word_of_nat (length m), s1)"
      "k.at_bytes s1 (concat (map pair_bytes m) @ rest)"
    by blast
  with Unserialize_map_loop_at [OF assms, of "[]" m s1 rest] ok
  show "\<exists>s'. Unserialize_map rd lt unser1 unser2 s = Some (m, s') \<and> k.at_bytes s' rest"
    by (simp add: Unserialize_map_def set_ok_def ucast_small_size)
qed

end

subsection \<open>The containers on the data stream and the size computer\<close>

interpretation ds_string: codec CDataStream_write CDataStream_str ds_inv CDataStream_read ds_small
    "\<lambda>s x. Some (Serialize_string CDataStream_write s x)" GetSerializeSize_string
    "seq_bytes obj_bytes" "\<lambda>v :: 'a::len word list. byte_width TYPE('a) \<and> length v < 2 ^ 32"
    "Unserialize_string CDataStream_read"
  by (rule data_stream.string_codec)

interpretation ds_vector: codec CDataStream_write CDataStream_str ds_inv CDataStream_read ds_small
    "\<lambda>s x. Some (Serialize_vector_true CDataStream_write s x)" GetSerializeSize_vector_true
    "seq_bytes obj_bytes" "\<lambda>v :: 'a::len word list. byte_width TYPE('a) \<and> length v < 2 ^ 32"
    "Unserialize_vector_true CDataStream_read"
  by (rule data_stream.vector_true_codec)

text \<open>A map from strings to vectors of integers, \<^verbatim>\<open>std::map<std::string, std::vector<T>>\<close>.\<close>

interpretation ds_map: pair_codec CDataStream_write CDataStream_str ds_inv CDataStream_read ds_small
    "\<lambda>s x. Some (Serialize_string CDataStream_write s x)" GetSerializeSize_string
    "seq_bytes obj_bytes" "\<lambda>v :: 'c::len word list. byte_width TYPE('c) \<and> length v < 2 ^ 32"
    "Unserialize_string CDataStream_read"
    "\<lambda>s x. Some (Serialize_vector_true CDataStream_write s x)" GetSerializeSize_vector_true
    "seq_bytes obj_bytes" "\<lambda>v :: 'a::len word list. byte_width TYPE('a) \<and> length v < 2 ^ 32"
    "Unserialize_vector_true CDataStream_read"
  by unfold_locales

interpretation sc_map: pair_encoder CSizeComputer_write
    "\<lambda>s x. Some (Serialize_string CSizeComputer_write s x)" GetSerializeSize_string
    "seq_bytes obj_bytes" "\<lambda>v :: 'c::len word list. byte_width TYPE('c) \<and> length v < 2 ^ 32"
    "\<lambda>s x. Some (Serialize_vector_true CSizeComputer_write s x)" GetSerializeSize_vector_true
    "seq_bytes obj_bytes" "\<lambda>v :: 'a::len word list. byte_width TYPE('a) \<and> length v < 2 ^ 32"
  using size_computer.string_encoder size_computer.vector_true_encoder
  by (simp add: pair_encoder_def)

lemma vector_loop_stuck:
  fixes unser :: "'s \<Rightarrow> ('x \<times> 's) option"
  assumes "5000000 < T_size" "0 < nSize"
  shows "Unserialize_vector_false_loop unser T_size d nSize 0 0 [] is \<noteq> Some y"
proof
  have elems: "Unserialize_elems u 0 0 [] t = Some (0, [], t)" for u :: "'s \<Rightarrow> ('x \<times> 's) option" and t
    by (simp add: Unserialize_elems.simps)
  assume "Unserialize_vector_false_loop unser T_size d nSize 0 0 [] is = Some y"
  then have "\<not> ((0 :: HUN) = 0 \<and> (0 :: HUN) = 0 \<and> ([] :: 'x list) = [] \<and> 5000000 < T_size \<and> 0 < nSize)"
    by (rule Unserialize_vector_false_loop.raw_induct [where
          P = "\<lambda>_ T_size _ nSize nMid i v _ _.
            \<not> (nMid = 0 \<and> i = 0 \<and> v = [] \<and> 5000000 < T_size \<and> 0 < nSize)", rotated])
      (auto simp: vec_resize_def elems split: if_splits)
  with assms show False by simp
qed

subsection \<open>Properties of the containers\<close>

text \<open>
  C1: a \<^verbatim>\<open>std::map<std::string, std::vector<T>>\<close> survives a trip through the stream for every
  integer element type: the bytes written are as many as \<^verbatim>\<open>GetSerializeSize\<close> says, and
  reading them back yields the same nodes in the same order and empties the stream.
\<close>

theorem map_roundtrip:
  fixes m :: "('c::len word list \<times> 'a::len word list) list"
  assumes "byte_width TYPE('c)" "byte_width TYPE('a)" "asymp lt"
    and "sorted_wrt (\<lambda>x y. lt (fst x) (fst y)) m" "length m < 2 ^ 32"
    and "list_all (\<lambda>x. length (fst x) < 2 ^ 32 \<and> length (snd x) < 2 ^ 32) m"
    and "ds_inv s" "CDataStream_str s = []"
    and "length (vch s) + GetSerializeSize_map GetSerializeSize_string GetSerializeSize_vector_true m < 2 ^ 32"
  shows "\<exists>s1 s2. Serialize_map CDataStream_write
             (\<lambda>s x. Some (Serialize_string CDataStream_write s x))
             (\<lambda>s x. Some (Serialize_vector_true CDataStream_write s x)) s m = Some s1 \<and>
           length (CDataStream_str s1) = GetSerializeSize_map GetSerializeSize_string GetSerializeSize_vector_true m \<and>
           Unserialize_map CDataStream_read lt (Unserialize_string CDataStream_read)
             (Unserialize_vector_true CDataStream_read) s1 = Some (m, s2) \<and>
           CDataStream_str s2 = []"
proof -
  have ok: "list_all ds_map.pair_ok m \<and> set_ok (\<lambda>a b. lt (fst a) (fst b)) m"
    using assms(1-6) unfolding list_all_iff ds_map.pair_ok_def set_ok_def
    by (auto simp: asymp_on_def)
  note c = ds_map.map_codec [OF assms(3)]
  have "ds_small (CDataStream_write s (seq_bytes ds_map.pair_bytes m))"
    using assms(9) encoder.size_enc [OF ds_map.map_encoder [of lt] ok] by (simp add: ds_small_write)
  from codec.ser_unser [OF c ok assms(7,8) this] show ?thesis .
qed

theorem map_roundtrip_witness:
  "\<exists>s1 s2. Serialize_map CDataStream_write
       (\<lambda>s x. Some (Serialize_string CDataStream_write s x))
       (\<lambda>s x. Some (Serialize_vector_true CDataStream_write s x)) (CDataStream_new 0 [])
       [([97 :: HUCH], [1, 2 :: HUN]), ([98], [])] = Some s1 \<and>
     Unserialize_map CDataStream_read (\<lambda>a b. hd a < hd b) (Unserialize_string CDataStream_read)
       (Unserialize_vector_true CDataStream_read) s1
       = Some ([([97 :: HUCH], [1, 2 :: HUN]), ([98], [])], s2)"
proof -
  have asym: "asymp (\<lambda>a b :: HUCH list. hd a < hd b)" by (auto simp: asymp_on_def)
  show ?thesis
    using map_roundtrip [OF _ _ asym, of "[([97 :: HUCH], [1, 2 :: HUN]), ([98], [])]" "CDataStream_new 0 []"]
    by (auto simp: CDataStream_new_def CDataStream_Init_def ds_basic GetSerializeSize_map_def
        GetSerializeSize_pair_def GetSerializeSize_string_def GetSerializeSize_vector_true_def
        GetSizeOfCompactSize_def)
qed

text \<open>
  a vector of class type survives a trip through the stream whenever its element type
  keeps the codec contract and \<^verbatim>\<open>sizeof(T)\<close> is at most five million: the chunked read loop
  ends and returns exactly the elements written.
\<close>

theorem vector_roundtrip:
  assumes "codec CDataStream_write CDataStream_str ds_inv CDataStream_read ds_small ser sz enc ok unser"
    and "0 < T_size" "T_size \<le> 5000000" "list_all ok v" "length v + 5000000 < 2 ^ 32"
    and "ds_inv s" "CDataStream_str s = []"
    and "length (vch s) + GetSerializeSize_vector_false sz v < 2 ^ 32"
  shows "\<exists>s1 s2. Serialize_vector_false CDataStream_write ser s v = Some s1 \<and>
           length (CDataStream_str s1) = GetSerializeSize_vector_false sz v \<and>
           Unserialize_vector_false CDataStream_read unser T_size d s1 = Some (v, s2) \<and>
           CDataStream_str s2 = []"
proof -
  note enc = codec.axioms(1) [OF assms(1)]
  have ok: "list_all ok v \<and> length v + 5000000 < 2 ^ 32" using assms(4,5) by simp
  have "ds_small (CDataStream_write s (seq_bytes enc v))"
    using assms(8) encoder.size_enc [OF encoder.vector_false_encoder [OF enc] ok]
    by (simp add: ds_small_write)
  from codec.ser_unser [OF codec.vector_false_codec [OF assms(1-3)] ok assms(6,7) this]
  show ?thesis .
qed

theorem vector_roundtrip_witness:
  "\<exists>s1 s2. Serialize_vector_false CDataStream_write
       (\<lambda>s x. Some (Serialize_string CDataStream_write s x)) (CDataStream_new 0 [])
       [[97, 98 :: HUCH], []] = Some s1 \<and>
     Unserialize_vector_false CDataStream_read (Unserialize_string CDataStream_read) 32 [] s1
       = Some ([[97, 98 :: HUCH], []], s2)"
  using vector_roundtrip [OF ds_string.codec_axioms, of 32 "[[97, 98 :: HUCH], []]" "CDataStream_new 0 []" "[]"]
  by (auto simp: CDataStream_new_def CDataStream_Init_def ds_basic GetSerializeSize_string_def
      GetSerializeSize_vector_false_def GetSizeOfCompactSize_def)

text \<open>
  For an element type larger than five million bytes the read loop adds
  \<^verbatim>\<open>5000000 / sizeof(T) = 0\<close> for ever: reading a non-empty vector does not return, on any stream.
\<close>

theorem vector_huge_element_diverges:
  assumes "ReadCompactSize rd is = Some (n, is')" "(ucast n :: HUN) \<noteq> 0" "5000000 < T_size"
  shows "Unserialize_vector_false rd unser T_size d is = None"
proof -
  have "0 < (ucast n :: HUN)" using assms(2) by (simp add: word_gt_0)
  then have "Unserialize_vector_false_loop unser T_size d (ucast n) 0 0 [] is' = None"
    using vector_loop_stuck [OF assms(3)] by (metis not_None_eq)
  with assms(1) show ?thesis by (simp add: Unserialize_vector_false_def)
qed

theorem vector_huge_element_diverges_witness:
  "Unserialize_vector_false CDataStream_read (\<lambda>s. Some ((), s)) 5000001 () (CDataStream_new 0 [1]) = None"
  by (rule vector_huge_element_diverges [where n = 1 and is' = "CDataStream_new 0 []"])
    (simp_all add: ReadCompactSize_def READDATA_def CDataStream_read_def CDataStream_new_def
      CDataStream_Init_def)

text \<open>
  writing a map of strings to vectors to a \<^verbatim>\<open>CSizeComputer\<close> counts exactly the bytes
  \<^verbatim>\<open>GetSerializeSize\<close> announces for it.
\<close>

theorem size_computer_agrees:
  fixes m :: "('c::len word list \<times> 'a::len word list) list"
  assumes "byte_width TYPE('c)" "byte_width TYPE('a)" "asymp lt"
    and "sorted_wrt (\<lambda>x y. lt (fst x) (fst y)) m" "length m < 2 ^ 32"
    and "list_all (\<lambda>x. length (fst x) < 2 ^ 32 \<and> length (snd x) < 2 ^ 32) m"
  shows "Serialize_map CSizeComputer_write
           (\<lambda>s x. Some (Serialize_string CSizeComputer_write s x))
           (\<lambda>s x. Some (Serialize_vector_true CSizeComputer_write s x)) \<lparr>sc_nSize = 0\<rparr> m
         = Some \<lparr>sc_nSize = GetSerializeSize_map GetSerializeSize_string GetSerializeSize_vector_true m\<rparr>"
proof -
  have ok: "list_all sc_map.pair_ok m \<and> set_ok (\<lambda>a b. lt (fst a) (fst b)) m"
    using assms(1-6) unfolding list_all_iff sc_map.pair_ok_def set_ok_def
    by (auto simp: asymp_on_def)
  note e = sc_map.map_encoder [of lt]
  from encoder.ser_enc [OF e ok] encoder.size_enc [OF e ok] show ?thesis
    by (simp add: CSizeComputer_write_def)
qed

theorem size_computer_agrees_witness:
  "Serialize_map CSizeComputer_write
       (\<lambda>s x. Some (Serialize_string CSizeComputer_write s x))
       (\<lambda>s x. Some (Serialize_vector_true CSizeComputer_write s x)) \<lparr>sc_nSize = 0\<rparr>
       [([97 :: HUCH], [1, 2 :: HUN]), ([98], [])] = Some \<lparr>sc_nSize = 15\<rparr>"
proof -
  have asym: "asymp (\<lambda>a b :: HUCH list. hd a < hd b)" by (auto simp: asymp_on_def)
  show ?thesis
    using size_computer_agrees [OF _ _ asym, of "[([97 :: HUCH], [1, 2 :: HUN]), ([98], [])]"]
    by (simp add: GetSerializeSize_map_def GetSerializeSize_pair_def GetSerializeSize_string_def
        GetSerializeSize_vector_true_def GetSizeOfCompactSize_def)
qed

end
