(* ===== verification/Fast_Queue.thy ===== *)
theory Fast_Queue
  imports Hui_Prelude
begin

text \<open>
  The single-producer single-consumer ring of \<^verbatim>\<open>src/src/hsinglefastqueue.h\<close>. The slots of the
  raw memory block carry the life of the object in them, since \<^verbatim>\<open>Get\<close>, \<^verbatim>\<open>popFront\<close> and the
  destructor of the queue run element destructors: destroying a slot that holds no object is
  undefined behaviour (\<open>None\<close>) unless the destructor is trivial (the flag \<open>triv\<close>).

  The first part models the operations as a single thread sees them and shows that they
  implement a bounded FIFO (locale \<open>bounded_fifo\<close>). The second part splits \<^verbatim>\<open>Push\<close> and \<^verbatim>\<open>Get\<close> at
  their atomic accesses and interleaves the two threads; the acquire/release pairs on the two
  indices make every interleaving equivalent to one of these sequentially consistent ones.
\<close>

subsection \<open>The contract of a bounded FIFO\<close>

locale bounded_fifo =
  fixes inv :: "'q \<Rightarrow> bool"
    and items :: "'q \<Rightarrow> 'a list"
    and cap :: "'q \<Rightarrow> nat"
    and push :: "'q \<Rightarrow> 'a \<Rightarrow> bool \<times> 'q"
    and get :: "'q \<Rightarrow> ('a \<times> 'q) option"
  assumes push_inv: "inv q \<Longrightarrow> inv (snd (push q v))"
    and push_ok: "inv q \<Longrightarrow> length (items q) < cap q \<Longrightarrow>
      fst (push q v) \<and> items (snd (push q v)) = items q @ [v] \<and> cap (snd (push q v)) = cap q"
    and push_full: "inv q \<Longrightarrow> cap q \<le> length (items q) \<Longrightarrow> push q v = (False, q)"
    and get_empty: "inv q \<Longrightarrow> items q = [] \<Longrightarrow> get q = None"
    and get_front: "inv q \<Longrightarrow> items q = x # xs \<Longrightarrow>
      \<exists>q'. get q = Some (x, q') \<and> inv q' \<and> items q' = xs \<and> cap q' = cap q"
begin

primrec push_all :: "'q \<Rightarrow> 'a list \<Rightarrow> 'q" where
  "push_all q [] = q"
| "push_all q (v # vs) = push_all (snd (push q v)) vs"

primrec get_n :: "'q \<Rightarrow> nat \<Rightarrow> 'a list" where
  "get_n q 0 = []"
| "get_n q (Suc n) = (case get q of None \<Rightarrow> [] | Some (x, q') \<Rightarrow> x # get_n q' n)"

lemma push_all_items:
  "inv q \<Longrightarrow> length (items q) + length vs \<le> cap q \<Longrightarrow>
     inv (push_all q vs) \<and> items (push_all q vs) = items q @ vs"
  by (induction vs arbitrary: q) (simp_all add: push_ok push_inv)

lemma get_n_items: "inv q \<Longrightarrow> get_n q (length (items q)) = items q"
proof (induction "items q" arbitrary: q)
  case (Cons x xs)
  from Cons.hyps(2) [symmetric] get_front [OF Cons.prems] obtain q' where
    "get q = Some (x, q')" "inv q'" "items q' = xs" by blast
  with Cons.hyps(1) [of q'] Cons.hyps(2) [symmetric] show ?case by simp
qed (simp add: get_empty)

lemma fifo_order:
  assumes "inv q" "items q = []" "length vs \<le> cap q"
  shows "get_n (push_all q vs) (length vs) = vs"
  using get_n_items [of "push_all q vs"] push_all_items [of q vs] assms by simp

end

subsection \<open>State and operations\<close>

datatype 'a slot = Uninit | Obj 'a | MovedFrom

record 'a HSingleFastQueue =
  m_size :: HUN
  m_data :: "'a slot list"
  m_read_index :: HUN
  m_write_index :: HUN

definition HSingleFastQueue_new :: "bool \<Rightarrow> HUN \<Rightarrow> 'a HSingleFastQueue option" where
  "HSingleFastQueue_new malloc_ok sz =
     (if sz \<ge> 2 \<and> malloc_ok
      then Some \<lparr>m_size = sz, m_data = replicate (unat sz) Uninit,
                 m_read_index = 0, m_write_index = 0\<rparr>
      else None)"

definition destroy :: "bool \<Rightarrow> 'a slot \<Rightarrow> 'a slot option" where
  "destroy triv sl = (if triv then Some sl else case sl of Uninit \<Rightarrow> None | _ \<Rightarrow> Some Uninit)"

definition next_pos :: "HUN \<Rightarrow> HUN \<Rightarrow> HUN" where
  "next_pos sz cur = (let n = cur + 1 in if n = sz then 0 else n)"

definition Push :: "'a HSingleFastQueue \<Rightarrow> 'a \<Rightarrow> bool \<times> 'a HSingleFastQueue" where
  "Push q v =
     (let np = next_pos (m_size q) (m_write_index q)
      in if np \<noteq> m_read_index q
         then (True, q\<lparr>m_data := (m_data q)[unat np := Obj v], m_write_index := np\<rparr>)
         else (False, q))"

text \<open>\<open>Inr None\<close> is the result \<^verbatim>\<open>false\<close>; \<open>Inl ()\<close> is undefined behaviour.\<close>

definition Get :: "bool \<Rightarrow> 'a HSingleFastQueue \<Rightarrow> unit + ('a \<times> 'a HSingleFastQueue) option" where
  "Get triv q =
     (let cur = m_read_index q
      in if cur = m_write_index q then Inr None
         else (let np = next_pos (m_size q) cur
               in case m_data q ! unat np of
                    Obj v \<Rightarrow>
                      (let d = (m_data q)[unat np := MovedFrom]
                       in case destroy triv (d ! unat cur) of
                            None \<Rightarrow> Inl ()
                          | Some sl \<Rightarrow>
                              Inr (Some (v, q\<lparr>m_data := d[unat cur := sl], m_read_index := np\<rparr>)))
                  | _ \<Rightarrow> Inl ()))"

definition FrontPtr :: "'a HSingleFastQueue \<Rightarrow> HUN option" where
  "FrontPtr q = (if m_read_index q = m_write_index q then None else Some (m_read_index q))"

definition popFront :: "bool \<Rightarrow> 'a HSingleFastQueue \<Rightarrow> 'a HSingleFastQueue option" where
  "popFront triv q =
     (let cur = m_read_index q
      in if cur = m_write_index q then None
         else (let np = next_pos (m_size q) cur
               in map_option (\<lambda>sl. q\<lparr>m_data := (m_data q)[unat cur := sl], m_read_index := np\<rparr>)
                    (destroy triv (m_data q ! unat cur))))"

definition isEmpty :: "'a HSingleFastQueue \<Rightarrow> bool" where
  "isEmpty q \<longleftrightarrow> m_read_index q = m_write_index q"

definition isFull :: "'a HSingleFastQueue \<Rightarrow> bool" where
  "isFull q \<longleftrightarrow> next_pos (m_size q) (m_write_index q) = m_read_index q"

text \<open>\<^verbatim>\<open>res\<close> is an \<^verbatim>\<open>int\<close>: the test is on the sign bit, the sum is made in \<^verbatim>\<open>unsigned int\<close>.\<close>

definition GuestSize :: "'a HSingleFastQueue \<Rightarrow> int" where
  "GuestSize q =
     (let res = m_write_index q - m_read_index q
      in sint (if res <s 0 then res + m_size q else res))"

definition Capacity :: "'a HSingleFastQueue \<Rightarrow> nat" where
  "Capacity q = unat (m_size q - 1)"

text \<open>The destructor walks the slots from the read index up to the write index.\<close>

fun destruct_loop :: "bool \<Rightarrow> nat \<Rightarrow> nat \<Rightarrow> nat \<Rightarrow> nat \<Rightarrow> 'a slot list \<Rightarrow> 'a slot list option" where
  "destruct_loop triv 0 sz r w d = None"
| "destruct_loop triv (Suc fuel) sz r w d =
     (if r \<noteq> w
      then (case destroy triv (d ! r) of
              None \<Rightarrow> None
            | Some sl \<Rightarrow>
                destruct_loop triv fuel sz (if r + 1 = sz then 0 else r + 1) w (d[r := sl]))
      else Some d)"

definition HSingleFastQueue_delete :: "bool \<Rightarrow> 'a HSingleFastQueue \<Rightarrow> 'a slot list option" where
  "HSingleFastQueue_delete triv q =
     (if \<not> triv
      then destruct_loop triv (Suc (unat (m_size q))) (unat (m_size q))
             (unat (m_read_index q)) (unat (m_write_index q)) (m_data q)
      else Some (m_data q))"

subsection \<open>The ring\<close>

definition sfq_wf :: "'a HSingleFastQueue \<Rightarrow> bool" where
  "sfq_wf q \<longleftrightarrow> m_size q \<ge> 2 \<and> length (m_data q) = unat (m_size q)
     \<and> m_read_index q < m_size q \<and> m_write_index q < m_size q"

text \<open>The slot \<open>k\<close> places behind the read index, and the number of queued elements.\<close>

definition ring_pos :: "'a HSingleFastQueue \<Rightarrow> nat \<Rightarrow> nat" where
  "ring_pos q k = (unat (m_read_index q) + k) mod unat (m_size q)"

definition ring_len :: "'a HSingleFastQueue \<Rightarrow> nat" where
  "ring_len q = (unat (m_write_index q) + unat (m_size q) - unat (m_read_index q)) mod unat (m_size q)"

definition slot_val :: "'a slot \<Rightarrow> 'a" where
  "slot_val sl = (case sl of Obj v \<Rightarrow> v | _ \<Rightarrow> undefined)"

definition sfq_items :: "'a HSingleFastQueue \<Rightarrow> 'a list" where
  "sfq_items q = map (\<lambda>k. slot_val (m_data q ! ring_pos q (Suc k))) [0..<ring_len q]"

definition sfq_live :: "'a HSingleFastQueue \<Rightarrow> bool" where
  "sfq_live q \<longleftrightarrow> (\<forall>k < ring_len q. \<exists>v. m_data q ! ring_pos q (Suc k) = Obj v)"

lemma unat_next_pos:
  assumes "cur < sz"
  shows "unat (next_pos sz cur) = (unat cur + 1) mod unat sz"
proof -
  have lt: "unat cur < unat sz" using assms by (simp add: word_less_nat_alt)
  have n: "unat (cur + 1) = unat cur + 1" by (rule unat_inc [OF assms])
  show ?thesis
  proof (cases "cur + 1 = sz")
    case True
    then have "unat cur + 1 = unat sz" using n by simp
    with True show ?thesis by (simp add: next_pos_def)
  next
    case False
    then have "unat cur + 1 \<noteq> unat sz" using n by (metis word_unat_eq_iff)
    with lt False n show ?thesis by (simp add: next_pos_def)
  qed
qed

lemma next_pos_less: "cur < sz \<Longrightarrow> next_pos sz cur < sz"
  by (simp add: word_less_nat_alt [of "next_pos sz cur"] unat_next_pos) (simp add: word_less_nat_alt)

lemma mod_add_inj:
  fixes a b r s :: nat
  assumes "(r + a) mod s = (r + b) mod s" "a < s" "b < s"
  shows "a = b"
proof -
  have "a mod s = b mod s"
    using assms(1) unfolding nat_mod_eq_iff by (simp add: add.assoc)
  with assms(2,3) show ?thesis by simp
qed

text \<open>The working form of "the queue holds \<open>xs\<close>", free of subtraction.\<close>

definition sfq_holds :: "'a HSingleFastQueue \<Rightarrow> 'a list \<Rightarrow> bool" where
  "sfq_holds q xs \<longleftrightarrow> unat (m_write_index q) = ring_pos q (length xs) \<and> length xs < unat (m_size q)
     \<and> (\<forall>k < length xs. m_data q ! ring_pos q (Suc k) = Obj (xs ! k))"

lemma sfq_wfD:
  assumes "sfq_wf q"
  shows "2 \<le> unat (m_size q)" "unat (m_read_index q) < unat (m_size q)"
    "unat (m_write_index q) < unat (m_size q)" "length (m_data q) = unat (m_size q)"
  using assms by (auto simp: sfq_wf_def word_le_nat_alt word_less_nat_alt)

lemma ring_pos_simps [simp]:
  "ring_pos (q\<lparr>m_data := d\<rparr>) k = ring_pos q k"
  "ring_pos (q\<lparr>m_write_index := w\<rparr>) k = ring_pos q k"
  by (simp_all add: ring_pos_def)

lemma ring_pos_bound: "sfq_wf q \<Longrightarrow> ring_pos q k < unat (m_size q)"
  using sfq_wfD(1) [of q] by (simp add: ring_pos_def)

lemma ring_pos_inj:
  "ring_pos q a = ring_pos q b \<Longrightarrow> a < unat (m_size q) \<Longrightarrow> b < unat (m_size q) \<Longrightarrow> a = b"
  unfolding ring_pos_def by (rule mod_add_inj)

lemma ring_pos_0 [simp]: "sfq_wf q \<Longrightarrow> ring_pos q 0 = unat (m_read_index q)"
  using sfq_wfD(2) [of q] by (simp add: ring_pos_def)

lemma ring_len_write:
  assumes "sfq_wf q"
  shows "unat (m_write_index q) = ring_pos q (ring_len q)" "ring_len q < unat (m_size q)"
proof -
  note b = sfq_wfD [OF assms]
  have "ring_pos q (ring_len q) =
      (unat (m_read_index q) + (unat (m_write_index q) + unat (m_size q) - unat (m_read_index q)))
        mod unat (m_size q)"
    unfolding ring_pos_def ring_len_def by (rule mod_add_right_eq)
  also have "\<dots> = (unat (m_write_index q) + unat (m_size q)) mod unat (m_size q)"
    using b(2) by simp
  finally show "unat (m_write_index q) = ring_pos q (ring_len q)" using b(3) by simp
  show "ring_len q < unat (m_size q)" using b(1) by (simp add: ring_len_def)
qed

lemma sfq_holds_iff:
  assumes "sfq_wf q"
  shows "sfq_holds q xs \<longleftrightarrow> sfq_live q \<and> sfq_items q = xs"
proof
  assume h: "sfq_holds q xs"
  then have len: "length xs = ring_len q"
    using ring_len_write [OF assms] ring_pos_inj by (metis sfq_holds_def)
  with h show "sfq_live q \<and> sfq_items q = xs"
    by (auto simp: sfq_holds_def sfq_live_def sfq_items_def slot_val_def intro!: nth_equalityI)
next
  assume "sfq_live q \<and> sfq_items q = xs"
  then show "sfq_holds q xs"
    using ring_len_write [OF assms]
    by (fastforce simp: sfq_holds_def sfq_live_def sfq_items_def slot_val_def)
qed

lemma next_write_at:
  assumes "sfq_wf q" "unat (m_write_index q) = ring_pos q n" "n < unat (m_size q)"
  shows "unat (next_pos (m_size q) (m_write_index q)) = ring_pos q (Suc n)"
    and "next_pos (m_size q) (m_write_index q) = m_read_index q \<longleftrightarrow> Suc n = unat (m_size q)"
proof -
  show np: "unat (next_pos (m_size q) (m_write_index q)) = ring_pos q (Suc n)"
    using assms by (simp add: unat_next_pos sfq_wf_def ring_pos_def mod_Suc_eq)
  have "next_pos (m_size q) (m_write_index q) = m_read_index q \<longleftrightarrow> ring_pos q (Suc n) = ring_pos q 0"
    using assms(1) np by (simp add: word_unat_eq_iff)
  also have "\<dots> \<longleftrightarrow> Suc n = unat (m_size q)"
  proof
    assume "ring_pos q (Suc n) = ring_pos q 0"
    then show "Suc n = unat (m_size q)"
      using ring_pos_inj [of q "Suc n" 0] assms(3) by (cases "Suc n < unat (m_size q)") auto
  qed (simp add: ring_pos_def)
  finally show "next_pos (m_size q) (m_write_index q) = m_read_index q \<longleftrightarrow> Suc n = unat (m_size q)" .
qed

lemma next_write:
  assumes "sfq_wf q" "sfq_holds q xs"
  shows "unat (next_pos (m_size q) (m_write_index q)) = ring_pos q (Suc (length xs))"
    and "next_pos (m_size q) (m_write_index q) = m_read_index q \<longleftrightarrow> Suc (length xs) = unat (m_size q)"
  using next_write_at [OF assms(1)] assms(2) unfolding sfq_holds_def by blast+

text \<open>Filling the slot behind the write index and publishing it appends an element.\<close>

lemma ring_append:
  assumes "sfq_wf q" "sfq_holds q xs" "Suc (length xs) < unat (m_size q)"
    and "m_data q ! ring_pos q (Suc (length xs)) = Obj v"
  shows "sfq_wf (q\<lparr>m_write_index := next_pos (m_size q) (m_write_index q)\<rparr>)"
    "sfq_holds (q\<lparr>m_write_index := next_pos (m_size q) (m_write_index q)\<rparr>) (xs @ [v])"
  using assms next_write [OF assms(1,2)]
  by (auto simp: sfq_wf_def next_pos_less sfq_holds_def ring_pos_def less_Suc_eq nth_append)

text \<open>A slot that is neither queued nor about to be is free to change.\<close>

lemma ring_update:
  assumes "sfq_wf q" "sfq_holds q xs" "\<And>k. k < length xs \<Longrightarrow> p \<noteq> ring_pos q (Suc k)"
  shows "sfq_wf (q\<lparr>m_data := (m_data q)[p := sl]\<rparr>)" "sfq_holds (q\<lparr>m_data := (m_data q)[p := sl]\<rparr>) xs"
  using assms by (auto simp: sfq_wf_def sfq_holds_def ring_pos_def)

lemma ring_free_slots:
  assumes "sfq_wf q" "sfq_holds q xs" "k < length xs"
  shows "ring_pos q 0 \<noteq> ring_pos q (Suc k)"
    and "Suc (length xs) < unat (m_size q) \<Longrightarrow> ring_pos q (Suc (length xs)) \<noteq> ring_pos q (Suc k)"
  using assms ring_pos_inj [of q 0 "Suc k"] ring_pos_inj [of q "Suc (length xs)" "Suc k"]
  by (auto simp: sfq_holds_def)

text \<open>Moving the read index one place on drops the front element.\<close>

lemma ring_drop:
  assumes "sfq_wf q" "unat (m_write_index q) = ring_pos q (Suc n)" "Suc n < unat (m_size q)"
    and "length xs = n" "\<And>k. k < n \<Longrightarrow> m_data q ! ring_pos q (Suc (Suc k)) = Obj (xs ! k)"
  shows "sfq_wf (q\<lparr>m_read_index := next_pos (m_size q) (m_read_index q)\<rparr>)"
    "sfq_holds (q\<lparr>m_read_index := next_pos (m_size q) (m_read_index q)\<rparr>) xs"
proof -
  show "sfq_wf (q\<lparr>m_read_index := next_pos (m_size q) (m_read_index q)\<rparr>)"
    using assms(1) by (simp add: sfq_wf_def next_pos_less)
  have "ring_pos (q\<lparr>m_read_index := next_pos (m_size q) (m_read_index q)\<rparr>) k = ring_pos q (Suc k)" for k
    using assms(1) by (simp add: ring_pos_def unat_next_pos sfq_wf_def mod_add_left_eq)
  then show "sfq_holds (q\<lparr>m_read_index := next_pos (m_size q) (m_read_index q)\<rparr>) xs"
    using assms by (simp add: sfq_holds_def)
qed

subsection \<open>The operations implement a bounded FIFO\<close>

definition sfq_inv :: "'a HSingleFastQueue \<Rightarrow> bool" where
  "sfq_inv q \<longleftrightarrow> sfq_wf q \<and> sfq_live q"

definition Get_trivial :: "'a HSingleFastQueue \<Rightarrow> ('a \<times> 'a HSingleFastQueue) option" where
  "Get_trivial q = (case Get True q of Inl _ \<Rightarrow> None | Inr r \<Rightarrow> r)"

lemma Capacity_wf: "sfq_wf q \<Longrightarrow> Capacity q = unat (m_size q) - 1"
  using unat_sub [of 1 "m_size q"] sfq_wfD(1) [of q] by (simp add: Capacity_def word_le_nat_alt)

lemma Push_holds:
  assumes "sfq_wf q" "sfq_holds q xs"
  shows "Suc (length xs) < unat (m_size q) \<Longrightarrow>
      fst (Push q v) \<and> sfq_wf (snd (Push q v)) \<and> sfq_holds (snd (Push q v)) (xs @ [v])
      \<and> m_size (snd (Push q v)) = m_size q"
    and "Suc (length xs) = unat (m_size q) \<Longrightarrow> Push q v = (False, q)"
proof -
  note nw = next_write [OF assms]
  show "Push q v = (False, q)" if "Suc (length xs) = unat (m_size q)"
    using that nw(2) by (simp add: Push_def)
  assume lt: "Suc (length xs) < unat (m_size q)"
  let ?q = "q\<lparr>m_data := (m_data q)[ring_pos q (Suc (length xs)) := Obj v]\<rparr>"
  have "sfq_wf ?q" "sfq_holds ?q xs"
    by (rule ring_update [OF assms ring_free_slots(2) [OF assms _ lt]], assumption)+
  moreover have "m_data ?q ! ring_pos ?q (Suc (length xs)) = Obj v"
    using sfq_wfD(4) [OF assms(1)] ring_pos_bound [OF assms(1), of "Suc (length xs)"] by simp
  ultimately show "fst (Push q v) \<and> sfq_wf (snd (Push q v)) \<and> sfq_holds (snd (Push q v)) (xs @ [v])
      \<and> m_size (snd (Push q v)) = m_size q"
    using ring_append [of ?q xs v] lt nw by (simp add: Push_def Let_def)
qed

lemma next_read:
  "sfq_wf q \<Longrightarrow> unat (next_pos (m_size q) (m_read_index q)) = ring_pos q 1"
  by (simp add: unat_next_pos sfq_wf_def ring_pos_def)

lemma read_ne_write:
  assumes "sfq_wf q" "sfq_holds q xs"
  shows "m_read_index q = m_write_index q \<longleftrightarrow> xs = []"
  using assms ring_pos_inj [of q 0 "length xs"] by (auto simp: sfq_holds_def word_unat_eq_iff)

text \<open>
  \<^verbatim>\<open>Get\<close> on a queue holding \<open>x # xs\<close>: when the slot at the read index may be destroyed, it
  returns \<open>x\<close> and leaves \<open>xs\<close>.
\<close>

lemma Get_holds:
  assumes "sfq_wf q" "sfq_holds q (x # xs)" "destroy triv (m_data q ! unat (m_read_index q)) = Some sl"
  shows "\<exists>q'. Get triv q = Inr (Some (x, q')) \<and> sfq_wf q' \<and> sfq_holds q' xs \<and> m_size q' = m_size q"
proof -
  let ?r = "unat (m_read_index q)"
  let ?d = "(m_data q)[ring_pos q 1 := MovedFrom, ?r := sl]"
  let ?q = "q\<lparr>m_data := ?d\<rparr>"
  from assms(2) have h: "Suc (length xs) < unat (m_size q)"
      "unat (m_write_index q) = ring_pos q (Suc (length xs))"
      "\<And>k. k < Suc (length xs) \<Longrightarrow> m_data q ! ring_pos q (Suc k) = Obj ((x # xs) ! k)"
    by (auto simp: sfq_holds_def)
  have ne: "ring_pos q 1 \<noteq> ?r"
    using ring_free_slots(1) [OF assms(1,2), of 0] assms(1) by simp
  have keep: "?d ! ring_pos q (Suc (Suc k)) = Obj (xs ! k)" if "k < length xs" for k
  proof -
    have "ring_pos q 1 \<noteq> ring_pos q (Suc (Suc k))"
      using ring_pos_inj [of q 1 "Suc (Suc k)"] that h(1) by auto
    then show ?thesis
      using that h(3) [of "Suc k"] ring_free_slots(1) [OF assms(1,2), of "Suc k"] assms(1) by simp
  qed
  have "sfq_wf ?q" using assms(1) by (simp add: sfq_wf_def)
  from ring_drop [OF this, of "length xs" xs] have
    "sfq_wf (?q\<lparr>m_read_index := next_pos (m_size q) (m_read_index q)\<rparr>)"
    "sfq_holds (?q\<lparr>m_read_index := next_pos (m_size q) (m_read_index q)\<rparr>) xs"
    using h keep by (simp_all add: ring_pos_def)
  moreover have "Get triv q = Inr (Some (x, ?q\<lparr>m_read_index := next_pos (m_size q) (m_read_index q)\<rparr>))"
    using assms(3) h(3) [of 0] ne read_ne_write [OF assms(1,2)] next_read [OF assms(1)]
    by (simp add: Get_def Let_def)
  ultimately show ?thesis by simp
qed

lemma sfq_inv_holds: "sfq_inv q \<longleftrightarrow> sfq_wf q \<and> sfq_holds q (sfq_items q)"
  using sfq_holds_iff [of q] by (auto simp: sfq_inv_def)

lemma sfq_holdsD: "sfq_wf q \<Longrightarrow> sfq_holds q xs \<Longrightarrow> sfq_inv q \<and> sfq_items q = xs"
  using sfq_holds_iff [of q] by (auto simp: sfq_inv_def)

interpretation sfq: bounded_fifo sfq_inv sfq_items Capacity Push Get_trivial
proof unfold_locales
  fix q :: "'a HSingleFastQueue" and v x xs
  assume "sfq_inv q"
  then have wf: "sfq_wf q" and h: "sfq_holds q (sfq_items q)" by (simp_all add: sfq_inv_holds)
  have le: "Suc (length (sfq_items q)) \<le> unat (m_size q)" using h by (simp add: sfq_holds_def)
  note cap = Capacity_wf [OF wf]
  show "sfq_inv (snd (Push q v))"
    using Push_holds [OF wf h, of v] le sfq_holdsD \<open>sfq_inv q\<close> by (metis le_neq_implies_less snd_conv)
  show "fst (Push q v) \<and> sfq_items (snd (Push q v)) = sfq_items q @ [v] \<and> Capacity (snd (Push q v)) = Capacity q"
    if "length (sfq_items q) < Capacity q"
    using that cap Push_holds(1) [OF wf h, of v] sfq_holdsD [of "snd (Push q v)" "sfq_items q @ [v]"]
    by (simp add: Capacity_wf)
  show "Push q v = (False, q)" if "Capacity q \<le> length (sfq_items q)"
    using that cap le Push_holds(2) [OF wf h, of v] by simp
  show "Get_trivial q = None" if "sfq_items q = []"
    using that read_ne_write [OF wf h] by (simp add: Get_trivial_def Get_def)
  assume "sfq_items q = x # xs"
  with h have "sfq_holds q (x # xs)" by simp
  from Get_holds [OF wf this, of True] obtain q' where
    "Get True q = Inr (Some (x, q'))" "sfq_wf q'" "sfq_holds q' xs" "m_size q' = m_size q"
    by (auto simp: destroy_def)
  then show "\<exists>q'. Get_trivial q = Some (x, q') \<and> sfq_inv q' \<and> sfq_items q' = xs \<and> Capacity q' = Capacity q"
    using sfq_holdsD [of q' xs] by (auto simp: Get_trivial_def Capacity_def)
qed

lemma sfq_new_inv:
  assumes "HSingleFastQueue_new malloc_ok sz = Some q"
  shows "sfq_inv q" "sfq_items q = []" "m_size q = sz"
  using assms
  by (auto simp: HSingleFastQueue_new_def sfq_inv_def sfq_wf_def sfq_live_def sfq_items_def
      ring_len_def word_le_nat_alt word_less_nat_alt split: if_splits)

subsection \<open>Two threads\<close>

text \<open>
  One step of \<open>sfq_step\<close> is one atomic access of the producer or the consumer. The program
  counters carry the locals; \<open>pushed\<close> and \<open>got\<close> record the values whose \<^verbatim>\<open>Push\<close> returned
  true and whose \<^verbatim>\<open>Get\<close> returned true, in order.
\<close>

datatype 'a ppc = PIdle | PCheck HUN 'a | PConstruct HUN 'a | PPublish HUN 'a

datatype 'a cpc = CIdle | CCheck HUN | CMove HUN HUN | CDestroy HUN HUN 'a | CPublish HUN 'a

record 'a sfq_sys =
  ring :: "'a HSingleFastQueue"
  ppc :: "'a ppc"
  cpc :: "'a cpc"
  pushed :: "'a list"
  got :: "'a list"

inductive sfq_step :: "bool \<Rightarrow> 'a sfq_sys \<Rightarrow> 'a sfq_sys \<Rightarrow> bool" for triv where
  p_load: "ppc s = PIdle \<Longrightarrow>
     sfq_step triv s (s\<lparr>ppc := PCheck (next_pos (m_size (ring s)) (m_write_index (ring s))) v\<rparr>)"
| p_full: "\<lbrakk>ppc s = PCheck np v; np = m_read_index (ring s)\<rbrakk> \<Longrightarrow>
     sfq_step triv s (s\<lparr>ppc := PIdle\<rparr>)"
| p_free: "\<lbrakk>ppc s = PCheck np v; np \<noteq> m_read_index (ring s)\<rbrakk> \<Longrightarrow>
     sfq_step triv s (s\<lparr>ppc := PConstruct np v\<rparr>)"
| p_construct: "ppc s = PConstruct np v \<Longrightarrow>
     sfq_step triv s (s\<lparr>ring := (ring s)\<lparr>m_data := (m_data (ring s))[unat np := Obj v]\<rparr>,
                        ppc := PPublish np v\<rparr>)"
| p_publish: "ppc s = PPublish np v \<Longrightarrow>
     sfq_step triv s (s\<lparr>ring := (ring s)\<lparr>m_write_index := np\<rparr>, ppc := PIdle, pushed := pushed s @ [v]\<rparr>)"
| c_load: "cpc s = CIdle \<Longrightarrow> sfq_step triv s (s\<lparr>cpc := CCheck (m_read_index (ring s))\<rparr>)"
| c_empty: "\<lbrakk>cpc s = CCheck cur; cur = m_write_index (ring s)\<rbrakk> \<Longrightarrow> sfq_step triv s (s\<lparr>cpc := CIdle\<rparr>)"
| c_found: "\<lbrakk>cpc s = CCheck cur; cur \<noteq> m_write_index (ring s)\<rbrakk> \<Longrightarrow>
     sfq_step triv s (s\<lparr>cpc := CMove cur (next_pos (m_size (ring s)) cur)\<rparr>)"
| c_move: "\<lbrakk>cpc s = CMove cur np; m_data (ring s) ! unat np = Obj v\<rbrakk> \<Longrightarrow>
     sfq_step triv s (s\<lparr>ring := (ring s)\<lparr>m_data := (m_data (ring s))[unat np := MovedFrom]\<rparr>,
                        cpc := CDestroy cur np v\<rparr>)"
| c_destroy: "\<lbrakk>cpc s = CDestroy cur np v; destroy triv (m_data (ring s) ! unat cur) = Some sl\<rbrakk> \<Longrightarrow>
     sfq_step triv s (s\<lparr>ring := (ring s)\<lparr>m_data := (m_data (ring s))[unat cur := sl]\<rparr>,
                        cpc := CPublish np v\<rparr>)"
| c_publish: "cpc s = CPublish np v \<Longrightarrow>
     sfq_step triv s (s\<lparr>ring := (ring s)\<lparr>m_read_index := np\<rparr>, cpc := CIdle, got := got s @ [v]\<rparr>)"

inductive sfq_reach :: "bool \<Rightarrow> 'a sfq_sys \<Rightarrow> bool" for triv where
  start: "HSingleFastQueue_new malloc_ok sz = Some q \<Longrightarrow>
     sfq_reach triv \<lparr>ring = q, ppc = PIdle, cpc = CIdle, pushed = [], got = []\<rparr>"
| step: "sfq_reach triv s \<Longrightarrow> sfq_step triv s t \<Longrightarrow> sfq_reach triv t"

text \<open>
  The invariant: \<open>xs\<close> are the values published and not yet taken. The consumer may already
  have moved the first of them out of its slot.
\<close>

definition taken :: "'a cpc \<Rightarrow> 'a option" where
  "taken c = (case c of CDestroy _ _ v \<Rightarrow> Some v | CPublish _ v \<Rightarrow> Some v | _ \<Rightarrow> None)"

definition ring_ok :: "'a HSingleFastQueue \<Rightarrow> 'a option \<Rightarrow> 'a list \<Rightarrow> bool" where
  "ring_ok q tk xs \<longleftrightarrow> sfq_wf q \<and> unat (m_write_index q) = ring_pos q (length xs)
     \<and> length xs < unat (m_size q)
     \<and> (\<forall>k < length xs. (k = 0 \<and> tk \<noteq> None) \<or> m_data q ! ring_pos q (Suc k) = Obj (xs ! k))
     \<and> (\<forall>v. tk = Some v \<longrightarrow> xs \<noteq> [] \<and> hd xs = v)"

definition prod_ok :: "'a HSingleFastQueue \<Rightarrow> nat \<Rightarrow> 'a ppc \<Rightarrow> bool" where
  "prod_ok q n p = (case p of
     PIdle \<Rightarrow> True
   | PCheck np v \<Rightarrow> np = next_pos (m_size q) (m_write_index q)
   | PConstruct np v \<Rightarrow> np = next_pos (m_size q) (m_write_index q) \<and> Suc n < unat (m_size q)
   | PPublish np v \<Rightarrow> np = next_pos (m_size q) (m_write_index q) \<and> Suc n < unat (m_size q)
        \<and> m_data q ! unat np = Obj v)"

definition cons_ok :: "'a HSingleFastQueue \<Rightarrow> nat \<Rightarrow> 'a cpc \<Rightarrow> bool" where
  "cons_ok q n c = (case c of
     CIdle \<Rightarrow> True
   | CCheck cur \<Rightarrow> cur = m_read_index q
   | CMove cur np \<Rightarrow> cur = m_read_index q \<and> np = next_pos (m_size q) cur \<and> 0 < n
   | CDestroy cur np v \<Rightarrow> cur = m_read_index q \<and> np = next_pos (m_size q) cur
   | CPublish np v \<Rightarrow> np = next_pos (m_size q) (m_read_index q))"

definition sys_inv :: "'a sfq_sys \<Rightarrow> bool" where
  "sys_inv s \<longleftrightarrow> (\<exists>xs. pushed s = got s @ xs \<and> ring_ok (ring s) (taken (cpc s)) xs
     \<and> prod_ok (ring s) (length xs) (ppc s) \<and> cons_ok (ring s) (length xs) (cpc s))"

lemma ring_okD:
  assumes "ring_ok q tk xs"
  shows "sfq_wf q" "unat (m_write_index q) = ring_pos q (length xs)" "length xs < unat (m_size q)"
    and "k < length xs \<Longrightarrow> (k = 0 \<and> tk \<noteq> None) \<or> m_data q ! ring_pos q (Suc k) = Obj (xs ! k)"
    and "tk = Some v \<Longrightarrow> xs \<noteq> [] \<and> hd xs = v"
  using assms by (auto simp: ring_ok_def)

lemma ring_pos_neq:
  assumes "ring_ok q tk xs" "k < length xs"
  shows "ring_pos q 0 \<noteq> ring_pos q (Suc k)"
    and "Suc (length xs) < unat (m_size q) \<Longrightarrow> ring_pos q (Suc (length xs)) \<noteq> ring_pos q (Suc k)"
    and "0 < k \<Longrightarrow> ring_pos q 1 \<noteq> ring_pos q (Suc k)"
  using assms(2) ring_okD(3) [OF assms(1)] ring_pos_inj [of q 0 "Suc k"]
    ring_pos_inj [of q 1 "Suc k"] ring_pos_inj [of q "Suc (length xs)" "Suc k"]
  by auto

lemma ring_ok_append:
  assumes "ring_ok q tk xs" "Suc (length xs) < unat (m_size q)"
    and "m_data q ! ring_pos q (Suc (length xs)) = Obj v"
  shows "ring_ok (q\<lparr>m_write_index := next_pos (m_size q) (m_write_index q)\<rparr>) tk (xs @ [v])"
  using assms next_write_at(1) [OF ring_okD(1-3) [OF assms(1)]]
  by (auto simp: ring_ok_def sfq_wf_def next_pos_less less_Suc_eq nth_append)

lemma ring_ok_update:
  assumes "ring_ok q tk xs" "\<And>k. k < length xs \<Longrightarrow> p \<noteq> ring_pos q (Suc k)"
  shows "ring_ok (q\<lparr>m_data := (m_data q)[p := sl]\<rparr>) tk xs"
  using assms by (auto simp: ring_ok_def sfq_wf_def)

lemma ring_ok_move:
  assumes "ring_ok q None xs" "0 < length xs" "m_data q ! ring_pos q 1 = Obj v"
  shows "ring_ok (q\<lparr>m_data := (m_data q)[ring_pos q 1 := MovedFrom]\<rparr>) (Some v) xs"
proof -
  have "xs ! 0 = v" using ring_okD(4) [OF assms(1,2)] assms(3) by simp
  then have "hd xs = v" using assms(2) by (simp add: hd_conv_nth)
  moreover have "(m_data q)[ring_pos q 1 := MovedFrom] ! ring_pos q (Suc k) = Obj (xs ! k)"
    if "k < length xs" "k \<noteq> 0" for k
    using ring_pos_neq(3) [OF assms(1), of k] ring_okD(4) [OF assms(1), of k] that by simp
  ultimately show ?thesis
    using assms by (auto simp: ring_ok_def sfq_wf_def)
qed

lemma ring_ok_drop:
  assumes "ring_ok q (Some v) xs"
  shows "\<exists>ys. xs = v # ys \<and> ring_ok (q\<lparr>m_read_index := next_pos (m_size q) (m_read_index q)\<rparr>) None ys"
proof -
  obtain ys where xs: "xs = v # ys"
    using ring_okD(5) [OF assms refl] by (cases xs) auto
  note ok = ring_okD [OF assms, unfolded xs]
  have sh: "m_data q ! ring_pos q (Suc (Suc k)) = Obj (ys ! k)" if "k < length ys" for k
    using ok(4) [of "Suc k"] that by simp
  note drop = ring_drop [OF ok(1), of "length ys" ys]
  have "sfq_wf (q\<lparr>m_read_index := next_pos (m_size q) (m_read_index q)\<rparr>)"
    "sfq_holds (q\<lparr>m_read_index := next_pos (m_size q) (m_read_index q)\<rparr>) ys"
    by (rule drop; use ok(2,3) sh in simp)+
  with xs show ?thesis
    by (auto simp: ring_ok_def sfq_holds_def)
qed

lemma sys_invI:
  assumes "pushed s = got s @ xs" "ring_ok (ring s) (taken (cpc s)) xs"
    "prod_ok (ring s) (length xs) (ppc s)" "cons_ok (ring s) (length xs) (cpc s)"
  shows "sys_inv s"
  using assms by (auto simp: sys_inv_def)

lemma sys_inv_step:
  assumes "sfq_step triv s t" "sys_inv s"
  shows "sys_inv t"
proof -
  from assms(2) obtain xs where xs: "pushed s = got s @ xs"
      "ring_ok (ring s) (taken (cpc s)) xs" "prod_ok (ring s) (length xs) (ppc s)"
      "cons_ok (ring s) (length xs) (cpc s)"
    by (auto simp: sys_inv_def)
  let ?q = "ring s"
  let ?n = "length xs"
  note ok = ring_okD [OF xs(2)]
  note nw = next_write_at [OF ok(1-3)]
  note nr = next_read [OF ok(1)]
  have r0: "unat (m_read_index ?q) = ring_pos ?q 0" using ok(1) by simp
  show ?thesis
    using assms(1)
  proof cases
    case (p_free np v)
    with xs nw(2) ok(3) show ?thesis
      by (intro sys_invI [of _ xs]) (simp_all add: prod_ok_def)
  next
    case (p_construct np v)
    then have np: "unat np = ring_pos ?q (Suc ?n)" "Suc ?n < unat (m_size ?q)"
      using xs(3) nw(1) by (simp_all add: prod_ok_def)
    have "ring_ok (?q\<lparr>m_data := (m_data ?q)[unat np := Obj v]\<rparr>) (taken (cpc s)) xs"
      using ring_pos_neq(2) [OF xs(2) _ np(2)] np(1) by (intro ring_ok_update [OF xs(2)]) simp
    with p_construct xs np ring_pos_bound [OF ok(1), of "Suc ?n"] sfq_wfD(4) [OF ok(1)] show ?thesis
      by (intro sys_invI [of _ xs]) (simp_all add: prod_ok_def cons_ok_def split: cpc.splits)
  next
    case (p_publish np v)
    then have np: "np = next_pos (m_size ?q) (m_write_index ?q)" "Suc ?n < unat (m_size ?q)"
        "m_data ?q ! ring_pos ?q (Suc ?n) = Obj v"
      using xs(3) nw(1) by (auto simp add: prod_ok_def)
    from p_publish xs ring_ok_append [OF xs(2) np(2,3)] np(1) show ?thesis
      by (intro sys_invI [of _ "xs @ [v]"]) (auto simp: prod_ok_def cons_ok_def split: cpc.splits)
  next
    case (c_found cur)
    then have "0 < ?n" using xs(4) ok(2) r0 by (auto simp: cons_ok_def word_unat_eq_iff)
    with c_found xs show ?thesis
      by (intro sys_invI [of _ xs]) (simp_all add: cons_ok_def taken_def)
  next
    case (c_move cur np v)
    then have c: "unat np = ring_pos ?q 1" "0 < ?n" "taken (cpc s) = None"
      using xs(4) nr by (auto simp: cons_ok_def taken_def)
    have "ring_pos ?q 1 \<noteq> ring_pos ?q (Suc ?n)" if "Suc ?n < unat (m_size ?q)"
      using ring_pos_inj [of ?q 1 "Suc ?n"] that c(2) by auto
    with c_move xs c nw(1) ring_ok_move [of ?q xs v] show ?thesis
      by (intro sys_invI [of _ xs]) (auto simp: cons_ok_def prod_ok_def taken_def split: ppc.splits)
  next
    case (c_destroy cur np v sl)
    then have c: "unat cur = ring_pos ?q 0" using xs(4) r0 by (auto simp: cons_ok_def)
    have "ring_ok (?q\<lparr>m_data := (m_data ?q)[unat cur := sl]\<rparr>) (taken (cpc s)) xs"
      using ring_pos_neq(1) [OF xs(2)] c by (intro ring_ok_update [OF xs(2)]) simp
    moreover have "ring_pos ?q 0 \<noteq> ring_pos ?q (Suc ?n)" if "Suc ?n < unat (m_size ?q)"
      using ring_pos_inj [of ?q 0 "Suc ?n"] that by auto
    ultimately show ?thesis
      using c_destroy xs c nw(1)
      by (intro sys_invI [of _ xs]) (auto simp: cons_ok_def prod_ok_def taken_def split: ppc.splits)
  next
    case (c_publish np v)
    with ring_ok_drop [of ?q v xs] xs(2,4) obtain ys where
      "xs = v # ys" "ring_ok (?q\<lparr>m_read_index := np\<rparr>) None ys"
      by (auto simp: taken_def cons_ok_def)
    with c_publish xs show ?thesis
      by (intro sys_invI [of _ ys]) (auto simp: prod_ok_def cons_ok_def taken_def split: ppc.splits)
  qed (use xs in \<open>auto intro!: sys_invI [of _ xs] simp: prod_ok_def cons_ok_def taken_def\<close>)
qed

lemma sys_inv_reach: "sfq_reach triv s \<Longrightarrow> sys_inv s"
proof (induction rule: sfq_reach.induct)
  case (start malloc_ok sz q)
  note new = sfq_new_inv [OF start]
  then have wf: "sfq_wf q" and "sfq_holds q []" by (simp_all add: sfq_inv_holds)
  then have "ring_ok q None []" by (simp add: ring_ok_def sfq_holds_def)
  then show ?case
    by (intro sys_invI [of _ "[]"]) (simp_all add: prod_ok_def cons_ok_def taken_def)
qed (rule sys_inv_step)

subsection \<open>Properties\<close>

text \<open>
  C2: in every interleaving of the producer's and the consumer's atomic accesses, the values
  taken are a prefix of the values pushed, in order: none is lost, repeated or reordered; at
  most \<open>m_size - 1\<close> are in flight; and for element types with a trivial destructor neither
  thread ever touches a slot without an object: whatever point the consumer is at, it can
  go on.
\<close>

theorem sfq_concurrent_fifo:
  assumes "sfq_reach triv s"
  shows "\<exists>xs. pushed s = got s @ xs \<and> length xs < unat (m_size (ring s)) \<and>
           (triv \<longrightarrow> (\<exists>t. sfq_step triv s t \<and> ppc t = ppc s) \<and> (\<exists>t. sfq_step triv s t \<and> cpc t = cpc s))"
proof -
  from sys_inv_reach [OF assms] obtain xs where xs: "pushed s = got s @ xs"
      "ring_ok (ring s) (taken (cpc s)) xs" "cons_ok (ring s) (length xs) (cpc s)"
    by (auto simp: sys_inv_def)
  note ok = ring_okD [OF xs(2)]
  have cons: "\<exists>t. sfq_step True s t \<and> ppc t = ppc s"
  proof (cases "cpc s")
    case (CMove cur np)
    with xs(3) ok(4) [of 0] next_read [OF ok(1)] have "m_data (ring s) ! unat np = Obj (xs ! 0)"
      by (simp add: cons_ok_def taken_def)
    from sfq_step.c_move [OF CMove this] show ?thesis by force
  next
    case (CDestroy cur np v)
    then show ?thesis using sfq_step.c_destroy [of s cur np v True] by (force simp: destroy_def)
  next
    case (CCheck cur)
    then show ?thesis
      using sfq_step.c_empty [of s cur True] sfq_step.c_found [of s cur True]
      by (cases "cur = m_write_index (ring s)") force+
  qed (use sfq_step.c_load [of s True] sfq_step.c_publish [of s _ _ True] in force)+
  have prod: "\<exists>t. sfq_step True s t \<and> cpc t = cpc s"
  proof (cases "ppc s")
    case (PCheck np v)
    then show ?thesis
      using sfq_step.p_full [of s np v True] sfq_step.p_free [of s np v True]
      by (cases "np = m_read_index (ring s)") force+
  qed (use sfq_step.p_load [of s True] sfq_step.p_construct [of s _ _ True]
      sfq_step.p_publish [of s _ _ True] in force)+
  from xs(1) ok(3) cons prod show ?thesis by auto
qed

theorem sfq_concurrent_fifo_witness:
  "\<exists>xs. pushed \<lparr>ring = \<lparr>m_size = 2, m_data = replicate 2 Uninit, m_read_index = 0, m_write_index = 0\<rparr>,
            ppc = PCheck 1 (7 :: nat), cpc = CIdle, pushed = [], got = []\<rparr> = [] @ xs \<and> length xs < 2"
proof -
  let ?q = "\<lparr>m_size = 2, m_data = replicate 2 Uninit, m_read_index = 0, m_write_index = 0\<rparr> :: nat HSingleFastQueue"
  have "HSingleFastQueue_new True 2 = Some ?q"
    by (simp add: HSingleFastQueue_new_def)
  then have "sfq_reach True \<lparr>ring = ?q, ppc = PIdle, cpc = CIdle, pushed = [], got = []\<rparr>"
    by (rule sfq_reach.start)
  moreover have "sfq_step True \<lparr>ring = ?q, ppc = PIdle, cpc = CIdle, pushed = [], got = []\<rparr>
      \<lparr>ring = ?q, ppc = PCheck 1 7, cpc = CIdle, pushed = [], got = []\<rparr>"
    using sfq_step.p_load [of "\<lparr>ring = ?q, ppc = PIdle, cpc = CIdle, pushed = [], got = []\<rparr>" True 7]
    by (simp add: next_pos_def)
  ultimately have "sfq_reach True \<lparr>ring = ?q, ppc = PCheck 1 7, cpc = CIdle, pushed = [], got = []\<rparr>"
    by (rule sfq_reach.step)
  from sfq_concurrent_fifo [OF this] show ?thesis by auto
qed



text \<open>
  for an element type with a real destructor the very first successful \<^verbatim>\<open>Get\<close> on a new
  queue runs the destructor on slot 0, which has never held an object, and so does the
  destructor of the queue when an element is still in it.
\<close>

theorem sfq_first_get_destroys_raw_memory:
  assumes "HSingleFastQueue_new malloc_ok sz = Some q"
  shows "Get False (snd (Push q v)) = Inl () \<and> HSingleFastQueue_delete False (snd (Push q v)) = None"
proof -
  have q: "q = \<lparr>m_size = sz, m_data = replicate (unat sz) Uninit, m_read_index = 0, m_write_index = 0\<rparr>"
    and sz: "2 \<le> unat sz"
    using assms by (auto simp: HSingleFastQueue_new_def word_le_nat_alt split: if_splits)
  have np: "next_pos sz 0 = 1" using sz by (auto simp: next_pos_def)
  show ?thesis
    using sz by (auto simp: Push_def Get_def HSingleFastQueue_delete_def q np destroy_def Let_def
        split: slot.splits)
qed

theorem sfq_first_get_destroys_raw_memory_witness:
  "Get False (snd (Push \<lparr>m_size = 2, m_data = replicate 2 Uninit, m_read_index = 0, m_write_index = 0\<rparr>
     (7 :: nat))) = Inl ()"
  using sfq_first_get_destroys_raw_memory [of True 2
      "\<lparr>m_size = 2, m_data = replicate 2 Uninit, m_read_index = 0, m_write_index = 0\<rparr>" "7 :: nat"]
  by (simp add: HSingleFastQueue_new_def)

text \<open>
  \<^verbatim>\<open>FrontPtr\<close>, documented as a pointer to the value at the front of the queue, points at
  the slot at the read index, which is never a queued slot; on a new queue with one element
  it points at memory that holds no object at all.
\<close>

theorem sfq_FrontPtr_not_front:
  assumes "sfq_inv q" "FrontPtr q = Some p"
  shows "sfq_items q \<noteq> [] \<and> (\<forall>k < length (sfq_items q). unat p \<noteq> ring_pos q (Suc k))"
proof -
  from assms(1) have wf: "sfq_wf q" and h: "sfq_holds q (sfq_items q)" by (simp_all add: sfq_inv_holds)
  from assms(2) have "p = m_read_index q" "m_read_index q \<noteq> m_write_index q"
    by (auto simp: FrontPtr_def split: if_splits)
  with read_ne_write [OF wf h] ring_free_slots(1) [OF wf h] wf show ?thesis by simp
qed

theorem sfq_FrontPtr_not_front_witness:
  "FrontPtr \<lparr>m_size = 2, m_data = [Uninit, Obj (5 :: nat)], m_read_index = 0, m_write_index = 1\<rparr> = Some 0 \<and>
   unat (0 :: HUN) \<noteq> ring_pos \<lparr>m_size = 2, m_data = [Uninit, Obj (5 :: nat)], m_read_index = 0, m_write_index = 1\<rparr> 1"
  using sfq_FrontPtr_not_front
    [of "\<lparr>m_size = 2, m_data = [Uninit, Obj (5 :: nat)], m_read_index = 0, m_write_index = 1\<rparr>" 0]
  by (simp add: sfq_inv_def sfq_wf_def sfq_live_def sfq_items_def FrontPtr_def ring_len_def ring_pos_def)

end
