(* ===== verification/Delay_Time.thy ===== *)
theory Delay_Time
  imports Hui_Prelude "HOL-Library.Signed_Division"
begin

text \<open>
  The time arithmetic of \<^verbatim>\<open>src/src/detail/scheduler/delayqueue_in.h\<close>: the class \<^verbatim>\<open>Timeval\<close> and
  its subclasses, which share one representation. The two fields are \<^verbatim>\<open>long\<close>; they are
  modelled as integers, the 32-bit cast in \<^verbatim>\<open>operator-\<close> is written out, and \<open>tv_fits\<close> states
  that no signed overflow happened.
\<close>

definition MILLION :: int where
  "MILLION = 1000000"

definition LONG_MAX :: int where
  "LONG_MAX = 2 ^ 63 - 1"

record Timeval =
  tv_sec :: int
  tv_usec :: int

definition Timeval_new :: "int \<Rightarrow> int \<Rightarrow> Timeval" where
  "Timeval_new s us = \<lparr>tv_sec = s, tv_usec = us\<rparr>"

definition tv_ge :: "Timeval \<Rightarrow> Timeval \<Rightarrow> bool" where
  "tv_ge a b \<longleftrightarrow> tv_sec a > tv_sec b \<or> (tv_sec a = tv_sec b \<and> tv_usec a \<ge> tv_usec b)"

definition tv_le :: "Timeval \<Rightarrow> Timeval \<Rightarrow> bool" where
  "tv_le a b \<longleftrightarrow> tv_ge b a"

definition tv_lt :: "Timeval \<Rightarrow> Timeval \<Rightarrow> bool" where
  "tv_lt a b \<longleftrightarrow> \<not> tv_ge a b"

definition tv_gt :: "Timeval \<Rightarrow> Timeval \<Rightarrow> bool" where
  "tv_gt a b \<longleftrightarrow> tv_lt b a"

definition tv_eq :: "Timeval \<Rightarrow> Timeval \<Rightarrow> bool" where
  "tv_eq a b \<longleftrightarrow> tv_ge a b \<and> tv_ge b a"

definition tv_ne :: "Timeval \<Rightarrow> Timeval \<Rightarrow> bool" where
  "tv_ne a b \<longleftrightarrow> \<not> tv_eq a b"

definition tv_add :: "Timeval \<Rightarrow> Timeval \<Rightarrow> Timeval" where
  "tv_add a b =
     (let s = tv_sec a + tv_sec b; us = tv_usec a + tv_usec b
      in if us \<ge> MILLION then \<lparr>tv_sec = s + 1, tv_usec = us - MILLION\<rparr>
         else \<lparr>tv_sec = s, tv_usec = us\<rparr>)"

definition tv_sub :: "Timeval \<Rightarrow> Timeval \<Rightarrow> Timeval" where
  "tv_sub a b =
     (let s = tv_sec a - tv_sec b; us = tv_usec a - tv_usec b;
          (s, us) = (if us < 0 then (s - 1, us + MILLION) else (s, us))
      in if s < 0 then \<lparr>tv_sec = 0, tv_usec = 0\<rparr> else \<lparr>tv_sec = s, tv_usec = us\<rparr>)"

definition DELAY_ZERO :: Timeval where
  "DELAY_ZERO = Timeval_new 0 0"

definition ETERNITY :: Timeval where
  "ETERNITY = Timeval_new LONG_MAX (MILLION - 1)"

text \<open>The sign test of the binary minus is made on the seconds cut to a 32-bit \<^verbatim>\<open>int\<close>.\<close>

definition tv_minus :: "Timeval \<Rightarrow> Timeval \<Rightarrow> Timeval" where
  "tv_minus a b =
     (let s = tv_sec a - tv_sec b; us = tv_usec a - tv_usec b;
          (s, us) = (if us < 0 then (s - 1, us + MILLION) else (s, us))
      in if signed_take_bit 31 s < 0 then DELAY_ZERO else Timeval_new s us)"

definition tv_scale :: "int \<Rightarrow> Timeval \<Rightarrow> Timeval" where
  "tv_scale n a =
     (let s = n * tv_sec a; us = n * tv_usec a; carry = us sdiv MILLION
      in Timeval_new (s + carry) (us - carry * MILLION))"

definition DELAY_SECOND :: Timeval where
  "DELAY_SECOND = Timeval_new 1 0"

definition DELAY_MINUTE :: Timeval where
  "DELAY_MINUTE = tv_scale 60 DELAY_SECOND"

definition DELAY_HOUR :: Timeval where
  "DELAY_HOUR = tv_scale 60 DELAY_MINUTE"

definition DELAY_DAY :: Timeval where
  "DELAY_DAY = tv_scale 24 DELAY_HOUR"

subsection \<open>Timevals as microseconds\<close>

definition tv_norm :: "Timeval \<Rightarrow> bool" where
  "tv_norm a \<longleftrightarrow> 0 \<le> tv_sec a \<and> 0 \<le> tv_usec a \<and> tv_usec a < MILLION"

definition tv_us :: "Timeval \<Rightarrow> nat" where
  "tv_us a = nat (tv_sec a * MILLION + tv_usec a)"

lemmas tv_simps = tv_norm_def tv_us_def MILLION_def

named_theorems tv \<open>the operations on normalised timevals, in microseconds\<close>

lemma tv_norm_consts [tv]: "tv_norm DELAY_ZERO" "tv_norm ETERNITY"
  "tv_us DELAY_ZERO = 0" "tv_us ETERNITY = nat (LONG_MAX * MILLION + MILLION - 1)"
  by (simp_all add: DELAY_ZERO_def ETERNITY_def Timeval_new_def tv_simps LONG_MAX_def)

lemma tv_ge_us [tv]: "tv_norm a \<Longrightarrow> tv_norm b \<Longrightarrow> tv_ge a b \<longleftrightarrow> tv_us b \<le> tv_us a"
  unfolding tv_simps tv_ge_def by linarith

lemma tv_lt_us [tv]: "tv_norm a \<Longrightarrow> tv_norm b \<Longrightarrow> tv_lt a b \<longleftrightarrow> tv_us a < tv_us b"
  by (auto simp: tv_lt_def tv_ge_us)

lemma tv_eq_us [tv]: "tv_norm a \<Longrightarrow> tv_norm b \<Longrightarrow> tv_eq a b \<longleftrightarrow> tv_us a = tv_us b"
  by (auto simp: tv_eq_def tv_ge_us)

lemma tv_add_us [tv]:
  assumes "tv_norm a" "tv_norm b"
  shows "tv_norm (tv_add a b)" "tv_us (tv_add a b) = tv_us a + tv_us b"
  using assms by (auto simp: tv_add_def tv_simps Let_def nat_add_distrib [symmetric] algebra_simps)

lemma tv_sub_us [tv]:
  assumes "tv_norm a" "tv_norm b"
  shows "tv_norm (tv_sub a b)" "tv_us (tv_sub a b) = tv_us a - tv_us b"
  using assms by (auto simp: tv_sub_def tv_simps Let_def nat_diff_distrib' [symmetric] algebra_simps)

lemma tv_minus_us [tv]:
  assumes "tv_norm a" "tv_norm b" "tv_ge a b" "tv_sec a - tv_sec b < 2 ^ 31"
  shows "tv_norm (tv_minus a b)" "tv_us (tv_minus a b) = tv_us a - tv_us b"
proof -
  have nb: "\<not> signed_take_bit 31 s < 0" if "0 \<le> s" "s < 2 ^ 31" for s :: int
    using that by (subst signed_take_bit_int_eq_self) simp_all
  have "tv_minus a b = tv_sub a b"
  proof (cases "tv_usec a - tv_usec b < 0")
    case True
    have "0 \<le> tv_sec a - tv_sec b - 1" using True assms(3) by (auto simp: tv_ge_def)
    with True nb [of "tv_sec a - tv_sec b - 1"] assms(4) show ?thesis
      by (simp add: tv_minus_def tv_sub_def Timeval_new_def)
  next
    case False
    have "0 \<le> tv_sec a - tv_sec b" using assms(3) by (auto simp: tv_ge_def)
    with False nb [of "tv_sec a - tv_sec b"] assms(4) show ?thesis
      by (simp add: tv_minus_def tv_sub_def Timeval_new_def)
  qed
  with tv_sub_us [OF assms(1,2)] show "tv_norm (tv_minus a b)" "tv_us (tv_minus a b) = tv_us a - tv_us b"
    by simp_all
qed

text \<open>A normalised timeval of at most \<open>ETERNITY\<close> microseconds has fields that fit a \<^verbatim>\<open>long\<close>.\<close>

definition tv_fits :: "Timeval \<Rightarrow> bool" where
  "tv_fits a \<longleftrightarrow> - LONG_MAX \<le> tv_sec a \<and> tv_sec a \<le> LONG_MAX
     \<and> - LONG_MAX \<le> tv_usec a \<and> tv_usec a \<le> LONG_MAX"

lemma tv_fitsI: "tv_norm a \<Longrightarrow> tv_us a \<le> tv_us ETERNITY \<Longrightarrow> tv_fits a"
  by (auto simp: tv_fits_def tv_simps ETERNITY_def Timeval_new_def LONG_MAX_def nat_le_iff)

end
