(* ===== verification/Link_Ring.thy ===== *)
theory Link_Ring
  imports Main
begin

text \<open>
  Doubly linked lists, over the two functions that read the forward and the backward pointer
  of a node. A list of nodes is linked when each node points to the next and each next node
  points back. The facts on inserting and removing a node of a ring serve the delay queue
  and the handler set of the scheduler.
\<close>

fun lpath :: "('a \<Rightarrow> 'a option) \<Rightarrow> ('a \<Rightarrow> 'a option) \<Rightarrow> 'a list \<Rightarrow> bool" where
  "lpath nx pv (a # b # cs) \<longleftrightarrow> nx a = Some b \<and> pv b = Some a \<and> lpath nx pv (b # cs)"
| "lpath nx pv _ \<longleftrightarrow> True"

lemma lpath_append:
  "lpath nx pv (xs @ c # ys) \<longleftrightarrow> lpath nx pv (xs @ [c]) \<and> lpath nx pv (c # ys)"
proof (induction xs)
  case (Cons x xs)
  then show ?case by (cases xs) auto
qed simp

lemma lpath_snoc: "xs \<noteq> [] \<Longrightarrow>
    lpath nx pv (xs @ [c]) \<longleftrightarrow> lpath nx pv xs \<and> nx (last xs) = Some c \<and> pv c = Some (last xs)"
  by (induction nx pv xs rule: lpath.induct) auto

lemma lpath_frame:
  assumes "lpath nx pv xs" "\<And>x. x \<in> set (butlast xs) \<Longrightarrow> nx' x = nx x"
    and "\<And>x. x \<in> set (tl xs) \<Longrightarrow> pv' x = pv x"
  shows "lpath nx' pv' xs"
  using assms
proof (induction xs)
  case (Cons a xs)
  note prems = Cons.prems and IH = Cons.IH
  show ?case
  proof (cases xs)
    case (Cons b cs)
    have "lpath nx' pv' xs"
    proof (rule IH)
      show "lpath nx pv xs" using prems(1) Cons by simp
      show "nx' x = nx x" if "x \<in> set (butlast xs)" for x
        by (rule prems(2)) (use that Cons in simp)
      show "pv' x = pv x" if "x \<in> set (tl xs)" for x
        by (rule prems(3)) (use that Cons in simp)
    qed
    moreover have "nx' a = nx a" by (rule prems(2)) (simp add: Cons)
    moreover have "pv' b = pv b" by (rule prems(3)) (simp add: Cons)
    ultimately show ?thesis using prems(1) Cons by simp
  qed simp
qed simp

lemma lpath_next: "lpath nx pv (xs @ a # b # ys) \<Longrightarrow> nx a = Some b \<and> pv b = Some a"
  by (simp add: lpath_append [of nx pv xs a "b # ys"])

lemma set_butlast_subset: "set (butlast xs) \<subseteq> set xs"
  by (meson in_set_butlastD subsetI)

lemma lpath_insert:
  assumes "lpath nx pv (s # us @ c # vs)" "distinct (us @ c # vs)" "last (c # vs) = s"
    and "n \<notin> set (us @ c # vs)"
    and "nx' = nx(n := Some c, last (s # us) := Some n)"
    and "pv' = pv(n := Some (last (s # us)), c := Some n)"
  shows "lpath nx' pv' (s # us @ n # c # vs)"
proof -
  let ?p = "last (s # us)"
  have s: "s \<in> set (c # vs)" using assms(3) by (metis last_in_set list.discI)
  then have ds: "distinct (s # us)" "n \<noteq> s" using assms(2,4) by auto
  have path: "lpath nx pv (s # us)" "lpath nx pv (c # vs)"
    using assms(1) lpath_append [of nx pv "s # us" c vs] lpath_snoc [of "s # us" nx pv c] by auto
  have "distinct (butlast (s # us) @ [?p])" using ds
    by (subst append_butlast_last_id) simp_all
  then have nb: "?p \<notin> set (butlast (s # us))" by simp
  note sub = set_butlast_subset [of "s # us"] set_butlast_subset [of "c # vs"]
  have "lpath nx' pv' (s # us)"
    by (rule lpath_frame [OF path(1)]) (use assms(2,4-6) ds nb sub(1) in auto)
  moreover have "n \<noteq> ?p" using ds(2) assms(4) by (cases us rule: rev_cases) auto
  ultimately have "lpath nx' pv' ((s # us) @ [n])"
    using assms(2,4-6) ds(2) by (subst lpath_snoc) auto
  moreover have "?p \<notin> set (butlast (c # vs))"
  proof (cases us rule: rev_cases)
    case Nil
    have "distinct (butlast (c # vs) @ [last (c # vs)])"
      using assms(2) by (subst append_butlast_last_id) simp_all
    with Nil assms(3) show ?thesis by simp
  next
    case (snoc us' u)
    with assms(2) show ?thesis by (auto dest: in_set_butlastD)
  qed
  then have "lpath nx' pv' (c # vs)"
    by (intro lpath_frame [OF path(2)]) (use assms(2,4-6) sub(2) in auto)
  then have "lpath nx' pv' (n # c # vs)"
    using assms(4-6) \<open>n \<noteq> ?p\<close> by auto
  ultimately show ?thesis
    using lpath_append [of nx' pv' "s # us" n "c # vs"] by simp
qed

lemma lpath_remove:
  assumes "lpath nx pv (s # us @ a # c # vs)" "distinct (us @ a # c # vs)" "last (c # vs) = s"
    and "nx' = nx(last (s # us) := Some c, a := None)"
    and "pv' = pv(c := Some (last (s # us)), a := None)"
  shows "lpath nx' pv' (s # us @ c # vs)"
proof -
  let ?p = "last (s # us)"
  have s: "s \<in> set (c # vs)" using assms(3) by (metis last_in_set list.discI)
  then have ds: "distinct (s # us)" "a \<noteq> s" using assms(2) by auto
  have path: "lpath nx pv (s # us)" "lpath nx pv (c # vs)"
    using assms(1) lpath_append [of nx pv "s # us" a "c # vs"] lpath_snoc [of "s # us" nx pv a] by auto
  have "distinct (butlast (s # us) @ [?p])" using ds
    by (subst append_butlast_last_id) simp_all
  then have nb: "?p \<notin> set (butlast (s # us))" by simp
  note sub = set_butlast_subset [of "s # us"] set_butlast_subset [of "c # vs"]
  have "lpath nx' pv' (s # us)"
    by (rule lpath_frame [OF path(1)]) (use assms(2,4,5) ds nb sub(1) in auto)
  moreover have "a \<noteq> ?p" using ds(2) assms(2) by (cases us rule: rev_cases) auto
  ultimately have "lpath nx' pv' ((s # us) @ [c])"
    using assms(2,4,5) by (subst lpath_snoc) auto
  moreover have "?p \<notin> set (butlast (c # vs))"
  proof (cases us rule: rev_cases)
    case Nil
    have "distinct (butlast (c # vs) @ [last (c # vs)])"
      using assms(2) by (subst append_butlast_last_id) simp_all
    with Nil assms(3) show ?thesis by simp
  next
    case (snoc us' u)
    with assms(2) show ?thesis by (auto dest: in_set_butlastD)
  qed
  then have "lpath nx' pv' (c # vs)"
    by (intro lpath_frame [OF path(2)]) (use assms(2,4,5) sub(2) in auto)
  ultimately show ?thesis
    using lpath_append [of nx' pv' "s # us" c vs] by simp
qed


end
