(* ===== verification/Delay_Queue.thy ===== *)
theory Delay_Queue
  imports Delay_Time Link_Ring "HOL-Library.Monad_Syntax"
begin

text \<open>
  The delay queue of \<^verbatim>\<open>src/src/detail/scheduler/delayqueue_in.cpp\<close>: a circular doubly linked
  list of heap entries, each holding the time that remains after its predecessor. The queue
  object is the sentinel of the ring, with a remaining time of \<^verbatim>\<open>ETERNITY\<close>.

  The heap is a map from addresses to entries; a null or dangling pointer that is
  dereferenced gives \<open>None\<close>, and so does a loop that does not end. The reading of the system
  clock (\<^verbatim>\<open>gettimeofday\<close>) is the argument \<open>now\<close>, and a callback is run by the parameter \<open>exec\<close>,
  which may change the queue and the state \<open>'w\<close> of the rest of the program.

  The specification is the list of pending entries with their absolute remaining times:
  adding an entry inserts it behind all entries that are due no later, removing one leaves
  the other times alone, and synchronizing subtracts the elapsed time from all.
\<close>

subsection \<open>Entries and the queue\<close>

type_synonym addr = nat

record 'c DelayQueueEntry =
  m_next :: "addr option"
  m_prev :: "addr option"
  m_deltaTimeRemaining :: Timeval
  m_bc :: "'c option"

type_synonym 'c heap = "addr \<Rightarrow> 'c DelayQueueEntry option"

record 'c DelayQueue =
  dq_self :: addr
  dq_heap :: "'c heap"
  m_lastSyncTime :: Timeval

definition DelayQueueEntry_new :: "addr \<Rightarrow> Timeval \<Rightarrow> 'c option \<Rightarrow> 'c DelayQueueEntry" where
  "DelayQueueEntry_new this delay bc =
     \<lparr>m_next = Some this, m_prev = Some this, m_deltaTimeRemaining = delay, m_bc = bc\<rparr>"

definition DelayQueue_new :: "addr \<Rightarrow> Timeval \<Rightarrow> 'c DelayQueue" where
  "DelayQueue_new this now =
     \<lparr>dq_self = this, dq_heap = [this \<mapsto> DelayQueueEntry_new this ETERNITY None], m_lastSyncTime = now\<rparr>"

definition AlterHandler_new :: "'c DelayQueue \<Rightarrow> addr \<Rightarrow> Timeval \<Rightarrow> 'c option \<Rightarrow> 'c DelayQueue" where
  "AlterHandler_new q a di bc = q\<lparr>dq_heap := (dq_heap q)(a \<mapsto> DelayQueueEntry_new a di bc)\<rparr>"

text \<open>An assignment to a field of the entry at an address.\<close>

definition set_entry :: "'c heap \<Rightarrow> addr \<Rightarrow> ('c DelayQueueEntry \<Rightarrow> 'c DelayQueueEntry) \<Rightarrow> 'c heap option" where
  "set_entry h a f = map_option (\<lambda>e. h(a \<mapsto> f e)) (h a)"

definition dq_head :: "'c DelayQueue \<Rightarrow> addr option" where
  "dq_head q = do { e \<leftarrow> dq_heap q (dq_self q); m_next e }"

subsection \<open>Synchronizing\<close>

partial_function (option) synchronize_loop :: "'c heap \<Rightarrow> Timeval \<Rightarrow> addr \<Rightarrow> 'c heap option" where
  "synchronize_loop h since cur =
     do { e \<leftarrow> h cur;
          if tv_ge since (m_deltaTimeRemaining e)
          then do { let since' = tv_sub since (m_deltaTimeRemaining e);
                    h \<leftarrow> set_entry h cur (\<lambda>e. e\<lparr>m_deltaTimeRemaining := DELAY_ZERO\<rparr>);
                    cur \<leftarrow> m_next e;
                    synchronize_loop h since' cur }
          else set_entry h cur (\<lambda>e. e\<lparr>m_deltaTimeRemaining := tv_sub (m_deltaTimeRemaining e) since\<rparr>) }"

definition synchronize :: "Timeval \<Rightarrow> 'c DelayQueue \<Rightarrow> 'c DelayQueue option" where
  "synchronize now q =
     (if tv_lt now (m_lastSyncTime q) then Some (q\<lparr>m_lastSyncTime := now\<rparr>)
      else do { let since = tv_minus now (m_lastSyncTime q);
                cur \<leftarrow> dq_head q;
                h \<leftarrow> synchronize_loop (dq_heap q) since cur;
                Some (q\<lparr>m_lastSyncTime := now, dq_heap := h\<rparr>) })"

subsection \<open>Adding, removing and updating entries\<close>

partial_function (option) AddEntry_loop :: "'c heap \<Rightarrow> addr \<Rightarrow> addr \<Rightarrow> ('c heap \<times> addr) option" where
  "AddEntry_loop h newEntry cur =
     do { n \<leftarrow> h newEntry;
          c \<leftarrow> h cur;
          if tv_ge (m_deltaTimeRemaining n) (m_deltaTimeRemaining c)
          then do { h \<leftarrow> set_entry h newEntry
                      (\<lambda>e. e\<lparr>m_deltaTimeRemaining := tv_sub (m_deltaTimeRemaining n) (m_deltaTimeRemaining c)\<rparr>);
                    cur \<leftarrow> m_next c;
                    AddEntry_loop h newEntry cur }
          else Some (h, cur) }"

definition link_before :: "'c heap \<Rightarrow> addr \<Rightarrow> addr \<Rightarrow> 'c heap option" where
  "link_before h newEntry cur =
     do { h \<leftarrow> set_entry h newEntry (\<lambda>e. e\<lparr>m_next := Some cur\<rparr>);
          c \<leftarrow> h cur;
          h \<leftarrow> set_entry h newEntry (\<lambda>e. e\<lparr>m_prev := m_prev c\<rparr>);
          n \<leftarrow> h newEntry;
          p \<leftarrow> m_prev n;
          h \<leftarrow> set_entry h p (\<lambda>e. e\<lparr>m_next := Some newEntry\<rparr>);
          set_entry h cur (\<lambda>e. e\<lparr>m_prev := Some newEntry\<rparr>) }"

definition AddEntry :: "Timeval \<Rightarrow> 'c DelayQueue \<Rightarrow> addr \<Rightarrow> 'c DelayQueue option" where
  "AddEntry now q newEntry =
     do { q \<leftarrow> synchronize now q;
          cur \<leftarrow> dq_head q;
          (h, cur) \<leftarrow> AddEntry_loop (dq_heap q) newEntry cur;
          n \<leftarrow> h newEntry;
          h \<leftarrow> set_entry h cur
            (\<lambda>e. e\<lparr>m_deltaTimeRemaining := tv_sub (m_deltaTimeRemaining e) (m_deltaTimeRemaining n)\<rparr>);
          h \<leftarrow> link_before h newEntry cur;
          Some (q\<lparr>dq_heap := h\<rparr>) }"

definition RemoveEntry :: "'c DelayQueue \<Rightarrow> addr option \<Rightarrow> 'c DelayQueue option" where
  "RemoveEntry q entry =
     (case entry of
        None \<Rightarrow> Some q
      | Some a \<Rightarrow>
          do { e \<leftarrow> dq_heap q a;
               case m_next e of
                 None \<Rightarrow> Some q
               | Some n \<Rightarrow>
                   do { h \<leftarrow> set_entry (dq_heap q) n (\<lambda>x. x\<lparr>m_deltaTimeRemaining :=
                          tv_add (m_deltaTimeRemaining x) (m_deltaTimeRemaining e)\<rparr>);
                        p \<leftarrow> m_prev e;
                        h \<leftarrow> set_entry h p (\<lambda>x. x\<lparr>m_next := Some n\<rparr>);
                        h \<leftarrow> set_entry h n (\<lambda>x. x\<lparr>m_prev := Some p\<rparr>);
                        h \<leftarrow> set_entry h a (\<lambda>x. x\<lparr>m_next := None, m_prev := None\<rparr>);
                        Some (q\<lparr>dq_heap := h\<rparr>) } })"

definition UpdateEntry :: "Timeval \<Rightarrow> 'c DelayQueue \<Rightarrow> addr option \<Rightarrow> Timeval \<Rightarrow> 'c DelayQueue option" where
  "UpdateEntry now q entry newDelay =
     (case entry of
        None \<Rightarrow> Some q
      | Some a \<Rightarrow>
          do { q \<leftarrow> RemoveEntry q entry;
               h \<leftarrow> set_entry (dq_heap q) a (\<lambda>e. e\<lparr>m_deltaTimeRemaining := newDelay\<rparr>);
               AddEntry now (q\<lparr>dq_heap := h\<rparr>) a })"

subsection \<open>Alarms\<close>

definition TimeToNextAlarm :: "Timeval \<Rightarrow> 'c DelayQueue \<Rightarrow> (Timeval \<times> 'c DelayQueue) option" where
  "TimeToNextAlarm now q =
     do { a \<leftarrow> dq_head q;
          e \<leftarrow> dq_heap q a;
          if tv_eq (m_deltaTimeRemaining e) DELAY_ZERO then Some (DELAY_ZERO, q)
          else do { q \<leftarrow> synchronize now q;
                    a \<leftarrow> dq_head q;
                    e \<leftarrow> dq_heap q a;
                    Some (m_deltaTimeRemaining e, q) } }"

definition handleTimeout ::
    "('c \<Rightarrow> 'c DelayQueue \<times> 'w \<Rightarrow> ('c DelayQueue \<times> 'w) option) \<Rightarrow> addr
       \<Rightarrow> 'c DelayQueue \<times> 'w \<Rightarrow> ('c DelayQueue \<times> 'w) option" where
  "handleTimeout exec a qw =
     do { e \<leftarrow> dq_heap (fst qw) a;
          case m_bc e of None \<Rightarrow> Some qw | Some bc \<Rightarrow> exec bc qw }"

partial_function (option) HandleAlarm_loop ::
    "('c \<Rightarrow> 'c DelayQueue \<times> 'w \<Rightarrow> ('c DelayQueue \<times> 'w) option)
       \<Rightarrow> 'c DelayQueue \<times> 'w \<Rightarrow> ('c DelayQueue \<times> 'w) option" where
  "HandleAlarm_loop exec qw =
     do { toRemove \<leftarrow> dq_head (fst qw);
          e \<leftarrow> dq_heap (fst qw) toRemove;
          if tv_eq (m_deltaTimeRemaining e) DELAY_ZERO
          then do { q \<leftarrow> RemoveEntry (fst qw) (Some toRemove);
                    (q, w) \<leftarrow> handleTimeout exec toRemove (q, snd qw);
                    HandleAlarm_loop exec (q\<lparr>dq_heap := (dq_heap q)(toRemove := None)\<rparr>, w) }
          else Some qw }"

definition HandleAlarm ::
    "('c \<Rightarrow> 'c DelayQueue \<times> 'w \<Rightarrow> ('c DelayQueue \<times> 'w) option) \<Rightarrow> Timeval
       \<Rightarrow> 'c DelayQueue \<times> 'w \<Rightarrow> ('c DelayQueue \<times> 'w) option" where
  "HandleAlarm exec now qw =
     do { a \<leftarrow> dq_head (fst qw);
          e \<leftarrow> dq_heap (fst qw) a;
          q \<leftarrow> (if tv_ne (m_deltaTimeRemaining e) DELAY_ZERO then synchronize now (fst qw) else Some (fst qw));
          HandleAlarm_loop exec (q, snd qw) }"

partial_function (option) DelayQueue_delete :: "'c DelayQueue \<Rightarrow> 'c heap option" where
  "DelayQueue_delete q =
     do { e \<leftarrow> dq_heap q (dq_self q);
          entryToRemove \<leftarrow> m_next e;
          if entryToRemove \<noteq> dq_self q
          then do { q \<leftarrow> RemoveEntry q (Some entryToRemove);
                    DelayQueue_delete (q\<lparr>dq_heap := (dq_heap q)(entryToRemove := None)\<rparr>) }
          else Some ((dq_heap q)(dq_self q := None)) }"


subsection \<open>The ring\<close>

definition nxt :: "'c heap \<Rightarrow> addr \<Rightarrow> addr option" where
  "nxt h a = do { e \<leftarrow> h a; m_next e }"

definition prv :: "'c heap \<Rightarrow> addr \<Rightarrow> addr option" where
  "prv h a = do { e \<leftarrow> h a; m_prev e }"

definition bcs :: "'c heap \<Rightarrow> addr \<Rightarrow> 'c option" where
  "bcs h a = do { e \<leftarrow> h a; m_bc e }"

definition delta :: "'c heap \<Rightarrow> addr \<Rightarrow> nat" where
  "delta h a = (case h a of None \<Rightarrow> 0 | Some e \<Rightarrow> tv_us (m_deltaTimeRemaining e))"

definition entry_ok :: "'c heap \<Rightarrow> addr \<Rightarrow> bool" where
  "entry_ok h a = (case h a of None \<Rightarrow> False | Some e \<Rightarrow> tv_norm (m_deltaTimeRemaining e))"

abbreviation dpath :: "'c heap \<Rightarrow> addr list \<Rightarrow> bool" where
  "dpath h \<equiv> lpath (nxt h) (prv h)"

definition ring :: "'c DelayQueue \<Rightarrow> addr list \<Rightarrow> bool" where
  "ring q as \<longleftrightarrow> distinct (dq_self q # as) \<and> dpath (dq_heap q) (dq_self q # as @ [dq_self q])
     \<and> (\<forall>a \<in> set (dq_self q # as). entry_ok (dq_heap q) a)"

text \<open>The deltas along the ring, the sentinel last, and their sum: the horizon of the queue.\<close>

definition deltas :: "'c DelayQueue \<Rightarrow> addr list \<Rightarrow> nat list" where
  "deltas q as = map (delta (dq_heap q)) (as @ [dq_self q])"

definition span :: "'c DelayQueue \<Rightarrow> addr list \<Rightarrow> nat" where
  "span q as = sum_list (deltas q as)"

primrec sums :: "nat \<Rightarrow> nat list \<Rightarrow> nat list" where
  "sums acc [] = []"
| "sums acc (d # ds) = (acc + d) # sums (acc + d) ds"

definition remaining :: "'c DelayQueue \<Rightarrow> addr list \<Rightarrow> (addr \<times> nat) list" where
  "remaining q as = zip as (sums 0 (map (delta (dq_heap q)) as))"

lemma set_entry_Some [simp]: "h a = Some e \<Longrightarrow> set_entry h a f = Some (h(a \<mapsto> f e))"
  by (simp add: set_entry_def)

lemma entry_okE:
  assumes "entry_ok h a"
  obtains e where "h a = Some e" "tv_norm (m_deltaTimeRemaining e)" "delta h a = tv_us (m_deltaTimeRemaining e)"
  using assms by (auto simp: entry_ok_def delta_def split: option.splits)

text \<open>A change of an entry's remaining time leaves the links alone.\<close>

definition set_delta :: "'c heap \<Rightarrow> addr \<Rightarrow> Timeval \<Rightarrow> 'c heap" where
  "set_delta h a t = h(a := map_option (\<lambda>e. e\<lparr>m_deltaTimeRemaining := t\<rparr>) (h a))"

lemma set_delta_simps [simp]:
  "nxt (set_delta h a t) = nxt h" "prv (set_delta h a t) = prv h"
  "x \<noteq> a \<Longrightarrow> set_delta h a t x = h x"
  "x \<noteq> a \<Longrightarrow> delta (set_delta h a t) x = delta h x"
  "x \<noteq> a \<Longrightarrow> entry_ok (set_delta h a t) x = entry_ok h x"
  "entry_ok h a \<Longrightarrow> delta (set_delta h a t) a = tv_us t"
  "entry_ok h a \<Longrightarrow> entry_ok (set_delta h a t) a \<longleftrightarrow> tv_norm t"
  "bcs (set_delta h a t) = bcs h"
  by (cases "h a"; auto simp: set_delta_def nxt_def prv_def bcs_def delta_def entry_ok_def fun_eq_iff)+

lemma set_delta_fold [simp]:
  "h a = Some e \<Longrightarrow> h(a \<mapsto> e\<lparr>m_deltaTimeRemaining := t\<rparr>) = set_delta h a t"
  by (simp add: set_delta_def)

subsection \<open>Synchronizing subtracts the elapsed time\<close>

primrec sync_list :: "nat \<Rightarrow> nat list \<Rightarrow> nat list" where
  "sync_list e [] = []"
| "sync_list e (d # ds) = (if d \<le> e then 0 # sync_list (e - d) ds else (d - e) # ds)"

lemma synchronize_loop_spec:
  assumes "dpath h cs" "distinct cs" "\<forall>a \<in> set cs. entry_ok h a" "tv_norm since"
    and "tv_us since < sum_list (map (delta h) cs)"
  shows "\<exists>h'. synchronize_loop h since (hd cs) = Some h' \<and> nxt h' = nxt h \<and> prv h' = prv h \<and> bcs h' = bcs h \<and>
     (\<forall>x. x \<notin> set cs \<longrightarrow> h' x = h x) \<and> (\<forall>a \<in> set cs. entry_ok h' a) \<and>
     map (delta h') cs = sync_list (tv_us since) (map (delta h) cs)"
  using assms
proof (induction cs arbitrary: h since)
  case (Cons a cs)
  then obtain e where e: "h a = Some e" "tv_norm (m_deltaTimeRemaining e)"
      "delta h a = tv_us (m_deltaTimeRemaining e)"
    by (auto elim: entry_okE)
  have ok: "entry_ok h a" using Cons.prems(3) by simp
  have keep: "map (delta (set_delta h a t)) cs = map (delta h) cs" for t
    using Cons.prems(2) by (intro map_cong refl set_delta_simps(4)) auto
  have oks: "\<forall>x \<in> set cs. entry_ok (set_delta h a t) x" for t
    using Cons.prems(2,3) by (metis distinct.simps(2) list.set_intros(2) set_delta_simps(5))
  show ?case
  proof (cases "delta h a \<le> tv_us since")
    case False
    then have "synchronize_loop h since a = Some (set_delta h a (tv_sub (m_deltaTimeRemaining e) since))"
      using e Cons.prems(4) by (simp add: synchronize_loop.simps [of h since a] tv)
    with False e ok Cons.prems(4) keep oks show ?thesis
      by (simp add: tv)
  next
    case True
    let ?h = "set_delta h a DELAY_ZERO"
    let ?since = "tv_sub since (m_deltaTimeRemaining e)"
    from True Cons.prems(5) have "cs \<noteq> []" by auto
    then obtain b ds where cs: "cs = b # ds" by (cases cs) auto
    then have nx: "m_next e = Some b" using Cons.prems(1) e(1) by (simp add: nxt_def)
    have path: "dpath h cs" using Cons.prems(1) cs by simp
    have since: "tv_us ?since = tv_us since - delta h a" "tv_norm ?since"
      using Cons.prems(4) e(2,3) by (simp_all add: tv)
    have lt: "tv_us since - delta h a < sum_list (map (delta h) cs)"
      using Cons.prems(5) True by simp
    have "distinct cs" using Cons.prems(2) by simp
    from Cons.IH [of ?h ?since, unfolded keep since(1) set_delta_simps(1,2,8), OF path this oks since(2) lt]
    obtain h' where h': "synchronize_loop ?h ?since b = Some h'" "nxt h' = nxt h" "prv h' = prv h"
        "\<And>x. x \<notin> set cs \<Longrightarrow> h' x = ?h x" "\<forall>a \<in> set cs. entry_ok h' a"
        "map (delta h') cs = sync_list (tv_us since - delta h a) (map (delta h) cs)"
        "bcs h' = bcs h"
      unfolding cs list.sel(1) by blast
    have a: "h' a = ?h a" using h'(4) Cons.prems(2) by simp
    then have "delta h' a = 0" "entry_ok h' a"
      using ok by (auto simp: delta_def entry_ok_def set_delta_def tv split: option.splits)
    moreover have "synchronize_loop h since a = Some h'"
      using True e nx h'(1) Cons.prems(4)
      by (simp add: synchronize_loop.simps [of h since a] tv)
    moreover have "\<forall>x. x \<notin> set (a # cs) \<longrightarrow> h' x = h x" using h'(4) by simp
    moreover note h'(2,3,5,6,7) True
    ultimately show ?thesis by (intro exI [of _ h']) simp
  qed
qed simp

lemma sums_shift: "sums acc ds = map (\<lambda>t. acc + t) (sums 0 ds)"
proof (induction ds arbitrary: acc)
  case (Cons d ds)
  show ?case by (simp add: Cons.IH [of "acc + d"] Cons.IH [of d] add.assoc)
qed simp

lemma length_sums [simp]: "length (sums acc ds) = length ds"
  by (induction ds arbitrary: acc) simp_all

lemma sums_append: "sums acc (ds @ es) = sums acc ds @ sums (acc + sum_list ds) es"
  by (induction ds arbitrary: acc) (simp_all add: add.assoc)

lemma sums_sync_list: "sums 0 (sync_list e ds) = map (\<lambda>t. t - e) (sums 0 ds)"
proof (induction ds arbitrary: e)
  case (Cons d ds)
  show ?case
  proof (cases "d \<le> e")
    case True
    then show ?thesis by (simp add: Cons.IH sums_shift [of d ds] add.commute)
  next
    case False
    then show ?thesis by (simp add: sums_shift [of d ds] sums_shift [of "d - e" ds])
  qed
qed simp

lemma sum_sync_list: "e < sum_list ds \<Longrightarrow> sum_list (sync_list e ds) = sum_list ds - e"
  by (induction ds arbitrary: e) auto

text \<open>The elapsed time the code computes: zero when the clock went back.\<close>

definition elapsed :: "Timeval \<Rightarrow> 'c DelayQueue \<Rightarrow> nat" where
  "elapsed now q = tv_us now - tv_us (m_lastSyncTime q)"

definition clock_ok :: "Timeval \<Rightarrow> 'c DelayQueue \<Rightarrow> bool" where
  "clock_ok now q \<longleftrightarrow> tv_norm now \<and> tv_norm (m_lastSyncTime q)
     \<and> tv_sec now - tv_sec (m_lastSyncTime q) < 2 ^ 31"

lemma length_sync_list [simp]: "length (sync_list e ds) = length ds"
  by (induction ds arbitrary: e) simp_all

lemma ring_head:
  assumes "ring q as"
  shows "dq_head q = Some (hd (as @ [dq_self q]))" "dpath (dq_heap q) (as @ [dq_self q])"
    "distinct (as @ [dq_self q])" "\<forall>a \<in> set (as @ [dq_self q]). entry_ok (dq_heap q) a"
  using assms by (cases as; simp add: ring_def dq_head_def nxt_def; fail)+

lemma ringI:
  assumes "ring q as" "nxt h = nxt (dq_heap q)" "prv h = prv (dq_heap q)"
    "\<forall>a \<in> set (as @ [dq_self q]). entry_ok h a"
  shows "ring (q\<lparr>dq_heap := h\<rparr>) as" "ring (q\<lparr>m_lastSyncTime := t, dq_heap := h\<rparr>) as"
  using assms by (auto simp: ring_def intro: lpath_frame)

lemma ring_heapI:
  assumes "as @ [dq_self q] = cs" "distinct cs" "dpath h (dq_self q # cs)" "\<forall>a \<in> set cs. entry_ok h a"
  shows "ring (q\<lparr>dq_heap := h\<rparr>) as"
  using assms by (auto simp: ring_def)

lemma synchronize_spec:
  assumes "ring q as" "clock_ok now q" "elapsed now q < span q as"
  shows "\<exists>q'. synchronize now q = Some q' \<and> ring q' as \<and> dq_self q' = dq_self q \<and>
    m_lastSyncTime q' = now \<and> (\<forall>x. x \<notin> set (dq_self q # as) \<longrightarrow> dq_heap q' x = dq_heap q x) \<and>
    bcs (dq_heap q') = bcs (dq_heap q) \<and> deltas q' as = sync_list (elapsed now q) (deltas q as)"
proof (cases "tv_lt now (m_lastSyncTime q)")
  case True
  then have "elapsed now q = 0" using assms(2) by (simp add: elapsed_def clock_ok_def tv)
  moreover have "sync_list 0 ds = ds" for ds
    by (induction ds) auto
  ultimately show ?thesis
    using True assms(1) by (simp add: synchronize_def ring_def deltas_def)
next
  case False
  let ?since = "tv_minus now (m_lastSyncTime q)"
  let ?cs = "as @ [dq_self q]"
  have "tv_ge now (m_lastSyncTime q)" using False by (simp add: tv_lt_def)
  then have since: "tv_norm ?since" "tv_us ?since = elapsed now q"
    using assms(2) by (simp_all add: tv clock_ok_def elapsed_def)
  note head = ring_head [OF assms(1)]
  have "tv_us ?since < sum_list (map (delta (dq_heap q)) ?cs)"
    using assms(3) since by (simp only: span_def deltas_def)
  from synchronize_loop_spec [OF head(2-4) since(1) this] obtain h' where
    h': "synchronize_loop (dq_heap q) ?since (hd ?cs) = Some h'" "nxt h' = nxt (dq_heap q)"
      "prv h' = prv (dq_heap q)" "bcs h' = bcs (dq_heap q)" "\<forall>x. x \<notin> set ?cs \<longrightarrow> h' x = dq_heap q x"
      "\<forall>a \<in> set ?cs. entry_ok h' a"
      "map (delta h') ?cs = sync_list (tv_us ?since) (map (delta (dq_heap q)) ?cs)"
    by blast
  have "synchronize now q = Some (q\<lparr>m_lastSyncTime := now, dq_heap := h'\<rparr>)"
    using False head(1) h'(1) by (simp add: synchronize_def)
  with h' ringI(2) [OF assms(1) h'(2,3,6)] since(2) show ?thesis
    by (auto simp: deltas_def)
qed

lemma butlast_sums_deltas: "butlast (sums 0 (deltas q as)) = sums 0 (map (delta (dq_heap q)) as)"
  by (simp add: deltas_def sums_append)

lemma remaining_sync:
  assumes "deltas q' as = sync_list e (deltas q as)"
  shows "remaining q' as = map (\<lambda>(a, t). (a, t - e)) (remaining q as)"
proof -
  have "butlast (sums 0 (deltas q' as)) = map (\<lambda>t. t - e) (butlast (sums 0 (deltas q as)))"
    unfolding assms sums_sync_list by (simp add: map_butlast)
  then show ?thesis
    unfolding butlast_sums_deltas by (simp add: remaining_def zip_map2)
qed

subsection \<open>Inserting\<close>

lemma AddEntry_loop_spec:
  assumes "dpath h cs" "n \<notin> set cs" "entry_ok h n" "\<forall>a \<in> set cs. entry_ok h a"
    and "delta h n < sum_list (map (delta h) cs)"
  shows "\<exists>us c vs t. cs = us @ c # vs \<and> AddEntry_loop h n (hd cs) = Some (set_delta h n t, c) \<and>
     tv_norm t \<and> tv_us t = delta h n - sum_list (map (delta h) us) \<and>
     sum_list (map (delta h) us) \<le> delta h n \<and>
     delta h n < sum_list (map (delta h) us) + delta h c"
  using assms
proof (induction cs arbitrary: h)
  case (Cons a cs)
  obtain x where x: "h n = Some x" "tv_norm (m_deltaTimeRemaining x)"
      "delta h n = tv_us (m_deltaTimeRemaining x)"
    using Cons.prems(3) by (rule entry_okE)
  obtain e where e: "h a = Some e" "tv_norm (m_deltaTimeRemaining e)"
      "delta h a = tv_us (m_deltaTimeRemaining e)"
    using Cons.prems(4) by (auto elim: entry_okE)
  show ?case
  proof (cases "delta h a \<le> delta h n")
    case False
    have "set_delta h n (m_deltaTimeRemaining x) = h"
      using x(1) by (auto simp: set_delta_def)
    with False x e show ?thesis
      by (intro exI [of _ "[]"] exI [of _ a] exI [of _ cs] exI [of _ "m_deltaTimeRemaining x"])
        (simp add: AddEntry_loop.simps [of h n a] tv)
  next
    case True
    let ?t = "tv_sub (m_deltaTimeRemaining x) (m_deltaTimeRemaining e)"
    let ?h = "set_delta h n ?t"
    from True Cons.prems(5) obtain b ds where cs: "cs = b # ds" by (cases cs) auto
    then have nx: "m_next e = Some b" using Cons.prems(1) e(1) by (simp add: nxt_def)
    have keep: "map (delta ?h) ys = map (delta h) ys" if "set ys \<subseteq> set (a # cs)" for ys
      using that Cons.prems(2) by (intro map_cong refl set_delta_simps(4)) auto
    have oks: "\<forall>y \<in> set cs. entry_ok ?h y"
      using Cons.prems(2,4) by (metis list.set_intros(2) set_delta_simps(5))
    have t: "tv_norm ?t" "tv_us ?t = delta h n - delta h a" using x e by (simp_all add: tv)
    have dn: "delta ?h n = delta h n - delta h a" using t Cons.prems(3) by simp
    have "dpath ?h cs" using Cons.prems(1) cs by simp
    then have "\<exists>us c vs t. cs = us @ c # vs \<and> AddEntry_loop ?h n (hd cs) = Some (set_delta ?h n t, c) \<and>
        tv_norm t \<and> tv_us t = delta ?h n - sum_list (map (delta ?h) us) \<and>
        sum_list (map (delta ?h) us) \<le> delta ?h n \<and>
        delta ?h n < sum_list (map (delta ?h) us) + delta ?h c"
      by (rule Cons.IH)
        (use Cons.prems(2,3,5) True t oks dn in \<open>simp_all add: keep [of cs, OF set_subset_Cons]\<close>)
    then obtain us c vs t' where ih: "cs = us @ c # vs"
        "AddEntry_loop ?h n b = Some (set_delta ?h n t', c)" "tv_norm t'"
        "tv_us t' = delta ?h n - sum_list (map (delta ?h) us)"
        "sum_list (map (delta ?h) us) \<le> delta ?h n"
        "delta ?h n < sum_list (map (delta ?h) us) + delta ?h c"
      using cs by auto
    have us: "map (delta ?h) us = map (delta h) us" "delta ?h c = delta h c"
      using keep [of us] keep [of "[c]"] ih(1) by auto
    have "set_delta ?h n t' = set_delta h n t'"
      by (auto simp: set_delta_def option.map_comp comp_def)
    then have "AddEntry_loop h n a = Some (set_delta h n t', c)"
      using True x e nx ih(2) by (simp add: AddEntry_loop.simps [of h n a] tv)
    with ih us dn True show ?thesis
      by (intro exI [of _ "a # us"] exI [of _ c] exI [of _ vs] exI [of _ t']) auto
  qed
qed simp

text \<open>Linking an entry in front of another one, as an update of the two link functions.\<close>

lemma link_before_spec:
  assumes "h n = Some x" "h c = Some y" "m_prev y = Some p" "h p = Some z" "n \<noteq> p" "n \<noteq> c"
  shows "\<exists>h'. link_before h n c = Some h' \<and> nxt h' = (nxt h)(n := Some c, p := Some n) \<and>
    prv h' = (prv h)(n := Some p, c := Some n) \<and> bcs h' = bcs h \<and> delta h' = delta h \<and>
    entry_ok h' = entry_ok h \<and> (\<forall>a. a \<notin> {n, p, c} \<longrightarrow> h' a = h a)"
proof -
  let ?z = "if p = c then z\<lparr>m_next := Some n\<rparr> else y"
  let ?h = "h(n \<mapsto> x\<lparr>m_next := Some c, m_prev := Some p\<rparr>, p \<mapsto> z\<lparr>m_next := Some n\<rparr>,
    c \<mapsto> ?z\<lparr>m_prev := Some n\<rparr>)"
  have "link_before h n c = Some ?h"
    using assms by (cases "p = c") (simp_all add: link_before_def)
  moreover have "nxt ?h = (nxt h)(n := Some c, p := Some n)" "prv ?h = (prv h)(n := Some p, c := Some n)"
    "bcs ?h = bcs h" "delta ?h = delta h" "entry_ok ?h = entry_ok h"
    using assms by (auto simp: nxt_def prv_def bcs_def delta_def entry_ok_def fun_eq_iff)
  ultimately show ?thesis by (intro exI [of _ ?h]) simp
qed

lemma remaining_insert:
  assumes "sum_list (map f us) \<le> d" "d < sum_list (map f us) + f c" "c = hd (vs @ [s])"
    and "\<And>x. x \<in> set (us @ vs) \<Longrightarrow> x \<noteq> c \<Longrightarrow> g x = f x" "c \<notin> set us" "distinct vs" "s \<notin> set vs"
    and "g n = d - sum_list (map f us)" "g c = f c - (d - sum_list (map f us))"
  shows "zip (us @ n # vs) (sums 0 (map g (us @ n # vs))) =
    (let R = zip (us @ vs) (sums 0 (map f (us @ vs)))
     in takeWhile (\<lambda>(a, t). t \<le> d) R @ (n, d) # dropWhile (\<lambda>(a, t). t \<le> d) R)"
proof -
  let ?S = "sum_list (map f us)"
  let ?A = "zip us (sums 0 (map f us))"
  let ?B = "zip vs (sums ?S (map f vs))"
  have us: "map g us = map f us"
    using assms(4,5) by (intro map_cong) auto
  have R: "zip (us @ vs) (sums 0 (map f (us @ vs))) = ?A @ ?B"
    by (simp add: sums_append)
  have le: "t \<le> acc + sum_list ds" if "t \<in> set (sums acc ds)" for t acc ds
    using that by (induction ds arbitrary: acc) (fastforce simp: add.assoc)+
  have A: "\<forall>x \<in> set ?A. (\<lambda>(a, t). t \<le> d) x"
    using le [of _ 0 "map f us"] assms(1) by (force dest: set_zip_rightD)
  have vs: "sums d (map g vs) = sums ?S (map f vs) \<and> (vs = [] \<or> \<not> hd (sums ?S (map f vs)) \<le> d)"
  proof (cases vs)
    case (Cons v vs')
    then have v: "v = c" using assms(3) by simp
    then have mg: "map g vs' = map f vs'"
      using assms(4,6) Cons by (intro map_cong) auto
    have "d + g c = ?S + f c" using assms(1,2,9) by simp
    then show ?thesis using Cons v assms(2) by (simp add: mg)
  qed simp
  then have B: "takeWhile (\<lambda>(a, t). t \<le> d) ?B = []" "dropWhile (\<lambda>(a, t). t \<le> d) ?B = ?B"
    by (cases vs; auto)+
  have "zip (us @ n # vs) (sums 0 (map g (us @ n # vs))) = ?A @ (n, d) # ?B"
    using vs assms(1,8) by (simp add: sums_append us)
  then show ?thesis
    unfolding R Let_def using A B by (simp add: takeWhile_append2 dropWhile_append2)
qed

text \<open>What an entry must be to be added: an own object that is not in the ring.\<close>

definition fresh_entry :: "'c DelayQueue \<Rightarrow> addr list \<Rightarrow> addr \<Rightarrow> bool" where
  "fresh_entry q as n \<longleftrightarrow> n \<notin> set (dq_self q # as) \<and> entry_ok (dq_heap q) n"

lemma ring_split:
  assumes "ring q as" "as @ [dq_self q] = us @ c # vs"
  shows "last (c # vs) = dq_self q" "as = us @ butlast (c # vs)" "distinct (us @ c # vs)"
    "dpath (dq_heap q) (dq_self q # us @ c # vs)" "c = hd (butlast (c # vs) @ [dq_self q])"
    "prv (dq_heap q) c = Some (last (dq_self q # us))"
proof -
  show last: "last (c # vs) = dq_self q"
    using arg_cong [OF assms(2), of List.last] by (simp split: if_splits)
  show "as = us @ butlast (c # vs)"
    using arg_cong [OF assms(2), of butlast] by (simp add: butlast_append)
  show "distinct (us @ c # vs)" using ring_head(3) [OF assms(1)] assms(2) by simp
  show path: "dpath (dq_heap q) (dq_self q # us @ c # vs)"
    using assms by (simp add: ring_def)
  show "c = hd (butlast (c # vs) @ [dq_self q])"
    using last by (cases vs) auto
  show "prv (dq_heap q) c = Some (List.last (dq_self q # us))"
    using path lpath_append [of "nxt (dq_heap q)" "prv (dq_heap q)" "dq_self q # us" c vs]
      lpath_snoc [of "dq_self q # us" "nxt (dq_heap q)" "prv (dq_heap q)" c] by simp
qed

lemma AddEntry_after_sync:
  assumes "ring q as" "fresh_entry q as n" "delta (dq_heap q) n < span q as"
  shows "\<exists>q' as'. (do { cur \<leftarrow> dq_head q;
          (h, cur) \<leftarrow> AddEntry_loop (dq_heap q) n cur;
          x \<leftarrow> h n;
          h \<leftarrow> set_entry h cur
            (\<lambda>e. e\<lparr>m_deltaTimeRemaining := tv_sub (m_deltaTimeRemaining e) (m_deltaTimeRemaining x)\<rparr>);
          h \<leftarrow> link_before h n cur;
          Some (q\<lparr>dq_heap := h\<rparr>) }) = Some q' \<and>
     ring q' as' \<and> dq_self q' = dq_self q \<and> m_lastSyncTime q' = m_lastSyncTime q \<and>
     bcs (dq_heap q') = bcs (dq_heap q) \<and> span q' as' = span q as \<and>
     remaining q' as' = (let d = delta (dq_heap q) n; R = remaining q as
       in takeWhile (\<lambda>(a, t). t \<le> d) R @ (n, d) # dropWhile (\<lambda>(a, t). t \<le> d) R)"
proof -
  let ?h = "dq_heap q" and ?s = "dq_self q" and ?d = "delta (dq_heap q) n"
  note head = ring_head [OF assms(1)]
  have n: "n \<notin> set (as @ [?s])" "entry_ok ?h n" using assms(2) by (auto simp: fresh_entry_def)
  obtain us c vs t where split: "as @ [?s] = us @ c # vs"
      "AddEntry_loop ?h n (hd (as @ [?s])) = Some (set_delta ?h n t, c)" "tv_norm t"
      "tv_us t = ?d - sum_list (map (delta ?h) us)" "sum_list (map (delta ?h) us) \<le> ?d"
      "?d < sum_list (map (delta ?h) us) + delta ?h c"
    using AddEntry_loop_spec [OF head(2) n head(4)] assms(3) by (auto simp: span_def deltas_def)
  note sp = ring_split [OF assms(1) split(1)]
  have c: "c \<in> set (as @ [?s])" "c \<noteq> n" "entry_ok ?h c"
    using n(1) head(4) unfolding split(1) by auto
  obtain x where x: "?h n = Some x" using n(2) by (auto elim: entry_okE)
  obtain y where y: "?h c = Some y" "tv_norm (m_deltaTimeRemaining y)" "delta ?h c = tv_us (m_deltaTimeRemaining y)"
    using c(3) by (rule entry_okE)
  let ?t = "tv_sub (m_deltaTimeRemaining y) t"
  let ?h2 = "set_delta (set_delta ?h n t) c ?t"
  have t2: "tv_norm ?t" "tv_us ?t = delta ?h c - (?d - sum_list (map (delta ?h) us))"
    using y split(3,4) by (simp_all add: tv)
  have d2: "delta ?h2 n = tv_us t" "delta ?h2 c = tv_us ?t" "\<And>z. z \<noteq> n \<Longrightarrow> z \<noteq> c \<Longrightarrow> delta ?h2 z = delta ?h z"
    using c n(2) by simp_all
  have ok2: "entry_ok ?h2 z" if "z \<in> set (n # us @ c # vs)" for z
    using that c n(2) split(3) t2(1) head(4) unfolding split(1) by (cases "z = n"; cases "z = c") auto
  let ?p = "last (?s # us)"
  have p: "?p \<in> set (as @ [?s])" using sp(2) by (cases us rule: rev_cases) auto
  then obtain z where z: "?h2 ?p = Some z" "n \<noteq> ?p"
    using ok2 [of ?p] n(1) unfolding split(1) by (auto elim: entry_okE)
  have prv2: "prv ?h2 c = Some ?p" using sp(6) by simp
  obtain x2 y2 where x2: "?h2 n = Some x2" and y2: "?h2 c = Some y2"
    using ok2 [of n] ok2 [of c] by (meson entry_okE in_set_conv_decomp list.set_intros)
  have "m_prev y2 = Some ?p" using prv2 unfolding prv_def y2 by (simp only: Option.bind.bind_lunit)
  note xy = x2 y2 this
  obtain h' where h': "link_before ?h2 n c = Some h'" "nxt h' = (nxt ?h)(n := Some c, ?p := Some n)"
      "prv h' = (prv ?h)(n := Some ?p, c := Some n)" "bcs h' = bcs ?h" "delta h' = delta ?h2"
      "entry_ok h' = entry_ok ?h2"
    using link_before_spec [OF xy z(1,2) c(2) [symmetric]] by auto
  have g: "delta h' n = ?d - sum_list (map (delta ?h) us)"
      "delta h' c = delta ?h c - (?d - sum_list (map (delta ?h) us))"
      "\<And>z. z \<noteq> n \<Longrightarrow> z \<noteq> c \<Longrightarrow> delta h' z = delta ?h z"
    unfolding h'(5) d2 t2(2) split(4) using d2(3) by simp_all
  let ?vs = "butlast (c # vs)"
  let ?q = "q\<lparr>dq_heap := h'\<rparr>"
  have cvs: "?vs @ [?s] = c # vs"
    using append_butlast_last_id [of "c # vs"] sp(1) by simp
  have "distinct (us @ (?vs @ [?s]))" using sp(3) by (simp only: cvs)
  then have self_vs: "?s \<notin> set ?vs" "distinct ?vs" "c \<notin> set us"
    using sp(3) by (simp_all del: butlast.simps)
  have ring: "ring ?q (us @ n # ?vs)"
  proof (rule ring_heapI [where cs = "us @ n # c # vs"])
    show "(us @ n # ?vs) @ [?s] = us @ n # c # vs" using cvs by (simp del: butlast.simps)
    show "distinct (us @ n # c # vs)" using sp(3) n(1) unfolding split(1) by auto
    show "dpath h' (?s # us @ n # c # vs)"
      using lpath_insert [OF sp(4,3,1), of n] n(1) h'(2,3) unfolding split(1) by simp
    show "\<forall>a \<in> set (us @ n # c # vs). entry_ok h' a" using ok2 unfolding h'(6) by auto
  qed
  have rem: "remaining ?q (us @ n # ?vs) = (let R = remaining q as
      in takeWhile (\<lambda>(a, t). t \<le> ?d) R @ (n, ?d) # dropWhile (\<lambda>(a, t). t \<le> ?d) R)"
  proof -
    have nu: "n \<notin> set (us @ ?vs)" using n(1) sp(2) by (simp del: butlast.simps)
    have "zip (us @ n # ?vs) (sums 0 (map (delta h') (us @ n # ?vs))) =
      (let R = zip (us @ ?vs) (sums 0 (map (delta ?h) (us @ ?vs)))
       in takeWhile (\<lambda>(a, t). t \<le> ?d) R @ (n, ?d) # dropWhile (\<lambda>(a, t). t \<le> ?d) R)"
      by (rule remaining_insert [OF split(5,6) sp(5) g(3) self_vs(3,2,1) g(1,2)]) (use nu in metis)
    moreover have "dq_heap ?q = h'" by simp
    ultimately show ?thesis by (simp only: remaining_def sp(2) [symmetric])
  qed
  have "span ?q (us @ n # ?vs) = sum_list (map (delta h') us) + delta h' n + sum_list (map (delta h') (c # vs))"
    unfolding span_def deltas_def using cvs by (simp add: add.assoc del: butlast.simps)
  also have "map (delta h') us = map (delta ?h) us"
    using n(1) self_vs(3) unfolding split(1) by (intro map_cong refl g(3)) auto
  also have "map (delta h') (c # vs) = (delta h' c) # map (delta ?h) vs"
    using n(1) sp(3) unfolding split(1) by (auto intro: g(3))
  finally have sp': "span ?q (us @ n # ?vs) = span q as"
    using g(1,2) split(5,6) by (simp add: span_def deltas_def split(1))
  have x1: "set_delta ?h n t n = Some (x\<lparr>m_deltaTimeRemaining := t\<rparr>)" "set_delta ?h n t c = Some y"
    using x y(1) c(2) by (simp_all add: set_delta_def del: set_delta_fold)
  have "(do { cur \<leftarrow> dq_head q;
          (h, cur) \<leftarrow> AddEntry_loop ?h n cur;
          x \<leftarrow> h n;
          h \<leftarrow> set_entry h cur
            (\<lambda>e. e\<lparr>m_deltaTimeRemaining := tv_sub (m_deltaTimeRemaining e) (m_deltaTimeRemaining x)\<rparr>);
          h \<leftarrow> link_before h n cur;
          Some (q\<lparr>dq_heap := h\<rparr>) }) = Some ?q"
    using h'(1) by (simp add: head(1) split(2) x1)
  with ring rem sp' h'(4) show ?thesis
    by (intro exI [of _ ?q] exI [of _ "us @ n # ?vs"]) (simp add: Let_def del: butlast.simps)
qed

lemma AddEntry_spec:
  assumes "ring q as" "clock_ok now q" "fresh_entry q as n"
    and "elapsed now q + delta (dq_heap q) n < span q as"
  shows "\<exists>q' as'. AddEntry now q n = Some q' \<and> ring q' as' \<and> dq_self q' = dq_self q \<and>
     m_lastSyncTime q' = now \<and> bcs (dq_heap q') = bcs (dq_heap q) \<and>
     span q' as' = span q as - elapsed now q \<and>
     remaining q' as' = (let d = delta (dq_heap q) n;
         R = map (\<lambda>(a, t). (a, t - elapsed now q)) (remaining q as)
       in takeWhile (\<lambda>(a, t). t \<le> d) R @ (n, d) # dropWhile (\<lambda>(a, t). t \<le> d) R)"
proof -
  from synchronize_spec [OF assms(1,2)] assms(4) obtain q1 where q1: "synchronize now q = Some q1"
      "ring q1 as" "dq_self q1 = dq_self q" "m_lastSyncTime q1 = now"
      "\<forall>x. x \<notin> set (dq_self q # as) \<longrightarrow> dq_heap q1 x = dq_heap q x" "bcs (dq_heap q1) = bcs (dq_heap q)"
      "deltas q1 as = sync_list (elapsed now q) (deltas q as)"
    by auto
  have n: "dq_heap q1 n = dq_heap q n" "fresh_entry q1 as n"
    using assms(3) q1(3,5) by (auto simp: fresh_entry_def entry_ok_def)
  then have d: "delta (dq_heap q1) n = delta (dq_heap q) n" by (simp add: delta_def)
  have span: "span q1 as = span q as - elapsed now q"
    using sum_sync_list [of "elapsed now q" "deltas q as"] assms(4) q1(7) by (simp add: span_def)
  then have "delta (dq_heap q1) n < span q1 as" using assms(4) d by simp
  from AddEntry_after_sync [OF q1(2) n(2) this] q1 span d remaining_sync [OF q1(7)] show ?thesis
    by (auto simp: AddEntry_def)
qed


subsection \<open>Removing\<close>

lemma RemoveEntry_links:
  assumes "dq_heap q a = Some e" "m_next e = Some c" "m_prev e = Some p" "dq_heap q c = Some y"
    and "dq_heap q p = Some z" "a \<noteq> c" "a \<noteq> p"
  shows "\<exists>h'. RemoveEntry q (Some a) = Some (q\<lparr>dq_heap := h'\<rparr>) \<and>
    nxt h' = (nxt (dq_heap q))(p := Some c, a := None) \<and>
    prv h' = (prv (dq_heap q))(c := Some p, a := None) \<and> bcs h' = bcs (dq_heap q) \<and>
    delta h' = (delta (dq_heap q))(c := tv_us (tv_add (m_deltaTimeRemaining y) (m_deltaTimeRemaining e))) \<and>
    entry_ok h' = (entry_ok (dq_heap q))(c := tv_norm (tv_add (m_deltaTimeRemaining y) (m_deltaTimeRemaining e))) \<and>
    (\<forall>x. x \<notin> {a, p, c} \<longrightarrow> h' x = dq_heap q x) \<and>
    h' a = Some (e\<lparr>m_next := None, m_prev := None\<rparr>)"
proof -
  let ?h = "dq_heap q"
  let ?y = "y\<lparr>m_deltaTimeRemaining := tv_add (m_deltaTimeRemaining y) (m_deltaTimeRemaining e)\<rparr>"
  let ?z = "if p = c then ?y else z"
  let ?y2 = "if p = c then ?y\<lparr>m_next := Some c\<rparr> else ?y"
  let ?h' = "?h(p \<mapsto> ?z\<lparr>m_next := Some c\<rparr>, c \<mapsto> ?y2\<lparr>m_prev := Some p\<rparr>,
    a \<mapsto> e\<lparr>m_next := None, m_prev := None\<rparr>)"
  have "RemoveEntry q (Some a) = Some (q\<lparr>dq_heap := ?h'\<rparr>)"
    using assms by (cases "p = c") (simp_all add: RemoveEntry_def fun_upd_twist del: set_delta_fold)
  moreover have "nxt ?h' = (nxt ?h)(p := Some c, a := None)" "prv ?h' = (prv ?h)(c := Some p, a := None)"
    "bcs ?h' = bcs ?h"
    "delta ?h' = (delta ?h)(c := tv_us (tv_add (m_deltaTimeRemaining y) (m_deltaTimeRemaining e)))"
    "entry_ok ?h' = (entry_ok ?h)(c := tv_norm (tv_add (m_deltaTimeRemaining y) (m_deltaTimeRemaining e)))"
    using assms by (auto simp: nxt_def prv_def bcs_def delta_def entry_ok_def fun_eq_iff)
  ultimately show ?thesis by (intro exI [of _ ?h']) simp
qed

lemma remaining_remove:
  assumes "c = hd (ws @ [s])" "g c = f c + f a" "a \<notin> set (us @ ws)" "distinct (us @ ws)" "c \<notin> set us"
    and "\<And>x. x \<in> set (us @ ws) \<Longrightarrow> x \<noteq> c \<Longrightarrow> g x = f x"
  shows "zip (us @ ws) (sums 0 (map g (us @ ws))) =
    filter (\<lambda>(x, t). x \<noteq> a) (zip (us @ a # ws) (sums 0 (map f (us @ a # ws))))"
proof -
  let ?S = "sum_list (map f us)"
  have us: "map g us = map f us" using assms(5,6) by (intro map_cong) auto
  have ws: "sums ?S (map g ws) = sums (?S + f a) (map f ws)"
  proof (cases ws)
    case (Cons v ws')
    then have v: "v = c" using assms(1) by simp
    then have mg: "map g ws' = map f ws'" using assms(4,6) Cons by (intro map_cong) auto
    show ?thesis using Cons v assms(2) by (simp add: ac_simps mg)
  qed simp
  have keep: "filter (\<lambda>(x, t). x \<noteq> a) (zip xs ts) = zip xs ts" if "a \<notin> set xs" for xs and ts :: "nat list"
    using that by (intro filter_True) (auto dest: set_zip_leftD)
  show ?thesis
    using assms(3) keep [of us] keep [of ws] by (simp add: sums_append us ws)
qed

lemma RemoveEntry_spec:
  assumes "ring q as" "a \<in> set as"
  shows "\<exists>q' as'. RemoveEntry q (Some a) = Some q' \<and> ring q' as' \<and> dq_self q' = dq_self q \<and>
    m_lastSyncTime q' = m_lastSyncTime q \<and> bcs (dq_heap q') = bcs (dq_heap q) \<and>
    span q' as' = span q as \<and> a \<notin> set as' \<and> entry_ok (dq_heap q') a \<and> nxt (dq_heap q') a = None \<and>
    remaining q' as' = filter (\<lambda>(x, t). x \<noteq> a) (remaining q as)"
proof -
  let ?h = "dq_heap q" and ?s = "dq_self q"
  obtain us ws where as: "as = us @ a # ws" using assms(2) by (meson split_list)
  obtain c vs where cvs: "ws @ [?s] = c # vs" by (cases ws) auto
  have split: "as @ [?s] = us @ a # c # vs" using as cvs by simp
  note sp = ring_split [OF assms(1) split]
  have ok: "\<forall>x \<in> set (us @ a # c # vs). entry_ok ?h x"
    using ring_head(4) [OF assms(1)] unfolding split .
  have self: "last (c # vs) = ?s" using sp(1) by simp
  let ?p = "last (?s # us)"
  have p: "?p \<in> set (us @ c # vs)"
    using last_in_set [of "c # vs"] self by (cases us rule: rev_cases) auto
  have nx: "nxt ?h a = Some c" using sp(4) lpath_next [of "nxt ?h" "prv ?h" "?s # us" a c vs] by simp
  have ne: "a \<noteq> c" "a \<noteq> ?p" using sp(3) p by auto
  obtain e where e: "?h a = Some e" "tv_norm (m_deltaTimeRemaining e)" "delta ?h a = tv_us (m_deltaTimeRemaining e)"
    using ok by (auto elim: entry_okE)
  obtain y where y: "?h c = Some y" "tv_norm (m_deltaTimeRemaining y)" "delta ?h c = tv_us (m_deltaTimeRemaining y)"
    using ok by (auto elim: entry_okE)
  obtain z where z: "?h ?p = Some z" using ok p by (fastforce elim: entry_okE)
  have links: "m_next e = Some c" "m_prev e = Some ?p"
    using nx sp(6) e(1) by (simp_all add: nxt_def prv_def)
  obtain h' where h': "RemoveEntry q (Some a) = Some (q\<lparr>dq_heap := h'\<rparr>)"
      "nxt h' = (nxt ?h)(?p := Some c, a := None)" "prv h' = (prv ?h)(c := Some ?p, a := None)"
      "bcs h' = bcs ?h" "delta h' = (delta ?h)(c := delta ?h c + delta ?h a)"
      "entry_ok h' = (entry_ok ?h)(c := True)"
    using RemoveEntry_links [OF e(1) links y(1) z ne] e y by (auto simp: tv)
  have ring: "ring (q\<lparr>dq_heap := h'\<rparr>) (us @ ws)"
  proof (rule ring_heapI [where cs = "us @ c # vs"])
    show "(us @ ws) @ [?s] = us @ c # vs" using cvs by simp
    show "distinct (us @ c # vs)" using sp(3) by auto
    show "dpath h' (?s # us @ c # vs)"
      by (rule lpath_remove [OF sp(4,3) self h'(2,3)])
    show "\<forall>a \<in> set (us @ c # vs). entry_ok h' a" using ok unfolding h'(6) by auto
  qed
  have "remaining (q\<lparr>dq_heap := h'\<rparr>) (us @ ws) = filter (\<lambda>(x, t). x \<noteq> a) (remaining q as)"
  proof -
    have "zip (us @ ws) (sums 0 (map (delta h') (us @ ws))) =
      filter (\<lambda>(x, t). x \<noteq> a) (zip (us @ a # ws) (sums 0 (map (delta ?h) (us @ a # ws))))"
    proof (rule remaining_remove [where c = c and s = ?s])
      show "c = hd (ws @ [?s])" using cvs by simp
      show "a \<notin> set (us @ ws)" "distinct (us @ ws)" using assms(1) as by (auto simp: ring_def)
    qed (use sp(3) in \<open>auto simp: h'(5)\<close>)
    then show ?thesis by (simp add: remaining_def as)
  qed
  moreover have "span (q\<lparr>dq_heap := h'\<rparr>) (us @ ws) = span q as"
  proof -
    have m: "map (delta h') us = map (delta ?h) us" "map (delta h') vs = map (delta ?h) vs"
        "delta h' c = delta ?h c + delta ?h a"
      using sp(3) by (auto simp: h'(5))
    have "(us @ ws) @ [?s] = us @ c # vs" using cvs by simp
    then have "span (q\<lparr>dq_heap := h'\<rparr>) (us @ ws) = sum_list (map (delta h') (us @ c # vs))"
      unfolding span_def deltas_def by simp
    also have "\<dots> = sum_list (map (delta ?h) (us @ a # c # vs))" by (simp add: m)
    finally show ?thesis unfolding span_def deltas_def split .
  qed
  moreover have "a \<notin> set (us @ ws)" using assms(1) as by (auto simp: ring_def)
  ultimately show ?thesis
    using h' ring ok ne by (intro exI [of _ "q\<lparr>dq_heap := h'\<rparr>"] exI [of _ "us @ ws"]) simp
qed


lemma map_fst_remaining [simp]: "map fst (remaining q as) = as"
  by (simp add: remaining_def)

lemma map_fst_filter: "map fst (filter (\<lambda>(x, t). P x) R) = filter P (map fst R)"
  by (induction R) auto

lemma RemoveEntry_ring:
  assumes "ring q as" "a \<in> set as"
  obtains q' where "RemoveEntry q (Some a) = Some q'" "ring q' (filter (\<lambda>x. x \<noteq> a) as)"
    "dq_self q' = dq_self q" "m_lastSyncTime q' = m_lastSyncTime q" "bcs (dq_heap q') = bcs (dq_heap q)"
    "span q' (filter (\<lambda>x. x \<noteq> a) as) = span q as" "entry_ok (dq_heap q') a"
    "remaining q' (filter (\<lambda>x. x \<noteq> a) as) = filter (\<lambda>(x, t). x \<noteq> a) (remaining q as)"
proof -
  obtain q' as' where q': "RemoveEntry q (Some a) = Some q'" "ring q' as'" "dq_self q' = dq_self q"
    "m_lastSyncTime q' = m_lastSyncTime q" "bcs (dq_heap q') = bcs (dq_heap q)"
    "span q' as' = span q as" "entry_ok (dq_heap q') a"
    "remaining q' as' = filter (\<lambda>(x, t). x \<noteq> a) (remaining q as)"
    using RemoveEntry_spec [OF assms] by blast
  have "as' = map fst (filter (\<lambda>(x, t). x \<noteq> a) (remaining q as))"
    using q'(8) map_fst_remaining [of q' as'] by simp
  also have "\<dots> = filter (\<lambda>x. x \<noteq> a) (map fst (remaining q as))"
    by (rule map_fst_filter)
  finally have "as' = filter (\<lambda>x. x \<noteq> a) as" by simp
  with q' that show thesis by simp
qed

text \<open>Deleting an object that is out of the ring.\<close>

definition free_entry :: "'c DelayQueue \<Rightarrow> addr \<Rightarrow> 'c DelayQueue" where
  "free_entry q a = q\<lparr>dq_heap := (dq_heap q)(a := None)\<rparr>"

lemma ring_free:
  assumes "ring q as" "a \<notin> set (dq_self q # as)"
  shows "ring (free_entry q a) as" "span (free_entry q a) as = span q as"
    "remaining (free_entry q a) as = remaining q as"
    "x \<noteq> a \<Longrightarrow> bcs (dq_heap (free_entry q a)) x = bcs (dq_heap q) x"
    "dq_self (free_entry q a) = dq_self q" "m_lastSyncTime (free_entry q a) = m_lastSyncTime q"
proof -
  let ?q = "free_entry q a"
  show self: "dq_self ?q = dq_self q" "m_lastSyncTime ?q = m_lastSyncTime q"
    by (simp_all add: free_entry_def)
  have d: "map (delta (dq_heap ?q)) xs = map (delta (dq_heap q)) xs" if "a \<notin> set xs" for xs
    using that by (auto simp: free_entry_def delta_def)
  show "span ?q as = span q as"
    using d [of "as @ [dq_self q]"] assms(2) unfolding span_def deltas_def self
    by (metis UnE list.set_intros rotate1.simps(2) set_append set_rotate1)
  show "remaining ?q as = remaining q as"
    using d [of as] assms(2) unfolding remaining_def by (metis list.set_intros(2))
  show "bcs (dq_heap ?q) x = bcs (dq_heap q) x" if "x \<noteq> a"
    using that by (simp add: free_entry_def bcs_def)
  have "dpath (dq_heap ?q) (dq_self q # as @ [dq_self q])"
  proof (rule lpath_frame)
    show "dpath (dq_heap q) (dq_self q # as @ [dq_self q])" using assms(1) by (simp add: ring_def)
    show "nxt (dq_heap ?q) x = nxt (dq_heap q) x" if "x \<in> set (butlast (dq_self q # as @ [dq_self q]))" for x
      using that assms(2) by (auto simp: nxt_def free_entry_def butlast_append)
    show "prv (dq_heap ?q) x = prv (dq_heap q) x" if "x \<in> set (tl (dq_self q # as @ [dq_self q]))" for x
      using that assms(2) by (auto simp: prv_def free_entry_def)
  qed
  moreover have "\<forall>x \<in> set (dq_self q # as). entry_ok (dq_heap ?q) x"
    using assms(1,2) by (auto simp: ring_def entry_ok_def free_entry_def)
  ultimately show "ring ?q as"
    using assms(1) by (simp add: ring_def self)
qed

subsection \<open>Alarms\<close>

text \<open>Running the callbacks of a list of entries in order; a missing callback does nothing.\<close>

definition run_callbacks :: "('c \<Rightarrow> 'w \<Rightarrow> 'w) \<Rightarrow> (addr \<Rightarrow> 'c option) \<Rightarrow> addr list \<Rightarrow> 'w \<Rightarrow> 'w" where
  "run_callbacks run bc as w = fold (\<lambda>a w. case bc a of None \<Rightarrow> w | Some c \<Rightarrow> run c w) as w"

lemma run_callbacks_cong:
  "(\<And>a. a \<in> set as \<Longrightarrow> bc a = bc' a) \<Longrightarrow> run_callbacks run bc as w = run_callbacks run bc' as w"
  unfolding run_callbacks_def by (intro fold_cong) auto

lemma HandleAlarm_loop_spec:
  assumes "\<And>c q w. exec c (q, w) = Some (q, run c w)" "ring q as" "0 < span q as"
  shows "\<exists>q' as'. HandleAlarm_loop exec (q, w) =
      Some (q', run_callbacks run (bcs (dq_heap q)) (map fst (takeWhile (\<lambda>(a, t). t = 0) (remaining q as))) w) \<and>
    ring q' as' \<and> dq_self q' = dq_self q \<and> m_lastSyncTime q' = m_lastSyncTime q \<and> span q' as' = span q as \<and>
    remaining q' as' = dropWhile (\<lambda>(a, t). t = 0) (remaining q as) \<and>
    (\<forall>x \<in> set as'. bcs (dq_heap q') x = bcs (dq_heap q) x)"
  using assms(2,3)
proof (induction as arbitrary: q w)
  case Nil
  then have "dq_head q = Some (dq_self q)" "entry_ok (dq_heap q) (dq_self q)"
    using ring_head [OF Nil(1)] by simp_all
  moreover have "delta (dq_heap q) (dq_self q) \<noteq> 0" using Nil(2) by (simp add: span_def deltas_def)
  ultimately have "HandleAlarm_loop exec (q, w) = Some (q, w)"
    by (auto simp: HandleAlarm_loop.simps [of exec "(q, w)"] tv elim!: entry_okE)
  with Nil(1) show ?case
    by (intro exI [of _ q] exI [of _ "[]"]) (simp add: remaining_def run_callbacks_def)
next
  case (Cons a as)
  note head = ring_head [OF Cons.prems(1)]
  obtain e where e: "dq_heap q a = Some e" "tv_norm (m_deltaTimeRemaining e)"
      "delta (dq_heap q) a = tv_us (m_deltaTimeRemaining e)"
    using head(4) by (auto elim: entry_okE)
  have R: "remaining q (a # as) = (a, delta (dq_heap q) a) # zip as (sums (delta (dq_heap q) a) (map (delta (dq_heap q)) as))"
    by (simp add: remaining_def)
  show ?case
  proof (cases "delta (dq_heap q) a = 0")
    case False
    then have "HandleAlarm_loop exec (q, w) = Some (q, w)"
      using head(1) e by (simp add: HandleAlarm_loop.simps [of exec "(q, w)"] tv)
    with False Cons.prems(1) R show ?thesis
      by (intro exI [of _ q] exI [of _ "a # as"]) (simp add: run_callbacks_def)
  next
    case True
    have nin: "a \<notin> set as" "filter (\<lambda>x. x \<noteq> a) as = as" "a \<noteq> dq_self q"
      using Cons.prems(1) by (auto simp: ring_def intro!: filter_True)
    obtain q1 where q1: "RemoveEntry q (Some a) = Some q1" "ring q1 as" "dq_self q1 = dq_self q"
        "m_lastSyncTime q1 = m_lastSyncTime q" "bcs (dq_heap q1) = bcs (dq_heap q)"
        "span q1 as = span q (a # as)" "entry_ok (dq_heap q1) a"
        "remaining q1 as = filter (\<lambda>(x, t). x \<noteq> a) (remaining q (a # as))"
      by (rule RemoveEntry_ring [OF Cons.prems(1), of a]) (simp_all add: nin(2))
    have rem1: "remaining q (a # as) = (a, 0) # remaining q1 as"
      using q1(8) R True nin(1) by (auto intro!: filter_True [symmetric] dest: set_zip_leftD)
    let ?w = "case bcs (dq_heap q) a of None \<Rightarrow> w | Some c \<Rightarrow> run c w"
    let ?q2 = "free_entry q1 a"
    have ht: "handleTimeout exec a (q1, w) = Some (q1, ?w)"
      using q1(7) fun_cong [OF q1(5), of a] assms(1)
      by (auto simp: handleTimeout_def bcs_def elim!: entry_okE split: option.splits)
    have "a \<notin> set (dq_self q1 # as)" using nin q1(3) by simp
    note free = ring_free [OF q1(2) this]
    have "0 < span ?q2 as" using Cons.prems(2) free(2) q1(6) by simp
    from Cons.IH [OF free(1) this, of ?w, unfolded free(2,3,5,6)] obtain q' as' where ih:
      "HandleAlarm_loop exec (?q2, ?w) = Some (q', run_callbacks run (bcs (dq_heap ?q2))
         (map fst (takeWhile (\<lambda>(a, t). t = 0) (remaining q1 as))) ?w)"
      "ring q' as'" "dq_self q' = dq_self q1" "m_lastSyncTime q' = m_lastSyncTime q1"
      "span q' as' = span q1 as" "remaining q' as' = dropWhile (\<lambda>(a, t). t = 0) (remaining q1 as)"
      "\<forall>x \<in> set as'. bcs (dq_heap q') x = bcs (dq_heap ?q2) x"
      by blast
    have sub: "set (map fst (takeWhile P (remaining q1 as))) \<subseteq> set as"
        "set (map fst (dropWhile P (remaining q1 as))) \<subseteq> set as" for P
      using map_fst_remaining [of q1 as] by (metis (no_types) image_mono set_map set_takeWhileD subsetI,
          metis (no_types) image_mono set_map set_dropWhileD subsetI)
    have as': "set as' \<subseteq> set as"
      using sub(2) ih(6) map_fst_remaining [of q' as'] by metis
    have bc: "bcs (dq_heap ?q2) x = bcs (dq_heap q) x" if "x \<in> set as" for x
      using free(4) q1(5) nin(1) that by metis
    have "HandleAlarm_loop exec (q, w) = HandleAlarm_loop exec (?q2, ?w)"
      using head(1) e True q1(1) ht by (subst HandleAlarm_loop.simps) (simp add: tv free_entry_def)
    moreover have "run_callbacks run (bcs (dq_heap ?q2)) (map fst (takeWhile (\<lambda>(a, t). t = 0) (remaining q1 as))) ?w
      = run_callbacks run (bcs (dq_heap q)) (map fst (takeWhile (\<lambda>(a, t). t = 0) (remaining q1 as))) ?w"
      by (rule run_callbacks_cong) (use bc sub(1) in blast)
    moreover have "\<dots> = run_callbacks run (bcs (dq_heap q)) (map fst (takeWhile (\<lambda>(a, t). t = 0) (remaining q (a # as)))) w"
      using rem1 by (simp add: run_callbacks_def)
    ultimately show ?thesis
      using ih q1(3,4,6) rem1 bc as'
      by (intro exI [of _ q'] exI [of _ as']) (simp add: subset_iff)
  qed
qed


subsection \<open>The queue as a list of pending alarms\<close>

text \<open>
  The specification: \<open>dq_rep q R\<close> says that the queue \<open>q\<close> is well formed and that \<open>R\<close> lists its
  entries with the microseconds until they are due, in order. The remaining time of the
  sentinel bounds what can be added; no field of a timeval of the ring leaves the range of
  a \<^verbatim>\<open>long\<close>.
\<close>

definition dq_rep :: "'c DelayQueue \<Rightarrow> (addr \<times> nat) list \<Rightarrow> bool" where
  "dq_rep q R \<longleftrightarrow> (\<exists>as. ring q as \<and> remaining q as = R \<and> span q as \<le> tv_us ETERNITY)"

definition horizon :: "'c DelayQueue \<Rightarrow> (addr \<times> nat) list \<Rightarrow> nat" where
  "horizon q R = span q (map fst R)"

definition due_insert :: "addr \<Rightarrow> nat \<Rightarrow> (addr \<times> nat) list \<Rightarrow> (addr \<times> nat) list" where
  "due_insert a d R = takeWhile (\<lambda>(x, t). t \<le> d) R @ (a, d) # dropWhile (\<lambda>(x, t). t \<le> d) R"

definition due_elapse :: "nat \<Rightarrow> (addr \<times> nat) list \<Rightarrow> (addr \<times> nat) list" where
  "due_elapse e R = map (\<lambda>(x, t). (x, t - e)) R"

definition due_remove :: "addr \<Rightarrow> (addr \<times> nat) list \<Rightarrow> (addr \<times> nat) list" where
  "due_remove a R = filter (\<lambda>(x, t). x \<noteq> a) R"

lemma dq_repE:
  assumes "dq_rep q R"
  obtains as where "ring q as" "remaining q as = R" "as = map fst R" "span q as = horizon q R"
    "horizon q R \<le> tv_us ETERNITY"
  using assms map_fst_remaining by (fastforce simp: dq_rep_def horizon_def)

lemma dq_repI:
  assumes "ring q as" "remaining q as = R" "span q as \<le> tv_us ETERNITY"
  shows "dq_rep q R" "horizon q R = span q as"
  using assms map_fst_remaining [of q as] by (auto simp: dq_rep_def horizon_def)

lemma sums_sorted: "sorted (sums acc ds) \<and> (\<forall>t \<in> set (sums acc ds). acc \<le> t)"
  by (induction ds arbitrary: acc) fastforce+

lemma dq_rep_sorted: "dq_rep q R \<Longrightarrow> sorted (map snd R)"
  by (auto simp: dq_rep_def remaining_def sums_sorted)

lemma dq_rep_new:
  fixes q :: "'c DelayQueue"
  assumes "q = DelayQueue_new a now"
  shows "dq_rep q []" "horizon q [] = tv_us ETERNITY"
proof -
  have "ring q []" "span q [] = tv_us ETERNITY" "remaining q [] = []"
    by (simp_all add: assms ring_def DelayQueue_new_def DelayQueueEntry_new_def nxt_def prv_def entry_ok_def
        span_def deltas_def delta_def remaining_def tv)
  with dq_repI [of q "[]" "[]"] show "dq_rep q []" "horizon q [] = tv_us ETERNITY" by simp_all
qed

text \<open>Constructing a handler at an unused address.\<close>

lemma dq_rep_AlterHandler:
  assumes "dq_rep q R" "a \<notin> set (dq_self q # map fst R)"
  shows "dq_rep (AlterHandler_new q a di bc) R" "horizon (AlterHandler_new q a di bc) R = horizon q R"
    "m_lastSyncTime (AlterHandler_new q a di bc) = m_lastSyncTime q"
    "dq_self (AlterHandler_new q a di bc) = dq_self q"
    "delta (dq_heap (AlterHandler_new q a di bc)) a = tv_us di"
    "entry_ok (dq_heap (AlterHandler_new q a di bc)) a = tv_norm di"
proof -
  let ?q = "AlterHandler_new q a di bc"
  show self: "m_lastSyncTime ?q = m_lastSyncTime q" "dq_self ?q = dq_self q"
    by (simp_all add: AlterHandler_new_def)
  show "delta (dq_heap ?q) a = tv_us di" "entry_ok (dq_heap ?q) a = tv_norm di"
    by (simp_all add: AlterHandler_new_def DelayQueueEntry_new_def delta_def entry_ok_def)
  obtain as where as: "ring q as" "remaining q as = R" "as = map fst R" "span q as = horizon q R"
      "horizon q R \<le> tv_us ETERNITY"
    using assms(1) by (rule dq_repE)
  have d: "map (delta (dq_heap ?q)) xs = map (delta (dq_heap q)) xs" if "a \<notin> set xs" for xs
    using that by (auto simp: AlterHandler_new_def delta_def)
  have na: "a \<notin> set as" "a \<notin> set (as @ [dq_self q])" using assms(2) as(3) by auto
  have "dpath (dq_heap ?q) (dq_self q # as @ [dq_self q])"
  proof (rule lpath_frame)
    show "dpath (dq_heap q) (dq_self q # as @ [dq_self q])" using as(1) by (simp add: ring_def)
    show "nxt (dq_heap ?q) x = nxt (dq_heap q) x" if "x \<in> set (butlast (dq_self q # as @ [dq_self q]))" for x
      using that na by (auto simp: nxt_def AlterHandler_new_def butlast_append)
    show "prv (dq_heap ?q) x = prv (dq_heap q) x" if "x \<in> set (tl (dq_self q # as @ [dq_self q]))" for x
      using that na by (auto simp: prv_def AlterHandler_new_def)
  qed
  moreover have "\<forall>x \<in> set (dq_self q # as). entry_ok (dq_heap ?q) x"
    using as(1) na by (auto simp: ring_def entry_ok_def AlterHandler_new_def)
  ultimately have "ring ?q as" using as(1) by (simp add: ring_def self)
  moreover have "remaining ?q as = R" "span ?q as = horizon q R"
    using as(2,4) unfolding remaining_def span_def deltas_def self d [OF na(1)] d [OF na(2)] by auto
  ultimately show "dq_rep ?q R" "horizon ?q R = horizon q R"
    using dq_repI [of ?q as R] as(5) by simp_all
qed

lemma AddEntry_rep:
  assumes "dq_rep q R" "clock_ok now q" "n \<notin> set (dq_self q # map fst R)" "entry_ok (dq_heap q) n"
    and "elapsed now q + delta (dq_heap q) n < horizon q R"
  shows "\<exists>q'. AddEntry now q n = Some q' \<and>
    dq_rep q' (due_insert n (delta (dq_heap q) n) (due_elapse (elapsed now q) R)) \<and>
    dq_self q' = dq_self q \<and> m_lastSyncTime q' = now \<and> bcs (dq_heap q') = bcs (dq_heap q)"
proof -
  obtain as where as: "ring q as" "remaining q as = R" "as = map fst R" "span q as = horizon q R"
      "horizon q R \<le> tv_us ETERNITY"
    using assms(1) by (rule dq_repE)
  have "fresh_entry q as n" using assms(3,4) as(3) by (simp add: fresh_entry_def)
  from AddEntry_spec [OF as(1) assms(2) this] assms(5) as(4) obtain q' as' where
    q': "AddEntry now q n = Some q'" "ring q' as'" "dq_self q' = dq_self q" "m_lastSyncTime q' = now"
      "bcs (dq_heap q') = bcs (dq_heap q)" "span q' as' = horizon q R - elapsed now q"
      "remaining q' as' = due_insert n (delta (dq_heap q) n) (due_elapse (elapsed now q) R)"
    unfolding due_insert_def due_elapse_def Let_def as(2) by auto
  have "span q' as' \<le> tv_us ETERNITY" using as(5) q'(6) by simp
  from dq_repI(1) [OF q'(2,7) this] q'(1,3-5) show ?thesis by simp
qed

lemma RemoveEntry_rep:
  assumes "dq_rep q R" "a \<in> set (map fst R)"
  shows "\<exists>q'. RemoveEntry q (Some a) = Some q' \<and> dq_rep q' (due_remove a R) \<and>
    horizon q' (due_remove a R) = horizon q R \<and> dq_self q' = dq_self q \<and>
    m_lastSyncTime q' = m_lastSyncTime q \<and> bcs (dq_heap q') = bcs (dq_heap q) \<and>
    entry_ok (dq_heap q') a"
proof -
  obtain as where as: "ring q as" "remaining q as = R" "as = map fst R" "span q as = horizon q R"
      "horizon q R \<le> tv_us ETERNITY"
    using assms(1) by (rule dq_repE)
  have "a \<in> set as" using assms(2) as(3) by simp
  then obtain q' where q': "RemoveEntry q (Some a) = Some q'" "ring q' (filter (\<lambda>x. x \<noteq> a) as)"
    "dq_self q' = dq_self q" "m_lastSyncTime q' = m_lastSyncTime q" "bcs (dq_heap q') = bcs (dq_heap q)"
    "span q' (filter (\<lambda>x. x \<noteq> a) as) = span q as" "entry_ok (dq_heap q') a"
    "remaining q' (filter (\<lambda>x. x \<noteq> a) as) = due_remove a R"
    unfolding due_remove_def as(2) [symmetric] by (rule RemoveEntry_ring [OF as(1)])
  have "span q' (filter (\<lambda>x. x \<noteq> a) as) \<le> tv_us ETERNITY" using as(4,5) q'(6) by simp
  from dq_repI [OF q'(2,8) this] q' as(4) show ?thesis by simp
qed

lemma synchronize_rep:
  assumes "dq_rep q R" "clock_ok now q" "elapsed now q < horizon q R"
  shows "\<exists>q'. synchronize now q = Some q' \<and> dq_rep q' (due_elapse (elapsed now q) R) \<and>
    horizon q' (due_elapse (elapsed now q) R) = horizon q R - elapsed now q \<and>
    dq_self q' = dq_self q \<and> m_lastSyncTime q' = now \<and> bcs (dq_heap q') = bcs (dq_heap q)"
proof -
  obtain as where as: "ring q as" "remaining q as = R" "as = map fst R" "span q as = horizon q R"
      "horizon q R \<le> tv_us ETERNITY"
    using assms(1) by (rule dq_repE)
  from synchronize_spec [OF as(1) assms(2)] assms(3) as(4) obtain q' where
    q': "synchronize now q = Some q'" "ring q' as" "dq_self q' = dq_self q" "m_lastSyncTime q' = now"
      "bcs (dq_heap q') = bcs (dq_heap q)" "deltas q' as = sync_list (elapsed now q) (deltas q as)"
    by auto
  have rem: "remaining q' as = due_elapse (elapsed now q) R"
    using remaining_sync [OF q'(6)] as(2) by (simp add: due_elapse_def)
  have "span q' as = horizon q R - elapsed now q"
    using sum_sync_list [of "elapsed now q" "deltas q as"] assms(3) as(4) q'(6) by (simp add: span_def)
  moreover from this have "span q' as \<le> tv_us ETERNITY" using as(5) by simp
  ultimately show ?thesis using dq_repI [OF q'(2) rem] q' by simp
qed

end
