(* ===== verification/Delay_Props.thy ===== *)
theory Delay_Props
  imports Delay_Queue
begin

text \<open>
  What the delay queue promises its clients, stated over the list of pending alarms.
\<close>

lemma horizon_cong: "R = R' \<Longrightarrow> horizon q R = horizon q R'"
  by simp

lemma takeWhile_due:
  "sorted (map snd R) \<Longrightarrow>
     map fst (takeWhile (\<lambda>(a, t). t = 0) (due_elapse e R)) = map fst (filter (\<lambda>(a, t). t \<le> e) R) \<and>
     dropWhile (\<lambda>(a, t). t = 0) (due_elapse e R) = due_elapse e (filter (\<lambda>(a, t). \<not> t \<le> e) R)"
proof (induction R)
  case (Cons x R)
  have "filter (\<lambda>(a, t). \<not> t \<le> e) R = R \<and> filter (\<lambda>(a, t). t \<le> e) R = []" if "\<not> snd x \<le> e"
    using that Cons.prems by (fastforce simp: filter_id_conv filter_empty_conv)
  with Cons show ?case by (cases x) (auto simp: due_elapse_def)
qed (simp add: due_elapse_def)

lemma tv_eq_zero: "tv_norm t \<Longrightarrow> tv_eq t DELAY_ZERO \<longleftrightarrow> tv_us t = 0"
  by (simp add: tv)

text \<open>The first entry of the ring, read through the list of pending alarms.\<close>

lemma dq_rep_first:
  assumes "dq_rep q R"
  obtains a e where "dq_head q = Some a" "dq_heap q a = Some e" "tv_norm (m_deltaTimeRemaining e)"
    "tv_us (m_deltaTimeRemaining e) = (case R of [] \<Rightarrow> horizon q R | x # _ \<Rightarrow> snd x)"
proof -
  obtain as where as: "ring q as" "remaining q as = R" "as = map fst R" "span q as = horizon q R"
    using assms by (rule dq_repE)
  note head = ring_head [OF as(1)]
  let ?a = "hd (as @ [dq_self q])"
  have "entry_ok (dq_heap q) ?a" using head(4) by (cases as) auto
  then obtain e where e: "dq_heap q ?a = Some e" "tv_norm (m_deltaTimeRemaining e)"
      "delta (dq_heap q) ?a = tv_us (m_deltaTimeRemaining e)"
    by (rule entry_okE)
  have "delta (dq_heap q) ?a = (case R of [] \<Rightarrow> horizon q R | x # _ \<Rightarrow> snd x)"
    using as by (cases as) (auto simp: remaining_def span_def deltas_def horizon_def)
  with head(1) e that show thesis by simp
qed

lemma HandleAlarm_loop_rep:
  assumes "\<And>c q w. exec c (q, w) = Some (q, run c w)" "dq_rep q R" "0 < horizon q R"
  shows "\<exists>q'. HandleAlarm_loop exec (q, w) =
      Some (q', run_callbacks run (bcs (dq_heap q)) (map fst (takeWhile (\<lambda>(a, t). t = 0) R)) w) \<and>
    dq_rep q' (dropWhile (\<lambda>(a, t). t = 0) R) \<and> dq_self q' = dq_self q \<and> m_lastSyncTime q' = m_lastSyncTime q \<and>
    horizon q' (dropWhile (\<lambda>(a, t). t = 0) R) = horizon q R"
proof -
  obtain as where as: "ring q as" "remaining q as = R" "as = map fst R" "span q as = horizon q R"
      "horizon q R \<le> tv_us ETERNITY"
    using assms(2) by (rule dq_repE)
  have "0 < span q as" using assms(3) as(4) by simp
  from HandleAlarm_loop_spec [of exec run, OF assms(1) as(1) this, of w] obtain q' as' where
    q': "HandleAlarm_loop exec (q, w) =
        Some (q', run_callbacks run (bcs (dq_heap q)) (map fst (takeWhile (\<lambda>(a, t). t = 0) R)) w)"
      "ring q' as'" "dq_self q' = dq_self q" "m_lastSyncTime q' = m_lastSyncTime q" "span q' as' = span q as"
      "remaining q' as' = dropWhile (\<lambda>(a, t). t = 0) R"
    unfolding as(2) by blast
  have "span q' as' \<le> tv_us ETERNITY" using as(4,5) q'(5) by simp
  from dq_repI [OF q'(2,6) this] q' as(4) show ?thesis by auto
qed

lemma HandleAlarm_rep:
  assumes "\<And>c q w. exec c (q, w) = Some (q, run c w)" "dq_rep q R" "clock_ok now q"
    and "elapsed now q < horizon q R"
  defines "e \<equiv> (if R \<noteq> [] \<and> snd (hd R) = 0 then 0 else elapsed now q)"
  shows "\<exists>q'. HandleAlarm exec now (q, w) =
      Some (q', run_callbacks run (bcs (dq_heap q)) (map fst (filter (\<lambda>(a, t). t \<le> e) R)) w) \<and>
    dq_rep q' (due_elapse e (filter (\<lambda>(a, t). \<not> t \<le> e) R))"
proof -
  obtain a x where head: "dq_head q = Some a" "dq_heap q a = Some x" "tv_norm (m_deltaTimeRemaining x)"
      "tv_us (m_deltaTimeRemaining x) = (case R of [] \<Rightarrow> horizon q R | y # _ \<Rightarrow> snd y)"
    using assms(2) by (rule dq_rep_first)
  have hpos: "0 < horizon q R" using assms(4) by simp
  have zero: "tv_ne (m_deltaTimeRemaining x) DELAY_ZERO \<longleftrightarrow> \<not> (R \<noteq> [] \<and> snd (hd R) = 0)"
    using head(3,4) hpos by (auto simp: tv_ne_def tv_eq_zero split: list.splits)
  note srt = dq_rep_sorted [OF assms(2)]
  obtain q1 where q1: "(if tv_ne (m_deltaTimeRemaining x) DELAY_ZERO then synchronize now q else Some q) = Some q1"
      "dq_rep q1 (due_elapse e R)" "0 < horizon q1 (due_elapse e R)" "bcs (dq_heap q1) = bcs (dq_heap q)"
  proof (cases "R \<noteq> [] \<and> snd (hd R) = 0")
    case True
    then have "due_elapse e R = R" by (simp add: e_def due_elapse_def)
    with True zero assms(2) hpos that [of q] show thesis by simp
  next
    case False
    then have "e = elapsed now q" by (simp only: e_def if_False)
    with synchronize_rep [OF assms(2-4)] False zero assms(4) that show thesis by auto
  qed
  from HandleAlarm_loop_rep [of exec run, OF assms(1) q1(2,3), of w] obtain q' where
    q': "HandleAlarm_loop exec (q1, w) = Some (q', run_callbacks run (bcs (dq_heap q))
        (map fst (filter (\<lambda>(a, t). t \<le> e) R)) w)"
      "dq_rep q' (due_elapse e (filter (\<lambda>(a, t). \<not> t \<le> e) R))"
    unfolding q1(4) takeWhile_due [OF srt, THEN conjunct1] takeWhile_due [OF srt, THEN conjunct2] by blast
  with head(1,2) q1(1) show ?thesis
    by (auto simp: HandleAlarm_def split: if_splits)
qed

lemma TimeToNextAlarm_rep:
  assumes "dq_rep q R" "clock_ok now q" "elapsed now q < horizon q R"
  shows "\<exists>d q'. TimeToNextAlarm now q = Some (d, q') \<and> tv_norm d \<and>
    (R \<noteq> [] \<longrightarrow> tv_us d = snd (hd R) - elapsed now q) \<and>
    (if R \<noteq> [] \<and> snd (hd R) = 0 then q' = q
     else synchronize now q = Some q' \<and> dq_rep q' (due_elapse (elapsed now q) R))"
proof -
  obtain x e where head: "dq_head q = Some x" "dq_heap q x = Some e" "tv_norm (m_deltaTimeRemaining e)"
      "tv_us (m_deltaTimeRemaining e) = (case R of [] \<Rightarrow> horizon q R | y # _ \<Rightarrow> snd y)"
    using assms(1) by (rule dq_rep_first)
  have zero: "tv_eq (m_deltaTimeRemaining e) DELAY_ZERO \<longleftrightarrow> R \<noteq> [] \<and> snd (hd R) = 0"
    using head(3,4) assms(3) by (auto simp: tv_eq_zero split: list.splits)
  show ?thesis
  proof (cases "R \<noteq> [] \<and> snd (hd R) = 0")
    case True
    with zero head show ?thesis by (simp add: TimeToNextAlarm_def tv)
  next
    case False
    obtain q' where q': "synchronize now q = Some q'" "dq_rep q' (due_elapse (elapsed now q) R)"
      using synchronize_rep [OF assms] by blast
    obtain y f where h': "dq_head q' = Some y" "dq_heap q' y = Some f" "tv_norm (m_deltaTimeRemaining f)"
        "tv_us (m_deltaTimeRemaining f) =
          (case due_elapse (elapsed now q) R of [] \<Rightarrow> horizon q' (due_elapse (elapsed now q) R) | x # _ \<Rightarrow> snd x)"
      using q'(2) by (rule dq_rep_first)
    have "R \<noteq> [] \<longrightarrow> tv_us (m_deltaTimeRemaining f) = snd (hd R) - elapsed now q"
      using h'(4) by (cases R) (auto simp: due_elapse_def)
    with False zero head h' q' show ?thesis by (auto simp: TimeToNextAlarm_def)
  qed
qed

text \<open>
  C4: adding an entry. Whatever the ring looks like and however far the clock has moved, the
  new entry is linked in behind all entries that are due no later than it, with its own
  delay; the entries already pending lose exactly the elapsed time. Both loops end.
\<close>

theorem AddEntry_refines:
  assumes "dq_rep q R" "clock_ok now q" "n \<notin> set (dq_self q # map fst R)" "entry_ok (dq_heap q) n"
    and "elapsed now q + delta (dq_heap q) n < horizon q R"
  shows "\<exists>q'. AddEntry now q n = Some q' \<and>
    dq_rep q' (due_insert n (delta (dq_heap q) n) (due_elapse (elapsed now q) R)) \<and>
    m_lastSyncTime q' = now"
  using AddEntry_rep [OF assms] by blast

theorem AddEntry_refines_witness:
  "\<exists>q'. AddEntry (Timeval_new 5 0)
      (AlterHandler_new (DelayQueue_new 0 (Timeval_new 4 0)) 1 (Timeval_new 2 500000) (Some ''cb'')) 1 = Some q' \<and>
    dq_rep q' [(1, 2500000)]"
proof -
  let ?base = "DelayQueue_new 0 (Timeval_new 4 0) :: string DelayQueue"
  let ?q = "AlterHandler_new ?base 1 (Timeval_new 2 500000) (Some ''cb'')"
  note new = dq_rep_new [of ?base, OF refl]
  have fresh: "1 \<notin> set (dq_self ?base # map fst [])" by (simp add: DelayQueue_new_def)
  note alt = dq_rep_AlterHandler [OF new(1) fresh, of "Timeval_new 2 500000" "Some ''cb''"]
  have last: "m_lastSyncTime ?q = Timeval_new 4 0" unfolding alt(3) by (simp add: DelayQueue_new_def)
  have us: "tv_us (Timeval_new s u) = nat (s * 1000000 + u)" for s u
    by (simp add: tv_us_def Timeval_new_def MILLION_def)
  have "\<exists>q'. AddEntry (Timeval_new 5 0) ?q 1 = Some q' \<and>
      dq_rep q' (due_insert 1 (delta (dq_heap ?q) 1) (due_elapse (elapsed (Timeval_new 5 0) ?q) [])) \<and>
      m_lastSyncTime q' = Timeval_new 5 0"
  proof (rule AddEntry_refines [OF alt(1)])
    show "clock_ok (Timeval_new 5 0) ?q"
      unfolding clock_ok_def last by (simp add: tv_norm_def Timeval_new_def MILLION_def)
    show "1 \<notin> set (dq_self ?q # map fst [])" using fresh alt(4) by simp
    show "entry_ok (dq_heap ?q) 1" unfolding alt(6) by (simp add: tv_norm_def Timeval_new_def MILLION_def)
    show "elapsed (Timeval_new 5 0) ?q + delta (dq_heap ?q) 1 < horizon ?q []"
      unfolding alt(2,5) new(2) elapsed_def last us tv_norm_consts(4)
      by (simp add: LONG_MAX_def MILLION_def)
  qed
  then show ?thesis
    unfolding alt(5) us by (auto simp: due_insert_def due_elapse_def)
qed

text \<open>
  removing an entry anywhere in the ring takes it out and leaves the due times of all
  others unchanged; removing it once more, or removing a null pointer, changes nothing.
\<close>

theorem RemoveEntry_refines:
  assumes "dq_rep q R" "a \<in> set (map fst R)"
  shows "\<exists>q'. RemoveEntry q (Some a) = Some q' \<and> dq_rep q' (due_remove a R) \<and>
    RemoveEntry q' (Some a) = Some q' \<and> RemoveEntry q None = Some q"
proof -
  obtain as where as: "ring q as" "remaining q as = R" "as = map fst R" "span q as = horizon q R"
    using assms(1) by (rule dq_repE)
  have "a \<in> set as" using assms(2) as(3) by simp
  from RemoveEntry_spec [OF as(1) this] obtain q' where
    q': "RemoveEntry q (Some a) = Some q'" "entry_ok (dq_heap q') a" "nxt (dq_heap q') a = None"
    by blast
  have "RemoveEntry q' (Some a) = Some q'"
    using q'(2,3) by (auto simp: RemoveEntry_def nxt_def elim!: entry_okE)
  with RemoveEntry_rep [OF assms] q'(1) show ?thesis by (auto simp: RemoveEntry_def)
qed

theorem RemoveEntry_refines_witness:
  "\<exists>q'. RemoveEntry \<lparr>dq_self = 0, dq_heap =
       [0 \<mapsto> \<lparr>m_next = Some 1, m_prev = Some 1, m_deltaTimeRemaining = Timeval_new 9 0, m_bc = None\<rparr>,
        1 \<mapsto> \<lparr>m_next = Some 0, m_prev = Some 0, m_deltaTimeRemaining = Timeval_new 2 0, m_bc = Some ''cb''\<rparr>],
       m_lastSyncTime = Timeval_new 4 0\<rparr> (Some 1) = Some q' \<and> dq_rep q' []"
proof -
  let ?q = "\<lparr>dq_self = 0, dq_heap =
       [0 \<mapsto> \<lparr>m_next = Some 1, m_prev = Some 1, m_deltaTimeRemaining = Timeval_new 9 0, m_bc = None\<rparr>,
        1 \<mapsto> \<lparr>m_next = Some 0, m_prev = Some 0, m_deltaTimeRemaining = Timeval_new 2 0, m_bc = Some ''cb''\<rparr>],
       m_lastSyncTime = Timeval_new 4 0\<rparr>"
  have "ring ?q [1]" "remaining ?q [1] = [(1, 2000000)]" "span ?q [1] \<le> tv_us ETERNITY"
    by (simp_all add: ring_def nxt_def prv_def entry_ok_def remaining_def delta_def span_def deltas_def
        tv_norm_def tv_us_def Timeval_new_def MILLION_def ETERNITY_def LONG_MAX_def)
  from dq_repI(1) [OF this] RemoveEntry_refines [of ?q "[(1, 2000000)]" 1] show ?thesis
    by (auto simp: due_remove_def)
qed



text \<open>
  Rescheduling. Updating a pending entry gives it the new delay and its place in the
  order, and the entries around it keep their due times, less the elapsed time.
\<close>

theorem UpdateEntry_reschedules:
  assumes "dq_rep q R" "a \<in> set (map fst R)" "clock_ok now q" "tv_norm d"
    and "elapsed now q + tv_us d < horizon q R"
  shows "\<exists>q'. UpdateEntry now q (Some a) d = Some q' \<and>
    dq_rep q' (due_insert a (tv_us d) (due_elapse (elapsed now q) (due_remove a R)))"
proof -
  obtain q1 where q1: "RemoveEntry q (Some a) = Some q1" "dq_rep q1 (due_remove a R)"
      "horizon q1 (due_remove a R) = horizon q R" "dq_self q1 = dq_self q"
      "m_lastSyncTime q1 = m_lastSyncTime q" "entry_ok (dq_heap q1) a"
    using RemoveEntry_rep [OF assms(1,2)] by blast
  obtain e where e: "dq_heap q1 a = Some e" using q1(6) by (auto elim: entry_okE)
  let ?h = "set_delta (dq_heap q1) a d"
  let ?q = "q1\<lparr>dq_heap := ?h\<rparr>"
  obtain as where as: "ring q1 as" "remaining q1 as = due_remove a R" "as = map fst (due_remove a R)"
      "span q1 as = horizon q1 (due_remove a R)" "horizon q1 (due_remove a R) \<le> tv_us ETERNITY"
    using q1(2) by (rule dq_repE)
  have self: "a \<noteq> dq_self q1"
    using assms(1,2) q1(4) by (auto simp: dq_rep_def ring_def remaining_def dest: set_zip_leftD)
  have na: "a \<notin> set as" using as(3) by (auto simp: due_remove_def)
  have oks: "\<forall>x \<in> set (as @ [dq_self q1]). entry_ok ?h x"
    using ring_head(4) [OF as(1)] self na by (metis set_delta_simps(5) UnE empty_iff list.set(1,2) insert_iff set_append)
  have ring: "ring ?q as" by (rule ringI(1) [OF as(1) _ _ oks]) simp_all
  have m: "map (delta ?h) xs = map (delta (dq_heap q1)) xs" if "a \<notin> set xs" for xs
    using that by (intro map_cong refl set_delta_simps(4)) auto
  have rem: "remaining ?q as = due_remove a R" using as(2) by (simp add: remaining_def m [OF na])
  have span: "span ?q as = horizon q R"
    using as(4) q1(3) self by (simp add: span_def deltas_def m [OF na])
  have rep: "dq_rep ?q (due_remove a R)" "horizon ?q (due_remove a R) = horizon q R"
    using dq_repI [OF ring rem] span as(5) q1(3) by simp_all
  have d: "delta (dq_heap ?q) a = tv_us d" "entry_ok (dq_heap ?q) a"
    using q1(6) assms(4) by simp_all
  have el: "elapsed now ?q = elapsed now q" "clock_ok now ?q"
    using q1(5) assms(3) by (simp_all add: elapsed_def clock_ok_def)
  have "a \<notin> set (dq_self ?q # map fst (due_remove a R))" using self na as(3) by simp
  from AddEntry_rep [OF rep(1) el(2) this d(2)] assms(5) obtain q' where
    "AddEntry now ?q a = Some q'" "dq_rep q' (due_insert a (tv_us d) (due_elapse (elapsed now q) (due_remove a R)))"
    unfolding d(1) el(1) rep(2) by blast
  with q1(1) e show ?thesis by (simp add: UpdateEntry_def)
qed

theorem UpdateEntry_reschedules_witness:
  "\<exists>q'. UpdateEntry (Timeval_new 4 0) \<lparr>dq_self = 0, dq_heap =
       [0 \<mapsto> \<lparr>m_next = Some 1, m_prev = Some 1, m_deltaTimeRemaining = Timeval_new 9 0, m_bc = None\<rparr>,
        1 \<mapsto> \<lparr>m_next = Some 0, m_prev = Some 0, m_deltaTimeRemaining = Timeval_new 2 0, m_bc = Some ''cb''\<rparr>],
       m_lastSyncTime = Timeval_new 4 0\<rparr> (Some 1) (Timeval_new 5 0) = Some q' \<and> dq_rep q' [(1, 5000000)]"
proof -
  let ?q = "\<lparr>dq_self = 0, dq_heap =
       [0 \<mapsto> \<lparr>m_next = Some 1, m_prev = Some 1, m_deltaTimeRemaining = Timeval_new 9 0, m_bc = None\<rparr>,
        1 \<mapsto> \<lparr>m_next = Some 0, m_prev = Some 0, m_deltaTimeRemaining = Timeval_new 2 0, m_bc = Some ''cb''\<rparr>],
       m_lastSyncTime = Timeval_new 4 0\<rparr>"
  have r: "ring ?q [1]" "remaining ?q [1] = [(1, 2000000)]" "span ?q [1] \<le> tv_us ETERNITY"
    by (simp_all add: ring_def nxt_def prv_def entry_ok_def remaining_def delta_def span_def deltas_def
        tv_norm_def tv_us_def Timeval_new_def MILLION_def ETERNITY_def LONG_MAX_def)
  have e: "elapsed (Timeval_new 4 0) ?q = 0" "clock_ok (Timeval_new 4 0) ?q" "span ?q [1] = 11000000"
      "tv_norm (Timeval_new 5 0)" "tv_us (Timeval_new 5 0) = 5000000"
    by (simp_all add: elapsed_def clock_ok_def tv_us_def tv_norm_def Timeval_new_def MILLION_def
        span_def deltas_def delta_def)
  have "elapsed (Timeval_new 4 0) ?q + tv_us (Timeval_new 5 0) < horizon ?q [(1, 2000000)]"
    unfolding dq_repI(2) [OF r] e by simp
  from UpdateEntry_reschedules [OF dq_repI(1) [OF r] _ e(2,4) this, of 1] show ?thesis
    unfolding e by (auto simp: due_insert_def due_elapse_def due_remove_def)
qed

text \<open>
  the time to the next alarm is the remaining time of the first pending entry, up to
  date with the clock (or zero, without reading the clock, when an entry is already due).
\<close>

theorem TimeToNextAlarm_first:
  assumes "dq_rep q ((a, t) # R)" "clock_ok now q" "elapsed now q < horizon q ((a, t) # R)"
  shows "\<exists>d q'. TimeToNextAlarm now q = Some (d, q') \<and> tv_norm d \<and> tv_us d = t - elapsed now q \<and>
    (\<exists>e. e \<le> elapsed now q \<and> dq_rep q' (due_elapse e ((a, t) # R)))"
proof -
  obtain d q' where "TimeToNextAlarm now q = Some (d, q')" "tv_norm d" "tv_us d = t - elapsed now q"
      "if t = 0 then q' = q else synchronize now q = Some q' \<and> dq_rep q' (due_elapse (elapsed now q) ((a, t) # R))"
    using TimeToNextAlarm_rep [OF assms] by auto
  moreover have "due_elapse 0 ((a, t) # R) = (a, t) # R" by (simp add: due_elapse_def)
  ultimately show ?thesis using assms(1) by (metis le_refl zero_le)
qed

theorem TimeToNextAlarm_first_witness:
  "\<exists>d q'. TimeToNextAlarm (Timeval_new 5 0) \<lparr>dq_self = 0, dq_heap =
       [0 \<mapsto> \<lparr>m_next = Some 1, m_prev = Some 1, m_deltaTimeRemaining = Timeval_new 9 0, m_bc = None\<rparr>,
        1 \<mapsto> \<lparr>m_next = Some 0, m_prev = Some 0, m_deltaTimeRemaining = Timeval_new 2 0, m_bc = Some ''cb''\<rparr>],
       m_lastSyncTime = Timeval_new 4 0\<rparr> = Some (d, q') \<and> tv_us d = 1000000"
proof -
  let ?q = "\<lparr>dq_self = 0, dq_heap =
       [0 \<mapsto> \<lparr>m_next = Some 1, m_prev = Some 1, m_deltaTimeRemaining = Timeval_new 9 0, m_bc = None\<rparr>,
        1 \<mapsto> \<lparr>m_next = Some 0, m_prev = Some 0, m_deltaTimeRemaining = Timeval_new 2 0, m_bc = Some ''cb''\<rparr>],
       m_lastSyncTime = Timeval_new 4 0\<rparr>"
  have r: "ring ?q [1]" "remaining ?q [1] = [(1, 2000000)]" "span ?q [1] \<le> tv_us ETERNITY"
    by (simp_all add: ring_def nxt_def prv_def entry_ok_def remaining_def delta_def span_def deltas_def
        tv_norm_def tv_us_def Timeval_new_def MILLION_def ETERNITY_def LONG_MAX_def)
  have e: "elapsed (Timeval_new 5 0) ?q = 1000000" "clock_ok (Timeval_new 5 0) ?q" "span ?q [1] = 11000000"
    by (simp_all add: elapsed_def clock_ok_def tv_us_def tv_norm_def Timeval_new_def MILLION_def
        span_def deltas_def delta_def)
  have "elapsed (Timeval_new 5 0) ?q < horizon ?q [(1, 2000000)]"
    unfolding dq_repI(2) [OF r] e by simp
  from TimeToNextAlarm_first [OF dq_repI(1) [OF r] e(2) this] show ?thesis unfolding e by auto
qed

text \<open>
  C38: the binary minus on timevals tests the sign of the seconds after a cast to \<^verbatim>\<open>int\<close>: a gap
  between \<open>2 ^ 31\<close> and \<open>2 ^ 32\<close> seconds counts as zero, so a synchronization over such a gap
  (a clock set from the epoch to the present, say) takes the new time and ages no entry.
\<close>

theorem synchronize_misses_long_gap:
  assumes "dq_rep q R" "tv_norm now" "tv_norm (m_lastSyncTime q)" "tv_usec (m_lastSyncTime q) \<le> tv_usec now"
    and "2 ^ 31 \<le> tv_sec now - tv_sec (m_lastSyncTime q)" "tv_sec now - tv_sec (m_lastSyncTime q) < 2 ^ 32"
    and "0 < horizon q R"
  shows "tv_minus now (m_lastSyncTime q) = DELAY_ZERO \<and>
    (\<exists>q'. synchronize now q = Some q' \<and> dq_rep q' R \<and> m_lastSyncTime q' = now)"
proof -
  let ?s = "tv_sec now - tv_sec (m_lastSyncTime q)"
  have "bit ?s 31"
  proof -
    have "s div 2147483648 = 1" if "2147483648 \<le> s" "s < 4294967296" for s :: int
      using that by linarith
    then have "?s div 2147483648 = 1" using assms(5,6) by simp
    then show ?thesis by (simp add: bit_iff_odd)
  qed
  then have zero: "tv_minus now (m_lastSyncTime q) = DELAY_ZERO"
    using assms(4) by (simp add: tv_minus_def)
  obtain as where as: "ring q as" "remaining q as = R" "as = map fst R" "span q as = horizon q R"
      "horizon q R \<le> tv_us ETERNITY"
    using assms(1) by (rule dq_repE)
  note head = ring_head [OF as(1)]
  have "\<not> tv_lt now (m_lastSyncTime q)" using assms(5) by (simp add: tv_lt_def tv_ge_def)
  moreover have "tv_us DELAY_ZERO < sum_list (map (delta (dq_heap q)) (as @ [dq_self q]))"
    using assms(7) as(4) by (simp add: span_def deltas_def tv)
  from synchronize_loop_spec [OF head(2-4) tv_norm_consts(1) this] obtain h' where
    h': "synchronize_loop (dq_heap q) DELAY_ZERO (hd (as @ [dq_self q])) = Some h'" "nxt h' = nxt (dq_heap q)"
      "prv h' = prv (dq_heap q)" "\<forall>a \<in> set (as @ [dq_self q]). entry_ok h' a"
      "map (delta h') (as @ [dq_self q]) = sync_list 0 (map (delta (dq_heap q)) (as @ [dq_self q]))"
    unfolding tv_norm_consts(3) by blast
  let ?q = "q\<lparr>m_lastSyncTime := now, dq_heap := h'\<rparr>"
  have id: "sync_list 0 ds = ds" for ds by (induction ds) auto
  have "deltas ?q as = deltas q as" using h'(5) by (simp add: deltas_def id)
  then have "remaining ?q as = R" "span ?q as = horizon q R"
    using as(2,4) butlast_sums_deltas [of ?q as] butlast_sums_deltas [of q as]
    by (simp_all add: span_def remaining_def)
  then have "dq_rep ?q R"
    by (intro dq_repI(1) [OF ringI(2) [OF as(1) h'(2-4)]]) (use as(5) in simp_all)
  ultimately show ?thesis using zero head(1) h'(1) by (simp add: synchronize_def)
qed

theorem synchronize_misses_long_gap_witness:
  "\<exists>q'. synchronize (Timeval_new 2200000000 0) \<lparr>dq_self = 0, dq_heap =
       [0 \<mapsto> \<lparr>m_next = Some 1, m_prev = Some 1, m_deltaTimeRemaining = Timeval_new 9 0, m_bc = None\<rparr>,
        1 \<mapsto> \<lparr>m_next = Some 0, m_prev = Some 0, m_deltaTimeRemaining = Timeval_new 2 0, m_bc = Some ''cb''\<rparr>],
       m_lastSyncTime = Timeval_new 4 0\<rparr> = Some q' \<and> dq_rep q' [(1, 2000000)]"
proof -
  let ?q = "\<lparr>dq_self = 0, dq_heap =
       [0 \<mapsto> \<lparr>m_next = Some 1, m_prev = Some 1, m_deltaTimeRemaining = Timeval_new 9 0, m_bc = None\<rparr>,
        1 \<mapsto> \<lparr>m_next = Some 0, m_prev = Some 0, m_deltaTimeRemaining = Timeval_new 2 0, m_bc = Some ''cb''\<rparr>],
       m_lastSyncTime = Timeval_new 4 0\<rparr>"
  have r: "ring ?q [1]" "remaining ?q [1] = [(1, 2000000)]" "span ?q [1] \<le> tv_us ETERNITY"
    by (simp_all add: ring_def nxt_def prv_def entry_ok_def remaining_def delta_def span_def deltas_def
        tv_norm_def tv_us_def Timeval_new_def MILLION_def ETERNITY_def LONG_MAX_def)
  have "span ?q [1] = 11000000"
    by (simp add: tv_us_def Timeval_new_def MILLION_def span_def deltas_def delta_def)
  then have "0 < horizon ?q [(1, 2000000)]" unfolding dq_repI(2) [OF r] by simp
  from synchronize_misses_long_gap [OF dq_repI(1) [OF r] _ _ _ _ _ this, of "Timeval_new 2200000000 0"]
  show ?thesis by (auto simp: tv_norm_def Timeval_new_def MILLION_def)
qed

end
