(* ===== verification/Handler_Set.thy ===== *)
theory Handler_Set
  imports Hui_Prelude Link_Ring "HOL-Library.Monad_Syntax"
begin

text \<open>
  The table of monitored file descriptors of the scheduler:
  \<^verbatim>\<open>src/src/detail/scheduler/handlerset_in.cpp\<close> (a ring of heap descriptors around a sentinel
  inside the \<^verbatim>\<open>HandlerSet\<close>) and \<^verbatim>\<open>selecthandlers_in.cpp\<close>, which fills the sets for \<^verbatim>\<open>select\<close> and
  runs the callbacks of the descriptors that are ready.

  The heap maps addresses to descriptors; dereferencing a null or deleted descriptor is
  \<open>None\<close>. The address \<^verbatim>\<open>new\<close> returns is an argument. A callback is run by the parameter \<open>exec\<close>,
  which may change the table and the state \<open>'w\<close> of the rest of the program.
\<close>

subsection \<open>Descriptors\<close>

type_synonym haddr = nat
type_synonym handler_t = int
type_synonym flags_t = HUN

definition invalid_handler_value :: handler_t where
  "invalid_handler_value = - 1"

record 'c HandlerDescriptor =
  m_hander :: handler_t
  m_flags :: flags_t
  hd_bc :: "'c option"
  hd_next :: "haddr option"
  hd_prev :: "haddr option"

type_synonym 'c hheap = "haddr \<Rightarrow> 'c HandlerDescriptor option"

definition upd_desc :: "'c hheap \<Rightarrow> haddr \<Rightarrow> ('c HandlerDescriptor \<Rightarrow> 'c HandlerDescriptor) \<Rightarrow> 'c hheap option" where
  "upd_desc h a f = map_option (\<lambda>d. h(a \<mapsto> f d)) (h a)"

definition HandlerDescriptor_new :: "'c hheap \<Rightarrow> haddr \<Rightarrow> haddr option \<Rightarrow> 'c hheap option" where
  "HandlerDescriptor_new h this nextHandler =
     (let d = \<lparr>m_hander = invalid_handler_value, m_flags = 0, hd_bc = None, hd_next = None, hd_prev = None\<rparr>
      in if nextHandler = Some this \<or> nextHandler = None
         then Some (h(this \<mapsto> d\<lparr>hd_next := Some this, hd_prev := Some this\<rparr>))
         else do { n \<leftarrow> nextHandler;
                   e \<leftarrow> h n;
                   let h = h(this \<mapsto> d\<lparr>hd_next := Some n, hd_prev := hd_prev e\<rparr>);
                   h \<leftarrow> upd_desc h n (\<lambda>x. x\<lparr>hd_prev := Some this\<rparr>);
                   p \<leftarrow> hd_prev e;
                   upd_desc h p (\<lambda>x. x\<lparr>hd_next := Some this\<rparr>) })"

definition HandlerDescriptor_delete :: "'c hheap \<Rightarrow> haddr \<Rightarrow> 'c hheap option" where
  "HandlerDescriptor_delete h this =
     do { d \<leftarrow> h this;
          n \<leftarrow> hd_next d;
          h \<leftarrow> upd_desc h n (\<lambda>x. x\<lparr>hd_prev := hd_prev d\<rparr>);
          d \<leftarrow> h this;
          p \<leftarrow> hd_prev d;
          h \<leftarrow> upd_desc h p (\<lambda>x. x\<lparr>hd_next := hd_next d\<rparr>);
          Some (h(this := None)) }"

definition CallHandler ::
    "('c \<Rightarrow> flags_t \<Rightarrow> 's \<Rightarrow> 's option) \<Rightarrow> 'c HandlerDescriptor \<Rightarrow> flags_t \<Rightarrow> 's \<Rightarrow> 's option" where
  "CallHandler exec d ff st = (case hd_bc d of None \<Rightarrow> Some st | Some bc \<Rightarrow> exec bc ff st)"

subsection \<open>The handler set and its iterator\<close>

record 'c HandlerSet =
  hs_self :: haddr
  hs_heap :: "'c hheap"

definition HandlerSet_new :: "haddr \<Rightarrow> 'c HandlerSet option" where
  "HandlerSet_new this =
     map_option (\<lambda>h. \<lparr>hs_self = this, hs_heap = h\<rparr>) (HandlerDescriptor_new Map.empty this None)"

definition HandlerIterator_Reset :: "'c HandlerSet \<Rightarrow> haddr option" where
  "HandlerIterator_Reset s = do { d \<leftarrow> hs_heap s (hs_self s); hd_next d }"

text \<open>\<^verbatim>\<open>Next\<close> returns the node it stood on (null at the sentinel) and moves on.\<close>

definition HandlerIterator_Next :: "'c HandlerSet \<Rightarrow> haddr \<Rightarrow> (haddr option \<times> haddr) option" where
  "HandlerIterator_Next s m_next_ptr =
     (if m_next_ptr = hs_self s then Some (None, m_next_ptr)
      else do { d \<leftarrow> hs_heap s m_next_ptr; n \<leftarrow> hd_next d; Some (Some m_next_ptr, n) })"

partial_function (option) lookupHandler_loop :: "'c HandlerSet \<Rightarrow> handler_t \<Rightarrow> haddr \<Rightarrow> haddr option option" where
  "lookupHandler_loop s socketNum it =
     do { (handler, it) \<leftarrow> HandlerIterator_Next s it;
          case handler of
            None \<Rightarrow> Some None
          | Some a \<Rightarrow> do { d \<leftarrow> hs_heap s a;
                          if m_hander d = socketNum then Some (Some a)
                          else lookupHandler_loop s socketNum it } }"

definition lookupHandler :: "'c HandlerSet \<Rightarrow> handler_t \<Rightarrow> haddr option option" where
  "lookupHandler s socketNum =
     do { it \<leftarrow> HandlerIterator_Reset s; lookupHandler_loop s socketNum it }"

definition AssignHandler ::
    "haddr \<Rightarrow> 'c HandlerSet \<Rightarrow> handler_t \<Rightarrow> flags_t \<Rightarrow> 'c option \<Rightarrow> 'c HandlerSet option" where
  "AssignHandler new_addr s socketNum conditionSet handlerProc =
     (if socketNum \<le> 0 then Some s
      else do { found \<leftarrow> lookupHandler s socketNum;
                (h, a) \<leftarrow> (case found of
                   None \<Rightarrow> do { first \<leftarrow> HandlerIterator_Reset s;
                               h \<leftarrow> HandlerDescriptor_new (hs_heap s) new_addr (Some first);
                               h \<leftarrow> upd_desc h new_addr (\<lambda>d. d\<lparr>m_hander := socketNum\<rparr>);
                               Some (h, new_addr) }
                 | Some a \<Rightarrow> Some (hs_heap s, a));
                h \<leftarrow> upd_desc h a (\<lambda>d. d\<lparr>m_flags := conditionSet\<rparr>);
                h \<leftarrow> upd_desc h a (\<lambda>d. d\<lparr>hd_bc := handlerProc\<rparr>);
                Some (s\<lparr>hs_heap := h\<rparr>) })"

definition RemoveHandler :: "'c HandlerSet \<Rightarrow> handler_t \<Rightarrow> 'c HandlerSet option" where
  "RemoveHandler s socketNum =
     do { found \<leftarrow> lookupHandler s socketNum;
          case found of
            None \<Rightarrow> Some s
          | Some a \<Rightarrow> do { h \<leftarrow> HandlerDescriptor_delete (hs_heap s) a; Some (s\<lparr>hs_heap := h\<rparr>) } }"

definition ChangeHandler :: "'c HandlerSet \<Rightarrow> handler_t \<Rightarrow> handler_t \<Rightarrow> 'c HandlerSet option" where
  "ChangeHandler s oldSocketNum newSocketNum =
     do { found \<leftarrow> lookupHandler s oldSocketNum;
          case found of
            None \<Rightarrow> Some s
          | Some a \<Rightarrow> do { h \<leftarrow> upd_desc (hs_heap s) a (\<lambda>d. d\<lparr>m_hander := newSocketNum\<rparr>);
                          Some (s\<lparr>hs_heap := h\<rparr>) } }"

partial_function (option) HandlerSet_delete :: "'c HandlerSet \<Rightarrow> 'c hheap option" where
  "HandlerSet_delete s =
     do { first \<leftarrow> HandlerIterator_Reset s;
          if first \<noteq> hs_self s
          then do { h \<leftarrow> HandlerDescriptor_delete (hs_heap s) first; HandlerSet_delete (s\<lparr>hs_heap := h\<rparr>) }
          else Some ((hs_heap s)(hs_self s := None)) }"

subsection \<open>Filling the sets for select and calling the handlers\<close>

definition HIT_NONE :: flags_t where "HIT_NONE = 0"
definition HIT_READ :: flags_t where "HIT_READ = 1"
definition HIT_WRITE :: flags_t where "HIT_WRITE = 2"
definition HIT_EXCEP :: flags_t where "HIT_EXCEP = 4"
definition HIT_TEST :: flags_t where "HIT_TEST = HIT_READ OR HIT_WRITE OR HIT_EXCEP"

lemmas HIT_defs = HIT_NONE_def HIT_READ_def HIT_WRITE_def HIT_EXCEP_def HIT_TEST_def

text \<open>
  An \<^verbatim>\<open>fd_set\<close> is a bit array for the descriptors below \<^verbatim>\<open>FD_SETSIZE\<close> = 1024; the macros on any other
  descriptor access memory outside it (\<open>None\<close>).
\<close>

type_synonym fd_set = "handler_t set"

definition FD_SET :: "handler_t \<Rightarrow> fd_set \<Rightarrow> fd_set option" where
  "FD_SET fd S = (if 0 \<le> fd \<and> fd < 1024 then Some (insert fd S) else None)"

definition FD_ISSET :: "handler_t \<Rightarrow> fd_set \<Rightarrow> bool option" where
  "FD_ISSET fd S = (if 0 \<le> fd \<and> fd < 1024 then Some (fd \<in> S) else None)"

definition SelectHandlerMap_AddHandle ::
    "haddr \<Rightarrow> 'c HandlerSet \<Rightarrow> handler_t \<Rightarrow> flags_t \<Rightarrow> 'c option \<Rightarrow> 'c HandlerSet option" where
  "SelectHandlerMap_AddHandle new_addr s socketNum conditionSet handlerProc =
     AssignHandler new_addr s socketNum conditionSet handlerProc"

definition SelectHandlerMap_RemoveHandle :: "'c HandlerSet \<Rightarrow> handler_t \<Rightarrow> 'c HandlerSet option" where
  "SelectHandlerMap_RemoveHandle s socketNum = RemoveHandler s socketNum"

definition set_if :: "bool \<Rightarrow> handler_t \<Rightarrow> fd_set \<Rightarrow> fd_set option" where
  "set_if b fd S = (if b then FD_SET fd S else Some S)"

partial_function (option) SetupHandleSet_loop ::
    "'c HandlerSet \<Rightarrow> haddr \<Rightarrow> handler_t \<times> fd_set \<times> fd_set \<times> fd_set \<Rightarrow> (handler_t \<times> fd_set \<times> fd_set \<times> fd_set) option" where
  "SetupHandleSet_loop s it acc =
     do { (dec, it) \<leftarrow> HandlerIterator_Next s it;
          case dec of
            None \<Rightarrow> Some acc
          | Some a \<Rightarrow>
              do { d \<leftarrow> hs_heap s a;
                   if m_flags d AND HIT_TEST = 0 then SetupHandleSet_loop s it acc
                   else do { let (res, r, w, e) = acc;
                             let res = (if res < m_hander d then m_hander d else res);
                             r \<leftarrow> set_if (m_flags d AND HIT_READ \<noteq> 0) (m_hander d) r;
                             w \<leftarrow> set_if (m_flags d AND HIT_WRITE \<noteq> 0) (m_hander d) w;
                             e \<leftarrow> set_if (m_flags d AND HIT_EXCEP \<noteq> 0) (m_hander d) e;
                             SetupHandleSet_loop s it (res, r, w, e) } } }"

definition SetupHandleSet :: "'c HandlerSet \<Rightarrow> (handler_t \<times> fd_set \<times> fd_set \<times> fd_set) option" where
  "SetupHandleSet s = do { it \<leftarrow> HandlerIterator_Reset s; SetupHandleSet_loop s it (0, {}, {}, {}) }"

definition result_events :: "handler_t \<Rightarrow> fd_set \<Rightarrow> fd_set \<Rightarrow> fd_set \<Rightarrow> flags_t option" where
  "result_events fd rfds wfds efds =
     do { r \<leftarrow> FD_ISSET fd rfds;
          w \<leftarrow> FD_ISSET fd wfds;
          e \<leftarrow> FD_ISSET fd efds;
          Some ((if r then HIT_READ else 0) OR (if w then HIT_WRITE else 0) OR (if e then HIT_EXCEP else 0)) }"

partial_function (option) CallHandlers_loop ::
    "('c \<Rightarrow> flags_t \<Rightarrow> 'c HandlerSet \<times> 'w \<Rightarrow> ('c HandlerSet \<times> 'w) option) \<Rightarrow> fd_set \<Rightarrow> fd_set \<Rightarrow> fd_set
       \<Rightarrow> haddr \<Rightarrow> 'c HandlerSet \<times> 'w \<Rightarrow> ('c HandlerSet \<times> 'w) option" where
  "CallHandlers_loop exec rfds wfds efds it sw =
     do { (dec, it) \<leftarrow> HandlerIterator_Next (fst sw) it;
          case dec of
            None \<Rightarrow> Some sw
          | Some a \<Rightarrow>
              do { d \<leftarrow> hs_heap (fst sw) a;
                   ev \<leftarrow> result_events (m_hander d) rfds wfds efds;
                   sw \<leftarrow> (if ev AND m_flags d \<noteq> 0 then CallHandler exec d ev sw else Some sw);
                   CallHandlers_loop exec rfds wfds efds it sw } }"

definition CallHandlers ::
    "('c \<Rightarrow> flags_t \<Rightarrow> 'c HandlerSet \<times> 'w \<Rightarrow> ('c HandlerSet \<times> 'w) option) \<Rightarrow> fd_set \<Rightarrow> fd_set \<Rightarrow> fd_set
       \<Rightarrow> 'c HandlerSet \<times> 'w \<Rightarrow> ('c HandlerSet \<times> 'w) option" where
  "CallHandlers exec rfds wfds efds sw =
     do { it \<leftarrow> HandlerIterator_Reset (fst sw); CallHandlers_loop exec rfds wfds efds it sw }"


subsection \<open>The ring of descriptors\<close>

definition hnxt :: "'c hheap \<Rightarrow> haddr \<Rightarrow> haddr option" where
  "hnxt h a = do { d \<leftarrow> h a; hd_next d }"

definition hprv :: "'c hheap \<Rightarrow> haddr \<Rightarrow> haddr option" where
  "hprv h a = do { d \<leftarrow> h a; hd_prev d }"

text \<open>What a descriptor monitors: descriptor number, conditions and callback.\<close>

type_synonym 'c hentry = "handler_t \<times> flags_t \<times> 'c option"

definition hentry :: "'c hheap \<Rightarrow> haddr \<Rightarrow> 'c hentry" where
  "hentry h a = (case h a of None \<Rightarrow> (0, 0, None) | Some d \<Rightarrow> (m_hander d, m_flags d, hd_bc d))"

definition hring :: "'c HandlerSet \<Rightarrow> haddr list \<Rightarrow> bool" where
  "hring s as \<longleftrightarrow> distinct (hs_self s # as)
     \<and> lpath (hnxt (hs_heap s)) (hprv (hs_heap s)) (hs_self s # as @ [hs_self s])"

definition hs_rep :: "'c HandlerSet \<Rightarrow> 'c hentry list \<Rightarrow> bool" where
  "hs_rep s L \<longleftrightarrow> (\<exists>as. hring s as \<and> map (hentry (hs_heap s)) as = L)"

lemma hring_first:
  assumes "hring s as"
  shows "HandlerIterator_Reset s = Some (hd (as @ [hs_self s]))"
  using assms by (cases as) (auto simp: hring_def HandlerIterator_Reset_def hnxt_def)

lemma lpath_heap:
  "lpath (hnxt h) pv (as @ [z]) \<Longrightarrow> a \<in> set as \<Longrightarrow> \<exists>d. h a = Some d"
proof (induction as)
  case (Cons b as)
  then show ?case by (cases as) (auto simp: hnxt_def bind_eq_Some_conv)
qed simp

lemma hring_heap:
  assumes "hring s as" "a \<in> set (hs_self s # as)"
  obtains d where "hs_heap s a = Some d" "hentry (hs_heap s) a = (m_hander d, m_flags d, hd_bc d)"
  using lpath_heap [of "hs_heap s" _ "hs_self s # as" "hs_self s" a] assms
  by (auto simp: hring_def hentry_def)

lemma Next_at:
  assumes "lpath (hnxt (hs_heap s)) pv (a # as @ [hs_self s])" "a \<noteq> hs_self s"
  shows "HandlerIterator_Next s a = Some (Some a, hd (as @ [hs_self s]))"
  using assms by (cases as) (auto simp: HandlerIterator_Next_def hnxt_def bind_eq_Some_conv)

lemma Next_end: "HandlerIterator_Next s (hs_self s) = Some (None, hs_self s)"
  by (simp add: HandlerIterator_Next_def)

lemma lpath_tail:
  "lpath nx pv (a # as @ [z]) \<Longrightarrow> lpath nx pv (as @ [z])"
  by (cases as) simp_all

definition fd_of :: "'c hentry \<Rightarrow> handler_t" where
  "fd_of x = fst x"

lemma lookupHandler_loop_at:
  assumes "lpath (hnxt (hs_heap s)) pv (as @ [hs_self s])" "hs_self s \<notin> set as"
  shows "lookupHandler_loop s n (hd (as @ [hs_self s])) =
    Some (find (\<lambda>a. fd_of (hentry (hs_heap s) a) = n) as)"
  using assms
proof (induction as)
  case Nil
  then show ?case by (simp add: lookupHandler_loop.simps [of s n "hs_self s"] Next_end)
next
  case (Cons a as)
  obtain d where d: "hs_heap s a = Some d"
    using lpath_heap [OF Cons.prems(1), of a] by auto
  have "HandlerIterator_Next s a = Some (Some a, hd (as @ [hs_self s]))"
    using Next_at Cons.prems by auto
  moreover have "lookupHandler_loop s n (hd (as @ [hs_self s])) =
      Some (find (\<lambda>a. fd_of (hentry (hs_heap s) a) = n) as)"
    by (intro Cons.IH lpath_tail [of _ _ a]) (use Cons.prems in simp_all)
  ultimately show ?case
    using d by (simp add: lookupHandler_loop.simps [of s n a] fd_of_def hentry_def)
qed

lemma lookupHandler_spec:
  assumes "hring s as"
  shows "lookupHandler s n = Some (find (\<lambda>a. fd_of (hentry (hs_heap s) a) = n) as)"
proof -
  have "lpath (hnxt (hs_heap s)) (hprv (hs_heap s)) (as @ [hs_self s])" "hs_self s \<notin> set as"
    using assms lpath_tail by (auto simp: hring_def)
  from lookupHandler_loop_at [OF this] hring_first [OF assms] show ?thesis
    by (simp add: lookupHandler_def)
qed

text \<open>Changes of a descriptor that keep its links.\<close>

lemma hring_keep:
  assumes "hring s as" "hnxt h = hnxt (hs_heap s)" "hprv h = hprv (hs_heap s)"
  shows "hring (s\<lparr>hs_heap := h\<rparr>) as"
  using assms by (simp add: hring_def)

lemma upd_desc_Some [simp]: "h a = Some d \<Longrightarrow> upd_desc h a f = Some (h(a \<mapsto> f d))"
  by (simp add: upd_desc_def)

lemma hupd_links:
  assumes "h a = Some d" "hd_next d' = hd_next d" "hd_prev d' = hd_prev d"
  shows "hnxt (h(a \<mapsto> d')) = hnxt h" "hprv (h(a \<mapsto> d')) = hprv h"
  using assms by (auto simp: hnxt_def hprv_def fun_eq_iff)

lemma hentry_upd: "hentry (h(a \<mapsto> d)) = (hentry h)(a := (m_hander d, m_flags d, hd_bc d))"
  by (auto simp: hentry_def fun_eq_iff)

lemma filter_neq_id: "a \<notin> set xs \<Longrightarrow> filter (\<lambda>x. x \<noteq> a) xs = xs"
  by (auto intro!: filter_True)

lemma hring_insert:
  assumes "hring s as" "n \<notin> set (hs_self s # as)" "hs_heap s n = None"
  shows "\<exists>h' d. HandlerDescriptor_new (hs_heap s) n (Some (hd (as @ [hs_self s]))) = Some h' \<and>
    hring (s\<lparr>hs_heap := h'\<rparr>) (n # as) \<and> h' n = Some d \<and> m_flags d = 0 \<and> hd_bc d = None \<and>
    (\<forall>a. a \<noteq> n \<longrightarrow> hentry h' a = hentry (hs_heap s) a) \<and>
    (\<forall>a. a \<noteq> n \<longrightarrow> (h' a = None \<longleftrightarrow> hs_heap s a = None))"
proof -
  let ?h = "hs_heap s" and ?s = "hs_self s"
  obtain c vs where cvs: "as @ [?s] = c # vs" by (cases as) auto
  have last: "last (c # vs) = ?s" using arg_cong [OF cvs, of List.last] by simp
  have dist: "distinct (c # vs)" "n \<notin> set (c # vs)"
    using assms(1,2) unfolding cvs [symmetric] hring_def by auto
  have path: "lpath (hnxt ?h) (hprv ?h) (?s # c # vs)" using assms(1) cvs by (simp add: hring_def)
  have cin: "c \<in> set (?s # as)" using cvs by (cases as) auto
  obtain y where y: "?h c = Some y" using hring_heap [OF assms(1) cin] by blast
  obtain z where z: "?h ?s = Some z" using hring_heap [OF assms(1), of ?s] by auto
  have pv: "hd_prev y = Some ?s" using path y by (simp add: hprv_def)
  have ne: "n \<noteq> c" "n \<noteq> ?s" using dist assms(2) by auto
  let ?d = "\<lparr>m_hander = invalid_handler_value, m_flags = 0, hd_bc = None, hd_next = Some c, hd_prev = Some ?s\<rparr>"
  let ?z = "if c = ?s then y\<lparr>hd_prev := Some n\<rparr> else z"
  let ?h' = "?h(n \<mapsto> ?d, c \<mapsto> y\<lparr>hd_prev := Some n\<rparr>, ?s \<mapsto> ?z\<lparr>hd_next := Some n\<rparr>)"
  have new: "HandlerDescriptor_new ?h n (Some c) = Some ?h'"
    using y z pv ne by (auto simp: HandlerDescriptor_new_def Let_def)
  have "hnxt ?h' = (hnxt ?h)(n := Some c, last [?s] := Some n)"
    "hprv ?h' = (hprv ?h)(n := Some (last [?s]), c := Some n)"
    using y z ne by (auto simp: hnxt_def hprv_def fun_eq_iff)
  from lpath_insert [of "hnxt ?h" "hprv ?h" ?s "[]" c vs n, OF _ _ last _ this] path dist
  have "lpath (hnxt ?h') (hprv ?h') (?s # n # c # vs)" by simp
  then have ring: "hring (s\<lparr>hs_heap := ?h'\<rparr>) (n # as)"
    using assms(1,2) cvs by (simp add: hring_def)
  have "hd (as @ [?s]) = c" using cvs by simp
  moreover have "\<forall>a. a \<noteq> n \<longrightarrow> hentry ?h' a = hentry ?h a"
    using y z by (auto simp: hentry_def)
  moreover have "\<forall>a. a \<noteq> n \<longrightarrow> (?h' a = None \<longleftrightarrow> ?h a = None)" using y z by auto
  ultimately show ?thesis
    using new ring ne by (intro exI [of _ ?h'] exI [of _ ?d]) auto
qed

lemma hring_remove:
  assumes "hring s as" "a \<in> set as"
  shows "\<exists>h'. HandlerDescriptor_delete (hs_heap s) a = Some h' \<and>
    hring (s\<lparr>hs_heap := h'\<rparr>) (filter (\<lambda>x. x \<noteq> a) as) \<and>
    (\<forall>x. x \<noteq> a \<longrightarrow> hentry h' x = hentry (hs_heap s) x) \<and>
    (finite (dom (hs_heap s)) \<longrightarrow> finite (dom h')) \<and> h' a = None"
proof -
  let ?h = "hs_heap s" and ?s = "hs_self s"
  obtain us ws where as: "as = us @ a # ws" using assms(2) by (meson split_list)
  obtain c vs where cvs: "ws @ [?s] = c # vs" by (cases ws) auto
  have last: "last (c # vs) = ?s" using arg_cong [OF cvs, of List.last] by simp
  have path: "lpath (hnxt ?h) (hprv ?h) (?s # us @ a # c # vs)"
    using assms(1) as cvs by (simp add: hring_def)
  have "distinct (as @ [?s])" using assms(1) by (simp add: hring_def)
  then have dist: "distinct (us @ a # c # vs)" using as cvs by simp
  let ?p = "List.last (?s # us)"
  have nx: "hnxt ?h a = Some c" using lpath_next [of "hnxt ?h" "hprv ?h" "?s # us" a c vs] path by simp
  have pv: "hprv ?h a = Some ?p"
    using path lpath_append [of "hnxt ?h" "hprv ?h" "?s # us" a "c # vs"]
      lpath_snoc [of "?s # us" "hnxt ?h" "hprv ?h" a] by simp
  have cin: "c \<in> set (?s # as)" using as cvs by (cases ws) auto
  have pin: "?p \<in> set (?s # as)" using as by (cases us rule: rev_cases) auto
  have ne: "a \<noteq> c" "a \<noteq> ?p"
    using dist last_in_set [of "c # vs"] last by (cases us rule: rev_cases; auto)+
  obtain e where e: "?h a = Some e" "hd_next e = Some c" "hd_prev e = Some ?p"
    using nx pv by (auto simp: hnxt_def hprv_def bind_eq_Some_conv)
  obtain y where y: "?h c = Some y" using hring_heap [OF assms(1) cin] by blast
  obtain z where z: "?h ?p = Some z" using hring_heap [OF assms(1) pin] by blast
  let ?z = "if c = ?p then y\<lparr>hd_prev := Some ?p\<rparr> else z"
  let ?h' = "?h(c \<mapsto> y\<lparr>hd_prev := Some ?p\<rparr>, ?p \<mapsto> ?z\<lparr>hd_next := Some c\<rparr>, a := None)"
  have del: "HandlerDescriptor_delete ?h a = Some ?h'"
    using e y z ne by (auto simp: HandlerDescriptor_delete_def)
  have "hnxt ?h' = (hnxt ?h)(?p := Some c, a := None)" "hprv ?h' = (hprv ?h)(c := Some ?p, a := None)"
    using e y z ne by (auto simp: hnxt_def hprv_def fun_eq_iff)
  from lpath_remove [OF path dist last this]
  have "lpath (hnxt ?h') (hprv ?h') (?s # us @ c # vs)" .
  moreover have flt: "filter (\<lambda>x. x \<noteq> a) as = us @ ws"
    using dist cvs [symmetric] unfolding as by (simp add: filter_neq_id)
  ultimately have ring: "hring (s\<lparr>hs_heap := ?h'\<rparr>) (us @ ws)"
    using assms(1) as cvs by (simp add: hring_def)
  have "\<forall>x. x \<noteq> a \<longrightarrow> hentry ?h' x = hentry ?h x" using y z by (auto simp: hentry_def)
  with del ring flt show ?thesis by (intro exI [of _ ?h']) simp
qed

subsection \<open>The set as a table\<close>

text \<open>
  The contract the scheduler relies on: a table from descriptors to what to do with them.
  A client may register, re-register and remove in any order.
\<close>

datatype 'v table_op = Assign handler_t 'v | Remove handler_t

primrec table_apply :: "'v table_op \<Rightarrow> (handler_t \<rightharpoonup> 'v) \<Rightarrow> (handler_t \<rightharpoonup> 'v)" where
  "table_apply (Assign n v) m = (if 0 < n then m(n \<mapsto> v) else m)"
| "table_apply (Remove n) m = m(n := None)"

fun table_exec :: "('s \<Rightarrow> handler_t \<Rightarrow> 'v \<Rightarrow> 's option) \<Rightarrow> ('s \<Rightarrow> handler_t \<Rightarrow> 's option)
    \<Rightarrow> 's \<Rightarrow> 'v table_op list \<Rightarrow> 's option" where
  "table_exec assign remove s [] = Some s"
| "table_exec assign remove s (Assign n v # ops) = do { s \<leftarrow> assign s n v; table_exec assign remove s ops }"
| "table_exec assign remove s (Remove n # ops) = do { s \<leftarrow> remove s n; table_exec assign remove s ops }"

locale fd_table =
  fixes rep :: "'s \<Rightarrow> (handler_t \<rightharpoonup> 'v) \<Rightarrow> bool"
    and assign :: "'s \<Rightarrow> handler_t \<Rightarrow> 'v \<Rightarrow> 's option"
    and remove :: "'s \<Rightarrow> handler_t \<Rightarrow> 's option"
  assumes assign: "rep s m \<Longrightarrow> \<exists>s'. assign s n v = Some s' \<and> rep s' (if 0 < n then m(n \<mapsto> v) else m)"
    and remove: "rep s m \<Longrightarrow> \<exists>s'. remove s n = Some s' \<and> rep s' (m(n := None))"
begin

lemma table_exec_rep: "rep s m \<Longrightarrow> \<exists>s'. table_exec assign remove s ops = Some s' \<and> rep s' (fold table_apply ops m)"
proof (induction ops arbitrary: s m)
  case (Cons op ops)
  show ?case
  proof (cases op)
    case (Assign n v)
    with assign [OF Cons.prems] obtain s1 where "assign s n v = Some s1" "rep s1 (table_apply op m)"
      by fastforce
    with Cons.IH Assign show ?thesis by fastforce
  next
    case (Remove n)
    with remove [OF Cons.prems] obtain s1 where "remove s n = Some s1" "rep s1 (table_apply op m)"
      by fastforce
    with Cons.IH Remove show ?thesis by fastforce
  qed
qed simp

end

definition hs_table :: "'c HandlerSet \<Rightarrow> (handler_t \<rightharpoonup> flags_t \<times> 'c option) \<Rightarrow> bool" where
  "hs_table s m \<longleftrightarrow> finite (dom (hs_heap s)) \<and>
     (\<exists>L. hs_rep s L \<and> distinct (map fst L) \<and> (\<forall>x \<in> set L. 0 < fst x) \<and> map_of L = m)"

lemma find_map_of:
  assumes "distinct (map (\<lambda>a. fst (f a)) as)"
  shows "case find (\<lambda>a. fst (f a) = n) as of
      None \<Rightarrow> map_of (map f as) n = None
    | Some a \<Rightarrow> a \<in> set as \<and> fst (f a) = n \<and> map_of (map f as) n = Some (snd (f a))"
  using assms by (induction as) (auto split: option.splits)

lemma find_None_map: "find (\<lambda>a. fst (f a) = n) as = None \<Longrightarrow> n \<notin> set (map fst (map f as))"
  by (auto simp: find_None_iff)

lemma map_of_update_at:
  assumes "distinct (map (\<lambda>a. fst (f a)) as)" "a \<in> set as" "fst (f a) = n" "g a = (n, v)"
    and "\<forall>x \<in> set as. x \<noteq> a \<longrightarrow> g x = f x"
  shows "map_of (map g as) = (map_of (map f as))(n \<mapsto> v)" "map fst (map g as) = map fst (map f as)"
proof -
  show mf: "map fst (map g as) = map fst (map f as)"
    using assms(3-5) by auto
  have inj: "x = a" if "x \<in> set as" "fst (f x) = n" for x
    using that assms(1-3) by (metis distinct_map inj_onD)
  have dg: "distinct (map fst (map g as))" unfolding mf using assms(1) by (simp add: comp_def)
  show "map_of (map g as) = (map_of (map f as))(n \<mapsto> v)"
  proof
    fix k
    show "map_of (map g as) k = ((map_of (map f as))(n \<mapsto> v)) k"
    proof (cases "k = n")
      case True
      have "(n, v) \<in> set (map g as)" using assms(2,4) by force
      with True dg show ?thesis by (simp only: map_of_eq_Some_iff fun_upd_same)
    next
      case False
      have "\<forall>x \<in> set as. g x = f x \<or> fst (g x) = n \<and> fst (f x) = n"
        using assms(3-5) by force
      with False have "map_of (map g as) k = map_of (map f as) k"
      proof (induction as)
        case (Cons x as)
        then have "map_of (map g as) k = map_of (map f as) k" by simp
        with Cons.prems show ?case by (cases "g x"; cases "f x") auto
      qed simp
      with False show ?thesis by simp
    qed
  qed
qed

lemma hs_tableE:
  assumes "hs_table s m"
  obtains as where "hring s as" "distinct (map (\<lambda>a. fst (hentry (hs_heap s) a)) as)"
    "\<forall>a \<in> set as. 0 < fst (hentry (hs_heap s) a)" "map_of (map (hentry (hs_heap s)) as) = m"
    "finite (dom (hs_heap s))"
  using assms by (auto simp: hs_table_def hs_rep_def comp_def)

lemma hs_tableI:
  assumes "hring s as" "distinct (map fst (map (hentry (hs_heap s)) as))"
    "\<forall>x \<in> set (map (hentry (hs_heap s)) as). 0 < fst x" "map_of (map (hentry (hs_heap s)) as) = m"
    "finite (dom (hs_heap s))"
  shows "hs_table s m"
  unfolding hs_table_def hs_rep_def
proof (intro conjI exI)
  show "hring s as" "distinct (map fst (map (hentry (hs_heap s)) as))"
    "\<forall>x \<in> set (map (hentry (hs_heap s)) as). 0 < fst x" "map_of (map (hentry (hs_heap s)) as) = m"
    "finite (dom (hs_heap s))"
    by (fact assms)+
qed simp

lemma lookup_table:
  assumes "hring s as" "distinct (map (\<lambda>a. fst (hentry (hs_heap s) a)) as)"
  shows "case lookupHandler s n of
      None \<Rightarrow> False
    | Some None \<Rightarrow> n \<notin> set (map fst (map (hentry (hs_heap s)) as))
    | Some (Some a) \<Rightarrow> a \<in> set as \<and> fst (hentry (hs_heap s) a) = n"
  using find_map_of [OF assms(2), of n] find_None_map [of "hentry (hs_heap s)" n as]
  by (auto simp: lookupHandler_spec [OF assms(1)] fd_of_def split: option.splits)

lemma AssignHandler_table:
  assumes "hs_table s m" "hs_heap s na = None"
  shows "\<exists>s'. AssignHandler na s n fl bc = Some s' \<and> hs_table s' (if 0 < n then m(n \<mapsto> (fl, bc)) else m)"
proof (cases "0 < n")
  case False
  with assms(1) show ?thesis by (auto simp: AssignHandler_def)
next
  case True
  obtain as where as: "hring s as" "distinct (map (\<lambda>a. fst (hentry (hs_heap s) a)) as)"
      "\<forall>a \<in> set as. 0 < fst (hentry (hs_heap s) a)" "map_of (map (hentry (hs_heap s)) as) = m"
      "finite (dom (hs_heap s))"
    using assms(1) by (rule hs_tableE)
  note look = lookup_table [OF as(1,2), of n]
  obtain r where r: "lookupHandler s n = Some r" using look by (cases "lookupHandler s n") auto
  show ?thesis
  proof (cases r)
    case None
    have fresh: "na \<notin> set (hs_self s # as)"
      using hring_heap [OF as(1), of na] assms(2) by auto
    obtain h1 d where h1: "HandlerDescriptor_new (hs_heap s) na (Some (hd (as @ [hs_self s]))) = Some h1"
        "hring (s\<lparr>hs_heap := h1\<rparr>) (na # as)" "h1 na = Some d"
        "\<forall>a. a \<noteq> na \<longrightarrow> hentry h1 a = hentry (hs_heap s) a"
        "\<forall>a. a \<noteq> na \<longrightarrow> (h1 a = None \<longleftrightarrow> hs_heap s a = None)"
      using hring_insert [OF as(1) fresh assms(2)] by blast
    let ?d = "d\<lparr>m_hander := n, m_flags := fl, hd_bc := bc\<rparr>"
    let ?h = "h1(na \<mapsto> ?d)"
    have run: "AssignHandler na s n fl bc = Some (s\<lparr>hs_heap := ?h\<rparr>)"
      using True None r h1(1,3) hring_first [OF as(1)] by (simp add: AssignHandler_def)
    have ring: "hring (s\<lparr>hs_heap := ?h\<rparr>) (na # as)"
      using hring_keep [OF h1(2)] hupd_links [of h1 na d ?d, OF h1(3)] by simp
    have same: "map (hentry ?h) as = map (hentry (hs_heap s)) as"
      using fresh h1(4) by (auto simp: hentry_upd)
    have head: "hentry ?h na = (n, fl, bc)" by (simp add: hentry_def)
    have "dom ?h \<subseteq> insert na (dom (hs_heap s))" using h1(5) by auto
    then have fin: "finite (dom ?h)" using as(5) by (meson finite_insert finite_subset)
    have "hs_table (s\<lparr>hs_heap := ?h\<rparr>) (m(n \<mapsto> (fl, bc)))"
    proof (rule hs_tableI [where as = "na # as"])
      show "hring (s\<lparr>hs_heap := ?h\<rparr>) (na # as)" by (rule ring)
      show "finite (dom (hs_heap (s\<lparr>hs_heap := ?h\<rparr>)))" using fin by simp
      show "map_of (map (hentry (hs_heap (s\<lparr>hs_heap := ?h\<rparr>))) (na # as)) = m(n \<mapsto> (fl, bc))"
        using as(4) by (simp add: same head)
      show "distinct (map fst (map (hentry (hs_heap (s\<lparr>hs_heap := ?h\<rparr>))) (na # as)))"
        using look r None as(2) by (simp add: same head comp_def)
      show "\<forall>x \<in> set (map (hentry (hs_heap (s\<lparr>hs_heap := ?h\<rparr>))) (na # as)). 0 < fst x"
        using as(3) True by (simp add: same head)
    qed
    with run True show ?thesis by simp
  next
    case (Some a)
    with look r have a: "a \<in> set as" "fst (hentry (hs_heap s) a) = n" by auto
    obtain d where d: "hs_heap s a = Some d" "hentry (hs_heap s) a = (m_hander d, m_flags d, hd_bc d)"
      using hring_heap [OF as(1), of a] a(1) by auto
    let ?d = "d\<lparr>m_flags := fl, hd_bc := bc\<rparr>"
    let ?h = "(hs_heap s)(a \<mapsto> ?d)"
    have run: "AssignHandler na s n fl bc = Some (s\<lparr>hs_heap := ?h\<rparr>)"
      using True Some r d(1) by (simp add: AssignHandler_def)
    have ring: "hring (s\<lparr>hs_heap := ?h\<rparr>) as"
      using hring_keep [OF as(1)] hupd_links [of "hs_heap s" a d ?d, OF d(1)] by simp
    have here: "hentry ?h a = (n, fl, bc)" and else': "\<forall>x \<in> set as. x \<noteq> a \<longrightarrow> hentry ?h x = hentry (hs_heap s) x"
      using a(2) d(2) by (simp_all add: hentry_upd)
    note upd = map_of_update_at [where f = "hentry (hs_heap s)" and g = "hentry ?h", OF as(2) a here else']
    have pos: "\<forall>x \<in> set (map (hentry ?h) as). 0 < fst x"
    proof clarsimp
      fix x
      assume "x \<in> set as"
      with as(3) here else' True show "0 < fst (hentry ?h x)" by (cases "x = a") simp_all
    qed
    have "hs_table (s\<lparr>hs_heap := ?h\<rparr>) (m(n \<mapsto> (fl, bc)))"
    proof (rule hs_tableI [where as = as])
      show "hring (s\<lparr>hs_heap := ?h\<rparr>) as" by (rule ring)
      show "finite (dom (hs_heap (s\<lparr>hs_heap := ?h\<rparr>)))" using as(5) by simp
      show "map_of (map (hentry (hs_heap (s\<lparr>hs_heap := ?h\<rparr>))) as) = m(n \<mapsto> (fl, bc))"
        using upd(1) as(4) by simp
      have "hs_heap (s\<lparr>hs_heap := ?h\<rparr>) = ?h" by simp
      then show "distinct (map fst (map (hentry (hs_heap (s\<lparr>hs_heap := ?h\<rparr>))) as))"
        using as(2) by (simp only: upd(2)) (simp add: comp_def)
      show "\<forall>x \<in> set (map (hentry (hs_heap (s\<lparr>hs_heap := ?h\<rparr>))) as). 0 < fst x"
        using pos by simp
    qed
    with run True show ?thesis by simp
  qed
qed


lemma hs_table_keep: "hs_table s m \<Longrightarrow> m n = None \<Longrightarrow> hs_table s (m(n := None))"
  by (simp add: fun_upd_idem)

lemma map_of_filter_key:
  assumes "distinct (map (\<lambda>a. fst (f a)) as)" "a \<in> set as" "fst (f a) = n"
  shows "map_of (map f (filter (\<lambda>x. x \<noteq> a) as)) = (map_of (map f as))(n := None)"
proof -
  have "filter (\<lambda>x. x \<noteq> a) as = filter (\<lambda>x. fst (f x) \<noteq> n) as"
    using assms by (intro filter_cong) (auto simp: distinct_map dest: inj_onD)
  moreover have "map_of (map f (filter (\<lambda>x. fst (f x) \<noteq> n) as)) = (map_of (map f as))(n := None)"
  proof (induction as)
    case (Cons x as)
    then show ?case by (cases "f x") (auto simp: fun_eq_iff)
  qed (simp add: fun_upd_idem)
  ultimately show ?thesis by simp
qed

lemma RemoveHandler_table:
  assumes "hs_table s m"
  shows "\<exists>s'. RemoveHandler s n = Some s' \<and> hs_table s' (m(n := None))"
proof -
  obtain as where as: "hring s as" "distinct (map (\<lambda>a. fst (hentry (hs_heap s) a)) as)"
      "\<forall>a \<in> set as. 0 < fst (hentry (hs_heap s) a)" "map_of (map (hentry (hs_heap s)) as) = m"
      "finite (dom (hs_heap s))"
    using assms by (rule hs_tableE)
  note look = lookup_table [OF as(1,2), of n]
  obtain r where r: "lookupHandler s n = Some r" using look by (cases "lookupHandler s n") auto
  show ?thesis
  proof (cases r)
    case None
    with look r have "m n = None" unfolding as(4) [symmetric] by (simp add: map_of_eq_None_iff del: map_map)
    with None r hs_table_keep [OF assms] show ?thesis by (simp add: RemoveHandler_def)
  next
    case (Some a)
    with look r have a: "a \<in> set as" "fst (hentry (hs_heap s) a) = n" by auto
    let ?as = "filter (\<lambda>x. x \<noteq> a) as"
    obtain h where h: "HandlerDescriptor_delete (hs_heap s) a = Some h" "hring (s\<lparr>hs_heap := h\<rparr>) ?as"
        "\<forall>x. x \<noteq> a \<longrightarrow> hentry h x = hentry (hs_heap s) x" "finite (dom h)"
      using hring_remove [OF as(1) a(1)] as(5) by blast
    have same: "map (hentry h) ?as = map (hentry (hs_heap s)) ?as" using h(3) by simp
    have dist: "distinct (map fst (map (hentry (hs_heap s)) ?as))"
      using as(2) by (simp add: comp_def distinct_map_filter)
    have "hs_table (s\<lparr>hs_heap := h\<rparr>) (m(n := None))"
    proof (rule hs_tableI [where as = ?as])
      show "hring (s\<lparr>hs_heap := h\<rparr>) ?as" by (rule h(2))
      show "finite (dom (hs_heap (s\<lparr>hs_heap := h\<rparr>)))" using h(4) by simp
      show "map_of (map (hentry (hs_heap (s\<lparr>hs_heap := h\<rparr>))) ?as) = m(n := None)"
        using map_of_filter_key [OF as(2) a] as(4) by (simp add: same)
      show "distinct (map fst (map (hentry (hs_heap (s\<lparr>hs_heap := h\<rparr>))) ?as))"
        using dist by (simp add: same del: map_map)
      show "\<forall>x \<in> set (map (hentry (hs_heap (s\<lparr>hs_heap := h\<rparr>))) ?as). 0 < fst x"
        using as(3) by (simp add: same)
    qed
    with h(1) Some r show ?thesis by (simp add: RemoveHandler_def)
  qed
qed

text \<open>
  \<^verbatim>\<open>new\<close> returns some address that is not in use; the first free one stands for it here.
\<close>

definition fresh_addr :: "'c hheap \<Rightarrow> haddr" where
  "fresh_addr h = (LEAST a. h a = None)"

lemma fresh_addr: "finite (dom h) \<Longrightarrow> h (fresh_addr h) = None"
  unfolding fresh_addr_def by (rule LeastI_ex) (metis domIff ex_new_if_finite infinite_UNIV_nat)

definition hs_assign :: "'c HandlerSet \<Rightarrow> handler_t \<Rightarrow> flags_t \<times> 'c option \<Rightarrow> 'c HandlerSet option" where
  "hs_assign s n v = SelectHandlerMap_AddHandle (fresh_addr (hs_heap s)) s n (fst v) (snd v)"

interpretation hst: fd_table hs_table hs_assign SelectHandlerMap_RemoveHandle
proof
  fix s :: "'a HandlerSet" and m n v
  assume m: "hs_table s m"
  then have "hs_heap s (fresh_addr (hs_heap s)) = None" by (simp add: hs_table_def fresh_addr)
  from AssignHandler_table [OF m this, of n "fst v" "snd v"]
  show "\<exists>s'. hs_assign s n v = Some s' \<and> hs_table s' (if 0 < n then m(n \<mapsto> v) else m)"
    by (cases v) (simp only: hs_assign_def SelectHandlerMap_AddHandle_def fst_conv snd_conv)
  show "\<exists>s'. SelectHandlerMap_RemoveHandle s n = Some s' \<and> hs_table s' (m(n := None))"
    using RemoveHandler_table [OF m] by (simp add: SelectHandlerMap_RemoveHandle_def)
qed


subsection \<open>The sets select gets\<close>

definition wanted :: "flags_t \<Rightarrow> 'c hentry \<Rightarrow> bool" where
  "wanted c x \<longleftrightarrow> fst (snd x) AND c \<noteq> 0"

definition fds_for :: "flags_t \<Rightarrow> 'c hentry list \<Rightarrow> fd_set" where
  "fds_for c L = set (map fst (filter (wanted c) L))"

lemma fds_for_simps [simp]:
  "fds_for c [] = {}" "fds_for c (x # L) = (if wanted c x then insert (fst x) (fds_for c L) else fds_for c L)"
  by (simp_all add: fds_for_def)

lemma wanted_test: "\<not> wanted HIT_TEST x \<Longrightarrow> \<not> wanted HIT_READ x \<and> \<not> wanted HIT_WRITE x \<and> \<not> wanted HIT_EXCEP x"
  by (auto simp: wanted_def HIT_TEST_def bit.conj_disj_distrib or_eq_0_iff)

lemma SetupHandleSet_loop_at:
  assumes "lpath (hnxt (hs_heap s)) pv (as @ [hs_self s])" "hs_self s \<notin> set as"
    and "\<forall>fd \<in> fds_for HIT_TEST (map (hentry (hs_heap s)) as). 0 \<le> fd \<and> fd < 1024"
  shows "SetupHandleSet_loop s (hd (as @ [hs_self s])) (res, r, w, e) =
    (let L = map (hentry (hs_heap s)) as in
     Some (fold max (map fst (filter (wanted HIT_TEST) L)) res,
           r \<union> fds_for HIT_READ L, w \<union> fds_for HIT_WRITE L, e \<union> fds_for HIT_EXCEP L))"
  using assms
proof (induction as arbitrary: res r w e)
  case Nil
  then show ?case by (simp add: SetupHandleSet_loop.simps [of s "hs_self s"] Next_end)
next
  case (Cons a as)
  obtain d where d: "hs_heap s a = Some d"
    using lpath_heap [OF Cons.prems(1), of a] by auto
  have en: "hentry (hs_heap s) a = (m_hander d, m_flags d, hd_bc d)" using d by (simp add: hentry_def)
  have nx: "HandlerIterator_Next s a = Some (Some a, hd (as @ [hs_self s]))"
    using Next_at Cons.prems by auto
  have IH: "SetupHandleSet_loop s (hd (as @ [hs_self s])) (res, r, w, e) =
    (let L = map (hentry (hs_heap s)) as in
     Some (fold max (map fst (filter (wanted HIT_TEST) L)) res,
           r \<union> fds_for HIT_READ L, w \<union> fds_for HIT_WRITE L, e \<union> fds_for HIT_EXCEP L))" for res r w e
    by (intro Cons.IH lpath_tail [of _ _ a]) (use Cons.prems in \<open>simp_all split: if_splits\<close>)
  show ?case
  proof (cases "wanted HIT_TEST (hentry (hs_heap s) a)")
    case False
    then have t: "m_flags d AND HIT_TEST = 0" by (simp add: wanted_def en)
    from False wanted_test [OF False] d t nx show ?thesis
      by (simp add: SetupHandleSet_loop.simps [of s a] IH Let_def)
  next
    case True
    with Cons.prems(3) en have rng: "0 \<le> m_hander d" "m_hander d < 1024" by simp_all
    have mx: "(if res < m_hander d then m_hander d else res) = max (m_hander d) res" by (simp add: max_def)
    from True have t: "m_flags d AND HIT_TEST \<noteq> 0" by (simp add: wanted_def en)
    have "set_if (m_flags d AND c \<noteq> 0) (m_hander d) S =
        Some (if wanted c (hentry (hs_heap s) a) then insert (m_hander d) S else S)" for c S
      using rng by (simp add: set_if_def FD_SET_def wanted_def en)
    with True t d nx show ?thesis
      by (simp add: SetupHandleSet_loop.simps [of s a] IH mx en Let_def)
  qed
qed

lemma fold_max: "fold max xs (m :: int) = Max (insert m (set xs))"
  by (simp add: Max.set_eq_fold [symmetric])

lemma hring_loop:
  assumes "hring s as"
  shows "lpath (hnxt (hs_heap s)) (hprv (hs_heap s)) (as @ [hs_self s])" "hs_self s \<notin> set as"
  using assms lpath_tail by (auto simp: hring_def)

definition monitored :: "(handler_t \<rightharpoonup> flags_t \<times> 'c option) \<Rightarrow> flags_t \<Rightarrow> fd_set" where
  "monitored m c = {fd. \<exists>fl bc. m fd = Some (fl, bc) \<and> fl AND c \<noteq> 0}"

lemma fds_for_monitored:
  "distinct (map fst L) \<Longrightarrow> fds_for c L = monitored (map_of L) c"
  by (force simp: fds_for_def monitored_def wanted_def)

lemma SetupHandleSet_sets:
  assumes "hs_table s m" and "\<forall>fd \<in> monitored m HIT_TEST. fd < 1024"
  shows "SetupHandleSet s = Some (Max (insert 0 (monitored m HIT_TEST)),
    monitored m HIT_READ, monitored m HIT_WRITE, monitored m HIT_EXCEP)"
proof -
  obtain as where as: "hring s as" "distinct (map (\<lambda>a. fst (hentry (hs_heap s) a)) as)"
      "\<forall>a \<in> set as. 0 < fst (hentry (hs_heap s) a)" "map_of (map (hentry (hs_heap s)) as) = m"
    using assms(1) by (rule hs_tableE)
  let ?L = "map (hentry (hs_heap s)) as"
  have mon: "fds_for c ?L = monitored m c" for c
    using fds_for_monitored [of ?L c] as(2,4) by (simp add: comp_def)
  have "\<forall>fd \<in> fds_for HIT_TEST ?L. 0 \<le> fd \<and> fd < 1024"
    using assms(2) as(3) mon [of HIT_TEST] by (fastforce simp: fds_for_def)
  from SetupHandleSet_loop_at [OF hring_loop [OF as(1)] this] show ?thesis
    by (simp add: SetupHandleSet_def hring_first [OF as(1)] Let_def fold_max mon [symmetric]) (simp add: fds_for_def)
qed


lemma set_if_out: "1024 \<le> fd \<Longrightarrow> set_if b fd S = (if b then None else Some S)"
  by (simp add: set_if_def FD_SET_def)

lemma wanted_some: "wanted HIT_TEST x \<Longrightarrow> wanted HIT_READ x \<or> wanted HIT_WRITE x \<or> wanted HIT_EXCEP x"
  by (auto simp: wanted_def HIT_TEST_def bit.conj_disj_distrib)

subsection \<open>Calling the handlers\<close>

text \<open>What \<^verbatim>\<open>select\<close> reported for a descriptor, and whether its callback is due.\<close>

definition events :: "fd_set \<Rightarrow> fd_set \<Rightarrow> fd_set \<Rightarrow> handler_t \<Rightarrow> flags_t" where
  "events r w e fd = (if fd \<in> r then HIT_READ else 0) OR (if fd \<in> w then HIT_WRITE else 0)
     OR (if fd \<in> e then HIT_EXCEP else 0)"

definition due :: "fd_set \<Rightarrow> fd_set \<Rightarrow> fd_set \<Rightarrow> 'c hentry \<Rightarrow> bool" where
  "due r w e x \<longleftrightarrow> events r w e (fst x) AND fst (snd x) \<noteq> 0"

definition calls :: "fd_set \<Rightarrow> fd_set \<Rightarrow> fd_set \<Rightarrow> 'c hentry list \<Rightarrow> ('c \<times> flags_t) list" where
  "calls r w e L = concat (map (\<lambda>x. case snd (snd x) of None \<Rightarrow> []
      | Some bc \<Rightarrow> if due r w e x then [(bc, events r w e (fst x))] else []) L)"

lemma result_events_in:
  "0 \<le> fd \<Longrightarrow> fd < 1024 \<Longrightarrow> result_events fd r w e = Some (events r w e fd)"
  by (simp add: result_events_def FD_ISSET_def events_def)

lemma CallHandlers_loop_at:
  assumes "lpath (hnxt (hs_heap s)) pv (as @ [hs_self s])" "hs_self s \<notin> set as"
    and "\<forall>a \<in> set as. 0 \<le> fst (hentry (hs_heap s) a) \<and> fst (hentry (hs_heap s) a) < 1024"
    and "\<And>bc ff x. exec bc ff (s, x) = Some (s, f bc ff x)"
  shows "CallHandlers_loop exec r w e (hd (as @ [hs_self s])) (s, x) =
    Some (s, fold (\<lambda>(bc, ff). f bc ff) (calls r w e (map (hentry (hs_heap s)) as)) x)"
  using assms(1-3)
proof (induction as arbitrary: x)
  case Nil
  then show ?case by (simp add: CallHandlers_loop.simps [of _ _ _ _ "hs_self s"] Next_end calls_def)
next
  case (Cons a as)
  obtain d where d: "hs_heap s a = Some d"
    using lpath_heap [OF Cons.prems(1), of a] by auto
  have en: "hentry (hs_heap s) a = (m_hander d, m_flags d, hd_bc d)" using d by (simp add: hentry_def)
  have nx: "HandlerIterator_Next s a = Some (Some a, hd (as @ [hs_self s]))"
    using Next_at Cons.prems by auto
  have IH: "CallHandlers_loop exec r w e (hd (as @ [hs_self s])) (s, x) =
    Some (s, fold (\<lambda>(bc, ff). f bc ff) (calls r w e (map (hentry (hs_heap s)) as)) x)" for x
    by (intro Cons.IH lpath_tail [of _ _ a]) (use Cons.prems in simp_all)
  have ev: "result_events (m_hander d) r w e = Some (events r w e (m_hander d))"
    using Cons.prems(3) en by (simp add: result_events_in)
  show ?case
    by (cases "hd_bc d") (simp_all add: CallHandlers_loop.simps [of _ _ _ _ a] d nx ev IH en CallHandler_def
      assms(4) due_def calls_def)
qed

lemma CallHandlers_calls:
  assumes "hs_rep s L" "\<forall>x \<in> set L. 0 \<le> fst x \<and> fst x < 1024"
    and "\<And>bc ff x. exec bc ff (s, x) = Some (s, f bc ff x)"
  shows "CallHandlers exec r w e (s, x) = Some (s, fold (\<lambda>(bc, ff). f bc ff) (calls r w e L) x)"
proof -
  obtain as where as: "hring s as" "map (hentry (hs_heap s)) as = L"
    using assms(1) by (auto simp: hs_rep_def)
  have "\<forall>a \<in> set as. 0 \<le> fst (hentry (hs_heap s) a) \<and> fst (hentry (hs_heap s) a) < 1024"
    using assms(2) as(2) by auto
  from CallHandlers_loop_at [where f = f, OF hring_loop [OF as(1)] this assms(3)] show ?thesis
    by (simp add: CallHandlers_def hring_first [OF as(1)] as(2))
qed

text \<open>
  The iterator of \<^verbatim>\<open>CallHandlers\<close> already holds the next node when a callback runs: a callback that removes
  that node leaves the iterator on freed memory.
\<close>

lemma CallHandlers_next_freed:
  assumes "hs_rep s ((n1, fl1, Some c) # (n2, fl2, c2) # L)" "n1 \<noteq> n2" "0 \<le> n1" "n1 < 1024"
    and "due r w e (n1, fl1, Some c)"
    and "exec c (events r w e n1) (s, x) = map_option (\<lambda>s'. (s', x')) (RemoveHandler s n2)"
  shows "CallHandlers exec r w e (s, x) = None"
proof -
  obtain as where as: "hring s as" "map (hentry (hs_heap s)) as = (n1, fl1, Some c) # (n2, fl2, c2) # L"
    using assms(1) by (auto simp: hs_rep_def)
  from as(2) obtain a b bs where ab: "as = a # b # bs" by auto
  obtain d where d: "hs_heap s a = Some d" "hentry (hs_heap s) a = (m_hander d, m_flags d, hd_bc d)"
    using hring_heap [OF as(1), of a] ab by auto
  have en: "m_hander d = n1" "m_flags d = fl1" "hd_bc d = Some c" "fst (hentry (hs_heap s) b) = n2"
    using as(2) d(2) by (auto simp: ab)
  have look: "lookupHandler s n2 = Some (Some b)"
    using assms(2) en d by (simp add: lookupHandler_spec [OF as(1)] ab fd_of_def)
  obtain h where h: "HandlerDescriptor_delete (hs_heap s) b = Some h" "h b = None"
    using hring_remove [OF as(1), of b] ab by auto
  have ne: "a \<noteq> hs_self s" "b \<noteq> hs_self s" using as(1) ab by (auto simp: hring_def)
  have nx: "HandlerIterator_Next s a = Some (Some a, b)"
    using Next_at [of s "hprv (hs_heap s)" a "b # bs"] hring_loop [OF as(1)] ne by (simp add: ab)
  have stuck: "CallHandlers_loop exec r w e b (s\<lparr>hs_heap := h\<rparr>, x') = None"
    using ne h by (simp add: CallHandlers_loop.simps [of _ _ _ _ b] HandlerIterator_Next_def)
  have rem: "exec c (events r w e n1) (s, x) = Some (s\<lparr>hs_heap := h\<rparr>, x')"
    using assms(6) look h by (simp add: RemoveHandler_def)
  have du: "events r w e n1 AND fl1 \<noteq> 0" using assms(5) by (simp add: due_def)
  have "CallHandlers_loop exec r w e a (s, x) = None"
    using assms(3,4) nx en du stuck rem
    by (simp add: CallHandlers_loop.simps [of _ _ _ _ a] d(1) result_events_in CallHandler_def)
  then show ?thesis by (simp add: CallHandlers_def hring_first [OF as(1)] ab)
qed


lemma HandlerSet_new_table:
  "\<exists>s. HandlerSet_new this = Some (s :: 'c HandlerSet) \<and> hs_table s Map.empty"
proof -
  let ?d = "\<lparr>m_hander = invalid_handler_value, m_flags = 0, hd_bc = None, hd_next = Some this, hd_prev = Some this\<rparr>
    :: 'c HandlerDescriptor"
  let ?s = "\<lparr>hs_self = this, hs_heap = [this \<mapsto> ?d]\<rparr>"
  have "HandlerSet_new this = Some ?s" by (simp add: HandlerSet_new_def HandlerDescriptor_new_def)
  moreover have "hs_table ?s Map.empty"
    by (rule hs_tableI [of _ "[]"]) (simp_all add: hring_def hnxt_def hprv_def)
  ultimately show ?thesis by blast
qed

text \<open>\<^verbatim>\<open>select\<close>'s bit arrays end at 1024: monitoring a larger descriptor writes outside them.\<close>

lemma SetupHandleSet_loop_out:
  assumes "lpath (hnxt (hs_heap s)) pv (as @ [hs_self s])" "hs_self s \<notin> set as" "a \<in> set as"
    and "wanted HIT_TEST (hentry (hs_heap s) a)" "1024 \<le> fst (hentry (hs_heap s) a)"
  shows "SetupHandleSet_loop s (hd (as @ [hs_self s])) acc = None"
  using assms
proof (induction as arbitrary: acc)
  case (Cons b as)
  obtain d where d: "hs_heap s b = Some d" "hentry (hs_heap s) b = (m_hander d, m_flags d, hd_bc d)"
    using lpath_heap [OF Cons.prems(1), of b] by (auto simp: hentry_def)
  have nx: "HandlerIterator_Next s b = Some (Some b, hd (as @ [hs_self s]))"
    using Next_at Cons.prems by auto
  obtain res r w e where acc: "acc = (res, r, w, e)" by (cases acc)
  show ?case
  proof (cases "a = b")
    case True
    with Cons.prems(4,5) d(2) have "m_flags d AND HIT_TEST \<noteq> 0" "1024 \<le> m_hander d"
      "m_flags d AND HIT_READ \<noteq> 0 \<or> m_flags d AND HIT_WRITE \<noteq> 0 \<or> m_flags d AND HIT_EXCEP \<noteq> 0"
      using wanted_some [of "hentry (hs_heap s) b"] by (simp_all add: wanted_def)
    with d(1) nx show ?thesis
      by (auto simp: SetupHandleSet_loop.simps [of s b] acc set_if_out Option.bind_eq_None_conv)
  next
    case False
    have "SetupHandleSet_loop s (hd (as @ [hs_self s])) acc = None" for acc
      by (intro Cons.IH lpath_tail [of _ _ b]) (use Cons.prems False in simp_all)
    with d(1) nx show ?thesis
      by (auto simp: SetupHandleSet_loop.simps [of s b] acc Option.bind_eq_None_conv)
  qed
qed simp


subsection \<open>Properties\<close>

text \<open>C9: After any sequence of registrations and removals on a new handler set, \<^verbatim>\<open>SetupHandleSet\<close> returns
  exactly the sets of the descriptors registered for reading, for writing and for exceptions and the
  largest descriptor number among them, as long as all of them are below \<^verbatim>\<open>FD_SETSIZE\<close>.\<close>

theorem handler_set_monitors:
  fixes ops :: "(flags_t \<times> 'c option) table_op list"
  assumes "\<forall>fd \<in> monitored (fold table_apply ops Map.empty) HIT_TEST. fd < 1024"
  shows "\<exists>s0 s. HandlerSet_new this = Some s0 \<and>
    table_exec hs_assign SelectHandlerMap_RemoveHandle s0 ops = Some s \<and>
    SetupHandleSet s = (let m = fold table_apply ops Map.empty in
      Some (Max (insert 0 (monitored m HIT_TEST)), monitored m HIT_READ, monitored m HIT_WRITE, monitored m HIT_EXCEP))"
proof -
  obtain s0 :: "'c HandlerSet" where s0: "HandlerSet_new this = Some s0" "hs_table s0 Map.empty"
    using HandlerSet_new_table by blast
  from hst.table_exec_rep [OF s0(2), of ops] obtain s where s:
      "table_exec hs_assign SelectHandlerMap_RemoveHandle s0 ops = Some s"
      "hs_table s (fold table_apply ops Map.empty)" by blast
  from s0(1) s(1) SetupHandleSet_sets [OF s(2) assms] show ?thesis by (simp add: Let_def)
qed

theorem handler_set_monitors_witness:
  "\<exists>s0 s. HandlerSet_new 7 = Some (s0 :: nat HandlerSet) \<and>
    table_exec hs_assign SelectHandlerMap_RemoveHandle s0
      [Assign 5 (HIT_READ, Some 1), Assign 9 (HIT_WRITE, None), Remove 9] = Some s \<and>
    SetupHandleSet s = Some (5, {5}, {}, {})"
proof -
  let ?ops = "[Assign 5 (HIT_READ, Some 1), Assign 9 (HIT_WRITE, None), Remove 9]
    :: (flags_t \<times> nat option) table_op list"
  have m: "fold table_apply ?ops Map.empty = [5 \<mapsto> (HIT_READ, Some 1)]" by (simp add: fun_eq_iff)
  have "monitored [5 \<mapsto> (HIT_READ, Some (1 :: nat))] c = (if HIT_READ AND c \<noteq> 0 then {5} else {})" for c
    by (auto simp: monitored_def split: if_splits)
  then show ?thesis
    using handler_set_monitors [of ?ops 7] by (simp only: m) (simp add: HIT_defs Let_def)
qed

text \<open>When the callbacks leave the table alone, \<^verbatim>\<open>CallHandlers\<close> visits every descriptor once, in ring order, and
  calls exactly the callbacks whose conditions meet what \<^verbatim>\<open>select\<close> reported, each with the reported events.\<close>

theorem CallHandlers_runs_due:
  assumes "hs_rep s L" "\<forall>x \<in> set L. 0 \<le> fst x \<and> fst x < 1024"
    and "\<forall>bc ff x. exec bc ff (s, x) = Some (s, f bc ff x)"
  shows "CallHandlers exec r w e (s, x) = Some (s, fold (\<lambda>(bc, ff). f bc ff) (calls r w e L) x)"
  by (rule CallHandlers_calls [OF assms(1,2)]) (use assms(3) in blast)

definition two_handlers :: "nat HandlerSet" where
  "two_handlers = \<lparr>hs_self = 0, hs_heap =
     [0 \<mapsto> \<lparr>m_hander = - 1, m_flags = 0, hd_bc = None, hd_next = Some 1, hd_prev = Some 2\<rparr>,
      1 \<mapsto> \<lparr>m_hander = 5, m_flags = HIT_READ, hd_bc = Some 50, hd_next = Some 2, hd_prev = Some 0\<rparr>,
      2 \<mapsto> \<lparr>m_hander = 6, m_flags = HIT_WRITE, hd_bc = Some 60, hd_next = Some 0, hd_prev = Some 1\<rparr>]\<rparr>"

lemma two_handlers_rep: "hs_rep two_handlers [(5, HIT_READ, Some 50), (6, HIT_WRITE, Some 60)]"
  unfolding hs_rep_def
  by (intro exI [of _ "[1, 2]"]) (simp add: hring_def hnxt_def hprv_def hentry_def two_handlers_def)

theorem CallHandlers_runs_due_witness:
  "CallHandlers (\<lambda>bc ff (s, x). Some (s, x @ [(bc, ff)])) {5, 6} {} {} (two_handlers, []) =
    Some (two_handlers, [(50, HIT_READ)])"
  using CallHandlers_runs_due [OF two_handlers_rep, of "\<lambda>bc ff (s, x). Some (s, x @ [(bc, ff)])"
      "\<lambda>bc ff x. x @ [(bc, ff)]" "{5, 6}" "{}" "{}" "[]"]
  by (simp add: calls_def due_def events_def HIT_defs)

text \<open>A callback that removes the descriptor after its own (in ring order) makes \<^verbatim>\<open>CallHandlers\<close> read
  freed memory, because the iterator was advanced before the callback ran.\<close>

theorem CallHandlers_use_after_free:
  assumes "hs_rep s ((n1, fl1, Some c) # (n2, fl2, c2) # L)" "n1 \<noteq> n2" "0 \<le> n1" "n1 < 1024"
    and "events r w e n1 AND fl1 \<noteq> 0"
    and "exec c (events r w e n1) (s, x) = map_option (\<lambda>s'. (s', x')) (SelectHandlerMap_RemoveHandle s n2)"
  shows "CallHandlers exec r w e (s, x) = None"
  using assms CallHandlers_next_freed [of s n1 fl1 c n2 fl2 c2 L r w e exec x x']
  by (simp add: due_def SelectHandlerMap_RemoveHandle_def)

theorem CallHandlers_use_after_free_witness:
  "CallHandlers (\<lambda>bc ff (s, x). map_option (\<lambda>s'. (s', x)) (SelectHandlerMap_RemoveHandle s 6))
     {5} {} {} (two_handlers, ()) = None"
  by (rule CallHandlers_use_after_free [OF two_handlers_rep]) (simp_all add: events_def HIT_defs)

end
