(* ===== verification/Scheduler.thy ===== *)
theory Scheduler
  imports Delay_Props Handler_Set
begin

text \<open>
  The single-threaded scheduler: the trigger slots of
  \<^verbatim>\<open>src/src/detail/scheduler/delaytrigger_in.cpp\<close>, the base class of \<^verbatim>\<open>scheduler_in.cpp\<close> (delayed
  tasks, stop flag, event loop) and \<^verbatim>\<open>HSingleScheduler\<close> of \<^verbatim>\<open>src/src/hscheduler.cpp\<close>, whose
  \<^verbatim>\<open>singleStep\<close> composes the delay queue, the handler set and the triggers.

  The system call \<^verbatim>\<open>select\<close> is the parameter \<open>sel\<close>: from the highest descriptor plus one, the three sets
  and the timeout it gives its result and the sets it leaves. Callbacks are run by \<open>exec\<close> (tasks and
  triggers) and \<open>exec_bg\<close> (descriptors) on the whole scheduler and the rest \<open>'w\<close> of the program, so that
  they may schedule, register and stop. \<open>None\<close> is undefined behaviour or a loop that does not end.
\<close>

subsection \<open>Triggers\<close>

definition max_trigger_count :: nat where
  "max_trigger_count = 128"

type_synonym 'c TriggerSet = "'c option list"

definition TriggerSet_new :: "'c TriggerSet" where
  "TriggerSet_new = replicate max_trigger_count None"

text \<open>The loop of \<^verbatim>\<open>CreateTrigger\<close> from slot \<open>i\<close>; \<open>rest\<close> are the slots from \<open>i\<close> on.\<close>

fun CreateTrigger_loop :: "'c option list \<Rightarrow> nat \<Rightarrow> 'c option \<Rightarrow> int \<times> 'c option list" where
  "CreateTrigger_loop [] i new_trigger = (- 1, [])"
| "CreateTrigger_loop (t # rest) i new_trigger =
     (if t = None then (int i, new_trigger # rest)
      else let (tid, rest') = CreateTrigger_loop rest (i + 1) new_trigger in (tid, t # rest'))"

definition TriggerSet_CreateTrigger :: "'c TriggerSet \<Rightarrow> 'c option \<Rightarrow> int \<times> 'c TriggerSet" where
  "TriggerSet_CreateTrigger ts new_trigger = CreateTrigger_loop ts 0 new_trigger"

definition TriggerSet_RemoveTrigger :: "'c TriggerSet \<Rightarrow> int \<Rightarrow> 'c TriggerSet" where
  "TriggerSet_RemoveTrigger ts tid =
     (if tid < 0 \<or> tid \<ge> int max_trigger_count then ts else ts[nat tid := None])"

subsection \<open>The scheduler\<close>

record 'c Scheduler =
  m_quit :: bool
  m_task_queue :: "'c DelayQueue"
  m_handlers :: "'c HandlerSet"
  m_trigers :: "'c TriggerSet"

definition HSingleScheduler_new :: "addr \<Rightarrow> haddr \<Rightarrow> Timeval \<Rightarrow> 'c Scheduler option" where
  "HSingleScheduler_new qa ha now =
     do { h \<leftarrow> HandlerSet_new ha;
          Some \<lparr>m_quit = False, m_task_queue = DelayQueue_new qa now, m_handlers = h, m_trigers = TriggerSet_new\<rparr> }"

definition StopLoop :: "'c Scheduler \<Rightarrow> 'c Scheduler" where
  "StopLoop s = s\<lparr>m_quit := True\<rparr>"

definition ScheduleDelayTask :: "addr \<Rightarrow> Timeval \<Rightarrow> 'c Scheduler \<Rightarrow> 64 word \<Rightarrow> 'c option \<Rightarrow> 'c Scheduler option" where
  "ScheduleDelayTask new_addr now s microseconds proc =
     do { let timeToDelay = Timeval_new (uint microseconds div MILLION) (uint microseconds mod MILLION);
          let q = AlterHandler_new (m_task_queue s) new_addr timeToDelay proc;
          q \<leftarrow> AddEntry now q new_addr;
          Some (s\<lparr>m_task_queue := q\<rparr>) }"

definition SetBackgroundHanding :: "haddr \<Rightarrow> 'c Scheduler \<Rightarrow> handler_t \<Rightarrow> flags_t \<Rightarrow> 'c option \<Rightarrow> 'c Scheduler option" where
  "SetBackgroundHanding new_addr s sfd flags bc =
     do { h \<leftarrow> SelectHandlerMap_AddHandle new_addr (m_handlers s) sfd flags bc; Some (s\<lparr>m_handlers := h\<rparr>) }"

definition RemoveBackgroundHandling :: "'c Scheduler \<Rightarrow> handler_t \<Rightarrow> 'c Scheduler option" where
  "RemoveBackgroundHandling s sfd =
     do { h \<leftarrow> SelectHandlerMap_RemoveHandle (m_handlers s) sfd; Some (s\<lparr>m_handlers := h\<rparr>) }"

definition CreateTrigger :: "'c Scheduler \<Rightarrow> 'c option \<Rightarrow> int \<times> 'c Scheduler" where
  "CreateTrigger s bc = (let (tid, ts) = TriggerSet_CreateTrigger (m_trigers s) bc in (tid, s\<lparr>m_trigers := ts\<rparr>))"

definition RemoveTrigger :: "'c Scheduler \<Rightarrow> int \<Rightarrow> 'c Scheduler" where
  "RemoveTrigger s tid = s\<lparr>m_trigers := TriggerSet_RemoveTrigger (m_trigers s) tid\<rparr>"

subsection \<open>One step of the loop\<close>

type_synonym ('c, 'w) world = "'c Scheduler \<times> 'w"
type_synonym ('c, 'w) callback = "'c \<Rightarrow> ('c, 'w) world \<Rightarrow> ('c, 'w) world option"
type_synonym select_call =
  "handler_t \<Rightarrow> fd_set \<Rightarrow> fd_set \<Rightarrow> fd_set \<Rightarrow> Timeval \<Rightarrow> int \<times> fd_set \<times> fd_set \<times> fd_set"

text \<open>The slots are read one by one while callbacks may create and remove triggers.\<close>

function TriggeUpAll_loop :: "('c, 'w) callback \<Rightarrow> nat \<Rightarrow> ('c, 'w) world \<Rightarrow> ('c, 'w) world option" where
  "TriggeUpAll_loop exec i sw =
     (if i < max_trigger_count
      then do { sw \<leftarrow> (case m_trigers (fst sw) ! i of None \<Rightarrow> Some sw | Some c \<Rightarrow> exec c sw);
                TriggeUpAll_loop exec (i + 1) sw }
      else Some sw)"
  by pat_completeness auto
termination by (relation "measure (\<lambda>(_, i, _). max_trigger_count - i)") auto

declare TriggeUpAll_loop.simps [simp del]

definition TriggeUpAll :: "('c, 'w) callback \<Rightarrow> ('c, 'w) world \<Rightarrow> ('c, 'w) world option" where
  "TriggeUpAll exec sw = TriggeUpAll_loop exec 0 sw"

text \<open>
  A callback of a task or a descriptor sees the scheduler with the queue or the table as it is then; the
  queue or table inside the scheduler that is passed along is not used while they are worked on.
\<close>

definition on_queue ::
    "('c, 'w) callback \<Rightarrow> 'c \<Rightarrow> 'c DelayQueue \<times> ('c, 'w) world \<Rightarrow> ('c DelayQueue \<times> ('c, 'w) world) option" where
  "on_queue exec c x =
     do { (s, w) \<leftarrow> exec c ((fst (snd x))\<lparr>m_task_queue := fst x\<rparr>, snd (snd x));
          Some (m_task_queue s, (s\<lparr>m_task_queue := m_task_queue (fst (snd x))\<rparr>, w)) }"

definition on_handlers ::
    "('c \<Rightarrow> flags_t \<Rightarrow> ('c, 'w) world \<Rightarrow> ('c, 'w) world option) \<Rightarrow> 'c \<Rightarrow> flags_t
       \<Rightarrow> 'c HandlerSet \<times> ('c, 'w) world \<Rightarrow> ('c HandlerSet \<times> ('c, 'w) world) option" where
  "on_handlers exec_bg c ff x =
     do { (s, w) \<leftarrow> exec_bg c ff ((fst (snd x))\<lparr>m_handlers := fst x\<rparr>, snd (snd x));
          Some (m_handlers s, (s\<lparr>m_handlers := m_handlers (fst (snd x))\<rparr>, w)) }"

definition clip_delay :: "Timeval \<Rightarrow> Timeval" where
  "clip_delay t = (if tv_sec t > MILLION then t\<lparr>tv_sec := MILLION\<rparr> else t)"

datatype 'a outcome = Done 'a | Aborted

definition singleStep ::
    "('c, 'w) callback \<Rightarrow> ('c \<Rightarrow> flags_t \<Rightarrow> ('c, 'w) world \<Rightarrow> ('c, 'w) world option) \<Rightarrow> select_call
       \<Rightarrow> Timeval \<Rightarrow> Timeval \<Rightarrow> ('c, 'w) world \<Rightarrow> ('c, 'w) world outcome option" where
  "singleStep exec exec_bg sel now1 now2 sw =
     do { let (s, x) = sw;
          (timeToDelay, q) \<leftarrow> TimeToNextAlarm now1 (m_task_queue s);
          let s = s\<lparr>m_task_queue := q\<rparr>;
          (mfd, r, w, e) \<leftarrow> SetupHandleSet (m_handlers s);
          let (selectResult, r, w, e) = sel (mfd + 1) r w e (clip_delay timeToDelay);
          if selectResult < 0 then Some Aborted
          else do { (h, (s, x)) \<leftarrow> (if selectResult > 0
                       then CallHandlers (on_handlers exec_bg) r w e (m_handlers s, (s, x))
                       else Some (m_handlers s, (s, x)));
                    let s = s\<lparr>m_handlers := h\<rparr>;
                    (s, x) \<leftarrow> TriggeUpAll exec (s, x);
                    (q, (s, x)) \<leftarrow> HandleAlarm (on_queue exec) now2 (m_task_queue s, (s, x));
                    Some (Done (s\<lparr>m_task_queue := q\<rparr>, x)) } }"

text \<open>The event loop; step \<open>i\<close> finds the environment \<open>env i\<close>: what select does and two clock readings.\<close>

partial_function (option) DoEventLoop ::
    "('c, 'w) callback \<Rightarrow> ('c \<Rightarrow> flags_t \<Rightarrow> ('c, 'w) world \<Rightarrow> ('c, 'w) world option)
       \<Rightarrow> (nat \<Rightarrow> select_call \<times> Timeval \<times> Timeval) \<Rightarrow> nat \<Rightarrow> ('c, 'w) world \<Rightarrow> ('c, 'w) world outcome option" where
  "DoEventLoop exec exec_bg env i sw =
     (if m_quit (fst sw) then Some (Done sw)
      else do { out \<leftarrow> singleStep exec exec_bg (fst (env i)) (fst (snd (env i))) (snd (snd (env i))) sw;
                case out of Aborted \<Rightarrow> Some Aborted | Done sw \<Rightarrow> DoEventLoop exec exec_bg env (i + 1) sw })"


subsection \<open>Triggers: slots are handed out lowest first\<close>

lemma CreateTrigger_loop_spec:
  "CreateTrigger_loop ts i c =
    (if None \<in> set ts then (int (i + length (takeWhile (\<lambda>t. t \<noteq> None) ts)),
       ts[length (takeWhile (\<lambda>t. t \<noteq> None) ts) := c]) else (- 1, ts))"
  by (induction ts i c rule: CreateTrigger_loop.induct) auto

text \<open>
  Callbacks that leave the three tables alone: they may call \<^verbatim>\<open>StopLoop\<close> and change the rest of the
  program, that is, they act on the pair of the stop flag and \<open>'w\<close>.
\<close>

definition on_flag :: "(bool \<times> 'w \<Rightarrow> bool \<times> 'w) \<Rightarrow> ('c, 'w) world \<Rightarrow> ('c, 'w) world" where
  "on_flag f sw = (let (b, y) = f (m_quit (fst sw), snd sw) in ((fst sw)\<lparr>m_quit := b\<rparr>, y))"

lemma on_flag_simps [simp]:
  "m_task_queue (fst (on_flag f sw)) = m_task_queue (fst sw)"
  "m_handlers (fst (on_flag f sw)) = m_handlers (fst sw)" "m_trigers (fst (on_flag f sw)) = m_trigers (fst sw)"
  "(m_quit (fst (on_flag f sw)), snd (on_flag f sw)) = f (m_quit (fst sw), snd sw)"
  "on_flag f (on_flag g sw) = on_flag (\<lambda>x. f (g x)) sw" "on_flag (\<lambda>x. x) sw = sw"
  by (simp_all add: on_flag_def split_beta)

lemma on_flag_put:
  "on_flag f (s\<lparr>m_task_queue := q\<rparr>, x) = (let (s', y) = on_flag f (s, x) in (s'\<lparr>m_task_queue := q\<rparr>, y))"
  "on_flag f (s\<lparr>m_handlers := h\<rparr>, x) = (let (s', y) = on_flag f (s, x) in (s'\<lparr>m_handlers := h\<rparr>, y))"
  by (simp_all add: on_flag_def split_beta)

lemma fold_on_flag:
  "fold (\<lambda>c. on_flag (f c)) cs sw = on_flag (fold f cs) sw"
  "fold (\<lambda>(c, ff). on_flag (g c ff)) ds sw = on_flag (fold (\<lambda>(c, ff). g c ff) ds) sw"
  by (induction cs arbitrary: sw, simp_all add: id_def comp_def)
    (induction ds arbitrary: sw, simp_all add: id_def comp_def split_beta)

lemma run_callbacks_on_flag:
  "run_callbacks (\<lambda>c. on_flag (f c)) b as sw = on_flag (run_callbacks f b as) sw"
  unfolding run_callbacks_def
proof (induction as arbitrary: sw)
  case (Cons a as)
  then show ?case by (cases "b a") (simp_all add: comp_def)
qed (simp add: id_def)

lemma TriggeUpAll_loop_spec:
  assumes "\<And>c sw. exec c sw = Some (on_flag (f c) sw)"
    and "length (m_trigers (fst sw)) = max_trigger_count" "i \<le> max_trigger_count"
  shows "TriggeUpAll_loop exec i sw =
    Some (on_flag (fold f (List.map_filter id (drop i (m_trigers (fst sw))))) sw)"
  using assms(2,3)
proof (induction "max_trigger_count - i" arbitrary: i sw)
  case 0
  then have "i = max_trigger_count" by simp
  then show ?case using 0(2) by (simp add: TriggeUpAll_loop.simps [of _ max_trigger_count] map_filter_simps id_def)
next
  case (Suc n)
  then have i: "i < max_trigger_count" by simp
  let ?ts = "m_trigers (fst sw)"
  have d: "drop i ?ts = ?ts ! i # drop (Suc i) ?ts"
    using i Suc.prems(1) by (simp add: Cons_nth_drop_Suc)
  have IH: "TriggeUpAll_loop exec (Suc i) sw' =
      Some (on_flag (fold f (List.map_filter id (drop (Suc i) (m_trigers (fst sw'))))) sw')"
    if "m_trigers (fst sw') = ?ts" for sw'
    using Suc i that by simp
  show ?case
    using i by (cases "?ts ! i")
      (simp_all add: TriggeUpAll_loop.simps [of _ i] d IH assms(1) map_filter_simps comp_def)
qed

subsection \<open>What a step does\<close>

text \<open>
  Two readings of the clock in a step: the first when the timeout is computed, the second when the
  alarms are handled. Either may be skipped when an entry is known to be due.
\<close>

definition clocks_ok :: "Timeval \<Rightarrow> Timeval \<Rightarrow> 'c DelayQueue \<Rightarrow> (addr \<times> nat) list \<Rightarrow> bool" where
  "clocks_ok now1 now2 q R \<longleftrightarrow> clock_ok now1 q \<and> clock_ok now2 q \<and> tv_us (m_lastSyncTime q) \<le> tv_us now1
     \<and> tv_us now1 \<le> tv_us now2 \<and> elapsed now2 q < horizon q R"

lemma clock_ok_later:
  assumes "clocks_ok now1 now2 q R" "m_lastSyncTime q1 = now1"
  shows "clock_ok now2 q1" "elapsed now2 q1 = elapsed now2 q - elapsed now1 q" "elapsed now1 q \<le> elapsed now2 q"
proof -
  have n: "tv_norm now1" "tv_norm now2" "tv_norm (m_lastSyncTime q)"
    "tv_us (m_lastSyncTime q) \<le> tv_us now1" "tv_us now1 \<le> tv_us now2"
    "tv_sec now2 - tv_sec (m_lastSyncTime q) < 2 ^ 31"
    using assms(1) by (auto simp: clocks_ok_def clock_ok_def)
  then have "tv_sec (m_lastSyncTime q) \<le> tv_sec now1"
    by (auto simp: tv_norm_def tv_us_def MILLION_def)
  with n assms(2) show "clock_ok now2 q1" by (simp add: clock_ok_def)
  show "elapsed now2 q1 = elapsed now2 q - elapsed now1 q" "elapsed now1 q \<le> elapsed now2 q"
    using n assms(2) by (simp_all add: elapsed_def)
qed

lemma due_elapse_0 [simp]: "due_elapse 0 R = R"
  by (simp add: due_elapse_def)

lemma due_elapse_add: "due_elapse a (due_elapse b R) = due_elapse (b + a) R"
  by (auto simp: due_elapse_def)

lemma filter_due_elapse:
  "map fst (filter (\<lambda>(x, t). t \<le> a) (due_elapse b R)) = map fst (filter (\<lambda>(x, t). t \<le> b + a) R)"
  "due_elapse a (filter (\<lambda>(x, t). \<not> t \<le> a) (due_elapse b R)) = due_elapse (b + a) (filter (\<lambda>(x, t). \<not> t \<le> b + a) R)"
  by (induction R) (auto simp: due_elapse_def)

lemma step_alarms:
  assumes "\<And>c q w. exec c (q, w) = Some (q, run c w)" "dq_rep q R" "clocks_ok now1 now2 q R"
  shows "\<exists>d q1. TimeToNextAlarm now1 q = Some (d, q1) \<and> tv_norm d \<and>
     (R \<noteq> [] \<longrightarrow> tv_us d = snd (hd R) - elapsed now1 q) \<and>
     (\<forall>w. \<exists>q2 e. HandleAlarm exec now2 (q1, w) =
        Some (q2, run_callbacks run (bcs (dq_heap q)) (map fst (filter (\<lambda>(a, t). t \<le> e) R)) w) \<and>
      dq_rep q2 (due_elapse e (filter (\<lambda>(a, t). \<not> t \<le> e) R)) \<and> e \<le> elapsed now2 q \<and>
      (R \<noteq> [] \<and> snd (hd R) \<le> elapsed now2 q \<longrightarrow> snd (hd R) \<le> e))"
proof -
  have c: "clock_ok now1 q" "clock_ok now2 q" "elapsed now2 q < horizon q R"
    using assms(3) by (simp_all add: clocks_ok_def)
  have le: "elapsed now1 q \<le> elapsed now2 q" using assms(3) by (auto simp: clocks_ok_def elapsed_def)
  have e1: "elapsed now1 q < horizon q R" using le c(3) by simp
  obtain d q1 where d: "TimeToNextAlarm now1 q = Some (d, q1)" "tv_norm d"
      "R \<noteq> [] \<longrightarrow> tv_us d = snd (hd R) - elapsed now1 q"
      "if R \<noteq> [] \<and> snd (hd R) = 0 then q1 = q
       else synchronize now1 q = Some q1 \<and> dq_rep q1 (due_elapse (elapsed now1 q) R)"
    using TimeToNextAlarm_rep [OF assms(2) c(1) e1] by blast
  have "\<exists>q2 e. HandleAlarm exec now2 (q1, w) =
        Some (q2, run_callbacks run (bcs (dq_heap q)) (map fst (filter (\<lambda>(a, t). t \<le> e) R)) w) \<and>
      dq_rep q2 (due_elapse e (filter (\<lambda>(a, t). \<not> t \<le> e) R)) \<and> e \<le> elapsed now2 q \<and>
      (R \<noteq> [] \<and> snd (hd R) \<le> elapsed now2 q \<longrightarrow> snd (hd R) \<le> e)" for w
  proof (cases "R \<noteq> [] \<and> snd (hd R) = 0")
    case True
    with d(4) have "q1 = q" by simp
    with True HandleAlarm_rep [of exec run, OF assms(1,2) c(2,3), of w] show ?thesis
      by (auto intro!: exI [of _ 0])
  next
    case False
    let ?R = "due_elapse (elapsed now1 q) R"
    from False d(4) have s: "synchronize now1 q = Some q1" by (simp split: if_splits)
    with synchronize_rep [OF assms(2) c(1) e1] have q1: "dq_rep q1 ?R" "m_lastSyncTime q1 = now1"
        "horizon q1 ?R = horizon q R - elapsed now1 q" "bcs (dq_heap q1) = bcs (dq_heap q)" by auto
    note later = clock_ok_later [OF assms(3) q1(2)]
    define a where "a = (if ?R \<noteq> [] \<and> snd (hd ?R) = 0 then 0 else elapsed now2 q1)"
    have "elapsed now2 q1 < horizon q1 ?R" using c(3) later(2,3) q1(3) by simp
    from HandleAlarm_rep [of exec run, OF assms(1) q1(1) later(1) this, of w, folded a_def]
    obtain q2 where q2: "HandleAlarm exec now2 (q1, w) = Some (q2, run_callbacks run (bcs (dq_heap q))
          (map fst (filter (\<lambda>(x, t). t \<le> elapsed now1 q + a) R)) w)"
        "dq_rep q2 (due_elapse (elapsed now1 q + a) (filter (\<lambda>(x, t). \<not> t \<le> elapsed now1 q + a) R))"
      unfolding q1(4) filter_due_elapse by blast
    have "elapsed now1 q + a \<le> elapsed now2 q" using later(2,3) by (simp add: a_def)
    moreover have "R \<noteq> [] \<and> snd (hd R) \<le> elapsed now2 q \<longrightarrow> snd (hd R) \<le> elapsed now1 q + a"
      using later(2,3) by (cases R) (auto simp: a_def due_elapse_def)
    ultimately show ?thesis using q2 by blast
  qed
  with d(1-3) show ?thesis by blast
qed


lemma on_queue_flag:
  assumes "\<And>c sw. exec c sw = Some (on_flag (f c) sw)"
  shows "on_queue exec c (q, sw) = Some (q, on_flag (f c) sw)"
  by (cases sw) (simp add: on_queue_def assms on_flag_def split_beta)

lemma on_handlers_flag:
  assumes "\<And>c ff sw. exec_bg c ff sw = Some (on_flag (g c ff) sw)"
  shows "on_handlers exec_bg c ff (h, sw) = Some (h, on_flag (g c ff) sw)"
  by (cases sw) (simp add: on_handlers_def assms on_flag_def split_beta)

lemma clip_delay_le: "tv_norm d \<Longrightarrow> tv_us (clip_delay d) \<le> tv_us d \<and> tv_sec (clip_delay d) \<le> MILLION"
  by (auto simp: clip_delay_def tv_us_def tv_norm_def MILLION_def)

lemma hs_table_of_rep:
  assumes "hs_rep s L" "distinct (map fst L)" "\<forall>x \<in> set L. 0 < fst x" "finite (dom (hs_heap s))"
  shows "hs_table s (map_of L)"
  using assms by (auto simp: hs_table_def)

text \<open>The part of a step before the alarms.\<close>

lemma step_io:
  assumes "\<And>c ff sw. exec_bg c ff sw = Some (on_flag (g c ff) sw)"
    and "hs_rep h L" "\<forall>x \<in> set L. 0 < fst x \<and> fst x < 1024"
  shows "CallHandlers (on_handlers exec_bg) r w e (h, sw) =
    Some (h, on_flag (fold (\<lambda>(c, ff). g c ff) (calls r w e L)) sw)"
proof -
  have "\<forall>x \<in> set L. 0 \<le> fst x \<and> fst x < 1024" using assms(3) by auto
  from CallHandlers_calls [OF assms(2) this, of "on_handlers exec_bg" "\<lambda>c ff. on_flag (g c ff)"]
  show ?thesis using on_handlers_flag [of exec_bg g, OF assms(1)] by (simp add: fold_on_flag)
qed

lemma SetupHandleSet_list:
  assumes "hs_rep h L" "distinct (map fst L)" "\<forall>x \<in> set L. 0 < fst x \<and> fst x < 1024" "finite (dom (hs_heap h))"
  shows "SetupHandleSet h = Some (Max (insert 0 (fds_for HIT_TEST L)),
    fds_for HIT_READ L, fds_for HIT_WRITE L, fds_for HIT_EXCEP L)"
proof -
  have t: "hs_table h (map_of L)" using assms by (intro hs_table_of_rep) auto
  have "\<forall>fd \<in> monitored (map_of L) HIT_TEST. fd < 1024"
    using assms(3) unfolding fds_for_monitored [OF assms(2), symmetric] by (auto simp: fds_for_def)
  from SetupHandleSet_sets [OF t this] show ?thesis by (simp only: fds_for_monitored [OF assms(2)])
qed

lemma singleStep_run:
  assumes "TimeToNextAlarm now1 (m_task_queue s) = Some (d, q1)" "SetupHandleSet (m_handlers s) = Some (mfd, r0, w0, e0)"
    and "sel (mfd + 1) r0 w0 e0 (clip_delay d) = (res, r, w, e)" "0 \<le> res"
    and "(if res > 0 then CallHandlers (on_handlers exec_bg) r w e (m_handlers s, (s\<lparr>m_task_queue := q1\<rparr>, x))
      else Some (m_handlers s, (s\<lparr>m_task_queue := q1\<rparr>, x))) = Some (h, (s1, x1))"
    and "TriggeUpAll exec (s1\<lparr>m_handlers := h\<rparr>, x1) = Some (s2, x2)"
    and "HandleAlarm (on_queue exec) now2 (m_task_queue s2, (s2, x2)) = Some (q2, (s3, x3))"
  shows "singleStep exec exec_bg sel now1 now2 (s, x) = Some (Done (s3\<lparr>m_task_queue := q2\<rparr>, x3))"
  using assms by (auto simp: singleStep_def split: if_splits)



lemma map_filter_replicate_None [simp]: "List.map_filter id (replicate n None) = []"
  by (induction n) simp_all

definition stop_scheduler :: "nat Scheduler" where
  "stop_scheduler = \<lparr>m_quit = False, m_task_queue = \<lparr>dq_self = 0, dq_heap =
         [0 \<mapsto> \<lparr>m_next = Some 1, m_prev = Some 1, m_deltaTimeRemaining = Timeval_new 9 0, m_bc = None\<rparr>,
          1 \<mapsto> \<lparr>m_next = Some 0, m_prev = Some 0, m_deltaTimeRemaining = Timeval_new 2 0, m_bc = Some 10\<rparr>],
         m_lastSyncTime = Timeval_new 4 0\<rparr>,
       m_handlers = two_handlers, m_trigers = Some 20 # replicate 127 None\<rparr>"



text \<open>Scheduling a task: it becomes due the given number of microseconds from now, behind the tasks that are due no
  later, whatever the 64-bit delay (split into seconds and microseconds); nothing else of the scheduler
  changes but the time that passed for the tasks already pending.\<close>

lemma tv_us_split: "tv_us (Timeval_new (uint us div MILLION) (uint us mod MILLION)) = unat us"
  "tv_norm (Timeval_new (uint us div MILLION) (uint us mod MILLION))"
  by (simp_all add: tv_us_def tv_norm_def Timeval_new_def MILLION_def mult.commute [of _ 1000000]
      pos_imp_zdiv_nonneg_iff)

theorem ScheduleDelayTask_due:
  assumes "dq_rep (m_task_queue s) R" "clock_ok now (m_task_queue s)"
    and "a \<notin> set (dq_self (m_task_queue s) # map fst R)"
    and "elapsed now (m_task_queue s) + unat us < horizon (m_task_queue s) R"
  shows "\<exists>q. ScheduleDelayTask a now s us proc = Some (s\<lparr>m_task_queue := q\<rparr>) \<and>
    dq_rep q (due_insert a (unat us) (due_elapse (elapsed now (m_task_queue s)) R)) \<and> bcs (dq_heap q) a = proc"
proof -
  let ?d = "Timeval_new (uint us div MILLION) (uint us mod MILLION)"
  let ?q = "AlterHandler_new (m_task_queue s) a ?d proc"
  note alt = dq_rep_AlterHandler [OF assms(1,3), of ?d proc]
  have el: "elapsed now ?q = elapsed now (m_task_queue s)" "clock_ok now ?q" "bcs (dq_heap ?q) a = proc"
    using assms(2) by (simp_all add: elapsed_def clock_ok_def alt(3))
      (simp add: bcs_def AlterHandler_new_def DelayQueueEntry_new_def)
  have pre: "a \<notin> set (dq_self ?q # map fst R)" "entry_ok (dq_heap ?q) a"
    "elapsed now ?q + delta (dq_heap ?q) a < horizon ?q R"
    using assms(3,4) unfolding alt(2,4,5,6) el tv_us_split by (simp_all add: tv_us_split)
  from AddEntry_rep [OF alt(1) el(2) pre] el(1,3) show ?thesis
    by (auto simp: ScheduleDelayTask_def Let_def alt(5) tv_us_split)
qed

theorem ScheduleDelayTask_due_witness:
  "\<exists>q. ScheduleDelayTask 7 (Timeval_new 5 0) stop_scheduler 1500000 (Some 3) = Some (stop_scheduler\<lparr>m_task_queue := q\<rparr>) \<and>
    dq_rep q [(1, 1000000), (7, 1500000)]"
proof -
  let ?q = "m_task_queue stop_scheduler"
  have r: "ring ?q [1]" "remaining ?q [1] = [(1, 2000000)]" "span ?q [1] \<le> tv_us ETERNITY"
    by (simp_all add: stop_scheduler_def ring_def nxt_def prv_def entry_ok_def remaining_def delta_def span_def deltas_def
        tv_norm_def tv_us_def Timeval_new_def MILLION_def ETERNITY_def LONG_MAX_def)
  have e: "elapsed (Timeval_new 5 0) ?q = 1000000" "clock_ok (Timeval_new 5 0) ?q" "span ?q [1] = 11000000" "dq_self ?q = 0"
    by (simp_all add: stop_scheduler_def elapsed_def clock_ok_def tv_us_def tv_norm_def Timeval_new_def MILLION_def
        span_def deltas_def delta_def)
  have h: "horizon ?q [(Suc 0, 2000000)] = 11000000" using dq_repI(2) [OF r] e by simp
  from ScheduleDelayTask_due [OF dq_repI(1) [OF r] e(2), of 7 1500000 "Some 3"] show ?thesis
    by (auto simp: e h due_insert_def due_elapse_def)
qed

lemma length_takeWhile_None: "None \<in> set ts \<Longrightarrow> length (takeWhile (\<lambda>t. t \<noteq> None) ts) < length ts"
  by (induction ts) auto

text \<open>Trigger slots. Creating a trigger takes the lowest free of the 128 slots and changes no other; with
  all slots taken it returns -1 and changes nothing. Removing the trigger just created restores the set, and
  an identifier out of range is ignored.\<close>

theorem trigger_slots:
  assumes "length (m_trigers s) = max_trigger_count" "CreateTrigger s (Some c) = (tid, s')"
  shows "(tid = - 1 \<longrightarrow> s' = s \<and> None \<notin> set (m_trigers s)) \<and>
    (tid \<noteq> - 1 \<longrightarrow> 0 \<le> tid \<and> tid < 128 \<and> m_trigers s ! nat tid = None \<and>
      (\<forall>j < nat tid. m_trigers s ! j \<noteq> None) \<and> s' = s\<lparr>m_trigers := (m_trigers s)[nat tid := Some c]\<rparr>) \<and>
    RemoveTrigger s' tid = s \<and> length (m_trigers s') = max_trigger_count"
proof (cases "None \<in> set (m_trigers s)")
  case False
  with assms(2) have "tid = - 1" "s' = s"
    by (auto simp: CreateTrigger_def TriggerSet_CreateTrigger_def CreateTrigger_loop_spec)
  with False assms(1) show ?thesis by (simp add: RemoveTrigger_def TriggerSet_RemoveTrigger_def)
next
  case True
  let ?ts = "m_trigers s"
  let ?n = "length (takeWhile (\<lambda>t. t \<noteq> None) ?ts)"
  have n: "?n < length ?ts" by (rule length_takeWhile_None [OF True])
  have free: "?ts ! ?n = None" using nth_length_takeWhile [OF n] by simp
  have below: "\<forall>j < ?n. ?ts ! j \<noteq> None"
    by (metis (mono_tags, lifting) nth_mem set_takeWhileD takeWhile_nth)
  have res: "tid = int ?n" "s' = s\<lparr>m_trigers := ?ts[?n := Some c]\<rparr>"
    using True assms(2) by (auto simp: CreateTrigger_def TriggerSet_CreateTrigger_def CreateTrigger_loop_spec)
  have "?ts[?n := None] = ?ts" by (metis free list_update_id)
  with res n free below assms(1) show ?thesis
    by (simp add: RemoveTrigger_def TriggerSet_RemoveTrigger_def max_trigger_count_def)
qed

theorem trigger_slots_witness:
  "\<exists>s'. CreateTrigger stop_scheduler (Some 30) = (1, s') \<and> m_trigers s' ! 1 = Some 30 \<and> RemoveTrigger s' 1 = stop_scheduler"
proof -
  let ?ts = "m_trigers stop_scheduler"
  have m: "?ts = Some 20 # replicate 127 None" by (simp add: stop_scheduler_def)
  have len: "length ?ts = max_trigger_count" unfolding m by (simp add: max_trigger_count_def)
  have r: "replicate 127 None = (None :: nat option) # replicate 126 None"
    using replicate_Suc [of 126 "None :: nat option"] by (simp del: replicate_Suc)
  have c: "CreateTrigger stop_scheduler (Some 30) =
      (1, stop_scheduler\<lparr>m_trigers := Some 20 # Some 30 # replicate 126 None\<rparr>)"
    by (simp add: CreateTrigger_def TriggerSet_CreateTrigger_def m r)
  have "RemoveTrigger (stop_scheduler\<lparr>m_trigers := Some 20 # Some 30 # replicate 126 None\<rparr>) 1 = stop_scheduler"
    using trigger_slots [OF len c] by blast
  with c show ?thesis by (intro exI conjI) (assumption, simp_all)
qed

text \<open>The event loop returns exactly when some step leaves the stop flag set: it makes step after step
  while the flag is clear and returns the state in which the flag was found set.\<close>

inductive loop_run ::
    "('c, 'w) callback \<Rightarrow> ('c \<Rightarrow> flags_t \<Rightarrow> ('c, 'w) world \<Rightarrow> ('c, 'w) world option)
       \<Rightarrow> (nat \<Rightarrow> select_call \<times> Timeval \<times> Timeval) \<Rightarrow> nat \<Rightarrow> ('c, 'w) world \<Rightarrow> ('c, 'w) world \<Rightarrow> bool"
  for exec exec_bg env where
  stopped: "m_quit (fst sw) \<Longrightarrow> loop_run exec exec_bg env i sw sw"
| step: "\<not> m_quit (fst sw) \<Longrightarrow>
    singleStep exec exec_bg (fst (env i)) (fst (snd (env i))) (snd (snd (env i))) sw = Some (Done sw1) \<Longrightarrow>
    loop_run exec exec_bg env (i + 1) sw1 sw' \<Longrightarrow> loop_run exec exec_bg env i sw sw'"

theorem DoEventLoop_until_stopped:
  "DoEventLoop exec exec_bg env i sw = Some (Done sw') \<longleftrightarrow> loop_run exec exec_bg env i sw sw'"
proof
  show "loop_run exec exec_bg env i sw sw' \<Longrightarrow> DoEventLoop exec exec_bg env i sw = Some (Done sw')"
  proof (induction rule: loop_run.induct)
    case (step sw i sw1 sw')
    then show ?case by (simp add: DoEventLoop.simps [of _ _ _ i sw])
  qed (simp add: DoEventLoop.simps)
  have "DoEventLoop exec exec_bg env i sw = Some out \<Longrightarrow>
      (\<forall>sw'. out = Done sw' \<longrightarrow> loop_run exec exec_bg env i sw sw')" for out
  proof (rule DoEventLoop.raw_induct [where P = "\<lambda>exec exec_bg env i sw out. \<forall>sw'. out = Done sw' \<longrightarrow> loop_run exec exec_bg env i sw sw'", rotated])
    fix D :: "('a, 'b) callback \<Rightarrow> _" and exec exec_bg env i sw out
    assume IH: "\<And>exec exec_bg env i sw out. D exec exec_bg env i sw = Some out \<Longrightarrow>
          \<forall>sw'. out = Done sw' \<longrightarrow> loop_run exec exec_bg env i sw sw'"
      and run: "(if m_quit (fst sw) then Some (Done sw)
        else do { out \<leftarrow> singleStep exec exec_bg (fst (env i)) (fst (snd (env i))) (snd (snd (env i))) sw;
                  case out of Done sw \<Rightarrow> D exec exec_bg env (i + 1) sw | Aborted \<Rightarrow> Some Aborted }) = Some out"
    show "\<forall>sw'. out = Done sw' \<longrightarrow> loop_run exec exec_bg env i sw sw'"
    proof (cases "m_quit (fst sw)")
      case True
      with run show ?thesis by (auto intro: loop_run.stopped)
    next
      case False
      with run obtain r where r: "singleStep exec exec_bg (fst (env i)) (fst (snd (env i))) (snd (snd (env i))) sw = Some r"
        "(case r of Done sw \<Rightarrow> D exec exec_bg env (Suc i) sw | Aborted \<Rightarrow> Some Aborted) = Some out"
        by (auto simp: bind_eq_Some_conv)
      show ?thesis
      proof (cases r)
        case (Done sw1)
        with r IH [of exec exec_bg env "Suc i" sw1 out] loop_run.step [OF False] show ?thesis by auto
      qed (use r in auto)
    qed
  qed
  then show "DoEventLoop exec exec_bg env i sw = Some (Done sw') \<Longrightarrow> loop_run exec exec_bg env i sw sw'" by blast
qed

end
