(* ===== verification/Hui_Str.thy ===== *)
theory Hui_Str
  imports Hui_Prelude "HOL-Library.Monad_Syntax" "HOL-Library.Sublist"
begin

text \<open>
  The string class \<^verbatim>\<open>HStr\<close> of \<^verbatim>\<open>src/src/hstr.h\<close> and \<^verbatim>\<open>hstr.cpp\<close>, a subclass of \<^verbatim>\<open>std::string\<close>.

  A position that a search of \<^verbatim>\<open>std::string\<close> returns is an option, \<open>None\<close> for \<^verbatim>\<open>npos\<close>; where the code
  computes with the position, \<open>size_of_pos\<close> gives the 64-bit value. \<^verbatim>\<open>substr\<close> throws when it starts
  beyond the end, which is \<open>None\<close>, and so is a loop that does not end.
\<close>

subsection \<open>What the code uses of std::string\<close>

definition npos :: nat where
  "npos = 2 ^ 64 - 1"

definition size_of_pos :: "nat option \<Rightarrow> nat" where
  "size_of_pos p = (case p of None \<Rightarrow> npos | Some i \<Rightarrow> i)"

fun str_index :: "string \<Rightarrow> string \<Rightarrow> nat option" where
  "str_index key s =
     (if prefix key s then Some 0
      else case s of [] \<Rightarrow> None | _ # t \<Rightarrow> map_option Suc (str_index key t))"

declare str_index.simps [simp del]

definition str_find :: "string \<Rightarrow> string \<Rightarrow> nat \<Rightarrow> nat option" where
  "str_find s key pos =
     (if pos \<le> length s then map_option (\<lambda>i. pos + i) (str_index key (drop pos s)) else None)"

definition str_substr :: "string \<Rightarrow> nat \<Rightarrow> nat \<Rightarrow> string option" where
  "str_substr s pos n = (if pos \<le> length s then Some (take n (drop pos s)) else None)"

definition find_first_not_of :: "string \<Rightarrow> string \<Rightarrow> nat option" where
  "find_first_not_of s cs =
     (let i = length (takeWhile (\<lambda>c. c \<in> set cs) s) in if i < length s then Some i else None)"

definition find_last_not_of :: "string \<Rightarrow> string \<Rightarrow> nat option" where
  "find_last_not_of s cs =
     (let i = length (dropWhile (\<lambda>c. c \<in> set cs) (rev s)) in if i = 0 then None else Some (i - 1))"

definition str_replace :: "string \<Rightarrow> nat \<Rightarrow> nat \<Rightarrow> string \<Rightarrow> string" where
  "str_replace s pos len r = take pos s @ r @ drop (pos + len) s"

definition c_str :: "string \<Rightarrow> string" where
  "c_str s = takeWhile (\<lambda>c. c \<noteq> CHR 0x00) s"

subsection \<open>Splitting and joining\<close>

partial_function (option) Split_loop :: "string \<Rightarrow> string \<Rightarrow> nat \<Rightarrow> string list \<Rightarrow> (nat \<times> string list) option" where
  "Split_loop s key beg res =
     (case str_find s key beg of
        None \<Rightarrow> Some (beg, res)
      | Some pos \<Rightarrow> do { part \<leftarrow> str_substr s beg (pos - beg);
                         Split_loop s key (pos + length key) (res @ [part]) })"

text \<open>The loop ends with \<open>pos = npos\<close>, which is what the test after it compares.\<close>

definition HStr_Split :: "string \<Rightarrow> string \<Rightarrow> string list \<Rightarrow> nat \<Rightarrow> (RET_T \<times> string list) option" where
  "HStr_Split s key res beg =
     (if s = [] \<or> key = [] then Some (INVL_PARA, res)
      else do { (beg, res) \<leftarrow> Split_loop s key beg res;
                if npos \<noteq> size_sub (length s) 1
                then do { part \<leftarrow> str_substr s beg npos; Some (ERR_OK, res @ [part]) }
                else Some (ERR_OK, res) })"

definition V2Str :: "string list \<Rightarrow> string \<Rightarrow> string" where
  "V2Str strs l =
     (let res = concat (map (\<lambda>s. s @ l) strs)
      in if l \<noteq> [] then take (size_sub (length res) 1) res else res)"

subsection \<open>Trimming and case\<close>

definition s_tr_str :: string where
  "s_tr_str = [CHR '' '', CHR 0x0A, CHR 0x0D, CHR 0x09]"

definition tr_chars :: "string option \<Rightarrow> string" where
  "tr_chars csz = s_tr_str @ (case csz of None \<Rightarrow> [] | Some cs \<Rightarrow> cs)"

definition Ltrim :: "string option \<Rightarrow> string \<Rightarrow> string" where
  "Ltrim csz s =
     (case find_first_not_of s (tr_chars csz) of
        None \<Rightarrow> []
      | Some pos \<Rightarrow> if pos \<noteq> 0 then drop pos s else s)"

definition Rtrim :: "string option \<Rightarrow> string \<Rightarrow> string" where
  "Rtrim csz s = take ((size_of_pos (find_last_not_of s (tr_chars csz)) + 1) mod 2 ^ 64) s"

definition Trim :: "string option \<Rightarrow> string \<Rightarrow> string" where
  "Trim csz s = Rtrim csz (Ltrim csz s)"

text \<open>\<^verbatim>\<open>toupper\<close> and \<^verbatim>\<open>tolower\<close> of the C locale.\<close>

definition toupper :: "char \<Rightarrow> char" where
  "toupper c = (if 97 \<le> (of_char c :: nat) \<and> (of_char c :: nat) \<le> 122 then char_of ((of_char c :: nat) - 32) else c)"

definition tolower :: "char \<Rightarrow> char" where
  "tolower c = (if 65 \<le> (of_char c :: nat) \<and> (of_char c :: nat) \<le> 90 then char_of ((of_char c :: nat) + 32) else c)"

definition HStr_Upper :: "string \<Rightarrow> string" where
  "HStr_Upper s = map toupper s"

definition HStr_Lower :: "string \<Rightarrow> RET_T \<times> string" where
  "HStr_Lower s = (ERR_OK, map tolower s)"

subsection \<open>Tests\<close>

definition IsAllDigit :: "string \<Rightarrow> bool" where
  "IsAllDigit s \<longleftrightarrow> find_first_not_of s ''1234567890'' = None"

definition IsAllDigitAndDos :: "string \<Rightarrow> bool" where
  "IsAllDigitAndDos s \<longleftrightarrow> find_first_not_of s ''1234567890.'' = None"

definition IsAllDigitAndChar :: "string \<Rightarrow> bool" where
  "IsAllDigitAndChar s \<longleftrightarrow>
     find_first_not_of s ''1234567890abcdefghijklmnopqrstuvwxyzABCDEFGHIJKLMNOPQRSTUVWXYZ'' = None"

definition IsIn :: "string \<Rightarrow> string \<Rightarrow> bool" where
  "IsIn src key \<longleftrightarrow> str_find src key 0 \<noteq> None"

definition IsBeginWith :: "string \<Rightarrow> string \<Rightarrow> bool" where
  "IsBeginWith src key \<longleftrightarrow> str_find src key 0 = Some 0"

definition IsEndWith :: "string \<Rightarrow> string \<Rightarrow> bool" where
  "IsEndWith src key \<longleftrightarrow>
     size_of_pos (str_find src key 0) = size_sub (size_sub (length src) (length key)) 1"

subsection \<open>Removing and replacing\<close>

definition RemoveRight :: "string \<Rightarrow> nat \<Rightarrow> string" where
  "RemoveRight s len = (if len \<ge> length s then [] else take (length s - len) s)"

definition RemoveLeft :: "string \<Rightarrow> nat \<Rightarrow> string" where
  "RemoveLeft s len = (if len > length s then [] else drop len s)"

definition HStr_Replace :: "string \<Rightarrow> string \<Rightarrow> string \<Rightarrow> RET_T \<times> string" where
  "HStr_Replace src srcKey dstKey =
     (if src = [] \<or> srcKey = [] \<or> dstKey = [] then (INVL_PARA, src)
      else case str_find src srcKey 0 of
        None \<Rightarrow> (OVER_FLOW, src)
      | Some pos \<Rightarrow> (ERR_OK, str_replace src pos (length srcKey) dstKey))"

partial_function (option) Replaces_loop :: "string \<Rightarrow> string \<Rightarrow> string \<Rightarrow> string option" where
  "Replaces_loop src srcKey dstKey =
     (case HStr_Replace src srcKey dstKey of
        (cb, src) \<Rightarrow> if IS_OK cb then Replaces_loop src srcKey dstKey else Some src)"

definition HStr_Replaces :: "string \<Rightarrow> string \<Rightarrow> string \<Rightarrow> (RET_T \<times> string) option" where
  "HStr_Replaces src srcKey dstKey = map_option (\<lambda>s. (ERR_OK, s)) (Replaces_loop src srcKey dstKey)"

definition HStr_Remove :: "string \<Rightarrow> string \<Rightarrow> RET_T \<times> string" where
  "HStr_Remove src strKey =
     (if src = [] \<or> strKey = [] then (INVL_PARA, src)
      else case str_find src strKey 0 of
        None \<Rightarrow> (OVER_FLOW, src)
      | Some pos \<Rightarrow> (ERR_OK, str_replace src pos (length strKey) []))"

partial_function (option) Removes_loop :: "string \<Rightarrow> string \<Rightarrow> string option" where
  "Removes_loop src strKey =
     (case HStr_Remove src strKey of
        (cb, src) \<Rightarrow> if IS_OK cb then Removes_loop src strKey else Some src)"

definition HStr_Removes :: "string \<Rightarrow> string \<Rightarrow> (RET_T \<times> string) option" where
  "HStr_Removes src strKey = map_option (\<lambda>s. (ERR_OK, s)) (Removes_loop src strKey)"

subsection \<open>Counting and formatting\<close>

lemma str_index_Some_le: "str_index key s = Some i \<Longrightarrow> i + length key \<le> length s"
proof (induction s arbitrary: i)
  case (Cons c s)
  then show ?case
    by (auto simp: str_index.simps [of key "c # s"] prefix_length_le split: if_splits)
      (use prefix_length_le in fastforce)
qed (auto simp: str_index.simps [of key "[]"] split: if_splits)

lemma str_find_Some_le: "str_find s key pos = Some i \<Longrightarrow> pos \<le> i \<and> i + length key \<le> length s"
  using str_index_Some_le by (fastforce simp: str_find_def split: if_splits)

function Counter_loop :: "string \<Rightarrow> string \<Rightarrow> nat \<Rightarrow> nat \<Rightarrow> nat" where
  "Counter_loop src key pos res =
     (case str_find src key pos of
        None \<Rightarrow> res
      | Some pos' \<Rightarrow> if pos' < length src then Counter_loop src key (pos' + 1) (res + 1) else res)"
  by pat_completeness auto
termination
  by (relation "measure (\<lambda>(src, _, pos, _). length src - pos)") (auto dest!: str_find_Some_le)

declare Counter_loop.simps [simp del]

definition Counter :: "string \<Rightarrow> string \<Rightarrow> nat" where
  "Counter src key = Counter_loop src key 0 0"

text \<open>One byte with \<^verbatim>\<open>%02X\<close>.\<close>

definition hex_digit_upper :: "nat \<Rightarrow> char" where
  "hex_digit_upper n = ''0123456789ABCDEF'' ! n"

text \<open>The macro that guards \<^verbatim>\<open>vasprintf\<close> is misspelt, so \<^verbatim>\<open>vsprintf\<close> writes the formatted text with its final NUL into a
  buffer of \<open>HSTRING_LEN\<close> characters on the stack. The operations get what the format and its arguments expand to;
  overrunning the buffer is \<open>None\<close>.\<close>

definition HWORD_LEN :: nat where "HWORD_LEN = 128"

definition HSTRING_LEN :: nat where "HSTRING_LEN = HWORD_LEN * 16"

definition vFormat :: "string \<Rightarrow> string option" where
  "vFormat expanded = (if length expanded < HSTRING_LEN then Some (c_str expanded) else None)"

definition HStr_Format :: "string \<Rightarrow> string option" where
  "HStr_Format expanded = vFormat expanded"

definition AppendFormat :: "string \<Rightarrow> string \<Rightarrow> string option" where
  "AppendFormat s expanded = map_option (\<lambda>newstr. s @ newstr) (vFormat expanded)"

definition ToHexString :: "string \<Rightarrow> HMEM \<Rightarrow> string" where
  "ToHexString s data = s @ concat (map (\<lambda>b. [hex_digit_upper (unat b div 16), hex_digit_upper (unat b mod 16)]) data)"

lemma c_str_id: "CHR 0x00 \<notin> set s \<Longrightarrow> c_str s = s"
  unfolding c_str_def by (rule takeWhile_eq_all_conv [THEN iffD2]) auto

subsection \<open>Searching\<close>

lemma str_index_SomeD:
  "str_index key s = Some i \<Longrightarrow> prefix key (drop i s) \<and> (\<forall>j < i. \<not> prefix key (drop j s))"
proof (induction s arbitrary: i)
  case (Cons c s)
  show ?case
  proof (cases "prefix key (c # s)")
    case False
    with Cons.prems obtain k where k: "str_index key s = Some k" "i = Suc k"
      by (auto simp: str_index.simps [of key "c # s"])
    with Cons.IH [OF k(1)] False show ?thesis by (auto simp: less_Suc_eq_0_disj)
  qed (use Cons.prems in \<open>auto simp: str_index.simps [of key "c # s"]\<close>)
qed (auto simp: str_index.simps [of key "[]"] split: if_splits)

lemma str_index_None_iff: "str_index key s = None \<longleftrightarrow> \<not> sublist key s"
proof (induction s)
  case (Cons c s)
  then show ?case by (auto simp: str_index.simps [of key "c # s"] sublist_Cons_right)
qed (simp add: str_index.simps [of key "[]"])

lemma str_find_0: "str_find s key 0 = str_index key s"
  by (cases "str_index key s") (simp_all add: str_find_def)

lemma str_find_0_None: "\<not> sublist key s \<Longrightarrow> str_find s key 0 = None"
  by (simp add: str_find_0 str_index_None_iff)

lemma str_find_0_cases:
  assumes "sublist key s"
  obtains i where "str_find s key 0 = Some i"
  using assms str_index_None_iff [of key s] by (auto simp: str_find_0)

lemma str_index_append_key: "str_index [c] (p @ c # s) = Some (length p)" if "c \<notin> set p"
  using that
proof (induction p)
  case (Cons d p)
  then show ?case by (simp add: str_index.simps [of "[c]" "d # p @ c # s"])
qed (simp add: str_index.simps)

lemma str_index_absent: "str_index [c] p = None \<longleftrightarrow> c \<notin> set p"
  by (simp add: str_index_None_iff sublist_def in_set_conv_decomp)

subsection \<open>Splitting against a reference\<close>

text \<open>Cut at the first occurrence of the key, and go on behind it.\<close>

function split_ref :: "string \<Rightarrow> string \<Rightarrow> string list" where
  "split_ref key s =
     (if key = [] then [s]
      else case str_index key s of
        None \<Rightarrow> [s]
      | Some i \<Rightarrow> take i s # split_ref key (drop (i + length key) s))"
  by pat_completeness auto
termination
proof (relation "measure (\<lambda>(_, s). length s)")
  fix key s :: string and i
  assume "key \<noteq> []" "str_index key s = Some i"
  then show "((key, drop (i + length key) s), key, s) \<in> measure (\<lambda>(_, s). length s)"
    using str_index_Some_le [of key s i] by (cases key) auto
qed simp

declare split_ref.simps [simp del]

fun join_by :: "string \<Rightarrow> string list \<Rightarrow> string" where
  "join_by key [] = []"
| "join_by key [p] = p"
| "join_by key (p # ps) = p @ key @ join_by key ps"

lemma split_ref_ne [simp]: "split_ref key s \<noteq> []"
  by (subst split_ref.simps) (simp split: option.split)

lemma join_by_Cons: "ps \<noteq> [] \<Longrightarrow> join_by key (p # ps) = p @ key @ join_by key ps"
  by (cases ps) simp_all

lemma join_split_ref: "join_by key (split_ref key s) = s"
proof (induction key s rule: split_ref.induct)
  case (1 key s)
  show ?case
  proof (cases "key = [] \<or> str_index key s = None")
    case False
    then obtain i where i: "str_index key s = Some i" and ne: "key \<noteq> []" by auto
    have "s = take i s @ key @ drop (i + length key) s"
      using str_index_SomeD [OF i] by (metis append_take_drop_id append_eq_conv_conj prefixE drop_drop add.commute)
    with 1 ne i show ?thesis by (subst split_ref.simps) (simp add: join_by_Cons)
  qed (auto simp: split_ref.simps)
qed

lemma not_sublist_take:
  assumes "str_index key s = Some i" "key \<noteq> []"
  shows "\<not> sublist key (take i s)"
proof
  assume "sublist key (take i s)"
  then obtain us ws where u: "take i s = us @ key @ ws" by (auto simp: sublist_def)
  have "length (us @ key @ ws) \<le> i" unfolding u [symmetric] by simp
  with assms(2) have "length us < i" by (cases key) auto
  moreover have "s = us @ key @ ws @ drop i s" by (metis append.assoc append_take_drop_id u)
  then have "prefix key (drop (length us) s)" by (metis append_eq_conv_conj prefixI)
  ultimately show False using str_index_SomeD [OF assms(1)] by blast
qed

lemma split_ref_clean: "key \<noteq> [] \<Longrightarrow> p \<in> set (split_ref key s) \<Longrightarrow> \<not> sublist key p"
proof (induction key s rule: split_ref.induct)
  case (1 key s)
  show ?case
  proof (cases "str_index key s")
    case None
    with 1 show ?thesis by (auto simp: split_ref.simps str_index_None_iff [symmetric])
  next
    case (Some i)
    with 1 not_sublist_take [OF Some] show ?thesis by (subst (asm) (2) split_ref.simps) auto
  qed
qed

lemma split_ref_join:
  assumes "ps \<noteq> []" "\<forall>p \<in> set ps. c \<notin> set p"
  shows "split_ref [c] (join_by [c] ps) = ps"
  using assms
proof (induction "[c]" ps rule: join_by.induct)
  case (2 p)
  then have "str_index [c] p = None" by (simp add: str_index_absent)
  then show ?case by (simp add: split_ref.simps [of _ p])
next
  case (3 p q ps)
  then have i: "str_index [c] (p @ c # join_by [c] (q # ps)) = Some (length p)"
    by (intro str_index_append_key) simp
  from 3 show ?case by (subst split_ref.simps) (simp add: i)
qed simp

lemma Split_loop_ref:
  assumes "key \<noteq> []" "beg \<le> length s"
  shows "\<exists>beg' ps. Split_loop s key beg res = Some (beg', res @ ps) \<and> beg' \<le> length s \<and>
    split_ref key (drop beg s) = ps @ [drop beg' s]"
  using assms(2)
proof (induction "length s - beg" arbitrary: beg res rule: less_induct)
  case less
  show ?case
  proof (cases "str_index key (drop beg s)")
    case None
    with less(2) assms(1) show ?thesis
      by (auto simp: Split_loop.simps [of s key beg] str_find_def split_ref.simps [of key "drop beg s"])
  next
    case (Some i)
    let ?b = "beg + i + length key"
    have le: "?b \<le> length s" using str_index_Some_le [OF Some] less(2) by simp
    have "length s - ?b < length s - beg" using assms(1) le by (cases key) auto
    from less(1) [OF this le, of "res @ [take i (drop beg s)]"] obtain beg' ps where IH:
      "Split_loop s key ?b (res @ [take i (drop beg s)]) = Some (beg', (res @ [take i (drop beg s)]) @ ps)"
      "beg' \<le> length s" "split_ref key (drop ?b s) = ps @ [drop beg' s]" by blast
    have "Split_loop s key beg res = Some (beg', res @ take i (drop beg s) # ps)"
      using IH(1) Some less(2) by (subst Split_loop.simps) (simp add: str_find_def str_substr_def)
    moreover have "split_ref key (drop beg s) = take i (drop beg s) # ps @ [drop beg' s]"
      using IH(3) Some assms(1) by (subst split_ref.simps) (simp add: add.commute add.left_commute)
    ultimately show ?thesis using IH(2) by (intro exI [of _ beg'] exI [of _ "take i (drop beg s) # ps"]) simp
  qed
qed

lemma HStr_Split_ref:
  assumes "s \<noteq> []" "key \<noteq> []" "length s \<le> npos" "beg \<le> length s"
  shows "HStr_Split s key res beg = Some (ERR_OK, res @ split_ref key (drop beg s))"
proof -
  obtain beg' ps where l: "Split_loop s key beg res = Some (beg', res @ ps)" "beg' \<le> length s"
      "split_ref key (drop beg s) = ps @ [drop beg' s]"
    using Split_loop_ref [OF assms(2,4)] by blast
  have "npos \<noteq> size_sub (length s) 1"
    using assms(1,3) by (cases s) (auto simp: npos_def)
  moreover have "take npos (drop beg' s) = drop beg' s" using assms(3) by simp
  ultimately show ?thesis using assms(1,2) l by (simp add: HStr_Split_def str_substr_def)
qed


subsection \<open>Trimming\<close>

lemma Ltrim_dropWhile: "Ltrim csz s = dropWhile (\<lambda>c. c \<in> set (tr_chars csz)) s"
proof -
  let ?P = "\<lambda>c. c \<in> set (tr_chars csz)"
  have "drop (length (takeWhile ?P s)) s = dropWhile ?P s" by (simp add: dropWhile_eq_drop)
  moreover have "length (takeWhile ?P s) \<le> length s" by (rule length_takeWhile_le)
  moreover have "dropWhile ?P s = []" if "\<not> length (takeWhile ?P s) < length s"
    using that calculation by simp
  ultimately show ?thesis
    by (auto simp: Ltrim_def find_first_not_of_def Let_def simp del: length_0_conv)
qed

lemma Rtrim_dropWhile:
  assumes "length s \<le> npos"
  shows "Rtrim csz s = rev (dropWhile (\<lambda>c. c \<in> set (tr_chars csz)) (rev s))"
proof -
  let ?d = "dropWhile (\<lambda>c. c \<in> set (tr_chars csz)) (rev s)"
  have s: "s = rev ?d @ rev (takeWhile (\<lambda>c. c \<in> set (tr_chars csz)) (rev s))"
    by (metis rev_append rev_rev_ident takeWhile_dropWhile_id)
  then have t: "take (length ?d) s = rev ?d" by (metis append_eq_conv_conj length_rev)
  have "length ?d \<le> length s" by (metis length_dropWhile_le length_rev)
  with assms have "length ?d < 2 ^ 64" by (simp add: npos_def)
  then show ?thesis
    using t by (cases "length ?d = 0") (auto simp: Rtrim_def find_last_not_of_def Let_def size_of_pos_def npos_def)
qed

lemma dropWhile_id: "dropWhile P (dropWhile P s) = dropWhile P s"
  by (metis dropWhile_eq_Nil_conv dropWhile_idem)

lemma Trim_eq:
  assumes "length s \<le> npos"
  shows "Trim csz s = rev (dropWhile (\<lambda>c. c \<in> set (tr_chars csz)) (rev (dropWhile (\<lambda>c. c \<in> set (tr_chars csz)) s)))"
proof -
  have "length (Ltrim csz s) \<le> npos"
    unfolding Ltrim_dropWhile using assms length_dropWhile_le [of _ s] by (meson le_trans)
  from Rtrim_dropWhile [OF this] show ?thesis by (simp add: Trim_def Ltrim_dropWhile)
qed

definition trimmed :: "string option \<Rightarrow> string \<Rightarrow> bool" where
  "trimmed csz s \<longleftrightarrow> s = [] \<or> hd s \<notin> set (tr_chars csz) \<and> last s \<notin> set (tr_chars csz)"

lemma Trim_trimmed: "length s \<le> npos \<Longrightarrow> trimmed csz s \<Longrightarrow> Trim csz s = s"
  unfolding Trim_eq trimmed_def by (cases "s = []") (simp_all add: dropWhile_eq_self_iff [THEN iffD2] hd_rev)

lemma Trim_split:
  assumes "length s \<le> npos"
  obtains us ws where "s = us @ Trim csz s @ ws" "set us \<subseteq> set (tr_chars csz)" "set ws \<subseteq> set (tr_chars csz)"
proof
  let ?P = "\<lambda>c. c \<in> set (tr_chars csz)"
  let ?d = "dropWhile ?P s"
  have "?d = rev (dropWhile ?P (rev ?d)) @ rev (takeWhile ?P (rev ?d))"
    by (metis rev_append rev_rev_ident takeWhile_dropWhile_id)
  then show "s = takeWhile ?P s @ Trim csz s @ rev (takeWhile ?P (rev ?d))"
    unfolding Trim_eq [OF assms] by (metis takeWhile_dropWhile_id)
  show "set (takeWhile ?P s) \<subseteq> set (tr_chars csz)" "set (rev (takeWhile ?P (rev ?d))) \<subseteq> set (tr_chars csz)"
    using set_takeWhileD by fastforce+
qed

lemma dropWhile_rev_hd:
  assumes "s \<noteq> []" "\<not> P (hd s)"
  shows "hd (rev (dropWhile P (rev s))) = hd s" "dropWhile P (rev s) \<noteq> []"
proof -
  obtain c t where s: "s = c # t" using assms(1) by (cases s) auto
  then have d: "dropWhile P (rev s) = (if \<exists>x \<in> set t. \<not> P x then dropWhile P (rev t) @ [c] else [c])"
    using assms(2) by (auto simp: dropWhile_append)
  then show "hd (rev (dropWhile P (rev s))) = hd s" "dropWhile P (rev s) \<noteq> []" using s by auto
qed

lemma trimmed_Trim:
  assumes "length s \<le> npos"
  shows "trimmed csz (Trim csz s)"
proof (cases "dropWhile (\<lambda>c. c \<in> set (tr_chars csz)) s = []")
  case True
  then have "Trim csz s = []" unfolding Trim_eq [OF assms] True by simp
  then show ?thesis by (simp add: trimmed_def)
next
  case False
  let ?P = "\<lambda>c. c \<in> set (tr_chars csz)"
  let ?d = "dropWhile ?P s"
  have hd: "\<not> ?P (hd ?d)" by (rule hd_dropWhile [OF False])
  note h = dropWhile_rev_hd [of ?d ?P, OF False hd]
  have "\<not> ?P (hd (dropWhile ?P (rev ?d)))" by (rule hd_dropWhile [OF h(2)])
  then have "\<not> ?P (last (rev (dropWhile ?P (rev ?d))))" using h(2) by (simp add: last_rev)
  with h hd show ?thesis by (simp add: trimmed_def Trim_eq [OF assms])
qed

subsection \<open>Removing all occurrences\<close>

lemma HStr_Remove_cases:
  obtains (stop) cb where "HStr_Remove src key = (cb, src)" "cb \<noteq> ERR_OK" "key \<noteq> [] \<longrightarrow> \<not> sublist key src"
  | (cut) src' where "HStr_Remove src key = (ERR_OK, src')" "length src' < length src"
proof (cases "src = [] \<or> key = [] \<or> \<not> sublist key src")
  case True
  then obtain cb where "HStr_Remove src key = (cb, src)" "cb \<noteq> ERR_OK"
    by (cases "src = [] \<or> key = []") (auto simp: HStr_Remove_def str_find_0_None)
  with True stop show thesis by auto
next
  case False
  then obtain i where i: "str_find src key 0 = Some i" by (auto elim: str_find_0_cases)
  have "length (str_replace src i (length key) []) < length src"
    using str_find_Some_le [OF i] False by (cases key) (auto simp: str_replace_def)
  with i False cut show thesis by (auto simp: HStr_Remove_def)
qed

lemma Removes_loop_total:
  "\<exists>s'. Removes_loop src key = Some s' \<and> (key \<noteq> [] \<longrightarrow> \<not> sublist key s')"
proof (induction "length src" arbitrary: src rule: less_induct)
  case less
  show ?case
  proof (cases rule: HStr_Remove_cases [of src key])
    case (stop cb)
    then show ?thesis by (subst Removes_loop.simps) simp
  next
    case (cut src')
    with less show ?thesis by (subst Removes_loop.simps) simp
  qed
qed

subsection \<open>Replacing\<close>

lemma HStr_Replace_keeps:
  assumes "sublist a src" "a \<noteq> []" "sublist a b"
  shows "\<exists>src'. HStr_Replace src a b = (ERR_OK, src') \<and> sublist a src'"
proof -
  obtain i where i: "str_find src a 0 = Some i"
    using assms(1) by (rule str_find_0_cases)
  have "src \<noteq> []" "b \<noteq> []" using assms by auto
  moreover have "sublist a (str_replace src i (length a) b)"
    using assms(3) by (auto simp: str_replace_def sublist_def) (metis append.assoc)
  ultimately show ?thesis using i assms(2) by (simp add: HStr_Replace_def)
qed

lemma Replaces_loop_diverges:
  assumes "sublist a src" "a \<noteq> []" "sublist a b"
  shows "Replaces_loop src a b = None"
proof (cases "Replaces_loop src a b")
  case (Some r)
  have "Replaces_loop src a b = Some r \<Longrightarrow> sublist a src \<and> a \<noteq> [] \<and> sublist a b \<longrightarrow> False" for r
  proof (rule Replaces_loop.raw_induct [where P = "\<lambda>src a b r. sublist a src \<and> a \<noteq> [] \<and> sublist a b \<longrightarrow> False", rotated])
    fix R :: "string \<Rightarrow> string \<Rightarrow> string \<Rightarrow> string option" and src a b r
    assume IH: "\<And>src a b r. R src a b = Some r \<Longrightarrow> sublist a src \<and> a \<noteq> [] \<and> sublist a b \<longrightarrow> False"
      and r: "(case HStr_Replace src a b of (cb, src) \<Rightarrow> if IS_OK cb then R src a b else Some src) = Some r"
    show "sublist a src \<and> a \<noteq> [] \<and> sublist a b \<longrightarrow> False"
      using HStr_Replace_keeps [of a src b] r IH by fastforce
  qed
  with Some assms show ?thesis by blast
qed

lemma Replaces_loop_shrinks:
  assumes "length b < length a"
  shows "\<exists>s'. Replaces_loop src a b = Some s' \<and> (b \<noteq> [] \<longrightarrow> \<not> sublist a s')"
proof (induction "length src" arbitrary: src rule: less_induct)
  case less
  have a: "a \<noteq> []" using assms by auto
  show ?case
  proof (cases "src = [] \<or> b = [] \<or> \<not> sublist a src")
    case True
    then obtain cb where "HStr_Replace src a b = (cb, src)" "cb \<noteq> ERR_OK"
      using a by (cases "src = [] \<or> b = []") (auto simp: HStr_Replace_def str_find_0_None)
    with True a show ?thesis by (subst Replaces_loop.simps) auto
  next
    case False
    then obtain i where i: "str_find src a 0 = Some i" by (auto elim: str_find_0_cases)
    let ?s = "str_replace src i (length a) b"
    have "length ?s < length src"
      using str_find_Some_le [OF i] assms by (simp add: str_replace_def)
    moreover have "HStr_Replace src a b = (ERR_OK, ?s)" using False a i by (simp add: HStr_Replace_def)
    ultimately show ?thesis using less by (subst Replaces_loop.simps) simp
  qed
qed

subsection \<open>Counting\<close>

definition occurrences :: "string \<Rightarrow> string \<Rightarrow> nat set" where
  "occurrences key s = {i. i < length s \<and> prefix key (drop i s)}"

lemma finite_occurrences [simp]: "finite {i \<in> occurrences key s. p \<le> i}"
  by (simp add: occurrences_def)

lemma Counter_loop_card:
  "pos \<le> length src \<Longrightarrow> Counter_loop src key pos res = res + card {i \<in> occurrences key src. pos \<le> i}"
proof (induction src key pos res rule: Counter_loop.induct)
  case (1 src key pos res)
  show ?case
  proof (cases "str_find src key pos")
    case None
    have "\<not> prefix key (drop i src)" if "pos \<le> i" for i
    proof -
      have "\<not> sublist key (drop pos src)" using None "1.prems" by (simp add: str_find_def str_index_None_iff)
      moreover have "sublist (drop i src) (drop pos src)"
        using that by (metis drop_drop le_add_diff_inverse2 suffix_drop suffix_imp_sublist)
      ultimately show ?thesis by (meson prefix_imp_sublist sublist_order.order_trans)
    qed
    then have "{i \<in> occurrences key src. pos \<le> i} = {}" by (auto simp: occurrences_def)
    with None show ?thesis by (simp add: Counter_loop.simps)
  next
    case (Some q)
    then obtain k where k: "q = pos + k" "str_index key (drop pos src) = Some k"
      using "1.prems" by (auto simp: str_find_def)
    have first: "prefix key (drop q src)" "\<And>i. pos \<le> i \<Longrightarrow> i < q \<Longrightarrow> \<not> prefix key (drop i src)"
      using str_index_SomeD [OF k(2)] k(1)
      by (auto simp: add.commute) (metis add_diff_inverse_nat add_less_cancel_left leD add.commute)
    show ?thesis
    proof (cases "q < length src")
      case True
      have "{i \<in> occurrences key src. pos \<le> i} = insert q {i \<in> occurrences key src. q + 1 \<le> i}"
        using first True k(1) by (auto simp: occurrences_def) (meson leI le_neq_implies_less not_less_eq_eq)+
      with True Some "1.IH" show ?thesis by (simp add: Counter_loop.simps [of src key pos])
    next
      case False
      then have "{i \<in> occurrences key src. pos \<le> i} = {}"
        using first(2) by (auto simp: occurrences_def)
      with False Some show ?thesis by (simp add: Counter_loop.simps [of src key pos])
    qed
  qed
qed


lemma Removes_clean:
  "\<exists>s. HStr_Removes src key = Some (ERR_OK, s) \<and> (key \<noteq> [] \<longrightarrow> \<not> sublist key s)"
  using Removes_loop_total [of src key] by (auto simp: HStr_Removes_def)

lemma concat_map_snoc: "concat (map (\<lambda>p. p @ l) ps) = (if ps = [] then [] else join_by l ps @ l)"
  by (induction l ps rule: join_by.induct) auto

lemma V2Str_single: "V2Str ps [c] = join_by [c] ps"
  by (cases "ps = []") (simp_all add: V2Str_def Let_def concat_map_snoc)

lemma IsBeginWith_prefix: "IsBeginWith src key \<longleftrightarrow> prefix key src"
  by (auto simp: IsBeginWith_def str_find_0 dest!: str_index_SomeD) (simp add: str_index.simps)

text \<open>
  \<^verbatim>\<open>IsEndWith\<close> compares the position of the first occurrence with one less than the position a suffix
  has: no string ends with itself, and two different strings of one length end with each other.
\<close>

lemma IsEndWith_wrong:
  assumes "length src = length key" "length src \<le> npos"
  shows "IsEndWith src key \<longleftrightarrow> src \<noteq> key"
proof (cases "src = key")
  case True
  then have "str_find src key 0 = Some 0" by (simp add: str_find_0 str_index.simps [of key key])
  with True show ?thesis by (simp add: IsEndWith_def size_of_pos_def size_sub_def)
next
  case False
  have "\<not> sublist key src"
  proof
    assume "sublist key src"
    then obtain us ws where "src = us @ key @ ws" by (auto simp: sublist_def)
    with assms(1) False show False by simp
  qed
  with False assms show ?thesis
    by (simp add: IsEndWith_def str_find_0_None size_of_pos_def size_sub_def npos_def)
qed

subsection \<open>Properties\<close>

text \<open>C37: Splitting a non-empty string at a non-empty key ends, returns OK and appends to the result exactly the parts of
  the reference cut from position \<open>beg\<close>: none contains the key, and joined with the key between them they
  give back the rest of the string.\<close>

theorem Split_parts:
  assumes "s \<noteq> []" "key \<noteq> []" "length s \<le> npos" "beg \<le> length s"
  shows "\<exists>ps. HStr_Split s key res beg = Some (ERR_OK, res @ ps) \<and> join_by key ps = drop beg s \<and>
    (\<forall>p \<in> set ps. \<not> sublist key p)"
  using HStr_Split_ref [OF assms] join_split_ref split_ref_clean [OF assms(2)] by blast

theorem Split_parts_witness:
  "\<exists>ps. HStr_Split ''k==v'' ''=='' [] 0 = Some (ERR_OK, ps) \<and> join_by ''=='' ps = ''k==v''"
  using Split_parts [of "''k==v''" "''==''" 0 "[]"] by (auto simp: npos_def)

text \<open>\<^verbatim>\<open>Replaces\<close> replaces until the key does not occur. It ends, with a string free of the key, whenever
  the replacement is shorter than the key; it never ends when the key occurs and the replacement contains it.\<close>

theorem Replaces_ends:
  assumes "b \<noteq> []"
  shows "(length b < length a \<longrightarrow> (\<exists>s. HStr_Replaces src a b = Some (ERR_OK, s) \<and> \<not> sublist a s)) \<and>
    (a \<noteq> [] \<and> sublist a src \<and> sublist a b \<longrightarrow> HStr_Replaces src a b = None)"
  using Replaces_loop_shrinks [of b a src] Replaces_loop_diverges [of a src b] assms
  by (auto simp: HStr_Replaces_def)

theorem Replaces_ends_witness:
  "HStr_Replaces ''a.b'' ''.'' ''..'' = None \<and> (\<exists>s. HStr_Replaces ''a..b'' ''..'' ''.'' = Some (ERR_OK, s) \<and> \<not> sublist ''..'' s)"
proof -
  have "sublist ''.'' ''a.b''" "sublist ''.'' ''..''" by (simp_all add: sublist_code)
  then show ?thesis
    using Replaces_ends [of "''..''" "''.''" "''a.b''"] Replaces_ends [of "''.''" "''..''" "''a..b''"] by auto
qed

text \<open>\<^verbatim>\<open>Counter\<close> returns the number of positions at which the key occurs, overlaps included.\<close>

theorem Counter_occurrences:
  "Counter src key = card {i. i < length src \<and> prefix key (drop i src)}"
  using Counter_loop_card [of 0 src key 0] by (simp add: Counter_def occurrences_def)

end
