(* ===== verification/Hui_Conf.thy ===== *)
theory Hui_Conf
  imports Hui_Str "HOL-Library.List_Lexorder" "HOL-Library.Char_ord"
begin

text \<open>
  The string map \<^verbatim>\<open>HMstr\<close> (\<^verbatim>\<open>src/src/hmstr.cpp\<close>, a \<^verbatim>\<open>std::map\<close> from strings to strings) and the
  configuration files of \<^verbatim>\<open>HNormalConfig\<close> (\<^verbatim>\<open>src/src/hnormalconf.cpp\<close>) on top of it.

  The map is the list of its nodes in key order (strings compare by unsigned bytes, as
  \<^verbatim>\<open>std::string\<close> does). Reading a file is the parameter \<open>read_file\<close>.
\<close>

subsection \<open>The string map\<close>

type_synonym HMSTR = "(string \<times> string) list"

fun mstr_insert :: "string \<times> 'v \<Rightarrow> (string \<times> 'v) list \<Rightarrow> (string \<times> 'v) list" where
  "mstr_insert x [] = [x]"
| "mstr_insert x (y # m) =
     (if fst x < fst y then x # y # m else if fst y < fst x then y # mstr_insert x m else y # m)"

definition HMstr_SetValue :: "HMSTR \<Rightarrow> string \<Rightarrow> string \<Rightarrow> HMSTR" where
  "HMstr_SetValue m key val =
     (case map_of m key of
        Some _ \<Rightarrow> map (\<lambda>(k, v). if k = key then (k, val) else (k, v)) m
      | None \<Rightarrow> mstr_insert (key, val) m)"

definition HMstr_GetValue_default :: "HMSTR \<Rightarrow> string \<Rightarrow> string \<Rightarrow> string" where
  "HMstr_GetValue_default m key default_val = (case map_of m key of None \<Rightarrow> default_val | Some v \<Rightarrow> v)"

definition HMstr_GetValue :: "HMSTR \<Rightarrow> string \<Rightarrow> string" where
  "HMstr_GetValue m key = HMstr_GetValue_default m key []"

text \<open>
  \<^verbatim>\<open>std::stoi\<close>: blanks, an optional sign, decimal digits. It throws when there is no digit or the number
  does not fit an \<^verbatim>\<open>int\<close>; from a \<^verbatim>\<open>noexcept\<close> function that ends the program (\<open>None\<close>).
\<close>

definition is_blank :: "char \<Rightarrow> bool" where
  "is_blank c \<longleftrightarrow> (of_char c :: nat) \<in> {32, 9, 10, 11, 12, 13}"

definition is_digit :: "char \<Rightarrow> bool" where
  "is_digit c \<longleftrightarrow> 48 \<le> (of_char c :: nat) \<and> (of_char c :: nat) \<le> 57"

definition digits_value :: "string \<Rightarrow> int" where
  "digits_value ds = fold (\<lambda>d n. 10 * n + int (of_char d - 48)) ds 0"

definition stoi :: "string \<Rightarrow> int option" where
  "stoi s =
     (let t = dropWhile is_blank s;
          neg = (t \<noteq> [] \<and> hd t = CHR ''-'');
          t = (if t \<noteq> [] \<and> (hd t = CHR ''-'' \<or> hd t = CHR ''+'') then tl t else t);
          ds = takeWhile is_digit t;
          n = (if neg then - digits_value ds else digits_value ds)
      in if ds = [] \<or> n < - (2 ^ 31) \<or> n \<ge> 2 ^ 31 then None else Some n)"

text \<open>\<^verbatim>\<open>std::to_string\<close> of an \<^verbatim>\<open>int\<close>.\<close>

fun nat_digits :: "nat \<Rightarrow> string" where
  "nat_digits n = (if n < 10 then [char_of (48 + n)] else nat_digits (n div 10) @ [char_of (48 + n mod 10)])"

declare nat_digits.simps [simp del]

definition FromN :: "int \<Rightarrow> string" where
  "FromN n = (if n < 0 then CHR ''-'' # nat_digits (nat (- n)) else nat_digits (nat n))"

definition HMstr_SetInt :: "HMSTR \<Rightarrow> string \<Rightarrow> int \<Rightarrow> HMSTR" where
  "HMstr_SetInt m key val = HMstr_SetValue m key (FromN val)"

definition HMstr_GetInt_default :: "HMSTR \<Rightarrow> string \<Rightarrow> int \<Rightarrow> int option" where
  "HMstr_GetInt_default m key n = (case map_of m key of None \<Rightarrow> Some n | Some v \<Rightarrow> stoi v)"

definition HMstr_GetInt :: "HMSTR \<Rightarrow> string \<Rightarrow> int option" where
  "HMstr_GetInt m key = HMstr_GetInt_default m key 0"

definition HMstr_IsDigit :: "HMSTR \<Rightarrow> string \<Rightarrow> bool" where
  "HMstr_IsDigit m key = IsAllDigit (HMstr_GetValue m key)"

definition HMstr_Exists :: "HMSTR \<Rightarrow> string \<Rightarrow> bool" where
  "HMstr_Exists m key \<longleftrightarrow> map_of m key \<noteq> None"

definition HMstr_Remove :: "HMSTR \<Rightarrow> string \<Rightarrow> nat \<times> HMSTR" where
  "HMstr_Remove m key = (if map_of m key \<noteq> None then 1 else 0, filter (\<lambda>(k, v). k \<noteq> key) m)"

definition HMstr_ToParamString :: "HMSTR \<Rightarrow> string" where
  "HMstr_ToParamString m =
     (let res = concat (map (\<lambda>(k, v). k @ ''='' @ v @ ''&'') m) in take (size_sub (length res) 1) res)"

definition HMstr_ToJson :: "HMSTR \<Rightarrow> string" where
  "HMstr_ToJson m =
     (let q = [CHR 0x22];
          res = ''{ '' @ concat (map (\<lambda>(k, v). ''{'' @ q @ k @ q @ '':'' @ q @ v @ q @ ''},'') m)
      in RemoveRight res 1 @ ''}'')"

subsection \<open>Configuration files\<close>

definition MIN_CONTENT_LENGTH :: nat where
  "MIN_CONTENT_LENGTH = 10"

definition line_br :: string where
  "line_br = [CHR 0x0A]"

definition isNoteLine :: "string \<Rightarrow> bool" where
  "isNoteLine l \<longleftrightarrow> length l < 3 \<or> take 2 l = '';;''"

text \<open>The body of the loop over the lines; \<open>ret\<close> is the last result.\<close>

definition load_line :: "RET_T \<times> HMSTR \<Rightarrow> string \<Rightarrow> (RET_T \<times> HMSTR) option" where
  "load_line rc l =
     (if isNoteLine l then Some rc
      else do { (ret, vs) \<leftarrow> HStr_Split l ''='' [] 0;
                if \<not> IS_OK ret then Some (ret, snd rc)
                else if length vs < 2 then Some (ret, snd rc)
                else Some (ret, HMstr_SetValue (snd rc) (Trim None (vs ! 0)) (Trim None (vs ! 1))) })"

fun load_lines :: "RET_T \<times> HMSTR \<Rightarrow> string list \<Rightarrow> (RET_T \<times> HMSTR) option" where
  "load_lines rc [] = Some rc"
| "load_lines rc (l # ls) = do { rc \<leftarrow> load_line rc l; load_lines rc ls }"

definition LoadConfig :: "(string \<Rightarrow> RET_T \<times> string) \<Rightarrow> HMSTR \<Rightarrow> string \<Rightarrow> (RET_T \<times> HMSTR) option" where
  "LoadConfig read_file m_conf strConfigFileName =
     (if strConfigFileName = [] then Some (INVL_PARA, m_conf)
      else let (cb, content) = read_file strConfigFileName
        in if \<not> IS_OK cb then Some (cb, m_conf)
           else if \<not> length content > MIN_CONTENT_LENGTH then Some (SRC_ERR, m_conf)
           else do { (ret, lines) \<leftarrow> HStr_Split content line_br [] 0;
                     if \<not> IS_OK ret then Some (ret, m_conf) else load_lines (ret, m_conf) lines })"

definition HNormalConfig_Clear :: "HMSTR \<Rightarrow> HMSTR" where
  "HNormalConfig_Clear m_conf = []"

definition HNormalConfig_ToJson :: "HMSTR \<Rightarrow> string" where
  "HNormalConfig_ToJson m_conf = HMstr_ToJson m_conf"

definition HNormalConfig_GetValue :: "HMSTR \<Rightarrow> string \<Rightarrow> string" where
  "HNormalConfig_GetValue m_conf strKey = HMstr_GetValue m_conf strKey"

definition HNormalConfig_GetValue_default :: "HMSTR \<Rightarrow> string \<Rightarrow> string \<Rightarrow> string" where
  "HNormalConfig_GetValue_default m_conf strKey strDefVal = HMstr_GetValue_default m_conf strKey strDefVal"

definition HNormalConfig_GetIntValue :: "HMSTR \<Rightarrow> string \<Rightarrow> int option" where
  "HNormalConfig_GetIntValue m_conf strKey = HMstr_GetInt m_conf strKey"

definition HNormalConfig_GetIntValue_default :: "HMSTR \<Rightarrow> string \<Rightarrow> int \<Rightarrow> int option" where
  "HNormalConfig_GetIntValue_default m_conf strKey nDefVal = HMstr_GetInt_default m_conf strKey nDefVal"

definition HNormalConfig_Exists :: "HMSTR \<Rightarrow> string \<Rightarrow> bool" where
  "HNormalConfig_Exists m_conf strKey = HMstr_Exists m_conf strKey"

definition HNormalConfig_SetValue :: "HMSTR \<Rightarrow> string \<Rightarrow> string \<Rightarrow> HMSTR" where
  "HNormalConfig_SetValue m_conf key val = HMstr_SetValue m_conf key val"

subsection \<open>What the map promises\<close>

locale key_value_store =
  fixes ok :: "'m \<Rightarrow> bool"
    and get :: "'m \<Rightarrow> 'k \<Rightarrow> 'v option"
    and set_value :: "'m \<Rightarrow> 'k \<Rightarrow> 'v \<Rightarrow> 'm"
  assumes ok_set: "ok m \<Longrightarrow> ok (set_value m k v)"
    and get_set: "ok m \<Longrightarrow> get (set_value m k v) k' = (if k' = k then Some v else get m k')"
begin

definition set_all :: "('k \<times> 'v) list \<Rightarrow> 'm \<Rightarrow> 'm" where
  "set_all kvs m = fold (\<lambda>(k, v) m. set_value m k v) kvs m"

lemma set_all_Cons: "set_all ((k, v) # kvs) m = set_all kvs (set_value m k v)"
  by (simp add: set_all_def)

lemma set_all: "ok m \<Longrightarrow> ok (set_all kvs m) \<and>
    get (set_all kvs m) k = (case map_of (rev kvs) k of None \<Rightarrow> get m k | Some v \<Rightarrow> Some v)"
proof (induction kvs arbitrary: m)
  case (Cons x kvs)
  obtain a b where x: "x = (a, b)" by (cases x)
  from Cons.IH [OF ok_set [OF Cons.prems, of a b]] Cons.prems show ?case
    by (auto simp: x set_all_Cons get_set map_add_def split: option.splits)
qed (simp add: set_all_def)

end

definition mstr_ok :: "(string \<times> 'v) list \<Rightarrow> bool" where
  "mstr_ok m \<longleftrightarrow> sorted_wrt (<) (map fst m)"

lemma mstr_ok_distinct: "mstr_ok m \<Longrightarrow> distinct (map fst m)"
  unfolding mstr_ok_def by (induction m) auto

lemma map_of_insert:
  "mstr_ok m \<Longrightarrow> map_of m (fst x) = None \<Longrightarrow> map_of (mstr_insert x m) = (map_of m)(fst x \<mapsto> snd x)"
  by (induction x m rule: mstr_insert.induct) (auto simp: mstr_ok_def fun_eq_iff split: if_splits)

lemma set_mstr_insert: "fst ` set (mstr_insert x m) \<subseteq> insert (fst x) (fst ` set m)"
  by (induction x m rule: mstr_insert.induct) auto

lemma mstr_ok_insert: "mstr_ok m \<Longrightarrow> mstr_ok (mstr_insert x m)"
proof (induction x m rule: mstr_insert.induct)
  case (2 x y m)
  have "\<forall>k \<in> fst ` set (mstr_insert x m). fst y < k" if "fst y < fst x"
    using that "2.prems" set_mstr_insert [of x m] by (force simp: mstr_ok_def)
  with 2 show ?case by (force simp: mstr_ok_def)
qed (simp add: mstr_ok_def)

interpretation mstr: key_value_store mstr_ok map_of HMstr_SetValue
proof
  fix m :: HMSTR and k v k'
  assume ok: "mstr_ok m"
  have "map fst (map (\<lambda>(k', v'). if k' = k then (k', v) else (k', v')) m) = map fst m" by auto
  then have "mstr_ok (map (\<lambda>(k', v'). if k' = k then (k', v) else (k', v')) m)"
    using ok unfolding mstr_ok_def by (simp only:)
  then show "mstr_ok (HMstr_SetValue m k v)"
    using mstr_ok_insert [OF ok] by (simp add: HMstr_SetValue_def split: option.split)
  have upd: "map_of (map (\<lambda>(k', v'). if k' = k then (k', v) else (k', v')) m) k' =
      (if k' = k then map_option (\<lambda>_. v) (map_of m k) else map_of m k')"
    by (induction m) auto
  show "map_of (HMstr_SetValue m k v) k' = (if k' = k then Some v else map_of m k')"
    using map_of_insert [OF ok, of "(k, v)"] upd by (auto simp: HMstr_SetValue_def split: option.split)
qed

subsection \<open>Numbers survive\<close>

lemma nat_digits_all: "\<forall>c \<in> set (nat_digits n). is_digit c"
proof (induction n rule: nat_digits.induct)
  case (1 n)
  then show ?case by (subst nat_digits.simps) (auto simp: is_digit_def)
qed

lemma digits_value_nat: "digits_value (nat_digits n) = int n"
proof (induction n rule: nat_digits.induct)
  case (1 n)
  have "10 * int (n div 10) + int (n mod 10) = int n"
    by (metis mult_div_mod_eq of_nat_add of_nat_mult of_nat_numeral)
  with 1 show ?case by (subst nat_digits.simps) (auto simp: digits_value_def)
qed

lemma nat_digits_ne [simp]: "nat_digits n \<noteq> []"
  by (subst nat_digits.simps) simp

lemma nat_digits_hd: "is_digit (hd (nat_digits n))"
  using nat_digits_all nat_digits_ne by (meson hd_in_set)

lemma is_digit_not: "is_digit c \<Longrightarrow> \<not> is_blank c \<and> c \<noteq> CHR ''-'' \<and> c \<noteq> CHR ''+''"
  by (auto simp: is_digit_def is_blank_def)

lemma stoi_FromN:
  assumes "- (2 ^ 31) \<le> n" "n < 2 ^ 31"
  shows "stoi (FromN n) = Some n"
proof -
  have tw: "takeWhile is_digit (nat_digits m) = nat_digits m" for m
    using nat_digits_all by (simp add: takeWhile_eq_all_conv)
  note d = is_digit_not [OF nat_digits_hd]
  have dw: "dropWhile is_blank (nat_digits m) = nat_digits m" for m
    using d by (simp add: dropWhile_eq_self_iff)
  have "\<not> is_blank (CHR ''-'')" by (simp add: is_blank_def)
  with d assms show ?thesis by (auto simp: stoi_def Let_def FromN_def dw tw digits_value_nat)
qed

lemma FromN_inj: "inj FromN"
proof (rule injI)
  fix m n :: int assume eq: "FromN m = FromN n"
  have hd: "nat_digits k \<noteq> CHR ''-'' # cs" for k cs using is_digit_not [OF nat_digits_hd [of k]] by auto
  have inj: "nat_digits a = nat_digits b \<longleftrightarrow> a = b" for a b by (metis digits_value_nat of_nat_eq_iff)
  show "m = n"
  proof (cases "m < 0"; cases "n < 0")
    assume "m < 0" "n < 0"
    with eq show ?thesis by (simp add: FromN_def inj)
  next
    assume "\<not> m < 0" "\<not> n < 0"
    with eq show ?thesis by (simp add: FromN_def inj)
  qed (use eq hd hd [symmetric] in \<open>simp_all add: FromN_def\<close>)
qed

subsection \<open>Reading a configuration file\<close>

definition conf_line :: "string \<times> string \<Rightarrow> string" where
  "conf_line kv = fst kv @ ''='' @ snd kv"

definition conf_file :: "(string \<times> string) list \<Rightarrow> string" where
  "conf_file kvs = concat (map (\<lambda>kv. conf_line kv @ line_br) kvs)"

text \<open>Keys and values as they can be written: trimmed, without the separators, not a comment.\<close>

definition kv_ok :: "string \<times> string \<Rightarrow> bool" where
  "kv_ok kv \<longleftrightarrow> (\<forall>s \<in> {fst kv, snd kv}. s \<noteq> [] \<and> trimmed None s \<and> CHR ''='' \<notin> set s \<and> CHR 0x0A \<notin> set s)
     \<and> \<not> prefix '';;'' (fst kv)"

lemma conf_file_join: "conf_file kvs = join_by line_br (map conf_line kvs @ [[]])"
proof (induction kvs)
  case (Cons kv kvs)
  then show ?case by (simp add: conf_file_def join_by_Cons)
qed (simp add: conf_file_def)

lemma line_no_br: "kv_ok kv \<Longrightarrow> CHR 0x0A \<notin> set (conf_line kv)"
  by (auto simp: kv_ok_def conf_line_def)

lemma conf_line_split:
  assumes "kv_ok kv" "length (conf_line kv) \<le> npos"
  shows "HStr_Split (conf_line kv) ''='' [] 0 = Some (ERR_OK, [fst kv, snd kv])"
proof -
  have "conf_line kv = join_by ''='' [fst kv, snd kv]" by (simp add: conf_line_def)
  then have "split_ref ''='' (conf_line kv) = [fst kv, snd kv]"
    using split_ref_join [of "[fst kv, snd kv]" "CHR ''=''"] assms(1) by (simp add: kv_ok_def)
  with HStr_Split_ref [of "conf_line kv" "''=''" 0 "[]"] assms show ?thesis
    by (simp add: conf_line_def)
qed

lemma kv_not_note:
  assumes "kv_ok kv"
  shows "\<not> isNoteLine (conf_line kv)"
proof -
  obtain c k d v where kv: "fst kv = c # k" "snd kv = d # v"
    using assms by (auto simp: kv_ok_def neq_Nil_conv)
  have "take 2 (conf_line kv) \<noteq> '';;''"
    using assms by (cases k) (auto simp: conf_line_def kv kv_ok_def numeral_2_eq_2)
  then show ?thesis by (simp add: isNoteLine_def) (simp add: conf_line_def kv)
qed

lemma load_line_kv:
  assumes "kv_ok kv" "length (conf_line kv) \<le> npos"
  shows "load_line (ret, m) (conf_line kv) = Some (ERR_OK, HMstr_SetValue m (fst kv) (snd kv))"
proof -
  have "Trim None (fst kv) = fst kv" "Trim None (snd kv) = snd kv"
    using assms by (auto simp: kv_ok_def conf_line_def intro!: Trim_trimmed)
  then show ?thesis
    by (simp add: load_line_def kv_not_note [OF assms(1)] conf_line_split [OF assms])
qed

lemma load_lines_kvs:
  assumes "\<forall>kv \<in> set kvs. kv_ok kv \<and> length (conf_line kv) \<le> npos"
  shows "load_lines (ERR_OK, m) (map conf_line kvs @ [[]]) = Some (ERR_OK, mstr.set_all kvs m)"
  using assms
proof (induction kvs arbitrary: m)
  case (Cons kv kvs)
  then show ?case by (cases kv) (simp add: load_line_kv mstr.set_all_Cons)
qed (simp add: load_line_def isNoteLine_def mstr.set_all_def)

lemma length_conf_line: "kv \<in> set kvs \<Longrightarrow> length (conf_line kv) \<le> length (conf_file kvs)"
  by (induction kvs) (auto simp: conf_file_def)



end
