(* ===== verification/Hui_Time.thy ===== *)
theory Hui_Time
  imports Hui_Conf "HOL-Library.Signed_Division"
begin

text \<open>
  Time spans, calendar times and microsecond clocks: \<^verbatim>\<open>src/src/htime.h\<close>, \<^verbatim>\<open>src/src/htime.cpp\<close>,
  \<^verbatim>\<open>src/src/inl/timespan_inl.h\<close> and \<^verbatim>\<open>src/src/inl/time_inl.h\<close>, for \<^verbatim>\<open>time_t\<close> (a 64-bit integer) as the
  value type and \<^verbatim>\<open>int\<close> as \<^verbatim>\<open>itype\<close>.

  A C string is the list of its bytes without the terminator; \<open>at\<close> reads a byte through a pointer, the
  terminator at the end, and is \<open>None\<close> beyond it. Signed overflow and an overrun of a fixed buffer are
  \<open>None\<close> too. The C library functions that depend on the time zone (\<^verbatim>\<open>mktime\<close>, \<^verbatim>\<open>localtime_r\<close>), on the
  clock (\<^verbatim>\<open>time\<close>, \<^verbatim>\<open>gettimeofday\<close>) and the general \<^verbatim>\<open>strftime\<close> are parameters.
\<close>

subsection \<open>Machine integers and C strings\<close>

definition int32_ok :: "int \<Rightarrow> bool" where
  "int32_ok n \<longleftrightarrow> - (2 ^ 31) \<le> n \<and> n < 2 ^ 31"

definition chk32 :: "int \<Rightarrow> int option" where
  "chk32 n = (if int32_ok n then Some n else None)"

definition to_itype :: "int \<Rightarrow> int" where
  "to_itype n = signed_take_bit 31 n"

definition NUL :: char where
  "NUL = CHR 0x00"

definition at :: "string \<Rightarrow> nat \<Rightarrow> char option" where
  "at s i = (if i < length s then Some (s ! i) else if i = length s then Some NUL else None)"

text \<open>\<^verbatim>\<open>printf\<close> with \<^verbatim>\<open>%0<w>d\<close>.\<close>

definition fmt_0d :: "nat \<Rightarrow> int \<Rightarrow> string" where
  "fmt_0d w n =
     (let s = FromN n in
      if n < 0 then CHR ''-'' # replicate (w - length s) (CHR ''0'') @ tl s
      else replicate (w - length s) (CHR ''0'') @ s)"

subsection \<open>Time spans\<close>

record timespan =
  m_span :: int

definition timespan_new :: "int \<Rightarrow> int \<Rightarrow> int \<Rightarrow> int \<Rightarrow> timespan option" where
  "timespan_new lDays nHours nMins nSecs =
     do { d \<leftarrow> chk32 (24 * lDays);
          h \<leftarrow> chk32 (nHours + d);
          h \<leftarrow> chk32 (60 * h);
          m \<leftarrow> chk32 (nMins + h);
          m \<leftarrow> chk32 (60 * m);
          s \<leftarrow> chk32 (nSecs + m);
          Some \<lparr>m_span = s\<rparr> }"

definition GetDays :: "timespan \<Rightarrow> int" where
  "GetDays ts = to_itype (m_span ts sdiv (24 * 3600))"

definition GetTotalHours :: "timespan \<Rightarrow> int" where
  "GetTotalHours ts = to_itype (m_span ts sdiv 3600)"

definition GetHours :: "timespan \<Rightarrow> int" where
  "GetHours ts = GetTotalHours ts smod 24"

definition GetTotalMinutes :: "timespan \<Rightarrow> int" where
  "GetTotalMinutes ts = to_itype (m_span ts sdiv 60)"

definition GetMinutes :: "timespan \<Rightarrow> int" where
  "GetMinutes ts = GetTotalMinutes ts smod 60"

definition GetTotalSeconds :: "timespan \<Rightarrow> int" where
  "GetTotalSeconds ts = to_itype (m_span ts)"

definition GetSeconds :: "timespan \<Rightarrow> int" where
  "GetSeconds ts = to_itype (m_span ts smod 60)"

definition span_plus :: "timespan \<Rightarrow> timespan \<Rightarrow> timespan" where
  "span_plus a b = \<lparr>m_span = m_span a + m_span b\<rparr>"

definition span_minus :: "timespan \<Rightarrow> timespan \<Rightarrow> timespan" where
  "span_minus a b = \<lparr>m_span = m_span a - m_span b\<rparr>"

definition span_add_to :: "timespan \<Rightarrow> timespan \<Rightarrow> timespan" where
  "span_add_to a b = a\<lparr>m_span := m_span a + m_span b\<rparr>"

definition span_sub_from :: "timespan \<Rightarrow> timespan \<Rightarrow> timespan" where
  "span_sub_from a b = a\<lparr>m_span := m_span a - m_span b\<rparr>"

definition span_lt :: "timespan \<Rightarrow> timespan \<Rightarrow> bool" where
  "span_lt a b \<longleftrightarrow> m_span a < m_span b"

definition span_le :: "timespan \<Rightarrow> timespan \<Rightarrow> bool" where
  "span_le a b \<longleftrightarrow> m_span a \<le> m_span b"

text \<open>
  \<^verbatim>\<open>tostr\<close> walks the format; \<open>i\<close> is the pointer. A number is printed into a buffer of eight bytes.
\<close>

definition print8 :: "string \<Rightarrow> string option" where
  "print8 s = (if length s < 8 then Some s else None)"

definition span_field :: "timespan \<Rightarrow> char \<Rightarrow> string option" where
  "span_field ts ch =
     (if ch = CHR ''%'' then Some [ch]
      else if ch = CHR ''D'' then print8 (FromN (GetDays ts))
      else if ch = CHR ''H'' then print8 (fmt_0d 2 (GetHours ts))
      else if ch = CHR ''M'' then print8 (fmt_0d 2 (GetMinutes ts))
      else if ch = CHR ''S'' then print8 (fmt_0d 2 (GetSeconds ts))
      else Some [])"

partial_function (option) tostr_loop :: "timespan \<Rightarrow> string \<Rightarrow> nat \<Rightarrow> string \<Rightarrow> string option" where
  "tostr_loop ts pFormat i str =
     do { ch \<leftarrow> at pFormat i;
          if ch = NUL then Some str
          else if ch = CHR ''%''
          then do { ch \<leftarrow> at pFormat (i + 1);
                    t \<leftarrow> span_field ts ch;
                    tostr_loop ts pFormat (i + 2) (str @ t) }
          else if (of_char ch :: nat) > 0x80
          then do { ch2 \<leftarrow> at pFormat (i + 1);
                    tostr_loop ts pFormat (i + 2) (str @ [ch, ch2]) }
          else tostr_loop ts pFormat (i + 1) (str @ [ch]) }"

definition tostr :: "timespan \<Rightarrow> string option \<Rightarrow> string option" where
  "tostr ts pFormat = (case pFormat of None \<Rightarrow> Some [] | Some f \<Rightarrow> tostr_loop ts f 0 [])"

subsection \<open>Calendar times\<close>

record tm_t =
  tm_year :: int
  tm_mon :: int
  tm_mday :: int
  tm_hour :: int
  tm_min :: int
  tm_sec :: int
  tm_isdst :: int

definition tm_zero :: tm_t where
  "tm_zero = \<lparr>tm_year = 0, tm_mon = 0, tm_mday = 0, tm_hour = 0, tm_min = 0, tm_sec = 0, tm_isdst = 0\<rparr>"

record time_basic =
  m_time :: int

definition time_of_date ::
    "(tm_t \<Rightarrow> int) \<Rightarrow> int \<Rightarrow> int \<Rightarrow> int \<Rightarrow> int \<Rightarrow> int \<Rightarrow> int \<Rightarrow> int \<Rightarrow> time_basic option" where
  "time_of_date mktime nYear nMonth nDay nHour nMin nSec nDST =
     do { mo \<leftarrow> chk32 (nMonth - 1);
          y \<leftarrow> chk32 (nYear - 1900);
          Some \<lparr>m_time = mktime \<lparr>tm_year = y, tm_mon = mo, tm_mday = nDay, tm_hour = nHour, tm_min = nMin,
                                tm_sec = nSec, tm_isdst = nDST\<rparr>\<rparr> }"

definition time_minus_span :: "time_basic \<Rightarrow> timespan \<Rightarrow> time_basic" where
  "time_minus_span t span = \<lparr>m_time = m_time t - m_span span\<rparr>"

definition time_plus_span :: "time_basic \<Rightarrow> timespan \<Rightarrow> time_basic" where
  "time_plus_span t span = \<lparr>m_time = m_time t + m_span span\<rparr>"

definition time_minus_time :: "time_basic \<Rightarrow> time_basic \<Rightarrow> timespan" where
  "time_minus_time t u = \<lparr>m_span = m_time t - m_time u\<rparr>"

definition time_lt :: "time_basic \<Rightarrow> time_basic \<Rightarrow> bool" where
  "time_lt t u \<longleftrightarrow> m_time t < m_time u"

definition time_le :: "time_basic \<Rightarrow> time_basic \<Rightarrow> bool" where
  "time_le t u \<longleftrightarrow> m_time t \<le> m_time u"

definition GetYear :: "(int \<Rightarrow> tm_t) \<Rightarrow> time_basic \<Rightarrow> int" where
  "GetYear localtime t = tm_year (localtime (m_time t)) + 1900"

definition GetMonth :: "(int \<Rightarrow> tm_t) \<Rightarrow> time_basic \<Rightarrow> int" where
  "GetMonth localtime t = tm_mon (localtime (m_time t)) + 1"

definition GetDay :: "(int \<Rightarrow> tm_t) \<Rightarrow> time_basic \<Rightarrow> int" where
  "GetDay localtime t = tm_mday (localtime (m_time t))"

definition GetHour :: "(int \<Rightarrow> tm_t) \<Rightarrow> time_basic \<Rightarrow> int" where
  "GetHour localtime t = tm_hour (localtime (m_time t))"

definition GetMinute :: "(int \<Rightarrow> tm_t) \<Rightarrow> time_basic \<Rightarrow> int" where
  "GetMinute localtime t = tm_min (localtime (m_time t))"

definition GetSecond :: "(int \<Rightarrow> tm_t) \<Rightarrow> time_basic \<Rightarrow> int" where
  "GetSecond localtime t = tm_sec (localtime (m_time t))"

subsection \<open>Parsing a time\<close>

definition is_gap :: "char \<Rightarrow> bool" where
  "is_gap c \<longleftrightarrow> c = CHR 0x09 \<or> c = CHR 0x20"

partial_function (option) skip_gap :: "string \<Rightarrow> nat \<Rightarrow> nat option" where
  "skip_gap dat d = do { c \<leftarrow> at dat d; if is_gap c \<and> c \<noteq> NUL then skip_gap dat (d + 1) else Some d }"

text \<open>The literal part of the format up to the next percent sign: both pointers advance together.\<close>

partial_function (option) skip_literal :: "string \<Rightarrow> string \<Rightarrow> nat \<Rightarrow> nat \<Rightarrow> (nat \<times> nat) option" where
  "skip_literal fmt dat f d =
     do { ch \<leftarrow> at fmt f;
          if ch = CHR ''%'' \<or> ch = NUL then Some (f, d)
          else do { ch2 \<leftarrow> at fmt (f + 1);
                    if is_gap ch \<and> \<not> is_gap ch2
                    then do { d \<leftarrow> skip_gap dat (d + 1); skip_literal fmt dat (f + 1) d }
                    else if (of_char ch :: nat) > 0x80 then skip_literal fmt dat (f + 2) (d + 2)
                    else skip_literal fmt dat (f + 1) (d + 1) } }"

text \<open>Digits from a pointer on, at most \<open>width\<close> of them when a width is given.\<close>

partial_function (option) take_digits :: "string \<Rightarrow> int \<Rightarrow> nat \<Rightarrow> string \<Rightarrow> (string \<times> nat) option" where
  "take_digits s width i acc =
     do { c \<leftarrow> at s i;
          if is_digit c \<and> (width = - 1 \<or> int (length acc) < width) \<and> c \<noteq> NUL
          then take_digits s width (i + 1) (acc @ [c]) else Some (acc, i) }"

definition atoi :: "string \<Rightarrow> int option" where
  "atoi ds = chk32 (digits_value ds)"

text \<open>The value a field sets; \<open>None\<close> inside is an unknown flag.\<close>

definition set_field :: "char \<Rightarrow> int \<Rightarrow> tm_t \<Rightarrow> tm_t option option" where
  "set_field flag val atm =
     (if flag = CHR ''y'' then map_option (\<lambda>y. Some (atm\<lparr>tm_year := y\<rparr>)) (chk32 (val + 100))
      else if flag = CHR ''Y'' then Some (Some (atm\<lparr>tm_year := val - 1900\<rparr>))
      else if flag = CHR ''m'' then Some (Some (atm\<lparr>tm_mon := val - 1\<rparr>))
      else if flag = CHR ''d'' then Some (Some (atm\<lparr>tm_mday := val\<rparr>))
      else if flag = CHR ''H'' then Some (Some (atm\<lparr>tm_hour := val\<rparr>))
      else if flag = CHR ''M'' then Some (Some (atm\<lparr>tm_min := val\<rparr>))
      else if flag = CHR ''S'' then Some (Some (atm\<lparr>tm_sec := val\<rparr>))
      else Some None)"

text \<open>A failed field ends the loop, after its condition has looked at the format once more.\<close>

definition bad_field :: "string \<Rightarrow> nat \<Rightarrow> tm_t option option" where
  "bad_field fmt f = do { _ \<leftarrow> at fmt f; Some None }"

text \<open>The loop over the format: the fields read, or \<open>None\<close> inside for data that does not fit.\<close>

partial_function (option) FromStr_loop :: "string \<Rightarrow> string \<Rightarrow> nat \<Rightarrow> nat \<Rightarrow> tm_t \<Rightarrow> tm_t option option" where
  "FromStr_loop fmt dat f d atm =
     do { c \<leftarrow> at fmt f;
          if c = NUL then Some (Some atm)
          else do { (f, d) \<leftarrow> skip_literal fmt dat f d;
                    c \<leftarrow> at fmt f;
                    if c = NUL then Some (Some atm)
                    else do { (w, f) \<leftarrow> take_digits fmt (- 1) (f + 1) [];
                              width \<leftarrow> (if w = [] then Some (- 1) else atoi w);
                              flag \<leftarrow> at fmt f;
                              let f = f + 1;
                              if flag = CHR ''%''
                              then do { c \<leftarrow> at dat d;
                                        if c = CHR ''%'' then FromStr_loop fmt dat f (d + 1) atm else bad_field fmt f }
                              else do { (ds, d) \<leftarrow> take_digits dat width d [];
                                        if ds = [] then bad_field fmt f
                                        else do { val \<leftarrow> atoi ds;
                                                  r \<leftarrow> set_field flag val atm;
                                                  case r of None \<Rightarrow> bad_field fmt f
                                                  | Some atm \<Rightarrow> FromStr_loop fmt dat f d atm } } } } }"

definition FromStr :: "(tm_t \<Rightarrow> int) \<Rightarrow> time_basic \<Rightarrow> string \<Rightarrow> string option \<Rightarrow> time_basic option" where
  "FromStr mktime t strTime szFormat =
     (case szFormat of
        None \<Rightarrow> Some t
      | Some fmt \<Rightarrow>
          if strTime = [] then Some t
          else do { r \<leftarrow> FromStr_loop fmt strTime 0 0 tm_zero;
                    case r of None \<Rightarrow> Some t | Some atm \<Rightarrow> Some \<lparr>m_time = mktime atm\<rparr> })"

subsection \<open>Printing times\<close>

definition ToString ::
    "(int \<Rightarrow> tm_t) \<Rightarrow> (string \<Rightarrow> tm_t \<Rightarrow> string) \<Rightarrow> time_basic \<Rightarrow> string \<Rightarrow> string" where
  "ToString localtime strftime t strFormat =
     (if m_time t = 0 then ''invalid time''
      else if strFormat = [] then []
      else let s = strftime strFormat (localtime (m_time t)) in if length s < 128 then s else [])"

text \<open>What \<^verbatim>\<open>GetNow\<close> and \<^verbatim>\<open>GetDate\<close> print; the buffer of 128 bytes cuts the text.\<close>

definition date_text :: "tm_t \<Rightarrow> string" where
  "date_text t = fmt_0d 4 (tm_year t + 1900) @ ''-'' @ fmt_0d 2 (tm_mon t + 1) @ ''-'' @ fmt_0d 2 (tm_mday t)"

definition now_text :: "tm_t \<Rightarrow> string" where
  "now_text t = date_text t @ '' '' @ fmt_0d 2 (tm_hour t) @ '':'' @ fmt_0d 2 (tm_min t) @ '':'' @ fmt_0d 2 (tm_sec t)"

definition GetNow :: "(int \<Rightarrow> tm_t) \<Rightarrow> int \<Rightarrow> string" where
  "GetNow localtime now = take 127 (now_text (localtime now))"

definition GetDate :: "(int \<Rightarrow> tm_t) \<Rightarrow> int \<Rightarrow> string" where
  "GetDate localtime now = take 127 (date_text (localtime now))"

definition GetTimeGroup_of ::
    "(int \<Rightarrow> tm_t) \<Rightarrow> (string \<Rightarrow> tm_t \<Rightarrow> string) \<Rightarrow> time_basic \<Rightarrow> string" where
  "GetTimeGroup_of localtime strftime nt =
     ToString localtime strftime nt ''%Y%m%d%H'' @ (if GetMinute localtime nt > 29 then ''30'' else ''00'')"

definition GetTimeGroup :: "(int \<Rightarrow> tm_t) \<Rightarrow> (string \<Rightarrow> tm_t \<Rightarrow> string) \<Rightarrow> int \<Rightarrow> string" where
  "GetTimeGroup localtime strftime now = GetTimeGroup_of localtime strftime \<lparr>m_time = now\<rparr>"

definition GetPrevTimeGroup :: "(int \<Rightarrow> tm_t) \<Rightarrow> (string \<Rightarrow> tm_t \<Rightarrow> string) \<Rightarrow> int \<Rightarrow> string option" where
  "GetPrevTimeGroup localtime strftime now =
     do { ts \<leftarrow> timespan_new 0 0 30 0;
          Some (GetTimeGroup_of localtime strftime (time_minus_span \<lparr>m_time = now\<rparr> ts)) }"

subsection \<open>Microsecond clocks\<close>

record HMicroTime =
  mt_sec :: int
  mt_usec :: int

definition HMicroTime_of_msec :: "int \<Rightarrow> HMicroTime" where
  "HMicroTime_of_msec micsec = \<lparr>mt_sec = micsec sdiv 1000, mt_usec = micsec smod 1000 * 1000\<rparr>"

definition timeval_dis :: "HMicroTime \<Rightarrow> HMicroTime \<Rightarrow> int" where
  "timeval_dis tv1 tv2 = (mt_sec tv2 - mt_sec tv1) * 1000 + (mt_usec tv2 - mt_usec tv1) sdiv 1000"

definition Distance :: "HMicroTime \<Rightarrow> HMicroTime \<Rightarrow> int" where
  "Distance a b = timeval_dis a b"

definition GetMillSec :: "HMicroTime \<Rightarrow> HMicroTime \<Rightarrow> int" where
  "GetMillSec now a = timeval_dis a now"

text \<open>A number through a stream with \<^verbatim>\<open>fill('0')\<close> and \<^verbatim>\<open>setw(w)\<close>: the fill goes before the sign.\<close>

definition setw0 :: "nat \<Rightarrow> int \<Rightarrow> string" where
  "setw0 w n = (let s = FromN n in replicate (w - length s) (CHR ''0'') @ s)"

definition GetDateStr :: "(int \<Rightarrow> tm_t) \<Rightarrow> HMicroTime \<Rightarrow> string" where
  "GetDateStr localtime m =
     (let t = localtime (mt_sec m)
      in FromN (1900 + tm_year t) @ ''-'' @ setw0 2 (1 + tm_mon t) @ ''-'' @ setw0 2 (tm_mday t))"

definition GetTimeStr :: "(int \<Rightarrow> tm_t) \<Rightarrow> HMicroTime \<Rightarrow> string" where
  "GetTimeStr localtime m =
     (let t = localtime (mt_sec m)
      in FromN (1900 + tm_year t) @ ''-'' @ setw0 2 (1 + tm_mon t) @ ''-'' @ setw0 2 (tm_mday t)
         @ '' '' @ setw0 2 (tm_hour t) @ '':'' @ setw0 2 (tm_min t) @ '':'' @ setw0 2 (tm_sec t)
         @ '','' @ setw0 3 (mt_usec m sdiv 1000))"


subsection \<open>Decimal fields\<close>

definition dig :: "int \<Rightarrow> char" where
  "dig n = char_of (48 + nat n)"

lemma is_digit_dig [simp]: "0 \<le> n \<Longrightarrow> n < 10 \<Longrightarrow> is_digit (dig n)"
  by (simp add: is_digit_def dig_def)

lemma dig_val [simp]: "0 \<le> n \<Longrightarrow> n < 10 \<Longrightarrow> int (of_char (dig n) - 48) = n"
  by (simp add: dig_def)

lemma dig_0: "dig 0 = CHR ''0''"
  by (simp add: dig_def char_of_eq_iff)

lemma nat_digits_small:
  "n < 10 \<Longrightarrow> nat_digits n = [char_of (48 + n)]"
  "10 \<le> n \<Longrightarrow> nat_digits n = nat_digits (n div 10) @ [char_of (48 + n mod 10)]"
  by (simp_all add: nat_digits.simps [of n])

lemma FromN_small:
  "0 \<le> n \<Longrightarrow> n < 10 \<Longrightarrow> FromN n = [dig n]"
  "10 \<le> n \<Longrightarrow> FromN n = FromN (n div 10) @ [dig (n mod 10)]"
proof -
  show "0 \<le> n \<Longrightarrow> n < 10 \<Longrightarrow> FromN n = [dig n]" by (simp add: FromN_def dig_def nat_digits_small)
  assume n: "10 \<le> n"
  then have "nat n div 10 = nat (n div 10)" "nat n mod 10 = nat (n mod 10)"
    by (simp_all add: nat_div_distrib nat_mod_distrib)
  with n nat_digits_small(2) [of "nat n"] show "FromN n = FromN (n div 10) @ [dig (n mod 10)]"
    by (simp add: FromN_def dig_def)
qed

text \<open>The last \<open>w\<close> decimal digits of a number.\<close>

primrec fw :: "nat \<Rightarrow> int \<Rightarrow> string" where
  "fw 0 n = []"
| "fw (Suc w) n = fw w (n div 10) @ [dig (n mod 10)]"

lemma length_fw [simp]: "length (fw w n) = w"
  by (induction w arbitrary: n) simp_all

lemma fw_digits: "c \<in> set (fw w n) \<Longrightarrow> is_digit c"
  by (induction w arbitrary: n) auto

lemma fw_0: "fw w 0 = replicate w (CHR ''0'')"
  by (induction w) (simp_all add: dig_0 replicate_append_same)

lemma fw_value: "0 \<le> n \<Longrightarrow> n < 10 ^ w \<Longrightarrow> digits_value (fw w n) = n"
proof (induction w arbitrary: n)
  case (Suc w)
  then have "digits_value (fw w (n div 10)) = n div 10" by simp
  then have "digits_value (fw (Suc w) n) = 10 * (n div 10) + n mod 10"
    by (simp add: digits_value_def)
  then show ?case by simp
qed (simp add: digits_value_def)

lemma FromN_fw: "0 \<le> n \<Longrightarrow> n < 10 ^ w \<Longrightarrow> 0 < w \<Longrightarrow> replicate (w - length (FromN n)) (CHR ''0'') @ FromN n = fw w n"
proof (induction w arbitrary: n)
  case (Suc w)
  show ?case
  proof (cases "n < 10")
    case True
    with Suc.prems show ?thesis by (simp add: FromN_small fw_0)
  next
    case False
    with Suc.prems have "0 < w" by (cases w) auto
    with False Suc show ?thesis by (simp add: FromN_small(2))
  qed
qed simp

lemma fmt_fw: "0 \<le> n \<Longrightarrow> n < 10 ^ w \<Longrightarrow> 0 < w \<Longrightarrow> fmt_0d w n = fw w n"
  by (simp add: fmt_0d_def Let_def FromN_fw)

subsection \<open>Walking the format\<close>

lemma take_digits_run:
  assumes "\<forall>k < length ds. at s (i + k) = Some (ds ! k) \<and> is_digit (ds ! k)"
    and "at s (i + length ds) = Some c" "\<not> is_digit c"
  shows "take_digits s (- 1) i acc = Some (acc @ ds, i + length ds)"
  using assms
proof (induction ds arbitrary: i acc)
  case Nil
  then show ?case by (subst take_digits.simps) simp
next
  case (Cons d ds)
  have d: "at s i = Some d" "is_digit d" using Cons.prems(1) by auto
  then have "d \<noteq> NUL" by (auto simp: is_digit_def NUL_def)
  moreover have "take_digits s (- 1) (i + 1) (acc @ [d]) = Some ((acc @ [d]) @ ds, i + 1 + length ds)"
  proof (rule Cons.IH)
    show "\<forall>k < length ds. at s (i + 1 + k) = Some (ds ! k) \<and> is_digit (ds ! k)"
      using Cons.prems(1) by (metis (no_types) Suc_less_eq add_Suc_right add_Suc_shift length_Cons nth_Cons_Suc plus_1_eq_Suc add.commute)
    show "at s (i + 1 + length ds) = Some c" using Cons.prems(2) by simp
  qed (rule Cons.prems(3))
  ultimately show ?case using d by (subst take_digits.simps) simp
qed

lemma FromStr_field:
  assumes "at fmt f = Some c" "c \<noteq> NUL" "skip_literal fmt dat f d = Some (f1, d1)" "at fmt f1 = Some (CHR ''%'')"
    and "at fmt (Suc f1) = Some flag" "\<not> is_digit flag" "flag \<noteq> CHR ''%''"
    and "take_digits dat (- 1) d1 [] = Some (ds, d2)" "ds \<noteq> []" "int32_ok (digits_value ds)"
    and "set_field flag (digits_value ds) atm = Some (Some atm')"
  shows "FromStr_loop fmt dat f d atm = FromStr_loop fmt dat (f1 + 2) d2 atm'"
proof -
  have "take_digits fmt (- 1) (Suc f1) [] = Some ([], Suc f1)"
    using take_digits_run [of "[]" fmt "Suc f1" flag "[]"] assms(5,6) by simp
  moreover have "CHR ''%'' \<noteq> NUL" by (simp add: NUL_def)
  ultimately show ?thesis
    using assms by (subst FromStr_loop.simps) (simp add: atoi_def chk32_def)
qed

lemma literal_at_field: "at fmt f = Some (CHR ''%'') \<Longrightarrow> skip_literal fmt dat f d = Some (f, d)"
  by (subst skip_literal.simps) simp

lemma literal_char:
  assumes "at fmt f = Some c" "at fmt (Suc f) = Some (CHR ''%'')" "c \<noteq> CHR ''%''" "c \<noteq> NUL" "(of_char c :: nat) \<le> 0x80"
    and "if is_gap c then at dat (Suc d) = Some e \<and> \<not> is_gap e else True"
  shows "skip_literal fmt dat f d = Some (Suc f, Suc d)"
proof -
  have g: "\<not> is_gap (CHR ''%'')" by (simp add: is_gap_def)
  have "is_gap c \<Longrightarrow> skip_gap dat (Suc d) = Some (Suc d)"
    using assms(6) by (subst skip_gap.simps) auto
  with assms g show ?thesis
    by (subst skip_literal.simps) (auto simp: literal_at_field)
qed


definition time_format :: string where
  "time_format = ''%Y-%m-%d %H:%M:%S''"

definition tm_ok :: "tm_t \<Rightarrow> bool" where
  "tm_ok t \<longleftrightarrow> 0 \<le> tm_year t + 1900 \<and> tm_year t + 1900 < 10000 \<and> 0 \<le> tm_mon t + 1 \<and> tm_mon t + 1 < 100
     \<and> 0 \<le> tm_mday t \<and> tm_mday t < 100 \<and> 0 \<le> tm_hour t \<and> tm_hour t < 100
     \<and> 0 \<le> tm_min t \<and> tm_min t < 100 \<and> 0 \<le> tm_sec t \<and> tm_sec t < 100"

lemma is_digit_not_gap: "is_digit c \<Longrightarrow> \<not> is_gap c"
  by (auto simp: is_digit_def is_gap_def)

lemma at_append:
  "at (xs @ ys) (length xs + k) = at ys k" "k < length xs \<Longrightarrow> at (xs @ ys) k = Some (xs ! k)"
  by (auto simp: at_def nth_append)

lemma take_digits_list:
  assumes "\<forall>c \<in> set ds. is_digit c" "rest = [] \<or> \<not> is_digit (hd rest)"
  shows "take_digits (xs @ ds @ rest) (- 1) (length xs) [] = Some (ds, length xs + length ds)"
proof -
  have z: "\<not> is_digit NUL" by (simp add: is_digit_def NUL_def)
  let ?c = "if rest = [] then NUL else hd rest"
  have "at (xs @ ds @ rest) (length xs + length ds) = Some ?c"
    by (cases rest) (auto simp: at_def nth_append)
  moreover have "\<forall>k < length ds. at (xs @ ds @ rest) (length xs + k) = Some (ds ! k) \<and> is_digit (ds ! k)"
    using assms(1) by (simp add: at_append)
  ultimately show ?thesis using take_digits_run [of ds "xs @ ds @ rest" "length xs" ?c "[]"] assms(2) z by auto
qed

text \<open>
  One field of the standard text: after the literal before it, the digits \<open>fw w n\<close> are read and set the field.
\<close>

lemma FromStr_fw:
  assumes "skip_literal fmt (xs @ fw w n @ rest) f d = Some (f1, length xs)" "at fmt f = Some c" "c \<noteq> NUL"
    and "at fmt f1 = Some (CHR ''%'')" "at fmt (Suc f1) = Some flag" "\<not> is_digit flag" "flag \<noteq> CHR ''%''"
    and "0 < w" "w < 5" "0 \<le> n" "n < 10 ^ w" "rest = [] \<or> \<not> is_digit (hd rest)"
    and "set_field flag n atm = Some (Some atm')"
  shows "FromStr_loop fmt (xs @ fw w n @ rest) f d atm = FromStr_loop fmt (xs @ fw w n @ rest) (f1 + 2) (length xs + w) atm'"
proof (rule FromStr_field [OF assms(2,3,1,4-7)])
  show "take_digits (xs @ fw w n @ rest) (- 1) (length xs) [] = Some (fw w n, length xs + w)"
    using take_digits_list [of "fw w n" rest xs] fw_digits assms(12) by auto
  show "fw w n \<noteq> []" using assms(8) by (metis length_fw list.size(3) less_irrefl)
  have "n < 10 ^ 4" using assms(9,11) power_increasing [of w 4 "10::int"] by simp
  then show "int32_ok (digits_value (fw w n))"
    using fw_value [OF assms(10,11)] assms(10) by (simp add: int32_ok_def)
  show "set_field flag (digits_value (fw w n)) atm = Some (Some atm')"
    using fw_value [OF assms(10,11)] assms(13) by simp
qed

lemma FromStr_now_text:
  assumes "tm_ok t"
  shows "FromStr_loop time_format (now_text t) 0 0 tm_zero = Some (Some (t\<lparr>tm_isdst := 0\<rparr>))"
proof -
  let ?f = time_format
  let ?y = "fw 4 (tm_year t + 1900)" and ?m = "fw 2 (tm_mon t + 1)" and ?d = "fw 2 (tm_mday t)" and
    ?H = "fw 2 (tm_hour t)" and ?M = "fw 2 (tm_min t)" and ?S = "fw 2 (tm_sec t)" and ?T = "now_text t"
  note ok = assms [unfolded tm_ok_def]
  have tx: "now_text t = ?y @ ''-'' @ ?m @ ''-'' @ ?d @ '' '' @ ?H @ '':'' @ ?M @ '':'' @ ?S"
    using ok by (simp add: now_text_def date_text_def fmt_fw)
  have fmt: "at ?f 0 = Some (CHR ''%'')" "at ?f 1 = Some (CHR ''Y'')" "at ?f 2 = Some (CHR ''-'')"
    "at ?f 3 = Some (CHR ''%'')" "at ?f 4 = Some (CHR ''m'')" "at ?f 5 = Some (CHR ''-'')"
    "at ?f 6 = Some (CHR ''%'')" "at ?f 7 = Some (CHR ''d'')" "at ?f 8 = Some (CHR '' '')"
    "at ?f 9 = Some (CHR ''%'')" "at ?f 10 = Some (CHR ''H'')" "at ?f 11 = Some (CHR '':'')"
    "at ?f 12 = Some (CHR ''%'')" "at ?f 13 = Some (CHR ''M'')" "at ?f 14 = Some (CHR '':'')"
    "at ?f 15 = Some (CHR ''%'')" "at ?f 16 = Some (CHR ''S'')" "at ?f 17 = Some NUL"
    by (simp_all add: at_def time_format_def)
  have nd: "\<not> is_digit (CHR ''Y'')" "\<not> is_digit (CHR ''m'')" "\<not> is_digit (CHR ''d'')" "\<not> is_digit (CHR ''H'')"
    "\<not> is_digit (CHR ''M'')" "\<not> is_digit (CHR ''S'')" "\<not> is_digit (CHR ''-'')" "\<not> is_digit (CHR '' '')" "\<not> is_digit (CHR '':'')"
    by (simp_all add: is_digit_def)
  have field: "FromStr_loop ?f ?T f d atm = FromStr_loop ?f ?T (f1 + 2) (length xs + w) atm'"
    if "?T = xs @ fw w n @ rest" "skip_literal ?f ?T f d = Some (f1, length xs)" "at ?f f = Some c" "c \<noteq> NUL"
      "at ?f f1 = Some (CHR ''%'')" "at ?f (Suc f1) = Some flag" "\<not> is_digit flag" "flag \<noteq> CHR ''%''"
      "0 < w" "w < 5" "0 \<le> n" "n < 10 ^ w" "rest = [] \<or> \<not> is_digit (hd rest)"
      "set_field flag n atm = Some (Some atm')" for xs w n rest f d f1 c flag atm atm'
    using FromStr_fw [of ?f xs w n rest f d f1 c flag atm atm'] that by simp
  have lit: "skip_literal ?f dat k d = Some (Suc k, Suc d)"
    if "at ?f k = Some c" "at ?f (Suc k) = Some (CHR ''%'')" "c = CHR ''-'' \<or> c = CHR '':''" for dat k d c
    using literal_char [OF that(1,2), of dat d] that(3) by (auto simp: NUL_def is_gap_def)
  have hH: "?H = hd ?H # tl ?H" by (metis length_fw list.exhaust_sel list.size(3) zero_neq_numeral)
  have "at ?T 11 = Some (hd ?H)"
    unfolding tx by (subst hH) (simp add: at_def nth_append)
  moreover have "\<not> is_gap (hd ?H)"
    by (rule is_digit_not_gap, rule fw_digits [of _ 2 "tm_hour t"]) (subst (2) hH, simp)
  ultimately have sp: "skip_literal ?f ?T 8 10 = Some (9, 11)"
    using literal_char [of ?f 8 "CHR '' ''" ?T 10 "hd ?H"] fmt by (simp add: NUL_def is_gap_def)
  let ?r5 = "'':'' @ ?S" and ?r4 = "'':'' @ ?M @ '':'' @ ?S" and ?r3 = "'' '' @ ?H @ '':'' @ ?M @ '':'' @ ?S"
  let ?r2 = "''-'' @ ?d @ ?r3"
  let ?r1 = "''-'' @ ?m @ ?r2"
  let ?a1 = "tm_zero\<lparr>tm_year := tm_year t\<rparr>"
  let ?a2 = "?a1\<lparr>tm_mon := tm_mon t\<rparr>"
  let ?a3 = "?a2\<lparr>tm_mday := tm_mday t\<rparr>"
  let ?a4 = "?a3\<lparr>tm_hour := tm_hour t\<rparr>"
  let ?a5 = "?a4\<lparr>tm_min := tm_min t\<rparr>"
  let ?a6 = "?a5\<lparr>tm_sec := tm_sec t\<rparr>"
  have "FromStr_loop ?f ?T 0 0 tm_zero = FromStr_loop ?f ?T (0 + 2) 4 ?a1"
    using field [of "[]" 4 "tm_year t + 1900" ?r1 0 0 0 "CHR ''%''" "CHR ''Y''" tm_zero ?a1]
      fmt nd ok literal_at_field [of ?f 0 ?T 0] by (simp add: tx set_field_def NUL_def)
  also have "\<dots> = FromStr_loop ?f ?T 2 4 ?a1" by (simp only: add_0)
  also have "\<dots> = FromStr_loop ?f ?T 5 7 ?a2"
    using field [of "?y @ ''-''" 2 "tm_mon t + 1" ?r2 2 4 3 "CHR ''-''" "CHR ''m''" ?a1 ?a2]
      fmt nd ok lit [of 2 "CHR ''-''" ?T 4] by (simp add: tx set_field_def NUL_def)
  also have "\<dots> = FromStr_loop ?f ?T 8 10 ?a3"
    using field [of "?y @ ''-'' @ ?m @ ''-''" 2 "tm_mday t" ?r3 5 7 6 "CHR ''-''" "CHR ''d''" ?a2 ?a3]
      fmt nd ok lit [of 5 "CHR ''-''" ?T 7] by (simp add: tx set_field_def NUL_def)
  also have "\<dots> = FromStr_loop ?f ?T 11 13 ?a4"
    using field [of "?y @ ''-'' @ ?m @ ''-'' @ ?d @ '' ''" 2 "tm_hour t" ?r4 8 10 9 "CHR '' ''" "CHR ''H''" ?a3 ?a4]
      fmt nd ok sp by (simp add: tx set_field_def NUL_def)
  also have "\<dots> = FromStr_loop ?f ?T 14 16 ?a5"
    using field [of "?y @ ''-'' @ ?m @ ''-'' @ ?d @ '' '' @ ?H @ '':''" 2 "tm_min t" ?r5 11 13 12 "CHR '':''" "CHR ''M''" ?a4 ?a5]
      fmt nd ok lit [of 11 "CHR '':''" ?T 13] by (simp add: tx set_field_def NUL_def)
  also have "\<dots> = FromStr_loop ?f ?T 17 19 ?a6"
    using field [of "?y @ ''-'' @ ?m @ ''-'' @ ?d @ '' '' @ ?H @ '':'' @ ?M @ '':''" 2 "tm_sec t" "[]" 14 16 15 "CHR '':''" "CHR ''S''" ?a5 ?a6]
      fmt nd ok lit [of 14 "CHR '':''" ?T 16] by (simp add: tx set_field_def NUL_def)
  also have "\<dots> = Some (Some ?a6)" using fmt by (subst FromStr_loop.simps) simp
  finally show ?thesis by (simp add: tm_zero_def)
qed


lemma length_now_text: "tm_ok t \<Longrightarrow> length (now_text t) = 19"
  by (simp add: now_text_def date_text_def fmt_fw tm_ok_def)

text \<open>The time \<^verbatim>\<open>GetNow\<close> prints is read back by \<^verbatim>\<open>FromStr\<close> with the default format: all six fields of the
  calendar time survive, and the result is what \<^verbatim>\<open>mktime\<close> makes of them (without daylight saving time).\<close>

theorem GetNow_FromStr:
  assumes "tm_ok (localtime now)"
  shows "FromStr mktime t (GetNow localtime now) (Some ''%Y-%m-%d %H:%M:%S'') =
    Some \<lparr>m_time = mktime ((localtime now)\<lparr>tm_isdst := 0\<rparr>)\<rparr>"
proof -
  have "GetNow localtime now = now_text (localtime now)"
    using length_now_text [OF assms] by (simp add: GetNow_def)
  moreover have "now_text (localtime now) \<noteq> []" using length_now_text [OF assms] by auto
  ultimately show ?thesis
    using FromStr_now_text [OF assms] by (simp add: FromStr_def time_format_def [symmetric])
qed

theorem GetNow_FromStr_witness:
  "FromStr tm_sec \<lparr>m_time = 0\<rparr> (GetNow (\<lambda>now. tm_zero\<lparr>tm_year := 121, tm_mday := 3, tm_sec := now mod 60\<rparr>) 77)
     (Some ''%Y-%m-%d %H:%M:%S'') = Some \<lparr>m_time = 17\<rparr>"
  using GetNow_FromStr [of "\<lambda>now. tm_zero\<lparr>tm_year := 121, tm_mday := 3, tm_sec := now mod 60\<rparr>" 77 tm_sec "\<lparr>m_time = 0\<rparr>"]
  by (simp add: tm_ok_def tm_zero_def)

subsection \<open>Time spans and their text\<close>

lemma to_itype_id: "int32_ok n \<Longrightarrow> to_itype n = n"
  by (simp add: to_itype_def int32_ok_def signed_take_bit_int_eq_self)

lemma sdiv_pos: "0 \<le> a \<Longrightarrow> 0 < b \<Longrightarrow> a sdiv b = a div b \<and> a smod b = a mod (b :: int)"
  by (cases "a = 0") (auto simp: signed_divide_int_def signed_modulo_int_def sgn_if)

lemma mixed_radix: "0 \<le> a \<Longrightarrow> a < k \<Longrightarrow> (a + k * x) div k = x \<and> (a + k * x) mod k = (a :: int)"
  by simp

lemma span_parts:
  assumes "timespan_new d h m s = Some ts" "0 \<le> d" "0 \<le> h" "h < 24" "0 \<le> m" "m < 60" "0 \<le> s" "s < 60"
  shows "GetDays ts = d" "GetHours ts = h" "GetMinutes ts = m" "GetSeconds ts = s"
proof -
  let ?n = "s + 60 * (m + 60 * (h + 24 * d))"
  have n: "m_span ts = ?n" "int32_ok ?n"
    using assms(1) by (auto simp: timespan_new_def chk32_def bind_eq_Some_conv algebra_simps split: if_splits)
  have dv: "?n div (24 * 3600) = d" "?n div 3600 = h + 24 * d" "?n div 60 = m + 60 * (h + 24 * d)" "?n mod 60 = s"
  proof -
    show "?n mod 60 = s" and m: "?n div 60 = m + 60 * (h + 24 * d)" using mixed_radix [OF assms(7,8)] by blast+
    have "?n div (60 * 60) = ?n div 60 div 60" by (rule zdiv_zmult2_eq) simp
    then show h: "?n div 3600 = h + 24 * d" using m mixed_radix [OF assms(5,6), of "h + 24 * d"] by simp
    have "?n div (3600 * 24) = ?n div 3600 div 24" by (rule zdiv_zmult2_eq) simp
    then show "?n div (24 * 3600) = d" using h mixed_radix [OF assms(3,4), of d] by simp
  qed
  have md: "(h + 24 * d) mod 24 = h" "(m + 60 * (h + 24 * d)) mod 60 = m"
    using mixed_radix [OF assms(3,4)] mixed_radix [OF assms(5,6)] by blast+
  have sd: "?n sdiv (24 * 3600) = ?n div (24 * 3600)" "?n sdiv 3600 = ?n div 3600" "?n sdiv 60 = ?n div 60" "?n smod 60 = ?n mod 60"
    "(h + 24 * d) smod 24 = (h + 24 * d) mod 24" "(m + 60 * (h + 24 * d)) smod 60 = (m + 60 * (h + 24 * d)) mod 60"
    using assms(2-8) by (simp_all add: sdiv_pos)
  have ok: "int32_ok d" "int32_ok (h + 24 * d)" "int32_ok (m + 60 * (h + 24 * d))" "int32_ok s"
    using n(2) assms(2-8) unfolding int32_ok_def by simp_all
  show "GetDays ts = d" "GetHours ts = h" "GetMinutes ts = m" "GetSeconds ts = s"
    unfolding GetDays_def GetHours_def GetMinutes_def GetSeconds_def GetTotalHours_def GetTotalMinutes_def n(1) sd dv
    by (simp_all only: to_itype_id [OF ok(1)] to_itype_id [OF ok(2)] to_itype_id [OF ok(3)] to_itype_id [OF ok(4)] sd md)
qed


lemma FromN_length: "0 \<le> n \<Longrightarrow> n < 10 ^ w \<Longrightarrow> 0 < w \<Longrightarrow> length (FromN n) \<le> w"
  using FromN_fw [of n w] by (metis le_add2 length_append length_fw)

lemma tostr_step:
  assumes "at f i = Some (CHR ''%'')" "at f (Suc i) = Some c" "span_field ts c = Some t"
  shows "tostr_loop ts f i str = tostr_loop ts f (i + 2) (str @ t)"
  using assms by (subst tostr_loop.simps) (simp add: NUL_def)

lemma tostr_char:
  assumes "at f i = Some c" "c \<noteq> NUL" "c \<noteq> CHR ''%''" "(of_char c :: nat) \<le> 0x80"
  shows "tostr_loop ts f i str = tostr_loop ts f (i + 1) (str @ [c])"
  using assms by (subst tostr_loop.simps) simp

text \<open>A time span built from days, hours, minutes and seconds in their ranges gives these numbers back and prints
  them, with the default format, as the days and three two-digit fields.\<close>

theorem timespan_text:
  assumes "timespan_new d h m s = Some ts" "0 \<le> d" "0 \<le> h" "h < 24" "0 \<le> m" "m < 60" "0 \<le> s" "s < 60"
  shows "GetDays ts = d \<and> GetHours ts = h \<and> GetMinutes ts = m \<and> GetSeconds ts = s \<and>
    tostr ts (Some ''%D/%H/%M/%S'') =
      Some (FromN d @ ''/'' @ fmt_0d 2 h @ ''/'' @ fmt_0d 2 m @ ''/'' @ fmt_0d 2 s)"
proof -
  note parts = span_parts [OF assms]
  have "d < 10 ^ 5"
    using assms by (auto simp: timespan_new_def chk32_def int32_ok_def bind_eq_Some_conv split: if_splits)
  then have "length (FromN d) \<le> 5" using FromN_length [of d 5] assms(2) by simp
  then have fl: "span_field ts (CHR ''D'') = Some (FromN d)" "span_field ts (CHR ''H'') = Some (fmt_0d 2 h)"
    "span_field ts (CHR ''M'') = Some (fmt_0d 2 m)" "span_field ts (CHR ''S'') = Some (fmt_0d 2 s)"
    using assms(3-8) by (simp_all add: span_field_def print8_def parts fmt_fw)
  let ?f = "''%D/%H/%M/%S''"
  have f: "at ?f 0 = Some (CHR ''%'')" "at ?f (Suc 0) = Some (CHR ''D'')" "at ?f 2 = Some (CHR ''/'')"
    "at ?f 3 = Some (CHR ''%'')" "at ?f (Suc 3) = Some (CHR ''H'')" "at ?f 5 = Some (CHR ''/'')"
    "at ?f 6 = Some (CHR ''%'')" "at ?f (Suc 6) = Some (CHR ''M'')" "at ?f 8 = Some (CHR ''/'')"
    "at ?f 9 = Some (CHR ''%'')" "at ?f (Suc 9) = Some (CHR ''S'')" "at ?f 11 = Some NUL"
    by (simp_all add: at_def)
  have sl: "CHR ''/'' \<noteq> NUL" by (simp add: NUL_def)
  have "tostr_loop ts ?f 0 [] = tostr_loop ts ?f 2 (FromN d)"
    using tostr_step [OF f(1,2) fl(1), of "[]"] by (simp only: add_0 append_Nil)
  also have "\<dots> = tostr_loop ts ?f 5 ((FromN d @ ''/'') @ fmt_0d 2 h)"
    using tostr_char [OF f(3) sl, of ts "FromN d"] tostr_step [OF f(4,5) fl(2), of "FromN d @ ''/''"] by simp
  also have "\<dots> = tostr_loop ts ?f 8 ((FromN d @ ''/'' @ fmt_0d 2 h @ ''/'') @ fmt_0d 2 m)"
    using tostr_char [OF f(6) sl, of ts "(FromN d @ ''/'') @ fmt_0d 2 h"]
      tostr_step [OF f(7,8) fl(3), of "FromN d @ ''/'' @ fmt_0d 2 h @ ''/''"] by simp
  also have "\<dots> = tostr_loop ts ?f 11 ((FromN d @ ''/'' @ fmt_0d 2 h @ ''/'' @ fmt_0d 2 m @ ''/'') @ fmt_0d 2 s)"
    using tostr_char [OF f(9) sl, of ts "(FromN d @ ''/'' @ fmt_0d 2 h @ ''/'') @ fmt_0d 2 m"]
      tostr_step [OF f(10,11) fl(4), of "FromN d @ ''/'' @ fmt_0d 2 h @ ''/'' @ fmt_0d 2 m @ ''/''"] by simp
  also have "\<dots> = Some (FromN d @ ''/'' @ fmt_0d 2 h @ ''/'' @ fmt_0d 2 m @ ''/'' @ fmt_0d 2 s)"
    using f(12) by (subst tostr_loop.simps) simp
  finally show ?thesis by (simp add: tostr_def parts)
qed

theorem timespan_text_witness:
  "\<exists>ts. timespan_new 1 2 3 4 = Some ts \<and> GetHours ts = 2 \<and>
    tostr ts (Some ''%D/%H/%M/%S'') = Some (FromN 1 @ ''/'' @ fmt_0d 2 2 @ ''/'' @ fmt_0d 2 3 @ ''/'' @ fmt_0d 2 4)"
proof -
  have "timespan_new 1 2 3 4 = Some \<lparr>m_span = 93784\<rparr>"
    by (simp add: timespan_new_def chk32_def int32_ok_def)
  from this timespan_text [OF this] show ?thesis by auto
qed

text \<open>A format that ends in a percent sign makes \<^verbatim>\<open>tostr\<close> read behind the terminator.\<close>

lemma tostr_trailing_percent: "tostr ts (Some ''%'') = None"
  by (simp add: tostr_def tostr_loop.simps [of ts "''%''"] at_def NUL_def span_field_def)

text \<open>A span of ten million days or more overruns the eight bytes \<^verbatim>\<open>tostr\<close> prints the days into.\<close>

lemma tostr_days_overrun: "tostr \<lparr>m_span = 864000000000\<rparr> (Some ''%D'') = None"
proof -
  have "GetDays \<lparr>m_span = 864000000000\<rparr> = 10000000"
    by (simp add: GetDays_def to_itype_def signed_divide_int_def)
  then have "span_field \<lparr>m_span = 864000000000\<rparr> (CHR ''D'') = None"
    by (simp add: span_field_def print8_def FromN_small)
  then show ?thesis
    by (simp add: tostr_def tostr_loop.simps [of _ "''%D''"] at_def NUL_def)
qed

end
