(* ===== verification/Outcome.thy ===== *)
theory Outcome
  imports Hui_Prelude "HOL-Library.Monad_Syntax"
begin

text \<open>
  What an operation of the library does: it returns a value, throws \<^verbatim>\<open>HException\<close> with an error code (the macro
  \<^verbatim>\<open>HASSERT_THROW\<close> of \<^verbatim>\<open>hexception.h\<close>), or is \<open>Stuck\<close> where the C++ has undefined behaviour (an access outside an
  array, signed overflow) or a failed assertion.
\<close>

datatype 'a run = Ret 'a | Throws RET_T | Stuck

primrec run_bind :: "'a run \<Rightarrow> ('a \<Rightarrow> 'b run) \<Rightarrow> 'b run" where
  "run_bind (Ret a) f = f a"
| "run_bind (Throws e) f = Throws e"
| "run_bind Stuck f = Stuck"

definition run_of :: "'a option \<Rightarrow> 'a run" where
  "run_of r = (case r of None \<Rightarrow> Stuck | Some a \<Rightarrow> Ret a)"

definition HASSERT_THROW :: "bool \<Rightarrow> RET_T \<Rightarrow> 'a run \<Rightarrow> 'a run" where
  "HASSERT_THROW ff ee rest = (if ff then rest else Throws ee)"

lemma run_bind_Ret_iff: "run_bind m f = Ret b \<longleftrightarrow> (\<exists>a. m = Ret a \<and> f a = Ret b)"
  by (cases m) auto

lemma run_bind_RetE:
  assumes "run_bind m f = Ret b" obtains a where "m = Ret a" "f a = Ret b"
  using assms by (auto simp: run_bind_Ret_iff)

lemma run_of_simps [simp]: "run_of (Some a) = Ret a" "run_of None = Stuck" "run_of r = Ret b \<longleftrightarrow> r = Some b"
  by (auto simp: run_of_def split: option.splits)

lemma HASSERT_THROW_simps [simp]:
  "ff \<Longrightarrow> HASSERT_THROW ff ee rest = rest" "\<not> ff \<Longrightarrow> HASSERT_THROW ff ee rest = Throws ee"
  by (simp_all add: HASSERT_THROW_def)

lemma HASSERT_THROW_Ret [simp]: "HASSERT_THROW ff ee rest = Ret a \<longleftrightarrow> ff \<and> rest = Ret a"
  by (simp add: HASSERT_THROW_def)

text \<open>Values of \<^verbatim>\<open>HN\<close>, the 32-bit \<^verbatim>\<open>int\<close>: arithmetic that leaves the range is undefined, conversions wrap.\<close>

definition HN_ok :: "int \<Rightarrow> bool" where
  "HN_ok n \<longleftrightarrow> - (2 ^ 31) \<le> n \<and> n < 2 ^ 31"

definition HN_arith :: "int \<Rightarrow> int run" where
  "HN_arith n = (if HN_ok n then Ret n else Stuck)"

definition to_HN :: "nat \<Rightarrow> int" where
  "to_HN n = signed_take_bit 31 (int n)"

lemma to_HN_id: "n < 2 ^ 31 \<Longrightarrow> to_HN n = int n"
  unfolding to_HN_def by (rule signed_take_bit_int_eq_self) auto

lemma HN_arith_Ret [simp]: "HN_arith n = Ret m \<longleftrightarrow> HN_ok n \<and> m = n"
  by (auto simp: HN_arith_def)

end
