(* ===== verification/Roll_Buffer.thy ===== *)
theory Roll_Buffer
  imports Outcome
begin

text \<open>
  The pool of fixed-size memory blocks of \<^verbatim>\<open>src/src/utils/rollfixedbuffer.h\<close> and \<^verbatim>\<open>rollfixedbuffer.cpp\<close>.

  A \<^verbatim>\<open>BufferRefPtr\<close> is the number of the reference in \<^verbatim>\<open>m_all_ref_pts\<close>, in the order of allocation; \<^verbatim>\<open>m_ptr\<close> is an
  offset into the one block \<^verbatim>\<open>m_data\<close>. \<^verbatim>\<open>RefQueue\<close> guards its queue with a mutex, so every access to a queue is one
  step; a \<^verbatim>\<open>Pop\<close> on an empty queue waits, which is the outcome \<open>Waits\<close>. The condition variable's calls do not fail.
\<close>

subsection \<open>State\<close>

record BufferItemRef =
  m_iGroupId :: int
  m_index :: int
  m_iSize :: int
  m_ptr :: int
  m_buffer :: bool
  m_datalen :: int

record RollFixBuffer =
  m_iGroupCount :: int
  m_iGroupItemCount :: int
  m_iItemSize :: int
  m_data :: "HMEM option"
  m_queues :: "nat list list"
  m_all_ref_pts :: "BufferItemRef list"

definition BufferItemRef_new :: "int \<Rightarrow> int \<Rightarrow> int \<Rightarrow> int \<Rightarrow> BufferItemRef" where
  "BufferItemRef_new iGroupId index iSize ptr =
     \<lparr>m_iGroupId = iGroupId, m_index = index, m_iSize = iSize, m_ptr = ptr, m_buffer = False, m_datalen = 0\<rparr>"

definition SetLen :: "int \<Rightarrow> BufferItemRef \<Rightarrow> BufferItemRef" where
  "SetLen len ref = ref\<lparr>m_datalen := len\<rparr>"

definition SetBuffer :: "BufferItemRef \<Rightarrow> BufferItemRef" where
  "SetBuffer ref = ref\<lparr>m_buffer := True\<rparr>"

subsection \<open>The queue of references\<close>

definition RefQueue_new :: "nat list" where
  "RefQueue_new = []"

definition RefQueue_Push :: "nat list \<Rightarrow> nat \<Rightarrow> nat list" where
  "RefQueue_Push q ptr = q @ [ptr]"

text \<open>\<open>None\<close>: the queue is empty and the caller waits.\<close>

definition RefQueue_Pop :: "nat list \<Rightarrow> (nat \<times> nat list) option" where
  "RefQueue_Pop q = (case q of [] \<Rightarrow> None | res # q' \<Rightarrow> Some (res, q'))"

subsection \<open>The pool\<close>

definition get_mem_item :: "RollFixBuffer \<Rightarrow> int \<Rightarrow> int \<Rightarrow> int run" where
  "get_mem_item b iGroupId index =
     HASSERT_THROW (iGroupId < m_iGroupCount b) INVL_PARA
     (HASSERT_THROW (index < m_iGroupItemCount b) INVL_PARA
     (HASSERT_THROW (m_data b \<noteq> None) SRC_ERR
     (run_bind (HN_arith (iGroupId * m_iGroupItemCount b)) (\<lambda>a.
      run_bind (HN_arith (a * m_iItemSize b)) (\<lambda>a.
      run_bind (HN_arith (index * m_iItemSize b)) (\<lambda>c.
      HN_arith (a + c)))))))"

fun item_loop :: "int \<Rightarrow> int list \<Rightarrow> nat list \<Rightarrow> RollFixBuffer \<Rightarrow> (nat list \<times> RollFixBuffer) run" where
  "item_loop i [] ref_q b = Ret (ref_q, b)"
| "item_loop i (j # js) ref_q b =
     run_bind (get_mem_item b i j) (\<lambda>data_ptr.
       item_loop i js (RefQueue_Push ref_q (length (m_all_ref_pts b)))
         (b\<lparr>m_all_ref_pts := m_all_ref_pts b @ [BufferItemRef_new i j (m_iItemSize b) data_ptr]\<rparr>))"

fun group_loop :: "int list \<Rightarrow> RollFixBuffer \<Rightarrow> RollFixBuffer run" where
  "group_loop [] b = Ret b"
| "group_loop (i # is) b =
     run_bind (item_loop i (map int [0..<nat (m_iGroupItemCount b)]) RefQueue_new b) (\<lambda>(ref_q, b).
       group_loop is (b\<lparr>m_queues := m_queues b @ [ref_q]\<rparr>))"

text \<open>\<open>malloc\<close> gives a block for a size, or \<open>None\<close>; its first contents are whatever was there.\<close>

definition RollFixBuffer_new :: "(int \<Rightarrow> HMEM option) \<Rightarrow> int \<Rightarrow> int \<Rightarrow> int \<Rightarrow> RollFixBuffer run" where
  "RollFixBuffer_new malloc iGroupCount GroupItemCount ItemSize =
     run_bind (HN_arith (iGroupCount * GroupItemCount)) (\<lambda>n.
     run_bind (HN_arith (n * ItemSize)) (\<lambda>n.
     HASSERT_THROW (malloc n \<noteq> None) MEMORY_OUT
     (group_loop (map int [0..<nat iGroupCount])
        \<lparr>m_iGroupCount = iGroupCount, m_iGroupItemCount = GroupItemCount, m_iItemSize = ItemSize,
         m_data = malloc n, m_queues = [], m_all_ref_pts = []\<rparr>)))"

text \<open>A negative group number passes the check and indexes outside the vector.\<close>

datatype 'a wait = Now 'a | Waits

definition RollFixBuffer_Pop :: "RollFixBuffer \<Rightarrow> int \<Rightarrow> (nat \<times> RollFixBuffer) wait run" where
  "RollFixBuffer_Pop b iGroupId =
     HASSERT_THROW (iGroupId < m_iGroupCount b) INVL_PARA
     (if 0 \<le> iGroupId \<and> nat iGroupId < length (m_queues b)
      then case RefQueue_Pop (m_queues b ! nat iGroupId) of
             None \<Rightarrow> Ret Waits
           | Some (res, q) \<Rightarrow>
               if res < length (m_all_ref_pts b)
               then Ret (Now (res, b\<lparr>m_queues := (m_queues b)[nat iGroupId := q],
                                    m_all_ref_pts := (m_all_ref_pts b)[res := SetBuffer (m_all_ref_pts b ! res)]\<rparr>))
               else Stuck
      else Stuck)"

definition RollFixBuffer_PullBack :: "RollFixBuffer \<Rightarrow> nat option \<Rightarrow> RollFixBuffer run" where
  "RollFixBuffer_PullBack b ptr =
     (case ptr of
        None \<Rightarrow> Throws INVL_PARA
      | Some p \<Rightarrow>
          if p < length (m_all_ref_pts b)
          then let g = m_iGroupId (m_all_ref_pts b ! p) in
               if 0 \<le> g \<and> nat g < length (m_queues b)
               then Ret (b\<lparr>m_queues := (m_queues b)[nat g := RefQueue_Push (m_queues b ! nat g) p]\<rparr>)
               else Stuck
          else Stuck)"

subsection \<open>Operations of a reference\<close>

definition BufferItemRef_PullBack :: "RollFixBuffer \<Rightarrow> nat \<Rightarrow> RollFixBuffer run" where
  "BufferItemRef_PullBack b p =
     (if p < length (m_all_ref_pts b)
      then HASSERT_THROW (m_buffer (m_all_ref_pts b ! p)) SRC_ERR (RollFixBuffer_PullBack b (Some p))
      else Stuck)"

text \<open>A negative length passes the check and becomes a huge size of \<^verbatim>\<open>memcpy\<close>.\<close>

definition BufferItemRef_Write :: "RollFixBuffer \<Rightarrow> nat \<Rightarrow> HMEM \<Rightarrow> int \<Rightarrow> (int \<times> RollFixBuffer) run" where
  "BufferItemRef_Write b p pdata len =
     (if p < length (m_all_ref_pts b)
      then let ref = m_all_ref_pts b ! p in
           HASSERT_THROW (len < m_iSize ref) INVL_PARA
           (case m_data b of
              None \<Rightarrow> Stuck
            | Some d \<Rightarrow>
                if 0 \<le> len \<and> 0 \<le> m_ptr ref
                then run_of (do { src \<leftarrow> mem_read pdata 0 (nat len);
                                  d' \<leftarrow> mem_write d (nat (m_ptr ref)) src;
                                  Some (len, b\<lparr>m_data := Some d',
                                              m_all_ref_pts := (m_all_ref_pts b)[p := SetLen len ref]\<rparr>) })
                else Stuck)
      else Stuck)"

text \<open>What a holder of a reference reads: \<^verbatim>\<open>GetDataLen\<close> bytes from \<^verbatim>\<open>GetData\<close>.\<close>

definition GetData :: "RollFixBuffer \<Rightarrow> nat \<Rightarrow> HMEM option" where
  "GetData b p =
     do { d \<leftarrow> m_data b;
          if p < length (m_all_ref_pts b)
          then mem_read d (nat (m_ptr (m_all_ref_pts b ! p))) (nat (m_datalen (m_all_ref_pts b ! p)))
          else None }"

subsection \<open>Blocks that do not overlap\<close>

locale block_layout =
  fixes valid :: "'g \<Rightarrow> nat \<Rightarrow> bool" and base :: "'g \<Rightarrow> nat \<Rightarrow> nat" and size :: "'g \<Rightarrow> nat" and total :: "'g \<Rightarrow> nat"
  assumes inside: "valid g r \<Longrightarrow> base g r + size g \<le> total g"
    and apart: "valid g r \<Longrightarrow> valid g r' \<Longrightarrow> r \<noteq> r' \<Longrightarrow> base g r + size g \<le> base g r' \<or> base g r' + size g \<le> base g r"
begin

lemma write_inside:
  assumes "valid g r" "length bs \<le> size g" "length d = total g"
  obtains d' where "mem_write d (base g r) bs = Some d'" "length d' = total g"
    "mem_read d' (base g r) (length bs) = Some bs"
proof -
  have "base g r + length bs \<le> length d" using inside [OF assms(1)] assms(2,3) by simp
  then obtain d' where d': "mem_write d (base g r) bs = Some d'" by (simp add: mem_write_def)
  show thesis
    using that [OF d'] mem_write_length [OF d'] mem_read_write [OF d'] assms(3) by simp
qed

lemma write_frame:
  assumes "valid g r" "valid g r'" "r \<noteq> r'" "length bs \<le> size g" "n \<le> size g" "length d = total g"
    "mem_write d (base g r) bs = Some d'"
  shows "mem_read d' (base g r') n = mem_read d (base g r') n"
proof -
  have d': "d' = take (base g r) d @ bs @ drop (base g r + length bs) d" "base g r + length bs \<le> length d"
    using assms(7) by (auto simp: mem_write_def split: if_splits)
  have len: "length d' = length d" using mem_write_length [OF assms(7)] .
  have "take n (drop (base g r') d') = take n (drop (base g r') d)"
    using apart [OF assms(1-3)]
  proof
    assume "base g r + size g \<le> base g r'"
    then show ?thesis using d' assms(4) by (simp add: drop_append)
  next
    assume "base g r' + size g \<le> base g r"
    then show ?thesis using d' assms(5) by (simp add: drop_take)
  qed
  then show ?thesis by (simp add: mem_read_def len)
qed

end

text \<open>The blocks of the pool: reference \<open>r\<close> owns the \<open>r\<close>-th block of the geometry (groups, items, size).\<close>

interpretation pool: block_layout
  "\<lambda>(n, s) r. r < n" "\<lambda>(n, s) r. r * s" "\<lambda>(n, s). s" "\<lambda>(n, s). n * s :: nat"
proof
  fix g :: "nat \<times> nat" and r assume v: "(\<lambda>(n, s) r. r < n) g r"
  obtain n s where g: "g = (n, s)" by (cases g)
  have "Suc r * s \<le> n * s" using v g by (intro mult_le_mono1) simp
  then show "(\<lambda>(n, s) r. r * s) g r + (\<lambda>(n, s). s) g \<le> (\<lambda>(n, s). n * s) g" using g by simp
next
  fix g :: "nat \<times> nat" and r r' :: nat assume "r \<noteq> r'"
  obtain n s where g: "g = (n, s)" by (cases g)
  have "Suc r * s \<le> r' * s \<or> Suc r' * s \<le> r * s"
    using \<open>r \<noteq> r'\<close> by (meson Suc_leI linorder_neqE_nat mult_le_mono1)
  then show "(\<lambda>(n, s) r. r * s) g r + (\<lambda>(n, s). s) g \<le> (\<lambda>(n, s) r. r * s) g r' \<or>
      (\<lambda>(n, s) r. r * s) g r' + (\<lambda>(n, s). s) g \<le> (\<lambda>(n, s) r. r * s) g r" using g by auto
qed


subsection \<open>Well-formed pools\<close>

definition ref_ok :: "nat \<Rightarrow> nat \<Rightarrow> nat \<Rightarrow> BufferItemRef \<Rightarrow> bool" where
  "ref_ok n s r ref \<longleftrightarrow>
     m_iGroupId ref = int (r div n) \<and> m_iSize ref = int s \<and> m_ptr ref = int (r * s) \<and>
     0 \<le> m_datalen ref \<and> m_datalen ref \<le> int s"

definition pool_ok :: "nat \<Rightarrow> nat \<Rightarrow> nat \<Rightarrow> RollFixBuffer \<Rightarrow> bool" where
  "pool_ok g n s b \<longleftrightarrow>
     m_iGroupCount b = int g \<and> m_iGroupItemCount b = int n \<and> m_iItemSize b = int s \<and>
     (\<exists>d. m_data b = Some d \<and> length d = g * n * s) \<and>
     length (m_queues b) = g \<and> length (m_all_ref_pts b) = g * n \<and>
     (\<forall>r < g * n. ref_ok n s r (m_all_ref_pts b ! r))"

lemma pool_ok_ref: "pool_ok g n s b \<Longrightarrow> r < g * n \<Longrightarrow> ref_ok n s r (m_all_ref_pts b ! r)"
  by (simp add: pool_ok_def)

lemma pool_ok_update:
  "pool_ok g n s b \<Longrightarrow> ref_ok n s r ref \<Longrightarrow> pool_ok g n s (b\<lparr>m_all_ref_pts := (m_all_ref_pts b)[r := ref]\<rparr>)"
  unfolding pool_ok_def by (cases "r < g * n") (auto simp: nth_list_update)

lemma pool_ok_queues: "pool_ok g n s b \<Longrightarrow> length q = g \<Longrightarrow> pool_ok g n s (b\<lparr>m_queues := q\<rparr>)"
  by (simp add: pool_ok_def)

definition free_refs :: "nat \<Rightarrow> nat \<Rightarrow> nat set \<Rightarrow> nat \<Rightarrow> nat set" where
  "free_refs g n lent i = {r. r < g * n \<and> r div n = i \<and> r \<notin> lent}"

text \<open>Every queue holds, once each, the references of its group that are not lent; the lent ones know the pool.\<close>

definition pool_inv :: "nat \<Rightarrow> nat \<Rightarrow> nat \<Rightarrow> RollFixBuffer \<Rightarrow> nat set \<Rightarrow> bool" where
  "pool_inv g n s b lent \<longleftrightarrow>
     pool_ok g n s b \<and> lent \<subseteq> {..< g * n} \<and> (\<forall>r \<in> lent. m_buffer (m_all_ref_pts b ! r)) \<and>
     (\<forall>i < g. distinct (m_queues b ! i) \<and> set (m_queues b ! i) = free_refs g n lent i)"

definition new_ref :: "nat \<Rightarrow> nat \<Rightarrow> int \<Rightarrow> int \<Rightarrow> BufferItemRef" where
  "new_ref n s i j = BufferItemRef_new i j (int s) ((i * int n + j) * int s)"

lemma HN_ok_nat: "m \<le> k \<Longrightarrow> k < 2 ^ 31 \<Longrightarrow> HN_ok (int m)"
  by (simp add: HN_ok_def)

lemma div_eq_range: "0 < n \<Longrightarrow> r div n = k \<longleftrightarrow> k * n \<le> r \<and> r < Suc k * (n :: nat)"
  by (metis div_less_iff_less_mult less_Suc_eq_le less_eq_div_iff_mult_less_eq order_antisym order_refl)

lemma get_mem_item_slot:
  assumes b: "m_iGroupCount b = int g" "m_iGroupItemCount b = int n" "m_iItemSize b = int s" "m_data b = Some d"
    and sz: "g * n < 2 ^ 31" "g * n * s < 2 ^ 31" and ij: "i < g" "j < n"
  shows "get_mem_item b (int i) (int j) = Ret ((int i * int n + int j) * int s)"
proof -
  have "Suc i * n \<le> g * n" using ij by (intro mult_le_mono1) simp
  then have slot: "i * n + j \<le> g * n" "j \<le> g * n" using ij by simp_all
  have le: "i * n \<le> g * n" "i * n * s \<le> g * n * s" "j * s \<le> g * n * s" "i * n * s + j * s \<le> g * n * s"
    using mult_le_mono1 [OF slot(1), of s] mult_le_mono1 [OF slot(2), of s] slot ij by (simp_all add: add_mult_distrib)
  have "HN_ok (int i * int n)" "HN_ok (int i * int n * int s)" "HN_ok (int j * int s)" "HN_ok (int i * int n * int s + int j * int s)"
    using HN_ok_nat [OF le(1) sz(1)] HN_ok_nat [OF le(2) sz(2)] HN_ok_nat [OF le(3) sz(2)] HN_ok_nat [OF le(4) sz(2)]
    by simp_all
  then show ?thesis
    using b ij by (simp add: get_mem_item_def HN_arith_def distrib_right)
qed

lemma item_loop_builds:
  assumes sz: "g * n < 2 ^ 31" "g * n * s < 2 ^ 31" "i < g"
    and "m_iGroupCount b = int g" "m_iGroupItemCount b = int n" "m_iItemSize b = int s" "m_data b = Some d"
    and "\<forall>j \<in> set js. j < n"
  shows "item_loop (int i) (map int js) q b =
    Ret (q @ [length (m_all_ref_pts b) ..< length (m_all_ref_pts b) + length js],
      b\<lparr>m_all_ref_pts := m_all_ref_pts b @ map (\<lambda>j. new_ref n s (int i) (int j)) js\<rparr>)"
  using assms(4-)
proof (induction js arbitrary: q b)
  case (Cons j js)
  have m: "get_mem_item b (int i) (int j) = Ret ((int i * int n + int j) * int s)"
    using Cons.prems by (intro get_mem_item_slot [OF Cons.prems(1-4) sz(1,2) sz(3)]) simp
  have u: "a # [Suc a ..< Suc (a + k)] = [a ..< Suc (a + k)]" for a k :: nat
    by (rule upt_conv_Cons [symmetric]) simp
  from Cons.prems show ?case
    by (simp add: m Cons.IH RefQueue_Push_def new_ref_def u del: upt_Suc)
qed simp

lemma group_loop_builds:
  assumes sz: "g * n < 2 ^ 31" "g * n * s < 2 ^ 31"
    and "m_iGroupCount b = int g" "m_iGroupItemCount b = int n" "m_iItemSize b = int s" "m_data b = Some d"
    and "\<forall>i \<in> set is. i < g"
  shows "group_loop (map int is) b =
    Ret (b\<lparr>m_all_ref_pts := m_all_ref_pts b @ concat (map (\<lambda>i. map (\<lambda>j. new_ref n s (int i) (int j)) [0..<n]) is),
           m_queues := m_queues b @
             map (\<lambda>k. [length (m_all_ref_pts b) + k * n ..< length (m_all_ref_pts b) + k * n + n]) [0..<length is]\<rparr>)"
  using assms(3-)
proof (induction "is" arbitrary: b)
  case (Cons i "is")
  have i: "i < g" using Cons.prems(5) by simp
  have items: "item_loop (int i) (map int [0..<n]) RefQueue_new b =
      Ret ([length (m_all_ref_pts b) ..< length (m_all_ref_pts b) + n],
        b\<lparr>m_all_ref_pts := m_all_ref_pts b @ map (\<lambda>j. new_ref n s (int i) (int j)) [0..<n]\<rparr>)"
    using item_loop_builds [OF sz i Cons.prems(1-4), of "[0..<n]" RefQueue_new] by (simp add: RefQueue_new_def)
  have sh: "map (\<lambda>k. [a + k * n ..< a + k * n + n]) [0..<Suc m] =
      [a ..< a + n] # map (\<lambda>k. [a + n + k * n ..< a + n + k * n + n]) [0..<m]" for a m
    by (simp add: map_upt_Suc add.assoc del: upt_Suc)
  show ?case
    using Cons.prems by (simp add: items Cons.IH sh del: upt_Suc)
qed simp

lemma concat_rows: "concat (map (\<lambda>i. map (f i) [0..<n]) [0..<g]) = map (\<lambda>r. f (r div n) (r mod n)) [0..<g * n]"
proof (induction g)
  case (Suc g)
  have "[0..<Suc g * n] = [0..<g * n] @ [g * n ..< g * n + n]"
    using upt_add_eq_append [of 0 "g * n" n] by (simp add: add.commute [of n])
  moreover have "map (\<lambda>r. f (r div n) (r mod n)) [g * n ..< g * n + n] = map (f g) [0..<n]"
    by (rule nth_equalityI) simp_all
  ultimately show ?case using Suc by simp
qed simp

lemma RollFixBuffer_new_inv:
  assumes "g * n < 2 ^ 31" "g * n * s < 2 ^ 31" "malloc (int (g * n * s)) = Some d" "length d = g * n * s"
  shows "\<exists>b. RollFixBuffer_new malloc (int g) (int n) (int s) = Ret b \<and> pool_inv g n s b {}"
proof -
  let ?b0 = "\<lparr>m_iGroupCount = int g, m_iGroupItemCount = int n, m_iItemSize = int s, m_data = Some d, m_queues = [],
    m_all_ref_pts = []\<rparr>"
  let ?refs = "map (\<lambda>r. new_ref n s (int (r div n)) (int (r mod n))) [0..<g * n]"
  let ?qs = "map (\<lambda>k. [k * n ..< k * n + n]) [0..<g]"
  have "group_loop (map int [0..<g]) ?b0 = Ret (?b0\<lparr>m_all_ref_pts := ?refs, m_queues := ?qs\<rparr>)"
    using group_loop_builds [OF assms(1,2), of ?b0 d "[0..<g]"] by (simp add: concat_rows)
  moreover have "HN_ok (int g * int n)" "HN_ok (int g * int n * int s)"
    using assms(1,2) by (simp_all add: HN_ok_def flip: of_nat_mult)
  ultimately have new: "RollFixBuffer_new malloc (int g) (int n) (int s) = Ret (?b0\<lparr>m_all_ref_pts := ?refs, m_queues := ?qs\<rparr>)"
    using assms(3) by (simp add: RollFixBuffer_new_def HN_arith_def)
  have "{k * n ..< k * n + n} = free_refs g n {} k" if "k < g" for k
  proof -
    have "Suc k * n \<le> g * n" using that by (intro mult_le_mono1) simp
    then have "r \<in> {k * n ..< k * n + n} \<longleftrightarrow> r \<in> free_refs g n {} k" for r
      by (cases "n = 0") (auto simp: free_refs_def div_eq_range)
    then show ?thesis by blast
  qed
  moreover have "(int (r div n) * int n + int (r mod n)) * int s = int (r * s)" for r
    by (simp flip: of_nat_mult of_nat_add)
  ultimately have "pool_inv g n s (?b0\<lparr>m_all_ref_pts := ?refs, m_queues := ?qs\<rparr>) {}"
    using assms(4) by (simp add: pool_inv_def pool_ok_def ref_ok_def new_ref_def BufferItemRef_new_def)
  with new show ?thesis by blast
qed

subsection \<open>Clients of the pool\<close>

text \<open>
  The clients, on any threads: one takes a reference out of a group, a holder writes through its reference or hands it
  back. The second component of the state is the set of references the clients hold.
\<close>

inductive pool_step :: "RollFixBuffer \<times> nat set \<Rightarrow> RollFixBuffer \<times> nat set \<Rightarrow> bool" where
  pop: "RollFixBuffer_Pop b i = Ret (Now (r, b')) \<Longrightarrow> pool_step (b, lent) (b', insert r lent)"
| fill: "r \<in> lent \<Longrightarrow> BufferItemRef_Write b r pdata len = Ret (k, b') \<Longrightarrow> pool_step (b, lent) (b', lent)"
| pull: "r \<in> lent \<Longrightarrow> BufferItemRef_PullBack b r = Ret b' \<Longrightarrow> pool_step (b, lent) (b', lent - {r})"

lemma group_bound: "r < g * n \<Longrightarrow> r div n < (g :: nat)"
  by (simp add: less_mult_imp_div_less)

lemma pop_cases:
  assumes "pool_inv g n s b lent" "i < g"
  shows "RollFixBuffer_Pop b (int i) =
    (case m_queues b ! i of
       [] \<Rightarrow> Ret Waits
     | r # q \<Rightarrow> Ret (Now (r, b\<lparr>m_queues := (m_queues b)[i := q],
                             m_all_ref_pts := (m_all_ref_pts b)[r := SetBuffer (m_all_ref_pts b ! r)]\<rparr>)))"
proof -
  have q: "set (m_queues b ! i) \<subseteq> {..< g * n}"
    using assms by (auto simp: pool_inv_def free_refs_def)
  have l: "length (m_queues b) = g" "length (m_all_ref_pts b) = g * n" "m_iGroupCount b = int g"
    using assms by (simp_all add: pool_inv_def pool_ok_def)
  show ?thesis
    using assms(2) q l by (cases "m_queues b ! i") (simp_all add: RollFixBuffer_Pop_def RefQueue_Pop_def)
qed

lemma pop_index:
  assumes "pool_inv g n s b lent" "RollFixBuffer_Pop b i = Ret w"
  shows "\<exists>k < g. i = int k"
proof -
  have "i < int g" "0 \<le> i"
    using assms by (auto simp: RollFixBuffer_Pop_def pool_inv_def pool_ok_def split: if_splits)
  then show ?thesis by (intro exI [of _ "nat i"]) auto
qed

lemma pop_inv:
  assumes inv: "pool_inv g n s b lent" and i: "i < g" and p: "RollFixBuffer_Pop b (int i) = Ret (Now (r, b'))"
  shows "pool_inv g n s b' (insert r lent) \<and> r \<notin> lent \<and> r < g * n \<and> r div n = i"
proof -
  obtain q where q: "m_queues b ! i = r # q"
    and b': "b' = b\<lparr>m_queues := (m_queues b)[i := q], m_all_ref_pts := (m_all_ref_pts b)[r := SetBuffer (m_all_ref_pts b ! r)]\<rparr>"
    using p unfolding pop_cases [OF inv i] by (auto split: list.splits)
  have qi: "distinct (r # q)" "set (r # q) = free_refs g n lent i"
    using inv i q by (metis pool_inv_def)+
  then have r: "r \<notin> lent" "r < g * n" "r div n = i" by (auto simp: free_refs_def)
  have ok: "pool_ok g n s b'"
  proof -
    have "pool_ok g n s b" using inv by (simp add: pool_inv_def)
    moreover from this have "ref_ok n s r (SetBuffer (m_all_ref_pts b ! r))" "length ((m_queues b)[i := q]) = g"
      using pool_ok_ref [of g n s b r] r(2) by (simp_all add: SetBuffer_def ref_ok_def pool_ok_def)
    ultimately show ?thesis unfolding b' using pool_ok_update [OF pool_ok_queues] by fastforce
  qed
  have qs: "distinct (m_queues b' ! k) \<and> set (m_queues b' ! k) = free_refs g n (insert r lent) k" if "k < g" for k
  proof (cases "k = i")
    case True
    then have "m_queues b' ! k = q" using inv i by (simp add: b' pool_inv_def pool_ok_def)
    then show ?thesis using qi True by (auto simp: free_refs_def)
  next
    case False
    then have "m_queues b' ! k = m_queues b ! k" by (simp add: b')
    then show ?thesis using inv that False r(3) by (auto simp: pool_inv_def free_refs_def)
  qed
  have "\<forall>x \<in> insert r lent. m_buffer (m_all_ref_pts b' ! x)"
    using inv r(2) by (auto simp: b' pool_inv_def pool_ok_def nth_list_update SetBuffer_def)
  then show ?thesis using inv ok qs r by (auto simp: pool_inv_def)
qed

lemma back_inv:
  assumes inv: "pool_inv g n s b lent" and r: "r \<in> lent"
  shows "\<exists>b'. BufferItemRef_PullBack b r = Ret b' \<and> pool_inv g n s b' (lent - {r}) \<and>
    m_queues b' ! (r div n) = m_queues b ! (r div n) @ [r]"
proof -
  have rn: "r < g * n" "m_buffer (m_all_ref_pts b ! r)" "m_iGroupId (m_all_ref_pts b ! r) = int (r div n)"
    "length (m_all_ref_pts b) = g * n" "length (m_queues b) = g"
    using inv r by (auto simp: pool_inv_def pool_ok_def ref_ok_def)
  note gb = group_bound [OF rn(1)]
  let ?b = "b\<lparr>m_queues := (m_queues b)[r div n := m_queues b ! (r div n) @ [r]]\<rparr>"
  have pb: "BufferItemRef_PullBack b r = Ret ?b"
    using rn gb by (simp add: BufferItemRef_PullBack_def RollFixBuffer_PullBack_def RefQueue_Push_def)
  have "distinct (m_queues ?b ! k) \<and> set (m_queues ?b ! k) = free_refs g n (lent - {r}) k" if "k < g" for k
    using inv that rn gb r by (cases "k = r div n") (auto simp: pool_inv_def free_refs_def)
  moreover have "pool_ok g n s ?b" using inv by (auto simp: pool_inv_def pool_ok_def)
  ultimately have "pool_inv g n s ?b (lent - {r})" using inv by (auto simp: pool_inv_def)
  then show ?thesis using pb gb rn by auto
qed

lemma Write_effect:
  assumes inv: "pool_inv g n s b lent" and r: "r < g * n" and len: "0 \<le> len" "len < int s" "nat len \<le> length pdata"
  obtains d d' where "m_data b = Some d" "length d = g * n * s" "mem_write d (r * s) (take (nat len) pdata) = Some d'"
    "length d' = g * n * s" "mem_read d' (r * s) (nat len) = Some (take (nat len) pdata)"
    "BufferItemRef_Write b r pdata len =
       Ret (len, b\<lparr>m_data := Some d', m_all_ref_pts := (m_all_ref_pts b)[r := SetLen len (m_all_ref_pts b ! r)]\<rparr>)"
proof -
  obtain d where d: "m_data b = Some d" "length d = g * n * s"
    using inv by (auto simp: pool_inv_def pool_ok_def)
  let ?bs = "take (nat len) pdata"
  have bs: "length ?bs = nat len" using len by simp
  have "length ?bs \<le> s" using len by simp
  then obtain d' where d': "mem_write d (r * s) ?bs = Some d'" "length d' = g * n * s" "mem_read d' (r * s) (length ?bs) = Some ?bs"
    using pool.write_inside [of "(g * n, s)" r ?bs d] r d(2) by auto
  have ref: "ref_ok n s r (m_all_ref_pts b ! r)" "length (m_all_ref_pts b) = g * n"
    using inv r by (simp_all add: pool_inv_def pool_ok_def)
  have "BufferItemRef_Write b r pdata len =
      Ret (len, b\<lparr>m_data := Some d', m_all_ref_pts := (m_all_ref_pts b)[r := SetLen len (m_all_ref_pts b ! r)]\<rparr>)"
    using ref r len d d'(1) by (simp add: BufferItemRef_Write_def ref_ok_def flip: of_nat_mult)
  with that d d' bs show thesis by simp
qed

lemma Write_len:
  assumes "pool_inv g n s b lent" "r < g * n" "BufferItemRef_Write b r pdata len = Ret (k, b')"
  shows "0 \<le> len \<and> len < int s \<and> nat len \<le> length pdata"
proof -
  have "ref_ok n s r (m_all_ref_pts b ! r)" "length (m_all_ref_pts b) = g * n"
    using assms(1,2) by (simp_all add: pool_inv_def pool_ok_def)
  with assms(2,3) show ?thesis
    by (auto simp: BufferItemRef_Write_def ref_ok_def Let_def mem_read_def split: option.splits if_splits)
qed

lemma Write_inv:
  assumes inv: "pool_inv g n s b lent" and r: "r < g * n" and w: "BufferItemRef_Write b r pdata len = Ret (k, b')"
  shows "pool_inv g n s b' lent"
proof -
  have len: "0 \<le> len" "len < int s" "nat len \<le> length pdata" using Write_len [OF assms] by simp_all
  obtain d' where d': "length d' = g * n * s"
    and "BufferItemRef_Write b r pdata len =
      Ret (len, b\<lparr>m_data := Some d', m_all_ref_pts := (m_all_ref_pts b)[r := SetLen len (m_all_ref_pts b ! r)]\<rparr>)"
    by (rule Write_effect [OF inv r len])
  then have b': "b' = b\<lparr>m_data := Some d', m_all_ref_pts := (m_all_ref_pts b)[r := SetLen len (m_all_ref_pts b ! r)]\<rparr>"
    using w by simp
  have ok: "pool_ok g n s b" using inv by (simp add: pool_inv_def)
  then have "ref_ok n s r (SetLen len (m_all_ref_pts b ! r))"
    using pool_ok_ref [OF ok r] len by (simp add: ref_ok_def SetLen_def)
  moreover have "pool_ok g n s (b\<lparr>m_data := Some d'\<rparr>)" using ok d' by (simp add: pool_ok_def)
  ultimately have "pool_ok g n s b'" using pool_ok_update [of g n s "b\<lparr>m_data := Some d'\<rparr>"] by (simp add: b')
  moreover have "\<forall>x \<in> lent. m_buffer (m_all_ref_pts b' ! x)"
    using inv r by (auto simp: b' pool_inv_def pool_ok_def nth_list_update SetLen_def)
  ultimately show ?thesis using inv by (simp add: pool_inv_def b')
qed

lemma pool_step_inv:
  assumes "pool_step c c'" "pool_inv g n s (fst c) (snd c)"
  shows "pool_inv g n s (fst c') (snd c')"
  using assms
proof (cases rule: pool_step.cases)
  case (pop b i r b' lent)
  then have inv: "pool_inv g n s b lent" using assms(2) by simp
  obtain k where "k < g" "i = int k" using pop_index [OF inv pop(3)] by blast
  then show ?thesis using pop_inv [OF inv] pop by simp
next
  case (fill r lent b pdata len k b')
  then have inv: "pool_inv g n s b lent" using assms(2) by simp
  then have "r < g * n" using fill by (auto simp: pool_inv_def)
  then show ?thesis using Write_inv [OF inv] fill by simp
next
  case (pull r lent b b')
  then have inv: "pool_inv g n s b lent" using assms(2) by simp
  then show ?thesis using back_inv [OF inv pull(3)] pull by auto
qed

lemma pool_reach_inv:
  assumes "pool_step\<^sup>*\<^sup>* c c'" "pool_inv g n s (fst c) (snd c)"
  shows "pool_inv g n s (fst c') (snd c')"
  using assms by (induction rule: rtranclp_induct) (auto intro: pool_step_inv)

lemma RollFixBuffer_new_reach:
  assumes law: "\<forall>k d. malloc k = Some d \<longrightarrow> length d = nat k"
    and new: "RollFixBuffer_new malloc (int g) (int n) (int s) = Ret b0" and reach: "pool_step\<^sup>*\<^sup>* (b0, {}) (b, lent)"
  shows "pool_inv g n s b lent"
proof -
  have "HN_ok (int g * int n)" "HN_ok (int g * int n * int s)" "malloc (int g * int n * int s) \<noteq> None"
    using new by (auto simp: RollFixBuffer_new_def run_bind_Ret_iff)
  moreover from this obtain d where "malloc (int (g * n * s)) = Some d" by auto
  moreover from this have "length d = g * n * s" using law by (metis nat_int)
  ultimately have "pool_inv g n s b0 {}"
    using RollFixBuffer_new_inv [of g n s malloc d] new by (simp add: HN_ok_def flip: of_nat_mult)
  then show ?thesis using pool_reach_inv [OF reach] by simp
qed

subsection \<open>The pool keeps its clients apart\<close>

text \<open>C5: However the clients interleave, a \<^verbatim>\<open>Pop\<close> from a group waits exactly while all blocks of the group are lent, and
  otherwise gives a block of the group that nobody holds; every holder can hand its block back.\<close>

theorem pool_exclusive:
  assumes "\<forall>k d. malloc k = Some d \<longrightarrow> length d = nat k" "RollFixBuffer_new malloc (int g) (int n) (int s) = Ret b0"
    "pool_step\<^sup>*\<^sup>* (b0, {}) (b, lent)" "i < g"
  shows "(if {r. r < g * n \<and> r div n = i} \<subseteq> lent then RollFixBuffer_Pop b (int i) = Ret Waits
      else \<exists>r b'. RollFixBuffer_Pop b (int i) = Ret (Now (r, b')) \<and> r < g * n \<and> r div n = i \<and> r \<notin> lent) \<and>
    (\<forall>r \<in> lent. \<exists>b'. BufferItemRef_PullBack b r = Ret b')"
proof -
  note inv = RollFixBuffer_new_reach [OF assms(1-3)]
  have q: "set (m_queues b ! i) = free_refs g n lent i" using inv assms(4) by (simp add: pool_inv_def)
  have pb: "\<forall>r \<in> lent. \<exists>b'. BufferItemRef_PullBack b r = Ret b'" using back_inv [OF inv] by blast
  show ?thesis
  proof (cases "m_queues b ! i")
    case Nil
    then have "{r. r < g * n \<and> r div n = i} \<subseteq> lent" using q by (auto simp: free_refs_def)
    then show ?thesis using pop_cases [OF inv assms(4)] Nil pb by simp
  next
    case (Cons r t)
    then have "r < g * n" "r div n = i" "r \<notin> lent" using q by (auto simp: free_refs_def)
    moreover from this have "\<not> {r. r < g * n \<and> r div n = i} \<subseteq> lent" by blast
    ultimately show ?thesis using pop_cases [OF inv assms(4)] Cons pb by simp
  qed
qed

text \<open>C10: A write through a lent reference succeeds for every length below the block size, is what the holder reads
  afterwards, and changes nothing for the other holders.\<close>

theorem pool_write_isolated:
  assumes "\<forall>k d. malloc k = Some d \<longrightarrow> length d = nat k" "RollFixBuffer_new malloc (int g) (int n) (int s) = Ret b0"
    "pool_step\<^sup>*\<^sup>* (b0, {}) (b, lent)" "r \<in> lent" "0 \<le> len" "len < int s" "nat len \<le> length pdata"
  shows "\<exists>b'. BufferItemRef_Write b r pdata len = Ret (len, b') \<and> GetData b' r = Some (take (nat len) pdata) \<and>
    (\<forall>r' \<in> lent - {r}. GetData b' r' = GetData b r')"
proof -
  note inv = RollFixBuffer_new_reach [OF assms(1-3)]
  then have ok: "pool_ok g n s b" and lent: "lent \<subseteq> {..< g * n}" by (simp_all add: pool_inv_def)
  then have r: "r < g * n" using assms(4) by blast
  obtain d d' where d: "m_data b = Some d" "length d = g * n * s" "mem_write d (r * s) (take (nat len) pdata) = Some d'"
    "mem_read d' (r * s) (nat len) = Some (take (nat len) pdata)"
    and w: "BufferItemRef_Write b r pdata len =
       Ret (len, b\<lparr>m_data := Some d', m_all_ref_pts := (m_all_ref_pts b)[r := SetLen len (m_all_ref_pts b ! r)]\<rparr>)"
    by (rule Write_effect [OF inv r assms(5-7)])
  let ?b = "b\<lparr>m_data := Some d', m_all_ref_pts := (m_all_ref_pts b)[r := SetLen len (m_all_ref_pts b ! r)]\<rparr>"
  have refs: "length (m_all_ref_pts b) = g * n" using ok by (simp add: pool_ok_def)
  have ptr: "nat (m_ptr (m_all_ref_pts b ! x)) = x * s" "nat (m_datalen (m_all_ref_pts b ! x)) \<le> s" if "x < g * n" for x
    using pool_ok_ref [OF ok that] by (simp_all add: ref_ok_def nat_le_iff flip: of_nat_mult)
  have "GetData ?b r = Some (take (nat len) pdata)"
    using d r refs ptr [OF r] by (simp add: GetData_def SetLen_def)
  moreover have "GetData ?b r' = GetData b r'" if r': "r' \<in> lent - {r}" for r'
  proof -
    have rn: "r' < g * n" "r \<noteq> r'" using r' lent by auto
    have "mem_read d' (r' * s) k = mem_read d (r' * s) k" if "k \<le> s" for k
      using pool.write_frame [of "(g * n, s)" r r' "take (nat len) pdata" k d d'] r rn d assms(6,7) that by simp
    then show ?thesis using d(1) rn refs ptr [OF rn(1)] by (simp add: GetData_def)
  qed
  ultimately show ?thesis using w by blast
qed

lemma small_pool:
  "\<exists>b0 r b'. RollFixBuffer_new (\<lambda>k. Some (replicate (nat k) 0)) (int 1) (int 2) (int 8) = Ret b0 \<and>
     pool_step\<^sup>*\<^sup>* (b0, {}) (b', {r})"
proof -
  obtain b0 where b0: "RollFixBuffer_new (\<lambda>k. Some (replicate (nat k) 0)) (int 1) (int 2) (int 8) = Ret b0"
    "pool_inv 1 2 8 b0 {}" using RollFixBuffer_new_inv [of 1 2 8 "\<lambda>k. Some (replicate (nat k) 0)"] by auto
  then have "set (m_queues b0 ! 0) = free_refs 1 2 {} 0" by (simp add: pool_inv_def)
  moreover have "0 \<in> free_refs 1 2 {} 0" by (simp add: free_refs_def)
  ultimately obtain r q where "m_queues b0 ! 0 = r # q" by (cases "m_queues b0 ! 0") auto
  then obtain b' where "RollFixBuffer_Pop b0 (int 0) = Ret (Now (r, b'))"
    using pop_cases [OF b0(2), of 0] by simp
  then have "pool_step (b0, {}) (b', {r})" by (rule pool_step.pop)
  then show ?thesis using b0(1) by blast
qed

theorem pool_exclusive_witness:
  "\<exists>b0. RollFixBuffer_new (\<lambda>k. Some (replicate (nat k) 0)) (int 1) (int 2) (int 8) = Ret b0 \<and>
     (\<exists>r b'. RollFixBuffer_Pop b0 (int 0) = Ret (Now (r, b')) \<and> r < 2)"
proof -
  obtain b0 where b0: "RollFixBuffer_new (\<lambda>k. Some (replicate (nat k) 0)) (int 1) (int 2) (int 8) = Ret b0"
    using small_pool by blast
  have "\<not> {r. r < 1 * 2 \<and> r div 2 = (0 :: nat)} \<subseteq> {}" by force
  then have "\<exists>r b'. RollFixBuffer_Pop b0 (int 0) = Ret (Now (r, b')) \<and> r < 1 * 2 \<and> r div 2 = 0 \<and> r \<notin> {}"
    using pool_exclusive [OF _ b0, of b0 "{}" 0] by (simp only: if_False) simp
  then show ?thesis using b0 by auto
qed

theorem pool_write_isolated_witness:
  "\<exists>b r b'. BufferItemRef_Write b r [1, 2, 3] 3 = Ret (3, b') \<and> GetData b' r = Some [1, 2, 3]"
proof -
  obtain b0 r b where b: "RollFixBuffer_new (\<lambda>k. Some (replicate (nat k) 0)) (int 1) (int 2) (int 8) = Ret b0"
    "pool_step\<^sup>*\<^sup>* (b0, {}) (b, {r})" using small_pool by blast
  show ?thesis using pool_write_isolated [OF _ b, of r 3 "[1, 2, 3]"] by auto
qed

text \<open>What the checks let through: a negative group number, and a reference handed back twice, which the queue then
  holds twice.\<close>

lemma Pop_negative_group: "i < 0 \<Longrightarrow> 0 \<le> m_iGroupCount b \<Longrightarrow> RollFixBuffer_Pop b i = Stuck"
  by (simp add: RollFixBuffer_Pop_def)

lemma PullBack_twice:
  assumes inv: "pool_inv g n s b lent" and r: "r \<in> lent"
  shows "\<exists>b' b''. BufferItemRef_PullBack b r = Ret b' \<and> BufferItemRef_PullBack b' r = Ret b'' \<and>
    m_queues b'' ! (r div n) = m_queues b ! (r div n) @ [r, r]"
proof -
  have rn: "r < g * n" "m_buffer (m_all_ref_pts b ! r)" "m_iGroupId (m_all_ref_pts b ! r) = int (r div n)"
    "length (m_all_ref_pts b) = g * n" "length (m_queues b) = g"
    using inv r by (auto simp: pool_inv_def pool_ok_def ref_ok_def)
  then show ?thesis
    using group_bound [OF rn(1)]
    by (simp add: BufferItemRef_PullBack_def RollFixBuffer_PullBack_def RefQueue_Push_def)
qed

end
