(* ===== verification/Byte_Order.thy ===== *)
theory Byte_Order
  imports Hui_Prelude
begin

text \<open>
  Network byte order: \<^verbatim>\<open>htonl\<close>, \<^verbatim>\<open>htons\<close> and their inverses reverse the bytes of a word on the little-endian host.
\<close>

definition swap_bytes :: "'a::len word \<Rightarrow> 'a word" where
  "swap_bytes w = obj_of_bytes (rev (obj_bytes w))"

definition htonl :: "HUN \<Rightarrow> HUN" where
  "htonl w = swap_bytes w"

definition htons :: "HUSN \<Rightarrow> HUSN" where
  "htons w = swap_bytes w"

lemma le_digits_value: "le_digits (length bs) (le_value bs) = bs"
proof (induction bs)
  case (Cons b bs)
  then show ?case using unat_byte [of b] by simp
qed simp

lemma obj_bytes_of_bytes:
  assumes "byte_width TYPE('a::len)" "length bs = size_of TYPE('a)"
  shows "obj_bytes (obj_of_bytes bs :: 'a word) = bs"
proof -
  have "(256 :: nat) ^ size_of TYPE('a) = 2 ^ (8 * size_of TYPE('a))" by (simp add: power_mult)
  then have "(256 :: nat) ^ length bs = 2 ^ LENGTH('a)" using assms by (simp add: byte_width_def)
  then have "le_value bs < 2 ^ LENGTH('a)" using le_value_bound [of bs] by simp
  then show ?thesis
    using le_digits_value [of bs] assms(2) by (simp add: obj_bytes_def obj_of_bytes_def unat_of_nat)
qed

lemma obj_bytes_swap: "byte_width TYPE('a::len) \<Longrightarrow> obj_bytes (swap_bytes (w :: 'a word)) = rev (obj_bytes w)"
  by (simp add: swap_bytes_def obj_bytes_of_bytes)

lemma swap_swap: "byte_width TYPE('a::len) \<Longrightarrow> swap_bytes (swap_bytes (w :: 'a word)) = w"
  using obj_bytes_swap [of w] obj_roundtrip [of w] by (simp add: swap_bytes_def [of "swap_bytes w"])

lemma htonl_htonl [simp]: "htonl (htonl w) = w"
  by (simp add: htonl_def swap_swap)

lemma htons_htons [simp]: "htons (htons w) = w"
  by (simp add: htons_def swap_swap)

lemma obj_bytes_htonl: "obj_bytes (htonl w) = rev (obj_bytes w)"
  by (simp add: htonl_def obj_bytes_swap)

lemma le_digits_0: "le_digits n 0 = replicate n 0"
  by (induction n) simp_all

lemma le_value_0: "le_value (replicate n 0) = 0"
  by (induction n) simp_all

lemma htonl_0 [simp]: "htonl w = 0 \<longleftrightarrow> w = 0"
proof -
  have "htonl 0 = 0" by (simp add: htonl_def swap_bytes_def obj_bytes_def obj_of_bytes_def le_digits_0 le_value_0)
  then show ?thesis by (metis htonl_htonl)
qed

end
