(* ===== verification/Packet_Buffer.thy ===== *)
theory Packet_Buffer
  imports Outcome Byte_Order
begin

text \<open>
  Buffers for network packets: \<^verbatim>\<open>src/src/houtputpacketbuffer.h\<close> and \<^verbatim>\<open>.cpp\<close>, \<^verbatim>\<open>src/src/hrefbuffer.h\<close> and \<^verbatim>\<open>.cpp\<close>,
  \<^verbatim>\<open>src/src/hiobuffer.h\<close> and \<^verbatim>\<open>.cpp\<close>.

  An allocated block is the list of its bytes; a copy that leaves it is \<open>Stuck\<close>. Pointers to data of the caller are
  represented by the bytes they point to. \<^verbatim>\<open>malloc\<close> succeeds.
\<close>

subsection \<open>Output packets\<close>

record HOutputPacketBuffer =
  m_length :: HUN
  m_current_pos :: HUN
  m_buf :: HMEM

definition MAX_BUFFER_LENGTH :: HUN where
  "MAX_BUFFER_LENGTH = 1536"

definition HOutputPacketBuffer_Reset :: "HOutputPacketBuffer \<Rightarrow> HOutputPacketBuffer" where
  "HOutputPacketBuffer_Reset b = b\<lparr>m_current_pos := 0\<rparr>"

definition HOutputPacketBuffer_new :: "HUN \<Rightarrow> HOutputPacketBuffer" where
  "HOutputPacketBuffer_new len =
     HOutputPacketBuffer_Reset \<lparr>m_length = len, m_current_pos = 0, m_buf = replicate (unat len) 0\<rparr>"

definition increPos :: "HUN \<Rightarrow> HOutputPacketBuffer \<Rightarrow> HOutputPacketBuffer" where
  "increPos n b = b\<lparr>m_current_pos := m_current_pos b + n\<rparr>"

definition DataLength :: "HOutputPacketBuffer \<Rightarrow> HUN" where
  "DataLength b = m_current_pos b"

text \<open>The copy does not look at \<^verbatim>\<open>m_length\<close>.\<close>

definition Enqueue :: "HMEM \<Rightarrow> HUN \<Rightarrow> HOutputPacketBuffer \<Rightarrow> HOutputPacketBuffer run" where
  "Enqueue data len b =
     run_of (do { src \<leftarrow> mem_read data 0 (unat len);
                  buf \<leftarrow> mem_write (m_buf b) (unat (m_current_pos b)) src;
                  Some (increPos len (b\<lparr>m_buf := buf\<rparr>)) })"

definition EnqueueWord :: "HUN \<Rightarrow> HOutputPacketBuffer \<Rightarrow> HOutputPacketBuffer run" where
  "EnqueueWord word b = Enqueue (obj_bytes (htonl word)) 4 b"

definition ExtractWord :: "HOutputPacketBuffer \<Rightarrow> HUN \<Rightarrow> HUN run" where
  "ExtractWord b position = run_of (map_option (\<lambda>bs. htonl (obj_of_bytes bs)) (mem_read (m_buf b) (unat position) 4))"

definition InsertWord :: "HUN \<Rightarrow> HUN \<Rightarrow> HOutputPacketBuffer \<Rightarrow> HOutputPacketBuffer run" where
  "InsertWord word toPosition b =
     run_of (map_option (\<lambda>buf. b\<lparr>m_buf := buf\<rparr>) (mem_write (m_buf b) (unat toPosition) (obj_bytes (htonl word))))"

subsection \<open>Gathered output\<close>

record iovec =
  iov_base :: HMEM
  iov_len :: nat

record HIOOutputBuffer =
  m_header :: HOutputPacketBuffer
  m_index :: HUN
  m_vec :: "iovec list"

definition IO_COUNT :: nat where "IO_COUNT = 10"

definition HEADER_LENGTH :: HUN where "HEADER_LENGTH = 128"

definition iovec_zero :: iovec where
  "iovec_zero = \<lparr>iov_base = [], iov_len = 0\<rparr>"

definition HIOOutputBuffer_Reset :: "HIOOutputBuffer \<Rightarrow> HIOOutputBuffer" where
  "HIOOutputBuffer_Reset b =
     b\<lparr>m_index := 1, m_header := HOutputPacketBuffer_Reset (m_header b), m_vec := replicate IO_COUNT iovec_zero\<rparr>"

definition HIOOutputBuffer_new :: HIOOutputBuffer where
  "HIOOutputBuffer_new =
     HIOOutputBuffer_Reset \<lparr>m_header = HOutputPacketBuffer_new HEADER_LENGTH, m_index = 1,
       m_vec = replicate IO_COUNT iovec_zero\<rparr>"

definition AddIo :: "HIOOutputBuffer \<Rightarrow> HMEM \<Rightarrow> bool \<times> HIOOutputBuffer" where
  "AddIo b data =
     (if unat (m_index b) \<ge> IO_COUNT then (False, b)
      else (True, b\<lparr>m_vec := (m_vec b)[unat (m_index b) := \<lparr>iov_base = data, iov_len = length data\<rparr>],
                   m_index := m_index b + 1\<rparr>))"

text \<open>\<open>WriteV\<close> is the socket's operation: it gets the first \<^verbatim>\<open>m_index\<close> entries.\<close>

definition WriteIo :: "(iovec list \<Rightarrow> 'r) \<Rightarrow> HIOOutputBuffer \<Rightarrow> 'r \<times> HIOOutputBuffer" where
  "WriteIo WriteV b =
     (let b = b\<lparr>m_vec := (m_vec b)[0 := \<lparr>iov_base = m_buf (m_header b), iov_len = unat (DataLength (m_header b))\<rparr>]\<rparr>
      in (WriteV (take (unat (m_index b)) (m_vec b)), b))"

definition GetDataLength :: "HIOOutputBuffer \<Rightarrow> HUN" where
  "GetDataLength b = fold (\<lambda>v res. res + word_of_nat (iov_len v)) (take (unat (m_index b)) (m_vec b)) 0"

subsection \<open>References to buffers\<close>

record 'p HRefBuffer =
  m_ptr :: "'p option"
  rb_length :: int

definition HRefBuffer_new :: "'p HRefBuffer" where
  "HRefBuffer_new = \<lparr>m_ptr = None, rb_length = 0\<rparr>"

definition HRefBuffer_Reset :: "'p HRefBuffer \<Rightarrow> 'p HRefBuffer" where
  "HRefBuffer_Reset b = b\<lparr>m_ptr := None, rb_length := 0\<rparr>"

definition HRefBuffer_Assign :: "'p option \<Rightarrow> int \<Rightarrow> 'p HRefBuffer \<Rightarrow> 'p HRefBuffer" where
  "HRefBuffer_Assign data len b = b\<lparr>m_ptr := data, rb_length := len\<rparr>"

type_synonym 'p HVRefBuffer = "'p HRefBuffer list"

definition HVRefBuffer_Reset :: "'p HVRefBuffer \<Rightarrow> 'p HVRefBuffer" where
  "HVRefBuffer_Reset bs = []"

definition HVRefBuffer_Add :: "'p option \<Rightarrow> int \<Rightarrow> 'p HVRefBuffer \<Rightarrow> 'p HVRefBuffer" where
  "HVRefBuffer_Add data len bs = bs @ [\<lparr>m_ptr = data, rb_length = len\<rparr>]"

definition HVRefBuffer_Count :: "'p HVRefBuffer \<Rightarrow> int" where
  "HVRefBuffer_Count bs = to_HN (length bs)"

definition HVRefBuffer_Data :: "'p HVRefBuffer \<Rightarrow> int \<Rightarrow> 'p option run" where
  "HVRefBuffer_Data bs index =
     (if index \<ge> HVRefBuffer_Count bs then Ret None
      else if 0 \<le> index \<and> nat index < length bs then Ret (m_ptr (bs ! nat index)) else Stuck)"

definition HVRefBuffer_GetLength :: "'p HVRefBuffer \<Rightarrow> int \<Rightarrow> int run" where
  "HVRefBuffer_GetLength bs index =
     (if index \<ge> HVRefBuffer_Count bs then Ret (- 1)
      else if 0 \<le> index \<and> nat index < length bs then Ret (rb_length (bs ! nat index)) else Stuck)"

subsection \<open>Input and output buffer\<close>

record HIOBuffer =
  io_length :: int
  m_avalableLength :: int
  m_buffer :: HMEM
  m_size :: int
  m_pos :: int

definition HIOBuffer_new :: "HMEM \<Rightarrow> int \<Rightarrow> HIOBuffer" where
  "HIOBuffer_new block sz = \<lparr>io_length = 0, m_avalableLength = sz, m_buffer = block, m_size = sz, m_pos = 0\<rparr>"

definition SetPos :: "int \<Rightarrow> HIOBuffer \<Rightarrow> HIOBuffer run" where
  "SetPos newPos b =
     run_bind (HN_arith (m_avalableLength b - newPos)) (\<lambda>a.
     run_bind (HN_arith (m_pos b + newPos)) (\<lambda>p.
     Ret (b\<lparr>m_avalableLength := a, m_pos := p\<rparr>)))"

definition HIOBuffer_Reset :: "HIOBuffer \<Rightarrow> HIOBuffer" where
  "HIOBuffer_Reset b = b\<lparr>m_pos := 0, m_avalableLength := m_size b, m_buffer := replicate (length (m_buffer b)) 0\<rparr>"

text \<open>\<^verbatim>\<open>PopData\<close> and \<^verbatim>\<open>DataLength\<close>: what has been put into the buffer.\<close>

definition PopData :: "HIOBuffer \<Rightarrow> HMEM" where
  "PopData b = take (nat (m_pos b)) (m_buffer b)"

text \<open>The last two assignments subtract and add the length as \<^verbatim>\<open>size_t\<close> and store the result as \<^verbatim>\<open>int\<close>.\<close>

definition HIOBuffer_Append :: "HMEM \<Rightarrow> HIOBuffer \<Rightarrow> HIOBuffer run" where
  "HIOBuffer_Append str b =
     run_bind (HN_arith (to_HN (length str) + m_pos b)) (\<lambda>n.
       if n > m_avalableLength b then Ret b
       else if 0 \<le> m_pos b
       then run_of (map_option
              (\<lambda>buf. b\<lparr>m_buffer := buf,
                      m_avalableLength := signed_take_bit 31 (m_avalableLength b - int (length str)),
                      m_pos := signed_take_bit 31 (m_pos b + int (length str))\<rparr>)
              (mem_write (m_buffer b) (nat (m_pos b)) str))
       else Stuck)"

subsection \<open>Words on the wire\<close>

text \<open>A word as it goes out: most significant byte first.\<close>

definition wire :: "HUN \<Rightarrow> HMEM" where
  "wire w = rev (obj_bytes w)"

lemma wire_simps [simp]: "length (wire w) = 4" "htonl (obj_of_bytes (wire w)) = w"
proof -
  show "length (wire w) = 4" by (simp add: wire_def)
  show "htonl (obj_of_bytes (wire w)) = w" using htonl_htonl [of w] by (simp only: htonl_def [of w] swap_bytes_def [of w] wire_def)
qed

lemma length_wires [simp]: "length (concat (map wire ws)) = 4 * length ws"
  by (induction ws) auto

definition packet_ok :: "HOutputPacketBuffer \<Rightarrow> bool" where
  "packet_ok b \<longleftrightarrow> length (m_buf b) = unat (m_length b) \<and> m_current_pos b \<le> m_length b"

definition payload :: "HOutputPacketBuffer \<Rightarrow> HMEM" where
  "payload b = take (unat (m_current_pos b)) (m_buf b)"

lemma Enqueue_appends:
  assumes "packet_ok b" "length data = unat len" "unat (m_current_pos b) + unat len \<le> unat (m_length b)"
  shows "\<exists>b'. Enqueue data len b = Ret b' \<and> packet_ok b' \<and> payload b' = payload b @ data \<and> m_length b' = m_length b \<and>
    unat (m_current_pos b') = unat (m_current_pos b) + unat len"
proof -
  let ?p = "unat (m_current_pos b)"
  let ?buf = "take ?p (m_buf b) @ data @ drop (?p + length data) (m_buf b)"
  have "unat (m_length b) < 2 ^ 32" using unsigned_less [of "m_length b", where ?'a = nat] by simp
  then have pos: "unat (m_current_pos b + len) = ?p + unat len" using assms(3) by (simp add: unat_word_ariths)
  have e: "Enqueue data len b = Ret (increPos len (b\<lparr>m_buf := ?buf\<rparr>))"
    using assms by (simp add: Enqueue_def mem_read_def mem_write_def packet_ok_def)
  show ?thesis
    unfolding e using assms pos
    by (auto simp: packet_ok_def payload_def increPos_def word_le_nat_alt)
qed

lemma Enqueue_overrun:
  assumes "packet_ok b" "length data = unat len" "unat (m_current_pos b) + unat len > unat (m_length b)"
  shows "Enqueue data len b = Stuck"
  using assms by (simp add: Enqueue_def mem_read_def mem_write_def packet_ok_def)

fun EnqueueWords :: "HUN list \<Rightarrow> HOutputPacketBuffer \<Rightarrow> HOutputPacketBuffer run" where
  "EnqueueWords [] b = Ret b"
| "EnqueueWords (w # ws) b = run_bind (EnqueueWord w b) (EnqueueWords ws)"

lemma EnqueueWords_appends:
  assumes "packet_ok b" "unat (m_current_pos b) + 4 * length ws \<le> unat (m_length b)"
  shows "\<exists>b'. EnqueueWords ws b = Ret b' \<and> packet_ok b' \<and> payload b' = payload b @ concat (map wire ws) \<and>
    m_length b' = m_length b \<and> unat (m_current_pos b') = unat (m_current_pos b) + 4 * length ws"
  using assms
proof (induction ws arbitrary: b)
  case (Cons w ws)
  obtain b1 where b1: "EnqueueWord w b = Ret b1" "packet_ok b1" "payload b1 = payload b @ wire w" "m_length b1 = m_length b"
    "unat (m_current_pos b1) = unat (m_current_pos b) + 4"
    using Enqueue_appends [OF Cons.prems(1), of "wire w" 4] Cons.prems(2)
    by (auto simp: EnqueueWord_def obj_bytes_htonl wire_def)
  then show ?case using Cons.IH [OF b1(2)] Cons.prems(2) by auto
qed simp

lemma words_split:
  assumes "take (4 * length ws) buf = concat (map wire ws)" "k < length ws"
  shows "buf = concat (map wire (take k ws)) @ wire (ws ! k) @ concat (map wire (drop (Suc k) ws)) @ drop (4 * length ws) buf"
proof -
  have "buf = concat (map wire ws) @ drop (4 * length ws) buf" using assms(1) by (metis append_take_drop_id)
  also have "concat (map wire ws) = concat (map wire (take k ws @ ws ! k # drop (Suc k) ws))"
    using assms(2) by (simp add: id_take_nth_drop [symmetric])
  finally show ?thesis by simp
qed

lemma ExtractWord_at:
  assumes "take (4 * length ws) (m_buf b) = concat (map wire ws)" "k < length ws" "unat p = 4 * k"
  shows "ExtractWord b p = Ret (ws ! k)"
proof -
  note sp = words_split [OF assms(1,2)]
  have l: "length (concat (map wire (take k ws))) = 4 * k" using assms(2) by simp
  have "mem_read (m_buf b) (4 * k) 4 = Some (wire (ws ! k))"
    by (subst sp, subst mem_read_def) (use l in simp)
  then show ?thesis using assms(3) by (simp add: ExtractWord_def)
qed

lemma InsertWord_at:
  assumes "take (4 * length ws) (m_buf b) = concat (map wire ws)" "k < length ws" "unat p = 4 * k"
  shows "\<exists>b'. InsertWord w p b = Ret b' \<and> m_current_pos b' = m_current_pos b \<and>
    take (4 * length ws) (m_buf b') = concat (map wire (ws[k := w])) \<and> drop (4 * length ws) (m_buf b') = drop (4 * length ws) (m_buf b)"
proof -
  note sp = words_split [OF assms(1,2)]
  let ?u = "concat (map wire (take k ws))" and ?v = "concat (map wire (drop (Suc k) ws))" and ?z = "drop (4 * length ws) (m_buf b)"
  have l: "length ?u = 4 * k" using assms(2) by simp
  have "mem_write (?u @ wire (ws ! k) @ ?v @ ?z) (4 * k) (wire w) = Some (?u @ wire w @ ?v @ ?z)"
    using l by (simp add: mem_write_def)
  then have "InsertWord w p b = Ret (b\<lparr>m_buf := ?u @ wire w @ ?v @ ?z\<rparr>)"
    using assms(3) sp by (simp add: InsertWord_def obj_bytes_htonl wire_def [symmetric])
  moreover have "concat (map wire (ws[k := w])) = ?u @ wire w @ ?v"
    using assms(2) by (simp add: upd_conv_take_nth_drop)
  moreover have "length (?u @ wire w @ ?v) = 4 * length ws"
    by (metis calculation(2) length_list_update length_wires)
  ultimately show ?thesis by (simp add: take_append drop_append)
qed

text \<open>C39: Words enqueued into a new packet that has room for them lie in it in order, most significant byte first;
  each is extracted at its position, and inserting a word replaces exactly the one at its position.\<close>

theorem packet_words:
  assumes "4 * length ws \<le> unat len" "k < length ws" "unat p = 4 * k"
  shows "\<exists>b. EnqueueWords ws (HOutputPacketBuffer_new len) = Ret b \<and> unat (DataLength b) = 4 * length ws \<and>
    payload b = concat (map wire ws) \<and> ExtractWord b p = Ret (ws ! k) \<and>
    (\<exists>b'. InsertWord w p b = Ret b' \<and> payload b' = concat (map wire (ws[k := w])) \<and> ExtractWord b' p = Ret w)"
proof -
  let ?b0 = "HOutputPacketBuffer_new len"
  have new: "packet_ok ?b0" "payload ?b0 = []" "m_current_pos ?b0 = 0" "m_length ?b0 = len"
    by (simp_all add: HOutputPacketBuffer_new_def HOutputPacketBuffer_Reset_def packet_ok_def payload_def)
  obtain b where b: "EnqueueWords ws ?b0 = Ret b" "payload b = concat (map wire ws)" "unat (m_current_pos b) = 4 * length ws"
    using EnqueueWords_appends [OF new(1), of ws] assms(1) new by auto
  then have t: "take (4 * length ws) (m_buf b) = concat (map wire ws)" by (simp add: payload_def)
  obtain b' where b': "InsertWord w p b = Ret b'" "m_current_pos b' = m_current_pos b"
    "take (4 * length ws) (m_buf b') = concat (map wire (ws[k := w]))"
    using InsertWord_at [OF t assms(2,3)] by blast
  have "ExtractWord b' p = Ret w"
    using ExtractWord_at [of "ws[k := w]" b' k p] b'(3) assms(2,3) by simp
  then show ?thesis
    using b b' ExtractWord_at [OF t assms(2,3)] by (auto simp: DataLength_def payload_def)
qed

theorem packet_words_witness:
  "\<exists>b. EnqueueWords [1, 0x01020304] (HOutputPacketBuffer_new MAX_BUFFER_LENGTH) = Ret b \<and> ExtractWord b 4 = Ret 0x01020304"
  using packet_words [of "[1, 0x01020304]" MAX_BUFFER_LENGTH 1 4] by (auto simp: MAX_BUFFER_LENGTH_def)

subsection \<open>Buffers that take or refuse\<close>

text \<open>
  The contract of an append operation: it takes a piece whole or leaves the contents as they are. \<open>put_all\<close> runs a
  sequence of appends and keeps the answers.
\<close>

fun put_all :: "('s \<Rightarrow> 'd \<Rightarrow> (bool \<times> 's) run) \<Rightarrow> 's \<Rightarrow> 'd list \<Rightarrow> (bool list \<times> 's) run" where
  "put_all put s [] = Ret ([], s)"
| "put_all put s (d # ds) =
     run_bind (put s d) (\<lambda>(ok, s'). run_bind (put_all put s' ds) (\<lambda>(oks, s''). Ret (ok # oks, s'')))"

fun accepted :: "bool list \<Rightarrow> 'd list \<Rightarrow> 'd list" where
  "accepted (ok # oks) (d # ds) = (if ok then d # accepted oks ds else accepted oks ds)"
| "accepted _ _ = []"

locale sink =
  fixes inv :: "'s \<Rightarrow> bool" and fits :: "'d \<Rightarrow> bool" and contents :: "'s \<Rightarrow> 'a list" and piece :: "'d \<Rightarrow> 'a list"
    and accepts :: "'s \<Rightarrow> 'd \<Rightarrow> bool" and put :: "'s \<Rightarrow> 'd \<Rightarrow> (bool \<times> 's) run"
  assumes put_law: "inv s \<Longrightarrow> fits d \<Longrightarrow>
    \<exists>s'. put s d = Ret (accepts s d, s') \<and> inv s' \<and> contents s' = (if accepts s d then contents s @ piece d else contents s)"
begin

lemma put_all_contents:
  assumes "inv s" "\<forall>d \<in> set ds. fits d"
  shows "\<exists>oks s'. put_all put s ds = Ret (oks, s') \<and> length oks = length ds \<and> inv s' \<and>
    contents s' = contents s @ concat (map piece (accepted oks ds))"
  using assms
proof (induction ds arbitrary: s)
  case (Cons d ds)
  obtain s1 where s1: "put s d = Ret (accepts s d, s1)" "inv s1"
    "contents s1 = (if accepts s d then contents s @ piece d else contents s)"
    using put_law [OF Cons.prems(1), of d] Cons.prems(2) by auto
  obtain oks s' where s': "put_all put s1 ds = Ret (oks, s')" "length oks = length ds" "inv s'"
    "contents s' = contents s1 @ concat (map piece (accepted oks ds))"
    using Cons.IH [OF s1(2)] Cons.prems(2) by auto
  show ?case using s1 s' by auto
qed simp

end

subsection \<open>The gathered message\<close>

definition gather_inv :: "HIOOutputBuffer \<Rightarrow> bool" where
  "gather_inv b \<longleftrightarrow> length (m_vec b) = IO_COUNT \<and> 1 \<le> unat (m_index b) \<and> unat (m_index b) \<le> IO_COUNT"

definition vec_of :: "HMEM \<Rightarrow> iovec" where
  "vec_of d = \<lparr>iov_base = d, iov_len = length d\<rparr>"

definition blocks :: "HIOOutputBuffer \<Rightarrow> iovec list" where
  "blocks b = tl (take (unat (m_index b)) (m_vec b))"

lemma blocks_length: "gather_inv b \<Longrightarrow> length (blocks b) = unat (m_index b) - 1"
  by (simp add: gather_inv_def blocks_def)

lemma AddIo_contract:
  assumes "gather_inv b"
  shows "\<exists>b'. AddIo b d = (length (blocks b) < 9, b') \<and> gather_inv b' \<and> m_header b' = m_header b \<and>
    blocks b' = (if length (blocks b) < 9 then blocks b @ [vec_of d] else blocks b)"
proof (cases "unat (m_index b) < IO_COUNT")
  case True
  let ?i = "unat (m_index b)"
  have i: "unat (m_index b + 1) = Suc ?i" using True by (simp add: unat_word_ariths IO_COUNT_def)
  have l: "?i < length (m_vec b)" "1 \<le> ?i" using assms True by (simp_all add: gather_inv_def)
  have "take (Suc ?i) ((m_vec b)[?i := vec_of d]) = take ?i (m_vec b) @ [vec_of d]"
    using l by (simp add: take_Suc_conv_app_nth)
  moreover have ne: "take ?i (m_vec b) \<noteq> []" using l by auto
  ultimately have "blocks (b\<lparr>m_vec := (m_vec b)[?i := vec_of d], m_index := m_index b + 1\<rparr>) = blocks b @ [vec_of d]"
    using ne i by (simp add: blocks_def)
  moreover have "length (blocks b) < 9" using blocks_length [OF assms] True l by (simp add: IO_COUNT_def)
  ultimately show ?thesis using True assms i by (simp add: AddIo_def gather_inv_def vec_of_def)
next
  case False
  moreover from this have "\<not> length (blocks b) < 9" using blocks_length [OF assms] by (simp add: IO_COUNT_def)
  ultimately show ?thesis using assms by (simp add: AddIo_def)
qed

interpretation gather: sink gather_inv "\<lambda>d. True" blocks "\<lambda>d. [vec_of d]" "\<lambda>b d. length (blocks b) < 9" "\<lambda>b d. Ret (AddIo b d)"
  by unfold_locales (use AddIo_contract in fastforce)

lemma gather_taken:
  assumes "gather_inv b"
  shows "\<exists>oks b'. put_all (\<lambda>b d. Ret (AddIo b d)) b ds = Ret (oks, b') \<and> gather_inv b' \<and> m_header b' = m_header b \<and>
    blocks b' = blocks b @ map vec_of (take (9 - length (blocks b)) ds) \<and>
    oks = map (\<lambda>i. length (blocks b) + i < 9) [0..<length ds]"
  using assms
proof (induction ds arbitrary: b)
  case (Cons d ds)
  obtain b1 where b1: "AddIo b d = (length (blocks b) < 9, b1)" "gather_inv b1" "m_header b1 = m_header b"
    "blocks b1 = (if length (blocks b) < 9 then blocks b @ [vec_of d] else blocks b)"
    using AddIo_contract [OF Cons.prems] by blast
  obtain oks b' where b': "put_all (\<lambda>b d. Ret (AddIo b d)) b1 ds = Ret (oks, b')" "gather_inv b'" "m_header b' = m_header b1"
    "blocks b' = blocks b1 @ map vec_of (take (9 - length (blocks b1)) ds)"
    "oks = map (\<lambda>i. length (blocks b1) + i < 9) [0..<length ds]"
    using Cons.IH [OF b1(2)] by blast
  show ?case
  proof (cases "length (blocks b) < 9")
    case True
    then have "9 - length (blocks b) = Suc (9 - length (blocks b1))" using b1(4) by simp
    then show ?thesis using b1 b' True by (simp add: map_upt_Suc del: upt_Suc)
  next
    case False
    then show ?thesis using b1 b' by (simp add: map_upt_Suc del: upt_Suc)
  qed
qed simp

text \<open>After a reset \<^verbatim>\<open>AddIo\<close> takes the first nine blocks and refuses the others; \<^verbatim>\<open>WriteIo\<close> hands the socket the
  header with its current length followed by these blocks in order, whose lengths \<^verbatim>\<open>GetDataLength\<close> then adds up.\<close>

theorem gathered_message:
  "\<exists>oks b'. put_all (\<lambda>b d. Ret (AddIo b d)) (HIOOutputBuffer_Reset b) ds = Ret (oks, b') \<and>
    oks = map (\<lambda>i. i < 9) [0..<length ds] \<and>
    (let header = b'\<lparr>m_header := h\<rparr>; (sent, b'') = WriteIo (\<lambda>v. v) header in
       sent = \<lparr>iov_base = m_buf h, iov_len = unat (DataLength h)\<rparr> # map vec_of (take 9 ds) \<and>
       GetDataLength b'' = word_of_nat (unat (DataLength h) + sum_list (map length (take 9 ds))))"
proof -
  let ?b = "HIOOutputBuffer_Reset b"
  have r: "gather_inv ?b" "blocks ?b = []"
    by (simp_all add: HIOOutputBuffer_Reset_def gather_inv_def blocks_def IO_COUNT_def iovec_zero_def take_Cons')
  obtain oks b' where b': "put_all (\<lambda>b d. Ret (AddIo b d)) ?b ds = Ret (oks, b')" "gather_inv b'"
    "blocks b' = map vec_of (take 9 ds)" "oks = map (\<lambda>i. i < 9) [0..<length ds]"
    using gather_taken [OF r(1), of ds] r(2) by auto
  let ?v = "\<lparr>iov_base = m_buf h, iov_len = unat (DataLength h)\<rparr>"
  have w: "take (unat (m_index b')) ((m_vec b')[0 := ?v]) = ?v # blocks b'"
    using b'(2) by (cases "m_vec b'"; cases "unat (m_index b')") (auto simp: gather_inv_def blocks_def IO_COUNT_def)
  have s: "fold (\<lambda>v res. res + word_of_nat (iov_len v)) vs x = x + (word_of_nat (sum_list (map iov_len vs)) :: HUN)" for vs x
    by (induction vs arbitrary: x) (simp_all add: algebra_simps)
  have "iov_len \<circ> vec_of = length" by (auto simp: vec_of_def)
  then show ?thesis
    using b' w by (auto simp: WriteIo_def GetDataLength_def s)
qed

subsection \<open>Appending to the input and output buffer\<close>

definition io_inv :: "int \<Rightarrow> HIOBuffer \<Rightarrow> bool" where
  "io_inv z b \<longleftrightarrow>
     m_size b = z \<and>
     0 \<le> m_pos b \<and> 0 \<le> m_avalableLength b \<and> m_avalableLength b + m_pos b = m_size b \<and>
     m_size b = int (length (m_buffer b)) \<and> m_size b < 2 ^ 30"

definition io_accepts :: "HIOBuffer \<Rightarrow> HMEM \<Rightarrow> bool" where
  "io_accepts b str \<longleftrightarrow> 2 * m_pos b + int (length str) \<le> m_size b"

lemma HN_small: "0 \<le> n \<Longrightarrow> n < 2 ^ 31 \<Longrightarrow> signed_take_bit 31 (n :: int) = n"
  by (rule signed_take_bit_int_eq_self) auto

lemma HIOBuffer_Append_contract:
  assumes "io_inv z b" "length str < 2 ^ 30"
  shows "\<exists>b'. HIOBuffer_Append str b = Ret b' \<and> io_inv z b' \<and>
    PopData b' = (if io_accepts b str then PopData b @ str else PopData b) \<and> (\<not> io_accepts b str \<longrightarrow> b' = b)"
proof -
  let ?n = "int (length str)"
  have len: "to_HN (length str) = ?n" "HN_arith (?n + m_pos b) = Ret (?n + m_pos b)"
    using assms by (simp_all add: to_HN_id io_inv_def HN_arith_def HN_ok_def)
  have acc: "io_accepts b str \<longleftrightarrow> ?n + m_pos b \<le> m_avalableLength b"
    using assms(1) by (auto simp: io_accepts_def io_inv_def)
  show ?thesis
  proof (cases "io_accepts b str")
    case True
    let ?p = "nat (m_pos b)"
    let ?buf = "take ?p (m_buffer b) @ str @ drop (?p + length str) (m_buffer b)"
    have room: "?p + length str \<le> length (m_buffer b)"
      using assms(1) True acc by (simp add: io_inv_def) linarith
    then have w: "mem_write (m_buffer b) ?p str = Some ?buf" by (simp add: mem_write_def)
    have small: "signed_take_bit 31 (m_avalableLength b - ?n) = m_avalableLength b - ?n"
      "signed_take_bit 31 (m_pos b + ?n) = m_pos b + ?n"
      using assms True acc by (auto simp: io_inv_def intro!: HN_small)
    let ?b = "b\<lparr>m_buffer := ?buf, m_avalableLength := m_avalableLength b - ?n, m_pos := m_pos b + ?n\<rparr>"
    have "HIOBuffer_Append str b = Ret ?b"
      using assms(1) True acc by (simp add: HIOBuffer_Append_def len w small io_inv_def)
    moreover have "io_inv z ?b" using assms(1) True acc room by (simp add: io_inv_def)
    moreover have "PopData ?b = PopData b @ str"
      using room assms(1) by (simp add: PopData_def nat_add_distrib io_inv_def)
    ultimately show ?thesis using True by simp
  next
    case False
    then show ?thesis using assms(1) acc by (simp add: HIOBuffer_Append_def len)
  qed
qed

definition io_put :: "HIOBuffer \<Rightarrow> HMEM \<Rightarrow> (bool \<times> HIOBuffer) run" where
  "io_put b str = run_bind (HIOBuffer_Append str b) (\<lambda>b'. Ret (io_accepts b str, b'))"

interpretation iobuf: sink "io_inv z" "\<lambda>d. length d < 2 ^ 30" PopData "\<lambda>d. d" io_accepts io_put for z
proof
  fix b and str :: HMEM assume "io_inv z b" "length str < 2 ^ 30"
  then show "\<exists>b'. io_put b str = Ret (io_accepts b str, b') \<and> io_inv z b' \<and>
      PopData b' = (if io_accepts b str then PopData b @ str else PopData b)"
    using HIOBuffer_Append_contract [of z b str] by (auto simp: io_put_def)
qed

text \<open>Any sequence of appends to a new buffer stays inside it; the buffer then holds the accepted strings in order.
  An append is refused, without notice, when the string does not fit behind twice the data already there.\<close>

theorem HIOBuffer_appends:
  assumes "length block < 2 ^ 30" "\<forall>d \<in> set ds. length d < 2 ^ 30"
  shows "\<exists>oks b'. put_all io_put (HIOBuffer_new block (int (length block))) ds = Ret (oks, b') \<and>
    length oks = length ds \<and> PopData b' = concat (accepted oks ds) \<and>
    m_avalableLength b' + m_pos b' = int (length block) \<and> 0 \<le> m_avalableLength b' \<and>
    (\<forall>str. length str < 2 ^ 30 \<longrightarrow>
      HIOBuffer_Append str b' = Ret b' \<or> 2 * int (length (PopData b')) + int (length str) \<le> int (length block))"
proof -
  let ?b0 = "HIOBuffer_new block (int (length block))"
  let ?z = "int (length block)"
  have new: "io_inv ?z ?b0" "PopData ?b0 = []"
    using assms(1) by (simp_all add: HIOBuffer_new_def io_inv_def PopData_def)
  obtain oks b' where b': "put_all io_put ?b0 ds = Ret (oks, b')" "length oks = length ds" "io_inv ?z b'"
    "PopData b' = concat (accepted oks ds)"
    using iobuf.put_all_contents [OF new(1) assms(2)] new(2) by auto
  have size: "m_size b' = ?z" using b'(3) by (simp add: io_inv_def)
  have "int (length (PopData b')) = m_pos b'" using b'(3) by (simp add: io_inv_def PopData_def min_def) linarith
  then have "HIOBuffer_Append str b' = Ret b' \<or> 2 * int (length (PopData b')) + int (length str) \<le> int (length block)"
    if "length str < 2 ^ 30" for str
    using HIOBuffer_Append_contract [OF b'(3) that] size by (auto simp: io_accepts_def)
  then show ?thesis using b' size by (auto simp: io_inv_def)
qed

theorem HIOBuffer_appends_witness:
  "\<exists>oks b'. put_all io_put (HIOBuffer_new (replicate 10 0) 10) [replicate 6 1, replicate 2 2] = Ret (oks, b') \<and>
     PopData b' = concat (accepted oks [replicate 6 1, replicate 2 2])"
  using HIOBuffer_appends [of "replicate 10 0" "[replicate 6 1, replicate 2 2]"] by auto

text \<open>Two bytes are refused by a buffer of ten that holds six.\<close>

lemma HIOBuffer_refuses_room:
  "HIOBuffer_Append [2, 2] (\<lparr>io_length = 0, m_avalableLength = 4, m_buffer = replicate 10 1, m_size = 10, m_pos = 6\<rparr>) =
   Ret \<lparr>io_length = 0, m_avalableLength = 4, m_buffer = replicate 10 1, m_size = 10, m_pos = 6\<rparr>"
  by (simp add: HIOBuffer_Append_def to_HN_id HN_arith_def HN_ok_def)

subsection \<open>Lists of references\<close>

lemma HVRefBuffer_added:
  assumes "length bs < 2 ^ 31 - 1"
  shows "HVRefBuffer_Count (HVRefBuffer_Add p n bs) = HVRefBuffer_Count bs + 1"
    and "HVRefBuffer_Data (HVRefBuffer_Add p n bs) (HVRefBuffer_Count bs) = Ret p"
    and "HVRefBuffer_GetLength (HVRefBuffer_Add p n bs) (HVRefBuffer_Count bs) = Ret n"
    and "0 \<le> i \<Longrightarrow> i < HVRefBuffer_Count bs \<Longrightarrow> HVRefBuffer_Data (HVRefBuffer_Add p n bs) i = HVRefBuffer_Data bs i"
  using assms
  by (simp_all add: HVRefBuffer_Count_def HVRefBuffer_Add_def to_HN_id HVRefBuffer_Data_def HVRefBuffer_GetLength_def
      nth_append nat_less_iff)

text \<open>A negative index passes the test against the count.\<close>

lemma HVRefBuffer_negative: "length bs < 2 ^ 31 \<Longrightarrow> i < 0 \<Longrightarrow> HVRefBuffer_Data bs i = Stuck"
  by (simp add: HVRefBuffer_Data_def HVRefBuffer_Count_def to_HN_id)

end
