(* ===== verification/File_Name.thy ===== *)
theory File_Name
  imports Hui_Str
begin

text \<open>
  Names of files and directories: \<^verbatim>\<open>src/src/detail/fsname_detail.h\<close> and \<^verbatim>\<open>.cpp\<close>, \<^verbatim>\<open>src/src/hfilename.h\<close> and \<^verbatim>\<open>.cpp\<close>.

  An \<^verbatim>\<open>fsname\<close> is its string \<^verbatim>\<open>m_name\<close>. The system is a parameter: \<^verbatim>\<open>stat\<close> gives the mode and the size of an existing
  name; \<^verbatim>\<open>symlink\<close>, \<^verbatim>\<open>rename\<close>, \<^verbatim>\<open>remove\<close> and \<^verbatim>\<open>mkdir\<close> act on a file system of any type; \<^verbatim>\<open>getcwd\<close> and \<^verbatim>\<open>realpath\<close> are
  given by what they leave in the zeroed buffer, and \<^verbatim>\<open>dirname\<close> is the function of the C library.
\<close>

subsection \<open>C strings\<close>

text \<open>The text behind the last occurrence, the text before it, and the position of the first occurrence.\<close>

definition strrchr_tail :: "string \<Rightarrow> char \<Rightarrow> string option" where
  "strrchr_tail s c = (if c \<in> set s then Some (rev (takeWhile (\<lambda>x. x \<noteq> c) (rev s))) else None)"

definition strrchr_pos :: "string \<Rightarrow> char \<Rightarrow> nat option" where
  "strrchr_pos s c = map_option (\<lambda>t. length s - length t - 1) (strrchr_tail s c)"

definition strchr_pos :: "string \<Rightarrow> char \<Rightarrow> nat option" where
  "strchr_pos s c = (if c \<in> set s then Some (length (takeWhile (\<lambda>x. x \<noteq> c) s)) else None)"

subsection \<open>The class fsname\<close>

type_synonym fsname = string

definition preferred_separator :: char where "preferred_separator = CHR ''/''"

definition dos_elem :: char where "dos_elem = CHR ''.''"

definition S_IFMT :: nat where "S_IFMT = 0xF000"

definition S_IFDIR :: nat where "S_IFDIR = 0x4000"

definition S_IFREG :: nat where "S_IFREG = 0x8000"

definition Exists :: "(string \<Rightarrow> (nat \<times> nat) option) \<Rightarrow> fsname \<Rightarrow> bool" where
  "Exists stat m_name \<longleftrightarrow> stat (c_str m_name) \<noteq> None"

definition IsDir :: "(string \<Rightarrow> (nat \<times> nat) option) \<Rightarrow> fsname \<Rightarrow> bool" where
  "IsDir stat m_name \<longleftrightarrow>
     (case stat (c_str m_name) of None \<Rightarrow> False | Some (mode, _) \<Rightarrow> mode AND S_IFMT = S_IFDIR)"

definition IsFile :: "(string \<Rightarrow> (nat \<times> nat) option) \<Rightarrow> fsname \<Rightarrow> bool" where
  "IsFile stat m_name \<longleftrightarrow>
     (case stat (c_str m_name) of None \<Rightarrow> False | Some (mode, _) \<Rightarrow> mode AND S_IFMT = S_IFREG)"

definition GetFileSize :: "(string \<Rightarrow> (nat \<times> nat) option) \<Rightarrow> fsname \<Rightarrow> nat" where
  "GetFileSize stat m_name = (case stat (c_str m_name) of None \<Rightarrow> 0 | Some (_, st_size) \<Rightarrow> st_size)"

definition Symlink :: "(string \<Rightarrow> string \<Rightarrow> 'f \<Rightarrow> int \<times> 'f) \<Rightarrow> fsname \<Rightarrow> string \<Rightarrow> 'f \<Rightarrow> RET_T \<times> 'f" where
  "Symlink symlink m_name strDstName f =
     (let (rv, f) = symlink (c_str m_name) (c_str strDstName) f in (if rv = 0 then ERR_OK else SYS_FAILED, f))"

definition fs_Remove :: "(string \<Rightarrow> 'f \<Rightarrow> int \<times> 'f) \<Rightarrow> fsname \<Rightarrow> 'f \<Rightarrow> RET_T \<times> 'f" where
  "fs_Remove remove m_name f = (let (rv, f) = remove (c_str m_name) f in (if rv = 0 then ERR_OK else SYS_FAILED, f))"

definition Rename :: "(string \<Rightarrow> string \<Rightarrow> 'f \<Rightarrow> int \<times> 'f) \<Rightarrow> fsname \<Rightarrow> string \<Rightarrow> 'f \<Rightarrow> RET_T \<times> fsname \<times> 'f" where
  "Rename rename m_name strDstName f =
     (let (rv, f) = rename (c_str m_name) (c_str strDstName) f
      in if rv = 0 then (ERR_OK, strDstName, f) else (INVL_PARA, m_name, f))"

text \<open>\<open>mkdir\<close> returns 0 or the error number; \<open>17\<close> is \<^verbatim>\<open>EEXIST\<close>.\<close>

definition CreateDirectory :: "(string \<Rightarrow> nat \<Rightarrow> 'f \<Rightarrow> nat \<times> 'f) \<Rightarrow> fsname \<Rightarrow> nat \<Rightarrow> 'f \<Rightarrow> RET_T \<times> 'f" where
  "CreateDirectory mkdir m_name modes f =
     (let (err, f) = mkdir (c_str m_name) modes f in (if err = 0 \<or> err = 17 then ERR_OK else SYS_FAILED, f))"

definition IsRootBegin :: "string \<Rightarrow> bool" where
  "IsRootBegin strPath \<longleftrightarrow> (case strPath of [] \<Rightarrow> False | c # _ \<Rightarrow> c = preferred_separator)"

definition IsRootEnd :: "string \<Rightarrow> bool" where
  "IsRootEnd strPath \<longleftrightarrow> (if strPath = [] then False else strPath ! (length strPath - 1) = preferred_separator)"

definition IsAbsolute :: "fsname \<Rightarrow> bool" where
  "IsAbsolute m_name \<longleftrightarrow> IsRootBegin m_name"

definition IsRelative :: "fsname \<Rightarrow> bool" where
  "IsRelative m_name \<longleftrightarrow> \<not> IsAbsolute m_name"

definition IsJustOnlyFileName :: "fsname \<Rightarrow> bool" where
  "IsJustOnlyFileName m_name \<longleftrightarrow> preferred_separator \<notin> set m_name"

definition SetAsCurrent :: "string \<Rightarrow> fsname" where
  "SetAsCurrent cwd = c_str cwd"

definition fs_Append :: "string \<Rightarrow> fsname \<Rightarrow> string \<Rightarrow> fsname" where
  "fs_Append cwd m_name new_path =
     (if new_path = [] then m_name
      else let m_name = (if m_name = [] then SetAsCurrent cwd else m_name);
               newpath = (if IsRootBegin new_path then RemoveLeft new_path 1 else new_path);
               m_name = (if IsRootEnd m_name then RemoveRight m_name 1 else m_name)
           in m_name @ [preferred_separator] @ newpath)"

definition SetAsAbsolute :: "string \<Rightarrow> (string \<Rightarrow> string) \<Rightarrow> fsname \<Rightarrow> fsname" where
  "SetAsAbsolute cwd realpath m_name =
     (if IsAbsolute m_name then m_name
      else if IsJustOnlyFileName m_name then fs_Append cwd (SetAsCurrent cwd) m_name
      else c_str (realpath (c_str m_name)))"

definition GetParentPath :: "string \<Rightarrow> (string \<Rightarrow> string) \<Rightarrow> (string \<Rightarrow> string) \<Rightarrow> fsname \<Rightarrow> fsname" where
  "GetParentPath cwd realpath dirname m_name =
     (let res = (if \<not> IsAbsolute m_name then SetAsAbsolute cwd realpath m_name else m_name);
          res = (if IsRootEnd res then RemoveRight res 1 else res)
      in dirname (c_str res))"

definition FileName :: "fsname \<Rightarrow> string" where
  "FileName m_name = (case strrchr_tail (c_str m_name) preferred_separator of None \<Rightarrow> m_name | Some t \<Rightarrow> t)"

definition FileNameOnly :: "fsname \<Rightarrow> string" where
  "FileNameOnly m_name =
     (let strFileName = FileName m_name
      in case strrchr_pos (c_str strFileName) dos_elem of None \<Rightarrow> strFileName | Some pos \<Rightarrow> take pos strFileName)"

text \<open>A null \<^verbatim>\<open>root_pos\<close> is below every position.\<close>

definition GetFileExternName :: "fsname \<Rightarrow> string" where
  "GetFileExternName m_name =
     (case strrchr_pos (c_str m_name) dos_elem of
        None \<Rightarrow> []
      | Some po_pos \<Rightarrow>
          (case strchr_pos (c_str m_name) preferred_separator of
             None \<Rightarrow> drop (po_pos + 1) (c_str m_name)
           | Some root_pos \<Rightarrow> if po_pos < root_pos then [] else drop (po_pos + 1) (c_str m_name)))"

subsection \<open>Files and directories\<close>

definition GoToParent :: "string \<Rightarrow> (string \<Rightarrow> string) \<Rightarrow> (string \<Rightarrow> string) \<Rightarrow> fsname \<Rightarrow> fsname" where
  "GoToParent cwd realpath dirname m_name = GetParentPath cwd realpath dirname m_name"

definition GetDicFile :: "string \<Rightarrow> fsname \<Rightarrow> string \<Rightarrow> fsname" where
  "GetDicFile cwd m_name strFileName = fs_Append cwd m_name strFileName"

definition GetParentDic :: "string \<Rightarrow> (string \<Rightarrow> string) \<Rightarrow> (string \<Rightarrow> string) \<Rightarrow> fsname \<Rightarrow> fsname" where
  "GetParentDic cwd realpath dirname m_name = GetParentPath cwd realpath dirname m_name"

definition GetExtenName :: "fsname \<Rightarrow> string" where
  "GetExtenName m_name = GetFileExternName m_name"

definition JustFileName :: "fsname \<Rightarrow> string" where
  "JustFileName m_name = FileNameOnly m_name"

definition DT_REG :: nat where "DT_REG = 8"

definition DT_DIR :: nat where "DT_DIR = 4"

text \<open>\<open>opendir\<close> gives the entries, name and type, that \<^verbatim>\<open>readdir\<close> delivers, or \<open>None\<close>.\<close>

fun readdir_loop :: "(string \<times> nat) list \<Rightarrow> string list \<Rightarrow> string list \<Rightarrow> string list \<times> string list" where
  "readdir_loop [] fs ds = (fs, ds)"
| "readdir_loop ((d_name, d_type) # es) fs ds =
     readdir_loop es (if d_type AND DT_REG \<noteq> 0 then fs @ [d_name] else fs)
                     (if d_type AND DT_DIR \<noteq> 0 then ds @ [d_name] else ds)"

definition GetSubFiles ::
  "(string \<Rightarrow> (string \<times> nat) list option) \<Rightarrow> fsname \<Rightarrow> string list \<Rightarrow> string list \<Rightarrow> string list \<times> string list" where
  "GetSubFiles opendir m_name fs ds =
     (case opendir (c_str m_name) of None \<Rightarrow> (fs, ds) | Some es \<Rightarrow> readdir_loop es fs ds)"

subsection \<open>Parts of a name\<close>

lemma strrchr_tail_split: "c \<notin> set t \<Longrightarrow> strrchr_tail (s @ c # t) c = Some t"
proof -
  assume "c \<notin> set t"
  then have "takeWhile (\<lambda>x. x \<noteq> c) (rev t @ c # rev s) = rev t" by (subst takeWhile_append2) auto
  then show ?thesis by (simp add: strrchr_tail_def)
qed

lemma strrchr_pos_split: "c \<notin> set t \<Longrightarrow> strrchr_pos (s @ c # t) c = Some (length s)"
  by (simp add: strrchr_pos_def strrchr_tail_split)

lemmas fs_consts = preferred_separator_def dos_elem_def

lemma IsRootEnd_snoc [simp]: "IsRootEnd (s @ [c]) \<longleftrightarrow> c = CHR ''/''" "\<not> IsRootEnd []"
  by (simp_all add: IsRootEnd_def fs_consts)

lemma fs_Append_name:
  assumes "d \<noteq> []" "\<not> IsRootEnd d" "f \<noteq> []" "\<not> IsRootBegin f"
  shows "fs_Append cwd d f = d @ ''/'' @ f"
  using assms by (simp add: fs_Append_def fs_consts)

lemma fs_Append_root: "f \<noteq> [] \<Longrightarrow> \<not> IsRootBegin f \<Longrightarrow> fs_Append cwd ''/'' f = ''/'' @ f"
  by (simp add: fs_Append_def fs_consts IsRootEnd_def RemoveRight_def)

text \<open>A plain name: not empty, without separators and without NUL.\<close>

definition plain_name :: "string \<Rightarrow> bool" where
  "plain_name f \<longleftrightarrow> f \<noteq> [] \<and> CHR ''/'' \<notin> set f \<and> CHR 0x00 \<notin> set f"

text \<open>An absolute directory without a separator at its end, and the root.\<close>

definition dir_name :: "string \<Rightarrow> bool" where
  "dir_name d \<longleftrightarrow> d = ''/'' \<or> (IsAbsolute d \<and> \<not> IsRootEnd d \<and> CHR 0x00 \<notin> set d)"

definition path_of :: "string \<Rightarrow> string \<Rightarrow> string" where
  "path_of d f = (if d = ''/'' then ''/'' @ f else d @ ''/'' @ f)"

lemma plain_not_root: "plain_name f \<Longrightarrow> \<not> IsRootBegin f \<and> \<not> IsRootEnd (s @ f)"
proof
  assume f: "plain_name f"
  then show "\<not> IsRootBegin f" by (auto simp: plain_name_def IsRootBegin_def fs_consts split: list.splits)
  from f obtain ys y where "f = ys @ [y]" "y \<noteq> CHR ''/''" by (cases f rule: rev_cases) (auto simp: plain_name_def)
  then show "\<not> IsRootEnd (s @ f)" using IsRootEnd_snoc(1) [of "s @ ys" y] by simp
qed

lemma Append_path: "dir_name d \<Longrightarrow> plain_name f \<Longrightarrow> fs_Append cwd d f = path_of d f"
  using plain_not_root [of f "[]"] fs_Append_name [of d f cwd] fs_Append_root [of f cwd]
  by (auto simp: dir_name_def path_of_def plain_name_def IsAbsolute_def IsRootBegin_def split: list.splits)

lemma path_of_nul: "dir_name d \<Longrightarrow> plain_name f \<Longrightarrow> c_str (path_of d f) = path_of d f"
  by (rule c_str_id) (auto simp: dir_name_def plain_name_def path_of_def)

lemma path_of_split: "\<exists>p. path_of d f = p @ CHR ''/'' # f"
  by (auto simp: path_of_def)

lemma FileName_path: "dir_name d \<Longrightarrow> plain_name f \<Longrightarrow> FileName (path_of d f) = f"
  using path_of_split [of d f] strrchr_tail_split [of "CHR ''/''" f]
  by (auto simp: FileName_def path_of_nul fs_consts plain_name_def)

lemma FileNameOnly_path:
  assumes "dir_name d" "plain_name f" "f = b @ ''.'' @ e" "CHR ''.'' \<notin> set e"
  shows "FileNameOnly (path_of d f) = b"
proof -
  have "c_str f = f" using assms(2) by (intro c_str_id) (simp add: plain_name_def)
  moreover have "strrchr_pos f dos_elem = Some (length b)"
    using strrchr_pos_split [of "CHR ''.''" e b] assms(3,4) by (simp add: fs_consts)
  moreover have "take (length b) f = b" using assms(3) by simp
  ultimately show ?thesis unfolding FileNameOnly_def FileName_path [OF assms(1,2)] by simp
qed

lemma GetFileExternName_path:
  assumes "dir_name d" "plain_name f" "f = b @ ''.'' @ e" "CHR ''.'' \<notin> set e"
  shows "GetFileExternName (path_of d f) = e"
proof -
  obtain p where p: "path_of d f = (p @ CHR ''/'' # b) @ CHR ''.'' # e" using path_of_split [of d f] assms(3) by auto
  have dot: "strrchr_pos (path_of d f) dos_elem = Some (length (p @ CHR ''/'' # b))"
    unfolding p fs_consts by (rule strrchr_pos_split [OF assms(4)])
  have "length (takeWhile (\<lambda>x. x \<noteq> CHR ''/'') (path_of d f)) \<le> length p"
    unfolding p by (induction p) auto
  then obtain k where "strchr_pos (path_of d f) preferred_separator = Some k" "k \<le> length p"
    using p by (auto simp: strchr_pos_def fs_consts)
  then show ?thesis
    using dot unfolding GetFileExternName_def path_of_nul [OF assms(1,2)] by (simp add: p)
qed

text \<open>The documented behaviour of \<^verbatim>\<open>dirname\<close> on a path that ends in a plain name.\<close>

definition dirname_law :: "(string \<Rightarrow> string) \<Rightarrow> bool" where
  "dirname_law dirname \<longleftrightarrow> (\<forall>d f. dir_name d \<and> plain_name f \<longrightarrow> dirname (path_of d f) = d)"

lemma GetParentPath_path:
  assumes "dirname_law dirname" "dir_name d" "plain_name f"
  shows "GetParentPath cwd realpath dirname (path_of d f) = d"
proof -
  have "\<not> IsRootEnd (path_of d f)"
    using plain_not_root [OF assms(3), of "''/''"] plain_not_root [OF assms(3), of "d @ ''/''"] by (auto simp: path_of_def)
  moreover have "IsAbsolute (path_of d f)"
    using assms(2) by (auto simp: dir_name_def path_of_def IsAbsolute_def IsRootBegin_def fs_consts split: list.splits)
  ultimately show ?thesis
    using assms by (simp add: GetParentPath_def path_of_nul dirname_law_def)
qed

text \<open>C35: A file appended to an absolute directory is taken apart again: its parent is the directory, its name the file,
  and the text before and behind the last dot of the file are its base name and its extension.\<close>

theorem file_name_parts:
  assumes "dirname_law dirname" "dir_name d" "plain_name (b @ ''.'' @ e)" "CHR ''.'' \<notin> set e"
  shows "let p = GetDicFile cwd d (b @ ''.'' @ e) in
    GetParentDic cwd realpath dirname p = d \<and> FileName p = b @ ''.'' @ e \<and> JustFileName p = b \<and> GetExtenName p = e \<and>
    IsAbsolute p"
  using Append_path [OF assms(2,3), of cwd] GetParentPath_path [OF assms(1-3), of cwd realpath]
    FileName_path [OF assms(2,3)] FileNameOnly_path [OF assms(2,3) _ assms(4)] GetFileExternName_path [OF assms(2,3) _ assms(4)]
    assms(2)
  by (auto simp: GetDicFile_def GetParentDic_def JustFileName_def GetExtenName_def dir_name_def path_of_def IsAbsolute_def
      IsRootBegin_def fs_consts split: list.splits)

definition dirname_plain :: "string \<Rightarrow> string" where
  "dirname_plain p = (let d = rev (tl (dropWhile (\<lambda>c. c \<noteq> CHR ''/'') (rev p))) in if d = [] then ''/'' else d)"

lemma dirname_plain_law: "dirname_law dirname_plain"
  unfolding dirname_law_def
proof (intro allI impI)
  fix d f assume df: "dir_name d \<and> plain_name f"
  have "dropWhile (\<lambda>c. c \<noteq> CHR ''/'') (rev f @ CHR ''/'' # r) = CHR ''/'' # r" for r
    using df by (subst dropWhile_append2) (auto simp: plain_name_def)
  moreover have "d \<noteq> []" using df by (auto simp: dir_name_def IsAbsolute_def IsRootBegin_def)
  ultimately show "dirname_plain (path_of d f) = d"
    by (simp add: dirname_plain_def path_of_def)
qed

theorem file_name_parts_witness:
  "let p = GetDicFile ''/'' ''/etc/x.d'' ''a.tar.gz'' in
    GetParentDic ''/'' (\<lambda>p. p) dirname_plain p = ''/etc/x.d'' \<and> FileName p = ''a.tar.gz'' \<and>
    JustFileName p = ''a.tar'' \<and> GetExtenName p = ''gz'' \<and> IsAbsolute p"
  using file_name_parts [OF dirname_plain_law, of "''/etc/x.d''" "''a.tar''" "''gz''" "''/''" "\<lambda>p. p"]
  by (simp add: dir_name_def plain_name_def IsAbsolute_def IsRootBegin_def IsRootEnd_def fs_consts)

text \<open>The extension of a file without one in a directory with a dot is the rest of the path.\<close>

lemma extension_of_directory: "GetExtenName ''/a.b/c'' = ''b/c''"
  by (simp add: GetExtenName_def GetFileExternName_def c_str_def strrchr_pos_def strrchr_tail_def strchr_pos_def fs_consts)

text \<open>The parent of the root is what \<^verbatim>\<open>dirname\<close> makes of the empty path, the current directory.\<close>

lemma parent_of_root: "GetParentPath cwd realpath dirname ''/'' = dirname []"
  by (simp add: GetParentPath_def IsAbsolute_def IsRootBegin_def IsRootEnd_def RemoveRight_def c_str_def fs_consts)

subsection \<open>Renaming and listing\<close>

lemma Rename_name:
  "fst (Rename rename n dst f) = ERR_OK \<longleftrightarrow> fst (rename (c_str n) (c_str dst) f) = 0"
  "fst (snd (Rename rename n dst f)) = (if fst (Rename rename n dst f) = ERR_OK then dst else n)"
  by (auto simp: Rename_def split: prod.splits)

lemma readdir_loop_filter:
  "readdir_loop es fs ds =
     (fs @ map fst (filter (\<lambda>e. snd e AND DT_REG \<noteq> 0) es), ds @ map fst (filter (\<lambda>e. snd e AND DT_DIR \<noteq> 0) es))"
  by (induction es fs ds rule: readdir_loop.induct) auto

text \<open>\<^verbatim>\<open>GetSubFiles\<close> appends the entries in the order of the directory. Regular files (type 8) and directories (type
  4) come into the right list only; but the types are compared bit by bit, so a block device (6) is listed as a
  directory, a symbolic link (10) as a file and a socket (12) as both.\<close>

theorem GetSubFiles_lists:
  assumes "opendir (c_str d) = Some es" "\<forall>e \<in> set es. snd e \<in> {0, 1, 2, 4, 6, 8, 10, 12}"
  shows "GetSubFiles opendir d fs ds =
    (fs @ map fst (filter (\<lambda>e. snd e \<in> {8, 10, 12}) es), ds @ map fst (filter (\<lambda>e. snd e \<in> {4, 6, 12}) es))"
proof -
  have "e AND 8 \<noteq> 0 \<longleftrightarrow> e \<in> {8, 10, 12}" "e AND 4 \<noteq> 0 \<longleftrightarrow> e \<in> {4, 6, 12}"
    if "e \<in> {0, 1, 2, 4, 6, 8, 10, 12}" for e :: nat
    using that by auto
  then have "filter (\<lambda>e. snd e AND DT_REG \<noteq> 0) es = filter (\<lambda>e. snd e \<in> {8, 10, 12}) es"
    "filter (\<lambda>e. snd e AND DT_DIR \<noteq> 0) es = filter (\<lambda>e. snd e \<in> {4, 6, 12}) es"
    using assms(2) by (auto simp only: DT_REG_def DT_DIR_def intro!: filter_cong)
  then show ?thesis using assms(1) by (simp only: GetSubFiles_def option.case readdir_loop_filter)
qed

theorem GetSubFiles_lists_witness:
  "GetSubFiles (\<lambda>d. Some [(''a'', 8), (''b'', 4), (''sda'', 6)]) ''/d'' [] [] = ([''a''], [''b'', ''sda''])"
  using GetSubFiles_lists [of "\<lambda>d. Some [(''a'', 8), (''b'', 4), (''sda'', 6)]" "''/d''"] by simp

end
