(* ===== verification/Url_Hex.thy ===== *)
theory Url_Hex
  imports Hui_Prelude "HOL-Library.Monad_Syntax"
begin

text \<open>
  Hexadecimal and URL texts: \<^verbatim>\<open>src/crypto/hex.cpp\<close> and \<^verbatim>\<open>src/crypto/urlencode.cpp\<close>.

  A failed \<^verbatim>\<open>assert\<close> and an access outside an array or a string are \<open>None\<close>. \<^verbatim>\<open>char\<close> is signed, as on the
  x86-64 host of the build files: converted to \<^verbatim>\<open>int\<close>, a character of code 128 or more is negative.
\<close>

subsection \<open>Hexadecimal texts\<close>

definition hexmap :: string where
  "hexmap = ''0123456789abcdef''"

definition create_hexbyte_map :: "(char \<times> char) list" where
  "create_hexbyte_map = map (\<lambda>i. (hexmap ! (i div 16), hexmap ! (i mod 16))) [0..<256]"

text \<open>The conversion \<^verbatim>\<open>HTO_INT\<close> of a signed and of an unsigned character.\<close>

definition HTO_INT_char :: "nat \<Rightarrow> int" where
  "HTO_INT_char c = (if c < 128 then int c else int c - 256)"

definition hexbyte :: "int \<Rightarrow> (char \<times> char) option" where
  "hexbyte i = (if 0 \<le> i \<and> i < 256 then Some (create_hexbyte_map ! nat i) else None)"

fun hex_loop :: "int list \<Rightarrow> string option" where
  "hex_loop [] = Some []"
| "hex_loop (i # is) = do { cvr \<leftarrow> hexbyte i; rv \<leftarrow> hex_loop is; Some (fst cvr # snd cvr # rv) }"

definition HexMem :: "HMEM \<Rightarrow> string option" where
  "HexMem mem = hex_loop (map (\<lambda>b. HTO_INT_char (unat b)) mem)"

definition HexStr :: "string \<Rightarrow> string option" where
  "HexStr str = hex_loop (map (\<lambda>c. HTO_INT_char (of_char c)) str)"

text \<open>The overload for a pointer and a length reads unsigned characters; reading behind the block is \<open>None\<close>.\<close>

definition HexStr_ptr :: "HMEM \<Rightarrow> nat \<Rightarrow> string option" where
  "HexStr_ptr ptr len = do { bs \<leftarrow> mem_read ptr 0 len; hex_loop (map (\<lambda>b. int (unat b)) bs) }"

subsection \<open>URL encoding\<close>

definition ToHex :: "nat \<Rightarrow> nat" where
  "ToHex x = (if x > 9 then x + 55 else x + 48)"

definition FromHex :: "nat \<Rightarrow> nat option" where
  "FromHex x =
     (if 65 \<le> x \<and> x \<le> 90 then Some (x - 65 + 10)
      else if 97 \<le> x \<and> x \<le> 122 then Some (x - 97 + 10)
      else if 48 \<le> x \<and> x \<le> 57 then Some (x - 48)
      else None)"

definition isalnum :: "nat \<Rightarrow> bool" where
  "isalnum x \<longleftrightarrow> 48 \<le> x \<and> x \<le> 57 \<or> 65 \<le> x \<and> x \<le> 90 \<or> 97 \<le> x \<and> x \<le> 122"

definition url_plain :: "string \<Rightarrow> char \<Rightarrow> bool" where
  "url_plain safes c \<longleftrightarrow>
     isalnum (of_char c) \<or> c = CHR ''-'' \<or> c = CHR ''_'' \<or> c = CHR ''.'' \<or> c = CHR ''~'' \<or> c \<in> set safes"

definition Encode_char :: "string \<Rightarrow> char \<Rightarrow> string" where
  "Encode_char safes c =
     (if url_plain safes c then [c]
      else if c = CHR '' '' then ''+''
      else [CHR ''%'', char_of (ToHex (of_char c div 16)), char_of (ToHex (of_char c mod 16))])"

fun Encode_loop :: "string \<Rightarrow> string \<Rightarrow> string \<Rightarrow> string" where
  "Encode_loop safes [] dst = dst"
| "Encode_loop safes (c # s) dst = Encode_loop safes s (dst @ Encode_char safes c)"

definition UrlEncode_Encode :: "string \<Rightarrow> string \<Rightarrow> RET_T \<times> string" where
  "UrlEncode_Encode str safes = (ERR_OK, Encode_loop safes str [])"

text \<open>The argument is the rest of the string; two more characters must follow a percent sign.\<close>

fun Decode_loop :: "string \<Rightarrow> string \<Rightarrow> string option" where
  "Decode_loop [] dst = Some dst"
| "Decode_loop (c # s) dst =
     (if c = CHR ''+'' then Decode_loop s (dst @ '' '')
      else if c = CHR ''%''
      then case s of
             h # l # s' \<Rightarrow> do { high \<leftarrow> FromHex (of_char h);
                               low \<leftarrow> FromHex (of_char l);
                               Decode_loop s' (dst @ [char_of ((high * 16 + low) mod 256)]) }
           | _ \<Rightarrow> None
      else Decode_loop s (dst @ [c]))"

definition UrlEncode_Decode :: "string \<Rightarrow> (RET_T \<times> string) option" where
  "UrlEncode_Decode str = map_option (Pair ERR_OK) (Decode_loop str [])"

definition good_char :: "char \<Rightarrow> bool" where
  "good_char c \<longleftrightarrow> 65 \<le> (of_char c :: nat) \<and> (of_char c :: nat) \<le> 90 \<or> 48 \<le> (of_char c :: nat) \<and> (of_char c :: nat) \<le> 57"

text \<open>\<^verbatim>\<open>operator[]\<close> of \<^verbatim>\<open>std::string\<close>: the terminator at the end, nothing defined behind it.\<close>

definition str_at :: "string \<Rightarrow> int \<Rightarrow> char option" where
  "str_at s i =
     (if 0 \<le> i \<and> i < int (length s) then Some (s ! nat i)
      else if i = int (length s) then Some (CHR 0x00) else None)"

function IsUrlEncode_loop :: "string \<Rightarrow> nat \<Rightarrow> bool option" where
  "IsUrlEncode_loop s i =
     (if i < length s
      then if s ! i = CHR ''%''
           then do { a \<leftarrow> str_at s (int i + 1);
                     if \<not> good_char a then Some False
                     else do { b \<leftarrow> str_at s (int i + 2);
                               if \<not> good_char b then Some False else IsUrlEncode_loop s (i + 1) } }
           else IsUrlEncode_loop s (i + 1)
      else Some True)"
  by pat_completeness auto
termination by (relation "measure (\<lambda>(s, i). length s - i)") auto

declare IsUrlEncode_loop.simps [simp del]

definition IsUrlEncode :: "string \<Rightarrow> bool option" where
  "IsUrlEncode s =
     (let len = signed_take_bit 31 (int (length s)) in
      do { a \<leftarrow> str_at s (len - 2);
           if a = CHR ''%'' then Some False
           else do { b \<leftarrow> str_at s (len - 1);
                     if b = CHR ''%'' then Some False else IsUrlEncode_loop s 0 } })"

subsection \<open>What hexadecimal texts are\<close>

lemma hexmap_nth [simp]: "length hexmap = 16"
  by (simp add: hexmap_def)

definition hex_of :: "nat \<Rightarrow> string" where
  "hex_of n = [hexmap ! (n div 16), hexmap ! (n mod 16)]"

lemma hex_loop_ok:
  "\<forall>n \<in> set ns. n < 256 \<Longrightarrow> hex_loop (map int ns) = Some (concat (map hex_of ns))"
  by (induction ns) (auto simp: hexbyte_def create_hexbyte_map_def hex_of_def)

lemma hex_loop_bad: "i \<in> set is \<Longrightarrow> i < 0 \<Longrightarrow> hex_loop is = None"
  by (induction "is") (auto simp: hexbyte_def split: option.splits bind_splits)

lemma hex_loop_bytes: "hex_loop (map (\<lambda>b. int (unat b)) mem) = Some (concat (map (\<lambda>b. hex_of (unat b)) (mem :: HMEM)))"
  using hex_loop_ok [of "map unat mem"] unat_byte by (simp add: comp_def del: of_nat_unat)

lemma HexStr_ptr_hex: "len \<le> length ptr \<Longrightarrow> HexStr_ptr ptr len = Some (concat (map (\<lambda>b. hex_of (unat b)) (take len ptr)))"
  by (simp add: HexStr_ptr_def hex_loop_bytes del: of_nat_unat)

lemma HexMem_cases:
  "HexMem mem = (if \<exists>b \<in> set mem. 128 \<le> unat b then None else Some (concat (map (\<lambda>b. hex_of (unat b)) mem)))"
proof (cases "\<exists>b \<in> set mem. 128 \<le> unat b")
  case True
  then obtain b where b: "b \<in> set mem" "128 \<le> unat b" by blast
  then have "HTO_INT_char (unat b) < 0" using unat_byte [of b] by (simp add: HTO_INT_char_def del: of_nat_unat)
  with b True show ?thesis unfolding HexMem_def by (simp add: hex_loop_bad [of "HTO_INT_char (unat b)"])
next
  case False
  then have "map (\<lambda>b. HTO_INT_char (unat b)) mem = map (\<lambda>b. int (unat b)) mem"
    by (auto simp: HTO_INT_char_def not_le)
  then show ?thesis using False unfolding HexMem_def by (simp only: hex_loop_bytes if_False)
qed

lemma hexmap_inj: "a < 16 \<Longrightarrow> b < 16 \<Longrightarrow> hexmap ! a = hexmap ! b \<Longrightarrow> a = b"
  by (rule nth_eq_iff_index_eq [THEN iffD1, of hexmap]) (simp_all add: hexmap_def)

lemma hex_of_inj: "m < 256 \<Longrightarrow> n < 256 \<Longrightarrow> hex_of m = hex_of n \<Longrightarrow> m = n"
proof -
  assume "m < 256" "n < 256" "hex_of m = hex_of n"
  then have "m div 16 = n div 16" "m mod 16 = n mod 16"
    using hexmap_inj [of "m div 16" "n div 16"] hexmap_inj [of "m mod 16" "n mod 16"] by (auto simp: hex_of_def)
  then show "m = n" by (metis div_mult_mod_eq)
qed

lemma hex_text_inj:
  "concat (map (\<lambda>b. hex_of (unat b)) (xs :: HMEM)) = concat (map (\<lambda>b. hex_of (unat b)) ys) \<Longrightarrow> xs = ys"
proof (induction xs arbitrary: ys)
  case Nil
  then show ?case by (cases ys) (auto simp: hex_of_def)
next
  case (Cons x xs)
  then obtain y ys' where ys: "ys = y # ys'" by (cases ys) (auto simp: hex_of_def)
  then have "hex_of (unat x) = hex_of (unat y)" "xs = ys'"
    using Cons by (auto simp: hex_of_def)
  then show ?case using hex_of_inj [OF unat_byte unat_byte] ys by (simp add: word_unat_eq_iff)
qed

subsection \<open>Encoding and decoding\<close>

lemma Encode_loop_map: "Encode_loop safes s dst = dst @ concat (map (Encode_char safes) s)"
  by (induction s arbitrary: dst) auto

lemma code_bound: "(of_char c :: nat) < 256"
  by simp

lemma hex_digit_bounds: "x < 16 \<Longrightarrow> ToHex x \<in> {48..57} \<union> {65..70}"
  by (auto simp: ToHex_def)

lemma FromHex_ToHex [simp]: "x < 16 \<Longrightarrow> FromHex (ToHex x mod 256) = Some x"
  by (auto simp: FromHex_def ToHex_def)

lemma Decode_Encode_char:
  assumes "CHR ''%'' \<notin> set safes" "CHR ''+'' \<notin> set safes"
  shows "Decode_loop (Encode_char safes c @ s) dst = Decode_loop s (dst @ [c])"
proof (cases "url_plain safes c")
  case True
  then have "c \<noteq> CHR ''%''" "c \<noteq> CHR ''+''" using assms by (auto simp: url_plain_def isalnum_def)
  then show ?thesis using True by (simp add: Encode_char_def)
next
  case False
  have "(of_char c :: nat) div 16 < 16" by (simp add: less_mult_imp_div_less)
  moreover have "(of_char c div 16) * 16 + of_char c mod 16 = (of_char c :: nat)" by simp
  ultimately show ?thesis using False by (simp add: Encode_char_def)
qed

lemma Decode_Encode:
  assumes "CHR ''%'' \<notin> set safes" "CHR ''+'' \<notin> set safes"
  shows "Decode_loop (concat (map (Encode_char safes) s)) dst = Some (dst @ s)"
  by (induction s arbitrary: dst) (simp_all add: Decode_Encode_char [OF assms])

lemma UrlEncode_roundtrip_rep:
  assumes "CHR ''%'' \<notin> set safes" "CHR ''+'' \<notin> set safes"
  shows "UrlEncode_Decode (snd (UrlEncode_Encode s safes)) = Some (ERR_OK, s)"
  by (simp add: UrlEncode_Encode_def UrlEncode_Decode_def Encode_loop_map Decode_Encode [OF assms])

subsection \<open>Texts the encoder writes pass the test\<close>

definition escapes_ok :: "string \<Rightarrow> bool" where
  "escapes_ok e \<longleftrightarrow>
     (\<forall>i < length e. e ! i = CHR ''%'' \<longrightarrow> i + 2 < length e \<and> good_char (e ! (i + 1)) \<and> good_char (e ! (i + 2)))"

lemma good_hex_digit: "x < 16 \<Longrightarrow> good_char (char_of (ToHex x))"
  using hex_digit_bounds [of x] by (auto simp: good_char_def)

lemma escapes_ok_Cons: "c \<noteq> CHR ''%'' \<Longrightarrow> escapes_ok e \<Longrightarrow> escapes_ok (c # e)"
  by (auto simp: escapes_ok_def nth_Cons split: nat.splits)

lemma escapes_ok_escape: "good_char a \<Longrightarrow> good_char b \<Longrightarrow> escapes_ok e \<Longrightarrow> escapes_ok (CHR ''%'' # a # b # e)"
proof -
  assume g: "good_char a" "good_char b" and e: "escapes_ok e"
  then have "a \<noteq> CHR ''%''" "b \<noteq> CHR ''%''" by (auto simp: good_char_def)
  then have "escapes_ok (a # b # e)" using e by (simp add: escapes_ok_Cons)
  then show "escapes_ok (CHR ''%'' # a # b # e)"
    using g by (auto simp: escapes_ok_def nth_Cons split: nat.splits)
qed

lemma escapes_ok_Encode:
  assumes "CHR ''%'' \<notin> set safes"
  shows "escapes_ok (concat (map (Encode_char safes) s))"
proof (induction s)
  case Nil
  then show ?case by (simp add: escapes_ok_def)
next
  case (Cons c s)
  have "(of_char c :: nat) div 16 < 16" "(of_char c :: nat) mod 16 < 16" by (simp_all add: less_mult_imp_div_less)
  moreover have "url_plain safes c \<Longrightarrow> c \<noteq> CHR ''%''" using assms by (auto simp: url_plain_def isalnum_def)
  ultimately show ?case
    using Cons by (auto simp: Encode_char_def escapes_ok_Cons escapes_ok_escape good_hex_digit)
qed

lemma IsUrlEncode_loop_ok: "escapes_ok e \<Longrightarrow> IsUrlEncode_loop e i = Some True"
proof (induction e i rule: IsUrlEncode_loop.induct)
  case (1 e i)
  show ?case
  proof (cases "i < length e \<and> e ! i = CHR ''%''")
    case True
    then have "i + 2 < length e" "good_char (e ! (i + 1))" "good_char (e ! (i + 2))"
      using 1(3) by (auto simp: escapes_ok_def)
    then have "str_at e (int i + 1) = Some (e ! (i + 1))" "str_at e (int i + 2) = Some (e ! (i + 2))"
      by (auto simp: str_at_def nat_add_distrib)
    then show ?thesis
      using True 1 \<open>good_char (e ! (i + 1))\<close> \<open>good_char (e ! (i + 2))\<close> by (subst IsUrlEncode_loop.simps) simp
  next
    case False
    then show ?thesis using 1 by (subst IsUrlEncode_loop.simps) auto
  qed
qed

lemma IsUrlEncode_ok:
  assumes "escapes_ok e" "2 \<le> length e" "length e < 2 ^ 31"
  shows "IsUrlEncode e = Some True"
proof -
  have len: "signed_take_bit 31 (int (length e)) = int (length e)"
    using assms(3) by (intro signed_take_bit_int_eq_self) auto
  have last2: "e ! i \<noteq> CHR ''%''" if "i < length e" "length e \<le> i + 2" for i
    using assms(1) that by (fastforce simp: escapes_ok_def)
  have e: "e ! (length e - 2) \<noteq> CHR ''%''" "e ! (length e - 1) \<noteq> CHR ''%''"
    by (rule last2; use assms(2) in simp)+
  have "nat (int (length e) - 2) = length e - 2" "nat (int (length e) - 1) = length e - 1" by simp_all
  then have "str_at e (int (length e) - 2) = Some (e ! (length e - 2))" "str_at e (int (length e) - 1) = Some (e ! (length e - 1))"
    using assms(2) by (auto simp: str_at_def)
  then show ?thesis using assms(1) e unfolding IsUrlEncode_def len Let_def by (simp add: IsUrlEncode_loop_ok)
qed

text \<open>What \<^verbatim>\<open>UrlEncode::Encode\<close> writes, \<^verbatim>\<open>Decode\<close> reads back, and \<^verbatim>\<open>IsUrlEncode\<close> accepts it from two
  characters on, for every set of safe characters without the percent and the plus sign.\<close>

theorem UrlEncode_roundtrip:
  assumes "CHR ''%'' \<notin> set safes" "CHR ''+'' \<notin> set safes"
  shows "\<exists>dst. UrlEncode_Encode s safes = (ERR_OK, dst) \<and> UrlEncode_Decode dst = Some (ERR_OK, s) \<and>
    (2 \<le> length dst \<and> length dst < 2 ^ 31 \<longrightarrow> IsUrlEncode dst = Some True)"
proof -
  have dst: "UrlEncode_Encode s safes = (ERR_OK, concat (map (Encode_char safes) s))"
    by (simp add: UrlEncode_Encode_def Encode_loop_map)
  then show ?thesis
    using UrlEncode_roundtrip_rep [OF assms, of s] IsUrlEncode_ok [OF escapes_ok_Encode [OF assms(1)]] by auto
qed

theorem UrlEncode_roundtrip_witness:
  "UrlEncode_Decode (snd (UrlEncode_Encode ''a b/c=100%'' ''/'')) = Some (ERR_OK, ''a b/c=100%'') \<and>
   snd (UrlEncode_Encode ''a b/c=100%'' ''/'') = ''a+b/c%3D100%25''"
  using UrlEncode_roundtrip [of "''/''" "''a b/c=100%''"]
  by (auto simp: UrlEncode_Encode_def Encode_char_def url_plain_def isalnum_def ToHex_def char_of_eq_iff)

text \<open>With one character or none \<^verbatim>\<open>IsUrlEncode\<close> reads before the string.\<close>

lemma IsUrlEncode_short: "length s < 2 \<Longrightarrow> IsUrlEncode s = None"
  by (cases s) (auto simp: IsUrlEncode_def str_at_def signed_take_bit_int_eq_self)

text \<open>The text of a block given by pointer and length has two hexadecimal digits per byte and determines the
  bytes; the texts of a byte vector and of a string are undefined as soon as one byte has its top bit set, because
  it becomes a negative index.\<close>

theorem Hex_texts:
  shows "HexStr_ptr mem (length mem) = Some (concat (map (\<lambda>b. hex_of (unat b)) mem))"
    and "HexStr_ptr mem (length mem) = HexStr_ptr mem' (length mem') \<longleftrightarrow> mem = mem'"
    and "HexMem mem = (if \<exists>b \<in> set mem. 128 \<le> unat b then None else HexStr_ptr mem (length mem))"
  using hex_text_inj [of mem mem'] by (auto simp: HexStr_ptr_hex HexMem_cases)

end
