(* ===== verification/Cryptor.thy ===== *)
theory Cryptor
  imports Url_Hex Outcome
begin

text \<open>
  The crypto classes over OpenSSL, \<^verbatim>\<open>src/crypto/base64.cpp\<close>, \<^verbatim>\<open>des.cpp\<close>, \<^verbatim>\<open>md5.cpp\<close> and \<^verbatim>\<open>sha.cpp\<close>, and their
  composition with the URL encoding in \<^verbatim>\<open>hcrypto.cpp\<close>.

  OpenSSL is a parameter: the base64 filter as the functions \<open>bio_write\<close> (what a memory \<^verbatim>\<open>BIO\<close> holds after a write
  and a flush) and \<open>bio_read\<close> (the returned number and the bytes stored), the cipher as a record of its calls on an
  opaque context, the digests as functions.
\<close>

text \<open>The macro \<^verbatim>\<open>HNOTOK_RETURN\<close>: go on with the result of a successful call, return the code of a failed one
  with the output as it stands.\<close>

definition notok_return :: "(RET_T \<times> 'a) run \<Rightarrow> 'b \<Rightarrow> ('a \<Rightarrow> (RET_T \<times> 'b) run) \<Rightarrow> (RET_T \<times> 'b) run" where
  "notok_return seg out f = run_bind seg (\<lambda>(ret, a). if IS_OK ret then f a else Ret (ret, out))"

subsection \<open>Base64\<close>

type_synonym bio_write = "bool \<Rightarrow> HMEM \<Rightarrow> HMEM"
type_synonym bio_read = "bool \<Rightarrow> HMEM \<Rightarrow> int \<Rightarrow> int \<times> HMEM"

definition base64_encode :: "bio_write \<Rightarrow> HMEM option \<Rightarrow> bool \<Rightarrow> RET_T \<times> HMEM" where
  "base64_encode bw indata newline =
     (case indata of
        None \<Rightarrow> (INVL_PARA, [])
      | Some d \<Rightarrow> if length d > 0 then (ERR_OK, bw newline d) else (INVL_PARA, []))"

text \<open>The output block has as many bytes as the input, all zero at first; \<^verbatim>\<open>outlen\<close> becomes what \<^verbatim>\<open>BIO_read\<close>
  returned, as an unsigned number.\<close>

definition base64_decode :: "bio_read \<Rightarrow> HMEM option \<Rightarrow> bool \<Rightarrow> RET_T \<times> HMEM \<times> nat" where
  "base64_decode br indata newline =
     (case indata of
        None \<Rightarrow> (INVL_PARA, [], 0)
      | Some d \<Rightarrow>
          if length d > 0
          then let (rv, bs) = br newline d (to_HN (length d))
               in (ERR_OK, bs @ replicate (length d - length bs) 0, nat (rv mod 2 ^ 64))
          else (INVL_PARA, [], 0))"

definition Base64_Encode_mem :: "bio_write \<Rightarrow> HMEM \<Rightarrow> (RET_T \<times> string) run" where
  "Base64_Encode_mem bw indata =
     (if indata = [] then Ret (ERR_OK, [])
      else notok_return (Ret (base64_encode bw (Some indata) False)) [] (\<lambda>out. Ret (ERR_OK, str_of out)))"

definition Base64_Encode :: "bio_write \<Rightarrow> string \<Rightarrow> (RET_T \<times> string) run" where
  "Base64_Encode bw indata =
     (if indata = [] then Ret (ERR_OK, [])
      else notok_return (Ret (base64_encode bw (Some (bytes_of indata)) False)) [] (\<lambda>out. Ret (ERR_OK, str_of out)))"

definition Base64_Decode_mem :: "bio_read \<Rightarrow> HMEM \<Rightarrow> (RET_T \<times> HMEM) run" where
  "Base64_Decode_mem br indata =
     (if indata = [] then Ret (ERR_OK, [])
      else notok_return (Ret (base64_decode br (Some indata) False)) []
             (\<lambda>(out, outlen). run_of (map_option (Pair ERR_OK) (mem_read out 0 outlen))))"

definition Base64_Decode :: "bio_read \<Rightarrow> string \<Rightarrow> (RET_T \<times> HMEM) run" where
  "Base64_Decode br indata =
     (if indata = [] then Ret (ERR_OK, [])
      else notok_return (Ret (base64_decode br (Some (bytes_of indata)) False)) []
             (\<lambda>(out, outlen). run_of (map_option (Pair ERR_OK) (mem_read out 0 outlen))))"

subsection \<open>Triple DES\<close>

record 'c evp =
  EVP_des_ede3_ecb :: bool
  EVP_BytesToKey :: "HMEM \<Rightarrow> HMEM \<times> HMEM"
  EVP_CIPHER_CTX_new :: 'c
  EVP_CIPHER_CTX_set_padding :: "'c \<Rightarrow> int \<Rightarrow> 'c"
  EVP_EncryptInit_ex :: "'c \<Rightarrow> HMEM \<Rightarrow> HMEM \<Rightarrow> int \<times> 'c"
  EVP_EncryptUpdate :: "'c \<Rightarrow> HMEM \<Rightarrow> int \<Rightarrow> int \<times> HMEM \<times> 'c"
  EVP_EncryptFinal_ex :: "'c \<Rightarrow> int \<times> HMEM"
  EVP_DecryptInit_ex :: "'c \<Rightarrow> HMEM \<Rightarrow> HMEM \<Rightarrow> int \<times> 'c"
  EVP_DecryptUpdate :: "'c \<Rightarrow> HMEM \<Rightarrow> int \<Rightarrow> int \<times> HMEM \<times> 'c"
  EVP_DecryptFinal_ex :: "'c \<Rightarrow> int \<times> HMEM"

text \<open>The three calls on an initialised context; \<open>cap\<close> is the size of the output block, which the library must not
  leave.\<close>

definition cipher_calls ::
  "('c \<Rightarrow> HMEM \<Rightarrow> HMEM \<Rightarrow> int \<times> 'c) \<Rightarrow> ('c \<Rightarrow> HMEM \<Rightarrow> int \<Rightarrow> int \<times> HMEM \<times> 'c) \<Rightarrow> ('c \<Rightarrow> int \<times> HMEM)
   \<Rightarrow> 'c \<Rightarrow> HMEM \<times> HMEM \<Rightarrow> HMEM \<Rightarrow> int \<Rightarrow> nat \<Rightarrow> (RET_T \<times> HMEM) run" where
  "cipher_calls init_ex update final_ex ctx kiv inp inlen cap =
     (let (rv, ctx) = init_ex ctx (fst kiv) (snd kiv) in
      if rv \<noteq> 1 then Ret (DEP_ERROR, [])
      else let (rv, out1, ctx) = update ctx inp inlen in
           if length out1 > cap then Stuck
           else if rv \<noteq> 1 then Ret (DEP_ERROR, out1)
           else let (rv, out2) = final_ex ctx in
                if length out1 + length out2 > cap then Stuck
                else if rv \<noteq> 1 then Ret (DEP_ERROR, out1)
                else Ret (ERR_OK, out1 @ out2))"

definition des3_encrypt :: "'c evp \<Rightarrow> HMEM \<Rightarrow> int \<Rightarrow> nat \<Rightarrow> string \<Rightarrow> (RET_T \<times> HMEM) run" where
  "des3_encrypt lib inp inlen cap password =
     (if \<not> EVP_des_ede3_ecb lib then Throws DEP_ERROR
      else cipher_calls (EVP_EncryptInit_ex lib) (EVP_EncryptUpdate lib) (EVP_EncryptFinal_ex lib)
             (EVP_CIPHER_CTX_set_padding lib (EVP_CIPHER_CTX_new lib) 0)
             (EVP_BytesToKey lib (bytes_of password)) inp inlen cap)"

definition des3_decrypt :: "'c evp \<Rightarrow> HMEM \<Rightarrow> int \<Rightarrow> nat \<Rightarrow> string \<Rightarrow> (RET_T \<times> HMEM) run" where
  "des3_decrypt lib inp inlen cap password =
     (if \<not> EVP_des_ede3_ecb lib then Throws DEP_ERROR
      else cipher_calls (EVP_DecryptInit_ex lib) (EVP_DecryptUpdate lib) (EVP_DecryptFinal_ex lib)
             (EVP_CIPHER_CTX_new lib)
             (EVP_BytesToKey lib (bytes_of password)) inp inlen cap)"

text \<open>The output block has twice the size of the input, computed as \<^verbatim>\<open>int\<close>: a negative size gives no block.\<close>

definition Des3_Encrypt_mem :: "'c evp \<Rightarrow> HMEM \<Rightarrow> string \<Rightarrow> (RET_T \<times> HMEM) run" where
  "Des3_Encrypt_mem lib src passwd =
     notok_return (des3_encrypt lib src (to_HN (length src)) (nat (to_HN (length src * 2))) passwd) []
       (\<lambda>out. Ret (ERR_OK, out))"

definition Des3_Encrypt :: "'c evp \<Rightarrow> string \<Rightarrow> string \<Rightarrow> (RET_T \<times> HMEM) run" where
  "Des3_Encrypt lib src passwd =
     notok_return (des3_encrypt lib (bytes_of src) (to_HN (length src)) (nat (to_HN (length src * 2))) passwd) []
       (\<lambda>out. Ret (ERR_OK, out))"

definition Des3_Decrypt :: "'c evp \<Rightarrow> HMEM \<Rightarrow> string \<Rightarrow> (RET_T \<times> HMEM) run" where
  "Des3_Decrypt lib src passwd =
     notok_return (des3_decrypt lib src (to_HN (length src)) (nat (to_HN (length src * 2))) passwd) []
       (\<lambda>out. Ret (ERR_OK, out))"

subsection \<open>The compositions\<close>

definition Base64UrlEncode :: "bio_write \<Rightarrow> string \<Rightarrow> string \<Rightarrow> (RET_T \<times> string) run" where
  "Base64UrlEncode bw strin strout =
     notok_return (Base64_Encode bw strin) strout (\<lambda>src64.
     notok_return (Ret (UrlEncode_Encode src64 [])) [] (\<lambda>strout. Ret (ERR_OK, strout)))"

definition Base64UrlDecode :: "bio_read \<Rightarrow> string \<Rightarrow> (RET_T \<times> string) run" where
  "Base64UrlDecode br strIn =
     notok_return (run_of (UrlEncode_Decode strIn)) [] (\<lambda>url_src.
     notok_return (Base64_Decode br url_src) [] (\<lambda>mem. Ret (ERR_OK, str_of mem)))"

definition Des3Base64UrlEncode :: "'c evp \<Rightarrow> bio_write \<Rightarrow> string \<Rightarrow> string \<Rightarrow> (RET_T \<times> string) run" where
  "Des3Base64UrlEncode lib bw strin strPassword =
     notok_return (Des3_Encrypt lib strin strPassword) [] (\<lambda>des3_dst.
     notok_return (Base64_Encode_mem bw des3_dst) [] (\<lambda>str64.
     notok_return (Ret (UrlEncode_Encode str64 [])) [] (\<lambda>strout. Ret (ERR_OK, strout))))"

definition Des3Base64UrlDecode :: "'c evp \<Rightarrow> bio_read \<Rightarrow> string \<Rightarrow> string \<Rightarrow> (RET_T \<times> string) run" where
  "Des3Base64UrlDecode lib br strin strPassword =
     notok_return (run_of (UrlEncode_Decode strin)) [] (\<lambda>str64.
     notok_return (Base64_Decode br str64) [] (\<lambda>mem.
     notok_return (Des3_Encrypt_mem lib mem strPassword) [] (\<lambda>des3_src. Ret (ERR_OK, str_of des3_src))))"

subsection \<open>Digests\<close>

text \<open>The digest is a parameter that fills the buffer of \<^verbatim>\<open>MD5_BUF_LEN\<close> or \<^verbatim>\<open>SHA256_BUF_LEN\<close> bytes.\<close>

definition MD5_BUF_LEN :: nat where "MD5_BUF_LEN = 16"

definition SHA256_BUF_LEN :: nat where "SHA256_BUF_LEN = 32"

definition MD5_mem :: "(HMEM \<Rightarrow> HMEM) \<Rightarrow> HMEM \<Rightarrow> HMEM option" where
  "MD5_mem md5 indata = mem_read (md5 indata) 0 MD5_BUF_LEN"

definition MD5_of_str :: "(HMEM \<Rightarrow> HMEM) \<Rightarrow> string \<Rightarrow> HMEM option" where
  "MD5_of_str md5 indata = mem_read (md5 (bytes_of indata)) 0 MD5_BUF_LEN"

definition MD5_str_text :: "(HMEM \<Rightarrow> HMEM) \<Rightarrow> string \<Rightarrow> string option" where
  "MD5_str_text md5 instr = do { outmem \<leftarrow> MD5_of_str md5 instr; HexMem outmem }"

definition MD5_mem_text :: "(HMEM \<Rightarrow> HMEM) \<Rightarrow> HMEM \<Rightarrow> string option" where
  "MD5_mem_text md5 instr = do { outmem \<leftarrow> MD5_mem md5 instr; HexMem outmem }"

definition Sha256_mem :: "(HMEM \<Rightarrow> HMEM) \<Rightarrow> HMEM \<Rightarrow> HMEM option" where
  "Sha256_mem sha256 indata = mem_read (sha256 indata) 0 SHA256_BUF_LEN"

definition Sha256_of_str :: "(HMEM \<Rightarrow> HMEM) \<Rightarrow> string \<Rightarrow> HMEM option" where
  "Sha256_of_str sha256 indata = mem_read (sha256 (bytes_of indata)) 0 SHA256_BUF_LEN"

definition Sha256_str_text :: "(HMEM \<Rightarrow> HMEM) \<Rightarrow> string \<Rightarrow> string option" where
  "Sha256_str_text sha256 instr = do { outmem \<leftarrow> Sha256_of_str sha256 instr; HexMem outmem }"

definition Sha256_mem_text :: "(HMEM \<Rightarrow> HMEM) \<Rightarrow> HMEM \<Rightarrow> string option" where
  "Sha256_mem_text sha256 instr = do { outmem \<leftarrow> Sha256_mem sha256 instr; HexMem outmem }"

text \<open>
  A file is \<open>None\<close> when it cannot be opened. The stream stays good as long as it delivers whole blocks of
  \<^verbatim>\<open>HBLOCK_LEN\<close> bytes, a constant the repository does not define; a shorter block ends the loop.
\<close>

partial_function (option) file_blocks :: "('c \<Rightarrow> HMEM \<Rightarrow> 'c) \<Rightarrow> nat \<Rightarrow> HMEM \<Rightarrow> 'c \<Rightarrow> 'c option" where
  "file_blocks update block_len rest ctx =
     (let ctx = update ctx (take block_len rest)
      in if block_len \<le> length rest then file_blocks update block_len (drop block_len rest) ctx else Some ctx)"

definition Md5File :: "'c \<Rightarrow> ('c \<Rightarrow> HMEM \<Rightarrow> 'c) \<Rightarrow> ('c \<Rightarrow> HMEM) \<Rightarrow> nat \<Rightarrow> HMEM option \<Rightarrow> string option" where
  "Md5File init update final block_len file =
     (case file of
        None \<Rightarrow> Some []
      | Some content \<Rightarrow> do { ctx \<leftarrow> file_blocks update block_len content init; HexStr_ptr (final ctx) MD5_BUF_LEN })"

definition Sha256File :: "'c \<Rightarrow> ('c \<Rightarrow> HMEM \<Rightarrow> 'c) \<Rightarrow> ('c \<Rightarrow> HMEM) \<Rightarrow> nat \<Rightarrow> HMEM option \<Rightarrow> string option" where
  "Sha256File init update final block_len file =
     (case file of
        None \<Rightarrow> Some []
      | Some content \<Rightarrow> do { ctx \<leftarrow> file_blocks update block_len content init; HexStr_ptr (final ctx) SHA256_BUF_LEN })"

lemmas cryptor_simps = notok_return_def base64_encode_def base64_decode_def Base64_Encode_def
  Base64_Encode_mem_def Base64_Decode_def

lemma Url_roundtrip_plain: "UrlEncode_Encode s [] = (ERR_OK, snd (UrlEncode_Encode s []))"
  "UrlEncode_Decode (snd (UrlEncode_Encode s [])) = Some (ERR_OK, s)"
  by (simp add: UrlEncode_Encode_def) (simp add: UrlEncode_roundtrip_rep)

subsection \<open>Round trip of the base64 and URL encoding\<close>

text \<open>The documented behaviour of the filter: reading what was written, into enough room, stores the bytes written
  and returns their number; the text is no shorter than the bytes.\<close>

definition base64_filter :: "bio_write \<Rightarrow> bio_read \<Rightarrow> bool" where
  "base64_filter bw br \<longleftrightarrow>
     (\<forall>d n. d \<noteq> [] \<longrightarrow> length d \<le> length (bw False d) \<and>
        (int (length d) \<le> n \<longrightarrow> br False (bw False d) n = (int (length d), d)))"

lemma base64_text_nonempty: "base64_filter bw br \<Longrightarrow> d \<noteq> [] \<Longrightarrow> bw False d \<noteq> []"
  unfolding base64_filter_def by (metis le_zero_eq length_0_conv list.size(3))

lemma Base64_Decode_text:
  assumes "base64_filter bw br" "d \<noteq> []" "length (bw False d) < 2 ^ 31"
  shows "Base64_Decode br (str_of (bw False d)) = Ret (ERR_OK, d)"
proof -
  have l: "length d \<le> length (bw False d)" using assms(1,2) by (simp add: base64_filter_def)
  then have "br False (bw False d) (to_HN (length (bw False d))) = (int (length d), d)"
    using assms by (simp add: base64_filter_def to_HN_id)
  moreover have "int (length d) mod 2 ^ 64 = int (length d)" using l assms(3) by (intro mod_pos_pos_trivial) auto
  ultimately show ?thesis
    using base64_text_nonempty [OF assms(1,2)] l by (simp add: cryptor_simps)
qed

text \<open>C40: Whatever \<^verbatim>\<open>Base64UrlEncode\<close> returns for a string, \<^verbatim>\<open>Base64UrlDecode\<close> turns back into it.\<close>

theorem Base64Url_roundtrip:
  assumes "base64_filter bw br" "length (bw False (bytes_of s)) < 2 ^ 31"
  shows "\<exists>t. Base64UrlEncode bw s out = Ret (ERR_OK, t) \<and> Base64UrlDecode br t = Ret (ERR_OK, s)"
proof (cases "s = []")
  case True
  then show ?thesis
    by (simp add: Base64UrlEncode_def Base64UrlDecode_def cryptor_simps UrlEncode_Encode_def UrlEncode_Decode_def
        str_of_def)
next
  case False
  let ?t = "str_of (bw False (bytes_of s))"
  have "Base64UrlEncode bw s out = Ret (ERR_OK, snd (UrlEncode_Encode ?t []))"
    using False by (simp add: Base64UrlEncode_def cryptor_simps UrlEncode_Encode_def)
  moreover have "Base64UrlDecode br (snd (UrlEncode_Encode ?t [])) = Ret (ERR_OK, s)"
    using False Base64_Decode_text [OF assms(1) _ assms(2)]
    by (simp add: Base64UrlDecode_def Url_roundtrip_plain(2) notok_return_def)
  ultimately show ?thesis by blast
qed

theorem Base64Url_roundtrip_witness:
  "\<exists>t. Base64UrlEncode (\<lambda>nl d. d @ d) ''a/b'' [] = Ret (ERR_OK, t) \<and>
     Base64UrlDecode (\<lambda>nl t n. (int (length t div 2), take (length t div 2) t)) t = Ret (ERR_OK, ''a/b'')"
  by (rule Base64Url_roundtrip) (simp_all add: base64_filter_def bytes_of_def)

text \<open>A negative result of \<^verbatim>\<open>BIO_read\<close>, its report of an error, is taken for a huge length.\<close>

lemma Base64_Decode_error_overrun:
  assumes "br False (bytes_of s) (to_HN (length s)) = (- 1, [])" "s \<noteq> []" "length s < 2 ^ 31"
  shows "Base64_Decode br s = Stuck"
proof -
  have "nat ((- 1 :: int) mod 2 ^ 64) = 2 ^ 64 - 1" by simp
  then have "mem_read (replicate (length s) (0 :: HUCH)) 0 (nat ((- 1 :: int) mod 2 ^ 64)) = None"
    using assms(3) by (simp add: mem_read_def)
  then show ?thesis
    using assms(1,2) by (simp add: cryptor_simps del: power_numeral_even)
qed

text \<open>\<^verbatim>\<open>Des3Base64UrlDecode\<close> does not undo \<^verbatim>\<open>Des3Base64UrlEncode\<close>: it encrypts the cipher text a second time.\<close>

theorem Des3_decode_encrypts_again:
  assumes "base64_filter bw br" "Des3_Encrypt lib s pw = Ret (ERR_OK, c)" "length (bw False c) < 2 ^ 31"
  shows "\<exists>t. Des3Base64UrlEncode lib bw s pw = Ret (ERR_OK, t) \<and>
    Des3Base64UrlDecode lib br t pw = notok_return (Des3_Encrypt_mem lib c pw) [] (\<lambda>m. Ret (ERR_OK, str_of m))"
proof -
  let ?t = "if c = [] then [] else str_of (bw False c)"
  have "Des3Base64UrlEncode lib bw s pw = Ret (ERR_OK, snd (UrlEncode_Encode ?t []))"
    using assms(2) by (simp add: Des3Base64UrlEncode_def cryptor_simps UrlEncode_Encode_def)
  moreover have "Base64_Decode br ?t = Ret (ERR_OK, c)"
    using Base64_Decode_text [OF assms(1) _ assms(3)] by (cases "c = []") (simp_all add: Base64_Decode_def [of br "[]"])
  then have "Des3Base64UrlDecode lib br (snd (UrlEncode_Encode ?t [])) pw =
      notok_return (Des3_Encrypt_mem lib c pw) [] (\<lambda>m. Ret (ERR_OK, str_of m))"
    using Url_roundtrip_plain(2) [of ?t] by (simp add: Des3Base64UrlDecode_def notok_return_def)
  ultimately show ?thesis by blast
qed

text \<open>A cipher that adds one to every byte: the text that comes back is shifted by two.\<close>

definition shift_lib :: "unit evp" where
  "shift_lib = \<lparr>EVP_des_ede3_ecb = True, EVP_BytesToKey = (\<lambda>p. (p, [])), EVP_CIPHER_CTX_new = (),
     EVP_CIPHER_CTX_set_padding = (\<lambda>c n. c), EVP_EncryptInit_ex = (\<lambda>c k i. (1, c)),
     EVP_EncryptUpdate = (\<lambda>c d n. (1, map (\<lambda>b. b + 1) d, c)), EVP_EncryptFinal_ex = (\<lambda>c. (1, [])),
     EVP_DecryptInit_ex = (\<lambda>c k i. (1, c)), EVP_DecryptUpdate = (\<lambda>c d n. (1, map (\<lambda>b. b - 1) d, c)),
     EVP_DecryptFinal_ex = (\<lambda>c. (1, []))\<rparr>"

theorem Des3_decode_encrypts_again_witness:
  "\<exists>t. Des3Base64UrlEncode shift_lib (\<lambda>nl d. d) ''abc'' ''pw'' = Ret (ERR_OK, t) \<and>
     Des3Base64UrlDecode shift_lib (\<lambda>nl t n. (int (length t), t)) t ''pw'' = Ret (ERR_OK, ''cde'')"
proof -
  have e: "Des3_Encrypt shift_lib ''abc'' ''pw'' = Ret (ERR_OK, bytes_of ''bcd'')"
    "Des3_Encrypt_mem shift_lib (bytes_of ''bcd'') ''pw'' = Ret (ERR_OK, bytes_of ''cde'')"
    by (simp_all add: Des3_Encrypt_def Des3_Encrypt_mem_def des3_encrypt_def cipher_calls_def shift_lib_def
        notok_return_def to_HN_def bytes_of_def)
  have "base64_filter (\<lambda>nl d. d) (\<lambda>nl t n. (int (length t), t))" by (simp add: base64_filter_def)
  from Des3_decode_encrypts_again [OF this e(1)] e(2) show ?thesis by (simp add: notok_return_def)
qed

subsection \<open>Digests of files and of values\<close>

lemma file_blocks_ends:
  assumes "0 < block_len"
  shows "\<exists>bs. file_blocks update block_len rest ctx = Some (foldl update ctx bs) \<and> concat bs = rest"
proof (induction rest arbitrary: ctx rule: length_induct)
  case (1 rest)
  let ?c = "update ctx (take block_len rest)"
  show ?case
  proof (cases "block_len \<le> length rest")
    case True
    then have "length (drop block_len rest) < length rest" using assms by simp
    then obtain bs where "file_blocks update block_len (drop block_len rest) ?c = Some (foldl update ?c bs)"
      "concat bs = drop block_len rest" using 1 by blast
    then have "file_blocks update block_len rest ctx = Some (foldl update ctx (take block_len rest # bs))"
      "concat (take block_len rest # bs) = rest" using True by (subst file_blocks.simps, simp_all)
    then show ?thesis by blast
  next
    case False
    then have "file_blocks update block_len rest ctx = Some (foldl update ctx [rest])"
      by (subst file_blocks.simps) simp
    then show ?thesis by (intro exI [of _ "[rest]"]) simp
  qed
qed

lemma file_blocks_digest:
  assumes "\<forall>bs. final (foldl update init bs) = digest (concat bs)" "0 < block_len"
  shows "\<exists>ctx. file_blocks update block_len d init = Some ctx \<and> final ctx = digest d"
  using file_blocks_ends [OF assms(2), of update d init] assms(1) by metis

lemma Sha256_texts:
  assumes "\<forall>bs. final (foldl update init bs) = sha (concat bs)" "\<forall>d. length (sha d) = SHA256_BUF_LEN" "0 < block_len"
  shows "Sha256File init update final block_len (Some d) = HexStr_ptr (sha d) SHA256_BUF_LEN"
    and "Sha256_mem_text sha d = (if \<exists>b \<in> set (sha d). 128 \<le> unat b then None
      else Sha256File init update final block_len (Some d))"
    and "Sha256_str_text sha s = Sha256_mem_text sha (bytes_of s)"
proof -
  show f: "Sha256File init update final block_len (Some d) = HexStr_ptr (sha d) SHA256_BUF_LEN"
    using file_blocks_digest [OF assms(1,3), of d] by (auto simp: Sha256File_def)
  show "Sha256_mem_text sha d = (if \<exists>b \<in> set (sha d). 128 \<le> unat b then None
      else Sha256File init update final block_len (Some d))"
    using assms(2) by (simp add: f HexStr_ptr_hex Sha256_mem_text_def Sha256_mem_def HexMem_cases)
  show "Sha256_str_text sha s = Sha256_mem_text sha (bytes_of s)"
    by (simp add: Sha256_str_text_def Sha256_of_str_def Sha256_mem_text_def Sha256_mem_def)
qed

text \<open>The file digests end and are the hexadecimal text of the digest of the whole content, for a library whose
  incremental interface agrees with the digest; the digest texts of strings and byte vectors are the same text
  only when no byte of the digest has its top bit set, and are undefined otherwise.\<close>

theorem digest_texts:
  assumes "\<forall>bs. final (foldl update init bs) = md5 (concat bs)" "\<forall>d. length (md5 d) = MD5_BUF_LEN" "0 < block_len"
  shows "Md5File init update final block_len (Some d) = HexStr_ptr (md5 d) MD5_BUF_LEN \<and>
    Md5File init update final block_len (Some d) \<noteq> None \<and>
    MD5_mem_text md5 d = (if \<exists>b \<in> set (md5 d). 128 \<le> unat b then None
      else Md5File init update final block_len (Some d)) \<and>
    MD5_str_text md5 s = MD5_mem_text md5 (bytes_of s)"
proof -
  have "Md5File init update final block_len (Some d) = HexStr_ptr (md5 d) MD5_BUF_LEN"
    using file_blocks_digest [OF assms(1,3), of d] by (auto simp: Md5File_def)
  then show ?thesis
    using assms(2) by (simp add: HexStr_ptr_hex MD5_mem_text_def MD5_mem_def MD5_str_text_def MD5_of_str_def
        HexMem_cases)
qed

theorem digest_texts_witness:
  "MD5_mem_text (\<lambda>d. replicate 16 (word_of_nat (length d))) (replicate 200 0) = None \<and>
   Md5File 0 (\<lambda>n b. n + length b) (\<lambda>n. replicate 16 (word_of_nat n)) 512 (Some (replicate 200 0)) \<noteq> None"
proof -
  have "foldl (\<lambda>n b. n + length b) k bs = k + length (concat bs)" for k :: nat and bs :: "HMEM list"
    by (induction bs arbitrary: k) auto
  then have "\<forall>bs :: HMEM list. replicate 16 (word_of_nat (foldl (\<lambda>n b. n + length b) 0 bs) :: HUCH) =
      replicate 16 (word_of_nat (length (concat bs)))"
    by (metis add_0)
  from digest_texts [of "\<lambda>n. replicate 16 (word_of_nat n)", OF this, of 512 "replicate 200 0" "[]"]
  show ?thesis by (simp add: MD5_BUF_LEN_def unat_of_nat HexStr_ptr_hex)
qed

end
