(* ===== verification/Log_Roll.thy ===== *)
theory Log_Roll
  imports Hui_Time
begin

text \<open>
  When a log file is rolled over and how the files are named: \<^verbatim>\<open>src/src/detail/log/logfileroll_detail.h\<close> and \<^verbatim>\<open>.cpp\<close>.
  \<open>localtime\<close> is the system's conversion of seconds to a calendar time; reading outside a table of names is \<open>None\<close>.
\<close>

subsection \<open>Intervals\<close>

definition LOG_HALF_HOUR_TYPE_NAMES :: "string list" where
  "LOG_HALF_HOUR_TYPE_NAMES = [''00'', ''30'']"

definition LOG_TEN_MINTUES_TYPE_NAMES :: "string list" where
  "LOG_TEN_MINTUES_TYPE_NAMES = [''00'', ''10'', ''20'', ''30'', ''40'', ''50'']"

definition name_at :: "string list \<Rightarrow> int \<Rightarrow> string option" where
  "name_at ns i = (if 0 \<le> i \<and> nat i < length ns then Some (ns ! nat i) else None)"

definition GetHalfHourName :: "int \<Rightarrow> string option" where
  "GetHalfHourName ht = name_at LOG_HALF_HOUR_TYPE_NAMES ht"

definition GetHalfHourType :: "int \<Rightarrow> int" where
  "GetHalfHourType hour = (if hour < 30 then 0 else 1)"

definition Get10MintuesName :: "int \<Rightarrow> string option" where
  "Get10MintuesName mt = name_at LOG_TEN_MINTUES_TYPE_NAMES mt"

definition Get10MintuesType :: "int \<Rightarrow> int" where
  "Get10MintuesType mm = mm sdiv 10"

subsection \<open>The strategy\<close>

definition DAY :: int where "DAY = 0"

definition HOUR :: int where "HOUR = 1"

definition HALFHOUR :: int where "HALFHOUR = 2"

definition TENMIN :: int where "TENMIN = 3"

definition rollover_names :: "string list" where
  "rollover_names = [''DAY'', ''HOUR'', ''HALF-HOUR'', ''10MIN'']"

fun rollover_loop :: "string \<Rightarrow> string list \<Rightarrow> int \<Rightarrow> int" where
  "rollover_loop strName [] i = DAY"
| "rollover_loop strName (n # ns) i = (if n = strName then i else rollover_loop strName ns (i + 1))"

definition GetRolloverTypeName :: "string \<Rightarrow> int" where
  "GetRolloverTypeName strName = rollover_loop strName rollover_names 0"

record LogfileRollbackStrategy =
  m_value :: int
  m_mtTime :: HMicroTime
  m_filename :: string

definition NeedRollback :: "(int \<Rightarrow> tm_t) \<Rightarrow> LogfileRollbackStrategy \<Rightarrow> HMicroTime \<Rightarrow> bool" where
  "NeedRollback localtime s cmt =
     (let tm_in = localtime (mt_sec cmt); tm_me = localtime (mt_sec (m_mtTime s)) in
      if tm_year tm_in \<noteq> tm_year tm_me \<or> tm_mon tm_in \<noteq> tm_mon tm_me \<or> tm_mday tm_in \<noteq> tm_mday tm_me then True
      else if m_value s = DAY then False
      else if tm_hour tm_in \<noteq> tm_hour tm_me then True
      else if m_value s = HOUR then False
      else if GetHalfHourType (tm_hour tm_in) \<noteq> GetHalfHourType (tm_hour tm_me) then True
      else if m_value s = HALFHOUR then False
      else if Get10MintuesType (tm_min tm_in) \<noteq> Get10MintuesType (tm_min tm_me) then True
      else False)"

definition GetFileName :: "(int \<Rightarrow> tm_t) \<Rightarrow> LogfileRollbackStrategy \<Rightarrow> string \<Rightarrow> string option" where
  "GetFileName localtime s endstr =
     (let t = localtime (mt_sec (m_mtTime s));
          ss = m_filename s @ ''_'' @ FromN (1900 + tm_year t) @ ''_'' @ setw0 2 (1 + tm_mon t) @ ''_'' @ setw0 2 (tm_mday t)
               @ (if m_value s \<noteq> DAY then ''_'' @ setw0 2 (tm_hour t) else [])
      in do { part \<leftarrow> (if m_value s = HALFHOUR then map_option ((@) ''_'') (GetHalfHourName (GetHalfHourType (tm_hour t)))
                       else if m_value s = TENMIN then map_option ((@) ''_'') (Get10MintuesName (Get10MintuesType (tm_min t)))
                       else Some []);
              Some (ss @ part @ (if endstr \<noteq> [] then ''_'' @ endstr else []) @ ''.log'') })"

definition Rollback :: "(int \<Rightarrow> tm_t) \<Rightarrow> HMicroTime \<Rightarrow> LogfileRollbackStrategy \<Rightarrow> string option \<times> LogfileRollbackStrategy" where
  "Rollback localtime now s = (let s = s\<lparr>m_mtTime := now\<rparr> in (GetFileName localtime s [], s))"

subsection \<open>Names tell intervals apart\<close>

definition tm_fields :: "tm_t \<Rightarrow> bool" where
  "tm_fields t \<longleftrightarrow>
     - 1900 \<le> tm_year t \<and> 0 \<le> tm_mon t \<and> tm_mon t < 12 \<and> 1 \<le> tm_mday t \<and> tm_mday t \<le> 31 \<and>
     0 \<le> tm_hour t \<and> tm_hour t < 24 \<and> 0 \<le> tm_min t \<and> tm_min t < 60"

lemma setw0_fw: "0 \<le> n \<Longrightarrow> n < 100 \<Longrightarrow> setw0 2 n = fw 2 n"
  unfolding setw0_def Let_def by (rule FromN_fw) simp_all

lemma fw2_inj:
  assumes "0 \<le> m" "m < 100" "0 \<le> n" "n < 100"
  shows "fw 2 m = fw 2 n \<longleftrightarrow> m = n"
proof
  assume "fw 2 m = fw 2 n"
  then have "digits_value (fw 2 m) = digits_value (fw 2 n)" by (rule arg_cong)
  moreover have "digits_value (fw 2 m) = m" "digits_value (fw 2 n) = n" using assms by (intro fw_value; simp)+
  ultimately show "m = n" by simp
qed simp

lemma ten_minutes:
  assumes "0 \<le> m" "m < 60"
  shows "\<exists>k < 6. Get10MintuesType m = int k \<and> Get10MintuesName (Get10MintuesType m) = Some (LOG_TEN_MINTUES_TYPE_NAMES ! k)"
proof -
  have "Get10MintuesType m = m div 10" using sdiv_pos [of m 10] assms by (simp add: Get10MintuesType_def)
  moreover have "0 \<le> m div 10" "m div 10 < 6" using assms by auto
  ultimately show ?thesis
    by (intro exI [of _ "nat (m div 10)"])
      (auto simp: Get10MintuesName_def name_at_def LOG_TEN_MINTUES_TYPE_NAMES_def nat_less_iff)
qed

lemma ten_names:
  assumes "j < 6" "k < 6"
  shows "length (LOG_TEN_MINTUES_TYPE_NAMES ! k) = 2"
    and "LOG_TEN_MINTUES_TYPE_NAMES ! j = LOG_TEN_MINTUES_TYPE_NAMES ! k \<longleftrightarrow> j = k"
proof -
  have "length LOG_TEN_MINTUES_TYPE_NAMES = 6" "\<forall>n \<in> set LOG_TEN_MINTUES_TYPE_NAMES. length n = 2"
    "distinct LOG_TEN_MINTUES_TYPE_NAMES" by (simp_all add: LOG_TEN_MINTUES_TYPE_NAMES_def)
  with assms show "length (LOG_TEN_MINTUES_TYPE_NAMES ! k) = 2"
    "LOG_TEN_MINTUES_TYPE_NAMES ! j = LOG_TEN_MINTUES_TYPE_NAMES ! k \<longleftrightarrow> j = k"
    by (auto simp: nth_eq_iff_index_eq)
qed

text \<open>What follows the year in a name, and the interval it stands for.\<close>

definition name_tail :: "int \<Rightarrow> tm_t \<Rightarrow> string" where
  "name_tail v t =
     ''_'' @ fw 2 (1 + tm_mon t) @ ''_'' @ fw 2 (tm_mday t) @ (if v \<noteq> DAY then ''_'' @ fw 2 (tm_hour t) else []) @
     (if v = HALFHOUR then ''_00'' else if v = TENMIN then ''_'' @ LOG_TEN_MINTUES_TYPE_NAMES ! nat (Get10MintuesType (tm_min t)) else [])"

definition interval :: "int \<Rightarrow> tm_t \<Rightarrow> int list" where
  "interval v t =
     [tm_year t, tm_mon t, tm_mday t] @ (if v \<noteq> DAY then [tm_hour t] else []) @
     (if v = TENMIN then [Get10MintuesType (tm_min t)] else [])"

lemmas roll_values = DAY_def HOUR_def HALFHOUR_def TENMIN_def

lemma half_hour_zero: "tm_hour t < 24 \<Longrightarrow> GetHalfHourName (GetHalfHourType (tm_hour t)) = Some ''00''"
  by (simp add: GetHalfHourName_def GetHalfHourType_def name_at_def LOG_HALF_HOUR_TYPE_NAMES_def)

lemma GetFileName_tail:
  assumes "tm_fields (localtime (mt_sec (m_mtTime s)))"
  shows "GetFileName localtime s e =
    Some (m_filename s @ ''_'' @ FromN (1900 + tm_year (localtime (mt_sec (m_mtTime s)))) @
      name_tail (m_value s) (localtime (mt_sec (m_mtTime s))) @ (if e \<noteq> [] then ''_'' @ e else []) @ ''.log'')"
proof -
  let ?t = "localtime (mt_sec (m_mtTime s))"
  obtain k where "Get10MintuesType (tm_min ?t) = int k"
    "Get10MintuesName (Get10MintuesType (tm_min ?t)) = Some (LOG_TEN_MINTUES_TYPE_NAMES ! k)"
    using ten_minutes [of "tm_min ?t"] assms by (auto simp: tm_fields_def)
  moreover have "setw0 2 (1 + tm_mon ?t) = fw 2 (1 + tm_mon ?t)" "setw0 2 (tm_mday ?t) = fw 2 (tm_mday ?t)"
    "setw0 2 (tm_hour ?t) = fw 2 (tm_hour ?t)"
    using assms by (simp_all add: tm_fields_def setw0_fw)
  ultimately show ?thesis
    using half_hour_zero [of ?t] assms
    by (simp add: GetFileName_def name_tail_def Let_def tm_fields_def roll_values)
qed

lemma name_tail_length: "tm_fields t \<Longrightarrow> tm_fields t' \<Longrightarrow> length (name_tail v t) = length (name_tail v t')"
  using ten_minutes [of "tm_min t"] ten_minutes [of "tm_min t'"] by (auto simp: name_tail_def tm_fields_def ten_names(1))

lemma name_tail_inj:
  assumes "tm_fields t" "tm_fields t'"
  shows "name_tail v t = name_tail v t' \<longleftrightarrow>
    tm_mon t = tm_mon t' \<and> tm_mday t = tm_mday t' \<and> (v \<noteq> DAY \<longrightarrow> tm_hour t = tm_hour t') \<and>
    (v = TENMIN \<longrightarrow> Get10MintuesType (tm_min t) = Get10MintuesType (tm_min t'))"
proof -
  obtain j k where jk: "j < 6" "Get10MintuesType (tm_min t) = int j" "k < 6" "Get10MintuesType (tm_min t') = int k"
    using ten_minutes [of "tm_min t"] ten_minutes [of "tm_min t'"] assms by (auto simp: tm_fields_def)
  have f: "fw 2 (1 + tm_mon t) = fw 2 (1 + tm_mon t') \<longleftrightarrow> tm_mon t = tm_mon t'" "fw 2 (tm_mday t) = fw 2 (tm_mday t') \<longleftrightarrow> tm_mday t = tm_mday t'"
    "fw 2 (tm_hour t) = fw 2 (tm_hour t') \<longleftrightarrow> tm_hour t = tm_hour t'"
    using assms by (simp_all add: tm_fields_def fw2_inj)
  show ?thesis
    using jk ten_names(2) [of j k] by (auto simp: name_tail_def f roll_values)
qed

text \<open>A log file is rolled over exactly when its name changes: the strategy asks for a new file at a time iff the name
  the file would get at that time differs from the current one, whatever ending the names have.\<close>

theorem NeedRollback_iff_new_name:
  assumes "tm_fields (localtime (mt_sec cmt))" "tm_fields (localtime (mt_sec (m_mtTime s)))"
    "m_value s \<in> {DAY, HOUR, HALFHOUR, TENMIN}"
  shows "NeedRollback localtime s cmt \<longleftrightarrow> GetFileName localtime (s\<lparr>m_mtTime := cmt\<rparr>) e \<noteq> GetFileName localtime s e"
proof -
  let ?a = "localtime (mt_sec cmt)" and ?b = "localtime (mt_sec (m_mtTime s))"
  let ?v = "m_value s"
  have "GetFileName localtime (s\<lparr>m_mtTime := cmt\<rparr>) e = GetFileName localtime s e \<longleftrightarrow>
      FromN (1900 + tm_year ?a) @ name_tail ?v ?a = FromN (1900 + tm_year ?b) @ name_tail ?v ?b"
    using GetFileName_tail [of localtime s e] GetFileName_tail [of localtime "s\<lparr>m_mtTime := cmt\<rparr>" e] assms(1,2) by simp
  also have "\<dots> \<longleftrightarrow> tm_year ?a = tm_year ?b \<and> name_tail ?v ?a = name_tail ?v ?b"
    using name_tail_length [OF assms(1,2)] assms(1,2) by (simp add: inj_eq [OF FromN_inj] tm_fields_def)
  finally have n: "GetFileName localtime (s\<lparr>m_mtTime := cmt\<rparr>) e = GetFileName localtime s e \<longleftrightarrow>
      tm_year ?a = tm_year ?b \<and> name_tail ?v ?a = name_tail ?v ?b" .
  show ?thesis
    unfolding n name_tail_inj [OF assms(1,2)]
    using assms by (auto simp: NeedRollback_def Let_def roll_values)
qed

definition clock_of_days :: "int \<Rightarrow> tm_t" where
  "clock_of_days n = tm_zero\<lparr>tm_mday := 1 + n div 86400 mod 28, tm_hour := n div 3600 mod 24, tm_min := n div 60 mod 60\<rparr>"

theorem NeedRollback_iff_new_name_witness:
  "NeedRollback clock_of_days \<lparr>m_value = TENMIN, m_mtTime = \<lparr>mt_sec = 599, mt_usec = 0\<rparr>, m_filename = ''srv''\<rparr> \<lparr>mt_sec = 600, mt_usec = 0\<rparr> \<and>
   GetFileName clock_of_days \<lparr>m_value = TENMIN, m_mtTime = \<lparr>mt_sec = 600, mt_usec = 0\<rparr>, m_filename = ''srv''\<rparr> [] \<noteq>
   GetFileName clock_of_days \<lparr>m_value = TENMIN, m_mtTime = \<lparr>mt_sec = 599, mt_usec = 0\<rparr>, m_filename = ''srv''\<rparr> []"
proof -
  have f: "tm_fields (clock_of_days n)" for n
    using pos_mod_bound [of 28 "n div 86400"] by (simp add: tm_fields_def clock_of_days_def tm_zero_def)
  have "NeedRollback clock_of_days \<lparr>m_value = TENMIN, m_mtTime = \<lparr>mt_sec = 599, mt_usec = 0\<rparr>, m_filename = ''srv''\<rparr> \<lparr>mt_sec = 600, mt_usec = 0\<rparr>"
    by (simp add: NeedRollback_def clock_of_days_def tm_zero_def roll_values Get10MintuesType_def signed_divide_int_def)
  then show ?thesis
    using NeedRollback_iff_new_name [where localtime = clock_of_days and cmt = "\<lparr>mt_sec = 600, mt_usec = 0\<rparr>" and e = "[]"
        and s = "\<lparr>m_value = TENMIN, m_mtTime = \<lparr>mt_sec = 599, mt_usec = 0\<rparr>, m_filename = ''srv''\<rparr>", OF f f]
    by simp
qed

text \<open>The half-hour strategy looks at the hour where it should look at the minute: it never rolls over within an hour.\<close>

lemma half_hour_never_rolls:
  assumes "m_value s = HALFHOUR" "localtime (mt_sec cmt) = localtime (mt_sec (m_mtTime s))\<lparr>tm_min := m\<rparr>"
  shows "\<not> NeedRollback localtime s cmt"
  using assms by (simp add: NeedRollback_def roll_values)

lemma GetRolloverTypeName_range: "GetRolloverTypeName n \<in> {DAY, HOUR, HALFHOUR, TENMIN}"
  by (simp add: GetRolloverTypeName_def rollover_names_def roll_values)

end
