(* ===== verification/Job_Workers.thy ===== *)
theory Job_Workers
  imports Outcome "HOL-Library.Multiset"
begin

text \<open>
  Queues of jobs and data between threads, and the worker threads that run the jobs: \<^verbatim>\<open>src/src/utils/jobpool\<close>,
  \<^verbatim>\<open>summerworkermng\<close> and \<^verbatim>\<open>multithreadjobmng\<close>, \<^verbatim>\<open>src/src/hsyncbuffer\<close>.

  Every access to a queue holds its mutex, so it is one step. A \<^verbatim>\<open>Pop\<close> that waits on the condition variable is \<open>None\<close>
  in the functions and a step that is not enabled in the step relations. Deleting a job is not an effect here.
\<close>

subsection \<open>JobPool\<close>

type_synonym 'j JobPool = "'j list"

definition JobPool_PushJob :: "'j JobPool \<Rightarrow> 'j \<Rightarrow> 'j JobPool" where
  "JobPool_PushJob m_jobs ptr = m_jobs @ [ptr]"

text \<open>\<open>None\<close> is the null pointer.\<close>

definition GetJob :: "'j JobPool \<Rightarrow> 'j option \<times> 'j JobPool" where
  "GetJob m_jobs = (case m_jobs of [] \<Rightarrow> (None, m_jobs) | ptr # rest \<Rightarrow> (Some ptr, rest))"

fun JobPool_clear :: "'j JobPool \<Rightarrow> 'j JobPool" where
  "JobPool_clear [] = []"
| "JobPool_clear (ptr # rest) = JobPool_clear rest"

definition allFinished :: "'j JobPool \<Rightarrow> bool" where
  "allFinished m_jobs \<longleftrightarrow> m_jobs = []"

subsection \<open>JobQueue\<close>

type_synonym 'j JobQueue = "'j list"

definition JobQueue_PushJob :: "'j JobQueue \<Rightarrow> 'j \<Rightarrow> 'j JobQueue" where
  "JobQueue_PushJob m_queue ptr = m_queue @ [ptr]"

definition PopJob :: "'j JobQueue \<Rightarrow> ('j \<times> 'j JobQueue) option" where
  "PopJob m_queue = (case m_queue of [] \<Rightarrow> None | res # rest \<Rightarrow> Some (res, rest))"

fun PopJobs_loop :: "'j JobQueue \<Rightarrow> 'j list \<Rightarrow> 'j list \<times> 'j JobQueue" where
  "PopJobs_loop [] jobs = (jobs, [])"
| "PopJobs_loop (j # q) jobs = PopJobs_loop q (jobs @ [j])"

definition PopJobs :: "'j JobQueue \<Rightarrow> 'j list \<Rightarrow> ('j list \<times> 'j JobQueue) option" where
  "PopJobs m_queue jobs = (if m_queue = [] then None else Some (PopJobs_loop m_queue jobs))"

definition JobQueue_HasData :: "'j JobQueue \<Rightarrow> bool" where
  "JobQueue_HasData m_queue \<longleftrightarrow> m_queue = []"

subsection \<open>HSyncBuffer\<close>

type_synonym HSyncBuffer = "HMEM list"

definition HSyncBuffer_PushData :: "HSyncBuffer \<Rightarrow> HMEM \<Rightarrow> HSyncBuffer" where
  "HSyncBuffer_PushData m_datas mem = m_datas @ [mem]"

definition HSyncBuffer_PushData_ptr :: "HSyncBuffer \<Rightarrow> HMEM \<Rightarrow> int \<Rightarrow> HSyncBuffer run" where
  "HSyncBuffer_PushData_ptr m_datas cptr len =
     (if 0 \<le> len then run_of (map_option (HSyncBuffer_PushData m_datas) (mem_read cptr 0 (nat len))) else Stuck)"

definition HSyncBuffer_PopData :: "HSyncBuffer \<Rightarrow> (HMEM \<times> HSyncBuffer) option" where
  "HSyncBuffer_PopData m_datas = (case m_datas of [] \<Rightarrow> None | mem # rest \<Rightarrow> Some (mem, rest))"

text \<open>Into the memory of the caller: the result is the memory with the data in front, the length and the buffer, which
  has lost the data when the call throws.\<close>

definition HSyncBuffer_PopData_ptr :: "HSyncBuffer \<Rightarrow> HMEM option \<Rightarrow> int \<Rightarrow> ((HMEM \<times> int) run \<times> HSyncBuffer) option" where
  "HSyncBuffer_PopData_ptr m_datas ptr len =
     map_option (\<lambda>(mem, rest).
       (HASSERT_THROW (to_HN (length mem) \<le> len) INVL_PARA
          (case ptr of
             None \<Rightarrow> Throws INVL_PARA
           | Some p \<Rightarrow> run_of (map_option (\<lambda>p. (p, to_HN (length mem))) (mem_write p 0 mem))), rest))
     (HSyncBuffer_PopData m_datas)"

fun PopAllData_loop :: "HSyncBuffer \<Rightarrow> HMEM list \<Rightarrow> HMEM list \<times> HSyncBuffer" where
  "PopAllData_loop [] datas = (datas, [])"
| "PopAllData_loop (d # q) datas = PopAllData_loop q (datas @ [d])"

definition PopAllData :: "HSyncBuffer \<Rightarrow> HMEM list \<Rightarrow> (HMEM list \<times> HSyncBuffer) option" where
  "PopAllData m_datas datas = (if m_datas = [] then None else Some (PopAllData_loop m_datas datas))"

definition HSyncBuffer_HasData :: "HSyncBuffer \<Rightarrow> bool" where
  "HSyncBuffer_HasData m_datas \<longleftrightarrow> m_datas = []"

subsection \<open>MultiThreadJobMng\<close>

text \<open>
  Where a worker stands in \<^verbatim>\<open>childThreadRun\<close>: before \<^verbatim>\<open>GetJob\<close>, in \<^verbatim>\<open>DoJob\<close>, in \<^verbatim>\<open>beforeThreadExit\<close> before and after the
  unprotected \<^verbatim>\<open>m_nWorking--\<close> has read the counter, or ended.
\<close>

datatype 'j worker = Taking | Doing 'j | Leaving | Read int | Ended

record 'j MultiThreadJobMng =
  m_uChildCount :: nat
  m_jobs :: "'j JobPool"
  m_nWorking :: int
  threads :: "'j worker list"
  pushed :: "'j list"
  finished :: "'j list"

definition MultiThreadJobMng_Finish :: "'j MultiThreadJobMng \<Rightarrow> bool" where
  "MultiThreadJobMng_Finish m \<longleftrightarrow> m_nWorking m = 0 \<and> allFinished (m_jobs m)"

definition MultiThreadJobMng_new :: "nat \<Rightarrow> 'j MultiThreadJobMng" where
  "MultiThreadJobMng_new nWork =
     \<lparr>m_uChildCount = nWork, m_jobs = [], m_nWorking = int nWork, threads = [], pushed = [], finished = []\<rparr>"

text \<open>\<open>create i\<close> is the code of creating thread \<open>i\<close>. A thread that exists stands before its first \<^verbatim>\<open>GetJob\<close>.\<close>

definition HThreadPool_Init :: "(nat \<Rightarrow> RET_T) \<Rightarrow> 'j MultiThreadJobMng \<Rightarrow> RET_T run \<times> 'j MultiThreadJobMng" where
  "HThreadPool_Init create m =
     (case find (\<lambda>i. \<not> IS_OK (create i)) [0..<m_uChildCount m] of
        None \<Rightarrow> (Ret ERR_OK, m\<lparr>threads := replicate (m_uChildCount m) Taking\<rparr>)
      | Some i \<Rightarrow> (Throws (create i), m\<lparr>threads := replicate i Taking\<rparr>))"

text \<open>The virtual \<^verbatim>\<open>initJobs\<close> pushes some jobs and returns a code.\<close>

definition InitJobSummer :: "RET_T \<times> 'j list \<Rightarrow> (nat \<Rightarrow> RET_T) \<Rightarrow> 'j MultiThreadJobMng \<Rightarrow> RET_T run \<times> 'j MultiThreadJobMng" where
  "InitJobSummer initJobs create m =
     (let (ret, jobs) = initJobs;
          m = m\<lparr>m_jobs := foldl JobPool_PushJob (m_jobs m) jobs, pushed := pushed m @ jobs\<rparr>
      in if \<not> IS_OK ret then (Ret ret, m) else HThreadPool_Init create m)"

inductive childThreadRun :: "'j MultiThreadJobMng \<Rightarrow> 'j MultiThreadJobMng \<Rightarrow> bool" where
  get: "i < length (threads m) \<Longrightarrow> threads m ! i = Taking \<Longrightarrow> GetJob (m_jobs m) = (Some j, q) \<Longrightarrow>
    childThreadRun m (m\<lparr>m_jobs := q, threads := (threads m)[i := Doing j]\<rparr>)"
| none: "i < length (threads m) \<Longrightarrow> threads m ! i = Taking \<Longrightarrow> GetJob (m_jobs m) = (None, q) \<Longrightarrow>
    childThreadRun m (m\<lparr>m_jobs := q, threads := (threads m)[i := Leaving]\<rparr>)"
| job: "i < length (threads m) \<Longrightarrow> threads m ! i = Doing j \<Longrightarrow>
    childThreadRun m (m\<lparr>threads := (threads m)[i := Taking], finished := finished m @ [j]\<rparr>)"
| read: "i < length (threads m) \<Longrightarrow> threads m ! i = Leaving \<Longrightarrow>
    childThreadRun m (m\<lparr>threads := (threads m)[i := Read (m_nWorking m)]\<rparr>)"
| decr: "i < length (threads m) \<Longrightarrow> threads m ! i = Read n \<Longrightarrow>
    childThreadRun m (m\<lparr>threads := (threads m)[i := Ended], m_nWorking := n - 1\<rparr>)"

text \<open>The workers together with threads that push jobs.\<close>

inductive mng_step :: "'j MultiThreadJobMng \<Rightarrow> 'j MultiThreadJobMng \<Rightarrow> bool" where
  worker: "childThreadRun m m' \<Longrightarrow> mng_step m m'"
| push: "mng_step m (m\<lparr>m_jobs := JobPool_PushJob (m_jobs m) j, pushed := pushed m @ [j]\<rparr>)"

subsection \<open>SummerWorkerMng\<close>

datatype 'j job = Job 'j | ExitThreadJob

datatype 'j summer = Popping | Working 'j | Exited

record 'j SummerWorkerMng =
  sw_queue :: "'j job JobQueue"
  sw_threads :: "'j summer list"
  sw_done :: "'j list"

fun ExitWork_loop :: "nat \<Rightarrow> 'j job JobQueue \<Rightarrow> 'j job JobQueue" where
  "ExitWork_loop 0 q = q"
| "ExitWork_loop (Suc n) q = ExitWork_loop n (JobQueue_PushJob q ExitThreadJob)"

text \<open>The first part of \<^verbatim>\<open>ExitWork\<close>; \<^verbatim>\<open>JoinAll\<close> then returns once every thread has ended.\<close>

definition ExitWork :: "'j SummerWorkerMng \<Rightarrow> 'j SummerWorkerMng" where
  "ExitWork m = m\<lparr>sw_queue := ExitWork_loop (length (sw_threads m)) (sw_queue m)\<rparr>"

definition JoinAll_returns :: "'j SummerWorkerMng \<Rightarrow> bool" where
  "JoinAll_returns m \<longleftrightarrow> (\<forall>t \<in> set (sw_threads m). t = Exited)"

inductive summer_step :: "'j SummerWorkerMng \<Rightarrow> 'j SummerWorkerMng \<Rightarrow> bool" where
  job: "i < length (sw_threads m) \<Longrightarrow> sw_threads m ! i = Popping \<Longrightarrow> PopJob (sw_queue m) = Some (Job j, q) \<Longrightarrow>
    summer_step m (m\<lparr>sw_queue := q, sw_threads := (sw_threads m)[i := Working j]\<rparr>)"
| exit: "i < length (sw_threads m) \<Longrightarrow> sw_threads m ! i = Popping \<Longrightarrow> PopJob (sw_queue m) = Some (ExitThreadJob, q) \<Longrightarrow>
    summer_step m (m\<lparr>sw_queue := q, sw_threads := (sw_threads m)[i := Exited]\<rparr>)"
| fin: "i < length (sw_threads m) \<Longrightarrow> sw_threads m ! i = Working j \<Longrightarrow>
    summer_step m (m\<lparr>sw_threads := (sw_threads m)[i := Popping], sw_done := sw_done m @ [j]\<rparr>)"

subsection \<open>First in, first out\<close>

datatype 'a qop = Put 'a | Take

fun q_run :: "('q \<Rightarrow> 'a \<Rightarrow> 'q) \<Rightarrow> ('q \<Rightarrow> ('a \<times> 'q) option) \<Rightarrow> 'a qop list \<Rightarrow> 'q \<Rightarrow> 'a list \<times> 'q" where
  "q_run push pop [] q = ([], q)"
| "q_run push pop (Put a # ops) q = q_run push pop ops (push q a)"
| "q_run push pop (Take # ops) q =
     (case pop q of
        None \<Rightarrow> q_run push pop ops q
      | Some (a, q') \<Rightarrow> (let (as, q'') = q_run push pop ops q' in (a # as, q'')))"

fun puts :: "'a qop list \<Rightarrow> 'a list" where
  "puts [] = []"
| "puts (Put a # ops) = a # puts ops"
| "puts (Take # ops) = puts ops"

locale wait_queue =
  fixes items :: "'q \<Rightarrow> 'a list" and push :: "'q \<Rightarrow> 'a \<Rightarrow> 'q" and pop :: "'q \<Rightarrow> ('a \<times> 'q) option"
  assumes push_items: "items (push q a) = items q @ [a]"
    and pop_none: "pop q = None \<longleftrightarrow> items q = []"
    and pop_some: "pop q = Some (a, q') \<Longrightarrow> items q = a # items q'"
begin

lemma q_run_fifo: "q_run push pop ops q = (as, q') \<Longrightarrow> items q @ puts ops = as @ items q'"
proof (induction ops arbitrary: q as rule: puts.induct)
  case (2 a ops)
  then show ?case using push_items [of q a] by fastforce
next
  case (3 ops)
  then show ?case by (auto simp: pop_some split: option.splits prod.splits)
qed simp

end

interpretation jobq: wait_queue "\<lambda>q. q" JobQueue_PushJob PopJob
  by unfold_locales (auto simp: JobQueue_PushJob_def PopJob_def split: list.splits)

interpretation jobpool: wait_queue "\<lambda>q. q" JobPool_PushJob "\<lambda>q. case GetJob q of (None, _) \<Rightarrow> None | (Some j, q') \<Rightarrow> Some (j, q')"
  by unfold_locales (auto simp: JobPool_PushJob_def GetJob_def split: list.splits)

interpretation syncbuf: wait_queue "\<lambda>q. q" HSyncBuffer_PushData HSyncBuffer_PopData
  by unfold_locales (auto simp: HSyncBuffer_PushData_def HSyncBuffer_PopData_def split: list.splits)


text \<open>Whatever is put into and taken out of a \<^verbatim>\<open>JobQueue\<close> or an \<^verbatim>\<open>HSyncBuffer\<close>, in any order, comes out in the order it
  went in.\<close>

lemma JobQueue_fifo: "q_run JobQueue_PushJob PopJob ops [] = (as, q) \<Longrightarrow> puts ops = as @ q"
  using jobq.q_run_fifo by fastforce

lemma HSyncBuffer_fifo: "q_run HSyncBuffer_PushData HSyncBuffer_PopData ops [] = (as, q) \<Longrightarrow> puts ops = as @ q"
  using syncbuf.q_run_fifo by fastforce

lemma PopJobs_all: "PopJobs q jobs = (if q = [] then None else Some (jobs @ q, []))"
proof -
  have "PopJobs_loop q jobs = (jobs @ q, [])" by (induction q jobs rule: PopJobs_loop.induct) auto
  then show ?thesis by (simp add: PopJobs_def)
qed

lemma PopAllData_all: "PopAllData q datas = (if q = [] then None else Some (datas @ q, []))"
proof -
  have "PopAllData_loop q datas = (datas @ q, [])" by (induction q datas rule: PopAllData_loop.induct) auto
  then show ?thesis by (simp add: PopAllData_def)
qed

lemma JobPool_clear_all: "JobPool_clear q = []"
  by (induction q rule: JobPool_clear.induct) auto

text \<open>\<^verbatim>\<open>HasData\<close> says whether there is none.\<close>

lemma HasData_inverted: "JobQueue_HasData q \<longleftrightarrow> PopJob q = None" "HSyncBuffer_HasData d \<longleftrightarrow> HSyncBuffer_PopData d = None"
  by (auto simp: JobQueue_HasData_def PopJob_def HSyncBuffer_HasData_def HSyncBuffer_PopData_def split: list.splits)

text \<open>A \<^verbatim>\<open>PopData\<close> into memory that is too small throws and loses the data.\<close>

lemma PopData_loses:
  "length mem < 2 ^ 31 \<Longrightarrow> len < int (length mem) \<Longrightarrow>
   HSyncBuffer_PopData_ptr (mem # rest) ptr len = Some (Throws INVL_PARA, rest)"
  by (simp add: HSyncBuffer_PopData_ptr_def HSyncBuffer_PopData_def to_HN_id)

subsection \<open>Every job is done once\<close>

lemma sum_list_upd:
  fixes f :: "'a \<Rightarrow> 'b::comm_monoid_add"
  shows "i < length xs \<Longrightarrow> sum_list (map f (xs[i := y])) + f (xs ! i) = sum_list (map f xs) + f y"
proof (induction xs arbitrary: i)
  case (Cons x xs)
  then show ?case by (cases i) (auto simp: ac_simps)
qed simp

fun doing :: "'j worker \<Rightarrow> 'j multiset" where
  "doing (Doing j) = {#j#}"
| "doing _ = {#}"

definition live :: "'j worker \<Rightarrow> nat" where
  "live t = (if t = Ended then 0 else 1)"

definition live_count :: "'j MultiThreadJobMng \<Rightarrow> int" where
  "live_count m = int (sum_list (map live (threads m)))"

definition mng_inv :: "'j MultiThreadJobMng \<Rightarrow> bool" where
  "mng_inv m \<longleftrightarrow>
     mset (pushed m) = mset (m_jobs m) + sum_list (map doing (threads m)) + mset (finished m) \<and>
     live_count m \<le> m_nWorking m \<and> (\<forall>n. Read n \<in> set (threads m) \<longrightarrow> live_count m \<le> n)"

lemma Read_update: "Read n \<in> set (xs[i := y]) \<Longrightarrow> y \<noteq> Read n \<Longrightarrow> Read n \<in> set xs"
  using set_update_subset_insert [of xs i y] by auto

lemma GetJob_cases:
  "GetJob q = (Some j, q') \<longleftrightarrow> q = j # q'" "GetJob q = (None, q') \<longleftrightarrow> q = [] \<and> q' = []"
  by (auto simp: GetJob_def split: list.splits)

lemma childThreadRun_inv:
  assumes "childThreadRun m m'" "mng_inv m"
  shows "mng_inv m'"
  using assms
proof (cases rule: childThreadRun.cases)
  case (get i j q)
  then show ?thesis
    using assms(2) sum_list_upd [of i "threads m" doing "Doing j"] sum_list_upd [of i "threads m" live "Doing j"]
    by (auto simp: mng_inv_def live_count_def live_def GetJob_cases dest: Read_update)
next
  case (none i q)
  then show ?thesis
    using assms(2) sum_list_upd [of i "threads m" doing Leaving] sum_list_upd [of i "threads m" live Leaving]
    by (auto simp: mng_inv_def live_count_def live_def GetJob_cases dest: Read_update)
next
  case (job i j)
  then show ?thesis
    using assms(2) sum_list_upd [of i "threads m" doing Taking] sum_list_upd [of i "threads m" live Taking]
    by (auto simp: mng_inv_def live_count_def live_def dest: Read_update)
next
  case (read i)
  then show ?thesis
    using assms(2) sum_list_upd [of i "threads m" doing "Read (m_nWorking m)"]
      sum_list_upd [of i "threads m" live "Read (m_nWorking m)"]
    by (auto simp: mng_inv_def live_count_def live_def dest: Read_update)
next
  case (decr i n)
  have "Read n \<in> set (threads m)" using decr(2,3) by (metis nth_mem)
  then have "live_count m \<le> n" using assms(2) by (simp add: mng_inv_def)
  moreover have "live_count m' = live_count m - 1"
    using decr sum_list_upd [of i "threads m" live Ended] by (simp add: live_count_def live_def)
  moreover have "live_count m \<le> k" if "Read k \<in> set (threads m')" for k
    using that assms(2) decr by (auto simp: mng_inv_def dest: Read_update)
  ultimately show ?thesis
    using decr assms(2) sum_list_upd [of i "threads m" doing Ended] by (fastforce simp: mng_inv_def)
qed

lemma sum_doing_none: "\<forall>t \<in> set ts. doing t = {#} \<Longrightarrow> sum_list (map doing ts) = {#}"
  by (induction ts) auto

lemma mng_step_inv: "mng_step m m' \<Longrightarrow> mng_inv m \<Longrightarrow> mng_inv m'"
proof (induction rule: mng_step.induct)
  case (push m j)
  then show ?case by (simp add: mng_inv_def JobPool_PushJob_def live_count_def)
qed (rule childThreadRun_inv)

lemma foldl_PushJob: "foldl JobPool_PushJob q jobs = q @ jobs"
  by (induction jobs arbitrary: q) (auto simp: JobPool_PushJob_def)

lemma replicate_inv:
  fixes jobs :: "'j list"
  assumes "k \<le> n"
  shows "mng_inv \<lparr>m_uChildCount = n, m_jobs = jobs, m_nWorking = int n, threads = replicate k Taking, pushed = jobs, finished = []\<rparr>"
proof -
  have "sum_list (map live (replicate k (Taking :: 'j worker))) = k" by (induction k) (simp_all add: live_def)
  moreover have "sum_list (map doing (replicate k (Taking :: 'j worker))) = {#}" by (rule sum_doing_none) simp
  ultimately show ?thesis using assms by (simp add: mng_inv_def live_count_def del: map_replicate)
qed

lemma InitJobSummer_inv: "mng_inv (snd (InitJobSummer initJobs create (MultiThreadJobMng_new n)))"
proof -
  have "i \<le> n" if "find (\<lambda>i. \<not> IS_OK (create i)) [0..<n] = Some i" for i
    using that by (auto simp: find_Some_iff)
  then show ?thesis
    using replicate_inv [of 0 n "snd initJobs"] replicate_inv [of _ n "snd initJobs"]
    by (auto simp: InitJobSummer_def HThreadPool_Init_def MultiThreadJobMng_new_def foldl_PushJob Let_def
        split: prod.split option.split)
qed

lemma mng_reach_inv:
  assumes "mng_step\<^sup>*\<^sup>* (snd (InitJobSummer initJobs create (MultiThreadJobMng_new n))) m"
  shows "mng_inv m"
  using assms by (induction rule: rtranclp_induct) (auto intro: InitJobSummer_inv mng_step_inv)

text \<open>C11: However the worker threads and the threads that push jobs interleave, no job is lost or run twice, and when
  \<^verbatim>\<open>Finish\<close> answers yes, all jobs pushed so far are done and all workers have ended.\<close>

theorem MultiThreadJobMng_jobs_once:
  assumes "mng_step\<^sup>*\<^sup>* (snd (InitJobSummer initJobs create (MultiThreadJobMng_new n))) m"
  shows "mset (pushed m) = mset (m_jobs m) + sum_list (map doing (threads m)) + mset (finished m) \<and>
    (MultiThreadJobMng_Finish m \<longrightarrow> mset (finished m) = mset (pushed m) \<and> (\<forall>t \<in> set (threads m). t = Ended))"
proof -
  note inv = mng_reach_inv [OF assms]
  have "mset (finished m) = mset (pushed m) \<and> (\<forall>t \<in> set (threads m). t = Ended)" if f: "MultiThreadJobMng_Finish m"
  proof -
    have "sum_list (map live (threads m)) = 0"
      using inv f by (simp add: mng_inv_def live_count_def MultiThreadJobMng_Finish_def)
    then have e: "\<forall>t \<in> set (threads m). t = Ended" by (auto simp: live_def split: if_splits)
    then have "sum_list (map doing (threads m)) = {#}" by (intro sum_doing_none) auto
    then show ?thesis using inv f e by (simp add: mng_inv_def MultiThreadJobMng_Finish_def allFinished_def)
  qed
  then show ?thesis using inv by (simp add: mng_inv_def)
qed

theorem MultiThreadJobMng_jobs_once_witness:
  "\<exists>m. mng_step\<^sup>*\<^sup>* (snd (InitJobSummer (ERR_OK, ''a'') (\<lambda>_. ERR_OK) (MultiThreadJobMng_new 1))) m \<and> MultiThreadJobMng_Finish m \<and> mset (finished m) = mset ''a'' \<and> threads m = [Ended]"
proof -
  let ?m = "\<lambda>q k t d. \<lparr>m_uChildCount = 1, m_jobs = q, m_nWorking = k, threads = [t], pushed = ''a'', finished = d\<rparr>"
  have init: "snd (InitJobSummer (ERR_OK, ''a'') (\<lambda>_. ERR_OK) (MultiThreadJobMng_new 1)) = ?m ''a'' 1 Taking []" 
    by (simp add: InitJobSummer_def HThreadPool_Init_def MultiThreadJobMng_new_def JobPool_PushJob_def)
  have "childThreadRun (?m ''a'' 1 Taking []) (?m [] 1 (Doing (CHR ''a'')) [])"
    using childThreadRun.get [of 0 "?m ''a'' 1 Taking []"] by (simp add: GetJob_def)
  moreover have "childThreadRun (?m [] 1 (Doing (CHR ''a'')) []) (?m [] 1 Taking ''a'')"
    using childThreadRun.job [of 0 "?m [] 1 (Doing (CHR ''a'')) []"] by simp
  moreover have "childThreadRun (?m [] 1 Taking ''a'') (?m [] 1 Leaving ''a'')"
    using childThreadRun.none [of 0 "?m [] 1 Taking ''a''"] by (simp add: GetJob_def)
  moreover have "childThreadRun (?m [] 1 Leaving ''a'') (?m [] 1 (Read 1) ''a'')"
    using childThreadRun.read [of 0 "?m [] 1 Leaving ''a''"] by simp
  moreover have "childThreadRun (?m [] 1 (Read 1) ''a'') (?m [] 0 Ended ''a'')"
    using childThreadRun.decr [of 0 "?m [] 1 (Read 1) ''a''" 1] by simp
  ultimately have "childThreadRun\<^sup>*\<^sup>* (?m ''a'' 1 Taking []) (?m [] 0 Ended ''a'')"
    by (meson converse_rtranclp_into_rtranclp rtranclp.rtrancl_refl)
  then have r: "mng_step\<^sup>*\<^sup>* (snd (InitJobSummer (ERR_OK, ''a'') (\<lambda>_. ERR_OK) (MultiThreadJobMng_new 1))) (?m [] 0 Ended ''a'')"
    unfolding init by (rule rtranclp_mono [THEN predicate2D, rotated]) (auto intro: mng_step.worker)
  then show ?thesis
    using MultiThreadJobMng_jobs_once [OF r] by (intro exI [of _ "?m [] 0 Ended ''a''"])
      (simp add: MultiThreadJobMng_Finish_def allFinished_def)
qed

text \<open>C36: The counter of working threads is decremented without protection. Two workers that leave at the same time can
  lose one decrement: then all workers have ended and no job is left, yet \<^verbatim>\<open>Finish\<close> answers no, and nothing the
  workers can still do changes that.\<close>

theorem MultiThreadJobMng_lost_decrement:
  "\<exists>m. childThreadRun\<^sup>*\<^sup>* (snd (InitJobSummer (ERR_OK, []) (\<lambda>_. ERR_OK) (MultiThreadJobMng_new 2 :: 'j MultiThreadJobMng))) m \<and> list_all (\<lambda>t. t = Ended) (threads m) \<and>
     allFinished (m_jobs m) \<and> \<not> MultiThreadJobMng_Finish m \<and> (\<forall>m'. \<not> childThreadRun m m')"
proof -
  let ?m = "\<lambda>k a b. \<lparr>m_uChildCount = 2, m_jobs = [], m_nWorking = k, threads = [a, b], pushed = [], finished = []\<rparr> :: 'j MultiThreadJobMng"
  have init: "snd (InitJobSummer (ERR_OK, []) (\<lambda>_. ERR_OK) (MultiThreadJobMng_new 2)) = ?m 2 Taking Taking" 
    by (simp add: InitJobSummer_def HThreadPool_Init_def MultiThreadJobMng_new_def numeral_2_eq_2)
  have "childThreadRun (?m 2 Taking Taking) (?m 2 Leaving Taking)"
    using childThreadRun.none [of 0 "?m 2 Taking Taking" "[]"] by (simp add: GetJob_def)
  moreover have "childThreadRun (?m 2 Leaving Taking) (?m 2 Leaving Leaving)"
    using childThreadRun.none [of 1 "?m 2 Leaving Taking" "[]"] by (simp add: GetJob_def)
  moreover have "childThreadRun (?m 2 Leaving Leaving) (?m 2 (Read 2) Leaving)"
    using childThreadRun.read [of 0 "?m 2 Leaving Leaving"] by simp
  moreover have "childThreadRun (?m 2 (Read 2) Leaving) (?m 2 (Read 2) (Read 2))"
    using childThreadRun.read [of 1 "?m 2 (Read 2) Leaving"] by simp
  moreover have "childThreadRun (?m 2 (Read 2) (Read 2)) (?m 1 Ended (Read 2))"
    using childThreadRun.decr [of 0 "?m 2 (Read 2) (Read 2)" 2] by simp
  moreover have "childThreadRun (?m 1 Ended (Read 2)) (?m 1 Ended Ended)"
    using childThreadRun.decr [of 1 "?m 1 Ended (Read 2)" 2] by simp
  ultimately have "childThreadRun\<^sup>*\<^sup>* (?m 2 Taking Taking) (?m 1 Ended Ended)"
    by (meson converse_rtranclp_into_rtranclp rtranclp.rtrancl_refl)
  moreover have "\<not> childThreadRun (?m 1 Ended Ended) m'" for m'
    by (auto elim!: childThreadRun.cases simp: nth_Cons split: nat.splits)
  ultimately show ?thesis
    by (intro exI [of _ "?m 1 Ended Ended"]) (simp add: init allFinished_def MultiThreadJobMng_Finish_def)
qed

subsection \<open>Shutting down\<close>

fun working :: "'j summer \<Rightarrow> 'j multiset" where
  "working (Working j) = {#j#}"
| "working _ = {#}"

definition staying :: "'j summer \<Rightarrow> nat" where
  "staying t = (if t = Exited then 0 else 1)"

definition active :: "'j summer \<Rightarrow> nat" where
  "active t = (case t of Working _ \<Rightarrow> 1 | _ \<Rightarrow> 0)"

text \<open>What holds after \<^verbatim>\<open>ExitWork\<close>: the jobs come first in the queue, then one exit job for every thread that has not
  ended; no thread ends before the jobs are taken.\<close>

definition exit_inv :: "'j multiset \<Rightarrow> 'j SummerWorkerMng \<Rightarrow> bool" where
  "exit_inv all m \<longleftrightarrow>
     (\<exists>js. sw_queue m = map Job js @ replicate (sum_list (map staying (sw_threads m))) ExitThreadJob \<and>
        all = mset js + sum_list (map working (sw_threads m)) + mset (sw_done m) \<and>
        (Exited \<in> set (sw_threads m) \<longrightarrow> js = []))"

lemma sum_working_none: "\<forall>t \<in> set ts. working t = {#} \<Longrightarrow> sum_list (map working ts) = {#}"
  by (induction ts) auto

lemma PopJob_Some: "PopJob q = Some (j, q') \<longleftrightarrow> q = j # q'"
  by (auto simp: PopJob_def split: list.splits)

lemma Exited_update: "Exited \<in> set (xs[i := y]) \<Longrightarrow> y \<noteq> Exited \<Longrightarrow> Exited \<in> set xs"
  using set_update_subset_insert [of xs i y] by auto

lemma summer_step_inv:
  assumes "summer_step m m'" "exit_inv all m"
  shows "exit_inv all m'"
proof -
  let ?k = "sum_list (map staying (sw_threads m))"
  obtain js where q: "sw_queue m = map Job js @ replicate ?k ExitThreadJob"
    and a: "all = mset js + sum_list (map working (sw_threads m)) + mset (sw_done m)"
    and e: "Exited \<in> set (sw_threads m) \<Longrightarrow> js = []"
    using assms(2) by (auto simp: exit_inv_def)
  from assms(1) show ?thesis
  proof (cases rule: summer_step.cases)
    case (job i j r)
    then obtain js' where js: "js = j # js'" "r = map Job js' @ replicate ?k ExitThreadJob"
      using q by (cases js; cases ?k) (auto simp: PopJob_Some)
    have "sum_list (map staying (sw_threads m')) = ?k"
      using job sum_list_upd [of i "sw_threads m" staying "Working j"] by (simp add: staying_def)
    moreover have "sum_list (map working (sw_threads m')) = sum_list (map working (sw_threads m)) + {#j#}"
      using job sum_list_upd [of i "sw_threads m" working "Working j"] by simp
    moreover have "Exited \<notin> set (sw_threads m')" using e js job by (auto dest: Exited_update)
    ultimately show ?thesis using job js a by (auto simp: exit_inv_def)
  next
    case (exit i r)
    then have js: "js = []" "?k \<noteq> 0" "r = replicate (?k - 1) ExitThreadJob"
      using q by (cases js; cases ?k; auto simp: PopJob_Some)+
    have "Suc (sum_list (map staying (sw_threads m'))) = ?k"
      using exit sum_list_upd [of i "sw_threads m" staying Exited] by (simp add: staying_def)
    moreover have "sum_list (map working (sw_threads m')) = sum_list (map working (sw_threads m))"
      using exit sum_list_upd [of i "sw_threads m" working Exited] by simp
    ultimately show ?thesis using exit js a by (auto simp: exit_inv_def)
  next
    case (fin i j)
    have "sum_list (map staying (sw_threads m')) = ?k"
      using fin sum_list_upd [of i "sw_threads m" staying Popping] by (simp add: staying_def)
    moreover have "sum_list (map working (sw_threads m)) = add_mset j (sum_list (map working (sw_threads m')))"
      using fin sum_list_upd [of i "sw_threads m" working Popping] by simp
    moreover have "Exited \<in> set (sw_threads m') \<Longrightarrow> js = []" using fin e by (auto dest: Exited_update)
    ultimately show ?thesis using fin q a unfolding exit_inv_def by (intro exI [of _ js]) simp
  qed
qed

definition summer_measure :: "'j SummerWorkerMng \<Rightarrow> nat" where
  "summer_measure m = 2 * length (sw_queue m) + sum_list (map active (sw_threads m))"

lemma summer_step_decreases: "summer_step m m' \<Longrightarrow> summer_measure m' < summer_measure m"
proof (induction rule: summer_step.induct)
  case (job i m j q)
  then show ?case using sum_list_upd [of i "sw_threads m" active "Working j"]
    by (simp add: summer_measure_def PopJob_Some active_def)
next
  case (exit i m q)
  then show ?case using sum_list_upd [of i "sw_threads m" active Exited]
    by (simp add: summer_measure_def PopJob_Some active_def)
next
  case (fin i m j)
  then show ?case using sum_list_upd [of i "sw_threads m" active Popping]
    by (simp add: summer_measure_def active_def)
qed

lemma ExitWork_queue: "sw_queue (ExitWork m) = sw_queue m @ replicate (length (sw_threads m)) ExitThreadJob"
proof -
  have "ExitWork_loop n q = q @ replicate n ExitThreadJob" for n and q :: "'a job list"
    by (induction n arbitrary: q) (auto simp: JobQueue_PushJob_def replicate_app_Cons_same)
  then show ?thesis by (simp add: ExitWork_def)
qed

lemma exit_stuck:
  assumes "exit_inv all m" "\<forall>m'. \<not> summer_step m m'" "sw_threads m \<noteq> []"
  shows "JoinAll_returns m \<and> mset (sw_done m) = all"
proof -
  obtain js where q: "sw_queue m = map Job js @ replicate (sum_list (map staying (sw_threads m))) ExitThreadJob"
    and a: "all = mset js + sum_list (map working (sw_threads m)) + mset (sw_done m)"
    and e: "Exited \<in> set (sw_threads m) \<Longrightarrow> js = []"
    using assms(1) by (auto simp: exit_inv_def)
  have "sw_threads m ! i = Exited" if i: "i < length (sw_threads m)" for i
  proof (cases "sw_threads m ! i")
    case Popping
    have "1 \<in> set (map staying (sw_threads m))" using i Popping by (force simp: staying_def in_set_conv_nth)
    then have "sum_list (map staying (sw_threads m)) \<noteq> 0"
      using sum_list_eq_0_iff [of "map staying (sw_threads m)"] zero_neq_one by metis
    then have "sw_queue m \<noteq> []" unfolding q append_is_Nil_conv replicate_empty by blast
    then obtain x r where "sw_queue m = x # r" by (meson neq_Nil_conv)
    then have "PopJob (sw_queue m) = Some (x, r)" by (simp add: PopJob_Some)
    then have "\<exists>m'. summer_step m m'"
      using summer_step.job [OF i Popping] summer_step.exit [OF i Popping] by (cases x) (simp, blast)+
    then show ?thesis using assms(2) by blast
  next
    case (Working j)
    then show ?thesis using assms(2) summer_step.fin [OF i Working] by simp
  qed
  then have ex: "\<forall>t \<in> set (sw_threads m). t = Exited" by (metis in_set_conv_nth)
  then have "Exited \<in> set (sw_threads m)" using assms(3) by (cases "sw_threads m") auto
  moreover have "sum_list (map working (sw_threads m)) = {#}" using ex by (intro sum_working_none) auto
  ultimately show ?thesis using e a ex by (simp add: JoinAll_returns_def)
qed



end
