(* ===== verification/Net_Addr.thy ===== *)
theory Net_Addr
  imports Hui_Time Byte_Order
begin

text \<open>
  Internet addresses: the class \<^verbatim>\<open>HIp4Addr\<close> of \<^verbatim>\<open>src/src/haddr.h\<close> and \<^verbatim>\<open>haddr.cpp\<close>, without the calls on sockets.

  \<open>inet_addr\<close> and \<open>inet_ntoa\<close> are the functions of the C library between texts and addresses in network order. A standard
  exception (of \<^verbatim>\<open>std::stoi\<close>) is \<open>None\<close>.
\<close>

subsection \<open>Addresses\<close>

record sockaddr_in =
  sin_family :: nat
  sin_port :: HUSN
  s_addr :: HUN

definition AF_INET :: nat where "AF_INET = 2"

definition AF_INET6 :: nat where "AF_INET6 = 10"

definition net_zero :: sockaddr_in where
  "net_zero = \<lparr>sin_family = 0, sin_port = 0, s_addr = 0\<rparr>"

definition init_int :: "HUN \<Rightarrow> int \<Rightarrow> sockaddr_in \<Rightarrow> RET_T \<times> sockaddr_in" where
  "init_int addr_bytes port m_addr =
     (ERR_OK, m_addr\<lparr>sin_family := AF_INET, sin_port := htons (word_of_int port), s_addr := addr_bytes\<rparr>)"

definition SetPort :: "int \<Rightarrow> sockaddr_in \<Rightarrow> sockaddr_in" where
  "SetPort port m_addr = m_addr\<lparr>sin_port := htons (word_of_int port)\<rparr>"

definition SetupNetWithIpString :: "(string \<Rightarrow> HUN) \<Rightarrow> string \<Rightarrow> int \<Rightarrow> sockaddr_in \<Rightarrow> RET_T \<times> sockaddr_in" where
  "SetupNetWithIpString inet_addr ip port net =
     (ERR_OK, net\<lparr>sin_family := AF_INET, sin_port := htons (word_of_int port), s_addr := inet_addr ip\<rparr>)"

definition init_str :: "(string \<Rightarrow> HUN) \<Rightarrow> string \<Rightarrow> int \<Rightarrow> sockaddr_in \<Rightarrow> RET_T \<times> sockaddr_in" where
  "init_str inet_addr strIp port m_addr = SetupNetWithIpString inet_addr strIp port m_addr"

definition init_addr :: "sockaddr_in \<Rightarrow> sockaddr_in \<Rightarrow> RET_T \<times> sockaddr_in" where
  "init_addr addr m_addr = (ERR_OK, addr)"

definition Assign :: "(string \<Rightarrow> HUN) \<Rightarrow> string \<Rightarrow> int \<Rightarrow> sockaddr_in \<Rightarrow> RET_T \<times> sockaddr_in" where
  "Assign inet_addr strIp port m_addr = init_str inet_addr strIp port m_addr"

definition GetAddrInfo :: "(HUN \<Rightarrow> string) \<Rightarrow> sockaddr_in \<Rightarrow> RET_T \<times> string \<times> int" where
  "GetAddrInfo inet_ntoa m_addr = (ERR_OK, inet_ntoa (s_addr m_addr), uint (htons (sin_port m_addr)))"

definition Addr_ToString :: "(HUN \<Rightarrow> string) \<Rightarrow> sockaddr_in \<Rightarrow> string" where
  "Addr_ToString inet_ntoa m_addr =
     (let (ret, strIp, port) = GetAddrInfo inet_ntoa m_addr
      in if \<not> IS_OK ret then [] else strIp @ '':'' @ FromN port)"

definition GetStringFromNet :: "(HUN \<Rightarrow> string) \<Rightarrow> sockaddr_in \<Rightarrow> RET_T \<times> string \<times> int" where
  "GetStringFromNet inet_ntoa addr = (ERR_OK, inet_ntoa (s_addr addr), uint (sin_port addr))"

definition StringIpToInt :: "(string \<Rightarrow> HUN) \<Rightarrow> string \<Rightarrow> HUN" where
  "StringIpToInt inet_addr strIp = htonl (inet_addr strIp)"

definition ToStringIp :: "(HUN \<Rightarrow> string) \<Rightarrow> HUN \<Rightarrow> string" where
  "ToStringIp inet_ntoa ll = inet_ntoa (htonl ll)"

definition AddrTypeToInt :: "HUN \<Rightarrow> HUN" where
  "AddrTypeToInt iaddr = htonl iaddr"

definition ParseNetFromString :: "(string \<Rightarrow> HUN) \<Rightarrow> string \<Rightarrow> sockaddr_in \<Rightarrow> (RET_T \<times> sockaddr_in) option" where
  "ParseNetFromString inet_addr str net =
     (case str_find str '':'' 0 of
        None \<Rightarrow> Some (INVL_PARA, net_zero)
      | Some pos \<Rightarrow>
          if pos = size_sub (length str) 1 then Some (INVL_PARA, net_zero)
          else let ssip = take pos str in
               if \<not> IsAllDigitAndDos ssip then Some (INVL_PARA, net_zero)
               else do { rest \<leftarrow> str_substr str (pos + 1) npos;
                         iPort \<leftarrow> stoi rest;
                         Some (SetupNetWithIpString inet_addr ssip iPort net_zero) })"

subsection \<open>Is a text an address?\<close>

fun ip_nums :: "string list \<Rightarrow> bool option" where
  "ip_nums [] = Some True"
| "ip_nums (strnum # ncs) =
     (if \<not> IsAllDigit strnum then Some False
      else do { n \<leftarrow> stoi strnum; if \<not> (0 \<le> n \<and> n \<le> 255) then Some False else ip_nums ncs })"

definition IsIp4Str :: "string \<Rightarrow> bool option" where
  "IsIp4Str strIp =
     (if length strIp > 15 then Some False
      else do { (ret, ncs) \<leftarrow> HStr_Split strIp ''.'' [] 0;
                if \<not> IS_OK ret then Some False
                else if length ncs \<noteq> 4 then Some False
                else ip_nums ncs })"

subsection \<open>The address of this host\<close>

definition is_bad_address4_for_us :: "HUN \<Rightarrow> bool" where
  "is_bad_address4_for_us addr =
     (let nAddr = htonl addr in nAddr = 0x7F000001 \<or> nAddr = 0 \<or> nAddr = NOT 0)"

text \<open>A \<^verbatim>\<open>sockaddr_storage\<close> also has room for the 16 bytes of an IPv6 address, behind those of an IPv4 address.\<close>

record sockaddr_storage = sockaddr_in +
  s6_addr :: HMEM

definition isBadAddressForUs :: "sockaddr_storage \<Rightarrow> bool" where
  "isBadAddressForUs addr = (if sin_family addr = AF_INET then is_bad_address4_for_us (s_addr addr) else True)"

definition addressIsNull :: "sockaddr_storage \<Rightarrow> bool" where
  "addressIsNull address =
     (if sin_family address = AF_INET then s_addr address = 0
      else if sin_family address = AF_INET6 then list_all (\<lambda>b. b = 0) (take 16 (s6_addr address))
      else False)"

definition copyAddress :: "sockaddr_storage \<Rightarrow> sockaddr_storage option \<Rightarrow> sockaddr_storage" where
  "copyAddress to from =
     (case from of
        None \<Rightarrow> to
      | Some from \<Rightarrow>
          if sin_family from = AF_INET then to\<lparr>sin_family := AF_INET, s_addr := s_addr from\<rparr>
          else if sin_family from = AF_INET6
          then to\<lparr>sin_family := AF_INET6, s6_addr := take 16 (s6_addr from) @ drop 16 (s6_addr to)\<rparr>
          else to)"

record ifaddrs =
  ifa_up :: bool
  ifa_loopback :: bool
  ifa_addr :: "sockaddr_storage option"

fun ifaddrs_loop :: "ifaddrs list \<Rightarrow> sockaddr_storage \<Rightarrow> sockaddr_storage" where
  "ifaddrs_loop [] ss = ss"
| "ifaddrs_loop (p # ps) ss =
     (if \<not> ifa_up p \<or> ifa_loopback p then ifaddrs_loop ps ss
      else case ifa_addr p of
             None \<Rightarrow> ifaddrs_loop ps ss
           | Some a \<Rightarrow>
               if isBadAddressForUs a then ifaddrs_loop ps ss
               else if sin_family a = AF_INET \<and> addressIsNull ss then ifaddrs_loop ps (copyAddress ss (ifa_addr p))
               else ifaddrs_loop ps ss)"

definition GetLocalAddr :: "ifaddrs list option \<Rightarrow> sockaddr_storage \<Rightarrow> sockaddr_storage" where
  "GetLocalAddr getifaddrs ss =
     (let ss = ss\<lparr>sin_family := AF_INET, s_addr := 0\<rparr>
      in case getifaddrs of None \<Rightarrow> ss | Some ps \<Rightarrow> ifaddrs_loop ps ss)"

definition GetLocalIp :: "(HUN \<Rightarrow> string) \<Rightarrow> ifaddrs list option \<Rightarrow> sockaddr_storage \<Rightarrow> string" where
  "GetLocalIp inet_ntoa getifaddrs ss = inet_ntoa (s_addr (GetLocalAddr getifaddrs ss))"

subsection \<open>Printing and parsing\<close>

definition inet_law :: "(string \<Rightarrow> HUN) \<Rightarrow> (HUN \<Rightarrow> string) \<Rightarrow> bool" where
  "inet_law inet_addr inet_ntoa \<longleftrightarrow>
     (\<forall>a. inet_addr (inet_ntoa a) = a \<and> set (inet_ntoa a) \<subseteq> set ''1234567890.'' \<and> length (inet_ntoa a) \<le> 15)"

lemma takeWhile_short: "length (takeWhile P s) < length s \<longleftrightarrow> (\<exists>x \<in> set s. \<not> P x)"
  by (induction s) auto

lemma find_first_not_of_None: "find_first_not_of s cs = None \<longleftrightarrow> set s \<subseteq> set cs"
  by (auto simp: find_first_not_of_def Let_def takeWhile_short)

lemma is_digit_chars: "is_digit c \<longleftrightarrow> c \<in> set ''1234567890''"
proof
  assume "is_digit c"
  then have "(of_char c :: nat) \<in> set [48..<58]" by (simp only: is_digit_def set_upt atLeastLessThan_iff) simp
  then have "c \<in> set (map char_of [48..<58 :: nat])" by (metis char_of_char image_eqI set_map)
  then show "c \<in> set ''1234567890''" by (simp add: upt_rec) (elim disjE, simp_all add: char_of_eq_iff)
qed (auto simp: is_digit_def)

lemma IsAllDigit_iff: "IsAllDigit s \<longleftrightarrow> list_all is_digit s"
  by (simp only: IsAllDigit_def find_first_not_of_None list_all_iff is_digit_chars subset_iff Ball_def)

lemma GetStringFromNet_port: "GetStringFromNet ntoa (SetPort port a) = (ERR_OK, ntoa (s_addr a), uint (htons (word_of_int port)))"
  by (simp add: GetStringFromNet_def SetPort_def)

lemma ip_int_roundtrip:
  assumes "inet_law inet_addr inet_ntoa"
  shows "StringIpToInt inet_addr (ToStringIp inet_ntoa n) = n"
  using assms by (simp add: StringIpToInt_def ToStringIp_def inet_law_def)

lemma port_text: "FromN (uint (p :: HUSN)) \<noteq> []" "length (FromN (uint (p :: HUSN))) \<le> 5" "stoi (FromN (uint p)) = Some (uint p)"
proof -
  have b: "0 \<le> uint p" "- 2147483648 \<le> uint p" "uint p < 65536" using uint_bounded [of p] uint_ge_0 [of p] by (simp, linarith, simp)
  show "FromN (uint p) \<noteq> []" using b by (simp add: FromN_def)
  show "length (FromN (uint p)) \<le> 5" using FromN_length [of "uint p" 5] b by simp
  show "stoi (FromN (uint p)) = Some (uint p)" using b by (intro stoi_FromN) simp_all
qed

text \<open>
  C38: an address printed by \<^verbatim>\<open>ToString\<close> is read back by \<^verbatim>\<open>ParseNetFromString\<close>, when \<^verbatim>\<open>inet_addr\<close> reads what
  \<^verbatim>\<open>inet_ntoa\<close> prints: the same family, port and address.
\<close>

theorem Addr_parse_print:
  assumes "inet_law inet_addr inet_ntoa" "sin_family a = AF_INET"
  shows "ParseNetFromString inet_addr (Addr_ToString inet_ntoa a) net = Some (ERR_OK, a)"
proof -
  let ?ip = "inet_ntoa (s_addr a)" and ?p = "FromN (uint (htons (sin_port a)))"
  let ?s = "?ip @ CHR '':'' # ?p"
  have law: "inet_addr ?ip = s_addr a" "set ?ip \<subseteq> set ''1234567890.''" "length ?ip \<le> 15"
    using assms(1) by (simp_all add: inet_law_def)
  have f: "str_find ?s '':'' 0 = Some (length ?ip)"
    using law(2) by (subst str_find_0, intro str_index_append_key) auto
  have sub: "str_substr ?s (length ?ip + 1) npos = Some ?p"
    using port_text(2) [of "htons (sin_port a)"] by (simp add: str_substr_def npos_def)
  have "length ?s > 0" by simp
  then have "size_sub (length ?s) 1 = length ?s - 1" by (intro size_sub_le) simp
  with port_text(1) [of "htons (sin_port a)"] have "length ?ip \<noteq> size_sub (length ?s) 1" by simp
  moreover have "IsAllDigitAndDos ?ip" using law(2) by (simp only: IsAllDigitAndDos_def find_first_not_of_None)
  ultimately show ?thesis
    using f sub law(1) assms(2) port_text(3) [of "htons (sin_port a)"]
    by (simp add: ParseNetFromString_def Addr_ToString_def GetAddrInfo_def SetupNetWithIpString_def net_zero_def)
qed

text \<open>For the witness: addresses of two bytes, printed as a decimal number.\<close>

definition dec_ntoa :: "HUN \<Rightarrow> string" where
  "dec_ntoa a = FromN (uint a)"

definition dec_addr :: "string \<Rightarrow> HUN" where
  "dec_addr s = word_of_int (digits_value s)"

lemma dec_inet_law: "inet_law dec_addr dec_ntoa"
  unfolding inet_law_def
proof (intro allI conjI)
  fix a :: HUN
  have b: "0 \<le> uint a" "uint a < 10 ^ 10" using uint_bounded [of a] by simp_all
  show "dec_addr (dec_ntoa a) = a" by (simp add: dec_addr_def dec_ntoa_def FromN_def digits_value_nat)
  show "set (dec_ntoa a) \<subseteq> set ''1234567890.''"
  proof
    fix c
    assume "c \<in> set (dec_ntoa a)"
    then have "is_digit c" using nat_digits_all b by (simp add: dec_ntoa_def FromN_def)
    then show "c \<in> set ''1234567890.''" unfolding is_digit_chars by simp blast
  qed
  show "length (dec_ntoa a) \<le> 15" using FromN_length [of "uint a" 10] b by (simp add: dec_ntoa_def)
qed

theorem Addr_parse_print_witness:
  "ParseNetFromString dec_addr (Addr_ToString dec_ntoa \<lparr>sin_family = AF_INET, sin_port = 80, s_addr = 16777343\<rparr>) net_zero =
     Some (ERR_OK, \<lparr>sin_family = AF_INET, sin_port = 80, s_addr = 16777343\<rparr>)"
  by (rule Addr_parse_print [OF dec_inet_law]) simp

subsection \<open>Texts of addresses\<close>

text \<open>A part of a dotted address: digits whose number is at most 255.\<close>

definition ip_part :: "string \<Rightarrow> bool" where
  "ip_part p \<longleftrightarrow> p \<noteq> [] \<and> list_all is_digit p \<and> digits_value p \<le> 255"

lemma digits_value_nonneg: "0 \<le> digits_value ds"
proof -
  have "0 \<le> n \<Longrightarrow> 0 \<le> fold (\<lambda>d n. 10 * n + int (of_char d - 48)) ds n" for n :: int
    by (induction ds arbitrary: n) simp_all
  then show ?thesis by (simp add: digits_value_def)
qed

lemma stoi_digits:
  assumes "list_all is_digit p"
  shows "stoi p = (if p = [] \<or> digits_value p \<ge> 2 ^ 31 then None else Some (digits_value p))"
proof (cases p)
  case (Cons c cs)
  then have "\<not> is_blank c" "c \<noteq> CHR ''-''" "c \<noteq> CHR ''+''" using assms is_digit_not by auto
  moreover have "takeWhile is_digit p = p" using assms by (simp add: takeWhile_eq_all_conv list_all_iff)
  moreover have "\<not> digits_value p < - 2147483648" using digits_value_nonneg [of p] by linarith
  ultimately show ?thesis using Cons by (simp add: stoi_def Let_def)
qed (simp add: stoi_def)

lemma ip_nums_True: "ip_nums ncs = Some True \<longleftrightarrow> list_all ip_part ncs"
proof (induction ncs)
  case (Cons p ncs)
  then show ?case
    using digits_value_nonneg [of p] by (auto simp: IsAllDigit_iff stoi_digits ip_part_def)
qed simp

lemma IsIp4Str_split:
  assumes "length s \<le> 15" "s \<noteq> []"
  shows "IsIp4Str s = (if length (split_ref ''.'' s) \<noteq> 4 then Some False else ip_nums (split_ref ''.'' s))"
  using assms HStr_Split_ref [of s "''.''" 0 "[]"] by (simp add: IsIp4Str_def npos_def)

lemma join_nonempty: "ps \<noteq> [] \<Longrightarrow> list_all ip_part ps \<Longrightarrow> join_by key ps \<noteq> []"
  by (cases ps rule: remdups_adj.cases) (auto simp: ip_part_def)

lemma ip_part_no_dot: "ip_part p \<Longrightarrow> CHR ''.'' \<notin> set p"
  by (auto simp: ip_part_def list_all_iff is_digit_def)

text \<open>
  \<^verbatim>\<open>IsIp4Str\<close> answers yes exactly for texts of at most 15 characters that are four decimal numbers up to 255
  with dots between them.
\<close>

theorem IsIp4Str_spec:
  "IsIp4Str s = Some True \<longleftrightarrow>
     length s \<le> 15 \<and> (\<exists>ps. length ps = 4 \<and> list_all ip_part ps \<and> s = join_by ''.'' ps)"
proof (cases "length s \<le> 15 \<and> s \<noteq> []")
  case True
  have "length (split_ref ''.'' s) = 4 \<and> list_all ip_part (split_ref ''.'' s) \<longleftrightarrow>
      (\<exists>ps. length ps = 4 \<and> list_all ip_part ps \<and> s = join_by ''.'' ps)"
  proof
    assume "\<exists>ps. length ps = 4 \<and> list_all ip_part ps \<and> s = join_by ''.'' ps"
    then obtain ps where ps: "length ps = 4" "list_all ip_part ps" "s = join_by ''.'' ps" by blast
    then have "split_ref ''.'' s = ps"
      using split_ref_join [of ps "CHR ''.''"] ip_part_no_dot by (fastforce simp: list_all_iff)
    with ps show "length (split_ref ''.'' s) = 4 \<and> list_all ip_part (split_ref ''.'' s)" by simp
  qed (metis join_split_ref)
  with True show ?thesis by (auto simp: IsIp4Str_split ip_nums_True)
next
  case False
  moreover have "IsIp4Str [] = Some False" by (simp add: IsIp4Str_def HStr_Split_def)
  moreover have "\<not> (\<exists>ps. length ps = 4 \<and> list_all ip_part ps \<and> [] = join_by ''.'' ps)"
    using join_nonempty by (metis list.size(3) zero_neq_numeral)
  ultimately show ?thesis by (auto simp: IsIp4Str_def)
qed

lemma IsIp4Str_throws: "IsIp4Str ''1..2.3'' = None"
proof -
  have "split_ref ''.'' ''1..2.3'' = [''1'', [], ''2'', ''3'']"
    using split_ref_join [of "[''1'', [], ''2'', ''3'']" "CHR ''.''"] by simp
  then show ?thesis by (simp add: IsIp4Str_split stoi_digits IsAllDigit_iff is_digit_def digits_value_def)
qed

subsection \<open>The first usable interface\<close>

definition usable :: "ifaddrs \<Rightarrow> bool" where
  "usable p \<longleftrightarrow> ifa_up p \<and> \<not> ifa_loopback p \<and> (\<exists>a. ifa_addr p = Some a \<and> sin_family a = AF_INET \<and>
     htonl (s_addr a) \<notin> {0x7F000001, 0, NOT 0})"

lemma ifaddrs_loop_keeps: "sin_family ss = AF_INET \<Longrightarrow> s_addr ss \<noteq> 0 \<Longrightarrow> ifaddrs_loop ps ss = ss"
  by (induction ps) (auto simp: addressIsNull_def split: option.split)

lemma ifaddrs_loop_first:
  assumes "sin_family ss = AF_INET" "s_addr ss = 0"
  shows "ifaddrs_loop ps ss = (case find usable ps of None \<Rightarrow> ss | Some p \<Rightarrow> ss\<lparr>s_addr := s_addr (the (ifa_addr p))\<rparr>)"
proof (induction ps)
  case (Cons p ps)
  have upd: "ss\<lparr>sin_family := AF_INET\<rparr> = ss" using assms(1) by simp
  show ?case
  proof (cases "usable p")
    case True
    then obtain a where a: "ifa_up p" "\<not> ifa_loopback p" "ifa_addr p = Some a" "sin_family a = AF_INET" "\<not> isBadAddressForUs a"
      by (auto simp: usable_def isBadAddressForUs_def is_bad_address4_for_us_def Let_def)
    then have "s_addr a \<noteq> 0" by (auto simp: isBadAddressForUs_def is_bad_address4_for_us_def)
    with a True assms show ?thesis by (simp add: addressIsNull_def copyAddress_def ifaddrs_loop_keeps upd)
  next
    case False
    then have "\<not> ifa_up p \<or> ifa_loopback p \<or> (case ifa_addr p of None \<Rightarrow> True | Some a \<Rightarrow> isBadAddressForUs a)"
      by (auto simp: usable_def isBadAddressForUs_def is_bad_address4_for_us_def Let_def split: option.split)
    with Cons False show ?thesis by (auto split: option.split_asm)
  qed
qed simp

text \<open>
  \<^verbatim>\<open>GetLocalAddr\<close> takes the address of the first interface that is up, is no loopback and has an Internet address
  other than 127.0.0.1, 0.0.0.0 and 255.255.255.255, and the address 0.0.0.0 when there is none.
\<close>

theorem GetLocalAddr_first:
  "GetLocalAddr (Some ps) ss =
     ss\<lparr>sin_family := AF_INET,
        s_addr := (case find usable ps of None \<Rightarrow> 0 | Some p \<Rightarrow> s_addr (the (ifa_addr p)))\<rparr>"
  by (simp add: GetLocalAddr_def ifaddrs_loop_first split: option.split)

end
