(* ===== verification/Rgb_Image.thy ===== *)
theory Rgb_Image
  imports Outcome
begin

text \<open>
  Colour images: \<^verbatim>\<open>src/src/image/hrgb.h\<close> and \<^verbatim>\<open>hrgb.cpp\<close>, with the conversions from three layouts of YUV data.

  A pointer to data is the block it points to. \<open>malloc\<close> gives the block for a size, with whatever it contains, or \<open>None\<close>.
  Reading or writing outside a block and signed overflow of an index are \<open>Stuck\<close>.
\<close>

subsection \<open>Loops and memory\<close>

text \<open>\<^verbatim>\<open>for (i; i < n; ++i)\<close>.\<close>

function for_upto :: "(int \<Rightarrow> 's \<Rightarrow> 's run) \<Rightarrow> int \<Rightarrow> int \<Rightarrow> 's \<Rightarrow> 's run" where
  "for_upto body i n s = (if i < n then run_bind (body i s) (\<lambda>s. for_upto body (i + 1) n s) else Ret s)"
  by pat_completeness auto
termination by (relation "measure (\<lambda>(_, i, n, _). nat (n - i))") auto

declare for_upto.simps [simp del]

definition byte_at :: "HMEM \<Rightarrow> int \<Rightarrow> int run" where
  "byte_at m i = (if 0 \<le> i \<and> nat i < length m then Ret (uint (m ! nat i)) else Stuck)"

definition byte_put :: "HMEM \<Rightarrow> int \<Rightarrow> int \<Rightarrow> HMEM run" where
  "byte_put m i v = (if 0 \<le> i \<and> nat i < length m then Ret (m[nat i := word_of_int v]) else Stuck)"

subsection \<open>The class\<close>

record HRgb =
  m_nWidth :: HUN
  m_nHeight :: HUN
  m_pData :: "HMEM option"

definition HRgb_zero :: HRgb where
  "HRgb_zero = \<lparr>m_nWidth = 0, m_nHeight = 0, m_pData = None\<rparr>"

definition HRgb_Size :: "HRgb \<Rightarrow> HUN" where
  "HRgb_Size r = m_nWidth r * m_nHeight r * 3"

definition HRgb_new :: "(nat \<Rightarrow> HMEM option) \<Rightarrow> HUN \<Rightarrow> HUN \<Rightarrow> HMEM option \<Rightarrow> HRgb run" where
  "HRgb_new malloc nWidth nHeight ptr =
     (let r = \<lparr>m_nWidth = nWidth, m_nHeight = nHeight, m_pData = ptr\<rparr>
      in case ptr of
           Some _ \<Rightarrow> Ret r
         | None \<Rightarrow> let p = malloc (unat (HRgb_Size r))
                   in HASSERT_THROW (p \<noteq> None) MEMORY_OUT (Ret (r\<lparr>m_pData := p\<rparr>)))"

definition HRgb_Release :: "HRgb \<Rightarrow> HRgb" where
  "HRgb_Release r = r\<lparr>m_pData := None, m_nWidth := 0, m_nHeight := 0\<rparr>"

text \<open>Moving gives the new object and the one that was moved from.\<close>

definition HRgb_move :: "HRgb \<Rightarrow> HRgb \<times> HRgb" where
  "HRgb_move oth = (\<lparr>m_nWidth = m_nWidth oth, m_nHeight = m_nHeight oth, m_pData = m_pData oth\<rparr>, HRgb_Release oth)"

definition HRgb_assign :: "HRgb \<Rightarrow> HRgb \<Rightarrow> HRgb \<times> HRgb" where
  "HRgb_assign this oth =
     (this\<lparr>m_nWidth := m_nWidth oth, m_nHeight := m_nHeight oth, m_pData := m_pData oth\<rparr>, HRgb_Release oth)"

definition HRgb_IsInvalid :: "HRgb \<Rightarrow> bool" where
  "HRgb_IsInvalid r \<longleftrightarrow> m_nWidth r > 0 \<and> m_nHeight r > 0 \<and> m_pData r \<noteq> None"

subsection \<open>NV21\<close>

text \<open>\<^verbatim>\<open>>> 8\<close> of a signed number rounds down.\<close>

definition clip :: "int \<Rightarrow> int" where
  "clip r = (if r > 255 then 255 else if r < 0 then 0 else r)"

definition put3 :: "HMEM \<Rightarrow> int \<Rightarrow> int \<times> int \<times> int \<Rightarrow> HMEM run" where
  "put3 m i = (\<lambda>(a, b, c). run_bind (byte_put m i a) (\<lambda>m. run_bind (byte_put m (i + 1) b) (\<lambda>m. byte_put m (i + 2) c)))"

definition NV21_pixel :: "HMEM \<Rightarrow> int \<Rightarrow> int \<Rightarrow> int \<Rightarrow> int \<Rightarrow> HMEM \<Rightarrow> HMEM run" where
  "NV21_pixel data nv_off iWidth i j d =
     (let y_index = j; nv_index = i div 2 * iWidth + j - j mod 2
      in run_bind (HN_arith (i div 2 * iWidth + j)) (\<lambda>_.
         run_bind (byte_at data y_index) (\<lambda>y.
         run_bind (byte_at data (nv_off + nv_index)) (\<lambda>u.
         run_bind (HN_arith (nv_off + nv_index + 1)) (\<lambda>i1.
         run_bind (byte_at data i1) (\<lambda>v.
           let r = y + (351 * (v - 128)) div 256;
               g = y - (179 * (v - 128) + 86 * (u - 128)) div 256;
               b = y + (443 * (u - 128)) div 256
           in run_bind (HN_arith (y_index * 3 + 2)) (\<lambda>_. put3 d (y_index * 3) (clip b, clip g, clip r))))))))"

definition with_data :: "HRgb run \<Rightarrow> (HMEM \<Rightarrow> HMEM run) \<Rightarrow> HRgb run" where
  "with_data new body =
     run_bind new (\<lambda>res. case m_pData res of
       None \<Rightarrow> Stuck | Some d \<Rightarrow> run_bind (body d) (\<lambda>d. Ret (res\<lparr>m_pData := Some d\<rparr>)))"

definition FromNV21 :: "(nat \<Rightarrow> HMEM option) \<Rightarrow> HMEM \<Rightarrow> HUN \<Rightarrow> HUN \<Rightarrow> HRgb run" where
  "FromNV21 malloc data nWidth nHeight =
     (let nv_off = sint (nWidth * nHeight); iWidth = sint nWidth; iHeight = sint nHeight
      in with_data (HRgb_new malloc nWidth nHeight None)
           (for_upto (\<lambda>i. for_upto (\<lambda>j. NV21_pixel data nv_off iWidth i j) 0 iWidth) 0 iHeight))"

subsection \<open>YUV 420, planar\<close>

definition Table_fv1 :: "int list" where
  "Table_fv1 =
     [- 180, - 179, - 177, - 176, - 174, - 173, - 172, - 170, - 169, - 167, - 166, - 165, - 163, - 162, - 160,
      - 159, - 158, - 156, - 155, - 153, - 152, - 151, - 149, - 148, - 146, - 145, - 144, - 142, - 141, - 139,
      - 138, - 137, - 135, - 134, - 132, - 131, - 130, - 128, - 127, - 125, - 124, - 123, - 121, - 120, - 118,
      - 117, - 115, - 114, - 113, - 111, - 110, - 108, - 107, - 106, - 104, - 103, - 101, - 100, - 99, - 97,
      - 96, - 94, - 93, - 92, - 90, - 89, - 87, - 86, - 85, - 83, - 82, - 80, - 79, - 78, - 76, - 75, - 73,
      - 72, - 71, - 69, - 68, - 66, - 65, - 64, - 62, - 61, - 59, - 58, - 57, - 55, - 54, - 52, - 51, - 50,
      - 48, - 47, - 45, - 44, - 43, - 41, - 40, - 38, - 37, - 36, - 34, - 33, - 31, - 30, - 29, - 27, - 26,
      - 24, - 23, - 22, - 20, - 19, - 17, - 16, - 15, - 13, - 12, - 10, - 9, - 8, - 6, - 5, - 3, - 2, 0, 1,
      2, 4, 5, 7, 8, 9, 11, 12, 14, 15, 16, 18, 19, 21, 22, 23, 25, 26, 28, 29, 30, 32, 33, 35, 36, 37, 39,
      40, 42, 43, 44, 46, 47, 49, 50, 51, 53, 54, 56, 57, 58, 60, 61, 63, 64, 65, 67, 68, 70, 71, 72, 74, 75,
      77, 78, 79, 81, 82, 84, 85, 86, 88, 89, 91, 92, 93, 95, 96, 98, 99, 100, 102, 103, 105, 106, 107, 109,
      110, 112, 113, 114, 116, 117, 119, 120, 122, 123, 124, 126, 127, 129, 130, 131, 133, 134, 136, 137, 138,
      140, 141, 143, 144, 145, 147, 148, 150, 151, 152, 154, 155, 157, 158, 159, 161, 162, 164, 165, 166, 168,
      169, 171, 172, 173, 175, 176, 178]"

definition Table_fv2 :: "int list" where
  "Table_fv2 =
     [- 92, - 91, - 91, - 90, - 89, - 88, - 88, - 87, - 86, - 86, - 85, - 84, - 83, - 83, - 82, - 81, - 81,
      - 80, - 79, - 78, - 78, - 77, - 76, - 76, - 75, - 74, - 73, - 73, - 72, - 71, - 71, - 70, - 69, - 68,
      - 68, - 67, - 66, - 66, - 65, - 64, - 63, - 63, - 62, - 61, - 61, - 60, - 59, - 58, - 58, - 57, - 56,
      - 56, - 55, - 54, - 53, - 53, - 52, - 51, - 51, - 50, - 49, - 48, - 48, - 47, - 46, - 46, - 45, - 44,
      - 43, - 43, - 42, - 41, - 41, - 40, - 39, - 38, - 38, - 37, - 36, - 36, - 35, - 34, - 33, - 33, - 32,
      - 31, - 31, - 30, - 29, - 28, - 28, - 27, - 26, - 26, - 25, - 24, - 23, - 23, - 22, - 21, - 21, - 20,
      - 19, - 18, - 18, - 17, - 16, - 16, - 15, - 14, - 13, - 13, - 12, - 11, - 11, - 10, - 9, - 8, - 8, - 7,
      - 6, - 6, - 5, - 4, - 3, - 3, - 2, - 1, 0, 0, 1, 2, 2, 3, 4, 5, 5, 6, 7, 7, 8, 9, 10, 10, 11, 12, 12,
      13, 14, 15, 15, 16, 17, 17, 18, 19, 20, 20, 21, 22, 22, 23, 24, 25, 25, 26, 27, 27, 28, 29, 30, 30, 31,
      32, 32, 33, 34, 35, 35, 36, 37, 37, 38, 39, 40, 40, 41, 42, 42, 43, 44, 45, 45, 46, 47, 47, 48, 49, 50,
      50, 51, 52, 52, 53, 54, 55, 55, 56, 57, 57, 58, 59, 60, 60, 61, 62, 62, 63, 64, 65, 65, 66, 67, 67, 68,
      69, 70, 70, 71, 72, 72, 73, 74, 75, 75, 76, 77, 77, 78, 79, 80, 80, 81, 82, 82, 83, 84, 85, 85, 86, 87,
      87, 88, 89, 90, 90]"

definition Table_fu1 :: "int list" where
  "Table_fu1 =
     [- 44, - 44, - 44, - 43, - 43, - 43, - 42, - 42, - 42, - 41, - 41, - 41, - 40, - 40, - 40, - 39, - 39,
      - 39, - 38, - 38, - 38, - 37, - 37, - 37, - 36, - 36, - 36, - 35, - 35, - 35, - 34, - 34, - 33, - 33,
      - 33, - 32, - 32, - 32, - 31, - 31, - 31, - 30, - 30, - 30, - 29, - 29, - 29, - 28, - 28, - 28, - 27,
      - 27, - 27, - 26, - 26, - 26, - 25, - 25, - 25, - 24, - 24, - 24, - 23, - 23, - 22, - 22, - 22, - 21,
      - 21, - 21, - 20, - 20, - 20, - 19, - 19, - 19, - 18, - 18, - 18, - 17, - 17, - 17, - 16, - 16, - 16,
      - 15, - 15, - 15, - 14, - 14, - 14, - 13, - 13, - 13, - 12, - 12, - 11, - 11, - 11, - 10, - 10, - 10,
      - 9, - 9, - 9, - 8, - 8, - 8, - 7, - 7, - 7, - 6, - 6, - 6, - 5, - 5, - 5, - 4, - 4, - 4, - 3, - 3, - 3,
      - 2, - 2, - 2, - 1, - 1, 0, 0, 0, 1, 1, 1, 2, 2, 2, 3, 3, 3, 4, 4, 4, 5, 5, 5, 6, 6, 6, 7, 7, 7, 8, 8,
      8, 9, 9, 9, 10, 10, 11, 11, 11, 12, 12, 12, 13, 13, 13, 14, 14, 14, 15, 15, 15, 16, 16, 16, 17, 17, 17,
      18, 18, 18, 19, 19, 19, 20, 20, 20, 21, 21, 22, 22, 22, 23, 23, 23, 24, 24, 24, 25, 25, 25, 26, 26, 26,
      27, 27, 27, 28, 28, 28, 29, 29, 29, 30, 30, 30, 31, 31, 31, 32, 32, 33, 33, 33, 34, 34, 34, 35, 35, 35,
      36, 36, 36, 37, 37, 37, 38, 38, 38, 39, 39, 39, 40, 40, 40, 41, 41, 41, 42, 42, 42, 43, 43]"

definition Table_fu2 :: "int list" where
  "Table_fu2 =
     [- 227, - 226, - 224, - 222, - 220, - 219, - 217, - 215, - 213, - 212, - 210, - 208, - 206, - 204, - 203,
      - 201, - 199, - 197, - 196, - 194, - 192, - 190, - 188, - 187, - 185, - 183, - 181, - 180, - 178, - 176,
      - 174, - 173, - 171, - 169, - 167, - 165, - 164, - 162, - 160, - 158, - 157, - 155, - 153, - 151, - 149,
      - 148, - 146, - 144, - 142, - 141, - 139, - 137, - 135, - 134, - 132, - 130, - 128, - 126, - 125, - 123,
      - 121, - 119, - 118, - 116, - 114, - 112, - 110, - 109, - 107, - 105, - 103, - 102, - 100, - 98, - 96,
      - 94, - 93, - 91, - 89, - 87, - 86, - 84, - 82, - 80, - 79, - 77, - 75, - 73, - 71, - 70, - 68, - 66,
      - 64, - 63, - 61, - 59, - 57, - 55, - 54, - 52, - 50, - 48, - 47, - 45, - 43, - 41, - 40, - 38, - 36,
      - 34, - 32, - 31, - 29, - 27, - 25, - 24, - 22, - 20, - 18, - 16, - 15, - 13, - 11, - 9, - 8, - 6, - 4,
      - 2, 0, 1, 3, 5, 7, 8, 10, 12, 14, 15, 17, 19, 21, 23, 24, 26, 28, 30, 31, 33, 35, 37, 39, 40, 42, 44,
      46, 47, 49, 51, 53, 54, 56, 58, 60, 62, 63, 65, 67, 69, 70, 72, 74, 76, 78, 79, 81, 83, 85, 86, 88, 90,
      92, 93, 95, 97, 99, 101, 102, 104, 106, 108, 109, 111, 113, 115, 117, 118, 120, 122, 124, 125, 127, 129,
      131, 133, 134, 136, 138, 140, 141, 143, 145, 147, 148, 150, 152, 154, 156, 157, 159, 161, 163, 164, 166,
      168, 170, 172, 173, 175, 177, 179, 180, 182, 184, 186, 187, 189, 191, 193, 195, 196, 198, 200, 202, 203,
      205, 207, 209, 211, 212, 214, 216, 218, 219, 221, 223, 225]"

definition bgr_byte :: "int \<Rightarrow> int" where
  "bgr_byte c = (if c \<ge> 0 \<and> c \<le> 255 then c else if c < 0 then 0 else 255)"

definition Yuv420_pixel :: "HMEM \<Rightarrow> int \<Rightarrow> int \<Rightarrow> int \<Rightarrow> int \<Rightarrow> HMEM \<Rightarrow> HMEM run" where
  "Yuv420_pixel data len iWidth i j d =
     (let yIdx = i * iWidth + j; vIdx = (i div 2) * (iWidth div 2) + (j div 2); uIdx = vIdx
      in run_bind (HN_arith ((i * iWidth + j) * 3 + 2)) (\<lambda>_.
         run_bind (byte_at data (len + vIdx)) (\<lambda>v.
         run_bind (byte_at data (len + len div 4 + uIdx)) (\<lambda>u.
         run_bind (byte_at data yIdx) (\<lambda>y.
           let rdif = Table_fv1 ! nat v;
               invgdif = Table_fu1 ! nat u + Table_fv2 ! nat v;
               bdif = Table_fu2 ! nat u
           in put3 d ((i * iWidth + j) * 3) (bgr_byte (y + bdif), bgr_byte (y - invgdif), bgr_byte (y + rdif)))))))"

definition FromYuv420 :: "(nat \<Rightarrow> HMEM option) \<Rightarrow> HMEM \<Rightarrow> HUN \<Rightarrow> HUN \<Rightarrow> HRgb run" where
  "FromYuv420 malloc data nWidth nHeight =
     (let len = sint (nWidth * nHeight); iWidth = sint nWidth; iHeight = sint nHeight
      in with_data (HRgb_new malloc nWidth nHeight None)
           (for_upto (\<lambda>i. for_upto (\<lambda>j. Yuv420_pixel data len iWidth i j) 0 iWidth) 0 iHeight))"

subsection \<open>YUV 420, semi-planar\<close>

text \<open>The state of the loops: the data of the result, \<^verbatim>\<open>yuvPixel\<close> and \<^verbatim>\<open>rgbPixel\<close> as positions.\<close>

definition Yuv420sp_pixel ::
  "HMEM \<Rightarrow> int \<Rightarrow> int \<Rightarrow> int \<Rightarrow> int \<Rightarrow> HMEM \<times> int \<times> int \<Rightarrow> (HMEM \<times> int \<times> int) run" where
  "Yuv420sp_pixel data uHeader half_width j i = (\<lambda>(d, yuvPixel, rgbPixel).
     run_bind (byte_at data yuvPixel) (\<lambda>y.
     run_bind (HN_arith ((i div 2 + (j div 2 * half_width)) * 2)) (\<lambda>k.
     run_bind (byte_at data (uHeader + k)) (\<lambda>u.
     run_bind (byte_at data (uHeader + k + 1)) (\<lambda>v.
       let r = y + (360 * (v - 128)) div 256;
           g = y - (88 * (u - 128) + 184 * (v - 128)) div 256;
           b = y + (455 * (u - 128)) div 256
       in run_bind (put3 d rgbPixel (clip r, clip g, clip b)) (\<lambda>d. Ret (d, yuvPixel + 1, rgbPixel + 3)))))))"

definition FromYuv420sp :: "(nat \<Rightarrow> HMEM option) \<Rightarrow> HMEM \<Rightarrow> HUN \<Rightarrow> HUN \<Rightarrow> HRgb run" where
  "FromYuv420sp malloc data nWidth nHeight =
     (let uHeader = uint (nWidth * nHeight); iWidth = sint nWidth; iHeight = sint nHeight; half_width = iWidth div 2
      in with_data (HRgb_new malloc nWidth nHeight None)
           (\<lambda>d. run_bind (for_upto (\<lambda>j. for_upto (\<lambda>i. Yuv420sp_pixel data uHeader half_width j i) 0 iWidth) 0 iHeight (d, 0, 0))
              (\<lambda>(d, _, _). Ret d)))"

subsection \<open>Loops that fill an image\<close>

lemma for_upto_inv:
  assumes "P i s" "i \<le> n" "\<And>k s. i \<le> k \<Longrightarrow> k < n \<Longrightarrow> P k s \<Longrightarrow> \<exists>s'. body k s = Ret s' \<and> P (k + 1) s'"
  shows "\<exists>s'. for_upto body i n s = Ret s' \<and> P n s'"
  using assms
proof (induction body i n s rule: for_upto.induct)
  case (1 body i n s)
  show ?case
  proof (cases "i < n")
    case True
    then obtain s1 where s1: "body i s = Ret s1" "P (i + 1) s1" using "1.prems" by blast
    have "\<exists>s'. for_upto body (i + 1) n s1 = Ret s' \<and> P n s'"
      using s1 True "1.prems"(3) by (intro "1.IH" [OF True]) (auto simp: s1)
    then show ?thesis using True s1 by (subst for_upto.simps) simp
  next
    case False
    then show ?thesis using "1.prems" by (subst for_upto.simps) simp
  qed
qed

lemma for_upto_empty: "n \<le> i \<Longrightarrow> for_upto body i n s = Ret s"
  by (simp add: for_upto.simps)

text \<open>Two nested loops over the pixels of a picture, in order.\<close>

lemma for_for_inv:
  assumes P: "P 0 s" and wh: "0 \<le> w" "0 \<le> h"
    and step: "\<And>i j s. 0 \<le> i \<Longrightarrow> i < h \<Longrightarrow> 0 \<le> j \<Longrightarrow> j < w \<Longrightarrow> P (i * w + j) s \<Longrightarrow>
      \<exists>s'. body i j s = Ret s' \<and> P (i * w + j + 1) s'"
  shows "\<exists>s'. for_upto (\<lambda>i. for_upto (\<lambda>j. body i j) 0 w) 0 h s = Ret s' \<and> P (h * w) s'"
proof (rule for_upto_inv [where P = "\<lambda>i. P (i * w)"])
  show "\<exists>s'. for_upto (\<lambda>j. body k j) 0 w s = Ret s' \<and> P ((k + 1) * w) s'" if k: "0 \<le> k" "k < h" "P (k * w) s" for k s
  proof -
    have "\<exists>s'. for_upto (\<lambda>j. body k j) 0 w s = Ret s' \<and> P (k * w + w) s'"
      using k wh step [OF k(1,2)] by (intro for_upto_inv [where P = "\<lambda>j. P (k * w + j)"]) (auto simp: add.assoc)
    then show ?thesis by (simp add: algebra_simps)
  qed
qed (use P wh in simp_all)

text \<open>A picture of \<open>n\<close> pixels whose first \<open>p\<close> are done.\<close>

definition bytes3 :: "int \<times> int \<times> int \<Rightarrow> HMEM" where
  "bytes3 = (\<lambda>(a, b, c). [word_of_int a, word_of_int b, word_of_int c])"

definition filled :: "(int \<Rightarrow> int \<times> int \<times> int) \<Rightarrow> int \<Rightarrow> nat \<Rightarrow> HMEM \<Rightarrow> bool" where
  "filled pix p len d \<longleftrightarrow> length d = len \<and> take (3 * nat p) d = concat (map (\<lambda>k. bytes3 (pix (int k))) [0..<nat p])"

lemma filled_0: "length d = len \<Longrightarrow> filled pix 0 len d"
  by (simp add: filled_def)

lemma bytes3_length [simp]: "length (bytes3 abc) = 3"
  by (simp add: bytes3_def split: prod.split)

lemma update3: "k + 3 \<le> length d \<Longrightarrow> d[k := x, Suc k := y, Suc (Suc k) := z] = take k d @ [x, y, z] @ drop (Suc (Suc (Suc k))) d"
proof (induction d arbitrary: k)
  case (Cons e d)
  then show ?case
  proof (cases k)
    case 0
    with Cons.prems obtain f g d' where "d = f # g # d'" by (cases d rule: remdups_adj.cases) auto
    with 0 show ?thesis by simp
  qed simp
qed simp

lemma put3_at:
  assumes "0 \<le> q" "nat q + 3 \<le> length d"
  shows "put3 d q abc = Ret (take (nat q) d @ bytes3 abc @ drop (nat q + 3) d)"
proof -
  have n: "nat (q + 1) = Suc (nat q)" "nat (q + 2) = Suc (Suc (nat q))" using assms(1) by auto
  obtain a b c where abc: "abc = (a, b, c)" by (cases abc)
  show ?thesis using assms update3 [OF assms(2)] by (simp add: put3_def byte_put_def abc bytes3_def n numeral_3_eq_3)
qed

lemma put3_Ret:
  assumes "0 \<le> p" "3 * nat p + 3 \<le> length d"
  shows "put3 d (3 * p) abc = Ret (take (3 * nat p) d @ bytes3 abc @ drop (3 * nat p + 3) d)"
  using assms put3_at [of "3 * p" d abc] by (simp add: nat_mult_distrib)

lemma filled_step:
  assumes "filled pix p len d" "0 \<le> p" "3 * nat p + 3 \<le> len"
  shows "\<exists>d'. put3 d (3 * p) (pix p) = Ret d' \<and> filled pix (p + 1) len d'"
proof -
  let ?d' = "take (3 * nat p) d @ bytes3 (pix p) @ drop (3 * nat p + 3) d"
  have n: "nat (p + 1) = Suc (nat p)" using assms(2) by auto
  have l: "length d = len" and t: "take (3 * nat p) d = concat (map (\<lambda>k. bytes3 (pix (int k))) [0..<nat p])"
    using assms(1) by (simp_all add: filled_def)
  have "take (3 * nat (p + 1)) ?d' = take (3 * nat p) d @ bytes3 (pix p)" using assms(3) l by (simp add: n)
  also have "\<dots> = concat (map (\<lambda>k. bytes3 (pix (int k))) [0..<nat (p + 1)])" using assms(2) t by (simp add: n)
  finally have "filled pix (p + 1) len ?d'" using assms(3) l by (simp add: filled_def)
  then show ?thesis using assms l by (auto simp: put3_Ret)
qed

lemma filled_split:
  assumes "filled pix p len d"
  shows "concat (map (\<lambda>k. bytes3 (pix (int k))) [0..<nat p]) @ drop (3 * nat p) d = d"
proof -
  have "take (3 * nat p) d = concat (map (\<lambda>k. bytes3 (pix (int k))) [0..<nat p])" using assms by (simp only: filled_def)
  from this [symmetric] show ?thesis by (simp only: append_take_drop_id)
qed

lemma filled_all:
  assumes "filled pix p len d" "len = 3 * nat p"
  shows "d = concat (map (\<lambda>k. bytes3 (pix (int k))) [0..<nat p])"
  using assms by (metis filled_def order_refl take_all)

text \<open>Pixels drawn anywhere in a block, at places that do not overlap.\<close>

definition pixel_at :: "HMEM \<Rightarrow> int \<Rightarrow> HMEM" where
  "pixel_at d q = take 3 (drop (nat q) d)"

definition drawn :: "(int \<Rightarrow> int \<Rightarrow> int) \<Rightarrow> (int \<Rightarrow> int \<Rightarrow> HMEM) \<Rightarrow> int \<Rightarrow> int \<Rightarrow> HMEM \<Rightarrow> bool" where
  "drawn A pix w n d \<longleftrightarrow> (\<forall>i j. 0 \<le> i \<longrightarrow> 0 \<le> j \<longrightarrow> j < w \<longrightarrow> i * w + j < n \<longrightarrow> pixel_at d (A i j) = pix i j)"

lemma drawn_0: "0 < w \<Longrightarrow> drawn A pix w 0 d"
  unfolding drawn_def
proof (intro allI impI)
  fix i j
  assume "0 < w" "0 \<le> i" "0 \<le> j" "i * w + j < 0"
  moreover from this have "0 \<le> i * w" by (intro mult_nonneg_nonneg) auto
  ultimately show "pixel_at d (A i j) = pix i j" by linarith
qed

lemma take_drop_append: "a + n \<le> length xs \<Longrightarrow> take n (drop a (xs @ ys)) = take n (drop a xs)"
  by simp

lemma take_drop_take: "a + n \<le> q \<Longrightarrow> take n (drop a (take q d)) = take n (drop a d)"
  by (simp add: drop_take min_def)

lemma pixel_at_put3:
  assumes "put3 d q abc = Ret d'" "0 \<le> q" "q + 3 \<le> int (length d)" "0 \<le> q'" "q' + 3 \<le> int (length d)"
  shows "q = q' \<Longrightarrow> pixel_at d' q' = bytes3 abc"
    and "q + 3 \<le> q' \<or> q' + 3 \<le> q \<Longrightarrow> pixel_at d' q' = pixel_at d q'" and "length d' = length d"
proof -
  have n: "nat q + 3 \<le> length d" "nat q' + 3 \<le> length d" using assms(2-5) by linarith+
  then have d': "d' = take (nat q) d @ bytes3 abc @ drop (nat q + 3) d" using assms(1,2) put3_at by simp
  show "pixel_at d' q' = bytes3 abc" if "q = q'" using n that by (simp add: pixel_at_def d')
  show "length d' = length d" using n by (simp add: d')
  have "pixel_at d' q' = pixel_at d q'" if "nat q + 3 \<le> nat q'" using n that by (simp add: pixel_at_def d')
  moreover have "pixel_at d' q' = pixel_at d q'" if "nat q' + 3 \<le> nat q"
    using n that take_drop_append [of "nat q'" 3 "take (nat q) d"] take_drop_take [of "nat q'" 3 "nat q" d]
    by (simp add: pixel_at_def d')
  ultimately show "pixel_at d' q' = pixel_at d q'" if "q + 3 \<le> q' \<or> q' + 3 \<le> q" using that assms(2,4) by linarith
qed

lemma drawn_step:
  assumes d: "drawn A (\<lambda>i j. bytes3 (pix i j)) w (i * w + j) d" and put: "put3 d (A i j) (pix i j) = Ret d'"
    and ij: "0 \<le> i" "i < h" "0 \<le> j" "j < w"
    and A: "\<And>i j. 0 \<le> i \<Longrightarrow> i < h \<Longrightarrow> 0 \<le> j \<Longrightarrow> j < w \<Longrightarrow> 0 \<le> A i j \<and> A i j + 3 \<le> int (length d)"
    and apart: "\<And>i' j'. 0 \<le> i' \<Longrightarrow> i' < h \<Longrightarrow> 0 \<le> j' \<Longrightarrow> j' < w \<Longrightarrow> (i', j') \<noteq> (i, j) \<Longrightarrow> A i j + 3 \<le> A i' j' \<or> A i' j' + 3 \<le> A i j"
  shows "drawn A (\<lambda>i j. bytes3 (pix i j)) w (i * w + j + 1) d'"
  unfolding drawn_def
proof (intro allI impI)
  fix i' j'
  assume ij': "0 \<le> i'" "0 \<le> j'" "j' < w" "i' * w + j' < i * w + j + 1"
  have "i' \<le> i"
  proof (rule ccontr)
    assume "\<not> i' \<le> i"
    then have "(i + 1) * w \<le> i' * w" using ij by (intro mult_right_mono) auto
    with ij' ij show False by (simp add: distrib_right)
  qed
  then have i': "i' < h" using ij by simp
  note a = A [OF ij] and a' = A [OF ij'(1) i' ij'(2,3)]
  show "pixel_at d' (A i' j') = bytes3 (pix i' j')"
  proof (cases "(i', j') = (i, j)")
    case True
    then have "A i j = A i' j'" "pix i j = pix i' j'" by simp_all
    then show ?thesis using pixel_at_put3(1) [OF put, of "A i' j'"] a a' by simp
  next
    case False
    have "i' * w + j' \<noteq> i * w + j"
    proof
      assume e: "i' * w + j' = i * w + j"
      have "(k * w + l) div w = k" "(k * w + l) mod w = l" if "0 \<le> l" "l < w" for k l using that by simp_all
      from this [OF ij(3,4)] this [OF ij'(2,3)] have "(i * w + j) div w = i" "(i * w + j) mod w = j"
        "(i' * w + j') div w = i'" "(i' * w + j') mod w = j'" by blast+
      with e False show False by metis
    qed
    then have "pixel_at d (A i' j') = bytes3 (pix i' j')" using d ij' by (simp add: drawn_def)
    then show ?thesis using pixel_at_put3(2) [OF put _ _ _ _ apart [OF ij'(1) i' ij'(2,3) False]] a a' by simp
  qed
qed

subsection \<open>YUV 420 against the formula\<close>

lemma tables:
  "Table_fv1 = map (\<lambda>v. (359 * (int v - 128)) div 256) [0..<256]"
  "Table_fv2 = map (\<lambda>v. (183 * (int v - 128)) div 256) [0..<256]"
  "Table_fu1 = map (\<lambda>v. (88 * (int v - 128)) div 256) [0..<256]"
  "Table_fu2 = map (\<lambda>v. (454 * (int v - 128)) div 256) [0..<256]"
  by code_simp+

lemma table_at:
  assumes "0 \<le> v" "v < 256"
  shows "Table_fv1 ! nat v = (359 * (v - 128)) div 256" "Table_fv2 ! nat v = (183 * (v - 128)) div 256"
    "Table_fu1 ! nat v = (88 * (v - 128)) div 256" "Table_fu2 ! nat v = (454 * (v - 128)) div 256"
proof -
  have "nat v < 256" using assms by simp
  then show "Table_fv1 ! nat v = (359 * (v - 128)) div 256" "Table_fv2 ! nat v = (183 * (v - 128)) div 256"
    "Table_fu1 ! nat v = (88 * (v - 128)) div 256" "Table_fu2 ! nat v = (454 * (v - 128)) div 256"
    using assms(1) by (simp_all only: tables nth_map nth_upt length_upt) simp_all
qed

lemma bgr_byte_clip: "bgr_byte = clip"
  by (auto simp: bgr_byte_def clip_def)

text \<open>The sizes of a picture that fits.\<close>

definition rgb_fits :: "HUN \<Rightarrow> HUN \<Rightarrow> bool" where
  "rgb_fits nWidth nHeight \<longleftrightarrow> 0 < nWidth \<and> 0 < nHeight \<and> 3 * (uint nWidth * uint nHeight) < 2 ^ 31"

lemma uint_HUN: "0 \<le> uint (a :: HUN)" "uint (a :: HUN) < 4294967296"
  using uint_bounded [of a] by simp_all

lemma sint_small: "uint (a :: HUN) < 2 ^ 31 \<Longrightarrow> sint a = uint a"
proof -
  assume "uint a < 2 ^ 31"
  moreover have "- 2147483648 \<le> uint a" using uint_ge_0 [of a] by linarith
  ultimately show "sint a = uint a" unfolding sint_uint by (intro signed_take_bit_int_eq_self) simp_all
qed

lemma rgb_fits_sizes:
  assumes "rgb_fits a b"
  shows "sint a = uint a" "sint b = uint b" "uint (a * b) = uint a * uint b" "sint (a * b) = uint a * uint b"
    "unat (a * b * 3) = 3 * nat (uint a * uint b)" "0 < uint a" "0 < uint b"
proof -
  have p: "0 < uint a" "0 < uint b" using assms by (simp_all add: rgb_fits_def word_less_def)
  have f: "3 * (uint a * uint b) < 2147483648" using assms by (simp add: rgb_fits_def)
  have "uint a * 1 \<le> uint a * uint b" "1 * uint b \<le> uint a * uint b" using p by (intro mult_mono; simp)+
  then have "uint a < 2147483648" "uint b < 2147483648" using f p by linarith+
  then show "sint a = uint a" "sint b = uint b" by (simp_all add: sint_small)
  show ab: "uint (a * b) = uint a * uint b" using f p by (simp add: uint_word_ariths(3) mod_pos_pos_trivial)
  with f p show "sint (a * b) = uint a * uint b" by (simp add: sint_small)
  have "uint (a * b * 3) = 3 * (uint a * uint b)"
    using f p ab by (simp add: uint_word_ariths(3) [of "a * b" 3] mod_pos_pos_trivial)
  then show "unat (a * b * 3) = 3 * nat (uint a * uint b)" by (metis nat_mult_distrib nat_numeral unat_eq_nat_uint zero_le_numeral)
  show "0 < uint a" "0 < uint b" by (fact p)+
qed

lemma with_data_new:
  assumes "rgb_fits a b" "malloc (3 * nat (uint a * uint b)) = Some d" "body d = Ret d'"
  shows "with_data (HRgb_new malloc a b None) body = Ret \<lparr>m_nWidth = a, m_nHeight = b, m_pData = Some d'\<rparr>"
  using assms rgb_fits_sizes(5) [OF assms(1)] by (simp add: with_data_def HRgb_new_def HRgb_Size_def)

definition byte_of :: "HMEM \<Rightarrow> int \<Rightarrow> int" where
  "byte_of m k = uint (m ! nat k)"

lemma byte_at_Ret: "0 \<le> k \<Longrightarrow> k < int (length m) \<Longrightarrow> byte_at m k = Ret (byte_of m k)"
  by (simp add: byte_at_def byte_of_def nat_less_iff)

lemma byte_of_range: "0 \<le> byte_of m k" "byte_of m k < 256"
  using uint_bounded [of "m ! nat k"] by (simp_all add: byte_of_def)

text \<open>Pixel \<open>p\<close> of planar data: the chrominance planes have half the width and height, V first.\<close>

definition chroma_index :: "int \<Rightarrow> int \<Rightarrow> int" where
  "chroma_index w p = (p div w div 2) * (w div 2) + p mod w div 2"

definition yuv420_bgr :: "HMEM \<Rightarrow> int \<Rightarrow> int \<Rightarrow> int \<Rightarrow> int \<times> int \<times> int" where
  "yuv420_bgr data w h p =
     (let y = byte_of data p;
          v = byte_of data (w * h + chroma_index w p) - 128;
          u = byte_of data (w * h + w * h div 4 + chroma_index w p) - 128
      in (clip (y + 454 * u div 256), clip (y - (88 * u div 256 + 183 * v div 256)), clip (y + 359 * v div 256)))"

lemma chroma_index_ij: "0 \<le> j \<Longrightarrow> j < w \<Longrightarrow> chroma_index w (i * w + j) = (i div 2) * (w div 2) + j div 2"
  by (simp add: chroma_index_def)

lemma chroma_bound:
  assumes "even w" "even h" "0 \<le> i" "i < h" "0 \<le> j" "j < (w :: int)"
  shows "0 \<le> (i div 2) * (w div 2) + j div 2" "(i div 2) * (w div 2) + j div 2 < w * h div 4"
    "4 * (w * h div 4) = w * h" "w * h div 2 = 2 * (w * h div 4)"
proof -
  obtain w' h' where wh: "w = 2 * w'" "h = 2 * h'" using assms(1,2) by (elim evenE)
  then have b: "0 \<le> i div 2" "i div 2 + 1 \<le> h'" "0 \<le> j div 2" "j div 2 < w'" using assms by auto
  then show "0 \<le> (i div 2) * (w div 2) + j div 2" using wh by simp
  have "(i div 2 + 1) * w' \<le> h' * w'" using b by (intro mult_right_mono) auto
  then show "(i div 2) * (w div 2) + j div 2 < w * h div 4" using wh b by (simp add: algebra_simps)
  show "4 * (w * h div 4) = w * h" "w * h div 2 = 2 * (w * h div 4)" using wh by simp_all
qed

lemma pixel_bound:
  assumes "0 \<le> i" "i < h" "0 \<le> j" "j < (w :: int)"
  shows "0 \<le> i * w + j" "i * w + j < w * h"
proof -
  have "(i + 1) * w \<le> h * w" using assms by (intro mult_right_mono) auto
  then show "i * w + j < w * h" using assms by (simp add: algebra_simps)
qed (use assms in simp)

lemma Yuv420_pixel_step:
  assumes ij: "0 \<le> i" "i < h" "0 \<le> j" "j < w" and ev: "even w" "even h"
    and fit: "3 * (w * h) < 2 ^ 31" and data: "w * h + w * h div 2 \<le> int (length data)"
    and d: "filled (yuv420_bgr data w h) (i * w + j) (3 * nat (w * h)) d"
  shows "\<exists>d'. Yuv420_pixel data (w * h) w i j d = Ret d' \<and> filled (yuv420_bgr data w h) (i * w + j + 1) (3 * nat (w * h)) d'"
proof -
  let ?p = "i * w + j" and ?c = "(i div 2) * (w div 2) + j div 2"
  note p = pixel_bound [OF ij] and c = chroma_bound [OF ev ij]
  have "HN_ok (?p * 3 + 2)" using p fit by (simp add: HN_ok_def)
  moreover have "byte_at data (w * h + ?c) = Ret (byte_of data (w * h + ?c))"
    "byte_at data (w * h + w * h div 4 + ?c) = Ret (byte_of data (w * h + w * h div 4 + ?c))"
    "byte_at data ?p = Ret (byte_of data ?p)"
    using p c data by (intro byte_at_Ret; linarith)+
  moreover have "yuv420_bgr data w h ?p =
     (let v = byte_of data (w * h + ?c); u = byte_of data (w * h + w * h div 4 + ?c); y = byte_of data ?p
      in (bgr_byte (y + Table_fu2 ! nat u), bgr_byte (y - (Table_fu1 ! nat u + Table_fv2 ! nat v)),
          bgr_byte (y + Table_fv1 ! nat v)))"
    by (simp only: yuv420_bgr_def chroma_index_ij [OF ij(3,4)] bgr_byte_clip table_at byte_of_range Let_def)
  ultimately have "Yuv420_pixel data (w * h) w i j d = put3 d (3 * ?p) (yuv420_bgr data w h ?p)"
    by (simp add: Yuv420_pixel_def HN_arith_def Let_def mult.commute [of _ 3])
  moreover have "3 * nat ?p + 3 \<le> 3 * nat (w * h)" using p by linarith
  ultimately show ?thesis using filled_step [OF d p(1)] by simp
qed

text \<open>For even sizes \<^verbatim>\<open>FromYuv420\<close> stays inside its blocks and gives the picture of the colour formula; the tables it
  uses are the rounded products.\<close>

theorem FromYuv420_formula:
  assumes "rgb_fits nWidth nHeight" "even (uint nWidth)" "even (uint nHeight)"
    "uint nWidth * uint nHeight + uint nWidth * uint nHeight div 2 \<le> int (length data)"
    "malloc (3 * nat (uint nWidth * uint nHeight)) = Some d" "length d = 3 * nat (uint nWidth * uint nHeight)"
  shows "FromYuv420 malloc data nWidth nHeight =
    Ret \<lparr>m_nWidth = nWidth, m_nHeight = nHeight,
      m_pData = Some (concat (map (\<lambda>p. bytes3 (yuv420_bgr data (uint nWidth) (uint nHeight) (int p)))
        [0..<nat (uint nWidth * uint nHeight)]))\<rparr>"
proof -
  let ?w = "uint nWidth" and ?h = "uint nHeight"
  note z = rgb_fits_sizes [OF assms(1)]
  have fit: "3 * (?w * ?h) < 2 ^ 31" using assms(1) by (simp add: rgb_fits_def)
  have "\<exists>d'. for_upto (\<lambda>i. for_upto (\<lambda>j. Yuv420_pixel data (?w * ?h) ?w i j) 0 ?w) 0 ?h d = Ret d' \<and>
      filled (yuv420_bgr data ?w ?h) (?h * ?w) (3 * nat (?w * ?h)) d'"
    using z(6,7) Yuv420_pixel_step [OF _ _ _ _ assms(2,3) fit assms(4)] assms(6)
    by (intro for_for_inv [where P = "\<lambda>p. filled (yuv420_bgr data ?w ?h) p (3 * nat (?w * ?h))"]) (simp_all add: filled_0)
  then obtain d' where d': "for_upto (\<lambda>i. for_upto (\<lambda>j. Yuv420_pixel data (?w * ?h) ?w i j) 0 ?w) 0 ?h d = Ret d'"
    "filled (yuv420_bgr data ?w ?h) (?w * ?h) (3 * nat (?w * ?h)) d'" by (auto simp: mult.commute)
  show ?thesis
    unfolding FromYuv420_def Let_def z(1,2,4) filled_all [OF d'(2) refl, symmetric]
    by (rule with_data_new [where d = d, OF assms(1)]) (fact assms(5), fact d'(1))
qed

definition zero_block :: "nat \<Rightarrow> HMEM option" where
  "zero_block n = Some (replicate n 0)"

theorem FromYuv420_formula_witness:
  "FromYuv420 zero_block [10, 20, 30, 40, 128, 129] 2 2 =
     Ret \<lparr>m_nWidth = 2, m_nHeight = 2, m_pData = Some [11, 10, 10, 21, 20, 20, 31, 30, 30, 41, 40, 40]\<rparr>"
proof -
  have "concat (map (\<lambda>p. bytes3 (yuv420_bgr [10, 20, 30, 40, 128, 129] 2 2 (int p))) [0..<4]) =
      [11, 10, 10, 21, 20, 20, 31, 30, 30, 41, 40, 40]" by code_simp
  then show ?thesis
    using FromYuv420_formula [of 2 2 "[10, 20, 30, 40, 128, 129]" zero_block "replicate 12 0"]
    by (simp add: rgb_fits_def zero_block_def)
qed

subsection \<open>The semi-planar layouts\<close>

definition yuv420sp_rgb :: "HMEM \<Rightarrow> int \<Rightarrow> int \<Rightarrow> int \<Rightarrow> int \<times> int \<times> int" where
  "yuv420sp_rgb data w h p =
     (let y = byte_of data p;
          u = byte_of data (w * h + chroma_index w p * 2) - 128;
          v = byte_of data (w * h + chroma_index w p * 2 + 1) - 128
      in (clip (y + 360 * v div 256), clip (y - (88 * u + 184 * v) div 256), clip (y + 455 * u div 256)))"

lemma Yuv420sp_pixel_step:
  assumes ij: "0 \<le> j" "j < h" "0 \<le> i" "i < w" and ev: "even w" "even h"
    and fit: "3 * (w * h) < 2 ^ 31" and data: "w * h + w * h div 2 \<le> int (length data)"
    and d: "filled (yuv420sp_rgb data w h) (j * w + i) (3 * nat (w * h)) d"
  shows "\<exists>d'. Yuv420sp_pixel data (w * h) (w div 2) j i (d, j * w + i, 3 * (j * w + i)) =
      Ret (d', j * w + i + 1, 3 * (j * w + i + 1)) \<and>
    filled (yuv420sp_rgb data w h) (j * w + i + 1) (3 * nat (w * h)) d'"
proof -
  let ?p = "j * w + i" and ?c = "(j div 2) * (w div 2) + i div 2"
  note p = pixel_bound [OF ij] and c = chroma_bound [OF ev ij]
  have "3 * nat ?p + 3 \<le> 3 * nat (w * h)" using p by linarith
  then obtain d' where d': "put3 d (3 * ?p) (yuv420sp_rgb data w h ?p) = Ret d'"
      "filled (yuv420sp_rgb data w h) (?p + 1) (3 * nat (w * h)) d'"
    using filled_step [OF d p(1)] by blast
  have "HN_ok (?c * 2)" using p c fit by (simp add: HN_ok_def)
  moreover have "byte_at data ?p = Ret (byte_of data ?p)"
    using p data by (intro byte_at_Ret) linarith+
  moreover have "byte_at data (w * h + k * 2) = Ret (byte_of data (w * h + k * 2))"
    "byte_at data (w * h + k * 2 + 1) = Ret (byte_of data (w * h + k * 2 + 1))" if "k = ?c" for k
    using p c data unfolding that [symmetric] by (intro byte_at_Ret; linarith)+
  moreover have "i div 2 + j div 2 * (w div 2) = ?c" by simp
  ultimately have "Yuv420sp_pixel data (w * h) (w div 2) j i (d, ?p, 3 * ?p) =
      run_bind (put3 d (3 * ?p) (yuv420sp_rgb data w h ?p)) (\<lambda>d. Ret (d, ?p + 1, 3 * ?p + 3))"
    by (simp only: Yuv420sp_pixel_def yuv420sp_rgb_def chroma_index_ij [OF ij(3,4)] HN_arith_def if_True
        run_bind.simps prod.case Let_def simp_thms)
  with d' show ?thesis by simp
qed

text \<open>For even sizes \<^verbatim>\<open>FromYuv420sp\<close> gives the picture of its formula, with the colours in the opposite order.\<close>

theorem FromYuv420sp_formula:
  assumes "rgb_fits nWidth nHeight" "even (uint nWidth)" "even (uint nHeight)"
    "uint nWidth * uint nHeight + uint nWidth * uint nHeight div 2 \<le> int (length data)"
    "malloc (3 * nat (uint nWidth * uint nHeight)) = Some d" "length d = 3 * nat (uint nWidth * uint nHeight)"
  shows "FromYuv420sp malloc data nWidth nHeight =
    Ret \<lparr>m_nWidth = nWidth, m_nHeight = nHeight,
      m_pData = Some (concat (map (\<lambda>p. bytes3 (yuv420sp_rgb data (uint nWidth) (uint nHeight) (int p)))
        [0..<nat (uint nWidth * uint nHeight)]))\<rparr>"
proof -
  let ?w = "uint nWidth" and ?h = "uint nHeight"
  let ?P = "\<lambda>p (d, y, r). y = p \<and> r = 3 * p \<and> filled (yuv420sp_rgb data ?w ?h) p (3 * nat (?w * ?h)) d"
  note z = rgb_fits_sizes [OF assms(1)]
  have fit: "3 * (?w * ?h) < 2 ^ 31" using assms(1) by (simp add: rgb_fits_def)
  have "\<exists>s'. for_upto (\<lambda>j. for_upto (\<lambda>i. Yuv420sp_pixel data (?w * ?h) (?w div 2) j i) 0 ?w) 0 ?h (d, 0, 0) = Ret s' \<and>
      ?P (?h * ?w) s'"
  proof (rule for_for_inv [where P = ?P])
    show "\<exists>s'. Yuv420sp_pixel data (?w * ?h) (?w div 2) i j s = Ret s' \<and> ?P (i * ?w + j + 1) s'"
      if ij: "0 \<le> i" "i < ?h" "0 \<le> j" "j < ?w" and P: "?P (i * ?w + j) s" for i j s
      using P Yuv420sp_pixel_step [OF ij assms(2,3) fit assms(4)] by (cases s) fastforce
  qed (use z(6,7) assms(6) in \<open>simp_all add: filled_0\<close>)
  then obtain d' where d':
    "for_upto (\<lambda>j. for_upto (\<lambda>i. Yuv420sp_pixel data (?w * ?h) (?w div 2) j i) 0 ?w) 0 ?h (d, 0, 0) =
       Ret (d', ?w * ?h, 3 * (?w * ?h))"
    "filled (yuv420sp_rgb data ?w ?h) (?w * ?h) (3 * nat (?w * ?h)) d'" by (auto simp: mult.commute)
  show ?thesis
    unfolding FromYuv420sp_def Let_def z(1,2,3) filled_all [OF d'(2) refl, symmetric]
    by (rule with_data_new [where d = d, OF assms(1)]) (fact assms(5), simp add: d'(1))
qed

definition nv21_bgr :: "HMEM \<Rightarrow> int \<Rightarrow> int \<Rightarrow> int \<Rightarrow> int \<Rightarrow> int \<times> int \<times> int" where
  "nv21_bgr data w h i j =
     (let y = byte_of data j;
          u = byte_of data (w * h + (i div 2 * w + j - j mod 2)) - 128;
          v = byte_of data (w * h + (i div 2 * w + j - j mod 2) + 1) - 128
      in (clip (y + 443 * u div 256), clip (y - (179 * v + 86 * u) div 256), clip (y + 351 * v div 256)))"

lemma NV21_bounds:
  assumes "even w" "even h" "0 \<le> i" "i < h" "0 \<le> j" "j < (w :: int)"
  shows "0 \<le> i div 2 * w + j - j mod 2" "i div 2 * w + j - j mod 2 + 1 < w * h div 2" "2 * (w * h div 2) = w * h"
proof -
  obtain w' h' where wh: "w = 2 * w'" "h = 2 * h'" using assms(1,2) by (elim evenE)
  have j: "j - j mod 2 = 2 * (j div 2)" by (simp add: minus_mod_eq_mult_div)
  have b: "0 \<le> i div 2" "i div 2 + 1 \<le> h'" "0 \<le> j div 2" "j div 2 < w'" using wh assms by auto
  then show "0 \<le> i div 2 * w + j - j mod 2" using wh by (simp add: j add_diff_eq [symmetric])
  have "(i div 2 + 1) * (2 * w') \<le> h' * (2 * w')" using b by (intro mult_right_mono) auto
  moreover have "w * h div 2 = h' * (2 * w')" using wh by simp
  moreover have "i div 2 * w + j - j mod 2 + 1 = i div 2 * w + 2 * (j div 2) + 1" using j by linarith
  ultimately show "i div 2 * w + j - j mod 2 + 1 < w * h div 2" using b(4) unfolding wh(1) distrib_right by linarith
  show "2 * (w * h div 2) = w * h" using wh by simp
qed

lemma put3_drop:
  assumes "put3 d (3 * p) abc = Ret d'" "0 \<le> p" "p < w" "3 * nat w \<le> length d"
  shows "drop (3 * nat w) d' = drop (3 * nat w) d"
proof -
  have "3 * nat p + 3 \<le> 3 * nat w" using assms(2,3) by linarith
  moreover from this have "d' = take (3 * nat p) d @ bytes3 abc @ drop (3 * nat p + 3) d"
    using assms put3_Ret [of p d abc] by simp
  ultimately show ?thesis using assms(4) by simp
qed

lemma NV21_pixel_step:
  assumes ij: "0 \<le> i" "i < h" "0 \<le> j" "j < w" and ev: "even w" "even h"
    and fit: "3 * (w * h) < 2 ^ 31" and data: "w * h + w * h div 2 \<le> int (length data)"
    and d: "filled (nv21_bgr data w h i) j (3 * nat (w * h)) d" and k: "drop (3 * nat w) d = k"
  shows "\<exists>d'. NV21_pixel data (w * h) w i j d = Ret d' \<and> filled (nv21_bgr data w h i) (j + 1) (3 * nat (w * h)) d' \<and>
    drop (3 * nat w) d' = k"
proof -
  let ?n = "i div 2 * w + j - j mod 2"
  note p = pixel_bound [OF ij] and b = NV21_bounds [OF ev ij]
  have wh: "w \<le> w * h" using ij by (simp add: mult_le_cancel_left1)
  then have "3 * nat j + 3 \<le> 3 * nat (w * h)" using ij by linarith
  then obtain d' where d': "put3 d (3 * j) (nv21_bgr data w h i j) = Ret d'" "filled (nv21_bgr data w h i) (j + 1) (3 * nat (w * h)) d'"
    using filled_step [OF d ij(3)] by blast
  have "length d = 3 * nat (w * h)" using d by (simp add: filled_def)
  then have "drop (3 * nat w) d' = k" using put3_drop [OF d'(1) ij(3,4)] wh k by simp
  have f: "3 * (w * h) < 2147483648" using fit by simp
  have "HN_ok (i div 2 * w + j)" "HN_ok (w * h + n + 1)" "HN_ok (j * 3 + 2)"
    "byte_at data j = Ret (byte_of data j)" "byte_at data (w * h + n) = Ret (byte_of data (w * h + n))"
    "byte_at data (w * h + n + 1) = Ret (byte_of data (w * h + n + 1))" if n: "n = ?n" for n
  proof -
    have "0 \<le> n" "n + 1 < w * h div 2" "2 * (w * h div 2) = w * h" using b n by simp_all
    moreover have "n \<le> i div 2 * w + j" "i div 2 * w + j \<le> n + 1" unfolding n by simp_all
    moreover have "j < w * h" using wh ij by linarith
    ultimately show "HN_ok (i div 2 * w + j)" "HN_ok (w * h + n + 1)" "HN_ok (j * 3 + 2)"
      "byte_at data j = Ret (byte_of data j)" "byte_at data (w * h + n) = Ret (byte_of data (w * h + n))"
      "byte_at data (w * h + n + 1) = Ret (byte_of data (w * h + n + 1))"
      using f ij(3) data by (auto simp: HN_ok_def intro!: byte_at_Ret)
  qed
  note this [OF refl]
  then have "NV21_pixel data (w * h) w i j d = put3 d (3 * j) (nv21_bgr data w h i j)"
    by (simp only: NV21_pixel_def nv21_bgr_def HN_arith_def if_True run_bind.simps Let_def mult.commute [of j 3])
  with d' \<open>drop (3 * nat w) d' = k\<close> show ?thesis by simp
qed

text \<open>\<^verbatim>\<open>FromNV21\<close> restarts its pixel index in every line: of a picture of even size only the first line is written, with
  the brightness of the first line and the colours of the last; the other lines keep what the memory held before.\<close>

theorem FromNV21_first_line_only:
  assumes "rgb_fits nWidth nHeight" "even (uint nWidth)" "even (uint nHeight)"
    "uint nWidth * uint nHeight + uint nWidth * uint nHeight div 2 \<le> int (length data)"
    "malloc (3 * nat (uint nWidth * uint nHeight)) = Some d" "length d = 3 * nat (uint nWidth * uint nHeight)"
  shows "FromNV21 malloc data nWidth nHeight =
    Ret \<lparr>m_nWidth = nWidth, m_nHeight = nHeight,
      m_pData = Some (concat (map (\<lambda>j. bytes3 (nv21_bgr data (uint nWidth) (uint nHeight) (uint nHeight - 1) (int j)))
        [0..<nat (uint nWidth)]) @ drop (3 * nat (uint nWidth)) d)\<rparr>"
proof -
  let ?w = "uint nWidth" and ?h = "uint nHeight"
  let ?len = "3 * nat (?w * ?h)" and ?k = "drop (3 * nat ?w) d"
  let ?P = "\<lambda>i d'. (if i = 0 then length d' = ?len else filled (nv21_bgr data ?w ?h (i - 1)) ?w ?len d') \<and> drop (3 * nat ?w) d' = ?k"
  note z = rgb_fits_sizes [OF assms(1)]
  have fit: "3 * (?w * ?h) < 2 ^ 31" using assms(1) by (simp add: rgb_fits_def)
  have "\<exists>d'. for_upto (\<lambda>i. for_upto (\<lambda>j. NV21_pixel data (?w * ?h) ?w i j) 0 ?w) 0 ?h d = Ret d' \<and> ?P ?h d'"
  proof (rule for_upto_inv [where P = ?P])
    fix i d1
    assume i: "0 \<le> i" "i < ?h" and P: "?P i d1"
    then have l: "length d1 = ?len" by (simp add: filled_def split: if_splits)
    have "\<exists>d'. for_upto (\<lambda>j. NV21_pixel data (?w * ?h) ?w i j) 0 ?w d1 = Ret d' \<and>
        filled (nv21_bgr data ?w ?h i) ?w ?len d' \<and> drop (3 * nat ?w) d' = ?k"
    proof (rule for_upto_inv [where P = "\<lambda>j d'. filled (nv21_bgr data ?w ?h i) j ?len d' \<and> drop (3 * nat ?w) d' = ?k"])
      show "\<exists>d'. NV21_pixel data (?w * ?h) ?w i j d2 = Ret d' \<and>
          filled (nv21_bgr data ?w ?h i) (j + 1) ?len d' \<and> drop (3 * nat ?w) d' = ?k"
        if "0 \<le> j" "j < ?w" "filled (nv21_bgr data ?w ?h i) j ?len d2 \<and> drop (3 * nat ?w) d2 = ?k" for j d2
        using that by (intro NV21_pixel_step [OF i _ _ assms(2,3) fit assms(4)]) blast+
    qed (use P l z(6) filled_0 in blast, use z(6) in linarith)
    then show "\<exists>d'. for_upto (\<lambda>j. NV21_pixel data (?w * ?h) ?w i j) 0 ?w d1 = Ret d' \<and> ?P (i + 1) d'"
      using i by simp
  qed (use z(7) assms(6) in simp_all)
  then obtain d' where d': "for_upto (\<lambda>i. for_upto (\<lambda>j. NV21_pixel data (?w * ?h) ?w i j) 0 ?w) 0 ?h d = Ret d'"
    "filled (nv21_bgr data ?w ?h (?h - 1)) ?w ?len d'" "drop (3 * nat ?w) d' = ?k" using z(7) by auto
  have e: "concat (map (\<lambda>j. bytes3 (nv21_bgr data ?w ?h (?h - 1) (int j))) [0..<nat ?w]) @ ?k = d'"
    unfolding d'(3) [symmetric] by (rule filled_split [OF d'(2)])
  show ?thesis
    unfolding FromNV21_def Let_def z(1,2,4) e
    by (rule with_data_new [where d = d, OF assms(1)]) (fact assms(5), fact d'(1))
qed

theorem FromNV21_first_line_only_witness:
  "FromNV21 zero_block [10, 20, 30, 40, 128, 128] 2 2 =
     Ret \<lparr>m_nWidth = 2, m_nHeight = 2, m_pData = Some [10, 10, 10, 20, 20, 20, 0, 0, 0, 0, 0, 0]\<rparr>"
proof -
  have "concat (map (\<lambda>j. bytes3 (nv21_bgr [10, 20, 30, 40, 128, 128] 2 2 1 (int j))) [0..<2]) @ drop 6 (replicate 12 0) =
      [10, 10, 10, 20, 20, 20, 0, 0, 0, 0, 0, 0]" by code_simp
  then show ?thesis
    using FromNV21_first_line_only [of 2 2 "[10, 20, 30, 40, 128, 128]" zero_block "replicate 12 0"]
    by (simp add: rgb_fits_def zero_block_def)
qed

end
