(* ===== verification/Bmp_Image.thy ===== *)
theory Bmp_Image
  imports Rgb_Image
begin

text \<open>
  Bitmap files: \<^verbatim>\<open>src/src/image/hbmp.h\<close> and \<^verbatim>\<open>hbmp.cpp\<close>.

  A file is its bytes; \<open>opened\<close> is the code of opening it. Reads are short only at the end of the file and writes are
  complete. \<open>malloc\<close> and memory are those of \<^theory_text>\<open>Rgb_Image\<close>; a null pointer is an empty block, which no access fits.
\<close>

unbundle bit_operations_syntax

subsection \<open>Headers\<close>

record BMPFILEHEADER =
  bfType :: HUSN
  bfSize :: HUN
  bfReserved1 :: HUSN
  bfReserved2 :: HUSN
  bfOffBits :: HUN

record BMPINFOHEADER =
  biSize :: HUN
  biWidth :: int
  biHeight :: int
  biPlanes :: HUSN
  biBitCount :: HUSN
  biCompression :: HUN
  biSizeImage :: HUN
  biXPelsPerMeter :: int
  biYPelsPerMeter :: int
  biClrUsed :: HUN
  biClrImportant :: HUN

text \<open>The headers are packed, so their bytes are those of their fields.\<close>

definition HN_bytes :: "int \<Rightarrow> HMEM" where
  "HN_bytes n = obj_bytes (word_of_int n :: HUN)"

definition HN_of_bytes :: "HMEM \<Rightarrow> int" where
  "HN_of_bytes bs = sint (obj_of_bytes bs :: HUN)"

definition file_header_bytes :: "BMPFILEHEADER \<Rightarrow> HMEM" where
  "file_header_bytes h =
     obj_bytes (bfType h) @ obj_bytes (bfSize h) @ obj_bytes (bfReserved1 h) @ obj_bytes (bfReserved2 h) @ obj_bytes (bfOffBits h)"

definition file_header_of :: "HMEM \<Rightarrow> BMPFILEHEADER" where
  "file_header_of bs =
     \<lparr>bfType = obj_of_bytes (take 2 bs), bfSize = obj_of_bytes (take 4 (drop 2 bs)),
      bfReserved1 = obj_of_bytes (take 2 (drop 6 bs)), bfReserved2 = obj_of_bytes (take 2 (drop 8 bs)),
      bfOffBits = obj_of_bytes (take 4 (drop 10 bs))\<rparr>"

definition info_header_bytes :: "BMPINFOHEADER \<Rightarrow> HMEM" where
  "info_header_bytes h =
     obj_bytes (biSize h) @ HN_bytes (biWidth h) @ HN_bytes (biHeight h) @ obj_bytes (biPlanes h) @ obj_bytes (biBitCount h) @
     obj_bytes (biCompression h) @ obj_bytes (biSizeImage h) @ HN_bytes (biXPelsPerMeter h) @ HN_bytes (biYPelsPerMeter h) @
     obj_bytes (biClrUsed h) @ obj_bytes (biClrImportant h)"

definition info_header_of :: "HMEM \<Rightarrow> BMPINFOHEADER" where
  "info_header_of bs =
     \<lparr>biSize = obj_of_bytes (take 4 bs), biWidth = HN_of_bytes (take 4 (drop 4 bs)),
      biHeight = HN_of_bytes (take 4 (drop 8 bs)), biPlanes = obj_of_bytes (take 2 (drop 12 bs)),
      biBitCount = obj_of_bytes (take 2 (drop 14 bs)), biCompression = obj_of_bytes (take 4 (drop 16 bs)),
      biSizeImage = obj_of_bytes (take 4 (drop 20 bs)), biXPelsPerMeter = HN_of_bytes (take 4 (drop 24 bs)),
      biYPelsPerMeter = HN_of_bytes (take 4 (drop 28 bs)), biClrUsed = obj_of_bytes (take 4 (drop 32 bs)),
      biClrImportant = obj_of_bytes (take 4 (drop 36 bs))\<rparr>"

subsection \<open>The class\<close>

record HBmp =
  m_file_header :: BMPFILEHEADER
  m_info_header :: BMPINFOHEADER
  bmp_pData :: "HMEM option"

definition COLOR_BIT_COUNT :: HUN where "COLOR_BIT_COUNT = 24"

definition HBmp_clear :: "HBmp \<Rightarrow> HBmp" where
  "HBmp_clear b = b\<lparr>bmp_pData := None, m_file_header := file_header_of (replicate 14 0), m_info_header := info_header_of (replicate 40 0)\<rparr>"

definition HBmp_new :: HBmp where
  "HBmp_new = \<lparr>m_file_header = file_header_of (replicate 14 0), m_info_header = info_header_of (replicate 40 0), bmp_pData = None\<rparr>"

definition Width :: "HBmp \<Rightarrow> HUN" where "Width b = word_of_int (biWidth (m_info_header b))"

definition Height :: "HBmp \<Rightarrow> HUN" where "Height b = word_of_int (biHeight (m_info_header b))"

definition BitCount :: "HBmp \<Rightarrow> HUN" where "BitCount b = ucast (biBitCount (m_info_header b))"

definition ImageSize :: "HBmp \<Rightarrow> HUN" where "ImageSize b = biSizeImage (m_info_header b)"

definition TotalSize :: "HBmp \<Rightarrow> HUN" where "TotalSize b = bfSize (m_file_header b)"

definition HeaderSize :: "HBmp \<Rightarrow> HUN" where "HeaderSize b = 14 + 40"

definition is_BM :: "HUSN \<Rightarrow> bool" where
  "is_BM t \<longleftrightarrow> drop_bit 8 t AND 0xff = 0x4D \<and> t AND 0xff = 0x42"

definition HBmp_IsInvalid :: "HBmp \<Rightarrow> bool" where
  "HBmp_IsInvalid b \<longleftrightarrow>
     is_BM (bfType (m_file_header b)) \<and> biBitCount (m_info_header b) = 24 \<and> TotalSize b > HeaderSize b"

definition BytesPerLine :: "HUN \<Rightarrow> HUN \<Rightarrow> HUN" where
  "BytesPerLine nWidth nBitCount = (nWidth * nBitCount + 31) div 32 * 4"

definition GetLineBytes :: "HBmp \<Rightarrow> HUN" where
  "GetLineBytes b = BytesPerLine (word_of_int (biWidth (m_info_header b))) (ucast (biBitCount (m_info_header b)))"

subsection \<open>Reading a file\<close>

text \<open>A read into memory replaces as many bytes as the file has at the position.\<close>

definition fh_Read :: "HMEM \<Rightarrow> nat \<Rightarrow> HMEM \<Rightarrow> HMEM \<times> int" where
  "fh_Read file pos buf = (let bs = take (length buf) (drop pos file) in (bs @ drop (length bs) buf, to_HN (length bs)))"

definition ReadFromFile ::
  "(nat \<Rightarrow> HMEM option) \<Rightarrow> bool \<Rightarrow> RET_T \<Rightarrow> HMEM \<Rightarrow> string \<Rightarrow> bool \<Rightarrow> HBmp \<Rightarrow> RET_T \<times> HBmp" where
  "ReadFromFile malloc exists opened file strFileName bHeadOnly b =
     (if strFileName = [] then (INVL_PARA, b)
      else if \<not> exists then (INVL_PARA, b)
      else let b = HBmp_clear b in
      if \<not> IS_OK opened then (opened, b)
      else let (bs, ret) = fh_Read file 0 (file_header_bytes (m_file_header b)); b = b\<lparr>m_file_header := file_header_of bs\<rparr> in
      if ret \<noteq> 14 then (SRC_ERR, b)
      else if \<not> is_BM (bfType (m_file_header b)) then (ERR_STATUS, b)
      else let (bs, ret) = fh_Read file 14 (info_header_bytes (m_info_header b)); b = b\<lparr>m_info_header := info_header_of bs\<rparr> in
      if ret \<noteq> 40 then (SRC_ERR, b)
      else if biBitCount (m_info_header b) \<noteq> 24 then (ERR_STATUS, b)
      else let b = (if ImageSize b = 0
                    then b\<lparr>m_info_header := (m_info_header b)\<lparr>biSizeImage := GetLineBytes b * word_of_int (biHeight (m_info_header b))\<rparr>\<rparr>
                    else b) in
      if bHeadOnly then (ERR_OK, b)
      else case malloc (unat (ImageSize b)) of
             None \<Rightarrow> (MEMORY_OUT, b)
           | Some d \<Rightarrow>
               let (d, ret) = fh_Read file 54 d; b = b\<lparr>bmp_pData := Some d\<rparr> in
               if ret \<noteq> to_HN (unat (ImageSize b)) then (SRC_ERR, b) else (ERR_OK, b))"

subsection \<open>Moving the picture\<close>

definition the_block :: "HMEM option \<Rightarrow> HMEM" where
  "the_block p = (case p of None \<Rightarrow> [] | Some d \<Rightarrow> d)"

definition Move_source :: "int \<Rightarrow> int \<Rightarrow> int \<Rightarrow> int \<Rightarrow> int \<Rightarrow> int \<Rightarrow> (int \<times> int) option run" where
  "Move_source nWidth nHeight xoffset yoffset i j =
     run_bind (HN_arith (j - xoffset)) (\<lambda>x.
       if 0 \<le> x \<and> x < nWidth
       then run_bind (HN_arith (i - yoffset)) (\<lambda>y. Ret (if 0 \<le> y \<and> y < nHeight then Some (y, x) else None))
       else Ret None)"

definition Move_pixel :: "HMEM \<Rightarrow> HUN \<Rightarrow> int \<Rightarrow> int \<Rightarrow> int \<Rightarrow> int \<Rightarrow> int \<Rightarrow> int \<Rightarrow> int \<Rightarrow> HMEM \<Rightarrow> HMEM run" where
  "Move_pixel data bytesPerLine bc nWidth nHeight xoffset yoffset i j temp_buf =
     run_bind (HN_arith (j * bc)) (\<lambda>jb.
     let dstpos = uint (bytesPerLine * word_of_int (nHeight - 1 - i)) + jb
     in run_bind (Move_source nWidth nHeight xoffset yoffset i j) (\<lambda>src.
        case src of
          Some (y, x) \<Rightarrow>
            run_bind (HN_arith (x * bc)) (\<lambda>xb.
            let srcpos = uint (bytesPerLine * word_of_int (nHeight - 1 - y)) + xb
            in for_upto (\<lambda>k t. run_bind (byte_at data (srcpos + k)) (byte_put t (dstpos + k))) 0 bc temp_buf)
        | None \<Rightarrow> for_upto (\<lambda>k t. byte_put t (dstpos + k) 255) 0 bc temp_buf))"

definition Move :: "(nat \<Rightarrow> HMEM option) \<Rightarrow> int \<Rightarrow> int \<Rightarrow> HBmp \<Rightarrow> (RET_T \<times> HBmp) run" where
  "Move malloc xoffset yoffset b =
     (if \<not> HBmp_IsInvalid b then Ret (ERR_STATUS, b)
      else let bytesPerLine = BytesPerLine (Width b) (BitCount b);
               bc = uint (BitCount b div 8);
               temp_buf = the_block (malloc (unat (bytesPerLine * Height b)));
               nWidth = sint (Width b); nHeight = sint (Height b);
               data = the_block (bmp_pData b)
      in run_bind (for_upto (\<lambda>i. for_upto (\<lambda>j. Move_pixel data bytesPerLine bc nWidth nHeight xoffset yoffset i j) 0 nWidth) 0 nHeight temp_buf)
           (\<lambda>temp_buf. run_bind (run_of (mem_read temp_buf 0 (unat (ImageSize b)))) (\<lambda>bs.
             run_bind (run_of (mem_write data 0 bs)) (\<lambda>d. Ret (ERR_OK, b\<lparr>bmp_pData := Some d\<rparr>)))))"

subsection \<open>From a colour image\<close>

text \<open>The state of the loops: the data of the bitmap, \<^verbatim>\<open>pBmpData\<close> and \<^verbatim>\<open>pRgaData\<close> as positions.\<close>

definition FromRgb_pixel :: "HMEM \<Rightarrow> HMEM \<times> int \<times> int \<Rightarrow> (HMEM \<times> int \<times> int) run" where
  "FromRgb_pixel rgb = (\<lambda>(d, pBmpData, pRgaData).
     run_bind (byte_at rgb (pRgaData + 2)) (\<lambda>c2. run_bind (byte_put d pBmpData c2) (\<lambda>d.
     run_bind (byte_at rgb (pRgaData + 1)) (\<lambda>c1. run_bind (byte_put d (pBmpData + 1) c1) (\<lambda>d.
     run_bind (byte_at rgb pRgaData) (\<lambda>c0. run_bind (byte_put d (pBmpData + 2) c0) (\<lambda>d.
     Ret (d, pBmpData + 3, pRgaData + 3))))))))"

definition FromRgb_line :: "HMEM \<Rightarrow> HUN \<Rightarrow> HUN \<Rightarrow> HMEM \<times> int \<times> int \<Rightarrow> (HMEM \<times> int \<times> int) run" where
  "FromRgb_line rgb bytesPerLine nWidth s =
     run_bind (for_upto (\<lambda>_. FromRgb_pixel rgb) 0 (uint nWidth) s)
       (\<lambda>(d, pBmpData, pRgaData). Ret (d, pBmpData + uint (bytesPerLine - nWidth * 3), pRgaData))"

definition FromRgb :: "(nat \<Rightarrow> HMEM option) \<Rightarrow> HRgb \<Rightarrow> HBmp \<Rightarrow> (RET_T \<times> HBmp) run" where
  "FromRgb malloc rga b =
     (let bytesPerLine = BytesPerLine (m_nWidth rga) COLOR_BIT_COUNT;
          pixcelBytes = bytesPerLine * m_nHeight rga;
          fh = \<lparr>bfType = 0x4D42, bfSize = 54 + pixcelBytes, bfReserved1 = 0, bfReserved2 = 0, bfOffBits = 54\<rparr>
      in run_bind (HN_arith (- sint (m_nHeight rga))) (\<lambda>height.
         let ih = \<lparr>biSize = 40, biWidth = sint (m_nWidth rga), biHeight = height, biPlanes = 1,
                   biBitCount = ucast COLOR_BIT_COUNT, biCompression = 0, biSizeImage = pixcelBytes,
                   biXPelsPerMeter = 100, biYPelsPerMeter = 100, biClrUsed = 0, biClrImportant = 0\<rparr>;
             p = malloc (unat pixcelBytes)
         in HASSERT_THROW (p \<noteq> None) MEMORY_OUT
           (run_bind (for_upto (\<lambda>_. FromRgb_line (the_block (m_pData rga)) bytesPerLine (m_nWidth rga)) 0 (uint (m_nHeight rga))
              (the_block p, 0, 0))
              (\<lambda>(d, _, _). Ret (ERR_OK, b\<lparr>m_file_header := fh, m_info_header := ih, bmp_pData := Some d\<rparr>)))))"

subsection \<open>Writing\<close>

definition fh_Write :: "HMEM \<times> nat \<Rightarrow> HMEM \<Rightarrow> HMEM \<times> nat" where
  "fh_Write = (\<lambda>(file, pos) bs. (take pos file @ bs @ drop (pos + length bs) file, pos + length bs))"

definition SaveAs :: "RET_T \<Rightarrow> HMEM \<Rightarrow> string \<Rightarrow> HBmp \<Rightarrow> (RET_T \<times> HMEM) run" where
  "SaveAs opened file strFileName b =
     (if \<not> HBmp_IsInvalid b then Ret (ERR_STATUS, file)
      else if strFileName = [] then Ret (INVL_PARA, file)
      else if \<not> IS_OK opened then Ret (opened, file)
      else let f = fh_Write (file, 0) (file_header_bytes (m_file_header b));
               f = fh_Write f (info_header_bytes (m_info_header b))
           in run_bind (run_of (mem_read (the_block (bmp_pData b)) 0 (unat (ImageSize b)))) (\<lambda>bs.
              Ret (ERR_OK, fst (fh_Write f bs))))"

definition ExportBmpBuffer :: "HMEM option \<Rightarrow> HUN \<Rightarrow> HBmp \<Rightarrow> (RET_T \<times> HMEM option \<times> HUN) run" where
  "ExportBmpBuffer buffer len b =
     (if \<not> HBmp_IsInvalid b then Ret (ERR_STATUS, buffer, len)
      else case buffer of
        None \<Rightarrow> Ret (INVL_PARA, buffer, len)
      | Some m \<Rightarrow>
          if \<not> len \<ge> TotalSize b then Ret (INVL_PARA, buffer, len)
          else run_bind (run_of (mem_write m 0 (file_header_bytes (m_file_header b)))) (\<lambda>m.
               run_bind (run_of (mem_write m 14 (info_header_bytes (m_info_header b)))) (\<lambda>m.
               run_bind (run_of (mem_read (the_block (bmp_pData b)) 0 (unat (ImageSize b)))) (\<lambda>bs.
               run_bind (run_of (mem_write m 54 bs)) (\<lambda>m. Ret (ERR_OK, Some m, TotalSize b))))))"

definition HBmp_of_file :: "(nat \<Rightarrow> HMEM option) \<Rightarrow> bool \<Rightarrow> RET_T \<Rightarrow> HMEM \<Rightarrow> string \<Rightarrow> bool \<Rightarrow> HBmp" where
  "HBmp_of_file malloc exists opened file strFileName bHeadOnly =
     snd (ReadFromFile malloc exists opened file strFileName bHeadOnly HBmp_new)"

subsection \<open>Headers survive\<close>

lemma HN_bytes_length [simp]: "length (HN_bytes n) = 4"
  by (simp add: HN_bytes_def)

lemma sint_HN: "HN_ok n \<Longrightarrow> sint (word_of_int n :: HUN) = n"
  by (simp add: HN_ok_def sint_sbintrunc' signed_take_bit_int_eq_self)

lemma HN_bytes_roundtrip: "HN_ok n \<Longrightarrow> HN_of_bytes (HN_bytes n) = n"
  by (simp add: HN_bytes_def HN_of_bytes_def obj_roundtrip sint_HN)

lemma file_header_length [simp]: "length (file_header_bytes h) = 14"
  by (simp add: file_header_bytes_def)

lemma info_header_length [simp]: "length (info_header_bytes h) = 40"
  by (simp add: info_header_bytes_def)

lemma file_header_roundtrip [simp]: "file_header_of (file_header_bytes h) = h"
  by (simp add: file_header_of_def file_header_bytes_def obj_roundtrip)

definition header_ok :: "BMPINFOHEADER \<Rightarrow> bool" where
  "header_ok h \<longleftrightarrow> HN_ok (biWidth h) \<and> HN_ok (biHeight h) \<and> HN_ok (biXPelsPerMeter h) \<and> HN_ok (biYPelsPerMeter h)"

lemma info_header_roundtrip: "header_ok h \<Longrightarrow> info_header_of (info_header_bytes h) = h"
  by (simp add: info_header_of_def info_header_bytes_def obj_roundtrip HN_bytes_roundtrip header_ok_def)

text \<open>A bitmap that can be written and read again.\<close>

definition bmp_ok :: "HBmp \<Rightarrow> bool" where
  "bmp_ok b \<longleftrightarrow> HBmp_IsInvalid b \<and> header_ok (m_info_header b) \<and> ImageSize b \<noteq> 0 \<and>
     (\<exists>d. bmp_pData b = Some d \<and> length d = unat (ImageSize b))"

definition bmp_bytes :: "HBmp \<Rightarrow> HMEM" where
  "bmp_bytes b = file_header_bytes (m_file_header b) @ info_header_bytes (m_info_header b) @ the_block (bmp_pData b)"

lemma SaveAs_bytes:
  assumes "bmp_ok b" "name \<noteq> []"
  shows "SaveAs ERR_OK old name b = Ret (ERR_OK, bmp_bytes b @ drop (length (bmp_bytes b)) old)"
  using assms by (auto simp: SaveAs_def bmp_ok_def the_block_def bmp_bytes_def fh_Write_def add.commute)

lemma ReadFromFile_bytes:
  assumes "bmp_ok b" "name \<noteq> []" "malloc (unat (ImageSize b)) = Some blk" "length blk = unat (ImageSize b)"
  shows "ReadFromFile malloc True ERR_OK (bmp_bytes b @ rest) name False b0 = (ERR_OK, b)"
proof -
  obtain d where d: "bmp_pData b = Some d" "length d = unat (ImageSize b)" using assms(1) by (auto simp: bmp_ok_def)
  have h: "is_BM (bfType (m_file_header b))" "biBitCount (m_info_header b) = 24" "header_ok (m_info_header b)" "ImageSize b \<noteq> 0"
    using assms(1) by (auto simp: bmp_ok_def HBmp_IsInvalid_def)
  let ?f = "bmp_bytes b @ rest" and ?b = "\<lparr>m_file_header = m_file_header b, m_info_header = m_info_header b, bmp_pData = None\<rparr>"
  have r1: "fh_Read ?f 0 (file_header_bytes x) = (file_header_bytes (m_file_header b), 14)" for x
    by (simp add: fh_Read_def bmp_bytes_def to_HN_id)
  have r2: "fh_Read ?f 14 (info_header_bytes x) = (info_header_bytes (m_info_header b), 40)" for x
    by (simp add: fh_Read_def bmp_bytes_def to_HN_id)
  have r3: "fh_Read ?f 54 blk = (d, to_HN (unat (ImageSize b)))"
    using assms(4) d by (simp add: fh_Read_def bmp_bytes_def the_block_def)
  have i: "ImageSize ?b = ImageSize b" by (simp add: ImageSize_def)
  show ?thesis
    using assms(2,3) h d
    by (simp add: ReadFromFile_def HBmp_clear_def r1 r2 info_header_roundtrip i r3) (simp add: ImageSize_def r3)
qed

subsection \<open>Lines\<close>

definition bmp_fits :: "HUN \<Rightarrow> HUN \<Rightarrow> bool" where
  "bmp_fits nWidth nHeight \<longleftrightarrow>
     0 < nWidth \<and> 0 < nHeight \<and> uint nWidth * 24 + 31 < 2 ^ 31 \<and> (uint nWidth * 24 + 31) div 32 * 4 * uint nHeight + 54 < 2 ^ 31"

definition line_bytes :: "HUN \<Rightarrow> int" where
  "line_bytes nWidth = (uint nWidth * 24 + 31) div 32 * 4"

lemma bmp_fits_sizes:
  assumes "bmp_fits a b"
  shows "uint (BytesPerLine a 24) = line_bytes a" "uint (BytesPerLine a 24 * b) = line_bytes a * uint b"
    "3 * uint a \<le> line_bytes a" "line_bytes a < 3 * uint a + 4" "sint a = uint a" "sint b = uint b" "0 < uint a" "0 < uint b"
    "line_bytes a * uint b + 54 < 2147483648" "uint (BytesPerLine a 24 - a * 3) = line_bytes a - 3 * uint a"
proof -
  have p: "0 < uint a" "0 < uint b" using assms by (simp_all add: bmp_fits_def word_less_def)
  have f: "uint a * 24 + 31 < 2147483648" "line_bytes a * uint b + 54 < 2147483648"
    using assms by (simp_all add: bmp_fits_def line_bytes_def)
  have m: "uint (a * 24) = uint a * 24" using f(1) p by (simp add: uint_word_ariths(3) mod_pos_pos_trivial)
  then have s: "uint (a * 24 + 31) = uint a * 24 + 31" using f(1) p by (simp add: uint_word_ariths(1) mod_pos_pos_trivial)
  then have d: "uint ((a * 24 + 31) div 32) = (uint a * 24 + 31) div 32" by (simp add: uint_div_distrib)
  have "(uint a * 24 + 31) div 32 * 4 < 4294967296" using f(1) by linarith
  then show l: "uint (BytesPerLine a 24) = line_bytes a"
    using d p by (simp add: BytesPerLine_def line_bytes_def uint_word_ariths(3) [of _ 4] mod_pos_pos_trivial pos_imp_zdiv_nonneg_iff)
  show le: "3 * uint a \<le> line_bytes a" and "line_bytes a < 3 * uint a + 4" unfolding line_bytes_def by linarith+
  show "uint (BytesPerLine a 24 * b) = line_bytes a * uint b"
    using l f(2) le p by (simp add: uint_word_ariths(3) mod_pos_pos_trivial)
  have "1 * uint b \<le> line_bytes a * uint b" using le p by (intro mult_right_mono) auto
  then have "uint b < 2147483648" using f(2) by linarith
  then show "sint a = uint a" "sint b = uint b" using f p by (auto intro!: sint_small)
  have t: "uint (a * 3) = 3 * uint a" using f(1) p by (simp add: uint_word_ariths(3) mod_pos_pos_trivial)
  moreover have "line_bytes a < 4294967296" using uint_HUN(2) [of "BytesPerLine a 24"] l by simp
  ultimately show "uint (BytesPerLine a 24 - a * 3) = line_bytes a - 3 * uint a"
    using le l p by (simp add: uint_word_ariths(2))
  show "0 < uint a" "0 < uint b" "line_bytes a * uint b + 54 < 2147483648" by (fact p f)+
qed

lemma line_places:
  fixes l :: int
  assumes "0 \<le> i" "i < h" "0 \<le> j" "j < w" "3 * w \<le> l"
  shows "0 \<le> i * l + 3 * j" "i * l + 3 * j + 3 \<le> l * h"
proof -
  have "(i + 1) * l \<le> h * l" using assms by (intro mult_right_mono) auto
  then have "i * l + l \<le> l * h" by (simp only: distrib_right mult_1 mult.commute [of h])
  then show "i * l + 3 * j + 3 \<le> l * h" using assms by linarith
qed (use assms in simp)

lemma line_apart:
  fixes l :: int
  assumes "0 \<le> j" "j < w" "0 \<le> j'" "j' < w" "3 * w \<le> l" "(i', j') \<noteq> (i, j)"
  shows "i * l + 3 * j + 3 \<le> i' * l + 3 * j' \<or> i' * l + 3 * j' + 3 \<le> i * l + 3 * j"
proof -
  consider "i = i'" | "i + 1 \<le> i'" | "i' + 1 \<le> i" by linarith
  then show ?thesis
  proof cases
    case 1
    then show ?thesis using assms by auto
  next
    case 2
    then have "(i + 1) * l \<le> i' * l" using assms by (intro mult_right_mono) auto
    then show ?thesis using assms by (simp add: distrib_right)
  next
    case 3
    then have "(i' + 1) * l \<le> i * l" using assms by (intro mult_right_mono) auto
    then show ?thesis using assms by (simp add: distrib_right)
  qed
qed

subsection \<open>The picture in the bitmap\<close>

lemma pixel_at_bytes:
  assumes "0 \<le> q" "q + 3 \<le> int (length d)"
  shows "pixel_at d q = bytes3 (byte_of d q, byte_of d (q + 1), byte_of d (q + 2))"
proof -
  have n: "nat (q + 1) = Suc (nat q)" "nat (q + 2) = Suc (Suc (nat q))" using assms(1) by auto
  have "nat q + 3 \<le> length d" using assms by linarith
  then have "take 3 (drop (nat q) d) = [d ! nat q, d ! Suc (nat q), d ! Suc (Suc (nat q))]"
    by (simp add: numeral_3_eq_3 take_Suc_conv_app_nth Cons_nth_drop_Suc [symmetric])
  then show ?thesis by (simp add: pixel_at_def bytes3_def byte_of_def n)
qed

definition rgb_pixel :: "HMEM \<Rightarrow> int \<Rightarrow> int \<times> int \<times> int" where
  "rgb_pixel rgb p = (byte_of rgb (3 * p + 2), byte_of rgb (3 * p + 1), byte_of rgb (3 * p))"

text \<open>The first \<open>n\<close> pixels of a picture have been copied into lines of \<open>l\<close> bytes.\<close>

definition copied :: "HMEM \<Rightarrow> int \<Rightarrow> int \<Rightarrow> int \<Rightarrow> int \<Rightarrow> HMEM \<Rightarrow> bool" where
  "copied rgb w h l n d \<longleftrightarrow> length d = nat (l * h) \<and>
     drawn (\<lambda>i j. i * l + 3 * j) (\<lambda>i j. bytes3 (rgb_pixel rgb (i * w + j))) w n d"

lemma rgb_bytes:
  assumes "0 \<le> p" "p < n" "int (length rgb) = 3 * n"
  shows "byte_at rgb (3 * p + 2) = Ret (byte_of rgb (3 * p + 2))" "byte_at rgb (3 * p + 1) = Ret (byte_of rgb (3 * p + 1))"
    "byte_at rgb (3 * p) = Ret (byte_of rgb (3 * p))"
  using assms by (intro byte_at_Ret; linarith)+

lemma FromRgb_pixel_step:
  assumes ij: "0 \<le> i" "i < h" "0 \<le> j" "j < w" and l: "3 * w \<le> l" and rgb: "length rgb = nat (3 * (w * h))"
    and d: "copied rgb w h l (i * w + j) d"
  shows "\<exists>d'. FromRgb_pixel rgb (d, i * l + 3 * j, 3 * (i * w + j)) = Ret (d', i * l + 3 * (j + 1), 3 * (i * w + (j + 1))) \<and>
    copied rgb w h l (i * w + (j + 1)) d'"
proof -
  let ?p = "i * w + j" and ?q = "i * l + 3 * j"
  note p = pixel_bound [OF ij] and q = line_places [OF ij l]
  have len: "int (length d) = l * h" using d q by (simp add: copied_def)
  have "int (length rgb) = 3 * (w * h)" using rgb p by simp
  note b = rgb_bytes [OF p this]
  have "nat ?q + 3 \<le> length d" using q len by linarith
  then obtain d' where d': "put3 d ?q (rgb_pixel rgb ?p) = Ret d'" using put3_at q(1) by blast
  have "FromRgb_pixel rgb (d, ?q, 3 * ?p) = run_bind (put3 d ?q (rgb_pixel rgb ?p)) (\<lambda>d. Ret (d, ?q + 3, 3 * ?p + 3))"
    by (simp only: FromRgb_pixel_def put3_def rgb_pixel_def prod.case b run_bind.simps)
      (simp add: byte_put_def split: if_splits)
  moreover have "drawn (\<lambda>i j. i * l + 3 * j) (\<lambda>i j. bytes3 (rgb_pixel rgb (i * w + j))) w (?p + 1) d'"
    using d line_places [OF _ _ _ _ l] line_apart [OF ij(3,4) _ _ l] d' len
    by (intro drawn_step [where h = h and d = d, OF _ _ ij]) (simp_all add: copied_def)
  moreover have "length d' = length d" using pixel_at_put3(3) [OF d' q(1) _ q(1)] q(2) len by simp
  ultimately show ?thesis using d d' by (simp add: copied_def algebra_simps)
qed

lemma FromRgb_line_step:
  assumes i: "0 \<le> i" "i < h" and w: "w = uint nWidth" and l: "3 * w \<le> l" "uint (bpl - nWidth * 3) = l - 3 * w"
    and rgb: "length rgb = nat (3 * (w * h))" and d: "copied rgb w h l (i * w) d"
  shows "\<exists>d'. FromRgb_line rgb bpl nWidth (d, i * l, 3 * (i * w)) = Ret (d', (i + 1) * l, 3 * ((i + 1) * w)) \<and>
    copied rgb w h l ((i + 1) * w) d'"
proof -
  have "\<exists>s'. for_upto (\<lambda>_. FromRgb_pixel rgb) 0 w (d, i * l, 3 * (i * w)) = Ret s' \<and>
      (\<exists>d'. s' = (d', i * l + 3 * w, 3 * (i * w + w)) \<and> copied rgb w h l (i * w + w) d')"
  proof (rule for_upto_inv [where P = "\<lambda>j s. \<exists>d'. s = (d', i * l + 3 * j, 3 * (i * w + j)) \<and> copied rgb w h l (i * w + j) d'"])
    show "\<exists>s'. FromRgb_pixel rgb s = Ret s' \<and>
        (\<exists>d'. s' = (d', i * l + 3 * (j + 1), 3 * (i * w + (j + 1))) \<and> copied rgb w h l (i * w + (j + 1)) d')"
      if j: "0 \<le> j" "j < w" and s: "\<exists>d'. s = (d', i * l + 3 * j, 3 * (i * w + j)) \<and> copied rgb w h l (i * w + j) d'" for j s
      using s FromRgb_pixel_step [OF i j l(1) rgb] by blast
  qed (use d w in simp_all)
  then obtain d' where "for_upto (\<lambda>_. FromRgb_pixel rgb) 0 w (d, i * l, 3 * (i * w)) = Ret (d', i * l + 3 * w, 3 * (i * w + w))"
    "copied rgb w h l (i * w + w) d'" by blast
  then show ?thesis using l(2) by (simp add: FromRgb_line_def w [symmetric] distrib_right)
qed

lemma FromRgb_lines:
  assumes fits: "bmp_fits nWidth nHeight" and w: "w = uint nWidth" "h = uint nHeight" "l = line_bytes nWidth"
    and rgb: "length rgb = nat (3 * (w * h))" and d: "length d = nat (l * h)"
  shows "\<exists>d'. for_upto (\<lambda>_. FromRgb_line rgb (BytesPerLine nWidth 24) nWidth) 0 h (d, 0, 0) = Ret (d', h * l, 3 * (h * w)) \<and>
    copied rgb w h l (h * w) d'"
proof -
  note z = bmp_fits_sizes [OF fits, folded w]
  have "\<exists>s'. for_upto (\<lambda>_. FromRgb_line rgb (BytesPerLine nWidth 24) nWidth) 0 h (d, 0, 0) = Ret s' \<and>
      (\<exists>d'. s' = (d', h * l, 3 * (h * w)) \<and> copied rgb w h l (h * w) d')"
  proof (rule for_upto_inv [where P = "\<lambda>i s. \<exists>d'. s = (d', i * l, 3 * (i * w)) \<and> copied rgb w h l (i * w) d'"])
    show "\<exists>s'. FromRgb_line rgb (BytesPerLine nWidth 24) nWidth s = Ret s' \<and>
        (\<exists>d'. s' = (d', (i + 1) * l, 3 * ((i + 1) * w)) \<and> copied rgb w h l ((i + 1) * w) d')"
      if i: "0 \<le> i" "i < h" and s: "\<exists>d'. s = (d', i * l, 3 * (i * w)) \<and> copied rgb w h l (i * w) d'" for i s
      using s FromRgb_line_step [OF i w(1) z(3,10) rgb] by blast
    have "drawn (\<lambda>i j. i * l + 3 * j) (\<lambda>i j. bytes3 (rgb_pixel rgb (i * w + j))) w 0 d"
      using z(7) by (intro drawn_0)
    then show "\<exists>d'. (d, 0, 0) = (d', 0 * l, 3 * (0 * w)) \<and> copied rgb w h l (0 * w) d'" using d by (simp add: copied_def)
  qed (use z(8) in simp)
  then show ?thesis by blast
qed

lemma FromRgb_Ret:
  assumes fits: "bmp_fits (m_nWidth rga) (m_nHeight rga)" and w: "w = uint (m_nWidth rga)" "h = uint (m_nHeight rga)" "l = line_bytes (m_nWidth rga)"
    and rgb: "m_pData rga = Some rgb" "length rgb = nat (3 * (w * h))"
    and blk: "malloc (nat (l * h)) = Some blk" "length blk = nat (l * h)"
  shows "\<exists>b d. FromRgb malloc rga b0 = Ret (ERR_OK, b) \<and> bmp_ok b \<and> bmp_pData b = Some d \<and> copied rgb w h l (h * w) d \<and>
    unat (ImageSize b) = nat (l * h) \<and> Width b = m_nWidth rga \<and> biHeight (m_info_header b) = - h"
proof -
  note z = bmp_fits_sizes [OF fits, folded w]
  have n: "unat (BytesPerLine (m_nWidth rga) 24 * m_nHeight rga) = nat (l * h)" using z(2) by (simp add: unat_eq_nat_uint)
  obtain d where d: "for_upto (\<lambda>_. FromRgb_line rgb (BytesPerLine (m_nWidth rga) 24) (m_nWidth rga)) 0 h (blk, 0, 0) = Ret (d, h * l, 3 * (h * w))"
    "copied rgb w h l (h * w) d"
    using FromRgb_lines [OF fits w rgb(2) blk(2)] by blast
  let ?b = "b0\<lparr>m_file_header := \<lparr>bfType = 0x4D42, bfSize = 54 + BytesPerLine (m_nWidth rga) 24 * m_nHeight rga, bfReserved1 = 0, bfReserved2 = 0, bfOffBits = 54\<rparr>,
    m_info_header := \<lparr>biSize = 40, biWidth = w, biHeight = - h, biPlanes = 1, biBitCount = ucast (24 :: HUN), biCompression = 0,
      biSizeImage = BytesPerLine (m_nWidth rga) 24 * m_nHeight rga, biXPelsPerMeter = 100, biYPelsPerMeter = 100, biClrUsed = 0, biClrImportant = 0\<rparr>,
    bmp_pData := Some d\<rparr>"
  have lh: "0 < l * h" using z(3,7,8) by (intro mult_pos_pos) linarith+
  have "1 * h \<le> l * h" "l * 1 \<le> l * h" using z(3,7,8) by (intro mult_mono; linarith)+
  then have "w < 2147483648" "h < 2147483648" using z(3,7,9) by linarith+
  then have HN: "HN_ok (- h)" "HN_ok h" "HN_ok w" using z(7,8) by (auto simp: HN_ok_def)
  have "FromRgb malloc rga b0 = Ret (ERR_OK, ?b)"
    using HN blk(1) rgb(1) d(1) by (simp add: FromRgb_def COLOR_BIT_COUNT_def n z(5,6) HN_arith_def the_block_def w(2) [symmetric] Let_def)
  moreover have "uint (54 + BytesPerLine (m_nWidth rga) 24 * m_nHeight rga) = 54 + l * h"
    using z(2,9) lh by (simp add: uint_word_ariths(1))
  then have "HBmp_IsInvalid ?b"
    using lh by (simp add: HBmp_IsInvalid_def TotalSize_def HeaderSize_def is_BM_def word_less_def)
  moreover have "length d = nat (l * h)" using d(2) by (simp add: copied_def)
  moreover have "BytesPerLine (m_nWidth rga) 24 * m_nHeight rga \<noteq> 0" using z(2) lh by auto
  ultimately show ?thesis
    using d(2) HN n by (intro exI [of _ ?b] exI [of _ d]) (simp add: bmp_ok_def header_ok_def ImageSize_def Width_def w HN_ok_def)
qed

text \<open>C22: A picture turned into a bitmap and saved over any file is read back as the same bitmap, and every pixel of it is
  the pixel of the picture with the order of its colours reversed.\<close>

theorem bmp_save_load:
  assumes fits: "bmp_fits (m_nWidth rga) (m_nHeight rga)" and w: "w = uint (m_nWidth rga)" "h = uint (m_nHeight rga)" "l = line_bytes (m_nWidth rga)"
    and rgb: "m_pData rga = Some rgb" "length rgb = nat (3 * (w * h))"
    and blk: "malloc (nat (l * h)) = Some blk" "length blk = nat (l * h)" and name: "name \<noteq> []"
  shows "\<exists>b d f. FromRgb malloc rga b0 = Ret (ERR_OK, b) \<and> SaveAs ERR_OK old name b = Ret (ERR_OK, f) \<and>
    ReadFromFile malloc True ERR_OK f name False b1 = (ERR_OK, b) \<and> bmp_pData b = Some d \<and>
    (\<forall>i j. 0 \<le> i \<longrightarrow> i < h \<longrightarrow> 0 \<le> j \<longrightarrow> j < w \<longrightarrow> pixel_at d (i * l + 3 * j) = rev (pixel_at rgb (3 * (i * w + j))))"
proof -
  obtain b d where b: "FromRgb malloc rga b0 = Ret (ERR_OK, b)" "bmp_ok b" "bmp_pData b = Some d" "copied rgb w h l (h * w) d"
    "unat (ImageSize b) = nat (l * h)"
    using FromRgb_Ret [where malloc = malloc, OF fits w rgb blk] by blast
  have "pixel_at d (i * l + 3 * j) = rev (pixel_at rgb (3 * (i * w + j)))" if ij: "0 \<le> i" "i < h" "0 \<le> j" "j < w" for i j
  proof -
    have p: "0 \<le> i * w + j" "i * w + j < w * h" by (rule pixel_bound [OF ij])+
    have "pixel_at d (i * l + 3 * j) = bytes3 (rgb_pixel rgb (i * w + j))"
      using b(4) ij p by (simp add: copied_def drawn_def mult.commute)
    then show ?thesis using pixel_at_bytes [of "3 * (i * w + j)" rgb] p rgb(2) by (simp add: rgb_pixel_def bytes3_def byte_of_def)
  qed
  then show ?thesis
    using b SaveAs_bytes [OF b(2) name] ReadFromFile_bytes [where malloc = malloc and blk = blk, OF b(2) name] blk by auto
qed

theorem bmp_save_load_witness:
  "\<exists>b d f. FromRgb zero_block \<lparr>m_nWidth = 1, m_nHeight = 1, m_pData = Some [1, 2, 3]\<rparr> HBmp_new = Ret (ERR_OK, b) \<and>
     SaveAs ERR_OK [] ''x.bmp'' b = Ret (ERR_OK, f) \<and> ReadFromFile zero_block True ERR_OK f ''x.bmp'' False HBmp_new = (ERR_OK, b) \<and>
     bmp_pData b = Some d \<and> pixel_at d 0 = [3, 2, 1]"
proof -
  let ?r = "\<lparr>m_nWidth = 1, m_nHeight = 1, m_pData = Some [1, 2, 3]\<rparr> :: HRgb"
  have l: "line_bytes 1 = 4" by (simp add: line_bytes_def)
  have z: "zero_block (nat (4 * 1)) = Some (replicate 4 0)" by (simp add: zero_block_def)
  have "\<exists>b d f. FromRgb zero_block ?r HBmp_new = Ret (ERR_OK, b) \<and> SaveAs ERR_OK [] ''x.bmp'' b = Ret (ERR_OK, f) \<and>
    ReadFromFile zero_block True ERR_OK f ''x.bmp'' False HBmp_new = (ERR_OK, b) \<and> bmp_pData b = Some d \<and>
    (\<forall>i j. 0 \<le> i \<longrightarrow> i < 1 \<longrightarrow> 0 \<le> j \<longrightarrow> j < 1 \<longrightarrow> pixel_at d (i * 4 + 3 * j) = rev (pixel_at [1, 2, 3] (3 * (i * 1 + j))))"
    by (rule bmp_save_load [where blk = "replicate 4 0"]) (simp_all add: bmp_fits_def l z [simplified])
  then obtain b d f where b: "FromRgb zero_block ?r HBmp_new = Ret (ERR_OK, b)" "SaveAs ERR_OK [] ''x.bmp'' b = Ret (ERR_OK, f)"
    "ReadFromFile zero_block True ERR_OK f ''x.bmp'' False HBmp_new = (ERR_OK, b)" "bmp_pData b = Some d"
    and p: "\<forall>i j. 0 \<le> i \<longrightarrow> i < 1 \<longrightarrow> 0 \<le> j \<longrightarrow> j < 1 \<longrightarrow> pixel_at d (i * 4 + 3 * j) = rev (pixel_at [1, 2, 3] (3 * (i * 1 + j)))"
    by blast
  have "pixel_at d 0 = [3, 2, 1]" using p [rule_format, of 0 0] by (simp add: pixel_at_def)
  with b show ?thesis by blast
qed

subsection \<open>Moving a picture\<close>

lemma for_upto_3:
  "for_upto body 0 3 s = run_bind (body 0 s) (\<lambda>s. run_bind (body 1 s) (\<lambda>s. body 2 s))"
proof -
  have "run_bind m Ret = m" for m :: "'a run" by (cases m) simp_all
  moreover have "for_upto body 3 3 = Ret" by (intro ext) (simp add: for_upto.simps)
  ultimately have "for_upto body 2 3 = body 2" by (intro ext) (simp add: for_upto.simps [of _ 2])
  then have "for_upto body 1 3 = (\<lambda>s. run_bind (body 1 s) (body 2))" by (intro ext) (simp add: for_upto.simps [of _ 1])
  then show ?thesis by (simp add: for_upto.simps [of _ 0])
qed

text \<open>Line \<open>i\<close> from the top of a bitmap with positive height is line \<open>h - 1 - i\<close> of its data.\<close>

definition place :: "int \<Rightarrow> int \<Rightarrow> int \<Rightarrow> int \<Rightarrow> int" where
  "place h l i j = (h - 1 - i) * l + 3 * j"

definition moved :: "HMEM \<Rightarrow> int \<Rightarrow> int \<Rightarrow> int \<Rightarrow> int \<Rightarrow> int \<Rightarrow> int \<Rightarrow> int \<Rightarrow> int \<times> int \<times> int" where
  "moved d w h l x y i j =
     (if 0 \<le> j - x \<and> j - x < w \<and> 0 \<le> i - y \<and> i - y < h
      then let q = place h l (i - y) (j - x) in (byte_of d q, byte_of d (q + 1), byte_of d (q + 2))
      else (255, 255, 255))"

lemma place_bounds:
  assumes "0 \<le> i" "i < h" "0 \<le> j" "j < w" "3 * w \<le> l"
  shows "0 \<le> place h l i j" "place h l i j + 3 \<le> l * h"
  unfolding place_def using assms by (intro line_places [of "h - 1 - i" h j w l]; simp)+

lemma place_apart:
  assumes "0 \<le> j" "j < w" "0 \<le> j'" "j' < w" "3 * w \<le> l" "(i', j') \<noteq> (i, j)"
  shows "place h l i j + 3 \<le> place h l i' j' \<or> place h l i' j' + 3 \<le> place h l i j"
  unfolding place_def using assms by (intro line_apart [OF assms(1-5)]) auto

lemma line_word:
  fixes bpl :: HUN
  assumes "uint bpl = l" "0 \<le> k" "k < h" "l * h < 2147483648" "0 < l"
  shows "uint (bpl * word_of_int k) = k * l"
proof -
  have "k * l \<le> h * l" using assms by (intro mult_right_mono) auto
  moreover have "k * 1 \<le> k * l" using assms by (intro mult_left_mono) auto
  ultimately have "k < 4294967296" "k * l < 4294967296" using assms(4) by (simp_all only: mult.commute [of h])
  then show ?thesis using assms by (simp add: uint_word_ariths(3) uint_word_of_int mult.commute)
qed

lemma Move_pixel_put3:
  assumes ij: "0 \<le> i" "i < h" "0 \<le> j" "j < w" and l: "uint bpl = l" "3 * w \<le> l" "l * h < 2147483648"
    and off: "- (2 ^ 30) \<le> x" "x \<le> 2 ^ 30" "- (2 ^ 30) \<le> y" "y \<le> 2 ^ 30" and small: "w < 2 ^ 30" "h < 2 ^ 30"
    and d: "int (length d) = l * h"
  shows "Move_pixel d bpl 3 w h x y i j t = put3 t (place h l i j) (moved d w h l x y i j)"
proof -
  have "l * 1 \<le> l * h" using ij l by (intro mult_left_mono) auto
  then have "3 * w < 2147483648" using l by linarith
  then have HN: "HN_ok (j * 3)" "HN_ok (j - x)" "HN_ok (i - y)" "0 \<le> j - x \<Longrightarrow> j - x < w \<Longrightarrow> HN_ok ((j - x) * 3)"
    using ij off small by (auto simp: HN_ok_def)
  have ar: "HN_arith (j * 3) = Ret (j * 3)" using HN(1) by (simp add: HN_arith_def)
  have dst: "uint (bpl * word_of_int (h - 1 - i)) + j * 3 = place h l i j"
  proof -
    have "uint (bpl * word_of_int (h - 1 - i)) = (h - 1 - i) * l" using ij l by (intro line_word) auto
    then show ?thesis unfolding place_def by linarith
  qed
  show ?thesis
  proof (cases "0 \<le> j - x \<and> j - x < w \<and> 0 \<le> i - y \<and> i - y < h")
    case True
    let ?q = "place h l (i - y) (j - x)"
    have s: "Move_source w h x y i j = Ret (Some (i - y, j - x))" using True HN(2,3) by (simp add: Move_source_def HN_arith_def)
    have ar': "HN_arith ((j - x) * 3) = Ret ((j - x) * 3)" using True HN(4) by (simp add: HN_arith_def)
    have src: "uint (bpl * word_of_int (h - 1 - (i - y))) + (j - x) * 3 = ?q"
    proof -
      have "uint (bpl * word_of_int (h - 1 - (i - y))) = (h - 1 - (i - y)) * l" using True ij l by (intro line_word) auto
      then show ?thesis unfolding place_def by linarith
    qed
    have q: "0 \<le> ?q" "?q + 3 \<le> l * h" using True by (intro place_bounds [OF _ _ _ _ l(2)]; simp)+
    have b: "byte_at d (?q + 0) = Ret (byte_of d ?q)" "byte_at d (?q + 1) = Ret (byte_of d (?q + 1))" "byte_at d (?q + 2) = Ret (byte_of d (?q + 2))"
      using q d byte_at_Ret [of "?q + 0" d] byte_at_Ret [of "?q + 1" d] byte_at_Ret [of "?q + 2" d] by simp_all
    show ?thesis
      unfolding Move_pixel_def ar s run_bind.simps Let_def dst option.case prod.case ar' src for_upto_3 b
      using True by (simp add: moved_def put3_def Let_def)
  next
    case False
    have s: "Move_source w h x y i j = Ret None" using False HN(2,3) by (auto simp: Move_source_def HN_arith_def)
    show ?thesis
      unfolding Move_pixel_def ar s run_bind.simps Let_def dst option.case for_upto_3
      using False by (auto simp: moved_def put3_def)
  qed
qed

text \<open>Moving a bitmap with positive sizes by an offset gives the bitmap whose pixel at every place is the one the offset away,
  and white where there was none.\<close>

theorem Move_moves:
  assumes valid: "HBmp_IsInvalid b" and fits: "bmp_fits (Width b) (Height b)"
    and w: "w = uint (Width b)" "h = uint (Height b)" "l = line_bytes (Width b)"
    and size: "uint (ImageSize b) = l * h" and d: "bmp_pData b = Some d" "int (length d) = l * h"
    and blk: "malloc (nat (l * h)) = Some t" "length t = nat (l * h)"
    and off: "- (2 ^ 30) \<le> x" "x \<le> 2 ^ 30" "- (2 ^ 30) \<le> y" "y \<le> 2 ^ 30"
  shows "\<exists>d'. Move malloc x y b = Ret (ERR_OK, b\<lparr>bmp_pData := Some d'\<rparr>) \<and>
    (\<forall>i j. 0 \<le> i \<longrightarrow> i < h \<longrightarrow> 0 \<le> j \<longrightarrow> j < w \<longrightarrow>
      pixel_at d' (place h l i j) =
        (if 0 \<le> j - x \<and> j - x < w \<and> 0 \<le> i - y \<and> i - y < h then pixel_at d (place h l (i - y) (j - x)) else [255, 255, 255]))"
proof -
  note z = bmp_fits_sizes [OF fits, folded w]
  have c: "BitCount b = 24" "uint (BitCount b div 8) = 3"
    using valid by (simp_all add: HBmp_IsInvalid_def BitCount_def uint_div_distrib)
  have lh: "0 < l * h" "l * h < 2147483648" "0 \<le> l" using z(3,7,8,9) by (auto intro!: mult_pos_pos)
  have "3 * h \<le> l * h" "l * 1 \<le> l * h" using z(3,7,8) by (intro mult_mono; linarith)+
  then have small: "w < 2 ^ 30" "h < 2 ^ 30" using z(3,9) by simp_all
  let ?P = "\<lambda>n t. length t = nat (l * h) \<and> drawn (place h l) (\<lambda>i j. bytes3 (moved d w h l x y i j)) w n t"
  have "\<exists>t'. for_upto (\<lambda>i. for_upto (\<lambda>j. Move_pixel d (BytesPerLine (Width b) 24) 3 w h x y i j) 0 w) 0 h t = Ret t' \<and> ?P (h * w) t'"
  proof (rule for_for_inv [where P = ?P])
    fix i j t1
    assume ij: "0 \<le> i" "i < h" "0 \<le> j" "j < w" and P: "?P (i * w + j) t1"
    note q = place_bounds [OF ij z(3)]
    have len: "int (length t1) = l * h" using P lh by simp
    then have "nat (place h l i j) + 3 \<le> length t1" using q by linarith
    then obtain t2 where t2: "put3 t1 (place h l i j) (moved d w h l x y i j) = Ret t2" using put3_at q(1) by blast
    have "Move_pixel d (BytesPerLine (Width b) 24) 3 w h x y i j t1 = Ret t2"
      unfolding t2 [symmetric] by (rule Move_pixel_put3 [OF ij z(1,3) lh(2) off small d(2)])
    moreover have "length t2 = nat (l * h)" using pixel_at_put3(3) [OF t2 q(1) _ q(1)] q(2) len by simp
    moreover have "drawn (place h l) (\<lambda>i j. bytes3 (moved d w h l x y i j)) w (i * w + j + 1) t2"
      using P t2 place_bounds [OF _ _ _ _ z(3)] place_apart [OF ij(3,4) _ _ z(3)] len
      by (intro drawn_step [where h = h and d = t1, OF _ _ ij]) simp_all
    ultimately show "\<exists>s'. Move_pixel d (BytesPerLine (Width b) 24) 3 w h x y i j t1 = Ret s' \<and> ?P (i * w + j + 1) s'" by blast
  qed (use z(7,8) blk(2) drawn_0 in simp_all)
  then obtain t' where t': "for_upto (\<lambda>i. for_upto (\<lambda>j. Move_pixel d (BytesPerLine (Width b) 24) 3 w h x y i j) 0 w) 0 h t = Ret t'"
    "length t' = nat (l * h)" "drawn (place h l) (\<lambda>i j. bytes3 (moved d w h l x y i j)) w (h * w) t'" by blast
  have n: "unat (ImageSize b) = nat (l * h)" "unat (BytesPerLine (Width b) 24 * Height b) = nat (l * h)"
    using size z(2) by (simp_all add: unat_eq_nat_uint)
  have "Move malloc x y b = Ret (ERR_OK, b\<lparr>bmp_pData := Some t'\<rparr>)"
    using valid blk(1) d t'(1,2) n
    by (simp add: Move_def c z(5,6) w(1,2) [symmetric] the_block_def mem_write_def nat_eq_iff2)
  moreover have "pixel_at t' (place h l i j) =
      (if 0 \<le> j - x \<and> j - x < w \<and> 0 \<le> i - y \<and> i - y < h then pixel_at d (place h l (i - y) (j - x)) else [255, 255, 255])"
    if ij: "0 \<le> i" "i < h" "0 \<le> j" "j < w" for i j
  proof -
    have "pixel_at t' (place h l i j) = bytes3 (moved d w h l x y i j)"
      using t'(3) ij pixel_bound [OF ij] by (simp add: drawn_def mult.commute)
    moreover have "pixel_at d (place h l (i - y) (j - x)) = bytes3 (moved d w h l x y i j)"
      if s: "0 \<le> j - x" "j - x < w" "0 \<le> i - y" "i - y < h"
      using s place_bounds [OF s(3,4,1,2) z(3)] d(2) by (simp add: pixel_at_bytes moved_def Let_def)
    ultimately show ?thesis by (auto simp: moved_def bytes3_def)
  qed
  ultimately show ?thesis by blast
qed

definition dot_bmp :: HBmp where
  "dot_bmp = \<lparr>m_file_header = (file_header_of (replicate 14 0))\<lparr>bfType := 0x4D42, bfSize := 62\<rparr>,
     m_info_header = (info_header_of (replicate 40 0))\<lparr>biWidth := 1, biHeight := 2, biBitCount := 24, biSizeImage := 8\<rparr>,
     bmp_pData = Some [1, 2, 3, 0, 4, 5, 6, 0]\<rparr>"

theorem Move_moves_witness:
  "\<exists>d'. Move zero_block 0 1 dot_bmp = Ret (ERR_OK, dot_bmp\<lparr>bmp_pData := Some d'\<rparr>) \<and>
     pixel_at d' 4 = [255, 255, 255] \<and> pixel_at d' 0 = [4, 5, 6]"
proof -
  have w: "Width dot_bmp = 1" "Height dot_bmp = 2" "line_bytes 1 = 4" by (simp_all add: Width_def Height_def dot_bmp_def line_bytes_def)
  let ?d = "[1, 2, 3, 0, 4, 5, 6, 0] :: HMEM"
  have "\<exists>d'. Move zero_block 0 1 dot_bmp = Ret (ERR_OK, dot_bmp\<lparr>bmp_pData := Some d'\<rparr>) \<and>
    (\<forall>i j. 0 \<le> i \<longrightarrow> i < 2 \<longrightarrow> 0 \<le> j \<longrightarrow> j < 1 \<longrightarrow>
      pixel_at d' (place 2 4 i j) =
        (if 0 \<le> j - 0 \<and> j - 0 < 1 \<and> 0 \<le> i - 1 \<and> i - 1 < 2 then pixel_at ?d (place 2 4 (i - 1) (j - 0)) else [255, 255, 255]))"
    by (rule Move_moves [where t = "replicate 8 0"])
      (simp_all add: w bmp_fits_def zero_block_def, simp_all add: dot_bmp_def HBmp_IsInvalid_def is_BM_def TotalSize_def HeaderSize_def ImageSize_def)
  then obtain d' where d': "Move zero_block 0 1 dot_bmp = Ret (ERR_OK, dot_bmp\<lparr>bmp_pData := Some d'\<rparr>)"
    and p: "\<And>i j. 0 \<le> i \<Longrightarrow> i < 2 \<Longrightarrow> 0 \<le> j \<Longrightarrow> j < 1 \<Longrightarrow> pixel_at d' (place 2 4 i j) =
      (if 0 \<le> j - 0 \<and> j - 0 < 1 \<and> 0 \<le> i - 1 \<and> i - 1 < 2 then pixel_at ?d (place 2 4 (i - 1) (j - 0)) else [255, 255, 255])" by blast
  have "pixel_at d' 4 = [255, 255, 255]" "pixel_at d' 0 = [4, 5, 6]"
    using p [of 0 0] p [of 1 0] by (simp_all add: place_def pixel_at_def)
  with d' show ?thesis by blast
qed

text \<open>A bitmap made by \<^verbatim>\<open>FromRgb\<close> has a negative height: moving it runs no loop and replaces the picture by what the
  temporary memory held.\<close>

theorem Move_destroys_FromRgb:
  assumes fits: "bmp_fits (m_nWidth rga) (m_nHeight rga)" and w: "w = uint (m_nWidth rga)" "h = uint (m_nHeight rga)" "l = line_bytes (m_nWidth rga)"
    and rgb: "m_pData rga = Some rgb" "length rgb = nat (3 * (w * h))"
    and blk: "malloc (nat (l * h)) = Some blk" "length blk = nat (l * h)"
    and tmp: "malloc (nat (2 ^ 32 - l * h)) = Some t" "length t = nat (2 ^ 32 - l * h)"
  shows "\<exists>b. FromRgb malloc rga b0 = Ret (ERR_OK, b) \<and>
    Move malloc x y b = Ret (ERR_OK, b\<lparr>bmp_pData := Some (take (nat (l * h)) t)\<rparr>)"
proof -
  note z = bmp_fits_sizes [OF fits, folded w]
  obtain b d where b: "FromRgb malloc rga b0 = Ret (ERR_OK, b)" "bmp_ok b" "bmp_pData b = Some d"
    "unat (ImageSize b) = nat (l * h)" "Width b = m_nWidth rga" "biHeight (m_info_header b) = - h"
    using FromRgb_Ret [where malloc = malloc, OF fits w rgb blk] by blast
  have valid: "HBmp_IsInvalid b" and dl: "length d = nat (l * h)" using b(2-4) by (auto simp: bmp_ok_def)
  then have c: "BitCount b = 24" by (simp add: HBmp_IsInvalid_def BitCount_def)
  have lh: "0 < l * h" "l * h < 2147483648" using z(3,7,8,9) by (auto intro!: mult_pos_pos)
  have hh: "Height b = - m_nHeight rga" using b(6) w(2) by (simp add: Height_def)
  have "BytesPerLine (Width b) 24 * Height b = - (BytesPerLine (m_nWidth rga) 24 * m_nHeight rga)" by (simp add: hh b(5))
  then have "uint (BytesPerLine (Width b) 24 * Height b) = 2 ^ 32 - l * h"
    using z(2) lh by (simp add: uint_word_ariths(4) zmod_zminus1_eq_if del: mult_eq_0_iff)
  then have u: "unat (BytesPerLine (Width b) 24 * Height b) = nat (2 ^ 32 - l * h)" by (simp add: unat_eq_nat_uint)
  have "1 * h \<le> l * h" using z(3,7,8) by (intro mult_right_mono) linarith+
  then have "h < 2147483648" using lh by linarith
  then have "HN_ok (- h)" using z(8) by (simp add: HN_ok_def)
  then have "sint (Height b) = - h" unfolding Height_def b(6) by (rule sint_HN)
  then have "for_upto body 0 (sint (Height b)) s = Ret s" for body and s :: HMEM using z(8) by (simp add: for_upto_empty)
  moreover have "nat (l * h) \<le> length t" using tmp(2) lh by simp
  ultimately have "Move malloc x y b = Ret (ERR_OK, b\<lparr>bmp_pData := Some (take (nat (l * h)) t)\<rparr>)"
    using valid b(3,4) tmp(1) dl by (simp add: Move_def c u the_block_def mem_write_def del: power_numeral)
  with b(1) show ?thesis by blast
qed

end
