(* ===== verification/Action.thy ===== *)
theory Action
  imports Hui_Prelude
begin

text \<open>
  Operations on a state that may throw: an action returns a value, throws or is stuck (undefined behaviour), and leaves
  some state in every case, as a C++ exception leaves the objects the way they are. A calculus of triples shows what
  holds after an action on all its paths. Used by the redis client, the databases, the System V objects, the
  descriptors and the sockets.
\<close>

datatype ('e, 'a) act_out = AOk 'a | AThrow 'e | AStuck

type_synonym ('s, 'e, 'a) action = "'s \<Rightarrow> ('e, 'a) act_out \<times> 's"

definition act_ret :: "'a \<Rightarrow> ('s, 'e, 'a) action" where
  "act_ret a = (\<lambda>s. (AOk a, s))"

definition act_throw :: "'e \<Rightarrow> ('s, 'e, 'a) action" where
  "act_throw e = (\<lambda>s. (AThrow e, s))"

definition act_stuck :: "('s, 'e, 'a) action" where
  "act_stuck = (\<lambda>s. (AStuck, s))"

definition act_bind :: "('s, 'e, 'a) action \<Rightarrow> ('a \<Rightarrow> ('s, 'e, 'b) action) \<Rightarrow> ('s, 'e, 'b) action" where
  "act_bind m f = (\<lambda>s. case m s of (AOk a, s) \<Rightarrow> f a s | (AThrow e, s) \<Rightarrow> (AThrow e, s) | (AStuck, s) \<Rightarrow> (AStuck, s))"

definition act_seq :: "('s, 'e, 'a) action \<Rightarrow> ('s, 'e, 'b) action \<Rightarrow> ('s, 'e, 'b) action" where
  "act_seq m n = act_bind m (\<lambda>_. n)"

text \<open>The macro \<^verbatim>\<open>HNOTOK_RETURN\<close>: a code other than \<^verbatim>\<open>OK\<close> is returned at once.\<close>

definition act_ok :: "('s, 'e, RET_T) action \<Rightarrow> ('s, 'e, RET_T) action \<Rightarrow> ('s, 'e, RET_T) action" where
  "act_ok m n = act_bind m (\<lambda>ret. if IS_OK ret then n else act_ret ret)"

text \<open>Steps on an object and the kernel's world.\<close>

definition with_obj :: "('o \<Rightarrow> ('o \<times> 'w, 'e, 'a) action) \<Rightarrow> ('o \<times> 'w, 'e, 'a) action" where
  "with_obj f = (\<lambda>(b, w). f b (b, w))"

definition set_obj :: "('o \<Rightarrow> 'o) \<Rightarrow> ('o \<times> 'w, 'e, unit) action" where
  "set_obj f = (\<lambda>(b, w). (AOk (), f b, w))"

definition kernel :: "('w \<Rightarrow> 'a \<times> 'w) \<Rightarrow> ('o \<times> 'w, 'e, 'a) action" where
  "kernel f = (\<lambda>(b, w). case f w of (a, w) \<Rightarrow> (AOk a, b, w))"

text \<open>From a state with \<open>P\<close> the action is not stuck; it returns with \<open>Q\<close> or throws with \<open>E\<close>.\<close>

definition triple :: "('s \<Rightarrow> bool) \<Rightarrow> ('s, 'e, 'a) action \<Rightarrow> ('a \<Rightarrow> 's \<Rightarrow> bool) \<Rightarrow> ('s \<Rightarrow> bool) \<Rightarrow> bool" where
  "triple P m Q E \<longleftrightarrow>
     (\<forall>s out s'. P s \<longrightarrow> m s = (out, s') \<longrightarrow> (case out of AOk a \<Rightarrow> Q a s' | AThrow e \<Rightarrow> E s' | AStuck \<Rightarrow> False))"

lemma act_simps [simp]:
  "act_ret a s = (AOk a, s)" "act_throw e s = (AThrow e, s)" "act_stuck s = (AStuck, s)"
  by (simp_all add: act_ret_def act_throw_def act_stuck_def)

lemma act_bind_out:
  "m s = (AOk a, s') \<Longrightarrow> act_bind m f s = f a s'"
  "m s = (AThrow e, s') \<Longrightarrow> act_bind m f s = (AThrow e, s')"
  "m s = (AStuck, s') \<Longrightarrow> act_bind m f s = (AStuck, s')"
  by (simp_all add: act_bind_def)

lemma act_seq_out:
  "m s = (AOk a, s') \<Longrightarrow> act_seq m n s = n s'"
  "m s = (AThrow e, s') \<Longrightarrow> act_seq m n s = (AThrow e, s')"
  by (simp_all add: act_seq_def act_bind_out)

lemma act_ok_out:
  "m s = (AOk ERR_OK, s') \<Longrightarrow> act_ok m n s = n s'"
  "m s = (AOk ret, s') \<Longrightarrow> ret \<noteq> ERR_OK \<Longrightarrow> act_ok m n s = (AOk ret, s')"
  "m s = (AThrow e, s') \<Longrightarrow> act_ok m n s = (AThrow e, s')"
  by (simp_all add: act_ok_def act_bind_out)

lemma triple_bind:
  assumes "triple P m R E" "\<And>a. triple (R a) (f a) Q E"
  shows "triple P (act_bind m f) Q E"
  unfolding triple_def
proof (intro allI impI)
  fix s out s'
  assume "P s" and b: "act_bind m f s = (out, s')"
  obtain o1 s1 where m: "m s = (o1, s1)" by (cases "m s")
  with assms(1) \<open>P s\<close> have c: "case o1 of AOk a \<Rightarrow> R a s1 | AThrow e \<Rightarrow> E s1 | AStuck \<Rightarrow> False" unfolding triple_def by blast
  show "case out of AOk a \<Rightarrow> Q a s' | AThrow e \<Rightarrow> E s' | AStuck \<Rightarrow> False"
  proof (cases o1)
    case (AOk a)
    then have "f a s1 = (out, s')" "R a s1" using b c m by (simp_all add: act_bind_def)
    with assms(2) [of a] show ?thesis unfolding triple_def by blast
  qed (use b c m in \<open>auto simp: act_bind_def\<close>)
qed

lemma triple_call:
  assumes "triple P m Q E" "P s" "m s = (out, s')" "\<And>a s. Q a s \<Longrightarrow> I s" "\<And>s. E s \<Longrightarrow> I s"
  shows "out \<noteq> AStuck \<and> I s'"
proof -
  have "case out of AOk a \<Rightarrow> Q a s' | AThrow e \<Rightarrow> E s' | AStuck \<Rightarrow> False" using assms(1-3) unfolding triple_def by blast
  then show ?thesis using assms(4,5) by (cases out) auto
qed

lemma triple_seq: "triple P m (\<lambda>_. R) E \<Longrightarrow> triple R n Q E \<Longrightarrow> triple P (act_seq m n) Q E"
  unfolding act_seq_def by (rule triple_bind)

lemma triple_ret: "(\<And>s. P s \<Longrightarrow> Q a s) \<Longrightarrow> triple P (act_ret a) Q E"
  by (simp add: triple_def)

lemma triple_throw: "(\<And>s. P s \<Longrightarrow> E s) \<Longrightarrow> triple P (act_throw e) Q E"
  by (simp add: triple_def)

lemma triple_ok:
  assumes "triple P m (\<lambda>ret s. if IS_OK ret then R s else Q ret s) E" "triple R n Q E"
  shows "triple P (act_ok m n) Q E"
  unfolding act_ok_def
proof (rule triple_bind [OF assms(1)])
  show "triple (\<lambda>s. if IS_OK ret then R s else Q ret s) (if IS_OK ret then n else act_ret ret) Q E" for ret
    using assms(2) by (cases "IS_OK ret") (auto intro: triple_ret)
qed

lemma triple_pre: "triple P' m Q E \<Longrightarrow> (\<And>s. P s \<Longrightarrow> P' s) \<Longrightarrow> triple P m Q E"
  unfolding triple_def by blast

lemma triple_post: "triple P m Q' E' \<Longrightarrow> (\<And>a s. Q' a s \<Longrightarrow> Q a s) \<Longrightarrow> (\<And>s. E' s \<Longrightarrow> E s) \<Longrightarrow> triple P m Q E"
  unfolding triple_def
proof (intro allI impI)
  fix s out s'
  assume t: "\<forall>s out s'. P s \<longrightarrow> m s = (out, s') \<longrightarrow> (case out of AOk a \<Rightarrow> Q' a s' | AThrow e \<Rightarrow> E' s' | AStuck \<Rightarrow> False)"
    and Q: "\<And>a s. Q' a s \<Longrightarrow> Q a s" and E: "\<And>s. E' s \<Longrightarrow> E s" and "P s" "m s = (out, s')"
  then have "case out of AOk a \<Rightarrow> Q' a s' | AThrow e \<Rightarrow> E' s' | AStuck \<Rightarrow> False" by blast
  then show "case out of AOk a \<Rightarrow> Q a s' | AThrow e \<Rightarrow> E s' | AStuck \<Rightarrow> False" using Q E by (cases out) auto
qed

lemma triple_if: "(b \<Longrightarrow> triple P m Q E) \<Longrightarrow> (\<not> b \<Longrightarrow> triple P n Q E) \<Longrightarrow> triple P (if b then m else n) Q E"
  by simp

end
