(* ===== verification/Redis_Client.thy ===== *)
theory Redis_Client
  imports Action Hui_Str
begin

text \<open>
  The redis client: \<^verbatim>\<open>src/nosql/hredis.h\<close> and \<^verbatim>\<open>hredis.cpp\<close>.

  hiredis and the base library this file is compiled against are not part of the repository: connecting, sending a
  command, formatting a text and the macro \<^verbatim>\<open>HRET_BOOL\<close> are fields of \<open>hiredis\<close>, a parameter of every operation, and
  the numbers of the error codes are \<open>err_no\<close>. What the operations do to the objects of hiredis is explicit: the state
  counts the contexts and replies that have been allocated and not been freed.
\<close>

subsection \<open>hiredis\<close>

datatype (discs_sels) reply =
    REPLY_STATUS string | REPLY_INTEGER int | REPLY_STRING string | REPLY_NIL | REPLY_ARRAY "reply list" | REPLY_ERROR string

text \<open>The field \<^verbatim>\<open>str\<close> of a reply: null where the reply has no text.\<close>

fun reply_str :: "reply \<Rightarrow> string option" where
  "reply_str (REPLY_STATUS s) = Some s"
| "reply_str (REPLY_STRING s) = Some s"
| "reply_str (REPLY_ERROR s) = Some s"
| "reply_str _ = None"

datatype rds_code = RDS_OK | RDS_ERR | UN_INIT | RDS_INVL_PARA | RDS_MEMORY_OUT

datatype farg = FS string | FD int

text \<open>Connecting gives a null pointer or a context with its error flag; a command gives a reply or a null pointer and the
  error flag of the context afterwards.\<close>

record 'w hiredis =
  lib_connect :: "string \<Rightarrow> HUN \<Rightarrow> 'w \<Rightarrow> bool option \<times> 'w"
  lib_command :: "string \<Rightarrow> 'w \<Rightarrow> reply option \<times> bool \<times> 'w"
  Format :: "string \<Rightarrow> farg list \<Rightarrow> string"
  HRET_BOOL :: "int \<Rightarrow> bool"
  err_no :: "rds_code \<Rightarrow> int"

record NoSqlConnectionInfo =
  strIp :: string
  nPort :: HUN
  strPw :: string
  strName :: string

text \<open>The object: \<^verbatim>\<open>m_context\<close> is null or points to a context, of which the code reads the error flag.\<close>

record CRedis =
  m_context :: "bool option"
  m_info :: NoSqlConnectionInfo

record 'w redis_world =
  world :: 'w
  contexts :: nat
  replies :: nat

subsection \<open>Calls of the library\<close>

text \<open>Actions on the object and the world.\<close>

type_synonym ('w, 'a) redis_action = "(CRedis \<times> 'w redis_world, rds_code, 'a) action"

definition redisConnect :: "'w hiredis \<Rightarrow> ('w, bool option) redis_action" where
  "redisConnect L = (\<lambda>(c, y). let (p, w) = lib_connect L (strIp (m_info c)) (nPort (m_info c)) (world y)
     in (AOk p, c, y\<lparr>world := w, contexts := contexts y + (if p = None then 0 else 1)\<rparr>))"

definition redisFree :: "('w, unit) redis_action" where
  "redisFree = (\<lambda>(c, y). if m_context c = None \<or> contexts y = 0 then (AStuck, c, y) else (AOk (), c, y\<lparr>contexts := contexts y - 1\<rparr>))"

text \<open>A command on a null context is an access through a null pointer.\<close>

definition redisCommand :: "'w hiredis \<Rightarrow> string \<Rightarrow> ('w, reply option) redis_action" where
  "redisCommand L cmd = (\<lambda>(c, y). case m_context c of
       None \<Rightarrow> (AStuck, c, y)
     | Some _ \<Rightarrow> let (r, err, w) = lib_command L cmd (world y)
         in (AOk r, c\<lparr>m_context := Some err\<rparr>, y\<lparr>world := w, replies := replies y + (if r = None then 0 else 1)\<rparr>))"

definition freeReplyObject :: "('w, unit) redis_action" where
  "freeReplyObject = (\<lambda>(c, y). if replies y = 0 then (AStuck, c, y) else (AOk (), c, y\<lparr>replies := replies y - 1\<rparr>))"

definition context_err :: "('w, bool) redis_action" where
  "context_err = (\<lambda>(c, y). case m_context c of None \<Rightarrow> (AStuck, c, y) | Some err \<Rightarrow> (AOk err, c, y))"

definition set_context :: "bool option \<Rightarrow> ('w, unit) redis_action" where
  "set_context p = (\<lambda>(c, y). (AOk (), c\<lparr>m_context := p\<rparr>, y))"

definition get_context :: "('w, bool option) redis_action" where
  "get_context = (\<lambda>(c, y). (AOk (m_context c), c, y))"

subsection \<open>The connection\<close>

definition CRedis_new :: "NoSqlConnectionInfo \<Rightarrow> CRedis" where
  "CRedis_new info = \<lparr>m_context = None, m_info = info\<rparr>"

definition CRedis_Init :: "'w hiredis \<Rightarrow> ('w, rds_code) redis_action" where
  "CRedis_Init L = act_bind (redisConnect L) (\<lambda>p. act_seq (set_context p)
     (case p of
        None \<Rightarrow> act_throw RDS_MEMORY_OUT
      | Some err \<Rightarrow> if err then act_throw RDS_ERR else act_ret RDS_OK))"

definition CRedis_Release :: "('w, unit) redis_action" where
  "CRedis_Release = act_bind get_context (\<lambda>p. if p \<noteq> None then act_seq redisFree (set_context None) else act_ret ())"

definition CRedis_Reinit :: "'w hiredis \<Rightarrow> ('w, rds_code) redis_action" where
  "CRedis_Reinit L = act_seq CRedis_Release (CRedis_Init L)"

definition CHECK_REDIS_INS :: "'w hiredis \<Rightarrow> ('w, unit) redis_action" where
  "CHECK_REDIS_INS L =
     act_bind get_context (\<lambda>p. act_seq (if p = None then act_seq (CRedis_Reinit L) (act_ret ()) else act_ret ())
       (act_bind get_context (\<lambda>p. if p \<noteq> None then act_ret () else act_throw UN_INIT)))"

subsection \<open>The macros\<close>

definition act_fail :: "'w hiredis \<Rightarrow> 'a \<Rightarrow> ('w, 'a) redis_action" where
  "act_fail L a = act_seq (CRedis_Reinit L) (act_ret a)"

definition SET_CMD :: "'w hiredis \<Rightarrow> string \<Rightarrow> ('w, rds_code) redis_action" where
  "SET_CMD L cmd = act_bind (redisCommand L cmd) (\<lambda>r. case r of
       None \<Rightarrow> act_fail L RDS_ERR
     | Some r \<Rightarrow> act_bind context_err (\<lambda>err.
         if err \<or> \<not> is_REPLY_STATUS r then act_seq freeReplyObject (act_fail L RDS_ERR)
         else if reply_str r \<noteq> Some ''OK'' then act_seq freeReplyObject (act_fail L RDS_ERR)
         else act_seq freeReplyObject (act_ret RDS_OK)))"

text \<open>The number of an integer reply is stored in an \<^verbatim>\<open>int\<close>.\<close>

fun reply_integer :: "reply \<Rightarrow> int" where
  "reply_integer (REPLY_INTEGER n) = signed_take_bit 31 n"
| "reply_integer _ = 0"

definition RET_BOOL_CMD :: "'w hiredis \<Rightarrow> string \<Rightarrow> ('w, bool) redis_action" where
  "RET_BOOL_CMD L cmd = act_bind (redisCommand L cmd) (\<lambda>r. case r of
       None \<Rightarrow> act_seq (CRedis_Reinit L) (act_throw RDS_ERR)
     | Some r \<Rightarrow> act_bind context_err (\<lambda>err.
         if err \<or> \<not> is_REPLY_INTEGER r then act_seq freeReplyObject (act_seq (CRedis_Reinit L) (act_throw RDS_ERR))
         else act_seq freeReplyObject (act_ret (HRET_BOOL L (reply_integer r)))))"

text \<open>The commands that fill \<^verbatim>\<open>val\<close> give the code and \<^verbatim>\<open>val\<close>.\<close>

definition GET_CMD :: "'w hiredis \<Rightarrow> string \<Rightarrow> string \<Rightarrow> ('w, rds_code \<times> string) redis_action" where
  "GET_CMD L cmd val = act_bind (redisCommand L cmd) (\<lambda>r. case r of
       None \<Rightarrow> act_fail L (RDS_ERR, val)
     | Some r \<Rightarrow> act_bind context_err (\<lambda>err.
         if err then act_seq freeReplyObject (act_fail L (RDS_ERR, val))
         else if r = REPLY_NIL then act_seq freeReplyObject (act_ret (RDS_OK, val))
         else if \<not> is_REPLY_STRING r then act_seq freeReplyObject (act_fail L (RDS_ERR, val))
         else case reply_str r of
                None \<Rightarrow> act_stuck
              | Some str \<Rightarrow> act_seq freeReplyObject (act_ret (RDS_OK, str))))"

definition RET_INT_CMD :: "'w hiredis \<Rightarrow> string \<Rightarrow> ('w, rds_code) redis_action" where
  "RET_INT_CMD L cmd = act_bind (redisCommand L cmd) (\<lambda>r. case r of
       None \<Rightarrow> act_fail L RDS_ERR
     | Some r \<Rightarrow> act_bind context_err (\<lambda>err.
         if err \<or> \<not> is_REPLY_INTEGER r then act_seq freeReplyObject (act_fail L RDS_ERR)
         else act_seq freeReplyObject (act_ret RDS_OK)))"

text \<open>Here \<^verbatim>\<open>HRETURN(RDS_ERR)\<close> returns the error code as the number asked for.\<close>

definition INT_RET_CMD :: "'w hiredis \<Rightarrow> string \<Rightarrow> ('w, int) redis_action" where
  "INT_RET_CMD L cmd = act_bind (redisCommand L cmd) (\<lambda>r. case r of
       None \<Rightarrow> act_fail L (err_no L RDS_ERR)
     | Some r \<Rightarrow> act_bind context_err (\<lambda>err.
         if err \<or> \<not> is_REPLY_INTEGER r then act_seq freeReplyObject (act_fail L (err_no L RDS_ERR))
         else act_seq freeReplyObject (act_ret (reply_integer r))))"

text \<open>The code behind \<^verbatim>\<open>CMD_EXCEPS\<close> runs with the elements of the array and frees the reply; \<open>early\<close> is what the method
  returns when there is nothing.\<close>

definition CMD_EXCEPS :: "'w hiredis \<Rightarrow> string \<Rightarrow> 'a \<Rightarrow> (reply list \<Rightarrow> ('w, rds_code \<times> 'a) redis_action) \<Rightarrow> ('w, rds_code \<times> 'a) redis_action" where
  "CMD_EXCEPS L cmd early rest = act_bind (redisCommand L cmd) (\<lambda>r. case r of
       None \<Rightarrow> act_fail L (RDS_ERR, early)
     | Some r \<Rightarrow> act_bind context_err (\<lambda>err.
         if err then act_seq freeReplyObject (act_fail L (RDS_ERR, early))
         else case r of
           REPLY_NIL \<Rightarrow> act_seq freeReplyObject (act_ret (RDS_OK, early))
         | REPLY_ARRAY es \<Rightarrow> rest es
         | _ \<Rightarrow> act_seq freeReplyObject (act_fail L (RDS_ERR, early))))"

subsection \<open>Single values\<close>

definition CRedis_Set :: "'w hiredis \<Rightarrow> string \<Rightarrow> string \<Rightarrow> ('w, rds_code) redis_action" where
  "CRedis_Set L key val = act_seq (CHECK_REDIS_INS L) (SET_CMD L (Format L ''SET %s %s'' [FS key, FS val]))"

definition CRedis_Setex :: "'w hiredis \<Rightarrow> string \<Rightarrow> string \<Rightarrow> int \<Rightarrow> ('w, rds_code) redis_action" where
  "CRedis_Setex L key val exp = act_seq (CHECK_REDIS_INS L) (SET_CMD L (Format L ''SETEX %s %d %s'' [FS key, FD exp, FS val]))"

definition CRedis_Setnx :: "'w hiredis \<Rightarrow> string \<Rightarrow> string \<Rightarrow> ('w, bool) redis_action" where
  "CRedis_Setnx L key val = act_seq (CHECK_REDIS_INS L) (RET_BOOL_CMD L (Format L ''SETNX %s %s'' [FS key, FS val]))"

definition CRedis_Get :: "'w hiredis \<Rightarrow> string \<Rightarrow> ('w, rds_code \<times> string) redis_action" where
  "CRedis_Get L key = act_seq (CHECK_REDIS_INS L) (GET_CMD L (Format L ''GET %s'' [FS key]) [])"

definition CRedis_Get_default :: "'w hiredis \<Rightarrow> string \<Rightarrow> string \<Rightarrow> ('w, rds_code \<times> string) redis_action" where
  "CRedis_Get_default L key defval = act_seq (CHECK_REDIS_INS L) (GET_CMD L (Format L ''GET %s'' [FS key]) defval)"

definition CRedis_Expire :: "'w hiredis \<Rightarrow> string \<Rightarrow> int \<Rightarrow> ('w, rds_code) redis_action" where
  "CRedis_Expire L key sec = act_seq (CHECK_REDIS_INS L)
     (if \<not> sec \<ge> 0 then act_ret RDS_INVL_PARA else RET_INT_CMD L (Format L ''EXPIRE %s %d'' [FS key, FD sec]))"

definition CRedis_Exists :: "'w hiredis \<Rightarrow> string \<Rightarrow> ('w, bool) redis_action" where
  "CRedis_Exists L key = act_seq (CHECK_REDIS_INS L) (RET_BOOL_CMD L (Format L ''EXISTS %s'' [FS key]))"

definition CRedis_Del :: "'w hiredis \<Rightarrow> string \<Rightarrow> ('w, rds_code) redis_action" where
  "CRedis_Del L key = act_seq (CHECK_REDIS_INS L) (RET_INT_CMD L (Format L ''DEL %s'' [FS key]))"

definition CRedis_Incr :: "'w hiredis \<Rightarrow> string \<Rightarrow> ('w, rds_code) redis_action" where
  "CRedis_Incr L key = act_seq (CHECK_REDIS_INS L) (RET_INT_CMD L (Format L ''INCR %s'' [FS key]))"

definition CRedis_Decr :: "'w hiredis \<Rightarrow> string \<Rightarrow> ('w, rds_code) redis_action" where
  "CRedis_Decr L key = act_seq (CHECK_REDIS_INS L) (RET_INT_CMD L (Format L ''DECR %s'' [FS key]))"

subsection \<open>Hashes\<close>

definition CRedis_HSet :: "'w hiredis \<Rightarrow> string \<Rightarrow> string \<Rightarrow> string \<Rightarrow> ('w, rds_code) redis_action" where
  "CRedis_HSet L key field val = act_seq (CHECK_REDIS_INS L) (RET_INT_CMD L (Format L ''HSET %s %s %s'' [FS key, FS field, FS val]))"

definition CRedis_HSetnx :: "'w hiredis \<Rightarrow> string \<Rightarrow> string \<Rightarrow> string \<Rightarrow> ('w, bool) redis_action" where
  "CRedis_HSetnx L key field val = act_seq (CHECK_REDIS_INS L) (RET_BOOL_CMD L (Format L ''HSETNX %s %s %s'' [FS key, FS field, FS val]))"

definition CRedis_HGet :: "'w hiredis \<Rightarrow> string \<Rightarrow> string \<Rightarrow> ('w, rds_code \<times> string) redis_action" where
  "CRedis_HGet L key field = act_seq (CHECK_REDIS_INS L) (GET_CMD L (Format L ''HGet %s %s'' [FS key, FS field]) [])"

definition CRedis_HGet_default :: "'w hiredis \<Rightarrow> string \<Rightarrow> string \<Rightarrow> string \<Rightarrow> ('w, rds_code \<times> string) redis_action" where
  "CRedis_HGet_default L key field defval = act_seq (CHECK_REDIS_INS L) (GET_CMD L (Format L ''HGet %s %s'' [FS key, FS field]) defval)"

definition CRedis_HExists :: "'w hiredis \<Rightarrow> string \<Rightarrow> string \<Rightarrow> ('w, bool) redis_action" where
  "CRedis_HExists L key field = act_seq (CHECK_REDIS_INS L) (RET_BOOL_CMD L (Format L ''HEXISTS %s %s'' [FS key, FS field]))"

definition CRedis_HDel :: "'w hiredis \<Rightarrow> string \<Rightarrow> string \<Rightarrow> ('w, rds_code) redis_action" where
  "CRedis_HDel L key field = act_seq (CHECK_REDIS_INS L) (RET_INT_CMD L (Format L ''HDEL %s %s'' [FS key, FS field]))"

definition CRedis_HLen :: "'w hiredis \<Rightarrow> string \<Rightarrow> ('w, int) redis_action" where
  "CRedis_HLen L key = act_seq (CHECK_REDIS_INS L) (INT_RET_CMD L (Format L ''HLEN %s'' [FS key]))"

definition CRedis_HIncrby :: "'w hiredis \<Rightarrow> string \<Rightarrow> string \<Rightarrow> int \<Rightarrow> ('w, rds_code) redis_action" where
  "CRedis_HIncrby L key field by_n = act_seq (CHECK_REDIS_INS L) (RET_INT_CMD L (Format L ''HINCRBY %s %s %d'' [FS key, FS field, FD by_n]))"

text \<open>The map keeps the first value of a key. Reading the text of an element that has none, or an element behind the last,
  is stuck.\<close>

fun HGetall_loop :: "reply list \<Rightarrow> (string \<times> string) list \<Rightarrow> (string \<times> string) list option" where
  "HGetall_loop (k # v # es) kvs =
     (case (reply_str k, reply_str v) of
        (Some k, Some v) \<Rightarrow> HGetall_loop es (if map_of kvs k = None then kvs @ [(k, v)] else kvs)
      | _ \<Rightarrow> None)"
| "HGetall_loop [] kvs = Some kvs"
| "HGetall_loop [_] kvs = None"

definition act_free :: "'a option \<Rightarrow> ('w, rds_code \<times> 'a) redis_action" where
  "act_free res = (case res of None \<Rightarrow> act_stuck | Some a \<Rightarrow> act_seq freeReplyObject (act_ret (RDS_OK, a)))"

definition CRedis_HGetall :: "'w hiredis \<Rightarrow> string \<Rightarrow> ('w, rds_code \<times> (string \<times> string) list) redis_action" where
  "CRedis_HGetall L key = act_seq (CHECK_REDIS_INS L)
     (CMD_EXCEPS L (Format L ''HGETALL %s'' [FS key]) [] (\<lambda>es. act_free (HGetall_loop es [])))"

fun push_strs :: "reply list \<Rightarrow> string list \<Rightarrow> string list option" where
  "push_strs [] strs = Some strs"
| "push_strs (e # es) strs = (case reply_str e of None \<Rightarrow> None | Some s \<Rightarrow> push_strs es (strs @ [s]))"

definition CRedis_HKeys :: "'w hiredis \<Rightarrow> string \<Rightarrow> ('w, rds_code \<times> string list) redis_action" where
  "CRedis_HKeys L key = act_seq (CHECK_REDIS_INS L)
     (CMD_EXCEPS L (Format L ''HKEYS %s'' [FS key]) [] (\<lambda>es. act_free (push_strs es [])))"

subsection \<open>Lists\<close>

definition pop_second :: "'w hiredis \<Rightarrow> reply list \<Rightarrow> ('w, rds_code \<times> string) redis_action" where
  "pop_second L es =
     (if length es < 2 then act_seq freeReplyObject (act_fail L (RDS_ERR, [])) else act_free (reply_str (es ! 1)))"

definition CRedis_BLPop :: "'w hiredis \<Rightarrow> string \<Rightarrow> int \<Rightarrow> ('w, rds_code \<times> string) redis_action" where
  "CRedis_BLPop L key timeout = act_seq (CHECK_REDIS_INS L)
     (CMD_EXCEPS L (Format L ''BLPOP %s %d'' [FS key, FD timeout]) [] (pop_second L))"

definition CRedis_BRPop :: "'w hiredis \<Rightarrow> string \<Rightarrow> int \<Rightarrow> ('w, rds_code \<times> string) redis_action" where
  "CRedis_BRPop L key timeout = act_seq (CHECK_REDIS_INS L)
     (CMD_EXCEPS L (Format L ''BRPOP %s %d'' [FS key, FD timeout]) [] (pop_second L))"

definition CRedis_LRem :: "'w hiredis \<Rightarrow> string \<Rightarrow> string \<Rightarrow> int \<Rightarrow> ('w, rds_code) redis_action" where
  "CRedis_LRem L key val count = act_seq (CHECK_REDIS_INS L) (RET_INT_CMD L (Format L ''LREM %s %d %s'' [FS key, FD count, FS val]))"

definition CRedis_LIndex :: "'w hiredis \<Rightarrow> string \<Rightarrow> int \<Rightarrow> ('w, rds_code \<times> string) redis_action" where
  "CRedis_LIndex L key index = act_seq (CHECK_REDIS_INS L) (GET_CMD L (Format L ''LINDEX %s %d'' [FS key, FD index]) [])"

definition CRedis_LLen :: "'w hiredis \<Rightarrow> string \<Rightarrow> ('w, int) redis_action" where
  "CRedis_LLen L key = act_seq (CHECK_REDIS_INS L) (INT_RET_CMD L (Format L ''LLEN %s'' [FS key]))"

definition CRedis_LPop :: "'w hiredis \<Rightarrow> string \<Rightarrow> ('w, rds_code \<times> string) redis_action" where
  "CRedis_LPop L key = act_seq (CHECK_REDIS_INS L) (GET_CMD L (Format L ''LPOP %s'' [FS key]) [])"

definition CRedis_LPush :: "'w hiredis \<Rightarrow> string \<Rightarrow> string \<Rightarrow> ('w, rds_code) redis_action" where
  "CRedis_LPush L key val = act_seq (CHECK_REDIS_INS L) (RET_INT_CMD L (Format L ''LPUSH %s %s'' [FS key, FS val]))"

definition CRedis_LRange :: "'w hiredis \<Rightarrow> string \<Rightarrow> int \<Rightarrow> int \<Rightarrow> ('w, rds_code \<times> string list) redis_action" where
  "CRedis_LRange L key first final = act_seq (CHECK_REDIS_INS L)
     (CMD_EXCEPS L (Format L ''LRANGE %s %d %d'' [FS key, FD first, FD final]) [] (\<lambda>es. act_free (push_strs es [])))"

definition CRedis_LSet :: "'w hiredis \<Rightarrow> string \<Rightarrow> int \<Rightarrow> string \<Rightarrow> ('w, rds_code) redis_action" where
  "CRedis_LSet L key index val = act_seq (CHECK_REDIS_INS L) (SET_CMD L (Format L ''LSET %s %d %s'' [FS key, FD index, FS val]))"

definition CRedis_RPop :: "'w hiredis \<Rightarrow> string \<Rightarrow> ('w, rds_code \<times> string) redis_action" where
  "CRedis_RPop L key = act_seq (CHECK_REDIS_INS L) (GET_CMD L (Format L ''RPOP %s'' [FS key]) [])"

definition CRedis_RPush :: "'w hiredis \<Rightarrow> string \<Rightarrow> string \<Rightarrow> ('w, rds_code) redis_action" where
  "CRedis_RPush L key val = act_seq (CHECK_REDIS_INS L) (RET_INT_CMD L (Format L ''RPUSH %s %s'' [FS key, FS val]))"

subsection \<open>Sets\<close>

definition CRedis_SAdd :: "'w hiredis \<Rightarrow> string \<Rightarrow> string \<Rightarrow> ('w, rds_code) redis_action" where
  "CRedis_SAdd L key val = act_seq (CHECK_REDIS_INS L) (RET_INT_CMD L (Format L ''SADD %s %s'' [FS key, FS val]))"

definition CRedis_SRem :: "'w hiredis \<Rightarrow> string \<Rightarrow> string \<Rightarrow> ('w, rds_code) redis_action" where
  "CRedis_SRem L key val = act_seq (CHECK_REDIS_INS L) (RET_INT_CMD L (Format L ''SREM %s %s'' [FS key, FS val]))"

definition CRedis_SCard :: "'w hiredis \<Rightarrow> string \<Rightarrow> ('w, int) redis_action" where
  "CRedis_SCard L key = act_seq (CHECK_REDIS_INS L) (INT_RET_CMD L (Format L ''SCARD %s'' [FS key]))"

definition CRedis_SIsMember :: "'w hiredis \<Rightarrow> string \<Rightarrow> string \<Rightarrow> ('w, bool) redis_action" where
  "CRedis_SIsMember L key val = act_seq (CHECK_REDIS_INS L) (RET_BOOL_CMD L (Format L ''SISMEMBER %s %s'' [FS key, FS val]))"

definition CRedis_SMembers :: "'w hiredis \<Rightarrow> string \<Rightarrow> ('w, rds_code \<times> string set) redis_action" where
  "CRedis_SMembers L key = act_seq (CHECK_REDIS_INS L)
     (CMD_EXCEPS L (Format L ''SMEMBERS %s'' [FS key]) {} (\<lambda>es. act_free (map_option set (push_strs es []))))"

subsection \<open>Calls\<close>

text \<open>A call of any method on an object, with the answer whether it was stuck. A thrown exception leaves a state as well.
  \<^verbatim>\<open>Init\<close> is called on an object without a connection.\<close>

inductive redis_call :: "'w hiredis \<Rightarrow> CRedis \<times> 'w redis_world \<Rightarrow> bool \<Rightarrow> CRedis \<times> 'w redis_world \<Rightarrow> bool"
  for L where
  call_Init: "m_context (fst s) = None \<Longrightarrow> CRedis_Init L s = (out, s') \<Longrightarrow> redis_call L s (out = AStuck) s'"
| call_Reinit: "CRedis_Reinit L s = (out, s') \<Longrightarrow> redis_call L s (out = AStuck) s'"
| call_Release: "CRedis_Release s = (out, s') \<Longrightarrow> redis_call L s (out = AStuck) s'"
| call_Set: "CRedis_Set L key val s = (out, s') \<Longrightarrow> redis_call L s (out = AStuck) s'"
| call_Setex: "CRedis_Setex L key val exp s = (out, s') \<Longrightarrow> redis_call L s (out = AStuck) s'"
| call_Setnx: "CRedis_Setnx L key val s = (out, s') \<Longrightarrow> redis_call L s (out = AStuck) s'"
| call_Get: "CRedis_Get L key s = (out, s') \<Longrightarrow> redis_call L s (out = AStuck) s'"
| call_Get_default: "CRedis_Get_default L key defval s = (out, s') \<Longrightarrow> redis_call L s (out = AStuck) s'"
| call_Expire: "CRedis_Expire L key sec s = (out, s') \<Longrightarrow> redis_call L s (out = AStuck) s'"
| call_Exists: "CRedis_Exists L key s = (out, s') \<Longrightarrow> redis_call L s (out = AStuck) s'"
| call_Del: "CRedis_Del L key s = (out, s') \<Longrightarrow> redis_call L s (out = AStuck) s'"
| call_Incr: "CRedis_Incr L key s = (out, s') \<Longrightarrow> redis_call L s (out = AStuck) s'"
| call_Decr: "CRedis_Decr L key s = (out, s') \<Longrightarrow> redis_call L s (out = AStuck) s'"
| call_HSet: "CRedis_HSet L key field val s = (out, s') \<Longrightarrow> redis_call L s (out = AStuck) s'"
| call_HSetnx: "CRedis_HSetnx L key field val s = (out, s') \<Longrightarrow> redis_call L s (out = AStuck) s'"
| call_HGet: "CRedis_HGet L key field s = (out, s') \<Longrightarrow> redis_call L s (out = AStuck) s'"
| call_HGet_default: "CRedis_HGet_default L key field defval s = (out, s') \<Longrightarrow> redis_call L s (out = AStuck) s'"
| call_HExists: "CRedis_HExists L key field s = (out, s') \<Longrightarrow> redis_call L s (out = AStuck) s'"
| call_HDel: "CRedis_HDel L key field s = (out, s') \<Longrightarrow> redis_call L s (out = AStuck) s'"
| call_HLen: "CRedis_HLen L key s = (out, s') \<Longrightarrow> redis_call L s (out = AStuck) s'"
| call_HIncrby: "CRedis_HIncrby L key field by_n s = (out, s') \<Longrightarrow> redis_call L s (out = AStuck) s'"
| call_HGetall: "CRedis_HGetall L key s = (out, s') \<Longrightarrow> redis_call L s (out = AStuck) s'"
| call_HKeys: "CRedis_HKeys L key s = (out, s') \<Longrightarrow> redis_call L s (out = AStuck) s'"
| call_BLPop: "CRedis_BLPop L key timeout s = (out, s') \<Longrightarrow> redis_call L s (out = AStuck) s'"
| call_BRPop: "CRedis_BRPop L key timeout s = (out, s') \<Longrightarrow> redis_call L s (out = AStuck) s'"
| call_LRem: "CRedis_LRem L key val count s = (out, s') \<Longrightarrow> redis_call L s (out = AStuck) s'"
| call_LIndex: "CRedis_LIndex L key index s = (out, s') \<Longrightarrow> redis_call L s (out = AStuck) s'"
| call_LLen: "CRedis_LLen L key s = (out, s') \<Longrightarrow> redis_call L s (out = AStuck) s'"
| call_LPop: "CRedis_LPop L key s = (out, s') \<Longrightarrow> redis_call L s (out = AStuck) s'"
| call_LPush: "CRedis_LPush L key val s = (out, s') \<Longrightarrow> redis_call L s (out = AStuck) s'"
| call_LRange: "CRedis_LRange L key first final s = (out, s') \<Longrightarrow> redis_call L s (out = AStuck) s'"
| call_LSet: "CRedis_LSet L key index val s = (out, s') \<Longrightarrow> redis_call L s (out = AStuck) s'"
| call_RPop: "CRedis_RPop L key s = (out, s') \<Longrightarrow> redis_call L s (out = AStuck) s'"
| call_RPush: "CRedis_RPush L key val s = (out, s') \<Longrightarrow> redis_call L s (out = AStuck) s'"
| call_SAdd: "CRedis_SAdd L key val s = (out, s') \<Longrightarrow> redis_call L s (out = AStuck) s'"
| call_SRem: "CRedis_SRem L key val s = (out, s') \<Longrightarrow> redis_call L s (out = AStuck) s'"
| call_SCard: "CRedis_SCard L key s = (out, s') \<Longrightarrow> redis_call L s (out = AStuck) s'"
| call_SIsMember: "CRedis_SIsMember L key val s = (out, s') \<Longrightarrow> redis_call L s (out = AStuck) s'"
| call_SMembers: "CRedis_SMembers L key s = (out, s') \<Longrightarrow> redis_call L s (out = AStuck) s'"

subsection \<open>What holds after a call\<close>

text \<open>The objects of hiredis that exist: \<open>k\<close> replies, and a context exactly if \<^verbatim>\<open>m_context\<close> points to it.\<close>

definition rds_inv :: "nat \<Rightarrow> CRedis \<times> 'w redis_world \<Rightarrow> bool" where
  "rds_inv k = (\<lambda>(c, y). replies y = k \<and> contexts y = (if m_context c = None then 0 else 1))"

definition connected :: "nat \<Rightarrow> CRedis \<times> 'w redis_world \<Rightarrow> bool" where
  "connected k s \<longleftrightarrow> rds_inv k s \<and> m_context (fst s) \<noteq> None"

lemma connected_inv [simp]: "connected k s \<Longrightarrow> rds_inv k s"
  by (simp add: connected_def)

lemma triple_Release: "triple (rds_inv k) CRedis_Release (\<lambda>_ s. rds_inv k s \<and> m_context (fst s) = None) E"
  by (auto simp: triple_def CRedis_Release_def act_bind_def act_seq_def get_context_def set_context_def redisFree_def rds_inv_def
      split: if_splits)

lemma triple_Init: "triple (\<lambda>s. rds_inv k s \<and> m_context (fst s) = None) (CRedis_Init L) (\<lambda>_. connected k) (rds_inv k)"
  by (auto simp: triple_def CRedis_Init_def act_bind_def act_seq_def set_context_def redisConnect_def rds_inv_def
      connected_def split: prod.splits option.splits)

lemma triple_Reinit: "triple (rds_inv k) (CRedis_Reinit L) (\<lambda>_. connected k) (rds_inv k)"
  unfolding CRedis_Reinit_def by (rule triple_seq [OF triple_Release triple_Init])

lemma triple_get: "triple P get_context (\<lambda>p s. P s \<and> p = m_context (fst s)) E"
  by (auto simp: triple_def get_context_def)

lemma triple_CHECK: "triple (rds_inv 0) (CHECK_REDIS_INS L) (\<lambda>_. connected 0) (rds_inv 0)"
  unfolding CHECK_REDIS_INS_def
proof (rule triple_bind [OF triple_get])
  fix p
  show "triple (\<lambda>s. rds_inv 0 s \<and> p = m_context (fst s))
      (act_seq (if p = None then act_seq (CRedis_Reinit L) (act_ret ()) else act_ret ())
        (act_bind get_context (\<lambda>p. if p \<noteq> None then act_ret () else act_throw UN_INIT))) (\<lambda>_. connected 0) (rds_inv 0)"
  proof (rule triple_seq [where R = "connected 0"])
    show "triple (\<lambda>s. rds_inv 0 s \<and> p = m_context (fst s))
        (if p = None then act_seq (CRedis_Reinit L) (act_ret ()) else act_ret ()) (\<lambda>_. connected 0) (rds_inv 0)"
    proof (cases p)
      case None
      then show ?thesis by (auto intro!: triple_seq [OF triple_pre [OF triple_Reinit]] triple_ret)
    next
      case (Some e)
      have "connected 0 s" if "rds_inv 0 s \<and> p = m_context (fst s)" for s
        using that Some unfolding connected_def by (metis option.distinct(1))
      with Some show ?thesis by (auto intro!: triple_ret)
    qed
    show "triple (connected 0) (act_bind get_context (\<lambda>p. if p \<noteq> None then act_ret () else act_throw UN_INIT)) (\<lambda>_. connected 0) (rds_inv 0)"
      by (rule triple_bind [OF triple_get]) (auto intro!: triple_ret triple_throw)
  qed
qed

lemma CHECK_connected: "m_context c \<noteq> None \<Longrightarrow> CHECK_REDIS_INS L (c, y) = (AOk (), c, y)"
  by (simp add: CHECK_REDIS_INS_def act_bind_def act_seq_def get_context_def del: not_None_eq)

lemma triple_free: "triple (rds_inv (Suc k)) freeReplyObject (\<lambda>_. rds_inv k) E" "triple (connected (Suc k)) freeReplyObject (\<lambda>_. connected k) E"
  by (auto simp: triple_def freeReplyObject_def rds_inv_def connected_def)

lemma triple_fail: "triple (connected k) (act_fail L a) (\<lambda>_. connected k) (rds_inv k)"
  unfolding act_fail_def by (rule triple_seq [OF triple_pre [OF triple_Reinit]]) (auto intro: triple_ret)

lemma triple_free_fail: "triple (connected (Suc 0)) (act_seq freeReplyObject (act_fail L a)) (\<lambda>_. connected 0) (rds_inv 0)"
  by (rule triple_seq [OF triple_free(2) triple_fail])

lemma triple_free_ret: "triple (connected (Suc 0)) (act_seq freeReplyObject (act_ret a)) (\<lambda>_. connected 0) (rds_inv 0)"
  by (rule triple_seq [OF triple_free(2) triple_ret])

lemma triple_free_throw: "triple (connected (Suc 0)) (act_seq freeReplyObject (act_seq (CRedis_Reinit L) (act_throw e))) (\<lambda>_. connected 0) (rds_inv 0)"
  by (rule triple_seq [OF triple_free(2)], rule triple_seq [OF triple_pre [OF triple_Reinit]]) (auto intro: triple_throw)

lemma triple_err: "triple (connected k) context_err (\<lambda>_. connected k) E"
  by (auto simp: triple_def context_err_def connected_def split: option.splits)

text \<open>What a command may answer: anything, but the elements of an array have texts.\<close>

definition texts_law :: "'w hiredis \<Rightarrow> bool" where
  "texts_law L \<longleftrightarrow> (\<forall>cmd w es err w'. lib_command L cmd w = (Some (REPLY_ARRAY es), err, w') \<longrightarrow> list_all (\<lambda>e. reply_str e \<noteq> None) es)"

definition pairs_law :: "'w hiredis \<Rightarrow> bool" where
  "pairs_law L \<longleftrightarrow> (\<forall>key w es err w'. lib_command L (Format L ''HGETALL %s'' [FS key]) w = (Some (REPLY_ARRAY es), err, w') \<longrightarrow> even (length es))"

definition answers :: "'w hiredis \<Rightarrow> string \<Rightarrow> reply \<Rightarrow> bool" where
  "answers L cmd r \<longleftrightarrow> (\<exists>w err w'. lib_command L cmd w = (Some r, err, w'))"

lemma triple_command:
  assumes "triple (connected 0) fail Q E" "\<And>r. answers L cmd r \<Longrightarrow> triple (connected (Suc 0)) (body r) Q E"
  shows "triple (connected 0) (act_bind (redisCommand L cmd) (\<lambda>r. case r of None \<Rightarrow> fail | Some r \<Rightarrow> body r)) Q E"
proof (rule triple_bind)
  let ?R = "\<lambda>r s. case r of None \<Rightarrow> connected 0 s | Some r \<Rightarrow> answers L cmd r \<and> connected (Suc 0) s"
  show "triple (connected 0) (redisCommand L cmd) ?R E"
    by (auto simp: triple_def redisCommand_def connected_def rds_inv_def answers_def split: option.splits prod.splits)
  show "triple (?R r) (case r of None \<Rightarrow> fail | Some r \<Rightarrow> body r) Q E" for r
    using assms by (cases r) (auto simp: triple_def)
qed

lemma triple_err_if:
  assumes "triple (connected (Suc 0)) m (\<lambda>_. connected 0) (rds_inv 0)" "\<And>err. triple (connected (Suc 0)) (n err) (\<lambda>_. connected 0) (rds_inv 0)"
  shows "triple (connected (Suc 0)) (act_bind context_err (\<lambda>err. if b err then m else n err)) (\<lambda>_. connected 0) (rds_inv 0)"
  by (rule triple_bind [OF triple_err]) (use assms in auto)

named_theorems rds_cmd \<open>every macro frees what it gets\<close>

lemma triple_SET_CMD [rds_cmd]: "triple (connected 0) (SET_CMD L cmd) (\<lambda>_. connected 0) (rds_inv 0)"
  unfolding SET_CMD_def
  by (rule triple_command [OF triple_fail], rule triple_err_if [OF triple_free_fail]) (simp add: triple_free_fail triple_free_ret)

lemma triple_RET_BOOL_CMD [rds_cmd]: "triple (connected 0) (RET_BOOL_CMD L cmd) (\<lambda>_. connected 0) (rds_inv 0)"
  unfolding RET_BOOL_CMD_def
  by (rule triple_command [OF triple_seq [OF triple_pre [OF triple_Reinit] triple_throw]])
    (auto intro!: triple_err_if triple_free_throw triple_free_ret)

lemma triple_GET_CMD [rds_cmd]: "triple (connected 0) (GET_CMD L cmd val) (\<lambda>_. connected 0) (rds_inv 0)"
  unfolding GET_CMD_def
proof (rule triple_command [OF triple_fail], rule triple_err_if [OF triple_free_fail])
  show "triple (connected (Suc 0)) (if r = REPLY_NIL then act_seq freeReplyObject (act_ret (RDS_OK, val))
      else if \<not> is_REPLY_STRING r then act_seq freeReplyObject (act_fail L (RDS_ERR, val))
      else case reply_str r of None \<Rightarrow> act_stuck | Some str \<Rightarrow> act_seq freeReplyObject (act_ret (RDS_OK, str))) (\<lambda>_. connected 0) (rds_inv 0)" for r
    by (cases r) (simp_all add: triple_free_fail triple_free_ret)
qed

lemma triple_RET_INT_CMD [rds_cmd]: "triple (connected 0) (RET_INT_CMD L cmd) (\<lambda>_. connected 0) (rds_inv 0)"
  unfolding RET_INT_CMD_def
  by (rule triple_command [OF triple_fail], rule triple_err_if [OF triple_free_fail triple_free_ret])

lemma triple_INT_RET_CMD [rds_cmd]: "triple (connected 0) (INT_RET_CMD L cmd) (\<lambda>_. connected 0) (rds_inv 0)"
  unfolding INT_RET_CMD_def
  by (rule triple_command [OF triple_fail], rule triple_err_if [OF triple_free_fail triple_free_ret])

lemma triple_CMD_EXCEPS:
  assumes "\<And>es. answers L cmd (REPLY_ARRAY es) \<Longrightarrow> triple (connected (Suc 0)) (rest es) (\<lambda>_. connected 0) (rds_inv 0)"
  shows "triple (connected 0) (CMD_EXCEPS L cmd early rest) (\<lambda>_. connected 0) (rds_inv 0)"
  unfolding CMD_EXCEPS_def
  by (rule triple_command [OF triple_fail], rule triple_err_if [OF triple_free_fail])
    (auto simp: assms triple_free_fail triple_free_ret split: reply.split)

lemma triple_act_free: "a \<noteq> None \<Longrightarrow> triple (connected (Suc 0)) (act_free a) (\<lambda>_. connected 0) (rds_inv 0)"
  by (auto simp: act_free_def triple_free_ret)

lemma push_strs_texts: "list_all (\<lambda>e. reply_str e \<noteq> None) es \<Longrightarrow> push_strs es strs \<noteq> None"
  by (induction es arbitrary: strs) auto

lemma HGetall_loop_pairs: "list_all (\<lambda>e. reply_str e \<noteq> None) es \<Longrightarrow> even (length es) \<Longrightarrow> HGetall_loop es kvs \<noteq> None"
  by (induction es kvs rule: HGetall_loop.induct) auto

lemma texts_answer: "texts_law L \<Longrightarrow> answers L cmd (REPLY_ARRAY es) \<Longrightarrow> list_all (\<lambda>e. reply_str e \<noteq> None) es"
  unfolding texts_law_def answers_def by blast

lemma pairs_answer: "pairs_law L \<Longrightarrow> answers L (Format L ''HGETALL %s'' [FS key]) (REPLY_ARRAY es) \<Longrightarrow> even (length es)"
  unfolding pairs_law_def answers_def by blast

lemma triple_strs [rds_cmd]:
  assumes "texts_law L"
  shows "triple (connected 0) (CMD_EXCEPS L cmd [] (\<lambda>es. act_free (push_strs es []))) (\<lambda>_. connected 0) (rds_inv 0)"
  using texts_answer [OF assms] push_strs_texts by (auto intro!: triple_CMD_EXCEPS triple_act_free)

lemma triple_set [rds_cmd]:
  assumes "texts_law L"
  shows "triple (connected 0) (CMD_EXCEPS L cmd {} (\<lambda>es. act_free (map_option set (push_strs es [])))) (\<lambda>_. connected 0) (rds_inv 0)"
  using texts_answer [OF assms] push_strs_texts by (auto intro!: triple_CMD_EXCEPS triple_act_free)

lemma triple_pairs [rds_cmd]:
  assumes "texts_law L" "pairs_law L"
  shows "triple (connected 0) (CMD_EXCEPS L (Format L ''HGETALL %s'' [FS key]) [] (\<lambda>es. act_free (HGetall_loop es []))) (\<lambda>_. connected 0) (rds_inv 0)"
  using texts_answer [OF assms(1)] pairs_answer [OF assms(2)] HGetall_loop_pairs by (auto intro!: triple_CMD_EXCEPS triple_act_free)

lemma triple_pop [rds_cmd]:
  assumes "texts_law L"
  shows "triple (connected 0) (CMD_EXCEPS L cmd [] (pop_second L)) (\<lambda>_. connected 0) (rds_inv 0)"
proof (rule triple_CMD_EXCEPS)
  fix es
  assume "answers L cmd (REPLY_ARRAY es)"
  then have "reply_str (es ! 1) \<noteq> None" if "\<not> length es < 2" using texts_answer [OF assms] that by (auto simp: list_all_length)
  then show "triple (connected (Suc 0)) (pop_second L es) (\<lambda>_. connected 0) (rds_inv 0)"
    by (auto simp: pop_second_def triple_free_fail intro!: triple_act_free)
qed

lemma triple_expire [rds_cmd]:
  "triple (connected 0) (if \<not> sec \<ge> 0 then act_ret RDS_INVL_PARA else RET_INT_CMD L cmd) (\<lambda>_. connected 0) (rds_inv 0)"
  by (auto intro: triple_ret triple_RET_INT_CMD)

lemma method_call:
  assumes "triple (connected 0) body (\<lambda>_. connected 0) (rds_inv 0)" "act_seq (CHECK_REDIS_INS L) body s = (out, s')" "rds_inv 0 s"
  shows "out \<noteq> AStuck \<and> rds_inv 0 s'"
  by (rule triple_call [OF triple_seq [OF triple_CHECK assms(1)] assms(3,2)]) simp_all

lemmas rds_calls = rds_cmd [THEN method_call]

lemmas rds_methods = CRedis_Set_def CRedis_Setex_def CRedis_Setnx_def CRedis_Get_def CRedis_Get_default_def CRedis_Expire_def CRedis_Exists_def CRedis_Del_def CRedis_Incr_def CRedis_Decr_def CRedis_HSet_def CRedis_HSetnx_def
  CRedis_HGet_def CRedis_HGet_default_def CRedis_HExists_def CRedis_HDel_def CRedis_HLen_def CRedis_HIncrby_def CRedis_HGetall_def CRedis_HKeys_def CRedis_BLPop_def CRedis_BRPop_def CRedis_LRem_def CRedis_LIndex_def
  CRedis_LLen_def CRedis_LPop_def CRedis_LPush_def CRedis_LRange_def CRedis_LSet_def CRedis_RPop_def CRedis_RPush_def CRedis_SAdd_def CRedis_SRem_def CRedis_SCard_def CRedis_SIsMember_def CRedis_SMembers_def

lemma redis_call_inv:
  assumes "redis_call L s stuck s'" "texts_law L" "pairs_law L" "rds_inv 0 s"
  shows "\<not> stuck \<and> rds_inv 0 s'"
  using assms
proof cases
  case (call_Init out)
  then show ?thesis using triple_call [OF triple_Init [of 0 L], of s out s' "rds_inv 0"] assms(4) by simp
next
  case (call_Reinit out)
  then show ?thesis using triple_call [OF triple_Reinit [of 0 L], of s out s' "rds_inv 0"] assms(4) by simp
next
  case (call_Release out)
  then show ?thesis using triple_call [OF triple_Release [of 0 "\<lambda>_. False"], of s out s' "rds_inv 0"] assms(4) by simp
qed (unfold rds_methods, (use assms(2-4) in \<open>blast dest: rds_calls\<close>)+)

subsection \<open>No reply and no connection is lost\<close>

definition redis_start :: "NoSqlConnectionInfo \<Rightarrow> 'w \<Rightarrow> CRedis \<times> 'w redis_world" where
  "redis_start info w = (CRedis_new info, \<lparr>world = w, contexts = 0, replies = 0\<rparr>)"


text \<open>A second \<^verbatim>\<open>Init\<close> forgets the first connection.\<close>

lemma Init_twice_leaks:
  assumes "m_context c = Some e" "contexts y = 1" "lib_connect L (strIp (m_info c)) (nPort (m_info c)) (world y) = (Some False, w)"
  shows "contexts (snd (snd (CRedis_Init L (c, y)))) = 2"
  using assms by (simp add: CRedis_Init_def act_bind_def act_seq_def set_context_def redisConnect_def)

text \<open>The length of something that is no hash, asked for over a connection that can be renewed, is the number of the error code.\<close>

lemma HLen_error_as_length:
  assumes "m_context c = Some False" "contexts y = 1"
    "lib_command L (Format L ''HLEN %s'' [FS key]) (world y) = (Some (REPLY_ERROR msg), False, w)"
    "lib_connect L (strIp (m_info c)) (nPort (m_info c)) w = (Some False, w')"
  shows "fst (CRedis_HLen L key (c, y)) = AOk (err_no L RDS_ERR)"
  using assms
  by (simp add: CRedis_HLen_def INT_RET_CMD_def CHECK_connected act_bind_def act_seq_def act_fail_def get_context_def redisCommand_def
      context_err_def freeReplyObject_def CRedis_Reinit_def CRedis_Release_def redisFree_def set_context_def CRedis_Init_def redisConnect_def)

subsection \<open>A store of values\<close>

text \<open>A working server that keeps a map from words to words, and the texts of its commands.\<close>

definition word_ok :: "string \<Rightarrow> bool" where
  "word_ok s \<longleftrightarrow> s \<noteq> [] \<and> CHR '' '' \<notin> set s \<and> CHR ''%'' \<notin> set s"

definition format_law :: "'w hiredis \<Rightarrow> bool" where
  "format_law L \<longleftrightarrow> (\<forall>k v. Format L ''SET %s %s'' [FS k, FS v] = ''SET '' @ k @ '' '' @ v \<and>
     Format L ''GET %s'' [FS k] = ''GET '' @ k \<and> Format L ''DEL %s'' [FS k] = ''DEL '' @ k)"

definition store_law :: "(string \<rightharpoonup> string) hiredis \<Rightarrow> bool" where
  "store_law L \<longleftrightarrow> (\<forall>m k v. word_ok k \<longrightarrow> word_ok v \<longrightarrow>
     lib_command L (''SET '' @ k @ '' '' @ v) m = (Some (REPLY_STATUS ''OK''), False, m(k \<mapsto> v)) \<and>
     lib_command L (''GET '' @ k) m = (Some (case m k of None \<Rightarrow> REPLY_NIL | Some x \<Rightarrow> REPLY_STRING x), False, m) \<and>
     lib_command L (''DEL '' @ k) m = (Some (REPLY_INTEGER (if m k = None then 0 else 1)), False, m(k := None)))"

definition online :: "(string \<rightharpoonup> string) \<Rightarrow> CRedis \<times> (string \<rightharpoonup> string) redis_world \<Rightarrow> bool" where
  "online m = (\<lambda>(c, y). m_context c = Some False \<and> world y = m \<and> contexts y = 1 \<and> replies y = 0)"

lemmas act_defs = CHECK_connected act_bind_def act_seq_def get_context_def redisCommand_def context_err_def
  freeReplyObject_def

lemma Set_online:
  assumes "format_law L" "store_law L" "word_ok k" "word_ok v" "online m s"
  shows "\<exists>s'. CRedis_Set L k v s = (AOk RDS_OK, s') \<and> online (m(k \<mapsto> v)) s'"
proof -
  have "lib_command L (Format L ''SET %s %s'' [FS k, FS v]) m = (Some (REPLY_STATUS ''OK''), False, m(k \<mapsto> v))"
    using assms(1-4) by (simp add: format_law_def store_law_def)
  then show ?thesis using assms(5) by (cases s) (simp add: CRedis_Set_def SET_CMD_def act_defs online_def)
qed

lemma Get_online:
  assumes "format_law L" "store_law L" "word_ok k" "online m s"
  shows "\<exists>s'. CRedis_Get_default L k d s = (AOk (RDS_OK, case m k of None \<Rightarrow> d | Some x \<Rightarrow> x), s') \<and> online m s'"
proof -
  have "lib_command L (Format L ''GET %s'' [FS k]) m = (Some (case m k of None \<Rightarrow> REPLY_NIL | Some x \<Rightarrow> REPLY_STRING x), False, m)"
    using assms(1-3) unfolding format_law_def store_law_def by metis
  then show ?thesis using assms(4) by (cases s; cases "m k") (simp_all add: CRedis_Get_default_def GET_CMD_def act_defs online_def)
qed

lemma Del_online:
  assumes "format_law L" "store_law L" "word_ok k" "online m s"
  shows "\<exists>s'. CRedis_Del L k s = (AOk RDS_OK, s') \<and> online (m(k := None)) s'"
proof -
  have "lib_command L (Format L ''DEL %s'' [FS k]) m = (Some (REPLY_INTEGER (if m k = None then 0 else 1)), False, m(k := None))"
    using assms(1-3) unfolding format_law_def store_law_def by metis
  then show ?thesis using assms(4) by (cases s) (simp add: CRedis_Del_def RET_INT_CMD_def act_defs online_def)
qed


text \<open>A blank in a key or a value moves the border between them: two different calls send the same command.\<close>

lemma Set_ambiguous: "format_law L \<Longrightarrow> CRedis_Set L ''a b'' ''c'' = CRedis_Set L ''a'' ''b c''"
  by (simp add: CRedis_Set_def format_law_def)

definition parse_command :: "string \<Rightarrow> (string \<rightharpoonup> string) \<Rightarrow> reply option \<times> bool \<times> (string \<rightharpoonup> string)" where
  "parse_command cmd m =
     (case split_ref '' '' cmd of
        [c, k] \<Rightarrow>
          if c = ''GET'' then (Some (case m k of None \<Rightarrow> REPLY_NIL | Some x \<Rightarrow> REPLY_STRING x), False, m)
          else if c = ''DEL'' then (Some (REPLY_INTEGER (if m k = None then 0 else 1)), False, m(k := None))
          else (Some (REPLY_ERROR ''ERR''), False, m)
      | [c, k, v] \<Rightarrow> if c = ''SET'' then (Some (REPLY_STATUS ''OK''), False, m(k \<mapsto> v)) else (Some (REPLY_ERROR ''ERR''), False, m)
      | _ \<Rightarrow> (Some (REPLY_ERROR ''ERR''), False, m))"

definition format_words :: "string \<Rightarrow> farg list \<Rightarrow> string" where
  "format_words f as = join_by '' '' (hd (split_ref '' '' f) # map (\<lambda>a. case a of FS s \<Rightarrow> s | FD _ \<Rightarrow> ''0'') as)"

definition small_redis :: "(string \<rightharpoonup> string) hiredis" where
  "small_redis = \<lparr>lib_connect = \<lambda>_ _ m. (Some False, m), lib_command = parse_command, Format = format_words,
     HRET_BOOL = \<lambda>n. n \<noteq> 0, err_no = \<lambda>_. 1\<rparr>"

lemma split_words:
  assumes "word_ok k"
  shows "split_ref '' '' (''GET '' @ k) = [''GET'', k]" "split_ref '' '' (''DEL '' @ k) = [''DEL'', k]"
    "word_ok v \<Longrightarrow> split_ref '' '' (''SET '' @ k @ '' '' @ v) = [''SET'', k, v]"
  using assms split_ref_join [of "[''GET'', k]" "CHR '' ''"] split_ref_join [of "[''DEL'', k]" "CHR '' ''"]
    split_ref_join [of "[''SET'', k, v]" "CHR '' ''"]
  by (simp_all add: word_ok_def)

lemma small_redis_laws: "format_law small_redis" "store_law small_redis" "texts_law small_redis" "pairs_law small_redis"
proof -
  have "hd (split_ref '' '' ''SET %s %s'') = ''SET''" "hd (split_ref '' '' ''GET %s'') = ''GET''" "hd (split_ref '' '' ''DEL %s'') = ''DEL''"
    using split_ref_join [of "[''SET'', ''%s'', ''%s'']" "CHR '' ''"] split_ref_join [of "[''GET'', ''%s'']" "CHR '' ''"]
      split_ref_join [of "[''DEL'', ''%s'']" "CHR '' ''"] by simp_all
  then show "format_law small_redis" by (simp add: format_law_def small_redis_def format_words_def)
  show "store_law small_redis" by (simp add: store_law_def small_redis_def parse_command_def split_words [simplified])
  have "fst (parse_command cmd m) \<noteq> Some (REPLY_ARRAY es)" for cmd m es
    by (auto simp: parse_command_def split: list.split option.split)
  then show "texts_law small_redis" "pairs_law small_redis"
    unfolding texts_law_def pairs_law_def by (auto simp: small_redis_def) (metis fst_conv)+
qed

definition small_start :: "CRedis \<times> (string \<rightharpoonup> string) redis_world" where
  "small_start = redis_start \<lparr>strIp = ''h'', nPort = 6379, strPw = [], strName = []\<rparr> Map.empty"



end
