(* ===== verification/Db_Base.thy ===== *)
theory Db_Base
  imports Action Outcome Hui_Str
begin

text \<open>
  Query results and the base class of the database connections: \<^verbatim>\<open>src/db/hdbres.h\<close>, \<^verbatim>\<open>hdbres.cpp\<close>,
  \<^verbatim>\<open>dbconnectionbase.h\<close> and \<^verbatim>\<open>dbconnectionbase.cpp\<close>.

  The virtual functions of the base class are the fields of the record \<open>dbconnection\<close>; \<open>'s\<close> is the state of the
  connection and of the library under it. The locale \<open>tx_connection\<close> is what \<^verbatim>\<open>MultiExec\<close> relies on: transactions whose
  statements become visible when they are committed.
\<close>

subsection \<open>Query results\<close>

record HDBRes =
  m_header :: "string list"
  m_data :: "string list list"

definition HDBRes_new :: HDBRes where
  "HDBRes_new = \<lparr>m_header = [], m_data = []\<rparr>"

definition HDBRes_Clear :: "HDBRes \<Rightarrow> HDBRes" where
  "HDBRes_Clear res = res\<lparr>m_header := [], m_data := []\<rparr>"

definition SetHeader :: "string list \<Rightarrow> HDBRes \<Rightarrow> HDBRes" where
  "SetHeader header res = res\<lparr>m_header := header\<rparr>"

definition SetData :: "string list list \<Rightarrow> HDBRes \<Rightarrow> HDBRes" where
  "SetData data res = res\<lparr>m_data := data\<rparr>"

definition AddRow :: "string list \<Rightarrow> HDBRes \<Rightarrow> HDBRes" where
  "AddRow row res = res\<lparr>m_data := m_data res @ [row]\<rparr>"

definition HDBRes_IsValid :: "HDBRes \<Rightarrow> bool" where
  "HDBRes_IsValid res \<longleftrightarrow> m_header res \<noteq> [] \<and> m_data res \<noteq> []"

definition GetRowCount :: "HDBRes \<Rightarrow> nat" where
  "GetRowCount res = length (m_data res)"

definition GetColumnCount :: "HDBRes \<Rightarrow> nat" where
  "GetColumnCount res = length (m_header res)"

definition row_at :: "string list \<Rightarrow> nat \<Rightarrow> string run" where
  "row_at r j = (if j < length r then Ret (r ! j) else Stuck)"

definition GetValue_key :: "HDBRes \<Rightarrow> string \<Rightarrow> HUN \<Rightarrow> string run" where
  "GetValue_key res strKey row =
     HASSERT_THROW (unat row < length (m_data res)) INVL_PARA
       (let j = length (takeWhile (\<lambda>n. n \<noteq> strKey) (m_header res)) in
        HASSERT_THROW (j \<noteq> length (m_header res)) INVL_PARA (row_at (m_data res ! unat row) j))"

definition GetValue_at :: "HDBRes \<Rightarrow> HUN \<Rightarrow> HUN \<Rightarrow> string run" where
  "GetValue_at res i j =
     HASSERT_THROW (unat i < length (m_data res)) INVL_PARA
       (HASSERT_THROW (unat j < length (m_header res)) INVL_PARA
         (let r = m_data res ! unat i in HASSERT_THROW (length r \<le> unat j) SRC_ERR (row_at r (unat j))))"

subsection \<open>The base class of connections\<close>

record 's dbconnection =
  Query :: "string \<Rightarrow> HDBRes \<Rightarrow> ('s, RET_T, RET_T \<times> HDBRes) action"
  Execute :: "string \<Rightarrow> ('s, RET_T, RET_T) action"
  BeginTransaction :: "('s, RET_T, RET_T) action"
  CommitTransaction :: "('s, RET_T, RET_T) action"
  RollBack :: "('s, RET_T, RET_T) action"

primrec MultiExec_loop :: "'s dbconnection \<Rightarrow> string list \<Rightarrow> ('s, RET_T, RET_T) action" where
  "MultiExec_loop con [] = CommitTransaction con"
| "MultiExec_loop con (str # sqlss) = act_bind (Execute con str) (\<lambda>ret.
     if IS_OK ret then MultiExec_loop con sqlss else act_seq (RollBack con) (act_ret DEP_ERROR))"

definition MultiExec :: "'s dbconnection \<Rightarrow> string list \<Rightarrow> ('s, RET_T, RET_T) action" where
  "MultiExec con sqlss = act_ok (BeginTransaction con) (MultiExec_loop con sqlss)"

definition MAX_MULTI_INSERT_COUNT :: nat where "MAX_MULTI_INSERT_COUNT = 256"

text \<open>\<^verbatim>\<open>s.substr(0, s.length() - 1)\<close> on a string that is not empty.\<close>

definition cut_last :: "string \<Rightarrow> string" where
  "cut_last s = take (length s - 1) s"

definition insert_fields :: "string list \<Rightarrow> string" where
  "insert_fields header = cut_last (foldl (\<lambda>filds name. filds @ name @ '','') ''( '' header) @ '')''"

definition insert_row :: "string list \<Rightarrow> string" where
  "insert_row row = cut_last (foldl (\<lambda>row_val val. row_val @ [CHR 0x27] @ val @ [CHR 0x27, CHR '','']) ''( '' row) @ '')''"

definition insert_values :: "string list list \<Rightarrow> string" where
  "insert_values data = cut_last (foldl (\<lambda>values row. values @ insert_row row @ '','') '' '' data)"

definition multi_insert_impl :: "'s dbconnection \<Rightarrow> string \<Rightarrow> string list \<Rightarrow> string list list \<Rightarrow> ('s, RET_T, RET_T) action" where
  "multi_insert_impl con strTabName header data =
     (if strTabName = [] then act_ret INVL_PARA
      else case HStr_Format (''INSERT INTO `'' @ c_str strTabName @ ''` '' @ c_str (insert_fields header) @ '' VALUES '' @
                             c_str (insert_values data)) of
             None \<Rightarrow> act_stuck
           | Some sql \<Rightarrow> Execute con sql)"

primrec MultiInsert_loop ::
  "'s dbconnection \<Rightarrow> string \<Rightarrow> string list \<Rightarrow> string list list \<Rightarrow> string list list \<Rightarrow> ('s, RET_T, RET_T) action" where
  "MultiInsert_loop con strTable ch [] item_data =
     (if item_data \<noteq> [] then act_ok (multi_insert_impl con strTable ch item_data) (act_ret ERR_OK) else act_ret ERR_OK)"
| "MultiInsert_loop con strTable ch (row # src_data) item_data =
     (if length (item_data @ [row]) = MAX_MULTI_INSERT_COUNT
      then act_ok (multi_insert_impl con strTable ch (item_data @ [row])) (MultiInsert_loop con strTable ch src_data [])
      else MultiInsert_loop con strTable ch src_data (item_data @ [row]))"

definition MultiInsert :: "'s dbconnection \<Rightarrow> string \<Rightarrow> HDBRes \<Rightarrow> ('s, RET_T, RET_T) action" where
  "MultiInsert con strTable res = MultiInsert_loop con strTable (m_header res) (m_data res) []"

subsection \<open>Reading results\<close>

lemma GetValue_key_cell:
  "unat row < length (m_data res) \<Longrightarrow> distinct (m_header res) \<Longrightarrow> j < length (m_header res) \<Longrightarrow> length (m_data res ! unat row) = length (m_header res) \<Longrightarrow>
   GetValue_key res (m_header res ! j) row = Ret (m_data res ! unat row ! j)"
proof -
  assume *: "unat row < length (m_data res)" "distinct (m_header res)" "j < length (m_header res)" "length (m_data res ! unat row) = length (m_header res)"
  have "takeWhile (\<lambda>n. n \<noteq> m_header res ! j) (m_header res) = take j (m_header res)"
    using *(2,3) by (intro takeWhile_eq_take_P_nth) (auto simp: nth_eq_iff_index_eq)
  with * show ?thesis by (simp add: GetValue_key_def row_at_def)
qed

text \<open>The test of the column in \<^verbatim>\<open>GetValue(i, j)\<close> is the wrong way round: no call returns a value. Where the cell exists
  it throws \<^verbatim>\<open>SRC_ERR\<close>, and where the row is too short it reads behind the row.\<close>

theorem GetValue_at_never_returns:
  "GetValue_at res i j \<noteq> Ret val \<and>
   (unat i < length (m_data res) \<and> unat j < length (m_header res) \<longrightarrow>
    GetValue_at res i j = (if unat j < length (m_data res ! unat i) then Throws SRC_ERR else Stuck))"
  by (auto simp: GetValue_at_def row_at_def Let_def HASSERT_THROW_def)

theorem GetValue_at_never_returns_witness:
  "GetValue_at \<lparr>m_header = [''a''], m_data = [[''x'']]\<rparr> 0 0 = Throws SRC_ERR"
  using GetValue_at_never_returns [of "\<lparr>m_header = [''a''], m_data = [[''x'']]\<rparr>" 0 0] by simp

subsection \<open>Transactions\<close>

text \<open>
  What a connection with transactions promises. \<open>committed\<close> is the content of the database that others see, \<open>pending\<close> the
  content in the open transaction, \<open>good\<close> the states in which the connection works, \<open>plain\<close> the statements that do not end
  a transaction themselves and \<open>app\<close> their effect.
\<close>

locale tx_connection =
  fixes con :: "'s dbconnection" and good :: "'s \<Rightarrow> bool" and committed :: "'s \<Rightarrow> 'd" and pending :: "'s \<Rightarrow> 'd option"
    and plain :: "string \<Rightarrow> bool" and app :: "string \<Rightarrow> 'd \<Rightarrow> 'd"
  assumes begins: "good s \<Longrightarrow> pending s = None \<Longrightarrow> BeginTransaction con s = (out, s') \<Longrightarrow>
      \<exists>ret. out = AOk ret \<and> good s' \<and> committed s' = committed s \<and> (IS_OK ret \<longrightarrow> pending s' = Some (committed s))"
    and executes: "good s \<Longrightarrow> pending s = Some d \<Longrightarrow> plain sql \<Longrightarrow> Execute con sql s = (out, s') \<Longrightarrow>
      \<exists>ret. out = AOk ret \<and> good s' \<and> committed s' = committed s \<and> (IS_OK ret \<longrightarrow> pending s' = Some (app sql d))"
    and commits: "good s \<Longrightarrow> pending s = Some d \<Longrightarrow> CommitTransaction con s = (out, s') \<Longrightarrow>
      \<exists>ret. out = AOk ret \<and> good s' \<and> committed s' = (if IS_OK ret then d else committed s)"
    and rolls_back: "good s \<Longrightarrow> RollBack con s = (out, s') \<Longrightarrow> \<exists>ret. out = AOk ret \<and> good s' \<and> committed s' = committed s"
begin

lemma loop_atomic:
  assumes "good s" "pending s = Some d" "list_all plain sqls" "MultiExec_loop con sqls s = (out, s')"
  shows "\<exists>ret. out = AOk ret \<and> good s' \<and> committed s' = (if IS_OK ret then fold app sqls d else committed s)"
  using assms
proof (induction sqls arbitrary: s d)
  case Nil
  then show ?case using commits [of s d out s'] by (simp only: MultiExec_loop.simps fold_simps)
next
  case (Cons sql sqls)
  obtain o1 s1 where e: "Execute con sql s = (o1, s1)" by (cases "Execute con sql s")
  from executes [OF Cons.prems(1,2) _ e] Cons.prems(3) obtain ret where r: "o1 = AOk ret" "good s1" "committed s1 = committed s"
    "IS_OK ret \<longrightarrow> pending s1 = Some (app sql d)" by auto
  show ?case
  proof (cases "IS_OK ret")
    case True
    then have "MultiExec_loop con sqls s1 = (out, s')" "pending s1 = Some (app sql d)"
      using Cons.prems(4) e r by (auto simp: act_bind_out)
    from Cons.IH [OF r(2) this(2) _ this(1)] Cons.prems(3) show ?thesis by (simp only: r(3) list.pred_inject fold_simps)
  next
    case False
    obtain o2 s2 where b: "RollBack con s1 = (o2, s2)" by (cases "RollBack con s1")
    from rolls_back [OF r(2) b] obtain ret2 where r2: "o2 = AOk ret2" "good s2" "committed s2 = committed s1" by auto
    from False e r(1) b r2(1) have "MultiExec_loop con (sql # sqls) s = (AOk DEP_ERROR, s2)"
      by (simp add: act_bind_out act_seq_out)
    with Cons.prems(4) r(3) r2 show ?thesis by auto
  qed
qed

lemma MultiExec_atomic:
  assumes "good s" "pending s = None" "list_all plain sqls" "MultiExec con sqls s = (out, s')"
  shows "\<exists>ret. out = AOk ret \<and> good s' \<and> committed s' = (if IS_OK ret then fold app sqls (committed s) else committed s)"
proof -
  obtain o1 s1 where b: "BeginTransaction con s = (o1, s1)" by (cases "BeginTransaction con s")
  from begins [OF assms(1,2) b] obtain ret where r: "o1 = AOk ret" "good s1" "committed s1 = committed s"
    "IS_OK ret \<longrightarrow> pending s1 = Some (committed s)" by auto
  show ?thesis
  proof (cases "IS_OK ret")
    case True
    then have "MultiExec_loop con sqls s1 = (out, s')" using assms(4) b r(1) by (simp add: MultiExec_def act_ok_out)
    from loop_atomic [OF r(2) r(4) [rule_format, OF True] assms(3) this] show ?thesis by (simp only: r(3))
  next
    case False
    then have "MultiExec con sqls s = (AOk ret, s1)" using b r(1) by (simp add: MultiExec_def act_ok_out)
    with False r assms(4) show ?thesis by auto
  qed
qed

end

subsection \<open>Inserting many rows\<close>

function chunks :: "'a list \<Rightarrow> 'a list list" where
  "chunks xs = (if xs = [] then [] else take MAX_MULTI_INSERT_COUNT xs # chunks (drop MAX_MULTI_INSERT_COUNT xs))"
  by pat_completeness auto
termination by (relation "measure length") (auto simp: MAX_MULTI_INSERT_COUNT_def)

declare chunks.simps [simp del]

lemma concat_chunks: "concat (chunks xs) = xs"
  by (induction xs rule: chunks.induct) (simp add: chunks.simps)

lemma chunks_small: "xs \<noteq> [] \<Longrightarrow> length xs < MAX_MULTI_INSERT_COUNT \<Longrightarrow> chunks xs = [xs]"
  by (simp add: chunks.simps)

lemma MultiInsert_loop_chunks:
  "length item < MAX_MULTI_INSERT_COUNT \<Longrightarrow>
   MultiInsert_loop con t ch rows item = foldr (\<lambda>b. act_ok (multi_insert_impl con t ch b)) (chunks (item @ rows)) (act_ret ERR_OK)"
proof (induction rows arbitrary: item)
  case Nil
  then show ?case by (cases "item = []") (simp_all add: chunks_small chunks.simps del: act_simps)
next
  case (Cons row rows)
  show ?case
  proof (cases "length (item @ [row]) = MAX_MULTI_INSERT_COUNT")
    case True
    then have "chunks (item @ row # rows) = (item @ [row]) # chunks rows"
      using chunks.simps [of "(item @ [row]) @ rows"] by (simp flip: True)
    with True Cons.IH [of "[]"] show ?thesis by (simp add: MAX_MULTI_INSERT_COUNT_def)
  next
    case False
    with Cons.prems have "length (item @ [row]) < MAX_MULTI_INSERT_COUNT" by simp
    from Cons.IH [OF this] False show ?thesis by simp
  qed
qed

text \<open>The statement the text operations put together.\<close>

definition row_text :: "string list \<Rightarrow> string" where
  "row_text row = ''( '' @ join_by '','' (map (\<lambda>val. [CHR 0x27] @ val @ [CHR 0x27]) row) @ '')''"

definition insert_sql :: "string \<Rightarrow> string list \<Rightarrow> string list list \<Rightarrow> string" where
  "insert_sql t header rows = ''INSERT INTO `'' @ t @ ''` ( '' @ join_by '','' header @ '') VALUES  '' @ join_by '','' (map row_text rows)"

definition no_nul :: "string \<Rightarrow> bool" where
  "no_nul s \<longleftrightarrow> CHR 0x00 \<notin> set s"

lemma foldl_concat: "foldl (\<lambda>s x. s @ f x) a xs = a @ concat (map f xs)"
  by (induction xs arbitrary: a) simp_all

lemma concat_join: "xs \<noteq> [] \<Longrightarrow> concat (map (\<lambda>x. f x @ key) xs) = join_by key (map f xs) @ key"
proof (induction xs)
  case (Cons x xs)
  then show ?case by (cases "xs = []") (simp_all add: join_by_Cons)
qed simp

lemma cut_last_snoc [simp]: "cut_last (s @ [c]) = s"
  by (simp add: cut_last_def)

lemma insert_fields_text: "header \<noteq> [] \<Longrightarrow> insert_fields header = ''( '' @ join_by '','' header @ '')''"
  unfolding insert_fields_def foldl_concat
  using concat_join [of header "\<lambda>n. n" "'',''"] cut_last_snoc [of "''( '' @ join_by '','' header"] by simp

lemma insert_row_text: "row \<noteq> [] \<Longrightarrow> insert_row row = row_text row"
  unfolding insert_row_def foldl_concat row_text_def
  using concat_join [of row "\<lambda>val. [CHR 0x27] @ val @ [CHR 0x27]" "'',''"]
    cut_last_snoc [of "''( '' @ join_by '','' (map (\<lambda>val. [CHR 0x27] @ val @ [CHR 0x27]) row)"] by simp

lemma insert_values_text:
  assumes "data \<noteq> []" "list_all (\<lambda>row. row \<noteq> []) data"
  shows "insert_values data = '' '' @ join_by '','' (map row_text data)"
proof -
  have "map insert_row data = map row_text data" using assms(2) by (auto simp: list_all_iff insert_row_text)
  with concat_join [OF assms(1), of insert_row "'',''"]
  have "concat (map (\<lambda>row. insert_row row @ '','') data) = join_by '','' (map row_text data) @ '',''" by (simp only:)
  then show ?thesis
    unfolding insert_values_def foldl_concat using cut_last_snoc [of "'' '' @ join_by '','' (map row_text data)"] by simp
qed

lemma no_nul_join: "list_all no_nul ps \<Longrightarrow> no_nul key \<Longrightarrow> no_nul (join_by key ps)"
  by (induction key ps rule: join_by.induct) (auto simp: no_nul_def)

lemma no_nul_row: "list_all no_nul row \<Longrightarrow> no_nul (row_text row)"
  using no_nul_join [of "map (\<lambda>val. [CHR 0x27] @ val @ [CHR 0x27]) row" "'',''"]
  by (auto simp: row_text_def no_nul_def list_all_iff)

lemma no_nul_rows: "list_all (list_all no_nul) rows \<Longrightarrow> no_nul (join_by '','' (map row_text rows))"
  by (rule no_nul_join) (auto simp: list_all_iff no_nul_row, simp add: no_nul_def)

lemma c_str_no_nul: "no_nul s \<Longrightarrow> c_str s = s"
  by (simp add: no_nul_def c_str_id)

lemma multi_insert_impl_text:
  assumes "t \<noteq> []" "no_nul t" "header \<noteq> []" "list_all no_nul header" "rows \<noteq> []"
    "list_all (\<lambda>row. row \<noteq> [] \<and> list_all no_nul row) rows"
  shows "multi_insert_impl con t header rows =
     (if length (insert_sql t header rows) < HSTRING_LEN then Execute con (insert_sql t header rows) else act_stuck)"
proof -
  have rows: "list_all (\<lambda>row. row \<noteq> []) rows" "list_all (list_all no_nul) rows" using assms(6) by (auto simp: list_all_iff)
  have n: "no_nul ('' '' @ join_by '','' (map row_text rows))" "no_nul (''( '' @ join_by '','' header @ '')'')"
    using no_nul_rows [OF rows(2)] no_nul_join [OF assms(4), of "'',''"] by (auto simp: no_nul_def)
  have sql: "''INSERT INTO `'' @ c_str t @ ''` '' @ c_str (insert_fields header) @ '' VALUES '' @ c_str (insert_values rows) = insert_sql t header rows"
    unfolding insert_fields_text [OF assms(3)] insert_values_text [OF assms(5) rows(1)] c_str_no_nul [OF n(1)] c_str_no_nul [OF n(2)] c_str_no_nul [OF assms(2)]
    by (simp add: insert_sql_def)
  have "no_nul (insert_sql t header rows)" using n assms(2) by (auto simp: insert_sql_def no_nul_def)
  with assms(1) sql show ?thesis by (simp add: multi_insert_impl_def HStr_Format_def vFormat_def c_str_no_nul)
qed

lemma chunks_mem: "b \<in> set (chunks xs) \<Longrightarrow> b \<noteq> [] \<and> set b \<subseteq> set xs"
proof (induction xs rule: chunks.induct)
  case (1 xs)
  show ?case
  proof (cases "b = take MAX_MULTI_INSERT_COUNT xs \<and> xs \<noteq> []")
    case True
    then show ?thesis by (auto simp: MAX_MULTI_INSERT_COUNT_def dest: in_set_takeD)
  next
    case False
    with 1 have "xs \<noteq> []" "b \<in> set (chunks (drop MAX_MULTI_INSERT_COUNT xs))"
      by (auto simp: chunks.simps [of xs] split: if_splits)
    with "1.IH" show ?thesis by (auto dest: in_set_dropD)
  qed
qed

text \<open>C19: \<^verbatim>\<open>MultiInsert\<close> sends the rows in their order, \<^verbatim>\<open>MAX_MULTI_INSERT_COUNT\<close> at a time, in one \<^verbatim>\<open>INSERT\<close> per batch, and stops at
  the first that fails, as long as the statements fit into the buffer they are formatted in.\<close>

theorem MultiInsert_batches:
  assumes "t \<noteq> []" "no_nul t" "m_header res \<noteq> []" "list_all no_nul (m_header res)"
    "list_all (\<lambda>row. row \<noteq> [] \<and> list_all no_nul row) (m_data res)"
    "list_all (\<lambda>b. length (insert_sql t (m_header res) b) < HSTRING_LEN) (chunks (m_data res))"
  shows "MultiInsert con t res = foldr (\<lambda>b. act_ok (Execute con (insert_sql t (m_header res) b))) (chunks (m_data res)) (act_ret ERR_OK) \<and>
     concat (chunks (m_data res)) = m_data res"
proof -
  have "multi_insert_impl con t (m_header res) b = Execute con (insert_sql t (m_header res) b)" if "b \<in> set (chunks (m_data res))" for b
    using that assms(5,6) chunks_mem [OF that] multi_insert_impl_text [OF assms(1-4), of b con] by (auto simp: list_all_iff subset_iff)
  then have "foldr (\<lambda>b. act_ok (multi_insert_impl con t (m_header res) b)) (chunks (m_data res)) (act_ret ERR_OK) =
      foldr (\<lambda>b. act_ok (Execute con (insert_sql t (m_header res) b))) (chunks (m_data res)) (act_ret ERR_OK)"
    by (intro foldr_cong) auto
  then show ?thesis
    using MultiInsert_loop_chunks [of "[]" con t] by (simp add: MultiInsert_def concat_chunks MAX_MULTI_INSERT_COUNT_def del: act_simps)
qed

text \<open>A connection that only writes down the statements.\<close>

definition note_con :: "string list dbconnection" where
  "note_con = \<lparr>Query = (\<lambda>sql res s. (AOk (ERR_OK, res), s @ [sql])), Execute = (\<lambda>sql s. (AOk ERR_OK, s @ [sql])),
     BeginTransaction = act_ret ERR_OK, CommitTransaction = act_ret ERR_OK, RollBack = act_ret ERR_OK\<rparr>"

theorem MultiInsert_batches_witness:
  "MultiInsert note_con ''t'' \<lparr>m_header = [''a'', ''b''], m_data = [[''1'', ''2''], [''3'', ''4'']]\<rparr> [] =
     (AOk ERR_OK, [insert_sql ''t'' [''a'', ''b''] [[''1'', ''2''], [''3'', ''4'']]])"
  using MultiInsert_batches [of "''t''" "\<lparr>m_header = [''a'', ''b''], m_data = [[''1'', ''2''], [''3'', ''4'']]\<rparr>" note_con]
  by (simp add: chunks_small MAX_MULTI_INSERT_COUNT_def no_nul_def insert_sql_def row_text_def HSTRING_LEN_def HWORD_LEN_def act_ok_def
      act_bind_def note_con_def)

lemma length_join: "length (join_by key ps) + length key \<ge> sum_list (map (\<lambda>p. length p + length key) ps)"
  by (induction key ps rule: join_by.induct) auto

lemma sum_list_ge: "list_all (\<lambda>p. k \<le> f p) ps \<Longrightarrow> k * length ps \<le> sum_list (map f ps)"
  by (induction ps) auto

lemma row_text_length: "2 \<le> length row \<Longrightarrow> 8 \<le> length (row_text row)"
proof -
  assume "2 \<le> length row"
  moreover have "3 * length row \<le> sum_list (map (\<lambda>p. length p + 1) (map (\<lambda>val. [CHR 0x27] @ val @ [CHR 0x27]) row))"
    using sum_list_ge [of 3 "\<lambda>val. length ([CHR 0x27] @ val @ [CHR 0x27]) + 1" row] by (auto simp: list_all_iff comp_def)
  ultimately show ?thesis using length_join [of "'',''" "map (\<lambda>val. [CHR 0x27] @ val @ [CHR 0x27]) row"] by (simp add: row_text_def comp_def)
qed

lemma insert_sql_length: "list_all (\<lambda>row. 2 \<le> length row) rows \<Longrightarrow> 9 * length rows \<le> length (insert_sql t header rows)"
proof -
  assume "list_all (\<lambda>row. 2 \<le> length row) rows"
  then have "9 * length rows \<le> sum_list (map (\<lambda>p. length p + 1) (map row_text rows))"
    using sum_list_ge [of 9 "\<lambda>row. length (row_text row) + 1" rows] row_text_length by (auto simp: list_all_iff comp_def)
  then show ?thesis using length_join [of "'',''" "map row_text rows"] by (simp add: insert_sql_def)
qed

text \<open>C20: A full batch of rows with two or more columns never fits: from 256 rows on \<^verbatim>\<open>MultiInsert\<close> overruns the buffer on the
  stack before it sends anything.\<close>

theorem MultiInsert_full_batch_overruns:
  assumes "t \<noteq> []" "no_nul t" "m_header res \<noteq> []" "list_all no_nul (m_header res)"
    "list_all (\<lambda>row. 2 \<le> length row \<and> list_all no_nul row) (m_data res)" "MAX_MULTI_INSERT_COUNT \<le> length (m_data res)"
  shows "MultiInsert con t res s = (AStuck, s)"
proof -
  let ?b = "take MAX_MULTI_INSERT_COUNT (m_data res)"
  have ne: "m_data res \<noteq> []" using assms(6) by (auto simp: MAX_MULTI_INSERT_COUNT_def)
  have b: "list_all (\<lambda>row. row \<noteq> [] \<and> list_all no_nul row) ?b" "list_all (\<lambda>row. 2 \<le> length row) ?b" "?b \<noteq> []" "length ?b = MAX_MULTI_INSERT_COUNT"
    using assms(5,6) ne by (fastforce simp: list_all_iff MAX_MULTI_INSERT_COUNT_def dest: in_set_takeD)+
  have "\<not> length (insert_sql t (m_header res) ?b) < HSTRING_LEN"
    using insert_sql_length [OF b(2), of t "m_header res"] b(4) by (simp add: MAX_MULTI_INSERT_COUNT_def HSTRING_LEN_def HWORD_LEN_def)
  then have "multi_insert_impl con t (m_header res) ?b = act_stuck" using multi_insert_impl_text [OF assms(1-4) b(3,1), of con] by simp
  then show ?thesis
    using MultiInsert_loop_chunks [of "[]" con t "m_header res" "m_data res"] chunks.simps [of "m_data res"] ne
    by (simp add: MultiInsert_def act_ok_def act_bind_def MAX_MULTI_INSERT_COUNT_def)
qed

theorem MultiInsert_full_batch_overruns_witness:
  "MultiInsert note_con ''t'' \<lparr>m_header = [''a'', ''b''], m_data = replicate 256 [''1'', ''2'']\<rparr> [] = (AStuck, [])"
  using MultiInsert_full_batch_overruns [of "''t''" "\<lparr>m_header = [''a'', ''b''], m_data = replicate 256 [''1'', ''2'']\<rparr>" note_con "[]"]
  by (simp add: list_all_iff no_nul_def MAX_MULTI_INSERT_COUNT_def)

text \<open>A value with a quote ends its literal: the statement of one row with one value can be the statement of two values.\<close>

lemma insert_quote_injects:
  "insert_sql t h [[''a'' @ [CHR 0x27] @ '','' @ [CHR 0x27] @ ''b'']] = insert_sql t h [[''a'', ''b'']]"
  by (simp add: insert_sql_def row_text_def)

end
