(* ===== verification/Mysql_Drive.thy ===== *)
theory Mysql_Drive
  imports Db_Base
begin

text \<open>
  The MySQL connection: \<^verbatim>\<open>src/db/mysqldrive.h\<close>, \<^verbatim>\<open>mysqldrive.cpp\<close> and \<^verbatim>\<open>hmysqlconnection.cpp\<close>.

  The client library is the parameter \<open>mysql\<close>: its functions act on a world of any type and name handles by numbers. The
  state beside it keeps which handles exist and how many results are stored. The pointer \<^verbatim>\<open>m_st\<close> is null, a handle or
  indeterminate, \<^verbatim>\<open>m_bConnected\<close> is \<open>None\<close> while it is indeterminate; reading either is undefined.
\<close>

subsection \<open>The library\<close>

datatype hptr = Null | Handle nat | Wild

record CONN_INFO =
  m_host :: string
  m_port :: int
  m_user :: string
  m_pw :: string
  m_db :: string

record MYSQL_INNER_INFO =
  nConnectTimeout :: HUN
  nReadTimeout :: HUN
  bRec :: bool
  strCharSet :: string

datatype my_option = MYSQL_OPT_RECONNECT bool | MYSQL_OPT_CONNECT_TIMEOUT HUN | MYSQL_OPT_READ_TIMEOUT HUN | MYSQL_SET_CHARSET_NAME string

record MYSQL_RES =
  num_fields :: nat
  field_names :: "string list"
  res_rows :: "string option list list"

text \<open>A boolean result says whether the call succeeded.\<close>

record 'w mysql =
  my_init :: "nat \<Rightarrow> 'w \<Rightarrow> bool \<times> 'w"
  my_close :: "nat \<Rightarrow> 'w \<Rightarrow> 'w"
  my_options :: "nat \<Rightarrow> my_option \<Rightarrow> 'w \<Rightarrow> bool \<times> 'w"
  get_reconnect :: "nat \<Rightarrow> 'w \<Rightarrow> bool option"
  get_connect_timeout :: "nat \<Rightarrow> 'w \<Rightarrow> HUN option"
  get_read_timeout :: "nat \<Rightarrow> 'w \<Rightarrow> HUN option"
  get_charset :: "nat \<Rightarrow> 'w \<Rightarrow> string option"
  real_connect :: "nat \<Rightarrow> CONN_INFO \<Rightarrow> 'w \<Rightarrow> bool \<times> 'w"
  my_info :: "nat \<Rightarrow> 'w \<Rightarrow> CONN_INFO"
  real_query :: "nat \<Rightarrow> string \<Rightarrow> 'w \<Rightarrow> bool \<times> 'w"
  store_result :: "nat \<Rightarrow> 'w \<Rightarrow> MYSQL_RES option \<times> 'w"
  use_result :: "nat \<Rightarrow> 'w \<Rightarrow> MYSQL_RES option \<times> 'w"
  insert_id :: "nat \<Rightarrow> 'w \<Rightarrow> HULN"
  affected_rows :: "nat \<Rightarrow> 'w \<Rightarrow> HULN"
  my_errno :: "nat \<Rightarrow> 'w \<Rightarrow> HUN"
  client_info :: string
  my_ping :: "nat \<Rightarrow> 'w \<Rightarrow> bool \<times> 'w"

record 'w my_world =
  my_db :: 'w
  my_fresh :: nat
  my_live :: "nat list"
  my_results :: nat

record mysql_drive =
  m_st :: hptr
  m_bConnected :: "bool option"

type_synonym ('w, 'a) my_action = "(mysql_drive \<times> 'w my_world, RET_T, 'a) action"

text \<open>Reading the fields, and calls on the handle that \<^verbatim>\<open>m_st\<close> points to.\<close>

definition read_st :: "hptr \<Rightarrow> ('w, hptr) my_action" where
  "read_st p = (if p = Wild then act_stuck else act_ret p)"

definition IsInited :: "('w, bool) my_action" where
  "IsInited = (\<lambda>(c, y). act_bind (read_st (m_st c)) (\<lambda>p. act_ret (p \<noteq> Null)) (c, y))"

definition IsConnected :: "('w, bool) my_action" where
  "IsConnected = (\<lambda>(c, y). case m_bConnected c of None \<Rightarrow> (AStuck, c, y) | Some b \<Rightarrow> (AOk b, c, y))"

definition set_st :: "hptr \<Rightarrow> ('w, unit) my_action" where
  "set_st p = (\<lambda>(c, y). (AOk (), c\<lparr>m_st := p\<rparr>, y))"

definition set_connected :: "bool \<Rightarrow> ('w, unit) my_action" where
  "set_connected b = (\<lambda>(c, y). (AOk (), c\<lparr>m_bConnected := Some b\<rparr>, y))"

definition on_ptr :: "hptr \<Rightarrow> (nat \<Rightarrow> 'w my_world \<Rightarrow> 'a \<times> 'w my_world) \<Rightarrow> ('w, 'a) my_action" where
  "on_ptr p f = (\<lambda>(c, y). case p of
     Handle h \<Rightarrow> if h \<in> set (my_live y) then (case f h y of (a, y) \<Rightarrow> (AOk a, c, y)) else (AStuck, c, y)
   | _ \<Rightarrow> (AStuck, c, y))"

definition on_st :: "(nat \<Rightarrow> 'w my_world \<Rightarrow> 'a \<times> 'w my_world) \<Rightarrow> ('w, 'a) my_action" where
  "on_st f = (\<lambda>(c, y). on_ptr (m_st c) f (c, y))"

definition in_db :: "('w \<Rightarrow> 'a \<times> 'w) \<Rightarrow> 'w my_world \<Rightarrow> 'a \<times> 'w my_world" where
  "in_db f y = (case f (my_db y) of (a, w) \<Rightarrow> (a, y\<lparr>my_db := w\<rparr>))"

definition of_db :: "('w \<Rightarrow> 'a) \<Rightarrow> 'w my_world \<Rightarrow> 'a \<times> 'w my_world" where
  "of_db f y = (f (my_db y), y)"

definition mysql_init :: "'w mysql \<Rightarrow> ('w, hptr) my_action" where
  "mysql_init L = (\<lambda>(c, y). let h = my_fresh y; (made, w) = my_init L h (my_db y) in
     if made then (AOk (Handle h), c, y\<lparr>my_db := w, my_fresh := Suc h, my_live := h # my_live y\<rparr>)
     else (AOk Null, c, y\<lparr>my_db := w\<rparr>))"

definition mysql_close :: "'w mysql \<Rightarrow> ('w, unit) my_action" where
  "mysql_close L = on_st (\<lambda>h y. ((), y\<lparr>my_db := my_close L h (my_db y), my_live := remove1 h (my_live y)\<rparr>))"

definition take_result :: "(nat \<Rightarrow> 'w \<Rightarrow> MYSQL_RES option \<times> 'w) \<Rightarrow> ('w, MYSQL_RES option) my_action" where
  "take_result f = on_st (\<lambda>h y. case f h (my_db y) of
     (r, w) \<Rightarrow> (r, y\<lparr>my_db := w, my_results := (if r = None then my_results y else Suc (my_results y))\<rparr>))"

definition mysql_free_result :: "('w, unit) my_action" where
  "mysql_free_result = (\<lambda>(c, y). if my_results y = 0 then (AStuck, c, y) else (AOk (), c, y\<lparr>my_results := my_results y - 1\<rparr>))"

subsection \<open>Starting and ending\<close>

definition my_guard :: "('w, bool) my_action \<Rightarrow> 'a \<Rightarrow> ('w, 'a) my_action \<Rightarrow> ('w, 'a) my_action" where
  "my_guard test a rest = act_bind test (\<lambda>b. if b then rest else act_ret a)"

definition inited_connected :: "('w, bool) my_action" where
  "inited_connected = act_bind IsInited (\<lambda>b. if b then IsConnected else act_ret False)"

definition CHECK_DBST :: "('w, RET_T) my_action \<Rightarrow> ('w, RET_T) my_action" where
  "CHECK_DBST rest = my_guard IsInited ERR_STATUS rest"

definition CHECK_DB_CONNECTION :: "'a \<Rightarrow> ('w, 'a) my_action \<Rightarrow> ('w, 'a) my_action" where
  "CHECK_DB_CONNECTION err rest = my_guard inited_connected err rest"

definition my_throw_unless :: "bool \<Rightarrow> RET_T \<Rightarrow> ('w, 'a) my_action \<Rightarrow> ('w, 'a) my_action" where
  "my_throw_unless b e rest = (if b then rest else act_throw e)"

definition drive_init :: "'w mysql \<Rightarrow> ('w, unit) my_action" where
  "drive_init L = act_bind (mysql_init L) (\<lambda>p. act_seq (set_st p) (my_throw_unless (p \<noteq> Null) DEP_ERROR (act_ret ())))"

definition drive_uninit :: "'w mysql \<Rightarrow> ('w, unit) my_action" where
  "drive_uninit L = act_bind IsInited (\<lambda>b.
     if b then act_seq (mysql_close L) (act_seq (set_st Null) (set_connected False)) else act_ret ())"

definition Disconnect :: "'w mysql \<Rightarrow> ('w, unit) my_action" where
  "Disconnect L = drive_uninit L"

definition mysql_drive_new :: "'w mysql \<Rightarrow> ('w, unit) my_action" where
  "mysql_drive_new L = act_seq (set_st Null) (act_seq (set_connected False) (drive_init L))"

definition mysql_drive_move :: "mysql_drive \<Rightarrow> mysql_drive \<times> mysql_drive" where
  "mysql_drive_move conn = (\<lparr>m_st = m_st conn, m_bConnected = None\<rparr>, conn\<lparr>m_st := Null\<rparr>)"

definition set_option :: "'w mysql \<Rightarrow> my_option \<Rightarrow> ('w, RET_T) my_action" where
  "set_option L opt = CHECK_DBST (act_bind (on_st (\<lambda>h. in_db (my_options L h opt))) (\<lambda>ok. act_ret (if ok then ERR_OK else DEP_ERROR)))"

definition SetReconnect :: "'w mysql \<Rightarrow> bool \<Rightarrow> ('w, RET_T) my_action" where
  "SetReconnect L b = set_option L (MYSQL_OPT_RECONNECT b)"

definition SetConnectTimeout :: "'w mysql \<Rightarrow> HUN \<Rightarrow> ('w, RET_T) my_action" where
  "SetConnectTimeout L nTimeout = set_option L (MYSQL_OPT_CONNECT_TIMEOUT nTimeout)"

definition SetReadTimeout :: "'w mysql \<Rightarrow> HUN \<Rightarrow> ('w, RET_T) my_action" where
  "SetReadTimeout L nTimeout = set_option L (MYSQL_OPT_READ_TIMEOUT nTimeout)"

definition SetUtf8 :: "'w mysql \<Rightarrow> ('w, RET_T) my_action" where
  "SetUtf8 L = set_option L (MYSQL_SET_CHARSET_NAME ''utf8'')"

definition c_info :: "CONN_INFO \<Rightarrow> CONN_INFO" where
  "c_info i = i\<lparr>m_host := c_str (m_host i), m_user := c_str (m_user i), m_pw := c_str (m_pw i), m_db := c_str (m_db i)\<rparr>"

text \<open>\<^verbatim>\<open>mysql_real_connect\<close> returns its handle or null.\<close>

definition mysql_real_connect :: "'w mysql \<Rightarrow> CONN_INFO \<Rightarrow> ('w, hptr) my_action" where
  "mysql_real_connect L info = on_st (\<lambda>h y. case in_db (real_connect L h info) y of (ok, y) \<Rightarrow> (if ok then Handle h else Null, y))"

definition Connect :: "'w mysql \<Rightarrow> CONN_INFO \<Rightarrow> HUN \<Rightarrow> HUN \<Rightarrow> bool \<Rightarrow> ('w, RET_T) my_action" where
  "Connect L conn_info ct rt rec = CHECK_DBST
     (act_ok (if ct \<noteq> 0 then SetConnectTimeout L ct else act_ret ERR_OK)
     (act_ok (if rt \<noteq> 0 then SetReadTimeout L rt else act_ret ERR_OK)
     (act_ok (SetReconnect L rec)
     (act_bind (mysql_real_connect L (c_info conn_info)) (\<lambda>p. act_seq (set_st p)
       (if p = Null then act_ret DEP_ERROR else act_seq (set_connected True) (act_ret ERR_OK)))))))"

text \<open>With \<open>inner\<close> the options are read too, each reading may throw.\<close>

definition read_option :: "(nat \<Rightarrow> 'w \<Rightarrow> 'a option) \<Rightarrow> ('w, 'a) my_action" where
  "read_option f = act_bind (on_st (\<lambda>h. of_db (f h))) (\<lambda>v. case v of None \<Rightarrow> act_throw DEP_ERROR | Some a \<Rightarrow> act_ret a)"

definition GetConnInfo :: "'w mysql \<Rightarrow> bool \<Rightarrow> ('w, CONN_INFO \<times> MYSQL_INNER_INFO option) my_action" where
  "GetConnInfo L inner = act_bind inited_connected (\<lambda>b. my_throw_unless b ERR_STATUS
     (act_bind (if inner
        then act_bind (read_option (get_reconnect L)) (\<lambda>rec. act_bind (read_option (get_connect_timeout L)) (\<lambda>ct.
             act_bind (read_option (get_read_timeout L)) (\<lambda>rt. act_bind (read_option (get_charset L)) (\<lambda>cs.
             act_ret (Some \<lparr>nConnectTimeout = ct, nReadTimeout = rt, bRec = rec, strCharSet = c_str cs\<rparr>)))))
        else act_ret None)
     (\<lambda>pInfo. act_bind (on_st (\<lambda>h. of_db (my_info L h))) (\<lambda>info. act_ret (info, pInfo)))))"

definition Reconnect :: "'w mysql \<Rightarrow> ('w, RET_T) my_action" where
  "Reconnect L = act_bind (GetConnInfo L True) (\<lambda>(conn_info, inner). case inner of
     None \<Rightarrow> act_stuck
   | Some i \<Rightarrow> act_seq (Disconnect L) (act_seq (drive_init L)
       (Connect L conn_info (nConnectTimeout i) (nReadTimeout i) (bRec i))))"

subsection \<open>Statements and results\<close>

definition GetAffectedRows :: "'w mysql \<Rightarrow> ('w, HULN) my_action" where
  "GetAffectedRows L = my_guard inited_connected 0 (on_st (\<lambda>h. of_db (affected_rows L h)))"

definition GetClientVersion :: "'w mysql \<Rightarrow> ('w, string) my_action" where
  "GetClientVersion L = my_guard IsInited ''Error Mysql Client Version'' (act_ret (client_info L))"

definition GetMysqlErrno :: "'w mysql \<Rightarrow> ('w, HULN) my_action" where
  "GetMysqlErrno L = my_guard IsInited (- 1) (on_st (\<lambda>h. of_db (\<lambda>w. ucast (my_errno L h w))))"

definition drive_Execute :: "'w mysql \<Rightarrow> string \<Rightarrow> ('w, RET_T) my_action" where
  "drive_Execute L sql = CHECK_DB_CONNECTION ERR_STATUS
     (act_bind (on_st (\<lambda>h. in_db (real_query L h sql))) (\<lambda>ok. act_ret (if ok then ERR_OK else DEP_ERROR)))"

text \<open>A row of the library has \<open>num_fields\<close> pointers; a null pointer is the SQL value \<^verbatim>\<open>NULL\<close>.\<close>

definition save_row :: "nat \<Rightarrow> string option list \<Rightarrow> string list option" where
  "save_row n row = (if n \<le> length row then Some (map (\<lambda>p. case p of None \<Rightarrow> ''NULL'' | Some s \<Rightarrow> s) (take n row)) else None)"

primrec save_rows :: "nat \<Rightarrow> string option list list \<Rightarrow> HDBRes \<Rightarrow> HDBRes option" where
  "save_rows n [] res = Some res"
| "save_rows n (r # rs) res = (case save_row n r of None \<Rightarrow> None | Some row \<Rightarrow> save_rows n rs (AddRow row res))"

definition saveRes :: "MYSQL_RES \<Rightarrow> HDBRes \<Rightarrow> HDBRes option" where
  "saveRes db_res res = save_rows (num_fields db_res) (res_rows db_res) (SetHeader (field_names db_res) (HDBRes_Clear res))"

definition keep_result :: "(nat \<Rightarrow> 'w \<Rightarrow> MYSQL_RES option \<times> 'w) \<Rightarrow> HDBRes \<Rightarrow> ('w, RET_T \<times> HDBRes) my_action" where
  "keep_result f res = CHECK_DB_CONNECTION (ERR_STATUS, res) (act_bind (take_result f) (\<lambda>cb_res. case cb_res of
     None \<Rightarrow> act_ret (ERR_OK, res)
   | Some r \<Rightarrow> (case saveRes r res of None \<Rightarrow> act_stuck | Some res \<Rightarrow> act_seq mysql_free_result (act_ret (ERR_OK, res)))))"

definition StoreResult :: "'w mysql \<Rightarrow> HDBRes \<Rightarrow> ('w, RET_T \<times> HDBRes) my_action" where
  "StoreResult L res = keep_result (store_result L) res"

definition UseResult :: "'w mysql \<Rightarrow> HDBRes \<Rightarrow> ('w, RET_T \<times> HDBRes) my_action" where
  "UseResult L res = keep_result (use_result L) res"

text \<open>The macro returns \<^verbatim>\<open>ERR_STATUS\<close>, the number 2, as the new key.\<close>

definition GetNewId :: "'w mysql \<Rightarrow> ('w, HULN) my_action" where
  "GetNewId L = CHECK_DB_CONNECTION 2 (on_st (\<lambda>h. of_db (insert_id L h)))"

definition Ping :: "'w mysql \<Rightarrow> ('w, bool) my_action" where
  "Ping L = my_guard IsInited False (on_st (\<lambda>h. in_db (my_ping L h)))"

subsection \<open>Copies\<close>

text \<open>\<open>conn\<close> is the object that is copied; its character set is set on itself, not on the copy.\<close>

definition other_option :: "mysql_drive \<Rightarrow> (nat \<Rightarrow> 'w \<Rightarrow> 'a option) \<Rightarrow> ('w, 'a) my_action" where
  "other_option conn f = act_bind (on_ptr (m_st conn) (\<lambda>h. of_db (f h))) (\<lambda>v. case v of None \<Rightarrow> act_throw DEP_ERROR | Some a \<Rightarrow> act_ret a)"

definition drive_copy :: "'w mysql \<Rightarrow> mysql_drive \<Rightarrow> ('w, unit) my_action" where
  "drive_copy L conn = act_bind IsInited (\<lambda>b. my_throw_unless b ERR_STATUS (act_bind (read_st (m_st conn)) (\<lambda>q. if q = Null then act_ret ()
     else act_bind (other_option conn (get_reconnect L)) (\<lambda>myval. act_seq (if myval then SetReconnect L myval else act_ret ERR_OK)
     (act_bind (other_option conn (get_connect_timeout L)) (\<lambda>n. act_seq (SetConnectTimeout L n)
     (act_bind (other_option conn (get_read_timeout L)) (\<lambda>n. act_seq (SetReadTimeout L n)
     (act_bind (other_option conn (get_charset L)) (\<lambda>buf.
      act_bind (on_ptr (m_st conn) (\<lambda>h. in_db (my_options L h (MYSQL_SET_CHARSET_NAME (c_str buf))))) (\<lambda>ok. my_throw_unless ok DEP_ERROR
     (case m_bConnected conn of
        None \<Rightarrow> act_stuck
      | Some b \<Rightarrow> act_seq (if b
          then act_bind (on_ptr (m_st conn) (\<lambda>h. of_db (my_info L h))) (\<lambda>info. act_bind (mysql_real_connect L info) (\<lambda>p.
               act_seq (set_st p) (my_throw_unless (p \<noteq> Null) DEP_ERROR (act_ret ()))))
          else act_ret ()) (set_connected b)))))))))))))"

text \<open>The copy constructor has no initialisers: \<^verbatim>\<open>uninit\<close> looks at an indeterminate pointer.\<close>

definition mysql_drive_copy :: "'w mysql \<Rightarrow> mysql_drive \<Rightarrow> ('w, unit) my_action" where
  "mysql_drive_copy L conn = (\<lambda>(_, y). act_seq (drive_uninit L) (act_seq (drive_init L) (drive_copy L conn)) (\<lparr>m_st = Wild, m_bConnected = None\<rparr>, y))"

subsection \<open>The connection\<close>

definition my_Execute :: "'w mysql \<Rightarrow> string \<Rightarrow> ('w, RET_T) my_action" where
  "my_Execute L sql = my_guard IsInited SRC_ERR (my_guard IsConnected SRC_ERR
     (act_bind (drive_Execute L sql) (\<lambda>ret.
        if \<not> IS_OK ret
        then act_bind (Ping L) (\<lambda>up. if \<not> up
               then act_bind (Reconnect L) (\<lambda>rc. if \<not> IS_OK rc then act_ret ret else drive_Execute L sql)
               else act_ret ret)
        else act_ret ret)))"

definition my_Query :: "'w mysql \<Rightarrow> string \<Rightarrow> HDBRes \<Rightarrow> ('w, RET_T \<times> HDBRes) my_action" where
  "my_Query L sql res = act_bind (my_Execute L sql) (\<lambda>ret. if \<not> IS_OK ret then act_ret (ret, res)
     else act_bind (StoreResult L res) (\<lambda>(ret, res). if \<not> IS_OK ret then act_ret (ret, res) else act_ret (ERR_OK, res)))"

definition HMysqlConnection :: "'w mysql \<Rightarrow> (mysql_drive \<times> 'w my_world) dbconnection" where
  "HMysqlConnection L = \<lparr>Query = my_Query L, Execute = my_Execute L, BeginTransaction = drive_Execute L ''start transaction'',
     CommitTransaction = drive_Execute L ''commit'', RollBack = drive_Execute L ''rollback''\<rparr>"

subsection \<open>A connected object\<close>

lemmas my_defs = IsInited_def IsConnected_def set_st_def set_connected_def on_ptr_def on_st_def in_db_def of_db_def read_st_def
  my_guard_def inited_connected_def CHECK_DBST_def CHECK_DB_CONNECTION_def my_throw_unless_def act_bind_def act_seq_def

lemma my_con_simps [simp]:
  "Query (HMysqlConnection L) = my_Query L" "Execute (HMysqlConnection L) = my_Execute L"
  "BeginTransaction (HMysqlConnection L) = drive_Execute L ''start transaction''"
  "CommitTransaction (HMysqlConnection L) = drive_Execute L ''commit''" "RollBack (HMysqlConnection L) = drive_Execute L ''rollback''"
  by (simp_all add: HMysqlConnection_def)

definition my_connected :: "mysql_drive \<times> 'w my_world \<Rightarrow> bool" where
  "my_connected = (\<lambda>(c, y). m_bConnected c = Some True \<and> (\<exists>h. m_st c = Handle h \<and> h \<in> set (my_live y)))"

definition handle_of :: "mysql_drive \<Rightarrow> nat" where
  "handle_of c = (case m_st c of Handle h \<Rightarrow> h | _ \<Rightarrow> 0)"

lemma drive_Execute_run:
  assumes "my_connected (c, y)" "real_query L (handle_of c) sql (my_db y) = (ok, w)"
  shows "drive_Execute L sql (c, y) = (AOk (if ok then ERR_OK else DEP_ERROR), c, y\<lparr>my_db := w\<rparr>)"
  using assms by (auto simp: drive_Execute_def my_defs my_connected_def handle_of_def)

lemma Ping_run:
  assumes "my_connected (c, y)" "my_ping L (handle_of c) (my_db y) = (ok, w)"
  shows "Ping L (c, y) = (AOk ok, c, y\<lparr>my_db := w\<rparr>)"
  using assms by (auto simp: Ping_def my_defs my_connected_def handle_of_def)

lemma my_db_id: "y\<lparr>my_db := my_db y\<rparr> = (y :: 'w my_world)"
  by (cases y) simp

lemma my_connected_db [simp]: "my_connected (c, y\<lparr>my_db := w\<rparr>) = my_connected (c, y)"
  by (simp add: my_connected_def)

lemma my_Execute_connected:
  assumes "my_connected (c, y)"
  shows "my_Execute L sql (c, y) = act_bind (drive_Execute L sql) (\<lambda>ret.
        if \<not> IS_OK ret
        then act_bind (Ping L) (\<lambda>up. if \<not> up
               then act_bind (Reconnect L) (\<lambda>rc. if \<not> IS_OK rc then act_ret ret else drive_Execute L sql)
               else act_ret ret)
        else act_ret ret) (c, y)"
  using assms by (auto simp: my_Execute_def my_guard_def IsInited_def IsConnected_def read_st_def act_bind_def my_connected_def)

lemma my_Execute_up:
  assumes "my_connected (c, y)" "real_query L (handle_of c) sql (my_db y) = (ok, w)" "my_ping L (handle_of c) w = (True, w')"
  shows "my_Execute L sql (c, y) = (if ok then (AOk ERR_OK, c, y\<lparr>my_db := w\<rparr>) else (AOk DEP_ERROR, c, y\<lparr>my_db := w'\<rparr>))"
  using my_Execute_connected [OF assms(1)] drive_Execute_run [OF assms(1,2)] Ping_run [of c "y\<lparr>my_db := w\<rparr>" L True w'] assms(1,3)
  by (simp add: act_bind_out)

subsection \<open>Transactions\<close>

text \<open>What MySQL promises of a session that stays up: \<open>cm\<close> is the committed content, \<open>pd h\<close> the content in the open transaction of
  the session \<open>h\<close>.\<close>

locale mysql_server =
  fixes L :: "'w mysql" and cm :: "'w \<Rightarrow> 'd" and pd :: "nat \<Rightarrow> 'w \<Rightarrow> 'd option" and plain :: "string \<Rightarrow> bool" and app :: "string \<Rightarrow> 'd \<Rightarrow> 'd"
  assumes starting: "pd h w = None \<Longrightarrow> real_query L h ''start transaction'' w = (ok, w') \<Longrightarrow> cm w' = cm w \<and> (ok \<longrightarrow> pd h w' = Some (cm w))"
    and running: "pd h w = Some d \<Longrightarrow> plain sql \<Longrightarrow> real_query L h sql w = (ok, w') \<Longrightarrow> cm w' = cm w \<and> (ok \<longrightarrow> pd h w' = Some (app sql d))"
    and committing: "pd h w = Some d \<Longrightarrow> real_query L h ''commit'' w = (ok, w') \<Longrightarrow> cm w' = (if ok then d else cm w)"
    and rolling_back: "real_query L h ''rollback'' w = (ok, w') \<Longrightarrow> cm w' = cm w"
    and staying_up: "my_ping L h w = (ok, w') \<Longrightarrow> ok \<and> cm w' = cm w"

definition my_committed :: "('w \<Rightarrow> 'd) \<Rightarrow> mysql_drive \<times> 'w my_world \<Rightarrow> 'd" where
  "my_committed cm = (\<lambda>(c, y). cm (my_db y))"

definition my_pending :: "(nat \<Rightarrow> 'w \<Rightarrow> 'd option) \<Rightarrow> mysql_drive \<times> 'w my_world \<Rightarrow> 'd option" where
  "my_pending pd = (\<lambda>(c, y). pd (handle_of c) (my_db y))"

sublocale mysql_server \<subseteq> tx: tx_connection "HMysqlConnection L" my_connected "my_committed cm" "my_pending pd" plain app
proof (unfold_locales, goal_cases)
  case (1 s out s')
  obtain c y where s: "s = (c, y)" by (cases s)
  obtain ok w where "real_query L (handle_of c) ''start transaction'' (my_db y) = (ok, w)" by fastforce
  with 1 s show ?case using drive_Execute_run [of c y L] starting by (auto simp: my_committed_def my_pending_def)
next
  case (2 s d sql out s')
  obtain c y where s: "s = (c, y)" by (cases s)
  obtain ok w where q: "real_query L (handle_of c) sql (my_db y) = (ok, w)" by fastforce
  obtain up w' where p: "my_ping L (handle_of c) w = (up, w')" by fastforce
  from staying_up [OF p] have "up" "cm w' = cm w" by simp_all
  with 2 s q p my_Execute_up [of c y L sql ok w w'] show ?case
    using running [OF _ 2(3) q] by (cases ok) (auto simp: my_committed_def my_pending_def)
next
  case (3 s d out s')
  obtain c y where s: "s = (c, y)" by (cases s)
  obtain ok w where "real_query L (handle_of c) ''commit'' (my_db y) = (ok, w)" by fastforce
  with 3 s show ?case using drive_Execute_run [of c y L] committing by (auto simp: my_committed_def my_pending_def)
next
  case (4 s out s')
  obtain c y where s: "s = (c, y)" by (cases s)
  obtain ok w where "real_query L (handle_of c) ''rollback'' (my_db y) = (ok, w)" by fastforce
  with 4 s show ?case using drive_Execute_run [of c y L] rolling_back by (auto simp: my_committed_def)
qed

context mysql_server
begin

lemmas session_atomic = tx.MultiExec_atomic

end


subsection \<open>Lost connections\<close>

lemma Connect_st:
  assumes "Connect L info ct rt rec (c, y) = (AOk ERR_OK, c', y')" "m_st c = Handle h"
  shows "m_st c' = Handle h \<and> m_bConnected c' = Some True \<and> my_live y' = my_live y \<and> my_fresh y' = my_fresh y"
  using assms
  by (auto simp: Connect_def act_ok_def SetConnectTimeout_def SetReadTimeout_def SetReconnect_def set_option_def mysql_real_connect_def my_defs
      split: if_splits prod.splits act_out.splits)

lemma of_db_state: "on_st (\<lambda>h. of_db (g h)) (c, y) = (AOk v, s') \<Longrightarrow> s' = (c, y)"
  by (auto simp: on_st_def on_ptr_def of_db_def split: hptr.splits if_splits)

lemma read_option_state: "read_option f (c, y) = (AOk v, s') \<Longrightarrow> s' = (c, y)"
  by (auto simp: read_option_def my_defs split: hptr.splits if_splits option.splits)

lemma act_bind_AOk: "act_bind m f s = (AOk b, s') \<longleftrightarrow> (\<exists>a s1. m s = (AOk a, s1) \<and> f a s1 = (AOk b, s'))"
  by (auto simp: act_bind_def split: prod.splits act_out.splits)

lemma act_seq_AOk: "act_seq m n s = (AOk b, s') \<longleftrightarrow> (\<exists>a s1. m s = (AOk a, s1) \<and> n s1 = (AOk b, s'))"
  by (simp add: act_seq_def act_bind_AOk)

lemma GetConnInfo_state:
  assumes "GetConnInfo L b (c, y) = (AOk r, s')"
  shows "s' = (c, y) \<and> (b \<longrightarrow> snd r \<noteq> None)"
proof -
  have 1: "inited_connected (c, y) = (AOk t, s1) \<Longrightarrow> s1 = (c, y)" for t s1
    by (auto simp: inited_connected_def IsInited_def IsConnected_def read_st_def act_bind_def split: option.splits if_splits)
  from assms show ?thesis
    by (auto simp: GetConnInfo_def act_bind_AOk my_throw_unless_def split: if_splits dest!: 1 of_db_state read_option_state)
qed

lemma Reconnect_new_session:
  assumes "Reconnect L (c, y) = (AOk ERR_OK, c', y')" "m_st c = Handle h" "distinct (my_live y)" "h < my_fresh y"
  shows "m_st c' = Handle (my_fresh y) \<and> m_bConnected c' = Some True \<and> h \<notin> set (my_live y') \<and> my_fresh y \<in> set (my_live y')"
proof -
  obtain info i where g: "GetConnInfo L True (c, y) = (AOk (info, Some i), c, y)"
    and r: "act_seq (Disconnect L) (act_seq (drive_init L) (Connect L info (nConnectTimeout i) (nReadTimeout i) (bRec i))) (c, y) = (AOk ERR_OK, c', y')"
    using assms(1) by (fastforce simp: Reconnect_def act_bind_AOk split: option.splits dest: GetConnInfo_state)
  then obtain c1 y1 c2 y2 where d: "Disconnect L (c, y) = (AOk (), c1, y1)" and n: "drive_init L (c1, y1) = (AOk (), c2, y2)"
    and k: "Connect L info (nConnectTimeout i) (nReadTimeout i) (bRec i) (c2, y2) = (AOk ERR_OK, c', y')"
    by (auto simp: act_seq_AOk)
  have y1: "my_live y1 = remove1 h (my_live y)" "my_fresh y1 = my_fresh y"
    using d assms(2) by (auto simp: Disconnect_def drive_uninit_def mysql_close_def my_defs split: if_splits)
  have y2: "m_st c2 = Handle (my_fresh y)" "my_live y2 = my_fresh y # my_live y1"
    using n y1(2) by (auto simp: drive_init_def mysql_init_def my_defs Let_def split: if_splits prod.splits)
  from Connect_st [OF k y2(1)] y1 y2 assms(3,4) show ?thesis by auto
qed

text \<open>C16: When a statement fails and the server does not answer, \<^verbatim>\<open>Execute\<close> connects again and sends the statement on the new session. The
  old session is closed, and a transaction that was open in it is gone: the statement runs outside of it although the caller
  sees a success.\<close>

theorem mysql_Execute_new_session:
  assumes "m_st c = Handle h" "m_bConnected c = Some True" "h \<in> set (my_live y)" "distinct (my_live y)" "h < my_fresh y"
    "real_query L h sql (my_db y) = (False, w)" "my_ping L h w = (False, w')" "Reconnect L (c, y\<lparr>my_db := w'\<rparr>) = (AOk ERR_OK, c', y')"
    "real_query L (my_fresh y) sql (my_db y') = (ok, w'')"
  shows "my_Execute L sql (c, y) = (AOk (if ok then ERR_OK else DEP_ERROR), c', y'\<lparr>my_db := w''\<rparr>) \<and>
     m_st c' = Handle (my_fresh y) \<and> h \<notin> set (my_live y')"
proof -
  have c: "my_connected (c, y)" "handle_of c = h" using assms(1-3) by (auto simp: my_connected_def handle_of_def)
  have n: "m_st c' = Handle (my_fresh y)" "m_bConnected c' = Some True" "h \<notin> set (my_live y')" "my_fresh y \<in> set (my_live y')"
    using Reconnect_new_session [OF assms(8,1)] assms(4,5) by auto
  then have c': "my_connected (c', y')" "handle_of c' = my_fresh y" by (auto simp: my_connected_def handle_of_def)
  have d: "drive_Execute L sql (c, y) = (AOk DEP_ERROR, c, y\<lparr>my_db := w\<rparr>)" "Ping L (c, y\<lparr>my_db := w\<rparr>) = (AOk False, c, y\<lparr>my_db := w'\<rparr>)"
    using drive_Execute_run [OF c(1), of L sql False w] Ping_run [of c "y\<lparr>my_db := w\<rparr>" L False w'] assms(6,7) c by simp_all
  have "my_Execute L sql (c, y) = drive_Execute L sql (c', y')"
    by (simp add: my_Execute_connected [OF c(1)] act_bind_def d assms(8))
  then show ?thesis using drive_Execute_run [OF c'(1), of L sql ok w''] assms(9) c'(2) n by simp
qed

text \<open>C39: A failed \<^verbatim>\<open>Connect\<close> overwrites the only pointer to its handle: the handle is leaked and the object is dead, every later
  \<^verbatim>\<open>Connect\<close> and \<^verbatim>\<open>Execute\<close> fails and \<^verbatim>\<open>Reconnect\<close> throws.\<close>

theorem mysql_failed_Connect_is_final:
  assumes "m_st c = Handle h" "h \<in> set (my_live y)" "\<And>opt w. fst (my_options L h opt w)" "\<And>w. \<not> fst (real_connect L h (c_info info) w)"
  shows "\<exists>c' y'. Connect L info ct rt rec (c, y) = (AOk DEP_ERROR, c', y') \<and> m_st c' = Null \<and> h \<in> set (my_live y') \<and>
     Connect L info2 ct2 rt2 rec2 (c', y') = (AOk ERR_STATUS, c', y') \<and> my_Execute L sql (c', y') = (AOk SRC_ERR, c', y') \<and>
     Reconnect L (c', y') = (AThrow ERR_STATUS, c', y')"
proof -
  have opt: "\<exists>w'. set_option L opt (c, y\<lparr>my_db := w\<rparr>) = (AOk ERR_OK, c, y\<lparr>my_db := w'\<rparr>)" for opt w
    using assms(1,2) assms(3) [of opt w] by (auto simp: set_option_def my_defs split: prod.splits)
  define step where "step n opt = (if n \<noteq> (0 :: HUN) then set_option L opt else act_ret ERR_OK)" for n opt
  have step: "\<exists>w'. step n opt (c, y\<lparr>my_db := w\<rparr>) = (AOk ERR_OK, c, y\<lparr>my_db := w'\<rparr>)" for n opt w
    using opt [of opt w] by (auto simp: step_def)
  obtain w1 w2 w3 where w: "step ct (MYSQL_OPT_CONNECT_TIMEOUT ct) (c, y) = (AOk ERR_OK, c, y\<lparr>my_db := w1\<rparr>)"
    "step rt (MYSQL_OPT_READ_TIMEOUT rt) (c, y\<lparr>my_db := w1\<rparr>) = (AOk ERR_OK, c, y\<lparr>my_db := w2\<rparr>)"
    "set_option L (MYSQL_OPT_RECONNECT rec) (c, y\<lparr>my_db := w2\<rparr>) = (AOk ERR_OK, c, y\<lparr>my_db := w3\<rparr>)"
    using step [of ct "MYSQL_OPT_CONNECT_TIMEOUT ct" "my_db y"] step opt by (auto simp: my_db_id) blast
  obtain w4 where w4: "real_connect L h (c_info info) w3 = (False, w4)" using assms(4) [of w3] by (cases "real_connect L h (c_info info) w3") simp
  let ?c = "c\<lparr>m_st := Null\<rparr>" let ?y = "y\<lparr>my_db := w4\<rparr>"
  define final where "final = act_bind (mysql_real_connect L (c_info info)) (\<lambda>p. act_seq (set_st p)
       (if p = Null then act_ret DEP_ERROR else act_seq (set_connected True) (act_ret ERR_OK)))"
  have "final (c, y\<lparr>my_db := w3\<rparr>) = (AOk DEP_ERROR, ?c, ?y)"
    using w4 assms(1,2) by (simp add: final_def mysql_real_connect_def act_bind_def act_seq_def on_st_def on_ptr_def in_db_def set_st_def)
  moreover have "Connect L info ct rt rec (c, y) = act_ok (step ct (MYSQL_OPT_CONNECT_TIMEOUT ct)) (act_ok (step rt (MYSQL_OPT_READ_TIMEOUT rt))
      (act_ok (set_option L (MYSQL_OPT_RECONNECT rec)) final)) (c, y)"
    using assms(1) unfolding step_def final_def Connect_def SetConnectTimeout_def SetReadTimeout_def SetReconnect_def CHECK_DBST_def my_guard_def
    by (simp add: act_bind_out IsInited_def read_st_def)
  ultimately have "Connect L info ct rt rec (c, y) = (AOk DEP_ERROR, ?c, ?y)" using w by (simp add: act_ok_out)
  moreover have "Connect L info2 ct2 rt2 rec2 (?c, ?y) = (AOk ERR_STATUS, ?c, ?y)" "my_Execute L sql (?c, ?y) = (AOk SRC_ERR, ?c, ?y)"
    "Reconnect L (?c, ?y) = (AThrow ERR_STATUS, ?c, ?y)"
    by (simp_all add: Connect_def my_Execute_def Reconnect_def GetConnInfo_def my_defs)
  ultimately show ?thesis using assms(2) by fastforce
qed

subsection \<open>A small server\<close>

text \<open>The content is the list of statements; the open transaction belongs to a session. A flaky server answers as many statements as the
  counter says and then drops the session with its transaction.\<close>

type_synonym small_server = "string list \<times> (nat \<times> string list) option \<times> nat"

definition small_query :: "bool \<Rightarrow> nat \<Rightarrow> string \<Rightarrow> small_server \<Rightarrow> bool \<times> small_server" where
  "small_query flaky h sql = (\<lambda>(cm, pd, k).
     if flaky \<and> k = 0 then (False, cm, None, 0)
     else if sql = ''start transaction'' then (True, cm, Some (h, cm), k - 1)
     else if sql = ''commit'' then (True, (case pd of Some (h', d) \<Rightarrow> if h' = h then d else cm | None \<Rightarrow> cm), None, k - 1)
     else if sql = ''rollback'' then (True, cm, None, k - 1)
     else case pd of
       Some (h', d) \<Rightarrow> if h' = h then (True, cm, Some (h, d @ [sql]), k - 1) else (True, cm @ [sql], pd, k - 1)
     | None \<Rightarrow> (True, cm @ [sql], None, k - 1))"

definition small_mysql :: "bool \<Rightarrow> small_server mysql" where
  "small_mysql flaky = \<lparr>my_init = (\<lambda>h w. (True, w)), my_close = (\<lambda>h w. w), my_options = (\<lambda>h opt w. (True, w)),
     get_reconnect = (\<lambda>h w. Some False), get_connect_timeout = (\<lambda>h w. Some 2), get_read_timeout = (\<lambda>h w. Some 2), get_charset = (\<lambda>h w. Some ''utf8''),
     real_connect = (\<lambda>h info (cm, pd, k). (True, cm, None, 100)),
     my_info = (\<lambda>h w. \<lparr>m_host = ''h'', m_port = 3306, m_user = ''u'', m_pw = ''p'', m_db = ''d''\<rparr>),
     real_query = small_query flaky, store_result = (\<lambda>h w. (None, w)), use_result = (\<lambda>h w. (None, w)),
     insert_id = (\<lambda>h w. 0), affected_rows = (\<lambda>h w. 1), my_errno = (\<lambda>h w. 0), client_info = ''5.7'',
     my_ping = (\<lambda>h (cm, pd, k). (\<not> (flaky \<and> k = 0), cm, pd, k))\<rparr>"

definition small_pending :: "nat \<Rightarrow> small_server \<Rightarrow> string list option" where
  "small_pending h = (\<lambda>(cm, pd, k). case pd of Some (h', d) \<Rightarrow> if h' = h then Some d else None | None \<Rightarrow> None)"

definition plain_sql :: "string \<Rightarrow> bool" where
  "plain_sql sql \<longleftrightarrow> sql \<noteq> ''start transaction'' \<and> sql \<noteq> ''commit'' \<and> sql \<noteq> ''rollback''"

definition small_state :: "(nat \<times> string list) option \<Rightarrow> nat \<Rightarrow> mysql_drive \<times> small_server my_world" where
  "small_state pd k = (\<lparr>m_st = Handle 0, m_bConnected = Some True\<rparr>, \<lparr>my_db = ([], pd, k), my_fresh = 1, my_live = [0], my_results = 0\<rparr>)"

interpretation steady: mysql_server "small_mysql False" fst small_pending plain_sql "\<lambda>sql d. d @ [sql]"
proof (unfold_locales, goal_cases)
  case (1 h w ok w')
  then show ?case by (cases w) (auto simp: small_mysql_def small_query_def small_pending_def)
next
  case (2 h w d sql ok w')
  then show ?case
    by (cases w) (auto simp: small_mysql_def small_query_def small_pending_def plain_sql_def split: option.splits if_splits prod.splits)
next
  case (3 h w d ok w')
  then show ?case by (cases w) (auto simp: small_mysql_def small_query_def small_pending_def split: option.splits if_splits)
next
  case (4 h w ok w')
  then show ?case by (cases w) (auto simp: small_mysql_def small_query_def)
next
  case (5 h w ok w')
  then show ?case by (cases w) (auto simp: small_mysql_def)
qed


lemma small_reconnect:
  "Reconnect (small_mysql True) (small_state None 0) = (AOk ERR_OK, \<lparr>m_st = Handle 1, m_bConnected = Some True\<rparr>,
     \<lparr>my_db = ([], None, 100), my_fresh = 2, my_live = [1], my_results = 0\<rparr>)"
  by code_simp

theorem mysql_Execute_new_session_witness:
  "my_Execute (small_mysql True) ''b'' (small_state (Some (0, [''a''])) 0) =
     (AOk ERR_OK, \<lparr>m_st = Handle 1, m_bConnected = Some True\<rparr>, \<lparr>my_db = ([''b''], None, 99), my_fresh = 2, my_live = [1], my_results = 0\<rparr>)"
proof -
  let ?y = "snd (small_state (Some (0, [''a''])) 0)"
  have "Reconnect (small_mysql True) (fst (small_state (Some (0, [''a''])) 0), ?y\<lparr>my_db := ([], None, 0)\<rparr>) =
      (AOk ERR_OK, \<lparr>m_st = Handle 1, m_bConnected = Some True\<rparr>, \<lparr>my_db = ([], None, 100), my_fresh = 2, my_live = [1], my_results = 0\<rparr>)"
    using small_reconnect by (simp add: small_state_def)
  from mysql_Execute_new_session [OF _ _ _ _ _ _ _ this, of 0 "''b''" "([], None, 0)" True "([''b''], None, 99)"]
  show ?thesis by (simp add: small_state_def small_mysql_def small_query_def)
qed

definition refusing_mysql :: "small_server mysql" where
  "refusing_mysql = (small_mysql False)\<lparr>real_connect := \<lambda>h info w. (False, w)\<rparr>"

theorem mysql_failed_Connect_is_final_witness:
  "\<exists>c' y'. Connect refusing_mysql \<lparr>m_host = ''h'', m_port = 3306, m_user = ''u'', m_pw = ''p'', m_db = ''d''\<rparr> 2 2 False (small_state None 0) =
       (AOk DEP_ERROR, c', y') \<and> m_st c' = Null \<and> 0 \<in> set (my_live y') \<and> my_Execute refusing_mysql ''a'' (c', y') = (AOk SRC_ERR, c', y')"
  using mysql_failed_Connect_is_final [of "fst (small_state None 0)" 0 "snd (small_state None 0)" refusing_mysql
      "\<lparr>m_host = ''h'', m_port = 3306, m_user = ''u'', m_pw = ''p'', m_db = ''d''\<rparr>" 2 2 False
      "\<lparr>m_host = ''h'', m_port = 3306, m_user = ''u'', m_pw = ''p'', m_db = ''d''\<rparr>" 2 2 False "''a''"]
  by (auto simp: small_state_def refusing_mysql_def small_mysql_def)

text \<open>A transaction of two statements on a server that drops the session between them: \<^verbatim>\<open>MultiExec\<close> reports success, the first is lost.\<close>

lemma mysql_transaction_lost:
  "case MultiExec (HMysqlConnection (small_mysql True)) [''a'', ''b''] (small_state None 2) of (out, _, y) \<Rightarrow>
     out = AOk ERR_OK \<and> fst (my_db y) = [''b'']"
  by code_simp

text \<open>Copying a connection looks at an indeterminate pointer, whatever is copied.\<close>

lemma mysql_copy_undefined: "fst (mysql_drive_copy L conn s) = AStuck"
  by (cases s) (simp add: mysql_drive_copy_def drive_uninit_def IsInited_def read_st_def act_bind_def act_seq_def)

lemma GetNewId_unconnected: "m_st c = Null \<Longrightarrow> GetNewId L (c, y) = (AOk 2, c, y)"
  by (simp add: GetNewId_def my_defs)

text \<open>Without a result set \<^verbatim>\<open>Query\<close> leaves the old rows in the result and reports success.\<close>

lemma StoreResult_stale:
  "my_connected (c, y) \<Longrightarrow> store_result L (handle_of c) (my_db y) = (None, w) \<Longrightarrow> StoreResult L res (c, y) = (AOk (ERR_OK, res), c, y\<lparr>my_db := w\<rparr>)"
  by (cases y) (auto simp: StoreResult_def keep_result_def take_result_def my_defs my_connected_def handle_of_def)

lemma save_rows_all:
  "list_all (\<lambda>r. n \<le> length r) rs \<Longrightarrow>
   save_rows n rs res = Some (res\<lparr>m_data := m_data res @ map (\<lambda>r. map (\<lambda>p. case p of None \<Rightarrow> ''NULL'' | Some s \<Rightarrow> s) (take n r)) rs\<rparr>)"
  by (induction rs arbitrary: res) (simp_all add: save_row_def AddRow_def)

end
