(* ===== verification/Sqlite_Drive.thy ===== *)
theory Sqlite_Drive
  imports Db_Base
begin

text \<open>
  The SQLite connection: \<^verbatim>\<open>src/db/sqlitedrive.h\<close>, \<^verbatim>\<open>sqlitedrive.cpp\<close> and \<^verbatim>\<open>hsqliteconnection.cpp\<close>.

  SQLite is the parameter \<open>sqlite3\<close>: its functions act on a world of any type and name connections by numbers. The state
  beside it keeps which connections are open and how many statements are prepared, so that a leak or a call on a closed
  connection is visible. The cursor of a prepared statement is in the world of the library.
\<close>

subsection \<open>The library\<close>

datatype sq_code = SQLITE_OK | SQLITE_ROW | SQLITE_DONE | SQLITE_FAILED int

text \<open>\<open>sl_open\<close> gives the result, whether a handle was allocated (also when it fails) and the world. \<open>sl_columns\<close> are the name and
  the text of the columns of the current row; both may be null pointers.\<close>

record 'w sqlite3 =
  sl_open :: "nat \<Rightarrow> string \<Rightarrow> 'w \<Rightarrow> sq_code \<times> bool \<times> 'w"
  sl_close :: "nat \<Rightarrow> 'w \<Rightarrow> 'w"
  sl_prepare :: "nat \<Rightarrow> string \<Rightarrow> 'w \<Rightarrow> sq_code \<times> 'w"
  sl_step :: "nat \<Rightarrow> 'w \<Rightarrow> sq_code \<times> 'w"
  sl_columns :: "nat \<Rightarrow> 'w \<Rightarrow> (string option \<times> string option) list"
  sl_finalize :: "nat \<Rightarrow> 'w \<Rightarrow> 'w"
  sl_exec :: "nat \<Rightarrow> string \<Rightarrow> 'w \<Rightarrow> sq_code \<times> 'w"
  sl_filename :: "nat \<Rightarrow> string \<Rightarrow> 'w \<Rightarrow> string option"

record 'w sq_world =
  sq_db :: 'w
  sq_fresh :: nat
  sq_open :: "nat list"
  sq_stmts :: nat

record sqlite_drive =
  m_st :: "nat option"

type_synonym ('w, 'a) sq_action = "(sqlite_drive \<times> 'w sq_world, RET_T, 'a) action"

definition sqlite3_open :: "'w sqlite3 \<Rightarrow> string \<Rightarrow> ('w, sq_code \<times> nat option) sq_action" where
  "sqlite3_open L path = (\<lambda>(c, y). let (code, made, w) = sl_open L (sq_fresh y) path (sq_db y) in
     if made then (AOk (code, Some (sq_fresh y)), c, y\<lparr>sq_db := w, sq_fresh := Suc (sq_fresh y), sq_open := sq_fresh y # sq_open y\<rparr>)
     else (AOk (code, None), c, y\<lparr>sq_db := w\<rparr>))"

definition on_open :: "nat \<Rightarrow> ('w sq_world \<Rightarrow> 'a \<times> 'w sq_world) \<Rightarrow> ('w, 'a) sq_action" where
  "on_open h f = (\<lambda>(c, y). if h \<in> set (sq_open y) then (case f y of (a, y) \<Rightarrow> (AOk a, c, y)) else (AStuck, c, y))"

definition sqlite3_close :: "'w sqlite3 \<Rightarrow> nat \<Rightarrow> ('w, unit) sq_action" where
  "sqlite3_close L h = on_open h (\<lambda>y. ((), y\<lparr>sq_db := sl_close L h (sq_db y), sq_open := remove1 h (sq_open y)\<rparr>))"

definition sqlite3_prepare :: "'w sqlite3 \<Rightarrow> nat \<Rightarrow> string \<Rightarrow> ('w, sq_code) sq_action" where
  "sqlite3_prepare L h sql = on_open h (\<lambda>y. case sl_prepare L h sql (sq_db y) of
     (code, w) \<Rightarrow> (code, y\<lparr>sq_db := w, sq_stmts := (if code = SQLITE_OK then Suc (sq_stmts y) else sq_stmts y)\<rparr>))"

definition sqlite3_step :: "'w sqlite3 \<Rightarrow> nat \<Rightarrow> ('w, sq_code) sq_action" where
  "sqlite3_step L h = on_open h (\<lambda>y. case sl_step L h (sq_db y) of (code, w) \<Rightarrow> (code, y\<lparr>sq_db := w\<rparr>))"

definition sqlite3_finalize :: "'w sqlite3 \<Rightarrow> nat \<Rightarrow> ('w, unit) sq_action" where
  "sqlite3_finalize L h = on_open h (\<lambda>y. ((), y\<lparr>sq_db := sl_finalize L h (sq_db y), sq_stmts := sq_stmts y - 1\<rparr>))"

definition sqlite3_exec :: "'w sqlite3 \<Rightarrow> nat \<Rightarrow> string \<Rightarrow> ('w, sq_code) sq_action" where
  "sqlite3_exec L h cmd = on_open h (\<lambda>y. case sl_exec L h cmd (sq_db y) of (code, w) \<Rightarrow> (code, y\<lparr>sq_db := w\<rparr>))"

definition sq_get :: "('w, nat option) sq_action" where
  "sq_get = (\<lambda>(c, y). (AOk (m_st c), c, y))"

definition sq_put :: "nat option \<Rightarrow> ('w, unit) sq_action" where
  "sq_put p = (\<lambda>(c, y). (AOk (), c\<lparr>m_st := p\<rparr>, y))"

subsection \<open>The drive\<close>

definition sqlite_drive_new :: sqlite_drive where
  "sqlite_drive_new = \<lparr>m_st = None\<rparr>"

definition sq_IsInited :: "sqlite_drive \<Rightarrow> bool" where
  "sq_IsInited c \<longleftrightarrow> m_st c \<noteq> None"

text \<open>The handle that \<^verbatim>\<open>sqlite3_open\<close> allocated is dropped when it reports an error.\<close>

definition sq_Connect :: "'w sqlite3 \<Rightarrow> string \<Rightarrow> ('w, RET_T) sq_action" where
  "sq_Connect L strDbPath = act_bind sq_get (\<lambda>p.
     if p \<noteq> None then act_ret SRC_ERR
     else act_bind (sqlite3_open L (c_str strDbPath)) (\<lambda>(ret, sl3).
       if ret \<noteq> SQLITE_OK then act_ret DEP_ERROR else act_seq (sq_put sl3) (act_ret ERR_OK)))"

definition sq_Disconnect :: "'w sqlite3 \<Rightarrow> ('w, unit) sq_action" where
  "sq_Disconnect L = act_bind sq_get (\<lambda>p. case p of
     None \<Rightarrow> act_ret () | Some h \<Rightarrow> act_seq (sqlite3_close L h) (sq_put None))"

definition sq_Execute :: "'w sqlite3 \<Rightarrow> string \<Rightarrow> ('w, RET_T) sq_action" where
  "sq_Execute L sql = act_bind sq_get (\<lambda>p. case p of
     None \<Rightarrow> act_ret SRC_ERR
   | Some h \<Rightarrow> act_bind (sqlite3_prepare L h sql) (\<lambda>ret.
       if ret \<noteq> SQLITE_OK then act_ret INVL_PARA
       else act_bind (sqlite3_step L h) (\<lambda>code. act_seq (sqlite3_finalize L h)
              (act_ret (if code = SQLITE_OK then ERR_OK else DEP_ERROR)))))"

text \<open>A null pointer as the name or the text of a column is no \<^verbatim>\<open>std::string\<close>.\<close>

primrec texts :: "string option list \<Rightarrow> string list option" where
  "texts [] = Some []"
| "texts (p # ps) = do { s \<leftarrow> p; ss \<leftarrow> texts ps; Some (s # ss) }"

partial_function (option) fetch_loop ::
  "'w sqlite3 \<Rightarrow> nat \<Rightarrow> string list \<Rightarrow> string list list \<Rightarrow> 'w \<Rightarrow> (string list \<times> string list list \<times> 'w) option" where
  "fetch_loop L h header data w = (case sl_step L h w of (code, w) \<Rightarrow>
     if code = SQLITE_ROW
     then do { header \<leftarrow> (if header = [] then texts (map fst (sl_columns L h w)) else Some header);
               row \<leftarrow> texts (map snd (sl_columns L h w));
               fetch_loop L h header (data @ [row]) w }
     else Some (header, data, w))"

definition fetch :: "'w sqlite3 \<Rightarrow> nat \<Rightarrow> ('w, string list \<times> string list list) sq_action" where
  "fetch L h = (\<lambda>(c, y). if h \<in> set (sq_open y)
     then (case fetch_loop L h [] [] (sq_db y) of None \<Rightarrow> (AStuck, c, y) | Some (header, data, w) \<Rightarrow> (AOk (header, data), c, y\<lparr>sq_db := w\<rparr>))
     else (AStuck, c, y))"

definition sq_GetResult :: "'w sqlite3 \<Rightarrow> string \<Rightarrow> HDBRes \<Rightarrow> ('w, RET_T \<times> HDBRes) sq_action" where
  "sq_GetResult L sql res = act_bind sq_get (\<lambda>p. case p of
     None \<Rightarrow> act_ret (SRC_ERR, res)
   | Some h \<Rightarrow> act_bind (sqlite3_prepare L h sql) (\<lambda>ret.
       if ret \<noteq> SQLITE_OK then act_ret (INVL_PARA, HDBRes_Clear res)
       else act_bind (fetch L h) (\<lambda>(header, data). act_seq (sqlite3_finalize L h)
              (act_ret (ERR_OK, SetData data (SetHeader header (HDBRes_Clear res)))))))"

definition sq_ExecuteUnsafe :: "'w sqlite3 \<Rightarrow> string \<Rightarrow> ('w, RET_T) sq_action" where
  "sq_ExecuteUnsafe L cmd = act_bind sq_get (\<lambda>p. case p of
     None \<Rightarrow> act_ret SRC_ERR
   | Some h \<Rightarrow> act_bind (sqlite3_exec L h (c_str cmd)) (\<lambda>code. act_ret (if code = SQLITE_OK then ERR_OK else INVL_PARA)))"

text \<open>The buffer passed as the name of the database is empty.\<close>

definition get_dbfilepath :: "'w sqlite3 \<Rightarrow> sqlite_drive \<Rightarrow> ('w, string) sq_action" where
  "get_dbfilepath L conn = (case m_st conn of
     None \<Rightarrow> act_throw SRC_ERR
   | Some h \<Rightarrow> act_bind (on_open h (\<lambda>y. (sl_filename L h [] (sq_db y), y))) (\<lambda>p. case p of None \<Rightarrow> act_stuck | Some res \<Rightarrow> act_ret res))"

definition sqlite_drive_copy :: "'w sqlite3 \<Rightarrow> sqlite_drive \<Rightarrow> ('w, unit) sq_action" where
  "sqlite_drive_copy L conn = act_seq (sq_put None)
     (act_bind (get_dbfilepath L conn) (\<lambda>strDBPath. act_seq (sq_Connect L strDBPath) (act_ret ())))"

definition sqlite_drive_move :: "sqlite_drive \<Rightarrow> sqlite_drive \<times> sqlite_drive" where
  "sqlite_drive_move conn = (\<lparr>m_st = m_st conn\<rparr>, conn\<lparr>m_st := None\<rparr>)"

subsection \<open>The connection\<close>

definition HSqliteConnection :: "'w sqlite3 \<Rightarrow> (sqlite_drive \<times> 'w sq_world) dbconnection" where
  "HSqliteConnection L = \<lparr>Query = sq_GetResult L, Execute = sq_Execute L, BeginTransaction = sq_ExecuteUnsafe L ''BEGIN;'',
     CommitTransaction = sq_ExecuteUnsafe L ''COMMIT;'', RollBack = sq_ExecuteUnsafe L ''ROLLBACK;''\<rparr>"

subsection \<open>Statements\<close>

lemmas sq_defs = sq_get_def sq_put_def on_open_def sqlite3_open_def sqlite3_close_def sqlite3_prepare_def sqlite3_step_def
  sqlite3_finalize_def sqlite3_exec_def

lemma con_simps [simp]:
  "Query (HSqliteConnection L) = sq_GetResult L" "Execute (HSqliteConnection L) = sq_Execute L"
  "BeginTransaction (HSqliteConnection L) = sq_ExecuteUnsafe L ''BEGIN;''"
  "CommitTransaction (HSqliteConnection L) = sq_ExecuteUnsafe L ''COMMIT;''"
  "RollBack (HSqliteConnection L) = sq_ExecuteUnsafe L ''ROLLBACK;''"
  by (simp_all add: HSqliteConnection_def)

lemma c_str_commands: "c_str ''BEGIN;'' = ''BEGIN;''" "c_str ''COMMIT;'' = ''COMMIT;''" "c_str ''ROLLBACK;'' = ''ROLLBACK;''"
  by (simp_all add: c_str_def)

lemma ExecuteUnsafe_run:
  assumes "m_st c = Some h" "h \<in> set (sq_open y)" "sl_exec L h (c_str cmd) (sq_db y) = (code, w)"
  shows "sq_ExecuteUnsafe L cmd (c, y) = (AOk (if code = SQLITE_OK then ERR_OK else INVL_PARA), c, y\<lparr>sq_db := w\<rparr>)"
  using assms by (simp add: sq_ExecuteUnsafe_def act_bind_def sq_defs)

lemma Execute_run:
  assumes "m_st c = Some h" "h \<in> set (sq_open y)" "sl_prepare L h sql (sq_db y) = (SQLITE_OK, w1)" "sl_step L h w1 = (code, w2)"
  shows "sq_Execute L sql (c, y) = (AOk (if code = SQLITE_OK then ERR_OK else DEP_ERROR), c, y\<lparr>sq_db := sl_finalize L h w2\<rparr>)"
  using assms by (simp add: sq_Execute_def act_bind_def act_seq_def sq_defs)

text \<open>C18: A transaction on SQLite never succeeds. \<^verbatim>\<open>sqlite3_step\<close> reports a statement that ran with \<^verbatim>\<open>SQLITE_DONE\<close> or
  \<^verbatim>\<open>SQLITE_ROW\<close>, never with the \<^verbatim>\<open>SQLITE_OK\<close> that \<^verbatim>\<open>Execute\<close> waits for: \<^verbatim>\<open>MultiExec\<close> runs the first statement, takes its success
  for a failure, rolls back and reports an error.\<close>

theorem sqlite_MultiExec_rolls_back:
  assumes "\<And>h w. fst (sl_step L h w) \<noteq> SQLITE_OK"
    "m_st c = Some h" "h \<in> set (sq_open y)" "sl_exec L h ''BEGIN;'' (sq_db y) = (SQLITE_OK, w1)"
    "sl_prepare L h sql w1 = (SQLITE_OK, w2)" "sl_step L h w2 = (code, w3)" "sl_exec L h ''ROLLBACK;'' (sl_finalize L h w3) = (code', w4)"
  shows "MultiExec (HSqliteConnection L) (sql # sqls) (c, y) = (AOk DEP_ERROR, c, y\<lparr>sq_db := w4\<rparr>)"
proof -
  have "code \<noteq> SQLITE_OK" using assms(1) [of h w2] assms(6) by simp
  let ?y1 = "y\<lparr>sq_db := w1\<rparr>" let ?y2 = "y\<lparr>sq_db := sl_finalize L h w3\<rparr>"
  have b: "sq_ExecuteUnsafe L ''BEGIN;'' (c, y) = (AOk ERR_OK, c, ?y1)"
    using ExecuteUnsafe_run [OF assms(2,3), of L "''BEGIN;''"] assms(4) by (simp add: c_str_commands)
  have e: "sq_Execute L sql (c, ?y1) = (AOk DEP_ERROR, c, ?y2)"
    using Execute_run [OF assms(2), of ?y1 L sql w2 code w3] assms(3,5,6) \<open>code \<noteq> SQLITE_OK\<close> by simp
  obtain ret where "sq_ExecuteUnsafe L ''ROLLBACK;'' (c, ?y2) = (AOk ret, c, y\<lparr>sq_db := w4\<rparr>)"
    using ExecuteUnsafe_run [OF assms(2), of ?y2 L "''ROLLBACK;''"] assms(3,7) by (auto simp: c_str_commands)
  then show ?thesis using b e by (simp add: MultiExec_def act_ok_out act_bind_out act_seq_out)
qed

text \<open>A library with one table that answers every query with its rows.\<close>

type_synonym small_db = "string list list \<times> string list list \<times> string list"

definition small_sqlite :: "small_db sqlite3" where
  "small_sqlite = \<lparr>sl_open = (\<lambda>h path w. (SQLITE_OK, True, w)), sl_close = (\<lambda>h w. w),
     sl_prepare = (\<lambda>h sql (t, cur, r). (SQLITE_OK, t, t, [])),
     sl_step = (\<lambda>h (t, cur, r). case cur of [] \<Rightarrow> (SQLITE_DONE, t, [], []) | r # cur \<Rightarrow> (SQLITE_ROW, t, cur, r)),
     sl_columns = (\<lambda>h (t, cur, r). map (\<lambda>v. (Some ''name'', Some v)) r), sl_finalize = (\<lambda>h (t, cur, r). (t, [], [])),
     sl_exec = (\<lambda>h cmd w. (SQLITE_OK, w)), sl_filename = (\<lambda>h nm w. Some ''db'')\<rparr>"

definition small_world :: "string list list \<Rightarrow> small_db sq_world" where
  "small_world t = \<lparr>sq_db = (t, [], []), sq_fresh = 1, sq_open = [0], sq_stmts = 0\<rparr>"

theorem sqlite_MultiExec_rolls_back_witness:
  "MultiExec (HSqliteConnection small_sqlite) [''x'', ''y''] (\<lparr>m_st = Some 0\<rparr>, small_world [[''a'']]) =
     (AOk DEP_ERROR, \<lparr>m_st = Some 0\<rparr>, small_world [[''a'']])"
proof -
  have "\<And>h w. fst (sl_step small_sqlite h w) \<noteq> SQLITE_OK" by (auto simp: small_sqlite_def split: list.splits)
  from sqlite_MultiExec_rolls_back [OF this, of "\<lparr>m_st = Some 0\<rparr>" 0 "small_world [[''a'']]" "([[''a'']], [], [])" "''x''"
      "([[''a'']], [[''a'']], [])" SQLITE_ROW "([[''a'']], [], [''a''])" SQLITE_OK "([[''a'']], [], [])" "[''y'']"]
  show ?thesis by (simp add: small_sqlite_def small_world_def)
qed

subsection \<open>Queries\<close>

text \<open>From \<open>w\<close> the current statement yields rows with these columns, ends and leaves \<open>w'\<close>.\<close>

fun yields :: "'w sqlite3 \<Rightarrow> nat \<Rightarrow> 'w \<Rightarrow> (string \<times> string) list list \<Rightarrow> 'w \<Rightarrow> bool" where
  "yields L h w [] w' \<longleftrightarrow> fst (sl_step L h w) \<noteq> SQLITE_ROW \<and> snd (sl_step L h w) = w'"
| "yields L h w (cols # rows) w' \<longleftrightarrow> fst (sl_step L h w) = SQLITE_ROW \<and>
     sl_columns L h (snd (sl_step L h w)) = map (map_prod Some Some) cols \<and> yields L h (snd (sl_step L h w)) rows w'"

lemma texts_Some: "texts (map Some ss) = Some ss" "texts (map (Some \<circ> f) xs) = Some (map f xs)"
  by (induction ss, simp_all) (induction xs, simp_all)

lemma texts_None: "None \<in> set ps \<Longrightarrow> texts ps = None"
  by (induction ps) (auto split: Option.bind_splits)

lemma fetch_loop_rows:
  "yields L h w rows w' \<Longrightarrow> header \<noteq> [] \<Longrightarrow> fetch_loop L h header data w = Some (header, data @ map (map snd) rows, w')"
proof (induction rows arbitrary: w data)
  case Nil
  then show ?case by (subst fetch_loop.simps) (simp add: split_beta)
next
  case (Cons cols rows)
  then have "map snd (sl_columns L h (snd (sl_step L h w))) = map Some (map snd cols)" by (simp add: comp_def)
  with Cons show ?case by (subst fetch_loop.simps) (simp add: split_beta texts_Some)
qed

lemma fetch_loop_all:
  assumes "yields L h w rows w'" "list_all (\<lambda>cols. map fst cols = hdr) rows" "hdr \<noteq> []"
  shows "fetch_loop L h [] [] w = Some (if rows = [] then [] else hdr, map (map snd) rows, w')"
proof (cases rows)
  case Nil
  with assms(1) show ?thesis by (subst fetch_loop.simps) (simp add: split_beta)
next
  case (Cons cols rs)
  let ?w = "snd (sl_step L h w)"
  have c: "map fst (sl_columns L h ?w) = map Some hdr" "map snd (sl_columns L h ?w) = map Some (map snd cols)"
    using assms(1,2) Cons by (auto simp: comp_def)
  have "fetch_loop L h hdr [map snd cols] ?w = Some (hdr, [map snd cols] @ map (map snd) rs, w')"
    using fetch_loop_rows assms(1,3) Cons by fastforce
  with c assms(1) Cons show ?thesis by (subst fetch_loop.simps) (simp add: split_beta texts_Some)
qed

text \<open>A query returns the names and the rows the statement yields, in order, whatever the result held before; the loop ends
  with the statement and the statement is finalized. Without rows the names are lost.\<close>

theorem sqlite_GetResult_rows:
  assumes "m_st c = Some h" "h \<in> set (sq_open y)" "sl_prepare L h sql (sq_db y) = (SQLITE_OK, w)" "yields L h w rows w'"
    "list_all (\<lambda>cols. map fst cols = hdr) rows" "hdr \<noteq> []"
  shows "sq_GetResult L sql res (c, y) =
     (AOk (ERR_OK, res\<lparr>m_header := (if rows = [] then [] else hdr), m_data := map (map snd) rows\<rparr>), c, y\<lparr>sq_db := sl_finalize L h w'\<rparr>)"
  using assms(1-3) fetch_loop_all [OF assms(4-6)]
  by (simp add: sq_GetResult_def act_bind_def act_seq_def sq_defs fetch_def SetData_def SetHeader_def HDBRes_Clear_def)

theorem sqlite_GetResult_rows_witness:
  "sq_GetResult small_sqlite ''q'' HDBRes_new (\<lparr>m_st = Some 0\<rparr>, small_world [[''a''], [''b'']]) =
     (AOk (ERR_OK, \<lparr>m_header = [''name''], m_data = [[''a''], [''b'']]\<rparr>), \<lparr>m_st = Some 0\<rparr>, small_world [[''a''], [''b'']])"
  using sqlite_GetResult_rows [of "\<lparr>m_st = Some 0\<rparr>" 0 "small_world [[''a''], [''b'']]" small_sqlite "''q''"
      "([[''a''], [''b'']], [[''a''], [''b'']], [])" "[[(''name'', ''a'')], [(''name'', ''b'')]]" "([[''a''], [''b'']], [], [])" "[''name'']" HDBRes_new]
  by (simp add: small_sqlite_def small_world_def HDBRes_new_def)

text \<open>A \<^verbatim>\<open>NULL\<close> in a column is a null pointer that \<^verbatim>\<open>std::string\<close> is built from.\<close>

lemma GetResult_null_value:
  assumes "m_st c = Some h" "h \<in> set (sq_open y)" "sl_prepare L h sql (sq_db y) = (SQLITE_OK, w)" "sl_step L h w = (SQLITE_ROW, w1)"
    "None \<in> snd ` set (sl_columns L h w1)"
  shows "fst (sq_GetResult L sql res (c, y)) = AStuck"
proof -
  have "texts (map snd (sl_columns L h w1)) = None" using assms(5) by (intro texts_None) auto
  then have "fetch_loop L h [] [] w = None" using assms(4) by (subst fetch_loop.simps) (simp split: Option.bind_splits)
  with assms(1-3) show ?thesis by (simp add: sq_GetResult_def act_bind_def sq_defs fetch_def)
qed

text \<open>\<^verbatim>\<open>sqlite3_open\<close> allocates a handle also when it fails; \<^verbatim>\<open>Connect\<close> then loses it.\<close>

lemma Connect_failure_leaks:
  assumes "m_st c = None" "sl_open L (sq_fresh y) (c_str path) (sq_db y) = (SQLITE_FAILED e, True, w)"
  shows "sq_Connect L path (c, y) = (AOk DEP_ERROR, c, y\<lparr>sq_db := w, sq_fresh := Suc (sq_fresh y), sq_open := sq_fresh y # sq_open y\<rparr>)"
  using assms by (simp add: sq_Connect_def act_bind_def sq_defs)

lemma Connect_Disconnect:
  assumes "m_st c = None" "sl_open L (sq_fresh y) (c_str path) (sq_db y) = (SQLITE_OK, True, w)"
  shows "act_seq (sq_Connect L path) (sq_Disconnect L) (c, y) = (AOk (), c, y\<lparr>sq_db := sl_close L (sq_fresh y) w, sq_fresh := Suc (sq_fresh y)\<rparr>)"
  using assms by (simp add: sq_Connect_def sq_Disconnect_def act_bind_def act_seq_def sq_defs)

end
