(* ===== verification/Db_Config.thy ===== *)
theory Db_Config
  imports Sqlite_Drive Hui_Conf "HOL-Library.Multiset"
begin

text \<open>
  The table of database connections: \<^verbatim>\<open>src/db/dbconnconfig.h\<close> and \<^verbatim>\<open>dbconnconfig.cpp\<close>.

  The table maps names to vectors of pointers to connections; \<^verbatim>\<open>std::map\<close> is an association list in the order of the
  keys. The connections the configuration makes are SQLite connections on a heap; a pointer is an index, and using or
  deleting a deleted connection is stuck. Reading the file
  and parsing JSON are parameters; a JSON value that is no string throws \<open>JsonTypeError\<close> where the code converts it.
\<close>

datatype json = JNull | JBool bool | JNumber int | JString string | JArray "json list" | JObject "(string \<times> json) list"

fun js_at :: "json \<Rightarrow> string \<Rightarrow> json option" where
  "js_at (JObject kvs) key = map_of kvs key"
| "js_at _ key = None"

datatype cfg_exc = HException RET_T | JsonTypeError

record 'w cfg_state =
  m_db_conns :: "(string \<times> nat list) list"
  drives :: "sqlite_drive list"
  deleted :: "nat list"
  sqw :: "'w sq_world"

type_synonym ('w, 'a) cfg_action = "('w cfg_state, cfg_exc, 'a) action"

definition min_db_count :: HUN where "min_db_count = 1"

definition AddConn_map :: "string \<Rightarrow> nat \<Rightarrow> (string \<times> nat list) list \<Rightarrow> (string \<times> nat list) list" where
  "AddConn_map str ptr m = (case map_of m str of
     Some _ \<Rightarrow> map (\<lambda>(k, conns). if k = str then (k, conns @ [ptr]) else (k, conns)) m
   | None \<Rightarrow> mstr_insert (str, [ptr]) m)"

definition AddConn :: "string \<Rightarrow> nat \<Rightarrow> ('w, unit) cfg_action" where
  "AddConn str ptr = (\<lambda>s. (AOk (), s\<lparr>m_db_conns := AddConn_map str ptr (m_db_conns s)\<rparr>))"

definition GetConn_map :: "(string \<times> nat list) list \<Rightarrow> string \<Rightarrow> HUN \<Rightarrow> nat run" where
  "GetConn_map m strName index = (case map_of m strName of
     None \<Rightarrow> Throws INVL_PARA
   | Some conns \<Rightarrow> HASSERT_THROW (unat index < length conns) INVL_PARA (Ret (conns ! unat index)))"

text \<open>A method of the connection at \<open>ptr\<close>.\<close>

definition lift_out :: "(RET_T, 'a) act_out \<Rightarrow> (cfg_exc, 'a) act_out" where
  "lift_out out = (case out of AOk a \<Rightarrow> AOk a | AThrow e \<Rightarrow> AThrow (HException e) | AStuck \<Rightarrow> AStuck)"

definition on_conn :: "nat \<Rightarrow> ('w, 'a) sq_action \<Rightarrow> ('w, 'a) cfg_action" where
  "on_conn ptr act = (\<lambda>s. if ptr < length (drives s) \<and> ptr \<notin> set (deleted s)
     then (case act (drives s ! ptr, sqw s) of (out, d, y) \<Rightarrow> (lift_out out, s\<lparr>drives := (drives s)[ptr := d], sqw := y\<rparr>))
     else (AStuck, s))"

definition with_conn :: "string \<Rightarrow> HUN \<Rightarrow> (nat \<Rightarrow> ('w, 'a) cfg_action) \<Rightarrow> ('w, 'a) cfg_action" where
  "with_conn strName index f = (\<lambda>s. case GetConn_map (m_db_conns s) strName index of
     Ret ptr \<Rightarrow> f ptr s | Throws e \<Rightarrow> (AThrow (HException e), s) | Stuck \<Rightarrow> (AStuck, s))"

definition cfg_Query :: "'w sqlite3 \<Rightarrow> string \<Rightarrow> HUN \<Rightarrow> string \<Rightarrow> HDBRes \<Rightarrow> ('w, RET_T \<times> HDBRes) cfg_action" where
  "cfg_Query L strName index sql db_res = with_conn strName index (\<lambda>ptr. on_conn ptr (Query (HSqliteConnection L) sql db_res))"

definition cfg_Exec :: "'w sqlite3 \<Rightarrow> string \<Rightarrow> HUN \<Rightarrow> string \<Rightarrow> ('w, RET_T) cfg_action" where
  "cfg_Exec L strName index sql = with_conn strName index (\<lambda>ptr. on_conn ptr (Execute (HSqliteConnection L) sql))"

definition cfg_MultiExec :: "'w sqlite3 \<Rightarrow> string \<Rightarrow> HUN \<Rightarrow> string list \<Rightarrow> ('w, RET_T) cfg_action" where
  "cfg_MultiExec L strName index sqlss = with_conn strName index (\<lambda>ptr. on_conn ptr (MultiExec (HSqliteConnection L) sqlss))"

definition new_conn :: "('w, nat) cfg_action" where
  "new_conn = (\<lambda>s. (AOk (length (drives s)), s\<lparr>drives := drives s @ [sqlite_drive_new]\<rparr>))"

text \<open>The \<open>n\<close> connections of one entry; a pointer whose \<^verbatim>\<open>Connect\<close> fails is dropped.\<close>

primrec conn_loop :: "'w sqlite3 \<Rightarrow> string \<Rightarrow> string \<Rightarrow> nat \<Rightarrow> ('w, RET_T) cfg_action" where
  "conn_loop L strDbName strDBPath 0 = act_ret ERR_OK"
| "conn_loop L strDbName strDBPath (Suc n) = act_bind new_conn (\<lambda>ptr.
     act_ok (on_conn ptr (sq_Connect L strDBPath)) (act_seq (AddConn strDbName ptr) (conn_loop L strDbName strDBPath n)))"

definition js_string :: "json \<Rightarrow> ('w, string) cfg_action" where
  "js_string j = (case j of JString s \<Rightarrow> act_ret s | _ \<Rightarrow> act_throw JsonTypeError)"

definition js_member :: "json \<Rightarrow> string \<Rightarrow> (json \<Rightarrow> ('w, RET_T) cfg_action) \<Rightarrow> ('w, RET_T) cfg_action" where
  "js_member j key f = (case js_at j key of None \<Rightarrow> act_ret INVL_PARA | Some v \<Rightarrow> f v)"

primrec items_loop :: "'w sqlite3 \<Rightarrow> HUN \<Rightarrow> json list \<Rightarrow> ('w, RET_T) cfg_action" where
  "items_loop L conn_count [] = act_ret ERR_OK"
| "items_loop L conn_count (db_item # items) =
     js_member db_item ''dbtype'' (\<lambda>t. act_bind (js_string t) (\<lambda>strType.
     js_member db_item ''dbname'' (\<lambda>n. act_bind (js_string n) (\<lambda>strDbName.
     if strType = ''SQLITE''
     then js_member db_item ''dbpath'' (\<lambda>p. act_bind (js_string p) (\<lambda>strDBPath.
          act_ok (conn_loop L strDbName strDBPath (unat conn_count)) (items_loop L conn_count items)))
     else act_ret INVL_PARA))))"

definition InitFromConfigFile ::
  "'w sqlite3 \<Rightarrow> (string \<Rightarrow> RET_T \<times> string) \<Rightarrow> (string \<Rightarrow> json option) \<Rightarrow> string \<Rightarrow> HUN \<Rightarrow> ('w, RET_T) cfg_action" where
  "InitFromConfigFile L read_file parse strFileName conn_count =
     (if strFileName = [] then act_ret INVL_PARA
      else let conn_count = (if conn_count < min_db_count then min_db_count else conn_count);
               (ret, strDbConfig) = read_file strFileName
           in if \<not> IS_OK ret then act_ret ret
              else case parse strDbConfig of
                None \<Rightarrow> act_ret INVL_PARA
              | Some config_js \<Rightarrow> js_member config_js ''dbs'' (\<lambda>db_js.
                  case db_js of JArray items \<Rightarrow> items_loop L conn_count items | _ \<Rightarrow> act_ret INVL_PARA))"

text \<open>Deleting a connection disconnects it.\<close>

primrec delete_conns :: "'w sqlite3 \<Rightarrow> nat list \<Rightarrow> ('w, unit) cfg_action" where
  "delete_conns L [] = act_ret ()"
| "delete_conns L (ptr # ptrs) = act_seq (on_conn ptr (sq_Disconnect L))
     (act_seq (\<lambda>s. (AOk (), s\<lparr>deleted := ptr # deleted s\<rparr>)) (delete_conns L ptrs))"

definition DbConnConfig_delete :: "'w sqlite3 \<Rightarrow> ('w, unit) cfg_action" where
  "DbConnConfig_delete L = (\<lambda>s. act_seq (delete_conns L (concat (map snd (m_db_conns s)))) (\<lambda>s. (AOk (), s\<lparr>m_db_conns := []\<rparr>)) s)"

definition DbConnConfig_new :: "'w sq_world \<Rightarrow> 'w cfg_state" where
  "DbConnConfig_new y = \<lparr>m_db_conns = [], drives = [], deleted = [], sqw = y\<rparr>"

subsection \<open>The table\<close>

definition conns_of :: "(string \<times> nat list) list \<Rightarrow> string \<Rightarrow> nat list" where
  "conns_of m name = (case map_of m name of None \<Rightarrow> [] | Some conns \<Rightarrow> conns)"

lemma AddConn_keys: "map fst (map (\<lambda>(k, conns). if k = str then (k, conns @ [ptr]) else (k, conns)) m) = map fst m"
  by auto

lemma AddConn_map_of:
  assumes "mstr_ok m"
  shows "map_of (AddConn_map str ptr m) = (map_of m)(str \<mapsto> conns_of m str @ [ptr])"
proof (cases "map_of m str")
  case None
  with assms map_of_insert [of m "(str, [ptr])"] show ?thesis by (simp add: AddConn_map_def conns_of_def)
next
  case (Some conns)
  have "map_of (map (\<lambda>(k, cs). if k = str then (k, cs @ [ptr]) else (k, cs)) m) k' =
      (if k' = str then map_option (\<lambda>cs. cs @ [ptr]) (map_of m str) else map_of m k')" for k'
    by (induction m) auto
  with Some show ?thesis by (auto simp: AddConn_map_def conns_of_def fun_eq_iff)
qed

lemma AddConn_ok: "mstr_ok m \<Longrightarrow> mstr_ok (AddConn_map str ptr m)"
  using mstr_ok_insert [of m "(str, [ptr])"] unfolding AddConn_map_def mstr_ok_def AddConn_keys [of str ptr m, symmetric]
  by (simp split: option.splits)

lemma mset_insert: "map_of m (fst x) = None \<Longrightarrow> mset (concat (map snd (mstr_insert x m))) = mset (snd x) + mset (concat (map snd m))"
  by (induction x m rule: mstr_insert.induct) (auto split: if_splits)

lemma AddConn_mset:
  assumes "mstr_ok m"
  shows "mset (concat (map snd (AddConn_map str ptr m))) = add_mset ptr (mset (concat (map snd m)))"
proof (cases "map_of m str")
  case None
  then show ?thesis using mset_insert [of m "(str, [ptr])"] by (simp add: AddConn_map_def)
next
  case (Some conns)
  have "distinct (map fst m)" by (rule mstr_ok_distinct [OF assms])
  then have "map_of m str = Some conns \<Longrightarrow>
      mset (concat (map snd (map (\<lambda>(k, cs). if k = str then (k, cs @ [ptr]) else (k, cs)) m))) = add_mset ptr (mset (concat (map snd m)))"
  proof (induction m)
    case (Cons kv m)
    show ?case
    proof (cases "fst kv = str")
      case True
      then have "map (\<lambda>(k, cs). if k = str then (k, cs @ [ptr]) else (k, cs)) m = m"
        using Cons.prems(2) by (intro map_idI) (auto simp: image_iff)
      with True show ?thesis by (cases kv) simp
    next
      case False
      with Cons show ?thesis by (cases kv) auto
    qed
  qed simp
  with Some show ?thesis by (simp add: AddConn_map_def)
qed

lemma GetConn_cases:
  "GetConn_map m name index = (if unat index < length (conns_of m name) then Ret (conns_of m name ! unat index) else Throws INVL_PARA)"
  by (simp add: GetConn_map_def conns_of_def HASSERT_THROW_def split: option.splits)

subsection \<open>Making and deleting the connections\<close>

text \<open>Every connection is open and stands once in the table.\<close>

definition cfg_inv :: "'w cfg_state \<Rightarrow> bool" where
  "cfg_inv s \<longleftrightarrow> mstr_ok (m_db_conns s) \<and> deleted s = [] \<and> list_all (\<lambda>d. m_st d \<noteq> None) (drives s) \<and>
     sq_open (sqw s) = rev (map (\<lambda>d. the (m_st d)) (drives s)) \<and> distinct (sq_open (sqw s)) \<and>
     list_all (\<lambda>h. h < sq_fresh (sqw s)) (sq_open (sqw s)) \<and> mset (concat (map snd (m_db_conns s))) = mset [0..<length (drives s)]"

definition open_law :: "'w sqlite3 \<Rightarrow> bool" where
  "open_law L \<longleftrightarrow> (\<forall>h path w. fst (sl_open L h path w) = SQLITE_OK \<and> fst (snd (sl_open L h path w)))"

lemma conn_step:
  assumes "open_law L" "cfg_inv s"
  shows "\<exists>s'. conn_loop L name path (Suc n) s = conn_loop L name path n s' \<and> cfg_inv s' \<and>
     conns_of (m_db_conns s') = (conns_of (m_db_conns s))(name := conns_of (m_db_conns s) name @ [length (drives s)])"
proof -
  let ?y = "sqw s" let ?k = "length (drives s)"
  obtain w where "sl_open L (sq_fresh ?y) (c_str path) (sq_db ?y) = (SQLITE_OK, True, w)"
    using assms(1) unfolding open_law_def by (metis prod.collapse)
  then have "sq_Connect L path (sqlite_drive_new, ?y) =
      (AOk ERR_OK, \<lparr>m_st = Some (sq_fresh ?y)\<rparr>, ?y\<lparr>sq_db := w, sq_fresh := Suc (sq_fresh ?y), sq_open := sq_fresh ?y # sq_open ?y\<rparr>)"
    by (simp add: sq_Connect_def sqlite_drive_new_def act_bind_def act_seq_def sq_defs)
  then have "conn_loop L name path (Suc n) s = conn_loop L name path n
      (s\<lparr>drives := drives s @ [\<lparr>m_st = Some (sq_fresh ?y)\<rparr>],
         sqw := ?y\<lparr>sq_db := w, sq_fresh := Suc (sq_fresh ?y), sq_open := sq_fresh ?y # sq_open ?y\<rparr>,
         m_db_conns := AddConn_map name ?k (m_db_conns s)\<rparr>)" (is "_ = conn_loop L name path n ?s")
    using assms(2) by (simp add: new_conn_def on_conn_def lift_out_def AddConn_def act_bind_def act_seq_def act_ok_def cfg_inv_def)
  moreover have "cfg_inv ?s" using assms(2) AddConn_ok AddConn_mset by (auto simp: cfg_inv_def list_all_iff less_SucI)
  moreover have "conns_of (m_db_conns ?s) = (conns_of (m_db_conns s))(name := conns_of (m_db_conns s) name @ [?k])"
    using assms(2) by (auto simp: cfg_inv_def conns_of_def AddConn_map_of fun_eq_iff)
  ultimately show ?thesis by blast
qed

lemma conn_loop_ok:
  assumes "open_law L" "cfg_inv s"
  shows "\<exists>s'. conn_loop L name path n s = (AOk ERR_OK, s') \<and> cfg_inv s' \<and>
     (\<forall>k. length (conns_of (m_db_conns s') k) = length (conns_of (m_db_conns s) k) + (if k = name then n else 0))"
  using assms(2)
proof (induction n arbitrary: s)
  case (Suc n)
  from conn_step [OF assms(1) Suc.prems] obtain s1 where s1: "conn_loop L name path (Suc n) s = conn_loop L name path n s1" "cfg_inv s1"
    "conns_of (m_db_conns s1) = (conns_of (m_db_conns s))(name := conns_of (m_db_conns s) name @ [length (drives s)])" by metis
  from Suc.IH [OF s1(2)] s1 show ?case by auto
qed simp

definition sqlite_item :: "string \<times> string \<Rightarrow> json" where
  "sqlite_item = (\<lambda>(name, path). JObject [(''dbtype'', JString ''SQLITE''), (''dbname'', JString name), (''dbpath'', JString path)])"

lemma items_loop_ok:
  assumes "open_law L" "cfg_inv s"
  shows "\<exists>s'. items_loop L n (map sqlite_item es) s = (AOk ERR_OK, s') \<and> cfg_inv s' \<and>
     (\<forall>k. length (conns_of (m_db_conns s') k) = length (conns_of (m_db_conns s) k) + unat n * count_list (map fst es) k)"
  using assms(2)
proof (induction es arbitrary: s)
  case (Cons e es)
  obtain name path where e: "e = (name, path)" by (cases e)
  from conn_loop_ok [OF assms(1) Cons.prems, of name path "unat n"] obtain s1 where s1: "conn_loop L name path (unat n) s = (AOk ERR_OK, s1)" "cfg_inv s1"
    "\<forall>k. length (conns_of (m_db_conns s1) k) = length (conns_of (m_db_conns s) k) + (if k = name then unat n else 0)" by metis
  then have "items_loop L n (map sqlite_item (e # es)) s = items_loop L n (map sqlite_item es) s1"
    by (simp add: e sqlite_item_def js_member_def js_string_def act_bind_def act_ok_def)
  with Cons.IH [OF s1(2)] s1(3) e show ?case by (auto simp: algebra_simps)
qed simp

lemma delete_conns_closes:
  assumes "distinct ptrs" "list_all (\<lambda>p. p < length (drives s) \<and> p \<notin> set (deleted s) \<and> m_st (drives s ! p) \<noteq> None) ptrs"
    "distinct (map (\<lambda>p. the (m_st (drives s ! p))) ptrs)" "(\<lambda>p. the (m_st (drives s ! p))) ` set ptrs = set (sq_open (sqw s))" "distinct (sq_open (sqw s))"
  shows "\<exists>s'. delete_conns L ptrs s = (AOk (), s') \<and> sq_open (sqw s') = [] \<and> m_db_conns s' = m_db_conns s"
  using assms
proof (induction ptrs arbitrary: s)
  case (Cons p ptrs)
  let ?h = "the (m_st (drives s ! p))"
  have p: "p < length (drives s)" "m_st (drives s ! p) = Some ?h" "?h \<in> set (sq_open (sqw s))" "p \<notin> set ptrs" using Cons.prems by auto
  let ?d = "s\<lparr>drives := (drives s)[p := \<lparr>m_st = None\<rparr>], sqw := (sqw s)\<lparr>sq_db := sl_close L ?h (sq_db (sqw s)), sq_open := remove1 ?h (sq_open (sqw s))\<rparr>\<rparr>"
  let ?s = "?d\<lparr>deleted := p # deleted s\<rparr>"
  have d: "on_conn p (sq_Disconnect L) s = (AOk (), ?d)"
    using p Cons.prems(2) by (cases "drives s ! p") (auto simp: on_conn_def lift_out_def sq_Disconnect_def act_bind_def act_seq_def sq_defs split: option.splits)
  have same: "drives ?s ! q = drives s ! q" if "q \<in> set ptrs" for q using that p(4) by (cases "q = p") simp_all
  have "(\<lambda>q. the (m_st (drives ?s ! q))) ` set ptrs = (\<lambda>q. the (m_st (drives s ! q))) ` set ptrs" using same by (auto intro!: image_cong)
  also have "\<dots> = set (sq_open (sqw s)) - {?h}"
    unfolding Cons.prems(4) [symmetric] using Cons.prems(3) by simp
  finally have "\<exists>s'. delete_conns L ptrs ?s = (AOk (), s') \<and> sq_open (sqw s') = [] \<and> m_db_conns s' = m_db_conns ?s"
    using Cons.prems same by (intro Cons.IH) (auto simp: list_all_iff cong: map_cong)
  then show ?case using d by (simp add: act_seq_out(1) [where m = "on_conn p (sq_Disconnect L)"] act_seq_out(1) [where m = "\<lambda>s. (AOk (), s\<lparr>deleted := p # deleted s\<rparr>)"])
qed auto

lemma cfg_inv_delete:
  assumes "cfg_inv s"
  shows "\<exists>s'. DbConnConfig_delete L s = (AOk (), s') \<and> sq_open (sqw s') = [] \<and> m_db_conns s' = []"
proof -
  let ?ptrs = "concat (map snd (m_db_conns s))" let ?h = "\<lambda>p. the (m_st (drives s ! p))"
  have m: "mset ?ptrs = mset [0..<length (drives s)]" and o: "sq_open (sqw s) = rev (map (\<lambda>d. the (m_st d)) (drives s))"
    and d: "distinct (sq_open (sqw s))" and a: "list_all (\<lambda>d. m_st d \<noteq> None) (drives s)" using assms by (auto simp: cfg_inv_def)
  have ptrs: "distinct ?ptrs" "set ?ptrs = {0..<length (drives s)}"
    using m by (metis distinct_upt mset_eq_imp_distinct_iff, metis m mset_eq_setD atLeast_upt set_upt)
  have h: "map ?h [0..<length (drives s)] = map (\<lambda>d. the (m_st d)) (drives s)" by (rule nth_equalityI) auto
  then have "distinct (map ?h [0..<length (drives s)])" using o d by simp
  then have i: "inj_on ?h (set ?ptrs)" unfolding ptrs(2) by (simp add: distinct_map)
  have "?h ` set ?ptrs = set (map ?h [0..<length (drives s)])" unfolding ptrs(2) by simp
  then have im: "?h ` set ?ptrs = set (sq_open (sqw s))" unfolding h o by simp
  have "list_all (\<lambda>p. p < length (drives s) \<and> p \<notin> set (deleted s) \<and> m_st (drives s ! p) \<noteq> None) ?ptrs"
    unfolding list_all_iff ptrs(2) using a assms by (simp add: list_all_length cfg_inv_def)
  from delete_conns_closes [OF ptrs(1) this _ im d, of L] i ptrs(1) obtain s1 where
    "delete_conns L ?ptrs s = (AOk (), s1)" "sq_open (sqw s1) = []" by (auto simp: distinct_map)
  then show ?thesis by (simp add: DbConnConfig_delete_def act_seq_out(1) [where m = "delete_conns L ?ptrs"])
qed



text \<open>A connection that cannot be opened ends the initialisation with the object and its handle lost and the earlier connections in the
  table.\<close>

lemma InitFromConfigFile_leaks:
  assumes "sl_open L (sq_fresh (sqw s)) (c_str path) (sq_db (sqw s)) = (SQLITE_FAILED e, True, w)" "deleted s = []"
  shows "\<exists>s'. conn_loop L name path (Suc n) s = (AOk DEP_ERROR, s') \<and> length (drives s') = Suc (length (drives s)) \<and>
     m_db_conns s' = m_db_conns s \<and> sq_open (sqw s') = sq_fresh (sqw s) # sq_open (sqw s)"
  using assms by (simp add: new_conn_def on_conn_def lift_out_def act_bind_def act_ok_def sq_Connect_def sqlite_drive_new_def sq_defs)

end
