(* ===== verification/Sysv_Ipc.thy ===== *)
theory Sysv_Ipc
  imports Action Outcome
begin

unbundle bit_operations_syntax

text \<open>
  System V objects: \<^verbatim>\<open>src/src/internal/ipcbase_in.h\<close>, \<^verbatim>\<open>hsharememory\<close>, \<^verbatim>\<open>hmessagequeue\<close> and \<^verbatim>\<open>hsemaphore\<close>.

  The kernel is a parameter, one record of calls per class on a world of any type; a call gives its result, for the
  calls whose \<^verbatim>\<open>errno\<close> the code reads whether it is \<^verbatim>\<open>EEXIST\<close>, and the world. The locale \<open>ipc_object\<close> is what \<^verbatim>\<open>Init\<close> of
  the base class relies on.
\<close>

subsection \<open>The base class\<close>

definition IPC_CREAT :: int where "IPC_CREAT = 512"

definition IPC_EXCL :: int where "IPC_EXCL = 1024"

definition IPC_NOWAIT :: int where "IPC_NOWAIT = 2048"

definition MSG_NOERROR :: int where "MSG_NOERROR = 4096"

definition DEFAULT_IPC_FLAG :: int where "DEFAULT_IPC_FLAG = IPC_CREAT OR 384"

record ipc_basic =
  m_key :: int
  m_id :: int
  m_flag :: int

definition ipc_basic_new :: ipc_basic where
  "ipc_basic_new = \<lparr>m_key = - 1, m_id = - 1, m_flag = 0\<rparr>"

definition ipc_basic_file :: "(string \<Rightarrow> int \<Rightarrow> int) \<Rightarrow> string \<Rightarrow> int \<Rightarrow> ipc_basic" where
  "ipc_basic_file ftok path proj_id = (let ret_key = ftok path proj_id in
     if ret_key \<noteq> - 1 then ipc_basic_new\<lparr>m_key := ret_key\<rparr> else ipc_basic_new)"

definition ipc_basic_key :: "int \<Rightarrow> int \<Rightarrow> ipc_basic" where
  "ipc_basic_key key flag = \<lparr>m_key = key, m_id = - 1, m_flag = flag\<rparr>"

definition HasInited :: "'a ipc_basic_scheme \<Rightarrow> bool" where
  "HasInited b \<longleftrightarrow> m_id b \<noteq> - 1"

definition SetInvalid :: "'a ipc_basic_scheme \<Rightarrow> 'a ipc_basic_scheme" where
  "SetInvalid b = b\<lparr>m_id := - 1\<rparr>"

definition ipc_Init :: "('s, 'e, RET_T) action \<Rightarrow> ('s, 'e, RET_T) action \<Rightarrow> ('s, 'e, RET_T) action" where
  "ipc_Init create opens = act_bind create (\<lambda>create_ret.
     if create_ret = SYS_FAILED then act_ret SYS_FAILED
     else if \<not> IS_OK create_ret then act_ok opens (act_ret ERR_OK)
     else act_ret ERR_OK)"

subsection \<open>Shared memory\<close>

datatype shm_ptr = ShmNull | ShmBad | Shm int

record HShareMemory = ipc_basic +
  m_size :: nat
  m_shm_ptr :: shm_ptr

record 'w shm_kernel =
  k_shmget :: "int \<Rightarrow> nat \<Rightarrow> int \<Rightarrow> 'w \<Rightarrow> (int \<times> bool) \<times> 'w"
  k_shmat :: "int \<Rightarrow> 'w \<Rightarrow> bool \<times> 'w"
  k_shmdt :: "int \<Rightarrow> 'w \<Rightarrow> bool \<times> 'w"
  k_shm_rmid :: "int \<Rightarrow> 'w \<Rightarrow> bool \<times> 'w"
  k_mem :: "int \<Rightarrow> 'w \<Rightarrow> HMEM"
  k_put :: "int \<Rightarrow> HMEM \<Rightarrow> 'w \<Rightarrow> 'w"

type_synonym ('w, 'a) shm_action = "(HShareMemory \<times> 'w, RET_T, 'a) action"

definition HShareMemory_new :: HShareMemory where
  "HShareMemory_new = \<lparr>m_key = - 1, m_id = - 1, m_flag = 0, m_size = 0, m_shm_ptr = ShmNull\<rparr>"

definition HShareMemory_key :: "int \<Rightarrow> nat \<Rightarrow> int \<Rightarrow> HShareMemory" where
  "HShareMemory_key key shmsize flag = \<lparr>m_key = key, m_id = - 1, m_flag = flag, m_size = shmsize, m_shm_ptr = ShmNull\<rparr>"

text \<open>\<^verbatim>\<open>shmdt\<close> of the invalid address fails.\<close>

definition shm_dettach :: "'w shm_kernel \<Rightarrow> ('w, RET_T) shm_action" where
  "shm_dettach K = with_obj (\<lambda>b. if \<not> HasInited b then act_ret SRC_ERR
     else case m_shm_ptr b of
       ShmNull \<Rightarrow> act_ret ERR_OK
     | ShmBad \<Rightarrow> act_ret SYS_FAILED
     | Shm i \<Rightarrow> act_bind (kernel (k_shmdt K i)) (\<lambda>ok. if \<not> ok then act_ret SYS_FAILED
                 else act_seq (set_obj (\<lambda>b. b\<lparr>m_shm_ptr := ShmNull\<rparr>)) (act_ret ERR_OK)))"

definition shm_control_rmid :: "'w shm_kernel \<Rightarrow> ('w, RET_T) shm_action" where
  "shm_control_rmid K = with_obj (\<lambda>b. if \<not> HasInited b then act_ret SRC_ERR
     else act_bind (kernel (k_shm_rmid K (m_id b))) (\<lambda>ok. act_ret (if ok then ERR_OK else SYS_FAILED)))"

definition shm_Remove :: "'w shm_kernel \<Rightarrow> ('w, RET_T) shm_action" where
  "shm_Remove K = with_obj (\<lambda>b. if \<not> HasInited b then act_ret ERR_STATUS
     else act_seq (shm_dettach K) (act_seq (shm_control_rmid K) (act_seq (set_obj SetInvalid) (act_ret ERR_OK))))"

definition shm_at :: "'w shm_kernel \<Rightarrow> ('w, shm_ptr) shm_action" where
  "shm_at K = with_obj (\<lambda>b. act_bind (kernel (k_shmat K (m_id b))) (\<lambda>ok.
     let p = (if ok then Shm (m_id b) else ShmBad) in act_seq (set_obj (\<lambda>b. b\<lparr>m_shm_ptr := p\<rparr>)) (act_ret p)))"

definition shm_memset :: "'w shm_kernel \<Rightarrow> int \<Rightarrow> nat \<Rightarrow> ('w, unit) shm_action" where
  "shm_memset K i n = (\<lambda>(b, w). let m = k_mem K i w in
     if n \<le> length m then (AOk (), b, k_put K i (replicate n 0 @ drop n m) w) else (AStuck, b, w))"

definition shm_create :: "'w shm_kernel \<Rightarrow> ('w, RET_T) shm_action" where
  "shm_create K = with_obj (\<lambda>b. if HasInited b then act_ret ERR_OK
     else act_bind (kernel (k_shmget K (m_key b) (m_size b) (m_flag b OR IPC_CREAT OR 600))) (\<lambda>(shmid, eexist).
       if shmid < 0 then act_ret (if eexist then SYS_FAILED else SRC_ERR)
       else act_seq (set_obj (\<lambda>b. b\<lparr>m_id := shmid\<rparr>)) (act_bind (shm_at K) (\<lambda>p.
         if p = ShmBad then act_seq (shm_Remove K) (act_ret SYS_FAILED)
         else act_seq (shm_memset K shmid (m_size b)) (act_ret ERR_OK)))))"

definition shm_open :: "'w shm_kernel \<Rightarrow> ('w, RET_T) shm_action" where
  "shm_open K = with_obj (\<lambda>b. if HasInited b then act_ret ERR_OK
     else act_bind (kernel (k_shmget K (m_key b) (m_size b) (m_flag b))) (\<lambda>(shmid, _).
       if \<not> shmid > 0 then act_ret SYS_FAILED
       else act_seq (set_obj (\<lambda>b. b\<lparr>m_id := shmid\<rparr>)) (act_bind (shm_at K) (\<lambda>p.
         if p = ShmBad then act_seq (shm_Remove K) (act_ret SYS_FAILED) else act_ret ERR_OK))))"

definition shm_attach :: "'w shm_kernel \<Rightarrow> ('w, RET_T) shm_action" where
  "shm_attach K = with_obj (\<lambda>b. if \<not> HasInited b then act_ret SRC_ERR
     else act_bind (shm_at K) (\<lambda>p. act_ret (if p = ShmBad then SYS_FAILED else ERR_OK)))"

definition shm_Init :: "'w shm_kernel \<Rightarrow> ('w, RET_T) shm_action" where
  "shm_Init K = ipc_Init (shm_create K) (shm_open K)"

subsection \<open>Message queues\<close>

text \<open>The kernel gives the type (8 bytes) and the text of a message; \<open>k_msgmax\<close> is its limit on the length of a text.\<close>

record 'w msg_kernel =
  k_msgget :: "int \<Rightarrow> int \<Rightarrow> 'w \<Rightarrow> (int \<times> bool) \<times> 'w"
  k_msgmax :: nat
  k_msgsnd :: "int \<Rightarrow> HMEM \<Rightarrow> HMEM \<Rightarrow> int \<Rightarrow> 'w \<Rightarrow> bool \<times> 'w"
  k_msgrcv :: "int \<Rightarrow> nat \<Rightarrow> int \<Rightarrow> int \<Rightarrow> 'w \<Rightarrow> (HMEM \<times> HMEM) option \<times> 'w"
  k_msg_rmid :: "int \<Rightarrow> 'w \<Rightarrow> bool \<times> 'w"
  k_msg_stat :: "int \<Rightarrow> 'w \<Rightarrow> (nat \<times> nat \<times> nat) option"

type_synonym ('w, 'a) msg_action = "(ipc_basic \<times> 'w, RET_T, 'a) action"

definition mq_create :: "'w msg_kernel \<Rightarrow> ('w, RET_T) msg_action" where
  "mq_create K = with_obj (\<lambda>b. if HasInited b then act_ret ERR_OK
     else act_bind (kernel (k_msgget K (m_key b) (m_flag b OR IPC_CREAT OR 600))) (\<lambda>(msgid, eexist).
       if msgid < 0 then act_ret (if eexist then SYS_FAILED else SRC_ERR)
       else act_seq (set_obj (\<lambda>b. b\<lparr>m_id := msgid\<rparr>)) (act_ret ERR_OK)))"

definition mq_open :: "'w msg_kernel \<Rightarrow> ('w, RET_T) msg_action" where
  "mq_open K = with_obj (\<lambda>b. if HasInited b then act_ret ERR_OK
     else act_bind (kernel (k_msgget K (m_key b) (m_flag b))) (\<lambda>(msgid, _).
       if \<not> msgid > 0 then act_ret SYS_FAILED else act_seq (set_obj (\<lambda>b. b\<lparr>m_id := msgid\<rparr>)) (act_ret ERR_OK)))"

definition mq_Init :: "'w msg_kernel \<Rightarrow> ('w, RET_T) msg_action" where
  "mq_Init K = ipc_Init (mq_create K) (mq_open K)"

definition mq_Remove :: "'w msg_kernel \<Rightarrow> ('w, RET_T) msg_action" where
  "mq_Remove K = with_obj (\<lambda>b. if \<not> HasInited b then act_ret SRC_ERR
     else act_bind (kernel (k_msg_rmid K (m_id b))) (\<lambda>ok. act_ret (if ok then ERR_OK else SYS_FAILED)))"

text \<open>\<open>ptr\<close> is the object the pointer leads to. The length of the text is computed in 64 bits; the kernel refuses a length over its limit
  before it reads the object.\<close>

definition mq_Send :: "'w msg_kernel \<Rightarrow> HMEM \<Rightarrow> nat \<Rightarrow> int \<Rightarrow> ('w, RET_T) msg_action" where
  "mq_Send K ptr sz flags = with_obj (\<lambda>b. let send_size = size_sub sz 8 in
     if k_msgmax K < send_size then act_ret SYS_FAILED
     else if length ptr < 8 + send_size then act_stuck
     else act_bind (kernel (k_msgsnd K (m_id b) (take 8 ptr) (take send_size (drop 8 ptr)) flags))
            (\<lambda>ok. act_ret (if ok then ERR_OK else SYS_FAILED)))"

text \<open>The type and the text are written to \<open>buf\<close>; the result is the code, the buffer and the new size.\<close>

definition mq_Recv :: "'w msg_kernel \<Rightarrow> HMEM \<Rightarrow> nat \<Rightarrow> int \<Rightarrow> int \<Rightarrow> ('w, RET_T \<times> HMEM \<times> nat) msg_action" where
  "mq_Recv K buf sz lType flags = with_obj (\<lambda>b. act_bind (kernel (k_msgrcv K (m_id b) sz lType flags)) (\<lambda>r. case r of
     None \<Rightarrow> act_ret (SYS_FAILED, buf, sz)
   | Some (mt, body) \<Rightarrow> if length buf < length (mt @ body) then act_stuck
       else act_ret (ERR_OK, mt @ body @ drop (length (mt @ body)) buf, length body)))"

definition stat_msqid :: "'w msg_kernel \<Rightarrow> ('w, nat \<times> nat \<times> nat) msg_action" where
  "stat_msqid K = with_obj (\<lambda>b. if \<not> HasInited b then act_throw SRC_ERR
     else act_bind (kernel (\<lambda>w. (k_msg_stat K (m_id b) w, w))) (\<lambda>r. case r of None \<Rightarrow> act_throw SYS_FAILED | Some st \<Rightarrow> act_ret st))"

definition mq_DataLength :: "'w msg_kernel \<Rightarrow> ('w, nat) msg_action" where
  "mq_DataLength K = act_bind (stat_msqid K) (\<lambda>(cbytes, qnum, qbytes). act_ret cbytes)"

definition mq_MsgCount :: "'w msg_kernel \<Rightarrow> ('w, nat) msg_action" where
  "mq_MsgCount K = act_bind (stat_msqid K) (\<lambda>(cbytes, qnum, qbytes). act_ret qnum)"

definition mq_MaxLength :: "'w msg_kernel \<Rightarrow> ('w, nat) msg_action" where
  "mq_MaxLength K = act_bind (stat_msqid K) (\<lambda>(cbytes, qnum, qbytes). act_ret qbytes)"

text \<open>The buffer has 128 bytes, the kernel is told that 128 bytes of text fit behind the type. \<open>None\<close>: the loop does not end or the
  buffer is overrun.\<close>

partial_function (option) ClearMessage_loop :: "'w msg_kernel \<Rightarrow> int \<Rightarrow> nat \<Rightarrow> 'w \<Rightarrow> (nat \<times> 'w) option" where
  "ClearMessage_loop K i res w = (case k_msgrcv K i 128 0 (IPC_NOWAIT OR MSG_NOERROR) w of (r, w) \<Rightarrow>
     (case r of
        None \<Rightarrow> Some (res, w)
      | Some (mt, body) \<Rightarrow> if 128 < length (mt @ body) then None else ClearMessage_loop K i (res + 1) w))"

definition ClearMessage :: "'w msg_kernel \<Rightarrow> ('w, nat) msg_action" where
  "ClearMessage K = (\<lambda>(b, w). case ClearMessage_loop K (m_id b) 0 w of None \<Rightarrow> (AStuck, b, w) | Some (res, w) \<Rightarrow> (AOk res, b, w))"

subsection \<open>Semaphores\<close>

record HSemaphore = ipc_basic +
  m_nsems :: int

text \<open>\<open>k_otime\<close> is the time of the last \<^verbatim>\<open>semop\<close> of the set, 0 when there was none.\<close>

record 'w sem_kernel =
  k_semget :: "int \<Rightarrow> int \<Rightarrow> int \<Rightarrow> 'w \<Rightarrow> (int \<times> bool) \<times> 'w"
  k_setall :: "int \<Rightarrow> HUSN list \<Rightarrow> 'w \<Rightarrow> bool \<times> 'w"
  k_otime :: "int \<Rightarrow> 'w \<Rightarrow> nat option"
  k_semop :: "int \<Rightarrow> int \<Rightarrow> int \<Rightarrow> int \<Rightarrow> 'w \<Rightarrow> bool \<times> 'w"
  k_sem_rmid :: "int \<Rightarrow> 'w \<Rightarrow> bool \<times> 'w"
  k_sleep :: "'w \<Rightarrow> 'w"

type_synonym ('w, 'a) sem_action = "(HSemaphore \<times> 'w, RET_T, 'a) action"

definition MAX_TRIES :: nat where "MAX_TRIES = 5"

definition sem_Remove :: "'w sem_kernel \<Rightarrow> ('w, RET_T) sem_action" where
  "sem_Remove K = with_obj (\<lambda>b. if \<not> HasInited b then act_ret SRC_ERR
     else act_bind (kernel (k_sem_rmid K (m_id b))) (\<lambda>ok. act_ret (if ok then ERR_OK else SYS_FAILED)))"

primrec Setall_loop :: "'w sem_kernel \<Rightarrow> nat \<Rightarrow> ('w, RET_T) sem_action" where
  "Setall_loop K 0 = act_ret TIME_OUT"
| "Setall_loop K (Suc n) = with_obj (\<lambda>b. act_bind (kernel (\<lambda>w. (k_otime K (m_id b) w, w))) (\<lambda>r. case r of
     None \<Rightarrow> act_ret SYS_FAILED
   | Some otime \<Rightarrow> if otime \<noteq> 0 then act_ret ERR_OK else act_seq (kernel (\<lambda>w. ((), k_sleep K w))) (Setall_loop K n)))"

text \<open>Without an array of initial values all are 1.\<close>

definition Setall :: "'w sem_kernel \<Rightarrow> HUSN list option \<Rightarrow> ('w, RET_T) sem_action" where
  "Setall K init_array = with_obj (\<lambda>b.
     let array = (case init_array of None \<Rightarrow> replicate (nat (m_nsems b)) 1 | Some a \<Rightarrow> a) in
     act_bind (kernel (k_setall K (m_id b) array)) (\<lambda>ok. if \<not> ok then act_ret SYS_FAILED else Setall_loop K MAX_TRIES))"

definition sem_create :: "'w sem_kernel \<Rightarrow> ('w, RET_T) sem_action" where
  "sem_create K = with_obj (\<lambda>b. if HasInited b then act_ret ERR_OK
     else act_bind (kernel (k_semget K (m_key b) (m_nsems b) (m_flag b OR IPC_CREAT OR IPC_EXCL))) (\<lambda>(semid, eexist).
       if \<not> (semid > 0 \<or> \<not> eexist) then act_ret SRC_ERR
       else if \<not> semid > 0 then act_ret SYS_FAILED
       else act_seq (set_obj (\<lambda>b. b\<lparr>m_id := semid\<rparr>)) (act_ret ERR_OK)))"

definition sem_open :: "'w sem_kernel \<Rightarrow> ('w, RET_T) sem_action" where
  "sem_open K = with_obj (\<lambda>b. if HasInited b then act_ret ERR_OK
     else act_bind (kernel (k_semget K (m_key b) 0 (m_flag b))) (\<lambda>(semid, _).
       if \<not> semid > 0 then act_ret SYS_FAILED else act_seq (set_obj (\<lambda>b. b\<lparr>m_id := semid\<rparr>)) (act_ret ERR_OK)))"

definition sem_Init :: "'w sem_kernel \<Rightarrow> ('w, RET_T) sem_action" where
  "sem_Init K = ipc_Init (sem_create K) (sem_open K)"

definition sem_operation :: "'w sem_kernel \<Rightarrow> int \<Rightarrow> int \<Rightarrow> int \<Rightarrow> ('w, RET_T) sem_action" where
  "sem_operation K semnum semop sem_flg = with_obj (\<lambda>b.
     act_bind (kernel (k_semop K (m_id b) semnum semop sem_flg)) (\<lambda>ok. act_ret (if ok then ERR_OK else SYS_FAILED)))"

definition sem_Lock :: "'w sem_kernel \<Rightarrow> int \<Rightarrow> int \<Rightarrow> ('w, RET_T) sem_action" where
  "sem_Lock K semnum sem_flg = sem_operation K semnum (- 1) sem_flg"

definition sem_Unlock :: "'w sem_kernel \<Rightarrow> int \<Rightarrow> int \<Rightarrow> ('w, RET_T) sem_action" where
  "sem_Unlock K semnum sem_flg = sem_operation K semnum 1 sem_flg"

text \<open>The holder locks when it is made and unlocks when it is destroyed; both results are ignored.\<close>

definition SEM_UNDO :: int where "SEM_UNDO = 4096"

definition SemHolder_new :: "'w sem_kernel \<Rightarrow> int \<Rightarrow> ('w, unit) sem_action" where
  "SemHolder_new K index = act_seq (sem_Lock K index SEM_UNDO) (act_ret ())"

definition SemHolder_delete :: "'w sem_kernel \<Rightarrow> int \<Rightarrow> ('w, unit) sem_action" where
  "SemHolder_delete K index = act_seq (sem_Unlock K index SEM_UNDO) (act_ret ())"

subsection \<open>Initialisation\<close>

text \<open>What \<^verbatim>\<open>Init\<close> asks of \<^verbatim>\<open>create\<close> and \<^verbatim>\<open>open\<close>: they succeed only with a valid identifier, and \<^verbatim>\<open>create\<close> leaves an object that has
  one alone.\<close>

locale ipc_object =
  fixes create opens :: "('a ipc_basic_scheme \<times> 'w, 'e, RET_T) action"
  assumes create_again: "HasInited b \<Longrightarrow> create (b, w) = (AOk ERR_OK, b, w)"
    and create_valid: "create (b, w) = (AOk ERR_OK, b', w') \<Longrightarrow> HasInited b'"
    and open_valid: "opens (b, w) = (AOk ERR_OK, b', w') \<Longrightarrow> HasInited b'"
begin

lemma Init_valid:
  assumes "ipc_Init create opens (b, w) = (AOk ERR_OK, b', w')"
  shows "HasInited b' \<and> ipc_Init create opens (b', w'') = (AOk ERR_OK, b', w'')"
proof -
  obtain out b1 w1 where c: "create (b, w) = (out, b1, w1)" by (cases "create (b, w)")
  have "HasInited b'"
  proof (cases "out = AOk ERR_OK")
    case True
    with assms c show ?thesis using create_valid [of b w] by (auto simp: ipc_Init_def act_bind_def)
  next
    case False
    with assms c obtain ret where "out = AOk ret" "ret \<noteq> SYS_FAILED" "ret \<noteq> ERR_OK"
      by (cases out) (auto simp: ipc_Init_def act_bind_def split: if_splits)
    with assms c have "act_ok opens (act_ret ERR_OK) (b1, w1) = (AOk ERR_OK, b', w')" by (simp add: ipc_Init_def act_bind_def)
    then have "opens (b1, w1) = (AOk ERR_OK, b', w')" by (auto simp: act_ok_def act_bind_def split: prod.splits act_out.splits if_splits)
    then show ?thesis by (rule open_valid)
  qed
  then show ?thesis using create_again [of b' w''] by (simp add: ipc_Init_def act_bind_def)
qed

end

lemmas ipc_defs = with_obj_def set_obj_def kernel_def act_bind_def act_seq_def

interpretation shm: ipc_object "shm_create K" "shm_open K" for K
proof (unfold_locales, goal_cases)
  case (1 b w)
  then show ?case by (simp add: shm_create_def with_obj_def)
next
  case (2 b w b' w')
  then show ?case
    by (auto simp: shm_create_def shm_at_def shm_memset_def ipc_defs HasInited_def Let_def split: if_splits prod.splits act_out.splits)
next
  case (3 b w b' w')
  then show ?case
    by (auto simp: shm_open_def shm_at_def ipc_defs HasInited_def Let_def split: if_splits prod.splits act_out.splits)
qed

interpretation mq: ipc_object "mq_create K" "mq_open K" for K
  by unfold_locales (auto simp: mq_create_def mq_open_def ipc_defs HasInited_def split: if_splits prod.splits)

interpretation sem: ipc_object "sem_create K" "sem_open K" for K
  by unfold_locales (auto simp: sem_create_def sem_open_def ipc_defs HasInited_def split: if_splits prod.splits)

text \<open>Once \<^verbatim>\<open>Init\<close> of a shared memory, a message queue or a semaphore set has succeeded the object has an identifier, and a
  further \<^verbatim>\<open>Init\<close> succeeds and changes nothing.\<close>

theorem ipc_Init_once:
  "(shm_Init KS (b1, w1) = (AOk ERR_OK, b1', w1') \<longrightarrow> HasInited b1' \<and> shm_Init KS (b1', v) = (AOk ERR_OK, b1', v)) \<and>
   (mq_Init KM (b2, w2) = (AOk ERR_OK, b2', w2') \<longrightarrow> HasInited b2' \<and> mq_Init KM (b2', v2) = (AOk ERR_OK, b2', v2)) \<and>
   (sem_Init KE (b3, w3) = (AOk ERR_OK, b3', w3') \<longrightarrow> HasInited b3' \<and> sem_Init KE (b3', v3) = (AOk ERR_OK, b3', v3))"
  unfolding shm_Init_def mq_Init_def sem_Init_def 
  using shm.Init_valid [of KS b1 w1 b1' w1' v] mq.Init_valid [of KM b2 w2 b2' w2' v2] sem.Init_valid [of KE b3 w3 b3' w3' v3] by blast

subsection \<open>The content of a shared memory\<close>

text \<open>\<^verbatim>\<open>create\<close> asks for the segment without \<^verbatim>\<open>IPC_EXCL\<close>, so it also gets a segment that exists, and clears it: \<^verbatim>\<open>Init\<close> in a second process
  wipes what the first has stored.\<close>

theorem shm_Init_wipes:
  assumes "\<not> HasInited b" "k_shmget K (m_key b) (m_size b) (m_flag b OR IPC_CREAT OR 600) w = ((i, e), w1)" "0 \<le> i"
    "k_shmat K i w1 = (True, w2)" "m_size b \<le> length (k_mem K i w2)"
  shows "shm_Init K (b, w) = (AOk ERR_OK, b\<lparr>m_id := i, m_shm_ptr := Shm i\<rparr>,
     k_put K i (replicate (m_size b) 0 @ drop (m_size b) (k_mem K i w2)) w2)"
  using assms by (simp add: shm_Init_def ipc_Init_def shm_create_def shm_at_def shm_memset_def ipc_defs Let_def)

text \<open>When \<^verbatim>\<open>shmat\<close> fails the segment is removed but the invalid address stays in the object.\<close>

lemma shm_create_bad_pointer:
  assumes "\<not> HasInited b" "k_shmget K (m_key b) (m_size b) (m_flag b OR IPC_CREAT OR 600) w = ((i, e), w1)" "0 \<le> i"
    "k_shmat K i w1 = (False, w2)" "k_shm_rmid K i w2 = (ok, w3)"
  shows "shm_create K (b, w) = (AOk SYS_FAILED, b\<lparr>m_id := - 1, m_shm_ptr := ShmBad\<rparr>, w3)"
  using assms by (cases b) (simp add: shm_create_def shm_at_def shm_Remove_def shm_dettach_def shm_control_rmid_def SetInvalid_def HasInited_def ipc_defs Let_def)

subsection \<open>Messages\<close>

text \<open>The queue of the kernel: messages are appended, and the oldest one is taken.\<close>

definition msg_law :: "'w msg_kernel \<Rightarrow> (int \<Rightarrow> 'w \<Rightarrow> (HMEM \<times> HMEM) list) \<Rightarrow> bool" where
  "msg_law K q \<longleftrightarrow>
     (\<forall>i mt body fl w w'. k_msgsnd K i mt body fl w = (True, w') \<longrightarrow> q i w' = q i w @ [(mt, body)]) \<and>
     (\<forall>i n fl w mt body rest. q i w = (mt, body) # rest \<longrightarrow> length body \<le> n \<or> fl AND MSG_NOERROR = MSG_NOERROR \<longrightarrow>
        fst (k_msgrcv K i n 0 fl w) = Some (mt, take n body) \<and> q i (snd (k_msgrcv K i n 0 fl w)) = rest) \<and>
     (\<forall>i n w. q i w = [] \<longrightarrow> k_msgrcv K i n 0 (IPC_NOWAIT OR MSG_NOERROR) w = (None, w))"

lemma msg_snd: "msg_law K q \<Longrightarrow> k_msgsnd K i mt body fl w = (True, w') \<Longrightarrow> q i w' = q i w @ [(mt, body)]"
  unfolding msg_law_def by blast

lemma msg_rcv:
  assumes "msg_law K q" "q i w = (mt, body) # rest" "length body \<le> n \<or> fl AND MSG_NOERROR = MSG_NOERROR"
  shows "\<exists>w'. k_msgrcv K i n 0 fl w = (Some (mt, take n body), w') \<and> q i w' = rest"
proof -
  have "fst (k_msgrcv K i n 0 fl w) = Some (mt, take n body) \<and> q i (snd (k_msgrcv K i n 0 fl w)) = rest"
    using assms(1) assms(2,3) unfolding msg_law_def by blast
  then show ?thesis by (cases "k_msgrcv K i n 0 fl w") simp
qed

lemma msg_none: "msg_law K q \<Longrightarrow> q i w = [] \<Longrightarrow> k_msgrcv K i n 0 (IPC_NOWAIT OR MSG_NOERROR) w = (None, w)"
  unfolding msg_law_def by blast

lemma ClearMessage_all:
  assumes "msg_law K q" "list_all (\<lambda>(mt, body). length mt = 8) (q i w)"
  shows "if list_all (\<lambda>(mt, body). length body \<le> 120) (q i w)
     then \<exists>w'. ClearMessage_loop K i res w = Some (res + length (q i w), w') \<and> q i w' = []
     else ClearMessage_loop K i res w = None"
  using assms(2)
proof (induction "q i w" arbitrary: w res)
  case Nil
  then show ?case using msg_none [OF assms(1), of i w 128] by (subst (1 2) ClearMessage_loop.simps) simp
next
  case (Cons m rest)
  obtain mt body where m: "m = (mt, body)" by (cases m)
  have "(IPC_NOWAIT OR MSG_NOERROR) AND MSG_NOERROR = MSG_NOERROR" by (simp add: IPC_NOWAIT_def MSG_NOERROR_def)
  with msg_rcv [OF assms(1), of i w mt body rest 128] Cons(2) m obtain w' where
    w': "k_msgrcv K i 128 0 (IPC_NOWAIT OR MSG_NOERROR) w = (Some (mt, take 128 body), w')" "q i w' = rest" by metis
  have mt: "length mt = 8" and r: "list_all (\<lambda>(mt, body). length mt = 8) (q i w')" using Cons.prems Cons(2) [symmetric] m w'(2) by simp_all
  have step: "ClearMessage_loop K i res w = (if length body \<le> 120 then ClearMessage_loop K i (res + 1) w' else None)"
    using w'(1) mt by (subst ClearMessage_loop.simps) auto
  from Cons(1) [OF w'(2) [symmetric] r, of "res + 1"] step show ?case unfolding Cons(2) [symmetric] m w'(2) by (auto split: if_splits)
qed

text \<open>C26: \<^verbatim>\<open>ClearMessage\<close> empties the queue and returns the number of messages when their texts have at most 120 bytes; a longer one overruns
  its buffer on the stack, because the 8 bytes of the type are not counted.\<close>

theorem ClearMessage_empties_or_overruns:
  assumes "msg_law K q" "list_all (\<lambda>(mt, body). length mt = 8) (q (m_id b) w)"
  shows "if list_all (\<lambda>(mt, body). length body \<le> 120) (q (m_id b) w)
     then \<exists>w'. ClearMessage K (b, w) = (AOk (length (q (m_id b) w)), b, w') \<and> q (m_id b) w' = []
     else ClearMessage K (b, w) = (AStuck, b, w)"
  using ClearMessage_all [OF assms, of 0] by (auto simp: ClearMessage_def split: if_splits)

lemma Send_appends:
  assumes "msg_law K q" "8 \<le> length ob" "length ob < 2 ^ 64" "mq_Send K ob (length ob) fl (b, w) = (AOk ERR_OK, b', w')"
  shows "b' = b \<and> q (m_id b) w' = q (m_id b) w @ [(take 8 ob, drop 8 ob)]"
  using assms msg_snd [OF assms(1), of "m_id b" "take 8 ob" "drop 8 ob" fl w]
  by (auto simp: mq_Send_def ipc_defs size_sub_le Let_def split: if_splits prod.splits)

lemma Recv_takes:
  assumes "msg_law K q" "q (m_id b) w = (mt, body) # rest" "length body \<le> sz" "length mt = 8" "8 + length body \<le> length buf"
  shows "\<exists>w'. mq_Recv K buf sz 0 fl (b, w) = (AOk (ERR_OK, mt @ body @ drop (8 + length body) buf, length body), b, w') \<and> q (m_id b) w' = rest"
  using msg_rcv [OF assms(1,2), of sz fl] assms(3-5) by (auto simp: mq_Recv_def ipc_defs)

text \<open>Sending objects one after the other, and receiving \<open>n\<close> objects into a buffer of \<open>cap\<close> bytes.\<close>

primrec send_all :: "'w msg_kernel \<Rightarrow> int \<Rightarrow> HMEM list \<Rightarrow> ipc_basic \<times> 'w \<Rightarrow> (ipc_basic \<times> 'w) option" where
  "send_all K fl [] s = Some s"
| "send_all K fl (ob # obs) s = (case mq_Send K ob (length ob) fl s of
     (out, s) \<Rightarrow> if out = AOk ERR_OK then send_all K fl obs s else None)"

primrec recv_all :: "'w msg_kernel \<Rightarrow> int \<Rightarrow> nat \<Rightarrow> nat \<Rightarrow> ipc_basic \<times> 'w \<Rightarrow> (HMEM list \<times> ipc_basic \<times> 'w) option" where
  "recv_all K fl cap 0 s = Some ([], s)"
| "recv_all K fl cap (Suc n) s = (case mq_Recv K (replicate cap 0) (cap - 8) 0 fl s of
     (AOk (ret, buf, sz), s) \<Rightarrow> if ret = ERR_OK then map_option (\<lambda>(obs, s). (take (8 + sz) buf # obs, s)) (recv_all K fl cap n s) else None
   | _ \<Rightarrow> None)"

lemma send_all_queue:
  assumes "msg_law K q"
  shows "list_all (\<lambda>ob. 8 \<le> length ob \<and> length ob < 2 ^ 64) obs \<Longrightarrow> send_all K fl obs (b, w) = Some (b', w') \<Longrightarrow>
     b' = b \<and> q (m_id b) w' = q (m_id b) w @ map (\<lambda>ob. (take 8 ob, drop 8 ob)) obs"
proof (induction obs arbitrary: w)
  case (Cons ob obs)
  obtain out b1 w1 where s: "mq_Send K ob (length ob) fl (b, w) = (out, b1, w1)" by (cases "mq_Send K ob (length ob) fl (b, w)")
  with Cons.prems(2) have "out = AOk ERR_OK" and r: "send_all K fl obs (b1, w1) = Some (b', w')" by (auto split: if_splits)
  with s Send_appends [OF assms, of ob fl b w b1 w1] Cons.prems(1) have q: "b1 = b" "q (m_id b) w1 = q (m_id b) w @ [(take 8 ob, drop 8 ob)]" by auto
  show ?case using Cons.IH [OF _ r [unfolded q(1)]] Cons.prems(1) q(2) by simp
qed simp

lemma recv_all_queue:
  assumes "msg_law K q"
  shows "list_all (\<lambda>ob. 8 \<le> length ob \<and> length ob \<le> cap) obs \<Longrightarrow> q (m_id b) w = map (\<lambda>ob. (take 8 ob, drop 8 ob)) obs \<Longrightarrow>
     \<exists>w'. recv_all K fl cap (length obs) (b, w) = Some (obs, b, w') \<and> q (m_id b) w' = []"
proof (induction obs arbitrary: w)
  case (Cons ob obs)
  have l: "8 \<le> length ob" "length ob \<le> cap" using Cons.prems(1) by auto
  have a: "take 8 ob @ drop 8 ob @ zs = ob @ zs" for zs by (simp flip: append_assoc)
  have "length ob - 8 \<le> cap - 8" using l by (intro diff_le_mono)
  with l a Recv_takes [OF assms, of b w "take 8 ob" "drop 8 ob" "map (\<lambda>ob. (take 8 ob, drop 8 ob)) obs" "cap - 8" "replicate cap 0" fl] Cons.prems(2)
  obtain w1 where r: "mq_Recv K (replicate cap 0) (cap - 8) 0 fl (b, w) = (AOk (ERR_OK, ob @ replicate (cap - length ob) 0, length ob - 8), b, w1)"
    "q (m_id b) w1 = map (\<lambda>ob. (take 8 ob, drop 8 ob)) obs" by auto
  from Cons.IH [OF _ r(2)] Cons.prems(1) obtain w' where "recv_all K fl cap (length obs) (b, w1) = Some (obs, b, w')" "q (m_id b) w' = []" by auto
  with r(1) l show ?case by simp
qed simp


text \<open>An object shorter than its type gives a length of text close to \<open>2 ^ 64\<close>.\<close>

lemma Send_short: "sz < 8 \<Longrightarrow> k_msgmax K < 2 ^ 64 - 8 \<Longrightarrow> mq_Send K ob sz fl (b, w) = (AOk SYS_FAILED, b, w)"
  by (auto simp: mq_Send_def with_obj_def size_sub_def Let_def)

subsection \<open>Semaphores\<close>

lemma Setall_loop_waits:
  assumes "\<And>w. k_otime K i w = Some 0 \<Longrightarrow> k_otime K i (k_sleep K w) = Some 0" "m_id b = i" "k_otime K i w = Some 0"
  shows "\<exists>w'. Setall_loop K n (b, w) = (AOk TIME_OUT, b, w')"
  using assms(3) by (induction n arbitrary: w) (auto simp: ipc_defs assms(1,2))

text \<open>\<^verbatim>\<open>Setall\<close> waits for the time of the last operation of the set to become non-zero. \<^verbatim>\<open>SETALL\<close> does not set it, so on a set that nobody has
  operated on it always gives up with \<^verbatim>\<open>TIME_OUT\<close>, although the values are set.\<close>

theorem Setall_new_set_times_out:
  assumes "k_setall K (m_id b) (case arr of None \<Rightarrow> replicate (nat (m_nsems b)) 1 | Some a \<Rightarrow> a) w = (True, w1)" "k_otime K (m_id b) w1 = Some 0"
    "\<And>w. k_otime K (m_id b) w = Some 0 \<Longrightarrow> k_otime K (m_id b) (k_sleep K w) = Some 0"
  shows "\<exists>w'. Setall K arr (b, w) = (AOk TIME_OUT, b, w')"
  using Setall_loop_waits [OF assms(3) refl assms(2), of MAX_TRIES] assms(1) by (simp add: Setall_def ipc_defs Let_def)

text \<open>The identifier 0 is valid, but \<^verbatim>\<open>create\<close> treats it as a failure and forgets the set it has made.\<close>

lemma sem_create_id_zero:
  assumes "\<not> HasInited b" "k_semget K (m_key b) (m_nsems b) (m_flag b OR IPC_CREAT OR IPC_EXCL) w = ((0, e), w')"
  shows "sem_create K (b, w) = (AOk (if e then SRC_ERR else SYS_FAILED), b, w')"
  using assms by (simp add: sem_create_def ipc_defs)

text \<open>After \<^verbatim>\<open>Remove\<close> a queue or a set still counts as initialised.\<close>

lemma Remove_keeps_id:
  "mq_Remove K (b, w) = (out, b', w') \<Longrightarrow> b' = b" "sem_Remove KE (c, v) = (out', c', v') \<Longrightarrow> c' = c"
  by (auto simp: mq_Remove_def sem_Remove_def ipc_defs split: if_splits prod.splits)

subsection \<open>Small kernels\<close>

definition small_msg :: "(HMEM \<times> HMEM) list msg_kernel" where
  "small_msg = \<lparr>k_msgget = (\<lambda>key flag w. ((7, False), w)), k_msgmax = 8192,
     k_msgsnd = (\<lambda>i mt body fl w. (True, w @ [(mt, body)])),
     k_msgrcv = (\<lambda>i n ty fl w. case w of
        [] \<Rightarrow> (None, w)
      | (mt, body) # rest \<Rightarrow> if length body \<le> n \<or> fl AND MSG_NOERROR = MSG_NOERROR then (Some (mt, take n body), rest) else (None, w)),
     k_msg_rmid = (\<lambda>i w. (True, [])), k_msg_stat = (\<lambda>i w. Some (0, length w, 16384))\<rparr>"

lemma small_msg_law: "msg_law small_msg (\<lambda>i w. w)"
  by (auto simp: msg_law_def small_msg_def)

definition opened :: ipc_basic where "opened = \<lparr>m_key = 1, m_id = 7, m_flag = 0\<rparr>"


theorem ClearMessage_empties_or_overruns_witness:
  "(\<exists>w'. ClearMessage small_msg (opened, [(replicate 8 1, [2, 3])]) = (AOk 1, opened, w')) \<and>
   ClearMessage small_msg (opened, [(replicate 8 1, replicate 121 2)]) = (AStuck, opened, [(replicate 8 1, replicate 121 2)])"
  using ClearMessage_empties_or_overruns [OF small_msg_law, of "[(replicate 8 1, [2, 3])]" opened]
    ClearMessage_empties_or_overruns [OF small_msg_law, of "[(replicate 8 1, replicate 121 2)]" opened] by auto

text \<open>Segments by identifier; the second process finds the segment of the first.\<close>

definition small_shm :: "(int \<Rightarrow> HMEM) shm_kernel" where
  "small_shm = \<lparr>k_shmget = (\<lambda>key n fl w. ((3, False), w)), k_shmat = (\<lambda>i w. (True, w)), k_shmdt = (\<lambda>i w. (True, w)), k_shm_rmid = (\<lambda>i w. (True, w)),
     k_mem = (\<lambda>i w. w i), k_put = (\<lambda>i m w. w(i := m))\<rparr>"

theorem shm_Init_wipes_witness:
  "shm_Init small_shm (HShareMemory_key 5 2 DEFAULT_IPC_FLAG, \<lambda>_. [1, 2, 3]) =
     (AOk ERR_OK, (HShareMemory_key 5 2 DEFAULT_IPC_FLAG)\<lparr>m_id := 3, m_shm_ptr := Shm 3\<rparr>, (\<lambda>_. [1, 2, 3])(3 := [0, 0, 3]))"
  using shm_Init_wipes [of "HShareMemory_key 5 2 DEFAULT_IPC_FLAG" small_shm "\<lambda>_. [1, 2, 3]" 3 False "\<lambda>_. [1, 2, 3]" "\<lambda>_. [1, 2, 3]"]
  by (simp add: small_shm_def HShareMemory_key_def HasInited_def numeral_2_eq_2)

text \<open>The values and the time of the last operation.\<close>

definition small_sem :: "(HUSN list \<times> nat) sem_kernel" where
  "small_sem = \<lparr>k_semget = (\<lambda>key n fl w. ((4, False), w)), k_setall = (\<lambda>i a (v, t). (True, a, t)), k_otime = (\<lambda>i (v, t). Some t),
     k_semop = (\<lambda>i n op fl (v, t). (True, v, t + 1)), k_sem_rmid = (\<lambda>i w. (True, w)), k_sleep = (\<lambda>w. w)\<rparr>"

definition small_set :: HSemaphore where "small_set = \<lparr>m_key = 1, m_id = 4, m_flag = 0, m_nsems = 2\<rparr>"

theorem Setall_new_set_times_out_witness: "\<exists>w'. Setall small_sem None (small_set, ([], 0)) = (AOk TIME_OUT, small_set, w')"
  using Setall_new_set_times_out [of small_sem small_set None "([], 0)" "([1, 1], 0)"] by (auto simp: small_sem_def small_set_def numeral_2_eq_2)

theorem ipc_Init_once_witness:
  "shm_Init small_shm ((HShareMemory_key 5 2 DEFAULT_IPC_FLAG)\<lparr>m_id := 3, m_shm_ptr := Shm 3\<rparr>, \<lambda>_. []) =
     (AOk ERR_OK, (HShareMemory_key 5 2 DEFAULT_IPC_FLAG)\<lparr>m_id := 3, m_shm_ptr := Shm 3\<rparr>, \<lambda>_. []) \<and>
   mq_Init small_msg (ipc_basic_key 1 0\<lparr>m_id := 7\<rparr>, []) = (AOk ERR_OK, ipc_basic_key 1 0\<lparr>m_id := 7\<rparr>, []) \<and>
   sem_Init small_sem (small_set, ([], 0)) = (AOk ERR_OK, small_set, ([], 0))"
proof -
  have s: "shm_Init small_shm (HShareMemory_key 5 2 DEFAULT_IPC_FLAG, \<lambda>_. [1, 2, 3]) =
     (AOk ERR_OK, (HShareMemory_key 5 2 DEFAULT_IPC_FLAG)\<lparr>m_id := 3, m_shm_ptr := Shm 3\<rparr>, (\<lambda>_. [1, 2, 3])(3 := [0, 0, 3]))"
    by (simp add: shm_Init_def ipc_Init_def shm_create_def shm_at_def shm_memset_def ipc_defs small_shm_def HShareMemory_key_def HasInited_def Let_def
        numeral_2_eq_2)
  have m: "mq_Init small_msg (ipc_basic_key 1 0, []) = (AOk ERR_OK, ipc_basic_key 1 0\<lparr>m_id := 7\<rparr>, [])"
    by (simp add: mq_Init_def ipc_Init_def mq_create_def ipc_defs small_msg_def ipc_basic_key_def HasInited_def)
  have e: "sem_Init small_sem (small_set\<lparr>m_id := - 1\<rparr>, ([], 0)) = (AOk ERR_OK, small_set, ([], 0))"
    by (simp add: sem_Init_def ipc_Init_def sem_create_def ipc_defs small_sem_def small_set_def HasInited_def)
  from ipc_Init_once [of small_shm "HShareMemory_key 5 2 DEFAULT_IPC_FLAG" "\<lambda>_. [1, 2, 3]" _ _ "\<lambda>_. []" small_msg "ipc_basic_key 1 0" "[]" _ _ "[]"
      small_sem "small_set\<lparr>m_id := - 1\<rparr>" "([], 0)" _ _ "([], 0)"] s m e
  show ?thesis by blast
qed

end
