(* ===== verification/Process_Pool.thy ===== *)
theory Process_Pool
  imports Sysv_Ipc Hui_Conf
begin

text \<open>
  The pool of child processes: \<^verbatim>\<open>src/src/hprocesspool.h\<close>, \<^verbatim>\<open>hprocesspool.cpp\<close>, \<^verbatim>\<open>internal/pool_in\<close> and \<^verbatim>\<open>hprocess.cpp\<close>.

  The parent keeps a table of its children in a shared memory; a child enters its access times there, and the parent
  restarts children that have disappeared or have been silent for too long. The shared memory is the one of
  \<open>Sysv_Ipc\<close>; the table in it is a list of entries, absent while the pointer is null. The process calls of the system, and
  what a derived class does in \<^verbatim>\<open>childProcessRun\<close> and \<^verbatim>\<open>prepare_end_son\<close>, are a parameter. The model follows the calling
  process: after \<^verbatim>\<open>fork\<close> it is the parent or the child.
\<close>

subsection \<open>State\<close>

record cntl_info =
  startat :: int
  status :: ChildStatus
  at :: int
  pid :: int

record 'w proc_os =
  os_fork :: "'w \<Rightarrow> int \<times> 'w"
  os_time :: "'w \<Rightarrow> int"
  os_stat :: "string \<Rightarrow> 'w \<Rightarrow> bool"
  os_kill :: "int \<Rightarrow> int \<Rightarrow> 'w \<Rightarrow> bool \<times> 'w"
  os_sleep :: "int \<Rightarrow> 'w \<Rightarrow> 'w"
  childProcessRun :: "'w \<Rightarrow> 'w"
  prepare_end_son :: "int \<Rightarrow> 'w \<Rightarrow> 'w"

record 'w HProcessPool =
  m_nChildCount :: int
  m_bInited :: bool
  m_index :: int
  m_nCount :: int
  m_mem :: HShareMemory
  m_pcntl_info :: "cntl_info list option"
  os_world :: 'w

type_synonym ('w, 'a) pool_action = "('w HProcessPool, RET_T, 'a) action"

definition PARENT_DEFAULT_INDEX :: int where "PARENT_DEFAULT_INDEX = - 1"

definition AFTER_SIGTERM_ST :: int where "AFTER_SIGTERM_ST = 2"

definition MAX_HEAR_TIME :: int where "MAX_HEAR_TIME = 30"

definition SIGTERM :: int where "SIGTERM = 15"

definition SIGKILL :: int where "SIGKILL = 9"

definition sys :: "('w \<Rightarrow> 'a \<times> 'w) \<Rightarrow> ('w, 'a) pool_action" where
  "sys f = (\<lambda>s. case f (os_world s) of (a, w) \<Rightarrow> (AOk a, s\<lparr>os_world := w\<rparr>))"

definition get :: "('w HProcessPool \<Rightarrow> 'a) \<Rightarrow> ('w, 'a) pool_action" where
  "get f = (\<lambda>s. (AOk (f s), s))"

subsection \<open>Processes\<close>

definition ProcessExists :: "'w proc_os \<Rightarrow> int \<Rightarrow> ('w, bool) pool_action" where
  "ProcessExists S p = sys (\<lambda>w. (os_stat S (''/proc/'' @ FromN p) w, w))"

definition kill_process :: "'w proc_os \<Rightarrow> int \<Rightarrow> int \<Rightarrow> ('w, RET_T) pool_action" where
  "kill_process S p signo = act_bind (sys (os_kill S p signo)) (\<lambda>ok. act_ret (if ok then ERR_OK else SYS_FAILED))"

definition KillProcess :: "'w proc_os \<Rightarrow> int \<Rightarrow> ('w, RET_T) pool_action" where
  "KillProcess S p = kill_process S p SIGTERM"

definition KillProcessAnyway :: "'w proc_os \<Rightarrow> int \<Rightarrow> ('w, unit) pool_action" where
  "KillProcessAnyway S p = act_seq (kill_process S p SIGKILL) (act_ret ())"

subsection \<open>The table\<close>

definition CHECK_INDEX :: "int \<Rightarrow> ('w, 'a) pool_action \<Rightarrow> ('w, 'a) pool_action" where
  "CHECK_INDEX index rest = (\<lambda>s. if 0 \<le> index \<and> index < m_nCount s then rest s else (AThrow INVL_PARA, s))"

definition put_info :: "int \<Rightarrow> (cntl_info \<Rightarrow> cntl_info) \<Rightarrow> ('w, unit) pool_action" where
  "put_info index f = CHECK_INDEX index (\<lambda>s. case m_pcntl_info s of
     None \<Rightarrow> (AStuck, s)
   | Some t \<Rightarrow> if nat index < length t then (AOk (), s\<lparr>m_pcntl_info := Some (t[nat index := f (t ! nat index)])\<rparr>) else (AStuck, s))"

definition get_info :: "int \<Rightarrow> (cntl_info \<Rightarrow> 'a) \<Rightarrow> ('w, 'a) pool_action" where
  "get_info index f = CHECK_INDEX index (\<lambda>s. case m_pcntl_info s of
     None \<Rightarrow> (AStuck, s)
   | Some t \<Rightarrow> if nat index < length t then (AOk (f (t ! nat index)), s) else (AStuck, s))"

definition ResetInfo :: "int \<Rightarrow> ('w, unit) pool_action" where
  "ResetInfo index = put_info index (\<lambda>e. e\<lparr>at := 0, startat := 0, pid := 0, status := CS_UNUSED\<rparr>)"

definition SetStartInfo :: "'w proc_os \<Rightarrow> int \<Rightarrow> int \<Rightarrow> ('w, unit) pool_action" where
  "SetStartInfo S index p = (\<lambda>s. put_info index (\<lambda>e. e\<lparr>startat := os_time S (os_world s), at := 0, pid := p, status := CS_IDLE\<rparr>) s)"

definition set_info_as_status :: "'w proc_os \<Rightarrow> int \<Rightarrow> ChildStatus \<Rightarrow> ('w, unit) pool_action" where
  "set_info_as_status S index st = (\<lambda>s. put_info index (\<lambda>e. e\<lparr>at := os_time S (os_world s), pid := pid e, status := st\<rparr>) s)"

definition TouchInfo :: "'w proc_os \<Rightarrow> int \<Rightarrow> ('w, unit) pool_action" where
  "TouchInfo S index = set_info_as_status S index CS_BUSY"

definition SetIdleInfo :: "'w proc_os \<Rightarrow> int \<Rightarrow> ('w, unit) pool_action" where
  "SetIdleInfo S index = set_info_as_status S index CS_IDLE"

definition UnuseInfo :: "'w proc_os \<Rightarrow> int \<Rightarrow> ('w, unit) pool_action" where
  "UnuseInfo S index = set_info_as_status S index CS_UNUSED"

definition GetStartAt :: "int \<Rightarrow> ('w, int) pool_action" where
  "GetStartAt index = get_info index startat"

definition GetLastAccessTime :: "int \<Rightarrow> ('w, int) pool_action" where
  "GetLastAccessTime index = get_info index at"

definition GetPid :: "int \<Rightarrow> ('w, int) pool_action" where
  "GetPid index = get_info index pid"

definition GetStatus :: "int \<Rightarrow> ('w, ChildStatus) pool_action" where
  "GetStatus index = get_info index status"

text \<open>The entries before \<^verbatim>\<open>ZERO_MEM\<close> clears them are whatever the segment holds; cleared entries have the status 0.\<close>

definition zero_info :: cntl_info where
  "zero_info = \<lparr>startat = 0, status = CS_UNUSED, at = 0, pid = 0\<rparr>"

definition on_mem :: "(HShareMemory \<times> 'w, RET_T, 'a) action \<Rightarrow> ('w, 'a) pool_action" where
  "on_mem f = (\<lambda>s. case f (m_mem s, os_world s) of (out, b, w) \<Rightarrow> (out, s\<lparr>m_mem := b, os_world := w\<rparr>))"

primrec reset_loop :: "int list \<Rightarrow> ('w, unit) pool_action" where
  "reset_loop [] = act_ret ()"
| "reset_loop (i # is) = act_seq (ResetInfo i) (reset_loop is)"

definition ProcessCntl_Init :: "'w shm_kernel \<Rightarrow> ('w, RET_T) pool_action" where
  "ProcessCntl_Init K = act_ok (on_mem (shm_Init K))
     (act_seq (\<lambda>s. (AOk (), s\<lparr>m_pcntl_info := Some (replicate (nat (m_nCount s)) zero_info)\<rparr>))
       (\<lambda>s. act_seq (reset_loop [0..m_nCount s - 1]) (act_ret ERR_OK) s))"

definition ProcessCntl_Uninit :: "'w shm_kernel \<Rightarrow> bool \<Rightarrow> ('w, RET_T) pool_action" where
  "ProcessCntl_Uninit K isSon = act_ok (on_mem (if isSon then shm_dettach K else shm_Remove K))
     (act_seq (\<lambda>s. (AOk (), s\<lparr>m_pcntl_info := None\<rparr>)) (act_ret ERR_OK))"

subsection \<open>The pool\<close>

text \<open>\<^verbatim>\<open>sizeof(cntl_info)\<close> is 32.\<close>

definition HProcessPool_new :: "int \<Rightarrow> int \<Rightarrow> int \<Rightarrow> 'w \<Rightarrow> 'w HProcessPool" where
  "HProcessPool_new nChildCount nCacheSize nKey w = \<lparr>m_nChildCount = nChildCount, m_bInited = False, m_index = PARENT_DEFAULT_INDEX,
     m_nCount = nChildCount, m_mem = HShareMemory_key nKey (nat (32 * nChildCount + nCacheSize)) DEFAULT_IPC_FLAG, m_pcntl_info = None, os_world = w\<rparr>"

definition IsSon :: "'w HProcessPool \<Rightarrow> bool" where
  "IsSon s \<longleftrightarrow> m_index s \<noteq> PARENT_DEFAULT_INDEX"

definition create_child :: "'w proc_os \<Rightarrow> int \<Rightarrow> ('w, unit) pool_action" where
  "create_child S index = act_bind (sys (os_fork S)) (\<lambda>p.
     if p < 0 then act_throw SYS_FAILED
     else if p = 0 then act_seq (\<lambda>s. (AOk (), s\<lparr>m_index := index\<rparr>)) (sys (\<lambda>w. ((), childProcessRun S w)))
     else SetStartInfo S index p)"

definition kill_child :: "'w proc_os \<Rightarrow> int \<Rightarrow> ('w, unit) pool_action" where
  "kill_child S index = act_seq (sys (\<lambda>w. ((), prepare_end_son S index w)))
     (act_bind (GetPid index) (\<lambda>p. act_seq (KillProcess S p) (act_seq (sys (\<lambda>w. ((), os_sleep S AFTER_SIGTERM_ST w)))
       (act_seq (KillProcessAnyway S p) (UnuseInfo S index)))))"

primrec create_loop :: "'w proc_os \<Rightarrow> int list \<Rightarrow> ('w, unit) pool_action" where
  "create_loop S [] = act_ret ()"
| "create_loop S (i # is) = act_bind (get IsSon) (\<lambda>son. if son then act_ret () else act_seq (create_child S i) (create_loop S is))"

definition HProcessPool_Init :: "'w shm_kernel \<Rightarrow> 'w proc_os \<Rightarrow> ('w, RET_T) pool_action" where
  "HProcessPool_Init K S = act_ok (ProcessCntl_Init K)
     (\<lambda>s. act_seq (create_loop S [0..m_nChildCount s - 1]) (act_seq (\<lambda>s. (AOk (), s\<lparr>m_bInited := True\<rparr>)) (act_ret ERR_OK)) s)"

text \<open>A child that was forked in the loop leaves it.\<close>

definition restart :: "'w proc_os \<Rightarrow> int \<Rightarrow> ('w, bool) pool_action" where
  "restart S i = act_seq (kill_child S i) (act_seq (create_child S i) (get IsSon))"

definition touch_slot :: "'w proc_os \<Rightarrow> int \<Rightarrow> int \<Rightarrow> ('w, bool) pool_action" where
  "touch_slot S nt i = act_bind (GetPid i) (\<lambda>p. act_bind (ProcessExists S p) (\<lambda>ex.
     act_bind (if \<not> ex then restart S i else act_ret False) (\<lambda>son. if son then act_ret False
     else act_bind (GetLastAccessTime i) (\<lambda>t. act_bind (if t = 0 then GetStartAt i else act_ret t) (\<lambda>t.
       if \<bar>nt - t\<bar> > MAX_HEAR_TIME then act_bind (restart S i) (\<lambda>son. act_ret (\<not> son)) else act_ret True)))))"

primrec touch_loop :: "'w proc_os \<Rightarrow> int \<Rightarrow> int list \<Rightarrow> ('w, unit) pool_action" where
  "touch_loop S nt [] = act_ret ()"
| "touch_loop S nt (i # is) = act_bind (touch_slot S nt i) (\<lambda>go_on. if go_on then touch_loop S nt is else act_ret ())"

definition parent_touch :: "'w proc_os \<Rightarrow> ('w, unit) pool_action" where
  "parent_touch S = (\<lambda>s. touch_loop S (os_time S (os_world s)) [0..m_nChildCount s - 1] s)"

definition son_touch :: "'w proc_os \<Rightarrow> ('w, unit) pool_action" where
  "son_touch S = (\<lambda>s. TouchInfo S (m_index s) s)"

definition ManagePool :: "'w proc_os \<Rightarrow> ('w, unit) pool_action" where
  "ManagePool S = act_bind (get IsSon) (\<lambda>son. if son then son_touch S else parent_touch S)"

primrec kill_loop :: "'w proc_os \<Rightarrow> int list \<Rightarrow> ('w, unit) pool_action" where
  "kill_loop S [] = act_ret ()"
| "kill_loop S (i # is) = act_seq (kill_child S i) (kill_loop S is)"

definition HProcessPool_delete :: "'w shm_kernel \<Rightarrow> 'w proc_os \<Rightarrow> ('w, unit) pool_action" where
  "HProcessPool_delete K S = (\<lambda>s. if m_bInited s
     then act_seq (if \<not> IsSon s then kill_loop S [0..m_nChildCount s - 1] else act_ret ()) (act_seq (ProcessCntl_Uninit K (IsSon s)) (act_ret ())) s
     else (AOk (), s))"

subsection \<open>One entry\<close>

text \<open>What the pool relies on: \<open>alive\<close> are the processes; a signal to a positive identifier
  concerns only that process, time passes in \<^verbatim>\<open>sleep\<close> only, and \<^verbatim>\<open>fork\<close> succeeds in the
  parent with a new process. \<open>old\<close> are identifiers the system does not use again meanwhile.\<close>

definition os_law :: "'w proc_os \<Rightarrow> ('w \<Rightarrow> int set) \<Rightarrow> int set \<Rightarrow> bool" where
  "os_law S alive old \<longleftrightarrow>
     (\<forall>p w. os_stat S (''/proc/'' @ FromN p) w \<longleftrightarrow> p \<in> alive w) \<and>
     (\<forall>p sg w. 0 < p \<longrightarrow> os_time S (snd (os_kill S p sg w)) = os_time S w \<and> alive (snd (os_kill S p sg w)) - {p} = alive w - {p}) \<and>
     (\<forall>n w. os_time S (os_sleep S n w) = os_time S w + n \<and> alive (os_sleep S n w) = alive w) \<and>
     (\<forall>i w. os_time S (prepare_end_son S i w) = os_time S w \<and> alive (prepare_end_son S i w) = alive w) \<and>
     (\<forall>w. fst (os_fork S w) > 0 \<and> fst (os_fork S w) \<notin> old \<union> alive w \<and> os_time S (snd (os_fork S w)) = os_time S w \<and>
          alive (snd (os_fork S w)) = insert (fst (os_fork S w)) (alive w))"

definition pool_table :: "nat \<Rightarrow> cntl_info list \<Rightarrow> 'w HProcessPool \<Rightarrow> bool" where
  "pool_table n t s \<longleftrightarrow> m_index s = PARENT_DEFAULT_INDEX \<and> m_pcntl_info s = Some t \<and> length t = n \<and> m_nCount s = int n"

definition pool_at :: "nat \<Rightarrow> cntl_info list \<Rightarrow> 'w HProcessPool \<Rightarrow> bool" where
  "pool_at n t s \<longleftrightarrow> pool_table n t s \<and> list_all (\<lambda>e. 0 < pid e) t"

lemma pool_at_update: "pool_at n t s \<Longrightarrow> 0 < pid e \<Longrightarrow> pool_at n (t[i := e]) (s\<lparr>os_world := w, m_pcntl_info := Some (t[i := e])\<rparr>)"
  by (auto simp: pool_at_def pool_table_def list_all_iff dest: set_update_subset_insert [THEN subsetD])

lemma pool_at_pid: "pool_at n t s \<Longrightarrow> i < n \<Longrightarrow> 0 < pid (t ! i)"
  by (auto simp: pool_at_def pool_table_def list_all_length)

lemmas pool_defs = sys_def get_def CHECK_INDEX_def put_info_def get_info_def act_bind_def act_seq_def

lemma kill_child_run:
  assumes "os_law S alive old" "pool_at n t s" "i < n"
  shows "\<exists>w. kill_child S (int i) s = (AOk (), s\<lparr>os_world := w, m_pcntl_info := Some (t[i := (t ! i)\<lparr>at := os_time S w, status := CS_UNUSED\<rparr>])\<rparr>) \<and>
     os_time S w = os_time S (os_world s) + 2 \<and> alive w - {pid (t ! i)} = alive (os_world s) - {pid (t ! i)}"
proof -
  let ?p = "pid (t ! i)"
  let ?w1 = "prepare_end_son S (int i) (os_world s)"
  let ?w2 = "snd (os_kill S ?p SIGTERM ?w1)"
  let ?w3 = "os_sleep S AFTER_SIGTERM_ST ?w2"
  let ?w = "snd (os_kill S ?p SIGKILL ?w3)"
  have "kill_child S (int i) s = (AOk (), s\<lparr>os_world := ?w, m_pcntl_info := Some (t[i := (t ! i)\<lparr>at := os_time S ?w, status := CS_UNUSED\<rparr>])\<rparr>)"
    using assms(2,3) by (simp add: kill_child_def pool_defs pool_at_def pool_table_def GetPid_def KillProcess_def KillProcessAnyway_def kill_process_def UnuseInfo_def
        set_info_as_status_def split_beta)
  moreover have "os_time S ?w = os_time S (os_world s) + 2" "alive ?w - {?p} = alive (os_world s) - {?p}"
    using assms(1) pool_at_pid [OF assms(2,3)] unfolding os_law_def by (simp_all add: AFTER_SIGTERM_ST_def)
  ultimately show ?thesis by blast
qed

lemma create_child_run:
  assumes "os_law S alive old" "pool_table n t s" "i < n" "os_fork S (os_world s) = (p, w)"
  shows "create_child S (int i) s = (AOk (), s\<lparr>os_world := w, m_pcntl_info := Some (t[i := \<lparr>startat = os_time S w, status = CS_IDLE, at = 0, pid = p\<rparr>])\<rparr>)"
proof -
  have "0 < p" using assms(1,4) unfolding os_law_def by (metis fst_conv)
  then show ?thesis using assms(2-4) by (cases "t ! i") (simp add: create_child_def pool_defs pool_table_def SetStartInfo_def)
qed

lemma restart_run:
  assumes "os_law S alive old" "pool_at n t s" "i < n"
  shows "\<exists>p w. restart S (int i) s = (AOk False, s\<lparr>os_world := w,
       m_pcntl_info := Some (t[i := \<lparr>startat = os_time S (os_world s) + 2, status = CS_IDLE, at = 0, pid = p\<rparr>])\<rparr>) \<and>
     os_time S w = os_time S (os_world s) + 2 \<and> 0 < p \<and> p \<in> alive w \<and> p \<notin> old \<and>
     (\<forall>q. q \<noteq> pid (t ! i) \<longrightarrow> q \<noteq> p \<longrightarrow> q \<in> alive w \<longleftrightarrow> q \<in> alive (os_world s)) \<and> alive (os_world s) - {pid (t ! i)} \<subseteq> alive w"
proof -
  from kill_child_run [OF assms] obtain w1 where k:
    "kill_child S (int i) s = (AOk (), s\<lparr>os_world := w1, m_pcntl_info := Some (t[i := (t ! i)\<lparr>at := os_time S w1, status := CS_UNUSED\<rparr>])\<rparr>)"
    "os_time S w1 = os_time S (os_world s) + 2" "alive w1 - {pid (t ! i)} = alive (os_world s) - {pid (t ! i)}" by blast
  let ?s = "s\<lparr>os_world := w1, m_pcntl_info := Some (t[i := (t ! i)\<lparr>at := os_time S w1, status := CS_UNUSED\<rparr>])\<rparr>"
  obtain p w where f: "os_fork S w1 = (p, w)" by fastforce
  have l: "0 < p" "p \<notin> old" "os_time S w = os_time S w1" "alive w = insert p (alive w1)" using assms(1) f unfolding os_law_def by (metis Un_iff fst_conv snd_conv)+
  have "pool_at n (t[i := (t ! i)\<lparr>at := os_time S w1, status := CS_UNUSED\<rparr>]) ?s" using pool_at_update [OF assms(2)] pool_at_pid [OF assms(2,3)] by simp
  then have "pool_table n (t[i := (t ! i)\<lparr>at := os_time S w1, status := CS_UNUSED\<rparr>]) ?s" by (simp add: pool_at_def)
  from create_child_run [OF assms(1) this assms(3), of p w] f l(3) k(1,2) assms(2)
  have "restart S (int i) s = (AOk False, s\<lparr>os_world := w,
       m_pcntl_info := Some (t[i := \<lparr>startat = os_time S (os_world s) + 2, status = CS_IDLE, at = 0, pid = p\<rparr>])\<rparr>)"
    by (simp add: restart_def act_seq_def act_bind_def get_def IsSon_def pool_at_def pool_table_def)
  then show ?thesis using l k(2,3) by (intro exI [of _ p] exI [of _ w]) auto
qed

text \<open>The time at which a child was last heard of, and whether it needs no restart at the time \<open>nt\<close>.\<close>

definition heard :: "cntl_info \<Rightarrow> int" where
  "heard e = (if at e = 0 then startat e else at e)"

definition healthy :: "int set \<Rightarrow> int \<Rightarrow> cntl_info \<Rightarrow> bool" where
  "healthy ps nt e \<longleftrightarrow> pid e \<in> ps \<and> \<bar>nt - heard e\<bar> \<le> MAX_HEAR_TIME"

lemma ProcessExists_run: "os_law S alive old \<Longrightarrow> ProcessExists S p s = (AOk (p \<in> alive (os_world s)), s)"
  unfolding os_law_def by (simp add: ProcessExists_def sys_def)

lemma get_info_run: "pool_at n t s \<Longrightarrow> i < n \<Longrightarrow> get_info (int i) f s = (AOk (f (t ! i)), s)"
  by (simp add: get_info_def CHECK_INDEX_def pool_at_def pool_table_def)

lemma touch_healthy:
  assumes "os_law S alive old" "pool_at n t s" "i < n" "healthy (alive (os_world s)) nt (t ! i)"
  shows "touch_slot S nt (int i) s = (AOk True, s)"
  using assms(4)
  by (cases "at (t ! i) = 0")
    (simp_all add: touch_slot_def act_bind_def GetPid_def GetLastAccessTime_def GetStartAt_def healthy_def heard_def get_info_run [OF assms(2,3)]
      ProcessExists_run [OF assms(1)])

lemma touch_silent:
  assumes "os_law S alive old" "pool_at n t s" "i < n" "pid (t ! i) \<in> alive (os_world s)" "\<not> \<bar>nt - heard (t ! i)\<bar> \<le> MAX_HEAR_TIME"
  shows "touch_slot S nt (int i) s = act_bind (restart S (int i)) (\<lambda>son. act_ret (\<not> son)) s"
  using assms(4,5)
  by (cases "at (t ! i) = 0")
    (simp_all add: touch_slot_def act_bind_def GetPid_def GetLastAccessTime_def GetStartAt_def heard_def get_info_run [OF assms(2,3)]
      ProcessExists_run [OF assms(1)])

lemma touch_missing:
  assumes "os_law S alive old" "pool_at n t s" "i < n" "pid (t ! i) \<notin> alive (os_world s)"
  shows "\<exists>s1. restart S (int i) s = (AOk False, s1) \<and>
     touch_slot S nt (int i) s = (if \<bar>nt - (os_time S (os_world s) + 2)\<bar> > MAX_HEAR_TIME
       then act_bind (restart S (int i)) (\<lambda>son. act_ret (\<not> son)) s1 else (AOk True, s1))"
proof -
  from restart_run [OF assms(1-3)] obtain p w where r: "restart S (int i) s = (AOk False, s\<lparr>os_world := w,
       m_pcntl_info := Some (t[i := \<lparr>startat = os_time S (os_world s) + 2, status = CS_IDLE, at = 0, pid = p\<rparr>])\<rparr>)" "0 < p" by blast
  let ?e = "\<lparr>startat = os_time S (os_world s) + 2, status = CS_IDLE, at = 0, pid = p\<rparr>"
  let ?s = "s\<lparr>os_world := w, m_pcntl_info := Some (t[i := ?e])\<rparr>"
  have "pool_at n (t[i := ?e]) ?s" using pool_at_update [OF assms(2)] r(2) by simp
  note g = get_info_run [OF this assms(3)]
  have "t[i := ?e] ! i = ?e" using assms(2,3) by (simp add: pool_at_def pool_table_def)
  with assms(4) r(1) have "touch_slot S nt (int i) s = (if \<bar>nt - (os_time S (os_world s) + 2)\<bar> > MAX_HEAR_TIME
       then act_bind (restart S (int i)) (\<lambda>son. act_ret (\<not> son)) ?s else (AOk True, ?s))"
    by (simp add: touch_slot_def act_bind_def GetPid_def GetLastAccessTime_def GetStartAt_def get_info_run [OF assms(2,3)] g
        ProcessExists_run [OF assms(1)])
  with r(1) show ?thesis by blast
qed

lemma touch_unhealthy:
  assumes "os_law S alive old" "pool_at n t s" "i < n" "\<not> healthy (alive (os_world s)) nt (t ! i)"
    "nt \<le> os_time S (os_world s)" "os_time S (os_world s) + 2 \<le> nt + MAX_HEAR_TIME"
  shows "\<exists>p w. touch_slot S nt (int i) s = (AOk True, s\<lparr>os_world := w,
       m_pcntl_info := Some (t[i := \<lparr>startat = os_time S (os_world s) + 2, status = CS_IDLE, at = 0, pid = p\<rparr>])\<rparr>) \<and>
     os_time S w = os_time S (os_world s) + 2 \<and> 0 < p \<and> p \<in> alive w \<and> p \<notin> old \<and>
     (\<forall>q. q \<noteq> pid (t ! i) \<longrightarrow> q \<noteq> p \<longrightarrow> q \<in> alive w \<longleftrightarrow> q \<in> alive (os_world s)) \<and> alive (os_world s) - {pid (t ! i)} \<subseteq> alive w"
proof -
  have "\<not> \<bar>nt - (os_time S (os_world s) + 2)\<bar> > MAX_HEAR_TIME" using assms(5,6) by (simp add: MAX_HEAR_TIME_def)
  moreover obtain s1 where "restart S (int i) s = (AOk False, s1)" using restart_run [OF assms(1-3)] by blast
  ultimately have "touch_slot S nt (int i) s = (AOk True, s1)"
    using touch_missing [OF assms(1-3), of nt] touch_silent [OF assms(1-3), of nt] assms(4) by (cases "pid (t ! i) \<in> alive (os_world s)") (auto simp: healthy_def act_bind_def)
  with restart_run [OF assms(1-3)] \<open>restart S (int i) s = (AOk False, s1)\<close> show ?thesis by auto
qed


subsection \<open>A pass over the table\<close>

text \<open>What a pass that began at \<open>nt\<close> with the processes \<open>ps\<close> makes of the entry \<open>e\<close>: a healthy one stays, another one is that of a new process.\<close>

definition touched :: "int set \<Rightarrow> int set \<Rightarrow> int \<Rightarrow> cntl_info \<Rightarrow> cntl_info \<Rightarrow> bool" where
  "touched ps old nt e e' \<longleftrightarrow> (if healthy ps nt e then e' = e
     else status e' = CS_IDLE \<and> at e' = 0 \<and> nt < startat e' \<and> startat e' \<le> nt + MAX_HEAR_TIME \<and> 0 < pid e' \<and> pid e' \<notin> old)"

abbreviation sick :: "int set \<Rightarrow> int \<Rightarrow> cntl_info list \<Rightarrow> nat" where
  "sick ps nt es \<equiv> length (filter (\<lambda>e. \<not> healthy ps nt e) es)"

lemma touch_step:
  assumes "os_law S alive old" "pool_at n (pre @ e # es) s" "n = length pre + length (e # es)" "nt \<le> os_time S (os_world s)"
    "os_time S (os_world s) + 2 * int (sick ps nt (e # es)) \<le> nt + MAX_HEAR_TIME" "pid e \<in> alive (os_world s) \<longleftrightarrow> pid e \<in> ps"
    "pid e \<in> old"
  shows "\<exists>e' w. touch_slot S nt (int (length pre)) s = (AOk True, s\<lparr>os_world := w, m_pcntl_info := Some (pre @ e' # es)\<rparr>) \<and>
     touched ps old nt e e' \<and> pid e' \<in> alive w \<and> nt \<le> os_time S w \<and> os_time S w + 2 * int (sick ps nt es) \<le> nt + MAX_HEAR_TIME \<and>
     alive (os_world s) - {pid e} \<subseteq> alive w \<and> (\<forall>q \<in> old - {pid e}. q \<in> alive w \<longleftrightarrow> q \<in> alive (os_world s))"
proof (cases "healthy ps nt e")
  case True
  then have "healthy (alive (os_world s)) nt ((pre @ e # es) ! length pre)" using assms(6) by (simp add: healthy_def)
  from touch_healthy [OF assms(1,2) _ this] assms(2-6) True have "touch_slot S nt (int (length pre)) s = (AOk True, s)" by simp
  moreover have "s = s\<lparr>os_world := os_world s, m_pcntl_info := Some (pre @ e # es)\<rparr>" using assms(2) by (simp add: pool_at_def pool_table_def)
  ultimately show ?thesis using True assms(4-6) by (intro exI [of _ e] exI [of _ "os_world s"]) (simp add: touched_def healthy_def)
next
  case False
  then have "\<not> healthy (alive (os_world s)) nt ((pre @ e # es) ! length pre)" using assms(6) by (simp add: healthy_def)
  moreover have "length pre < n" "os_time S (os_world s) + 2 \<le> nt + MAX_HEAR_TIME" using False assms(3,5) by simp_all
  ultimately obtain p w where r: "touch_slot S nt (int (length pre)) s = (AOk True, s\<lparr>os_world := w,
       m_pcntl_info := Some (pre @ \<lparr>startat = os_time S (os_world s) + 2, status = CS_IDLE, at = 0, pid = p\<rparr> # es)\<rparr>)"
     "os_time S w = os_time S (os_world s) + 2" "0 < p" "p \<in> alive w" "p \<notin> old"
     "\<And>q. q \<noteq> pid e \<Longrightarrow> q \<noteq> p \<Longrightarrow> q \<in> alive w \<longleftrightarrow> q \<in> alive (os_world s)" "alive (os_world s) - {pid e} \<subseteq> alive w"
    using touch_unhealthy [OF assms(1,2), of "length pre" nt] assms(4) by auto
  with False assms(4,5) show ?thesis
    by (intro exI [of _ "\<lparr>startat = os_time S (os_world s) + 2, status = CS_IDLE, at = 0, pid = p\<rparr>"] exI [of _ w]) (auto simp: touched_def)
qed

lemma touch_loop_run:
  assumes "os_law S alive old" "pool_at n (pre @ es) s" "n = length pre + length es" "nt \<le> os_time S (os_world s)"
    "os_time S (os_world s) + 2 * int (sick ps nt es) \<le> nt + MAX_HEAR_TIME" "\<forall>e \<in> set es. pid e \<in> alive (os_world s) \<longleftrightarrow> pid e \<in> ps"
    "pid ` set es \<subseteq> old" "distinct (map pid es)"
  shows "\<exists>es' w. touch_loop S nt [int (length pre)..int n - 1] s = (AOk (), s\<lparr>os_world := w, m_pcntl_info := Some (pre @ es')\<rparr>) \<and>
     list_all2 (touched ps old nt) es es' \<and> pid ` set es' \<subseteq> alive w \<and> alive (os_world s) - pid ` set es \<subseteq> alive w"
  using assms(2-)
proof (induction es arbitrary: pre s)
  case Nil
  then have "s = s\<lparr>os_world := os_world s, m_pcntl_info := Some (pre @ [])\<rparr>" by (simp add: pool_at_def pool_table_def)
  with Nil show ?case by (intro exI [of _ "[]"] exI [of _ "os_world s"]) simp
next
  case (Cons e es)
  from touch_step [OF assms(1) Cons.prems(1-4)] Cons.prems(5,6) obtain e' w where step:
    "touch_slot S nt (int (length pre)) s = (AOk True, s\<lparr>os_world := w, m_pcntl_info := Some (pre @ e' # es)\<rparr>)"
    "touched ps old nt e e'" "pid e' \<in> alive w" "nt \<le> os_time S w" "os_time S w + 2 * int (sick ps nt es) \<le> nt + MAX_HEAR_TIME"
    "alive (os_world s) - {pid e} \<subseteq> alive w" "\<forall>q \<in> old - {pid e}. q \<in> alive w \<longleftrightarrow> q \<in> alive (os_world s)" by auto
  let ?s = "s\<lparr>os_world := w, m_pcntl_info := Some ((pre @ [e']) @ es)\<rparr>"
  have "pool_at n ((pre @ [e']) @ es) ?s" "n = length (pre @ [e']) + length es"
    using Cons.prems(1,2) step(2) by (auto simp: pool_at_def pool_table_def touched_def split: if_splits)
  moreover have fresh: "pid e \<notin> pid ` set es" "pid ` set es \<subseteq> old" using Cons.prems(6,7) by simp_all
  moreover have "\<forall>e1 \<in> set es. pid e1 \<in> alive (os_world ?s) \<longleftrightarrow> pid e1 \<in> ps" 
  proof
    fix e1 assume "e1 \<in> set es"
    then have "pid e1 \<in> pid ` set es" "pid e1 \<in> alive (os_world s) \<longleftrightarrow> pid e1 \<in> ps" using Cons.prems(5) by simp_all
    moreover from this(1) have "pid e1 \<in> old - {pid e}" using fresh by (metis Diff_iff singletonD subsetD)
    ultimately show "pid e1 \<in> alive (os_world ?s) \<longleftrightarrow> pid e1 \<in> ps" using step(7) by simp
  qed
  ultimately obtain es' w' where rest:
    "touch_loop S nt [int (length (pre @ [e']))..int n - 1] ?s = (AOk (), ?s\<lparr>os_world := w', m_pcntl_info := Some ((pre @ [e']) @ es')\<rparr>)"
    "list_all2 (touched ps old nt) es es'" "pid ` set es' \<subseteq> alive w'" "alive (os_world ?s) - pid ` set es \<subseteq> alive w'"
    using Cons.IH [of "pre @ [e']" ?s] step(4,5) Cons.prems(6,7) by (auto simp del: append_assoc)
  have "pid e' \<notin> pid ` set es"
  proof (cases "e' = e")
    case False
    then have "pid e' \<notin> old" using step(2) by (simp add: touched_def split: if_splits)
    then show ?thesis using fresh(2) by blast
  qed (use fresh(1) in simp)
  then have "pid e' \<in> alive w'" using step(3) rest(4) by auto
  moreover have "touch_loop S nt [int (length pre)..int n - 1] s = (AOk (), s\<lparr>os_world := w', m_pcntl_info := Some (pre @ e' # es')\<rparr>)"
    using step(1) rest(1) Cons.prems(2) by (subst upto_rec1) (simp_all add: act_bind_def add.commute)
  moreover have "alive (os_world s) - pid ` set (e # es) \<subseteq> alive w'" using step(6) rest(4) by auto
  ultimately show ?case using rest(2,3) step(2) by (intro exI [of _ "e' # es'"] exI [of _ w']) simp
qed

subsection \<open>The start of the pool\<close>

lemma reset_loop_run:
  assumes "pool_table n (replicate n zero_info) s" "set ks \<subseteq> {0..int n - 1}"
  shows "reset_loop ks s = (AOk (), s)"
  using assms(2)
proof (induction ks)
  case (Cons i ks)
  then have "nat i < n" by auto
  then have "(replicate n zero_info)[nat i := zero_info] = replicate n zero_info" by (metis list_update_id nth_replicate)
  then have "ResetInfo i s = (AOk (), s\<lparr>m_pcntl_info := Some (replicate n zero_info)\<rparr>)"
    using \<open>nat i < n\<close> Cons.prems assms(1) by (simp add: ResetInfo_def pool_defs pool_table_def zero_info_def)
  moreover have "s\<lparr>m_pcntl_info := Some (replicate n zero_info)\<rparr> = s" using assms(1) by (simp add: pool_table_def)
  ultimately have "ResetInfo i s = (AOk (), s)" by (simp only:)
  with Cons show ?case by (simp add: act_seq_def act_bind_def)
qed simp

text \<open>An entry as \<^verbatim>\<open>SetStartInfo\<close> leaves it at the time \<open>nt\<close>, of a live process.\<close>

definition started :: "int \<Rightarrow> int set \<Rightarrow> cntl_info \<Rightarrow> bool" where
  "started nt ps e \<longleftrightarrow> startat e = nt \<and> status e = CS_IDLE \<and> at e = 0 \<and> 0 < pid e \<and> pid e \<in> ps"

lemma create_loop_run:
  assumes "os_law S alive old" "pool_table n (pre @ es) s" "n = length pre + length es" "distinct (map pid pre)"
    "list_all (started (os_time S (os_world s)) (alive (os_world s))) pre"
  shows "\<exists>t w. create_loop S [int (length pre)..int n - 1] s = (AOk (), s\<lparr>os_world := w, m_pcntl_info := Some t\<rparr>) \<and> length t = n \<and>
     distinct (map pid t) \<and> list_all (started (os_time S (os_world s)) (alive w)) t \<and> os_time S w = os_time S (os_world s)"
  using assms(2-)
proof (induction es arbitrary: pre s)
  case Nil
  then have "s = s\<lparr>os_world := os_world s, m_pcntl_info := Some pre\<rparr>" by (simp add: pool_table_def)
  with Nil show ?case by (intro exI [of _ pre] exI [of _ "os_world s"]) simp
next
  case (Cons e es)
  obtain p w where f: "os_fork S (os_world s) = (p, w)" by fastforce
  have l: "0 < p" "p \<notin> alive (os_world s)" "os_time S w = os_time S (os_world s)" "alive w = insert p (alive (os_world s))"
    using assms(1) f unfolding os_law_def by (metis Un_iff fst_conv snd_conv)+
  define e' where "e' = \<lparr>startat = os_time S (os_world s), status = CS_IDLE, at = 0, pid = p\<rparr>"
  let ?s = "s\<lparr>os_world := w, m_pcntl_info := Some ((pre @ [e']) @ es)\<rparr>"
  have c: "create_child S (int (length pre)) s = (AOk (), ?s)"
    using create_child_run [OF assms(1) Cons.prems(1) _ f] Cons.prems(2) l(3) by (simp add: e'_def)
  have "pool_table n ((pre @ [e']) @ es) ?s" "n = length (pre @ [e']) + length es" using Cons.prems(1,2) by (simp_all add: pool_table_def)
  moreover have "distinct (map pid (pre @ [e']))" using Cons.prems(3,4) l(2) by (auto simp: list_all_iff started_def e'_def)
  moreover have "list_all (started (os_time S (os_world ?s)) (alive (os_world ?s))) (pre @ [e'])"
    using Cons.prems(4) l by (auto simp: list_all_iff started_def e'_def)
  ultimately obtain t w' where r: "create_loop S [int (length (pre @ [e']))..int n - 1] ?s = (AOk (), ?s\<lparr>os_world := w', m_pcntl_info := Some t\<rparr>)"
    "length t = n" "distinct (map pid t)" "list_all (started (os_time S w) (alive w')) t" "os_time S w' = os_time S w"
    using Cons.IH [of "pre @ [e']" ?s] by (auto simp del: append_assoc)
  have "create_loop S [int (length pre)..int n - 1] s = (AOk (), s\<lparr>os_world := w', m_pcntl_info := Some t\<rparr>)"
    using c r(1) Cons.prems(1,2) by (subst upto_rec1) (simp_all add: act_bind_def act_seq_def get_def IsSon_def pool_table_def add.commute)
  then show ?case using r(2-) l(3) by (intro exI [of _ t] exI [of _ w']) simp
qed

text \<open>\<^verbatim>\<open>Init\<close> of a pool whose memory can be made starts one process per entry: it ends in the parent with a table of as many different live processes as
  asked for, all idle, with the start time of the pool, and none of them needs a restart for half a minute.\<close>

theorem HProcessPool_Init_starts:
  assumes "os_law S alive old" "shm_Init K (m_mem s, os_world s) = (AOk ERR_OK, b, w)" "\<not> IsSon s" "m_nChildCount s = int n" "m_nCount s = int n"
    "0 \<le> d" "d \<le> 30"
  shows "\<exists>t w'. HProcessPool_Init K S s = (AOk ERR_OK, s\<lparr>m_mem := b, os_world := w', m_pcntl_info := Some t, m_bInited := True\<rparr>) \<and>
     length t = n \<and> distinct (map pid t) \<and> list_all (started (os_time S w) (alive w')) t \<and>
     list_all (healthy (alive w') (os_time S w' + d)) t"
proof -
  let ?s = "s\<lparr>m_mem := b, os_world := w, m_pcntl_info := Some (replicate n zero_info)\<rparr>"
  have at0: "pool_table n (replicate n zero_info) ?s" using assms(3,5) by (simp add: pool_table_def IsSon_def)
  have "ProcessCntl_Init K s = (AOk ERR_OK, ?s)"
    using assms(2,5) reset_loop_run [OF at0, of "[0..int n - 1]"]
    by (simp add: ProcessCntl_Init_def on_mem_def act_ok_def act_seq_def act_bind_def act_ret_def)
  moreover obtain t w' where r: "create_loop S [0..int n - 1] ?s = (AOk (), ?s\<lparr>os_world := w', m_pcntl_info := Some t\<rparr>)" "length t = n"
    "distinct (map pid t)" "list_all (started (os_time S w) (alive w')) t" "os_time S w' = os_time S w"
    using create_loop_run [OF assms(1), of n "[]" "replicate n zero_info" ?s] at0 by auto
  ultimately have "HProcessPool_Init K S s = (AOk ERR_OK, s\<lparr>m_mem := b, os_world := w', m_pcntl_info := Some t, m_bInited := True\<rparr>)"
    using assms(4) by (simp add: HProcessPool_Init_def act_ok_def act_seq_def act_bind_def act_ret_def)
  moreover have "list_all (healthy (alive w') (os_time S w' + d)) t" using r(4,5) assms(6,7)
    by (auto simp: list_all_iff started_def healthy_def heard_def MAX_HEAR_TIME_def)
  ultimately show ?thesis using r by blast
qed


text \<open>An entry whose process was never started, because \<^verbatim>\<open>fork\<close> failed, has the identifier 0; the signals of its restart go to the whole process group.\<close>

lemma unstarted_signals_group:
  assumes "pool_table n t s" "i < n" "pid (t ! i) = 0"
  shows "os_world (snd (kill_child S (int i) s)) =
     snd (os_kill S 0 SIGKILL (os_sleep S AFTER_SIGTERM_ST (snd (os_kill S 0 SIGTERM (prepare_end_son S (int i) (os_world s))))))"
  using assms by (simp add: kill_child_def pool_defs pool_table_def GetPid_def KillProcess_def KillProcessAnyway_def kill_process_def UnuseInfo_def
        set_info_as_status_def split_beta)

text \<open>The pass compares every child with the time at which it began, while every restart takes two seconds. A missing child that is restarted more
  than 28 seconds into the pass is found silent at once: the process that was just created is killed and created again.\<close>

theorem late_restart_is_killed:
  assumes "os_law S alive old" "pool_at n t s" "i < n" "pid (t ! i) \<notin> alive (os_world s)" "nt + 28 < os_time S (os_world s)"
  shows "\<exists>p1 w1 s1 s2. restart S (int i) s = (AOk False, s1) \<and>
     m_pcntl_info s1 = Some (t[i := \<lparr>startat = os_time S (os_world s) + 2, status = CS_IDLE, at = 0, pid = p1\<rparr>]) \<and> os_world s1 = w1 \<and> p1 \<in> alive w1 \<and>
     restart S (int i) s1 = (AOk False, s2) \<and> touch_slot S nt (int i) s = (AOk True, s2)"
proof -
  from restart_run [OF assms(1-3)] obtain p w where r: "restart S (int i) s = (AOk False, s\<lparr>os_world := w,
       m_pcntl_info := Some (t[i := \<lparr>startat = os_time S (os_world s) + 2, status = CS_IDLE, at = 0, pid = p\<rparr>])\<rparr>)" "p \<in> alive w" "0 < p" by blast
  let ?t = "t[i := \<lparr>startat = os_time S (os_world s) + 2, status = CS_IDLE, at = 0, pid = p\<rparr>]"
  let ?s = "s\<lparr>os_world := w, m_pcntl_info := Some ?t\<rparr>"
  have "pool_at n ?t ?s" using pool_at_update [OF assms(2)] r(3) by simp
  from restart_run [OF assms(1) this assms(3)] obtain s2 where s2: "restart S (int i) ?s = (AOk False, s2)" by blast
  have "\<bar>nt - (os_time S (os_world s) + 2)\<bar> > MAX_HEAR_TIME" using assms(5) by (simp add: MAX_HEAR_TIME_def)
  with touch_missing [OF assms(1-4), of nt] r(1) s2 have "touch_slot S nt (int i) s = (AOk True, s2)" by (auto simp: act_bind_def)
  with r(1,2) s2 show ?thesis by (intro exI [of _ p] exI [of _ w] exI [of _ ?s] exI [of _ s2]) simp
qed


subsection \<open>A small system\<close>

text \<open>Processes and the time; signals end a process at once, and a new identifier is above 100 and above all those in use.\<close>

definition tiny_os :: "(int list \<times> int) proc_os" where
  "tiny_os = \<lparr>os_fork = \<lambda>(ps, t). let p = fold max ps 100 + 1 in (p, (p # ps, t)), os_time = snd,
     os_stat = \<lambda>path (ps, t). path \<in> set (map (\<lambda>p. ''/proc/'' @ FromN p) ps),
     os_kill = \<lambda>p sg (ps, t). (p \<in> set ps, (removeAll p ps, t)), os_sleep = \<lambda>n (ps, t). (ps, t + n),
     childProcessRun = \<lambda>w. w, prepare_end_son = \<lambda>i w. w\<rparr>"

lemma os_law_tiny:
  assumes "old \<subseteq> {..100}"
  shows "os_law tiny_os (set \<circ> fst) old"
proof -
  have "os_stat tiny_os (''/proc/'' @ FromN p) w \<longleftrightarrow> p \<in> (set \<circ> fst) w" for p w
    using inj_eq [OF FromN_inj] by (simp add: tiny_os_def split_beta image_iff)
  moreover have "0 < fst (os_fork tiny_os w) \<and> fst (os_fork tiny_os w) \<notin> old \<union> (set \<circ> fst) w" for w
  proof -
    have "x < fold max (fst w) 100 + 1" if "x \<le> 100 \<or> x \<in> set (fst w)" for x using fold_max_ge [OF that] by simp
    moreover have "fst (os_fork tiny_os w) = fold max (fst w) 100 + 1" by (simp add: tiny_os_def split_beta Let_def)
    ultimately show ?thesis using assms by (metis Un_iff atMost_iff comp_apply less_irrefl subsetD zero_le_numeral order_le_less_trans order_refl)
  qed
  ultimately show ?thesis unfolding os_law_def by (auto simp: tiny_os_def split_beta Let_def)
qed

text \<open>At the time 1000 the first child has been heard of lately, the second one is silent since 960 and the third one has gone.\<close>

definition three_children :: "cntl_info list" where
  "three_children = [\<lparr>startat = 900, status = CS_BUSY, at = 990, pid = 11\<rparr>, \<lparr>startat = 900, status = CS_BUSY, at = 960, pid = 12\<rparr>,
     \<lparr>startat = 990, status = CS_IDLE, at = 0, pid = 13\<rparr>]"

definition three_pool :: "int \<Rightarrow> (int list \<times> int) HProcessPool" where
  "three_pool now = (HProcessPool_new 3 64 28888 ([11, 12], now))\<lparr>m_pcntl_info := Some three_children\<rparr>"

lemma three_pool_at: "pool_at 3 three_children (three_pool now)"
  by (simp add: pool_at_def pool_table_def three_pool_def three_children_def HProcessPool_new_def)

lemma os_law_three: "os_law tiny_os (set \<circ> fst) (pid ` set three_children)"
  by (rule os_law_tiny) (simp add: three_children_def)

theorem late_restart_is_killed_witness: "\<exists>p1 w1 s1 s2. restart tiny_os (int 2) (three_pool 1000) = (AOk False, s1) \<and>
     m_pcntl_info s1 = Some (three_children[2 := \<lparr>startat = 1002, status = CS_IDLE, at = 0, pid = p1\<rparr>]) \<and> os_world s1 = w1 \<and> p1 \<in> set (fst w1) \<and>
     restart tiny_os (int 2) s1 = (AOk False, s2) \<and> touch_slot tiny_os 971 (int 2) (three_pool 1000) = (AOk True, s2)"
proof -
  have "pid (three_children ! 2) \<notin> (set \<circ> fst) (os_world (three_pool 1000))" "(971::int) + 28 < os_time tiny_os (os_world (three_pool 1000))"
    "os_time tiny_os (os_world (three_pool 1000)) + 2 = 1002" by (simp_all add: three_pool_def three_children_def HProcessPool_new_def tiny_os_def)
  with late_restart_is_killed [OF os_law_three three_pool_at, of 2 1000 971] show ?thesis by simp
qed


definition tiny_shm :: "(int list \<times> int) shm_kernel" where
  "tiny_shm = \<lparr>k_shmget = (\<lambda>key n fl w. ((3, False), w)), k_shmat = (\<lambda>i w. (True, w)), k_shmdt = (\<lambda>i w. (True, w)), k_shm_rmid = (\<lambda>i w. (True, w)),
     k_mem = (\<lambda>i w. replicate 160 1), k_put = (\<lambda>i m w. w)\<rparr>"

theorem HProcessPool_Init_starts_witness: "\<exists>t b w'. HProcessPool_Init tiny_shm tiny_os (HProcessPool_new 3 64 28888 ([], 1000)) =
     (AOk ERR_OK, (HProcessPool_new 3 64 28888 ([], 1000))\<lparr>m_mem := b, os_world := w', m_pcntl_info := Some t, m_bInited := True\<rparr>) \<and>
     length t = 3 \<and> distinct (map pid t) \<and> list_all (started 1000 (set (fst w'))) t \<and> list_all (healthy (set (fst w')) (snd w' + 30)) t"
proof -
  let ?s = "HProcessPool_new 3 64 28888 (([], 1000) :: int list \<times> int)"
  have "shm_Init tiny_shm (m_mem ?s, os_world ?s) = (AOk ERR_OK, (m_mem ?s)\<lparr>m_id := 3, m_shm_ptr := Shm 3\<rparr>, ([], 1000))"
    by (simp add: HProcessPool_new_def shm_Init_def ipc_Init_def shm_create_def shm_at_def shm_memset_def ipc_defs tiny_shm_def HShareMemory_key_def
        HasInited_def Let_def)
  from HProcessPool_Init_starts [OF os_law_tiny [of "{}"] this, of 3 30] show ?thesis
    by (auto simp: HProcessPool_new_def IsSon_def tiny_os_def)
qed

end
