(* ===== verification/Descriptors.thy ===== *)
theory Descriptors
  imports Action Hui_Conf
begin

unbundle bit_operations_syntax

text \<open>
  File descriptors and what is built on them: \<^verbatim>\<open>src/src/internal/fd_in\<close>, \<^verbatim>\<open>hfilehandle.cpp\<close>, \<^verbatim>\<open>hfilestr.cpp\<close>, \<^verbatim>\<open>hfilelock.cpp\<close> and \<^verbatim>\<open>happlock.cpp\<close>.

  An object holds a descriptor number; the calls on the kernel's world are a parameter. A call gives its result, reading gives the
  bytes too; \<open>k_errno\<close> reads \<^verbatim>\<open>errno\<close> after a call. The status flags are a 32-bit word.
\<close>

subsection \<open>Descriptors\<close>

record fd_in =
  m_fd :: int

record 'w fd_kernel =
  k_close :: "int \<Rightarrow> 'w \<Rightarrow> 'w"
  k_read :: "int \<Rightarrow> nat \<Rightarrow> 'w \<Rightarrow> (int \<times> HMEM) \<times> 'w"
  k_write :: "int \<Rightarrow> HMEM \<Rightarrow> 'w \<Rightarrow> int \<times> 'w"
  k_pread :: "int \<Rightarrow> nat \<Rightarrow> int \<Rightarrow> 'w \<Rightarrow> (int \<times> HMEM) \<times> 'w"
  k_pwrite :: "int \<Rightarrow> HMEM \<Rightarrow> int \<Rightarrow> 'w \<Rightarrow> int \<times> 'w"
  k_writev :: "int \<Rightarrow> HMEM list \<Rightarrow> 'w \<Rightarrow> int \<times> 'w"
  k_readv :: "int \<Rightarrow> nat list \<Rightarrow> 'w \<Rightarrow> (int \<times> HMEM list) \<times> 'w"
  k_getfl :: "int \<Rightarrow> 'w \<Rightarrow> 32 word"
  k_setfl :: "int \<Rightarrow> 32 word \<Rightarrow> 'w \<Rightarrow> int \<times> 'w"
  k_open :: "string \<Rightarrow> int \<Rightarrow> int \<Rightarrow> 'w \<Rightarrow> int \<times> 'w"
  k_dup :: "int \<Rightarrow> 'w \<Rightarrow> int \<times> 'w"
  k_dup2 :: "int \<Rightarrow> int \<Rightarrow> 'w \<Rightarrow> int \<times> 'w"
  k_flock :: "int \<Rightarrow> int \<Rightarrow> 'w \<Rightarrow> int \<times> 'w"
  k_syncfs :: "int \<Rightarrow> 'w \<Rightarrow> int \<times> 'w"
  k_ftruncate :: "int \<Rightarrow> nat \<Rightarrow> 'w \<Rightarrow> int \<times> 'w"
  k_tmpfile :: "'w \<Rightarrow> int option \<times> 'w"
  k_setlk :: "int \<Rightarrow> int \<Rightarrow> int \<Rightarrow> int \<Rightarrow> int \<Rightarrow> int \<Rightarrow> 'w \<Rightarrow> int \<times> 'w"
  k_lockf :: "int \<Rightarrow> int \<Rightarrow> 'w \<Rightarrow> int \<times> 'w"
  k_errno :: "'w \<Rightarrow> int"

type_synonym ('w, 'a) fd_action = "(fd_in \<times> 'w, RET_T, 'a) action"

definition invalid_fd :: int where "invalid_fd = - 1"

definition fd_in_new :: fd_in where
  "fd_in_new = \<lparr>m_fd = invalid_fd\<rparr>"

definition fd_in_of :: "int \<Rightarrow> fd_in" where
  "fd_in_of fd = \<lparr>m_fd = fd\<rparr>"

definition IsInvalid :: "fd_in \<Rightarrow> bool" where
  "IsInvalid b \<longleftrightarrow> m_fd b = invalid_fd"

definition SetAsInvalid :: "fd_in \<Rightarrow> fd_in" where
  "SetAsInvalid b = b\<lparr>m_fd := invalid_fd\<rparr>"

definition SetFd :: "int \<Rightarrow> fd_in \<Rightarrow> fd_in" where
  "SetFd fd b = b\<lparr>m_fd := fd\<rparr>"

text \<open>The move constructor and the move assignment give the new object (the target) and the one moved from.\<close>

definition fd_in_move :: "fd_in \<Rightarrow> fd_in \<times> fd_in" where
  "fd_in_move other = (\<lparr>m_fd = m_fd other\<rparr>, SetAsInvalid other)"

definition fd_in_move_assign :: "fd_in \<Rightarrow> fd_in \<Rightarrow> fd_in \<times> fd_in" where
  "fd_in_move_assign this other = (this\<lparr>m_fd := m_fd other\<rparr>, SetAsInvalid other)"

definition fd_in_delete :: "'w fd_kernel \<Rightarrow> fd_in \<Rightarrow> 'w \<Rightarrow> 'w" where
  "fd_in_delete K b w = (if m_fd b \<noteq> invalid_fd then k_close K (m_fd b) w else w)"

definition Close :: "'w fd_kernel \<Rightarrow> ('w, unit) fd_action" where
  "Close K = with_obj (\<lambda>b. if \<not> IsInvalid b
     then act_seq (kernel (\<lambda>w. ((), k_close K (m_fd b) w))) (set_obj SetAsInvalid) else act_ret ())"

definition fd_Read :: "'w fd_kernel \<Rightarrow> nat \<Rightarrow> ('w, int \<times> HMEM) fd_action" where
  "fd_Read K size1 = with_obj (\<lambda>b. if IsInvalid b then act_ret (- 1, []) else kernel (k_read K (m_fd b) size1))"

definition fd_Write :: "'w fd_kernel \<Rightarrow> HMEM \<Rightarrow> ('w, int) fd_action" where
  "fd_Write K buf = with_obj (\<lambda>b. if IsInvalid b then act_ret (- 1) else kernel (k_write K (m_fd b) buf))"

definition fd_Pread :: "'w fd_kernel \<Rightarrow> nat \<Rightarrow> int \<Rightarrow> ('w, int \<times> HMEM) fd_action" where
  "fd_Pread K size1 off = with_obj (\<lambda>b. if IsInvalid b then act_ret (- 1, []) else kernel (k_pread K (m_fd b) size1 off))"

definition fd_Pwrite :: "'w fd_kernel \<Rightarrow> HMEM \<Rightarrow> int \<Rightarrow> ('w, int) fd_action" where
  "fd_Pwrite K buf off = with_obj (\<lambda>b. if IsInvalid b then act_ret (- 1) else kernel (k_pwrite K (m_fd b) buf off))"

text \<open>\<^verbatim>\<open>WriteV\<close> and \<^verbatim>\<open>ReadV\<close> return an unsigned size: an error is the largest one.\<close>

definition fd_WriteV :: "'w fd_kernel \<Rightarrow> HMEM list \<Rightarrow> ('w, nat) fd_action" where
  "fd_WriteV K iov = with_obj (\<lambda>b. if IsInvalid b then act_ret (2 ^ 64 - 1)
     else act_bind (kernel (k_writev K (m_fd b) iov)) (\<lambda>r. act_ret (nat (r mod 2 ^ 64))))"

definition fd_ReadV :: "'w fd_kernel \<Rightarrow> nat list \<Rightarrow> ('w, nat \<times> HMEM list) fd_action" where
  "fd_ReadV K lens = with_obj (\<lambda>b. if IsInvalid b then act_ret (2 ^ 64 - 1, [])
     else act_bind (kernel (k_readv K (m_fd b) lens)) (\<lambda>(r, bs). act_ret (nat (r mod 2 ^ 64), bs)))"

definition O_NONBLOCK :: "32 word" where "O_NONBLOCK = 0x800"

definition SetNonblocked :: "'w fd_kernel \<Rightarrow> bool \<Rightarrow> ('w, RET_T) fd_action" where
  "SetNonblocked K bFlag = with_obj (\<lambda>b. if IsInvalid b then act_ret SRC_ERR
     else act_bind (kernel (\<lambda>w. (k_getfl K (m_fd b) w, w))) (\<lambda>flags.
       if \<not> 0 \<le> sint flags then act_ret SYS_FAILED
       else if bFlag \<and> flags AND O_NONBLOCK \<noteq> 0 then act_ret ERR_OK
       else if \<not> bFlag \<and> \<not> flags AND O_NONBLOCK \<noteq> 0 then act_ret ERR_OK
       else if bFlag then act_bind (kernel (k_setfl K (m_fd b) (flags OR O_NONBLOCK))) (\<lambda>r. act_ret (if r \<ge> 0 then ERR_OK else SYS_FAILED))
       else act_bind (kernel (k_setfl K (m_fd b) (flags OR NOT O_NONBLOCK))) (\<lambda>r. act_ret (if r > 0 then ERR_OK else SYS_FAILED))))"

definition IsNonblocked :: "'w fd_kernel \<Rightarrow> ('w, bool) fd_action" where
  "IsNonblocked K = with_obj (\<lambda>b. act_bind (kernel (\<lambda>w. (k_getfl K (m_fd b) w, w))) (\<lambda>flags.
     if \<not> 0 \<le> sint flags then act_throw SYS_FAILED else act_ret (flags AND O_NONBLOCK \<noteq> 0)))"

subsection \<open>Files\<close>

definition HFileHandle_file :: "'w fd_kernel \<Rightarrow> string \<Rightarrow> int \<Rightarrow> int \<Rightarrow> 'w \<Rightarrow> fd_in \<times> 'w" where
  "HFileHandle_file K strFileName flags modes w = (case k_open K (c_str strFileName) flags modes w of (fd, w) \<Rightarrow> (fd_in_of fd, w))"

definition Dup :: "'w fd_kernel \<Rightarrow> ('w, fd_in) fd_action" where
  "Dup K = with_obj (\<lambda>b. if IsInvalid b then act_ret fd_in_new
     else act_bind (kernel (k_dup K (m_fd b))) (\<lambda>fd. act_ret (if fd = invalid_fd then fd_in_new else fd_in_of fd)))"

definition Open :: "'w fd_kernel \<Rightarrow> string \<Rightarrow> int \<Rightarrow> int \<Rightarrow> ('w, RET_T) fd_action" where
  "Open K strFileName flags modes = act_bind (kernel (k_open K (c_str strFileName) flags modes)) (\<lambda>fd.
     if \<not> fd \<ge> 0 then act_ret SYS_FAILED else act_seq (set_obj (SetFd fd)) (act_ret ERR_OK))"

definition Dup2 :: "'w fd_kernel \<Rightarrow> string \<Rightarrow> int \<Rightarrow> int \<Rightarrow> ('w, RET_T) fd_action" where
  "Dup2 K strFileName flags modes = with_obj (\<lambda>b. act_bind (kernel (k_open K (c_str strFileName) flags modes)) (\<lambda>fd.
     if \<not> fd \<ge> 0 then act_ret SYS_FAILED
     else act_bind (kernel (k_dup2 K fd (m_fd b))) (\<lambda>r. act_seq (kernel (\<lambda>w. ((), k_close K fd w)))
       (act_ret (if r \<ge> 0 then ERR_OK else SYS_FAILED)))))"

definition LOCK_SH :: int where "LOCK_SH = 1"
definition LOCK_EX :: int where "LOCK_EX = 2"
definition LOCK_UN :: int where "LOCK_UN = 8"

definition dolock :: "'w fd_kernel \<Rightarrow> int \<Rightarrow> ('w, RET_T) fd_action" where
  "dolock K op1 = with_obj (\<lambda>b. act_bind (kernel (k_flock K (m_fd b) op1)) (\<lambda>r. act_ret (if r = 0 then ERR_OK else SYS_FAILED)))"

definition file_Lock :: "'w fd_kernel \<Rightarrow> ('w, RET_T) fd_action" where
  "file_Lock K = dolock K LOCK_EX"

definition file_LockShare :: "'w fd_kernel \<Rightarrow> ('w, RET_T) fd_action" where
  "file_LockShare K = dolock K LOCK_SH"

definition file_UnLock :: "'w fd_kernel \<Rightarrow> ('w, RET_T) fd_action" where
  "file_UnLock K = dolock K LOCK_UN"

text \<open>\<^verbatim>\<open>Sync\<close> asserts that \<^verbatim>\<open>syncfs\<close> returns something other than 0.\<close>

definition Sync :: "'w fd_kernel \<Rightarrow> ('w, RET_T) fd_action" where
  "Sync K = with_obj (\<lambda>b. act_bind (kernel (k_syncfs K (m_fd b))) (\<lambda>r. act_ret (if r \<noteq> 0 then ERR_OK else IO_FAILED)))"

definition SetToZero :: "'w fd_kernel \<Rightarrow> ('w, RET_T) fd_action" where
  "SetToZero K = with_obj (\<lambda>b. act_bind (kernel (k_ftruncate K (m_fd b) 0)) (\<lambda>r. act_ret (if r = 0 then ERR_OK else IO_FAILED)))"

definition WriteString :: "'w fd_kernel \<Rightarrow> string \<Rightarrow> ('w, int) fd_action" where
  "WriteString K str = act_bind (fd_Write K (bytes_of str)) (\<lambda>ret. act_seq (Sync K) (act_ret ret))"

text \<open>The loop of \<^verbatim>\<open>ReadString\<close> ends only when a read gives nothing.\<close>

partial_function (option) ReadString_loop :: "'w fd_kernel \<Rightarrow> string \<Rightarrow> fd_in \<Rightarrow> 'w \<Rightarrow> (string \<times> 'w) option" where
  "ReadString_loop K str b w = (case fd_Read K HSTRING_LEN (b, w) of (AOk (ret, bs), _, w') \<Rightarrow>
       if ret > 0 then ReadString_loop K (str @ str_of bs) b w' else Some (str, w')
     | _ \<Rightarrow> None)"

definition ReadString :: "'w fd_kernel \<Rightarrow> fd_in \<Rightarrow> 'w \<Rightarrow> (string \<times> 'w) option" where
  "ReadString K b w = ReadString_loop K [] b w"

definition TmpFile :: "'w fd_kernel \<Rightarrow> 'w \<Rightarrow> (RET_T, fd_in) act_out \<times> 'w" where
  "TmpFile K w = (case k_tmpfile K w of
     (None, w) \<Rightarrow> (AThrow SYS_FAILED, w)
   | (Some f, w) \<Rightarrow> (case k_dup K f w of (fd, w) \<Rightarrow> (if fd = invalid_fd then AThrow SYS_FAILED else AOk (fd_in_of fd), k_close K f w)))"


subsection \<open>Texts in files\<close>

definition O_RDONLY :: int where "O_RDONLY = 0"
definition O_RDWR :: int where "O_RDWR = 2"
definition O_CREAT :: int where "O_CREAT = 0x40"
definition default_modes :: int where "default_modes = 0x180"

definition FileStr_Open :: "'w fd_kernel \<Rightarrow> string \<Rightarrow> int \<Rightarrow> ('w, RET_T) fd_action" where
  "FileStr_Open K strFileName flags = act_ok (Open K strFileName flags default_modes)
     (with_obj (\<lambda>b. act_ret (if IsInvalid b then ERR_STATUS else ERR_OK)))"

definition InOpen :: "'w fd_kernel \<Rightarrow> string \<Rightarrow> ('w, RET_T) fd_action" where
  "InOpen K strFileName = act_seq (Close K) (FileStr_Open K strFileName O_RDONLY)"

definition OutOpen :: "'w fd_kernel \<Rightarrow> string \<Rightarrow> ('w, RET_T) fd_action" where
  "OutOpen K strFileName = act_seq (Close K) (act_ok (FileStr_Open K strFileName (O_RDWR OR O_CREAT)) (act_ok (SetToZero K) (act_ret ERR_OK)))"

definition WriteFromString :: "'w fd_kernel \<Rightarrow> string \<Rightarrow> ('w, RET_T) fd_action" where
  "WriteFromString K str = with_obj (\<lambda>b. if IsInvalid b then act_ret ERR_STATUS else act_seq (WriteString K str) (act_ret ERR_OK))"

definition ReadToString :: "'w fd_kernel \<Rightarrow> string \<Rightarrow> fd_in \<Rightarrow> 'w \<Rightarrow> (RET_T \<times> string \<times> 'w) option" where
  "ReadToString K str b w = (if IsInvalid b then Some (ERR_STATUS, str, w) else map_option (\<lambda>(str, w). (ERR_OK, str, w)) (ReadString K b w))"

subsection \<open>Locks\<close>

definition F_SETLK :: int where "F_SETLK = 6"
definition F_SETLKW :: int where "F_SETLKW = 7"
definition F_WRLCK :: int where "F_WRLCK = 1"
definition F_UNLCK :: int where "F_UNLCK = 2"
definition SEEK_SET :: int where "SEEK_SET = 0"
definition EINTR :: int where "EINTR = 4"

partial_function (option) fcntl_loop :: "'w fd_kernel \<Rightarrow> int \<Rightarrow> int \<Rightarrow> int \<Rightarrow> int \<Rightarrow> int \<Rightarrow> fd_in \<Rightarrow> 'w \<Rightarrow> ((RET_T, RET_T) act_out \<times> 'w) option" where
  "fcntl_loop K iCmd iType iOffset iWhere iLen b w = (case k_setlk K (m_fd b) iCmd iType iOffset iWhere iLen w of (r, w) \<Rightarrow>
     if r < 0 then (if k_errno K w = EINTR then fcntl_loop K iCmd iType iOffset iWhere iLen b w else Some (AThrow SYS_FAILED, w))
     else Some (AOk ERR_OK, w))"

definition FileLock_Lock :: "'w fd_kernel \<Rightarrow> fd_in \<Rightarrow> 'w \<Rightarrow> ((RET_T, RET_T) act_out \<times> 'w) option" where
  "FileLock_Lock K = fcntl_loop K F_SETLKW F_WRLCK 0 SEEK_SET 1"

definition FileLock_UnLock :: "'w fd_kernel \<Rightarrow> fd_in \<Rightarrow> 'w \<Rightarrow> ((RET_T, RET_T) act_out \<times> 'w) option" where
  "FileLock_UnLock K = fcntl_loop K F_SETLK F_UNLCK 0 SEEK_SET 1"

text \<open>The commands of \<^verbatim>\<open>lockf\<close>; \<^verbatim>\<open>F_UNLCK\<close> is a constant of \<^verbatim>\<open>fcntl\<close> and has the value of \<^verbatim>\<open>F_TLOCK\<close>.\<close>

definition F_ULOCK :: int where "F_ULOCK = 0"
definition F_LOCK :: int where "F_LOCK = 1"
definition F_TLOCK :: int where "F_TLOCK = 2"
definition F_TEST :: int where "F_TEST = 3"

definition HAppLock_new :: "'w fd_kernel \<Rightarrow> string \<Rightarrow> 'w \<Rightarrow> fd_in \<times> 'w" where
  "HAppLock_new K strFileName = HFileHandle_file K strFileName (O_CREAT OR O_RDWR) 0x1A4"

definition LockApp :: "'w fd_kernel \<Rightarrow> ('w, RET_T) fd_action" where
  "LockApp K = with_obj (\<lambda>b. act_bind (kernel (k_lockf K (m_fd b) F_TEST)) (\<lambda>r. if r \<noteq> 0 then act_ret INVL_PARA
     else act_bind (kernel (k_lockf K (m_fd b) F_LOCK)) (\<lambda>r. act_ret (if r \<noteq> 0 then SYS_FAILED else ERR_OK))))"

definition UnlockApp :: "'w fd_kernel \<Rightarrow> ('w, RET_T) fd_action" where
  "UnlockApp K = with_obj (\<lambda>b. act_bind (kernel (k_lockf K (m_fd b) F_UNLCK)) (\<lambda>r. act_ret (if r = 0 then ERR_OK else SYS_FAILED)))"

definition HAppLock_delete :: "'w fd_kernel \<Rightarrow> fd_in \<Rightarrow> 'w \<Rightarrow> 'w" where
  "HAppLock_delete K b w = (case UnlockApp K (b, w) of (_, b, w) \<Rightarrow> fd_in_delete K b w)"

definition HProcessLock_new :: "'w fd_kernel \<Rightarrow> string \<Rightarrow> 'w \<Rightarrow> fd_in \<times> 'w" where
  "HProcessLock_new K strFileName w = snd (file_Lock K (HFileHandle_file K strFileName (O_CREAT OR O_RDWR) 0x1A4 w))"

definition HProcessLock_delete :: "'w fd_kernel \<Rightarrow> fd_in \<Rightarrow> 'w \<Rightarrow> 'w" where
  "HProcessLock_delete K b w = (case file_UnLock K (b, w) of (_, b, w) \<Rightarrow> fd_in_delete K b w)"

subsection \<open>Who owns a descriptor\<close>

definition owned :: "fd_in \<Rightarrow> int set" where
  "owned b = (if IsInvalid b then {} else {m_fd b})"

text \<open>\<open>opens\<close> are the descriptors that are open; \<^verbatim>\<open>close\<close> removes one and \<^verbatim>\<open>open\<close> adds a new one.\<close>

definition open_close_law :: "'w fd_kernel \<Rightarrow> ('w \<Rightarrow> int set) \<Rightarrow> bool" where
  "open_close_law K opens \<longleftrightarrow> (\<forall>fd w. opens (k_close K fd w) = opens w - {fd}) \<and>
     (\<forall>f fl m w. case k_open K f fl m w of (fd, w') \<Rightarrow> if 0 \<le> fd then fd \<notin> opens w \<and> opens w' = insert fd (opens w) else opens w' = opens w)"

lemmas fd_defs = with_obj_def set_obj_def kernel_def act_bind_def act_seq_def act_ok_def

lemma Close_owned:
  assumes "open_close_law K opens" "Close K (b, w) = (out, b', w')"
  shows "out = AOk ()" "IsInvalid b'" "opens w' = opens w - owned b"
proof -
  have c: "opens (k_close K fd w) = opens w - {fd}" for fd w using assms(1) by (simp add: open_close_law_def)
  have "(out, b', w') = (if IsInvalid b then (AOk (), b, w) else (AOk (), SetAsInvalid b, k_close K (m_fd b) w))"
    using assms(2) by (simp add: Close_def fd_defs split: if_splits)
  then show "out = AOk ()" "IsInvalid b'" "opens w' = opens w - owned b"
    by (auto simp: c owned_def SetAsInvalid_def IsInvalid_def split: if_splits)
qed

lemma move_owned: "fd_in_move other = (b, other') \<Longrightarrow> owned b = owned other \<and> owned other' = {}"
  by (auto simp: fd_in_move_def owned_def IsInvalid_def SetAsInvalid_def)

text \<open>The move assignment and \<^verbatim>\<open>Open\<close> forget the descriptor of the target: it stays open and no object owns it.\<close>

lemma move_assign_leaks:
  "fd_in_move_assign this other = (this', other') \<Longrightarrow> owned this' \<union> owned other' = owned other"
  by (auto simp: fd_in_move_assign_def owned_def IsInvalid_def SetAsInvalid_def)

lemma open_gives:
  assumes "open_close_law K opens" "k_open K f fl m w = (fd, w')"
  shows "if 0 \<le> fd then fd \<notin> opens w \<and> opens w' = insert fd (opens w) else opens w' = opens w"
proof -
  have "\<forall>f fl m w. case k_open K f fl m w of (fd, w') \<Rightarrow> if 0 \<le> fd then fd \<notin> opens w \<and> opens w' = insert fd (opens w) else opens w' = opens w"
    using assms(1) unfolding open_close_law_def by (elim conjE)
  from spec [OF spec [OF spec [OF spec [OF this, of f], of fl], of m], of w] assms(2) show ?thesis by simp
qed

lemma Open_leaks:
  assumes "open_close_law K opens" "Open K f fl m (b, w) = (AOk ERR_OK, b', w')" "owned b \<subseteq> opens w"
  shows "owned b \<subseteq> opens w' - owned b'"
proof -
  obtain fd w1 where o: "k_open K (c_str f) fl m w = (fd, w1)" by (cases "k_open K (c_str f) fl m w")
  then have "0 \<le> fd" "b' = SetFd fd b" "w' = w1" using assms(2) by (auto simp: Open_def fd_defs split: if_splits)
  moreover have "fd \<notin> opens w" "opens w1 = insert fd (opens w)"
    using open_gives [OF assms(1) o] \<open>0 \<le> fd\<close> by simp_all
  ultimately show ?thesis using assms(3) by (auto simp: owned_def IsInvalid_def SetFd_def invalid_fd_def split: if_splits)
qed

subsection \<open>Blocking\<close>

text \<open>\<^verbatim>\<open>F_GETFL\<close> reads the flags, which are not negative; \<^verbatim>\<open>F_SETFL\<close> succeeds with 0 and sets \<^verbatim>\<open>O_NONBLOCK\<close> as in its argument.\<close>

definition fl_law :: "'w fd_kernel \<Rightarrow> int \<Rightarrow> bool" where
  "fl_law K fd \<longleftrightarrow> (\<forall>w. 0 \<le> sint (k_getfl K fd w)) \<and>
     (\<forall>v w. case k_setfl K fd v w of (r, w') \<Rightarrow> r = 0 \<and> k_getfl K fd w' AND O_NONBLOCK = v AND O_NONBLOCK)"

abbreviation nb_bit :: "'w fd_kernel \<Rightarrow> fd_in \<Rightarrow> 'w \<Rightarrow> 32 word" where
  "nb_bit K b w \<equiv> k_getfl K (m_fd b) w AND O_NONBLOCK"

lemma O_NONBLOCK_ne [simp]: "O_NONBLOCK \<noteq> 0"
  by (simp add: O_NONBLOCK_def)

lemma fl_pos: "fl_law K fd \<Longrightarrow> 0 \<le> sint (k_getfl K fd w)"
  by (simp add: fl_law_def)

lemma fl_set:
  assumes "fl_law K fd"
  obtains w' where "k_setfl K fd v w = (0, w')" "k_getfl K fd w' AND O_NONBLOCK = v AND O_NONBLOCK"
proof -
  have "case k_setfl K fd v w of (r, w') \<Rightarrow> r = 0 \<and> k_getfl K fd w' AND O_NONBLOCK = v AND O_NONBLOCK" using assms by (simp add: fl_law_def)
  then show ?thesis using that by (cases "k_setfl K fd v w") simp
qed

lemma IsNonblocked_run: "fl_law K (m_fd b) \<Longrightarrow> IsNonblocked K (b, w) = (AOk (nb_bit K b w \<noteq> 0), b, w)"
  using fl_pos [of K "m_fd b" w] by (simp add: IsNonblocked_def fd_defs)

lemma set_nonblocked:
  assumes "fl_law K (m_fd b)" "\<not> IsInvalid b" "nb_bit K b w = 0"
  shows "\<exists>w'. SetNonblocked K True (b, w) = (AOk ERR_OK, b, w') \<and> nb_bit K b w' = O_NONBLOCK"
proof -
  obtain w' where "k_setfl K (m_fd b) (k_getfl K (m_fd b) w OR O_NONBLOCK) w = (0, w')" "nb_bit K b w' = (k_getfl K (m_fd b) w OR O_NONBLOCK) AND O_NONBLOCK"
    by (rule fl_set [OF assms(1)])
  with assms(2,3) fl_pos [OF assms(1), of w] show ?thesis
    by (intro exI [of _ w']) (simp add: SetNonblocked_def fd_defs bit.conj_disj_distrib2)
qed

lemma clear_nonblocked:
  assumes "fl_law K (m_fd b)" "\<not> IsInvalid b" "nb_bit K b w = O_NONBLOCK"
  shows "\<exists>w'. SetNonblocked K False (b, w) = (AOk SYS_FAILED, b, w') \<and> nb_bit K b w' = O_NONBLOCK"
proof -
  obtain w' where "k_setfl K (m_fd b) (k_getfl K (m_fd b) w OR NOT O_NONBLOCK) w = (0, w')"
    "nb_bit K b w' = (k_getfl K (m_fd b) w OR NOT O_NONBLOCK) AND O_NONBLOCK" by (rule fl_set [OF assms(1)])
  with assms(2,3) fl_pos [OF assms(1), of w] show ?thesis
    by (intro exI [of _ w']) (simp add: SetNonblocked_def fd_defs bit.conj_disj_distrib2)
qed

text \<open>C62: \<^verbatim>\<open>SetNonblocked\<close> makes a descriptor non-blocking, but never blocking again: it sets all other flags instead of clearing this one, and
  takes the 0 of a successful call for a failure.\<close>

theorem SetNonblocked_sticks:
  assumes "fl_law K (m_fd b)" "\<not> IsInvalid b" "IsNonblocked K (b, w) = (AOk False, b, w)"
  shows "\<exists>w1 w2. SetNonblocked K True (b, w) = (AOk ERR_OK, b, w1) \<and> IsNonblocked K (b, w1) = (AOk True, b, w1) \<and>
     SetNonblocked K False (b, w1) = (AOk SYS_FAILED, b, w2) \<and> IsNonblocked K (b, w2) = (AOk True, b, w2)"
proof -
  note run = IsNonblocked_run [OF assms(1)]
  have "nb_bit K b w = 0" using assms(3) run [of w] by simp
  from set_nonblocked [OF assms(1,2) this] obtain w1 where w1: "SetNonblocked K True (b, w) = (AOk ERR_OK, b, w1)" "nb_bit K b w1 = O_NONBLOCK" by blast
  from clear_nonblocked [OF assms(1,2) w1(2)] obtain w2 where "SetNonblocked K False (b, w1) = (AOk SYS_FAILED, b, w2)" "nb_bit K b w2 = O_NONBLOCK" by blast
  with w1 run [of w1] run [of w2] show ?thesis by (intro exI [of _ w1] exI [of _ w2]) simp
qed

subsection \<open>Locks that are not given back\<close>

lemma UnlockApp_locks: "UnlockApp K = with_obj (\<lambda>b. act_bind (kernel (k_lockf K (m_fd b) F_TLOCK)) (\<lambda>r. act_ret (if r = 0 then ERR_OK else SYS_FAILED)))"
  by (simp add: UnlockApp_def F_UNLCK_def F_TLOCK_def)

lemma Sync_inverted: "k_syncfs K (m_fd b) w = (0, w') \<Longrightarrow> Sync K (b, w) = (AOk IO_FAILED, b, w')"
  by (simp add: Sync_def fd_defs)


subsection \<open>A text saved is a text loaded\<close>

text \<open>Regular files on a disk with room: \<open>content\<close> are the files, \<open>place\<close> says which file a descriptor has open, and where.\<close>

definition file_law :: "'w fd_kernel \<Rightarrow> ('w \<Rightarrow> string \<Rightarrow> HMEM) \<Rightarrow> ('w \<Rightarrow> int \<Rightarrow> (string \<times> nat) option) \<Rightarrow> bool" where
  "file_law K content place \<longleftrightarrow>
     (\<forall>f fl m w fd w'. k_open K f fl m w = (fd, w') \<longrightarrow> 0 \<le> fd \<and> content w' = content w \<and> place w' = (place w)(fd \<mapsto> (f, 0))) \<and>
     (\<forall>fd w. content (k_close K fd w) = content w) \<and>
     (\<forall>fd w f p r w'. place w fd = Some (f, p) \<longrightarrow> k_ftruncate K fd 0 w = (r, w') \<longrightarrow> r = 0 \<and> content w' = (content w)(f := []) \<and> place w' = place w) \<and>
     (\<forall>fd w f p bs r w'. place w fd = Some (f, p) \<longrightarrow> k_write K fd bs w = (r, w') \<longrightarrow>
        r = int (length bs) \<and> content w' = (content w)(f := take p (content w f) @ bs @ drop (p + length bs) (content w f))) \<and>
     (\<forall>fd w f p n r bs w'. place w fd = Some (f, p) \<longrightarrow> k_read K fd n w = ((r, bs), w') \<longrightarrow>
        bs = take n (drop p (content w f)) \<and> r = int (length bs) \<and> content w' = content w \<and> place w' = (place w)(fd \<mapsto> (f, p + length bs))) \<and>
     (\<forall>fd w r w'. k_syncfs K fd w = (r, w') \<longrightarrow> content w' = content w)"

lemma file_open:
  assumes "file_law K content place" "k_open K f fl m w = (fd, w')"
  shows "0 \<le> fd" "content w' = content w" "place w' = (place w)(fd \<mapsto> (f, 0))"
  using assms(1) [unfolded file_law_def, THEN conjunct1, rule_format, OF assms(2)] by simp_all

lemma file_close: "file_law K content place \<Longrightarrow> content (k_close K fd w) = content w"
  by (drule file_law_def [THEN iffD1, THEN conjunct2, THEN conjunct1, rule_format])

lemma file_truncate:
  assumes "file_law K content place" "place w fd = Some (f, p)" "k_ftruncate K fd 0 w = (r, w')"
  shows "r = 0" "content w' = (content w)(f := [])" "place w' = place w"
  using assms(1) [unfolded file_law_def, THEN conjunct2, THEN conjunct2, THEN conjunct1, rule_format, OF assms(2,3)] by simp_all

lemma file_write:
  assumes "file_law K content place" "place w fd = Some (f, p)" "k_write K fd bs w = (r, w')"
  shows "content w' = (content w)(f := take p (content w f) @ bs @ drop (p + length bs) (content w f))"
  using assms(1) [unfolded file_law_def, THEN conjunct2, THEN conjunct2, THEN conjunct2, THEN conjunct1, rule_format, OF assms(2,3)] by simp_all

lemma file_read:
  assumes "file_law K content place" "place w fd = Some (f, p)" "k_read K fd n w = ((r, bs), w')"
  shows "bs = take n (drop p (content w f))" "r = int (length bs)" "content w' = content w" "place w' = (place w)(fd \<mapsto> (f, p + length bs))"
  using assms(1) [unfolded file_law_def, THEN conjunct2, THEN conjunct2, THEN conjunct2, THEN conjunct2, THEN conjunct1, rule_format, OF assms(2,3)] by simp_all

lemma file_sync: "file_law K content place \<Longrightarrow> k_syncfs K fd w = (r, w') \<Longrightarrow> content w' = content w"
  by (drule file_law_def [THEN iffD1, THEN conjunct2, THEN conjunct2, THEN conjunct2, THEN conjunct2, THEN conjunct2, rule_format])

lemma Close_content:
  assumes "file_law K content place"
  shows "\<exists>b' w'. Close K (b, w) = (AOk (), b', w') \<and> content w' = content w"
  using file_close [OF assms] by (simp add: Close_def fd_defs)

lemma FileStr_Open_run:
  assumes "file_law K content place" "CHR 0x00 \<notin> set f"
  shows "\<exists>b' w'. FileStr_Open K f fl (b, w) = (AOk ERR_OK, b', w') \<and> content w' = content w \<and> \<not> IsInvalid b' \<and> place w' (m_fd b') = Some (f, 0)"
proof -
  obtain fd w' where o: "k_open K f fl default_modes w = (fd, w')" by (cases "k_open K f fl default_modes w")
  note l = file_open [OF assms(1) o]
  have "FileStr_Open K f fl (b, w) = (AOk ERR_OK, SetFd fd b, w')"
    using o l(1) c_str_id [OF assms(2)] by (simp add: FileStr_Open_def Open_def fd_defs IsInvalid_def SetFd_def invalid_fd_def IS_OK_def)
  then show ?thesis using l by (intro exI [of _ "SetFd fd b"] exI [of _ w']) (simp add: IsInvalid_def SetFd_def invalid_fd_def)
qed

lemma take_and_rest: "take n xs @ drop (length (take n xs)) xs = xs"
  by (cases "n \<le> length xs") simp_all

lemma ReadString_loop_run:
  assumes "file_law K content place" "\<not> IsInvalid b" "place w (m_fd b) = Some (f, p)"
  shows "\<exists>w'. ReadString_loop K acc b w = Some (acc @ str_of (drop p (content w f)), w') \<and> content w' = content w"
  using assms(3)
proof (induction "length (content w f) - p" arbitrary: p acc w rule: less_induct)
  case less
  obtain r bs w1 where k: "k_read K (m_fd b) HSTRING_LEN w = ((r, bs), w1)" by (cases "k_read K (m_fd b) HSTRING_LEN w") fastforce
  note l = file_read [OF assms(1) less.prems k]
  have step: "ReadString_loop K acc b w = (if r > 0 then ReadString_loop K (acc @ str_of bs) b w1 else Some (acc, w1))"
    using assms(2) k by (subst ReadString_loop.simps) (simp add: fd_Read_def fd_defs)
  show ?case
  proof (cases "r > 0")
    case True
    then have "bs \<noteq> []" using l(2) by auto
    then have "p < length (content w f)" using l(1) by auto
    then have "length (content w1 f) - (p + length bs) < length (content w f) - p" using \<open>bs \<noteq> []\<close> l(3) by (cases bs) auto
    moreover have "place w1 (m_fd b) = Some (f, p + length bs)" using l(4) by simp
    ultimately obtain w' where "ReadString_loop K (acc @ str_of bs) b w1 = Some ((acc @ str_of bs) @ str_of (drop (p + length bs) (content w1 f)), w')"
      "content w' = content w1" using less.hyps by blast
    moreover have "bs @ drop (length bs) (drop p (content w f)) = drop p (content w f)"
      unfolding l(1) by (rule take_and_rest)
    then have "str_of bs @ str_of (drop (p + length bs) (content w f)) = str_of (drop p (content w f))"
      unfolding str_of_def map_append [symmetric] drop_drop by (simp add: add.commute)
    ultimately show ?thesis using True step l(3) by auto
  next
    case False
    then have "bs = []" using l(2) by simp
    moreover have "HSTRING_LEN > 0" by (simp add: HSTRING_LEN_def HWORD_LEN_def)
    ultimately have "drop p (content w f) = []" using l(1) by simp
    then show ?thesis using False step l(3) by (simp add: str_of_def)
  qed
qed

text \<open>Opening a file for output and writing a text leaves that text in it, whatever it held.\<close>

lemma save_text_run:
  assumes "file_law K content place" "CHR 0x00 \<notin> set f"
  shows "\<exists>b1 w1 w2. OutOpen K f (b, w) = (AOk ERR_OK, b1, w1) \<and> WriteFromString K str (b1, w1) = (AOk ERR_OK, b1, w2) \<and>
    content w2 = (content w)(f := bytes_of str)"
proof -
  obtain ba wa where c1: "Close K (b, w) = (AOk (), ba, wa)" "content wa = content w" using Close_content [OF assms(1)] by blast
  obtain b1 wb where o1: "FileStr_Open K f (O_RDWR OR O_CREAT) (ba, wa) = (AOk ERR_OK, b1, wb)" "content wb = content wa" "\<not> IsInvalid b1"
    "place wb (m_fd b1) = Some (f, 0)" using FileStr_Open_run [OF assms] by blast
  obtain r w1 where t: "k_ftruncate K (m_fd b1) 0 wb = (r, w1)" by (cases "k_ftruncate K (m_fd b1) 0 wb")
  then have tl: "r = 0" "content w1 = (content wb)(f := [])" "place w1 = place wb" using file_truncate [OF assms(1) o1(4)] by blast+
  have out: "OutOpen K f (b, w) = (AOk ERR_OK, b1, w1)" using c1(1) o1(1) t tl(1) by (simp add: OutOpen_def SetToZero_def fd_defs IS_OK_def)
  obtain r2 wc where wr: "k_write K (m_fd b1) (bytes_of str) w1 = (r2, wc)" by (cases "k_write K (m_fd b1) (bytes_of str) w1")
  then have "content wc = (content w1)(f := take 0 (content w1 f) @ bytes_of str @ drop (0 + length (bytes_of str)) (content w1 f))"
    using file_write [OF assms(1) _ wr] o1(4) tl(3) by metis
  then have wl: "content wc = (content w)(f := bytes_of str)" using tl(2) o1(2) c1(2) by simp
  obtain r3 w2 where sy: "k_syncfs K (m_fd b1) wc = (r3, w2)" by (cases "k_syncfs K (m_fd b1) wc")
  then have sl: "content w2 = content wc" by (rule file_sync [OF assms(1)])
  have wrote: "WriteFromString K str (b1, w1) = (AOk ERR_OK, b1, w2)"
    using o1(3) wr sy by (simp add: WriteFromString_def WriteString_def fd_Write_def Sync_def fd_defs)
  have "content w2 = (content w)(f := bytes_of str)" using sl wl by simp
  then show ?thesis using out wrote by blast
qed



subsection \<open>A small kernel\<close>

record disk =
  files :: "string \<Rightarrow> HMEM"
  places :: "int \<Rightarrow> (string \<times> nat) option"
  next_fd :: int
  status_flags :: "int \<Rightarrow> 32 word"

definition small_disk :: "disk fd_kernel" where
  "small_disk = \<lparr>k_close = \<lambda>fd w. w\<lparr>places := (places w)(fd := None)\<rparr>,
     k_read = \<lambda>fd n w. (case places w fd of None \<Rightarrow> ((- 1, []), w) | Some (f, p) \<Rightarrow> let bs = take n (drop p (files w f))
        in ((int (length bs), bs), w\<lparr>places := (places w)(fd \<mapsto> (f, p + length bs))\<rparr>)),
     k_write = \<lambda>fd bs w. (case places w fd of None \<Rightarrow> (- 1, w) | Some (f, p) \<Rightarrow>
        (int (length bs), w\<lparr>files := (files w)(f := take p (files w f) @ bs @ drop (p + length bs) (files w f)), places := (places w)(fd \<mapsto> (f, p + length bs))\<rparr>)),
     k_pread = \<lambda>fd n off w. ((- 1, []), w), k_pwrite = \<lambda>fd bs off w. (- 1, w), k_writev = \<lambda>fd bs w. (- 1, w), k_readv = \<lambda>fd ns w. ((- 1, []), w),
     k_getfl = \<lambda>fd w. status_flags w fd AND 0x7FFFFFFF, k_setfl = \<lambda>fd v w. (0, w\<lparr>status_flags := (status_flags w)(fd := v)\<rparr>),
     k_open = \<lambda>f fl m w. (\<bar>next_fd w\<bar>, w\<lparr>places := (places w)(\<bar>next_fd w\<bar> \<mapsto> (f, 0)), next_fd := \<bar>next_fd w\<bar> + 1\<rparr>),
     k_dup = \<lambda>fd w. (- 1, w), k_dup2 = \<lambda>a b w. (- 1, w), k_flock = \<lambda>fd x w. (0, w), k_syncfs = \<lambda>fd w. (0, w),
     k_ftruncate = \<lambda>fd n w. (case places w fd of None \<Rightarrow> (- 1, w) | Some (f, p) \<Rightarrow> (0, w\<lparr>files := (files w)(f := take n (files w f))\<rparr>)),
     k_tmpfile = \<lambda>w. (None, w), k_setlk = \<lambda>fd a b c d e w. (0, w), k_lockf = \<lambda>fd c w. (0, w), k_errno = \<lambda>w. 0\<rparr>"

definition empty_disk :: disk where
  "empty_disk = \<lparr>files = \<lambda>_. [], places = \<lambda>_. None, next_fd = 3, status_flags = \<lambda>_. 2\<rparr>"

lemma small_disk_file_law: "file_law small_disk files places"
  unfolding file_law_def by (intro conjI allI impI; force simp: small_disk_def Let_def)


lemma flag_bits: "(v AND 0x7FFFFFFF) AND O_NONBLOCK = v AND (O_NONBLOCK :: 32 word)" "0 \<le> sint (v AND 0x7FFFFFFF :: 32 word)"
proof -
  have "(0x7FFFFFFF :: 32 word) AND O_NONBLOCK = O_NONBLOCK" by (simp add: O_NONBLOCK_def)
  then show "(v AND 0x7FFFFFFF) AND O_NONBLOCK = v AND O_NONBLOCK" by (simp add: and.assoc)
  have "\<not> bit (v AND 0x7FFFFFFF) 31" by (simp add: bit_simps)
  then show "0 \<le> sint (v AND 0x7FFFFFFF)" by (simp add: sint_uint signed_take_bit_nonnegative_iff bit_uint_iff)
qed

theorem SetNonblocked_sticks_witness:
  "\<exists>w1 w2. SetNonblocked small_disk True (fd_in_of 3, empty_disk) = (AOk ERR_OK, fd_in_of 3, w1) \<and>
     IsNonblocked small_disk (fd_in_of 3, w1) = (AOk True, fd_in_of 3, w1) \<and>
     SetNonblocked small_disk False (fd_in_of 3, w1) = (AOk SYS_FAILED, fd_in_of 3, w2) \<and>
     IsNonblocked small_disk (fd_in_of 3, w2) = (AOk True, fd_in_of 3, w2)"
proof (rule SetNonblocked_sticks)
  show "fl_law small_disk (m_fd (fd_in_of 3))" by (simp add: fl_law_def small_disk_def flag_bits)
  show "\<not> IsInvalid (fd_in_of 3)" by (simp add: IsInvalid_def fd_in_of_def invalid_fd_def)
  show "IsNonblocked small_disk (fd_in_of 3, empty_disk) = (AOk False, fd_in_of 3, empty_disk)"
    by (simp add: IsNonblocked_def fd_defs small_disk_def flag_bits) (simp add: empty_disk_def O_NONBLOCK_def)
qed

end
