(* ===== verification/Sockets.thy ===== *)
theory Sockets
  imports Descriptors Net_Addr
begin

text \<open>
  Sockets: \<^verbatim>\<open>src/src/hsocket.h\<close>, \<^verbatim>\<open>hsocket.cpp\<close> and the calls on sockets of \<^verbatim>\<open>HIp4Addr\<close> in \<^verbatim>\<open>haddr.cpp\<close>.

  A socket is a descriptor of \<open>Descriptors\<close>; its class is an argument where a virtual function is called. The socket calls of the kernel
  are a parameter; outputs that a failed call leaves alone are given as empty. \<^verbatim>\<open>FD_SET\<close> writes outside of the set for a descriptor of 1024 or more: such a call is stuck. \<^verbatim>\<open>select\<close> leaves the
  remaining time in its argument.
\<close>

subsection \<open>State\<close>

datatype SOCK_TYPE = ST_NORMAL | ST_TCP | ST_UDP | ST_UNIX | ST_END

record 'w net_kernel =
  k_fd :: "'w fd_kernel"
  k_send :: "int \<Rightarrow> HMEM \<Rightarrow> int \<Rightarrow> 'w \<Rightarrow> int \<times> 'w"
  k_recv :: "int \<Rightarrow> nat \<Rightarrow> int \<Rightarrow> 'w \<Rightarrow> (int \<times> HMEM) \<times> 'w"
  k_select_w :: "int \<Rightarrow> HMicroTime \<Rightarrow> 'w \<Rightarrow> (int \<times> HMicroTime) \<times> 'w"
  k_select_r :: "int \<Rightarrow> HMicroTime \<Rightarrow> 'w \<Rightarrow> (int \<times> HMicroTime) \<times> 'w"
  k_socket :: "nat \<Rightarrow> nat \<Rightarrow> 'w \<Rightarrow> int \<times> 'w"
  k_bind :: "int \<Rightarrow> sockaddr_in \<Rightarrow> 'w \<Rightarrow> int \<times> 'w"
  k_connect :: "int \<Rightarrow> sockaddr_in \<Rightarrow> 'w \<Rightarrow> int \<times> 'w"
  k_accept :: "int \<Rightarrow> 'w \<Rightarrow> (int \<times> sockaddr_in) \<times> 'w"
  k_getpeername :: "int \<Rightarrow> 'w \<Rightarrow> (int \<times> sockaddr_in) \<times> 'w"
  k_recvfrom :: "int \<Rightarrow> nat \<Rightarrow> int \<Rightarrow> 'w \<Rightarrow> (int \<times> HMEM \<times> sockaddr_in) \<times> 'w"
  k_sendto :: "int \<Rightarrow> HMEM \<Rightarrow> int \<Rightarrow> sockaddr_in \<Rightarrow> 'w \<Rightarrow> int \<times> 'w"
  k_shutdown :: "int \<Rightarrow> int \<Rightarrow> 'w \<Rightarrow> int \<times> 'w"
  k_listen :: "int \<Rightarrow> nat \<Rightarrow> 'w \<Rightarrow> int \<times> 'w"
  k_setsockopt :: "int \<Rightarrow> int \<Rightarrow> int \<Rightarrow> int \<Rightarrow> 'w \<Rightarrow> int \<times> 'w"
  k_getsockopt :: "int \<Rightarrow> int \<Rightarrow> int \<Rightarrow> 'w \<Rightarrow> (int \<times> int) \<times> 'w"

definition SOCKET_DEFAULT_TIMEOUT :: int where "SOCKET_DEFAULT_TIMEOUT = 1500"

definition FD_SETSIZE :: int where "FD_SETSIZE = 1024"

abbreviation IsGoodSocket :: "fd_in \<Rightarrow> bool" where "IsGoodSocket b \<equiv> \<not> IsInvalid b"

text \<open>\<^verbatim>\<open>SOCK_FD_CHECK\<close>: a bad socket throws.\<close>

definition SOCK_FD_CHECK :: "('w, 'a) fd_action \<Rightarrow> ('w, 'a) fd_action" where
  "SOCK_FD_CHECK rest = with_obj (\<lambda>b. if \<not> IsGoodSocket b then act_throw NETWORK_ERROR else rest)"

subsection \<open>Addresses\<close>

definition addr_Bind :: "'w net_kernel \<Rightarrow> sockaddr_in \<Rightarrow> ('w, RET_T) fd_action" where
  "addr_Bind K a = with_obj (\<lambda>b. act_bind (kernel (k_bind K (m_fd b) a)) (\<lambda>cb. act_ret (if cb = 0 then ERR_OK else SYS_FAILED)))"

definition addr_Connect :: "'w net_kernel \<Rightarrow> sockaddr_in \<Rightarrow> ('w, RET_T) fd_action" where
  "addr_Connect K a = with_obj (\<lambda>b. act_bind (kernel (k_connect K (m_fd b) a)) (\<lambda>cb. act_ret (if cb = 0 then ERR_OK else SYS_FAILED)))"

text \<open>\<^verbatim>\<open>Accept\<close> stores the address of the client even when it fails, and gives the client its descriptor.\<close>

definition addr_Accept :: "'w net_kernel \<Rightarrow> fd_in \<Rightarrow> fd_in \<Rightarrow> 'w \<Rightarrow> (RET_T \<times> sockaddr_in) \<times> fd_in \<times> 'w" where
  "addr_Accept K server client w = (case k_accept K (m_fd server) w of ((cb, a), w) \<Rightarrow>
     if cb > 0 then ((ERR_OK, a), SetFd cb client, w) else ((SYS_FAILED, a), client, w))"

definition addr_GetFromSocket :: "'w net_kernel \<Rightarrow> ('w, RET_T \<times> sockaddr_in) fd_action" where
  "addr_GetFromSocket K = with_obj (\<lambda>b. act_bind (kernel (k_getpeername K (m_fd b))) (\<lambda>(cb, a). act_ret (if cb = 0 then ERR_OK else SYS_FAILED, a)))"

definition addr_Recvfrom :: "'w net_kernel \<Rightarrow> nat \<Rightarrow> int \<Rightarrow> ('w, int \<times> HMEM \<times> sockaddr_in) fd_action" where
  "addr_Recvfrom K size1 flags = with_obj (\<lambda>b. kernel (k_recvfrom K (m_fd b) size1 flags))"

definition addr_Sendto :: "'w net_kernel \<Rightarrow> HMEM \<Rightarrow> int \<Rightarrow> sockaddr_in \<Rightarrow> ('w, int) fd_action" where
  "addr_Sendto K cbuf flags a = with_obj (\<lambda>b. kernel (k_sendto K (m_fd b) cbuf flags a))"

subsection \<open>Reading and writing\<close>

definition sock_GetAddrInfo :: "'w net_kernel \<Rightarrow> ('w, RET_T \<times> sockaddr_in) fd_action" where
  "sock_GetAddrInfo K = with_obj (\<lambda>b. if \<not> IsGoodSocket b then act_ret (ERR_STATUS, net_zero) else addr_GetFromSocket K)"

definition GetAddr4Info :: "(HUN \<Rightarrow> string) \<Rightarrow> 'w net_kernel \<Rightarrow> ('w, RET_T \<times> string \<times> int) fd_action" where
  "GetAddr4Info inet_ntoa K = act_bind (sock_GetAddrInfo K) (\<lambda>(ret, a). if \<not> IS_OK ret then act_ret (ret, [], 0) else act_ret (GetAddrInfo inet_ntoa a))"

definition sock_ToString :: "(HUN \<Rightarrow> string) \<Rightarrow> 'w net_kernel \<Rightarrow> ('w, string) fd_action" where
  "sock_ToString inet_ntoa K = act_bind (GetAddr4Info inet_ntoa K) (\<lambda>(ret, strIp, iPort).
     if \<not> IS_OK ret then act_throw ret else act_ret (strIp @ '':'' @ FromN iPort))"

definition sock_Send :: "'w net_kernel \<Rightarrow> HMEM \<Rightarrow> int \<Rightarrow> ('w, int) fd_action" where
  "sock_Send K buf flags = with_obj (\<lambda>b. kernel (k_send K (m_fd b) buf flags))"

definition sock_Recv :: "'w net_kernel \<Rightarrow> nat \<Rightarrow> int \<Rightarrow> ('w, int \<times> HMEM) fd_action" where
  "sock_Recv K len flags = with_obj (\<lambda>b. kernel (k_recv K (m_fd b) len flags))"

text \<open>The virtual \<^verbatim>\<open>Read\<close> and \<^verbatim>\<open>Write\<close>: the class for UDP overrides them.\<close>

definition sock_Read :: "'w net_kernel \<Rightarrow> SOCK_TYPE \<Rightarrow> nat \<Rightarrow> ('w, int \<times> HMEM) fd_action" where
  "sock_Read K ty size1 = (if ty = ST_UDP then sock_Recv K size1 0 else fd_Read (k_fd K) size1)"

definition sock_Write :: "'w net_kernel \<Rightarrow> SOCK_TYPE \<Rightarrow> HMEM \<Rightarrow> ('w, int) fd_action" where
  "sock_Write K ty buf = (if ty = ST_UDP then sock_Send K buf 0 else fd_Write (k_fd K) buf)"

text \<open>Waiting with \<^verbatim>\<open>select\<close> for one descriptor, which throws on a timeout and on a failure.\<close>

definition wait_fd :: "(int \<Rightarrow> HMicroTime \<Rightarrow> 'w \<Rightarrow> (int \<times> HMicroTime) \<times> 'w) \<Rightarrow> HMicroTime \<Rightarrow> ('w, HMicroTime) fd_action" where
  "wait_fd sel tval = with_obj (\<lambda>b. if \<not> (0 \<le> m_fd b \<and> m_fd b < FD_SETSIZE) then act_stuck
     else act_bind (kernel (sel (m_fd b) tval)) (\<lambda>(cb, tval). if cb = 0 then act_throw NETWORK_ERROR else if cb < 0 then act_throw NETWORK_ERROR else act_ret tval))"

text \<open>The loop of \<^verbatim>\<open>WriteAll\<close> and \<^verbatim>\<open>SendAll\<close>: \<open>pos\<close> is what is left of the buffer, \<open>wr\<close> the call that writes.\<close>

function send_loop :: "'w net_kernel \<Rightarrow> (HMEM \<Rightarrow> ('w, int) fd_action) \<Rightarrow> int \<Rightarrow> HMEM \<Rightarrow> HMicroTime \<Rightarrow> nat \<Rightarrow> ('w, int) fd_action" where
  "send_loop K wr timeout pos tval sent s =
     (if pos = [] then (AOk (int sent), s)
      else case (if timeout > 0 then wait_fd (k_select_w K) tval s else (AOk tval, s)) of
        (AOk tval, s) \<Rightarrow> (case wr pos s of
            (AOk this_send, s) \<Rightarrow> if this_send \<le> 0 then (AOk this_send, s)
              else send_loop K wr timeout (drop (nat this_send) pos) tval (sent + nat this_send) s
          | (AThrow e, s) \<Rightarrow> (AThrow e, s)
          | (AStuck, s) \<Rightarrow> (AStuck, s))
      | (AThrow e, s) \<Rightarrow> (AThrow e, s)
      | (AStuck, s) \<Rightarrow> (AStuck, s))"
  by pat_completeness auto
termination by (relation "measure (\<lambda>(K, wr, timeout, pos, tval, sent, s). length pos)") auto

declare send_loop.simps [simp del]

definition WriteAll :: "'w net_kernel \<Rightarrow> SOCK_TYPE \<Rightarrow> HMEM \<Rightarrow> int \<Rightarrow> ('w, int) fd_action" where
  "WriteAll K ty buf timeout = SOCK_FD_CHECK (send_loop K (sock_Write K ty) timeout buf (HMicroTime_of_msec timeout) 0)"

definition SendAll :: "'w net_kernel \<Rightarrow> HMEM \<Rightarrow> int \<Rightarrow> int \<Rightarrow> ('w, int) fd_action" where
  "SendAll K buf flags timeout = SOCK_FD_CHECK (send_loop K (\<lambda>pos. sock_Send K pos flags) timeout buf (HMicroTime_of_msec timeout) 0)"

definition ReadWithTimeOut :: "'w net_kernel \<Rightarrow> SOCK_TYPE \<Rightarrow> nat \<Rightarrow> int \<Rightarrow> ('w, int \<times> HMEM) fd_action" where
  "ReadWithTimeOut K ty nbyte timeout = SOCK_FD_CHECK
     (act_seq (if timeout > 0 then wait_fd (k_select_r K) (HMicroTime_of_msec timeout) else act_ret (HMicroTime_of_msec timeout)) (sock_Read K ty nbyte))"

definition RecvWithTimeOut :: "'w net_kernel \<Rightarrow> nat \<Rightarrow> int \<Rightarrow> int \<Rightarrow> ('w, int \<times> HMEM) fd_action" where
  "RecvWithTimeOut K len flags timeout = SOCK_FD_CHECK
     (act_seq (if timeout > 0 then wait_fd (k_select_r K) (HMicroTime_of_msec timeout) else act_ret (HMicroTime_of_msec timeout)) (sock_Recv K len flags))"

text \<open>The loop of \<^verbatim>\<open>ReadAllWithTimeout\<close>: \<open>acc\<close> is what has been stored, \<open>n\<close> the room that is left; a kernel that stores more is outside of the buffer.\<close>

function read_all_loop :: "'w net_kernel \<Rightarrow> SOCK_TYPE \<Rightarrow> int \<Rightarrow> nat \<Rightarrow> HMEM \<Rightarrow> ('w, HMEM) fd_action" where
  "read_all_loop K ty timeout n acc s =
     (case ReadWithTimeOut K ty n timeout s of
        (AOk (cb, bs), s) \<Rightarrow> if cb \<le> 0 then (AOk acc, s)
          else if nat cb > n then (AStuck, s)
          else read_all_loop K ty timeout (n - nat cb) (acc @ take (nat cb) bs) s
      | (AThrow e, s) \<Rightarrow> (AOk acc, s)
      | (AStuck, s) \<Rightarrow> (AStuck, s))"
  by pat_completeness auto
termination by (relation "measure (\<lambda>(K, ty, timeout, n, acc, s). n)") auto

declare read_all_loop.simps [simp del]

definition ReadAllWithTimeout :: "'w net_kernel \<Rightarrow> SOCK_TYPE \<Rightarrow> nat \<Rightarrow> int \<Rightarrow> ('w, int \<times> HMEM) fd_action" where
  "ReadAllWithTimeout K ty nbyte timeout = act_bind (read_all_loop K ty timeout nbyte []) (\<lambda>acc. act_ret (int (length acc), acc))"


subsection \<open>Options and connections\<close>

definition SOL_SOCKET :: int where "SOL_SOCKET = 1"
definition SOL_TCP :: int where "SOL_TCP = 6"
definition SO_REUSEADDR :: int where "SO_REUSEADDR = 2"
definition SO_ERROR :: int where "SO_ERROR = 4"
definition SO_SNDBUF :: int where "SO_SNDBUF = 7"
definition SO_KEEPALIVE :: int where "SO_KEEPALIVE = 9"
definition SO_REUSEPORT :: int where "SO_REUSEPORT = 15"
definition TCP_NODELAY :: int where "TCP_NODELAY = 1"
definition TCP_KEEPIDLE :: int where "TCP_KEEPIDLE = 4"
definition TCP_KEEPINTVL :: int where "TCP_KEEPINTVL = 5"
definition TCP_KEEPCNT :: int where "TCP_KEEPCNT = 6"
definition EHOSTUNREACH :: int where "EHOSTUNREACH = 113"

text \<open>The options here are integers.\<close>

definition SetSockOpt :: "'w net_kernel \<Rightarrow> int \<Rightarrow> int \<Rightarrow> int \<Rightarrow> ('w, RET_T) fd_action" where
  "SetSockOpt K optName val level = with_obj (\<lambda>b. act_bind (kernel (k_setsockopt K (m_fd b) level optName val)) (\<lambda>cb.
     act_ret (if cb = 0 then ERR_OK else SYS_FAILED)))"

definition GetSockOpt :: "'w net_kernel \<Rightarrow> int \<Rightarrow> int \<Rightarrow> ('w, RET_T \<times> int) fd_action" where
  "GetSockOpt K optName level = with_obj (\<lambda>b. act_bind (kernel (k_getsockopt K (m_fd b) level optName)) (\<lambda>(cb, val).
     act_ret (if cb = 0 then ERR_OK else SYS_FAILED, val)))"

definition SetReuseAddr :: "'w net_kernel \<Rightarrow> ('w, RET_T) fd_action" where
  "SetReuseAddr K = SetSockOpt K SO_REUSEADDR 1 SOL_SOCKET"

definition SetReusePort :: "'w net_kernel \<Rightarrow> ('w, RET_T) fd_action" where
  "SetReusePort K = SetSockOpt K SO_REUSEPORT 1 SOL_SOCKET"

definition GetSendBufferLength :: "'w net_kernel \<Rightarrow> ('w, RET_T \<times> int) fd_action" where
  "GetSendBufferLength K = GetSockOpt K SO_SNDBUF SOL_SOCKET"

definition SetupSendBufLength :: "'w net_kernel \<Rightarrow> int \<Rightarrow> ('w, RET_T) fd_action" where
  "SetupSendBufLength K buf_len = SetSockOpt K SO_SNDBUF buf_len SOL_SOCKET"

definition SOCK_STREAM :: nat where "SOCK_STREAM = 1"
definition SOCK_DGRAM :: nat where "SOCK_DGRAM = 2"
definition AF_UNIX :: nat where "AF_UNIX = 1"

definition sock_open :: "'w net_kernel \<Rightarrow> nat \<Rightarrow> nat \<Rightarrow> ('w, RET_T) fd_action" where
  "sock_open K domain ty = act_seq (Close (k_fd K)) (act_bind (kernel (k_socket K domain ty)) (\<lambda>sock.
     if sock > 0 then act_seq (set_obj (SetFd sock)) (act_ret ERR_OK) else act_ret SYS_FAILED))"

definition Tcp_Init :: "'w net_kernel \<Rightarrow> ('w, RET_T) fd_action" where
  "Tcp_Init K = sock_open K AF_INET SOCK_STREAM"

definition Udp_Init :: "'w net_kernel \<Rightarrow> ('w, RET_T) fd_action" where
  "Udp_Init K = sock_open K AF_INET SOCK_DGRAM"

definition Unix_Init :: "'w net_kernel \<Rightarrow> ('w, RET_T) fd_action" where
  "Unix_Init K = sock_open K AF_UNIX SOCK_DGRAM"

definition ShutDown :: "'w net_kernel \<Rightarrow> int \<Rightarrow> ('w, RET_T) fd_action" where
  "ShutDown K how = with_obj (\<lambda>b. act_bind (kernel (k_shutdown K (m_fd b) how)) (\<lambda>cb. act_ret (if cb = 0 then ERR_OK else SYS_FAILED)))"

definition Listen :: "'w net_kernel \<Rightarrow> nat \<Rightarrow> ('w, RET_T) fd_action" where
  "Listen K count1 = with_obj (\<lambda>b. act_bind (kernel (k_listen K (m_fd b) count1)) (\<lambda>cb. act_ret (if cb = 0 then ERR_OK else SYS_FAILED)))"

text \<open>All four options depend on \<^verbatim>\<open>keepAlive\<close>.\<close>

definition SetKeepAlive :: "'w net_kernel \<Rightarrow> int \<Rightarrow> int \<Rightarrow> int \<Rightarrow> int \<Rightarrow> ('w, RET_T) fd_action" where
  "SetKeepAlive K keepAlive keepIdle keepInterval keepCount = with_obj (\<lambda>b. if \<not> IsGoodSocket b then act_ret ERR_STATUS
     else act_ok (if keepAlive \<ge> 0 then SetSockOpt K SO_KEEPALIVE keepAlive SOL_SOCKET else act_ret ERR_OK)
     (act_ok (if keepAlive \<ge> 0 then SetSockOpt K TCP_KEEPIDLE keepIdle SOL_TCP else act_ret ERR_OK)
     (act_ok (if keepAlive \<ge> 0 then SetSockOpt K TCP_KEEPINTVL keepInterval SOL_TCP else act_ret ERR_OK)
     (act_ok (if keepAlive \<ge> 0 then SetSockOpt K TCP_KEEPCNT keepCount SOL_TCP else act_ret ERR_OK) (act_ret ERR_OK)))))"

definition SetupNodelay :: "'w net_kernel \<Rightarrow> int \<Rightarrow> ('w, RET_T) fd_action" where
  "SetupNodelay K val = SetSockOpt K TCP_NODELAY val SOL_TCP"

text \<open>Waiting for the connection: \<^verbatim>\<open>select\<close> is repeated while it is interrupted; \<open>None\<close> as the number is another failure.\<close>

partial_function (option) select_again :: "'w net_kernel \<Rightarrow> int \<Rightarrow> HMicroTime \<Rightarrow> 'w \<Rightarrow> ((int option \<times> HMicroTime) \<times> 'w) option" where
  "select_again K fd tval w = (case k_select_w K fd tval w of ((cb, tval), w) \<Rightarrow>
     if cb < 0 then (if k_errno (k_fd K) w = EINTR then select_again K fd tval w else Some ((None, tval), w)) else Some ((Some cb, tval), w))"

text \<open>\<^verbatim>\<open>errno\<close> after the \<^verbatim>\<open>select\<close> is the one \<^verbatim>\<open>connect\<close> left behind.\<close>

partial_function (option) connect_loop :: "'w net_kernel \<Rightarrow> sockaddr_in \<Rightarrow> fd_in \<Rightarrow> HMicroTime \<Rightarrow> 'w \<Rightarrow> ((RET_T, RET_T) act_out \<times> 'w) option" where
  "connect_loop K a b tval w = (case k_connect K (m_fd b) a w of (cb, w) \<Rightarrow>
     if cb = 0 then Some (AOk ERR_OK, w)
     else if \<not> (0 \<le> m_fd b \<and> m_fd b < FD_SETSIZE) then Some (AStuck, w)
     else (case select_again K (m_fd b) tval w of None \<Rightarrow> None
       | Some ((None, tval), w) \<Rightarrow> Some (AOk SYS_FAILED, w)
       | Some ((Some cb, tval), w) \<Rightarrow>
           if cb = 0 then Some (AOk TIME_OUT, w)
           else if k_errno (k_fd K) w = EHOSTUNREACH then Some (AOk NETWORK_ERROR, w)
           else (case k_getsockopt K (m_fd b) SOL_SOCKET SO_ERROR w of ((r, iError), w) \<Rightarrow>
             if (if r = 0 then iError else - 1) \<noteq> 0 then Some (AOk NETWORK_ERROR, w) else connect_loop K a b tval w)))"

definition ConnectWithTimeOut :: "'w net_kernel \<Rightarrow> sockaddr_in \<Rightarrow> int \<Rightarrow> fd_in \<Rightarrow> 'w \<Rightarrow> ((RET_T, RET_T) act_out \<times> 'w) option" where
  "ConnectWithTimeOut K a timeout b w =
     (if \<not> IsGoodSocket b then Some (AOk ERR_STATUS, w)
      else let timeout = (if timeout \<le> 0 then SOCKET_DEFAULT_TIMEOUT else timeout) in
      (case IsNonblocked (k_fd K) (b, w) of
         (AOk nonblocked, _, w) \<Rightarrow>
           (let w = (if nonblocked then w else snd (snd (SetNonblocked (k_fd K) True (b, w)))) in
            map_option (\<lambda>(out, w). (out, if nonblocked then w else snd (snd (SetNonblocked (k_fd K) False (b, w)))))
              (connect_loop K a b (HMicroTime_of_msec timeout) w))
       | (AThrow e, _, w) \<Rightarrow> Some (AThrow e, w)
       | (AStuck, _, w) \<Rightarrow> Some (AStuck, w)))"


subsection \<open>Sending\<close>

definition good_fd :: "fd_in \<Rightarrow> bool" where
  "good_fd b \<longleftrightarrow> 0 \<le> m_fd b \<and> m_fd b < FD_SETSIZE"

lemma good_fd_valid: "good_fd b \<Longrightarrow> \<not> IsInvalid b"
  by (auto simp: good_fd_def IsInvalid_def invalid_fd_def)

lemmas net_defs = fd_defs SOCK_FD_CHECK_def

text \<open>What is sent goes to \<open>out\<close>: a write takes a prefix of its buffer, or nothing when it returns no positive number; \<^verbatim>\<open>select\<close> sends nothing.\<close>

definition write_law :: "'w net_kernel \<Rightarrow> (HMEM \<Rightarrow> ('w, int) fd_action) \<Rightarrow> fd_in \<Rightarrow> ('w \<Rightarrow> HMEM) \<Rightarrow> bool" where
  "write_law K wr b out \<longleftrightarrow>
     (\<forall>pos w. \<exists>r w'. wr pos (b, w) = (AOk r, b, w') \<and> r \<le> int (length pos) \<and> out w' = out w @ take (nat r) pos) \<and>
     (\<forall>tval w. out (snd (k_select_w K (m_fd b) tval w)) = out w)"

lemma wait_run:
  assumes "good_fd b" "k_select_w K (m_fd b) tval w = ((cb, tv), w')"
  shows "wait_fd (k_select_w K) tval (b, w) = (if cb > 0 then AOk tv else AThrow NETWORK_ERROR, b, w')"
  using assms by (simp add: wait_fd_def net_defs good_fd_def)

lemma send_loop_spec:
  assumes "write_law K wr b out" "good_fd b"
  shows "\<exists>res m w'. send_loop K wr timeout pos tval sent (b, w) = (res, b, w') \<and> m \<le> length pos \<and> out w' = out w @ take m pos \<and>
     (res = AOk (int (sent + length pos)) \<and> m = length pos \<or> (\<exists>r \<le> 0. res = AOk r) \<or> res = AThrow NETWORK_ERROR)"
proof (induction "length pos" arbitrary: pos tval sent w rule: less_induct)
  case less
  show ?case
  proof (cases "pos = []")
    case True
    then show ?thesis by (intro exI [of _ "AOk (int sent)"] exI [of _ 0] exI [of _ w]) (simp add: send_loop.simps)
  next
    case False
    obtain cb tv w1 where k: "k_select_w K (m_fd b) tval w = ((cb, tv), w1)" by (cases "k_select_w K (m_fd b) tval w") fastforce
    define go where "go = (timeout > 0 \<longrightarrow> cb > 0)"
    define w2 where "w2 = (if timeout > 0 then w1 else w)"
    define tv2 where "tv2 = (if timeout > 0 then tv else tval)"
    have o2: "out w2 = out w" using assms(1) k by (auto simp: write_law_def w2_def dest!: spec [of _ tval] spec [of _ w])
    have waiting: "(if timeout > 0 then wait_fd (k_select_w K) tval (b, w) else (AOk tval, b, w)) = (if go then AOk tv2 else AThrow NETWORK_ERROR, b, w2)"
      using wait_run [OF assms(2) k] by (simp add: go_def w2_def tv2_def)
    show ?thesis
    proof (cases go)
      case nogo: False
      then have "send_loop K wr timeout pos tval sent (b, w) = (AThrow NETWORK_ERROR, b, w2)"
        using waiting False by (subst send_loop.simps) simp
      with o2 show ?thesis by (intro exI [of _ "AThrow NETWORK_ERROR"] exI [of _ 0] exI [of _ w2]) simp
    next
      case True
      obtain r w3 where wr: "wr pos (b, w2) = (AOk r, b, w3)" "r \<le> int (length pos)" "out w3 = out w2 @ take (nat r) pos"
        using assms(1) unfolding write_law_def by meson
      have step: "send_loop K wr timeout pos tval sent (b, w) =
          (if r \<le> 0 then (AOk r, b, w3) else send_loop K wr timeout (drop (nat r) pos) tv2 (sent + nat r) (b, w3))"
        using waiting False True wr(1) by (subst send_loop.simps) simp
      show ?thesis
      proof (cases "r \<le> 0")
        case True
        with step wr(3) o2 show ?thesis by (intro exI [of _ "AOk r"] exI [of _ 0] exI [of _ w3]) simp
      next
        case pos_r: False
        then have "length (drop (nat r) pos) < length pos" using False by (simp add: length_greater_0_conv [symmetric] del: length_greater_0_conv)
        from less.hyps [OF this, of tv2 "sent + nat r" w3] obtain res m w4 where ih:
          "send_loop K wr timeout (drop (nat r) pos) tv2 (sent + nat r) (b, w3) = (res, b, w4)" "m \<le> length (drop (nat r) pos)"
          "out w4 = out w3 @ take m (drop (nat r) pos)"
          "res = AOk (int (sent + nat r + length (drop (nat r) pos))) \<and> m = length (drop (nat r) pos) \<or> (\<exists>r \<le> 0. res = AOk r) \<or> res = AThrow NETWORK_ERROR" by blast
        have n: "nat r \<le> length pos" using wr(2) by simp
        have "out w4 = out w @ take (nat r + m) pos" using ih(3) wr(3) o2 by (simp add: take_add)
        moreover have "nat r + m \<le> length pos" using ih(2) n by simp
        ultimately show ?thesis using step pos_r ih(1,4) n
          by (intro exI [of _ res] exI [of _ "nat r + m"] exI [of _ w4]) auto
      qed
    qed
  qed
qed

text \<open>C64: \<^verbatim>\<open>WriteAll\<close> ends, sends a prefix of the buffer in order, and returns its length only when it has sent all of it; otherwise it returns what
  the last write returned, or throws when the socket does not become ready in time.\<close>

theorem WriteAll_sends_prefix:
  assumes "write_law K (sock_Write K ty) b out" "good_fd b"
  shows "\<exists>res m w'. WriteAll K ty buf timeout (b, w) = (res, b, w') \<and> m \<le> length buf \<and> out w' = out w @ take m buf \<and>
     (res = AOk (int (length buf)) \<and> m = length buf \<or> (\<exists>r \<le> 0. res = AOk r) \<or> res = AThrow NETWORK_ERROR)"
  using send_loop_spec [OF assms, of timeout buf "HMicroTime_of_msec timeout" 0 w] good_fd_valid [OF assms(2)] by (simp add: WriteAll_def net_defs)


subsection \<open>From one end to the other\<close>

text \<open>Two ends of a connection that stays up: \<open>chan\<close> is what has been written at \<open>a\<close> and not yet been read at \<open>b\<close>. A write takes something, a read gives
  something when there is something, and \<^verbatim>\<open>select\<close> says so.\<close>

definition stream_law :: "'w net_kernel \<Rightarrow> fd_in \<Rightarrow> fd_in \<Rightarrow> ('w \<Rightarrow> HMEM) \<Rightarrow> bool" where
  "stream_law K a b chan \<longleftrightarrow>
     (\<forall>tval w. \<exists>cb tv w'. k_select_w K (m_fd a) tval w = ((cb, tv), w') \<and> 0 < cb \<and> chan w' = chan w) \<and>
     (\<forall>pos w. pos \<noteq> [] \<longrightarrow> (\<exists>r w'. k_write (k_fd K) (m_fd a) pos w = (r, w') \<and> 0 < r \<and> r \<le> int (length pos) \<and> chan w' = chan w @ take (nat r) pos)) \<and>
     (\<forall>tval w. \<exists>cb tv w'. k_select_r K (m_fd b) tval w = ((cb, tv), w') \<and> (chan w \<noteq> [] \<longrightarrow> 0 < cb) \<and> chan w' = chan w) \<and>
     (\<forall>n w. \<exists>r w'. k_read (k_fd K) (m_fd b) n w = ((r, take (nat r) (chan w)), w') \<and> r \<le> int n \<and> r \<le> int (length (chan w)) \<and>
        (chan w \<noteq> [] \<longrightarrow> 0 < n \<longrightarrow> 0 < r) \<and> chan w' = drop (nat r) (chan w))"

lemma stream_select_w:
  assumes "stream_law K a b chan"
  obtains cb tv w' where "k_select_w K (m_fd a) tval w = ((cb, tv), w')" "0 < cb" "chan w' = chan w"
  using assms unfolding stream_law_def by meson

lemma stream_write:
  assumes "stream_law K a b chan" "pos \<noteq> []"
  obtains r w' where "k_write (k_fd K) (m_fd a) pos w = (r, w')" "0 < r" "r \<le> int (length pos)" "chan w' = chan w @ take (nat r) pos"
  using assms unfolding stream_law_def by meson

lemma stream_select_r:
  assumes "stream_law K a b chan"
  obtains cb tv w' where "k_select_r K (m_fd b) tval w = ((cb, tv), w')" "chan w \<noteq> [] \<Longrightarrow> 0 < cb" "chan w' = chan w"
  using assms unfolding stream_law_def by meson

lemma stream_read:
  assumes "stream_law K a b chan"
  obtains r w' where "k_read (k_fd K) (m_fd b) n w = ((r, take (nat r) (chan w)), w')" "r \<le> int n" "r \<le> int (length (chan w))"
    "chan w \<noteq> [] \<Longrightarrow> 0 < n \<Longrightarrow> 0 < r" "chan w' = drop (nat r) (chan w)"
  using assms unfolding stream_law_def by meson

lemma send_loop_all:
  assumes "stream_law K a b chan" "good_fd a"
  shows "\<exists>w'. send_loop K (sock_Write K ST_TCP) timeout pos tval sent (a, w) = (AOk (int (sent + length pos)), a, w') \<and> chan w' = chan w @ pos"
proof (induction "length pos" arbitrary: pos tval sent w rule: less_induct)
  case less
  show ?case
  proof (cases "pos = []")
    case True
    then show ?thesis by (simp add: send_loop.simps)
  next
    case False
    obtain cb tv w1 where k: "k_select_w K (m_fd a) tval w = ((cb, tv), w1)" "0 < cb" "chan w1 = chan w" by (rule stream_select_w [OF assms(1)])
    define w2 where "w2 = (if timeout > 0 then w1 else w)"
    define tv2 where "tv2 = (if timeout > 0 then tv else tval)"
    have waiting: "(if timeout > 0 then wait_fd (k_select_w K) tval (a, w) else (AOk tval, a, w)) = (AOk tv2, a, w2)"
      using wait_run [OF assms(2) k(1)] k(2) by (simp add: w2_def tv2_def)
    obtain r w3 where wr: "k_write (k_fd K) (m_fd a) pos w2 = (r, w3)" "0 < r" "r \<le> int (length pos)" "chan w3 = chan w2 @ take (nat r) pos"
      by (rule stream_write [OF assms(1) False])
    have step: "send_loop K (sock_Write K ST_TCP) timeout pos tval sent (a, w) =
        send_loop K (sock_Write K ST_TCP) timeout (drop (nat r) pos) tv2 (sent + nat r) (a, w3)"
      using waiting False wr(1,2) good_fd_valid [OF assms(2)] by (subst send_loop.simps) (simp add: sock_Write_def fd_Write_def net_defs)
    have "length (drop (nat r) pos) < length pos" using False wr(2) by (simp add: length_greater_0_conv [symmetric] del: length_greater_0_conv)
    from less.hyps [OF this, of tv2 "sent + nat r" w3] obtain w4 where
      "send_loop K (sock_Write K ST_TCP) timeout (drop (nat r) pos) tv2 (sent + nat r) (a, w3) = (AOk (int (sent + nat r + length (drop (nat r) pos))), a, w4)"
      "chan w4 = chan w3 @ drop (nat r) pos" by blast
    then show ?thesis using step wr(3,4) k(3) by (intro exI [of _ w4]) (auto simp: w2_def)
  qed
qed

lemma ReadWithTimeOut_run:
  assumes "stream_law K a b chan" "good_fd b"
  shows "\<exists>w'. (ReadWithTimeOut K ST_TCP n timeout (b, w) = (AThrow NETWORK_ERROR, b, w') \<and> chan w = [] \<and> chan w' = []) \<or>
     (\<exists>r. ReadWithTimeOut K ST_TCP n timeout (b, w) = (AOk (r, take (nat r) (chan w)), b, w') \<and> r \<le> int n \<and> r \<le> int (length (chan w)) \<and>
        (chan w \<noteq> [] \<longrightarrow> 0 < n \<longrightarrow> 0 < r) \<and> chan w' = drop (nat r) (chan w))"
proof -
  obtain cb tv w1 where k: "k_select_r K (m_fd b) (HMicroTime_of_msec timeout) w = ((cb, tv), w1)" "chan w \<noteq> [] \<Longrightarrow> 0 < cb" "chan w1 = chan w"
    by (rule stream_select_r [OF assms(1)]) blast
  define w2 where "w2 = (if timeout > 0 then w1 else w)"
  have c2: "chan w2 = chan w" using k(3) by (simp add: w2_def)
  obtain r w3 where rd: "k_read (k_fd K) (m_fd b) n w2 = ((r, take (nat r) (chan w2)), w3)" "r \<le> int n" "r \<le> int (length (chan w2))"
    "chan w2 \<noteq> [] \<Longrightarrow> 0 < n \<Longrightarrow> 0 < r" "chan w3 = drop (nat r) (chan w2)" by (rule stream_read [OF assms(1)]) blast
  note v = good_fd_valid [OF assms(2)] and fd = assms(2) [unfolded good_fd_def]
  show ?thesis
  proof (cases "timeout > 0 \<and> \<not> 0 < cb")
    case True
    then have "ReadWithTimeOut K ST_TCP n timeout (b, w) = (AThrow NETWORK_ERROR, b, w1)"
      using k(1) v fd by (simp add: ReadWithTimeOut_def wait_fd_def net_defs)
    then show ?thesis using True k(2,3) by (intro exI [of _ w1]) auto
  next
    case False
    then have "ReadWithTimeOut K ST_TCP n timeout (b, w) = (AOk (r, take (nat r) (chan w)), b, w3)"
      using k(1) v fd rd(1) c2 by (auto simp: ReadWithTimeOut_def wait_fd_def sock_Read_def fd_Read_def net_defs w2_def)
    then show ?thesis using rd(2-) c2 by (intro exI [of _ w3]) auto
  qed
qed

lemma read_all_loop_run:
  assumes "stream_law K a b chan" "good_fd b" "n \<le> length (chan w)"
  shows "\<exists>w'. read_all_loop K ST_TCP timeout n acc (b, w) = (AOk (acc @ take n (chan w)), b, w') \<and> chan w' = drop n (chan w)"
  using assms(3)
proof (induction n arbitrary: acc w rule: less_induct)
  case (less n)
  from ReadWithTimeOut_run [OF assms(1,2), of n timeout w] obtain w1 r where
    "ReadWithTimeOut K ST_TCP n timeout (b, w) = (AThrow NETWORK_ERROR, b, w1) \<and> chan w = [] \<and> chan w1 = [] \<or>
     ReadWithTimeOut K ST_TCP n timeout (b, w) = (AOk (r, take (nat r) (chan w)), b, w1) \<and> r \<le> int n \<and> r \<le> int (length (chan w)) \<and>
        (chan w \<noteq> [] \<longrightarrow> 0 < n \<longrightarrow> 0 < r) \<and> chan w1 = drop (nat r) (chan w)" by blast
  then consider (thrown) "ReadWithTimeOut K ST_TCP n timeout (b, w) = (AThrow NETWORK_ERROR, b, w1)" "chan w = []" "chan w1 = []"
    | (got) "ReadWithTimeOut K ST_TCP n timeout (b, w) = (AOk (r, take (nat r) (chan w)), b, w1)" "r \<le> int n" "r \<le> int (length (chan w))"
        "chan w \<noteq> [] \<Longrightarrow> 0 < n \<Longrightarrow> 0 < r" "chan w1 = drop (nat r) (chan w)" by blast
  then show ?case
  proof cases
    case thrown
    then show ?thesis using less.prems by (intro exI [of _ w1]) (simp add: read_all_loop.simps)
  next
    case got
    show ?thesis
    proof (cases "r \<le> 0")
      case True
      then have "n = 0" using got(4) less.prems by (cases "chan w = []"; cases "n = 0") simp_all
      with True got(1,5) show ?thesis by (intro exI [of _ w1]) (simp add: read_all_loop.simps)
    next
      case False
      have step: "read_all_loop K ST_TCP timeout n acc (b, w) = read_all_loop K ST_TCP timeout (n - nat r) (acc @ take (nat r) (chan w)) (b, w1)"
      proof -
        have "\<not> n < nat r" using got(2) by simp
        then show ?thesis using False got(1) by (subst read_all_loop.simps) simp
      qed
      have "n - nat r < n" "n - nat r \<le> length (chan w1)" using False got(2,3,5) less.prems by auto
      from less.IH [OF this] obtain w2 where
        "read_all_loop K ST_TCP timeout (n - nat r) (acc @ take (nat r) (chan w)) (b, w1) =
           (AOk ((acc @ take (nat r) (chan w)) @ take (n - nat r) (chan w1)), b, w2)" "chan w2 = drop (n - nat r) (chan w1)" by blast
      moreover have "take (nat r) (chan w) @ take (n - nat r) (drop (nat r) (chan w)) = take n (chan w)"
        using got(2) by (metis le_add_diff_inverse nat_le_iff take_add)
      ultimately show ?thesis using step got(2,5) by (intro exI [of _ w2]) (simp add: le_add_diff_inverse2 nat_le_iff)
    qed
  qed
qed



subsection \<open>Connecting\<close>

abbreviation nb :: "'w net_kernel \<Rightarrow> fd_in \<Rightarrow> 'w \<Rightarrow> 32 word" where
  "nb K b w \<equiv> nb_bit (k_fd K) b w"

text \<open>An attempt that has to be waited for and then reports no error; the connection is there at the attempt number \<open>n\<close>.\<close>

definition in_progress :: "'w net_kernel \<Rightarrow> sockaddr_in \<Rightarrow> fd_in \<Rightarrow> 'w \<Rightarrow> 'w \<Rightarrow> bool" where
  "in_progress K a b w w' \<longleftrightarrow> (\<exists>cb w1. k_connect K (m_fd b) a w = (cb, w1) \<and> cb \<noteq> 0 \<and>
     (\<forall>tval. \<exists>cb tv w2. k_select_w K (m_fd b) tval w1 = ((cb, tv), w2) \<and> 0 < cb \<and> k_errno (k_fd K) w2 \<noteq> EHOSTUNREACH \<and>
        k_getsockopt K (m_fd b) SOL_SOCKET SO_ERROR w2 = ((0, 0), w')))"

primrec connects :: "'w net_kernel \<Rightarrow> sockaddr_in \<Rightarrow> fd_in \<Rightarrow> nat \<Rightarrow> 'w \<Rightarrow> bool" where
  "connects K a b 0 w \<longleftrightarrow> fst (k_connect K (m_fd b) a w) = 0"
| "connects K a b (Suc n) w \<longleftrightarrow> (\<exists>w'. in_progress K a b w w' \<and> connects K a b n w')"

definition flags_kept :: "'w net_kernel \<Rightarrow> sockaddr_in \<Rightarrow> fd_in \<Rightarrow> bool" where
  "flags_kept K a b \<longleftrightarrow> (\<forall>w. nb K b (snd (k_connect K (m_fd b) a w)) = nb K b w) \<and>
     (\<forall>tval w. nb K b (snd (k_select_w K (m_fd b) tval w)) = nb K b w) \<and>
     (\<forall>w. nb K b (snd (k_getsockopt K (m_fd b) SOL_SOCKET SO_ERROR w)) = nb K b w)"

lemma flags_keptD:
  assumes "flags_kept K a b"
  shows "k_connect K (m_fd b) a w = (cb, w') \<Longrightarrow> nb K b w' = nb K b w" "k_select_w K (m_fd b) tval w = (x, w') \<Longrightarrow> nb K b w' = nb K b w"
    "k_getsockopt K (m_fd b) SOL_SOCKET SO_ERROR w = (y, w') \<Longrightarrow> nb K b w' = nb K b w"
  using assms unfolding flags_kept_def by (metis snd_conv)+

lemma connect_step:
  assumes "in_progress K a b w w'" "good_fd b"
  shows "\<exists>tval'. connect_loop K a b tval w = connect_loop K a b tval' w'"
proof -
  obtain cb w1 where c: "k_connect K (m_fd b) a w = (cb, w1)" "cb \<noteq> 0"
    "\<And>tval. \<exists>cb tv w2. k_select_w K (m_fd b) tval w1 = ((cb, tv), w2) \<and> 0 < cb \<and> k_errno (k_fd K) w2 \<noteq> EHOSTUNREACH \<and>
        k_getsockopt K (m_fd b) SOL_SOCKET SO_ERROR w2 = ((0, 0), w')" using assms(1) unfolding in_progress_def by blast
  from c(3) [of tval] obtain cb2 tv w2 where t: "k_select_w K (m_fd b) tval w1 = ((cb2, tv), w2)" "0 < cb2" "k_errno (k_fd K) w2 \<noteq> EHOSTUNREACH"
    "k_getsockopt K (m_fd b) SOL_SOCKET SO_ERROR w2 = ((0, 0), w')" by blast
  have "select_again K (m_fd b) tval w1 = Some ((Some cb2, tv), w2)" using t(1,2) by (subst select_again.simps) simp
  then have "connect_loop K a b tval w = connect_loop K a b tv w'"
    using c(1,2) t(2-) assms(2) by (subst connect_loop.simps) (simp add: good_fd_def)
  then show ?thesis by blast
qed

lemma in_progress_flags: "in_progress K a b w w' \<Longrightarrow> flags_kept K a b \<Longrightarrow> nb K b w' = nb K b w"
  unfolding in_progress_def by (elim exE conjE, drule spec [of _ "HMicroTime_of_msec 0"]) (metis flags_keptD)

lemma connect_loop_connects:
  assumes "connects K a b n w" "good_fd b" "flags_kept K a b"
  shows "\<exists>w'. connect_loop K a b tval w = Some (AOk ERR_OK, w') \<and> nb K b w' = nb K b w"
  using assms(1)
proof (induction n arbitrary: w tval)
  case 0
  then show ?case using flags_keptD(1) [OF assms(3)] by (cases "k_connect K (m_fd b) a w") (subst connect_loop.simps, auto)
next
  case (Suc n)
  then obtain w1 where p: "in_progress K a b w w1" "connects K a b n w1" by auto
  from connect_step [OF p(1) assms(2), of tval] obtain tval' where "connect_loop K a b tval w = connect_loop K a b tval' w1" by blast
  with Suc.IH [OF p(2), of tval'] in_progress_flags [OF p(1) assms(3)] show ?case by auto
qed

text \<open>A system that answers every attempt on a connected socket with an error keeps \<^verbatim>\<open>ConnectWithTimeOut\<close> in its loop for ever.\<close>

lemma connect_never_returns:
  assumes "\<forall>w. \<exists>w'. in_progress K a b w w'" "good_fd b"
  shows "connect_loop K a b tval w = None"
proof -
  have "(\<forall>w. \<exists>w'. in_progress K a b w w') \<and> good_fd b \<longrightarrow> False" if "connect_loop K a b tval w = Some y" for y
  proof (rule connect_loop.raw_induct [where P = "\<lambda>K a b tval w y. (\<forall>w. \<exists>w'. in_progress K a b w w') \<and> good_fd b \<longrightarrow> False", rotated])
    show "connect_loop K a b tval w = Some y" by (rule that)
    fix rec K a b tval w y
    assume ih: "\<And>K a b tval w y. rec K a b tval w = Some y \<Longrightarrow> (\<forall>w. \<exists>w'. in_progress K a b w w') \<and> good_fd b \<longrightarrow> False"
      and body: "(case k_connect K (m_fd b) a w of (cb, w) \<Rightarrow>
     if cb = 0 then Some (AOk ERR_OK, w)
     else if \<not> (0 \<le> m_fd b \<and> m_fd b < FD_SETSIZE) then Some (AStuck, w)
     else (case select_again K (m_fd b) tval w of None \<Rightarrow> None
       | Some ((None, tval), w) \<Rightarrow> Some (AOk SYS_FAILED, w)
       | Some ((Some cb, tval), w) \<Rightarrow>
           if cb = 0 then Some (AOk TIME_OUT, w)
           else if k_errno (k_fd K) w = EHOSTUNREACH then Some (AOk NETWORK_ERROR, w)
           else (case k_getsockopt K (m_fd b) SOL_SOCKET SO_ERROR w of ((r, iError), w) \<Rightarrow>
             if (if r = 0 then iError else - 1) \<noteq> 0 then Some (AOk NETWORK_ERROR, w) else rec K a b tval w))) = Some y"
    show "(\<forall>w. \<exists>w'. in_progress K a b w w') \<and> good_fd b \<longrightarrow> False"
    proof
      assume p: "(\<forall>w. \<exists>w'. in_progress K a b w w') \<and> good_fd b"
      then obtain w' where "in_progress K a b w w'" by blast
      then obtain cb w1 where c: "k_connect K (m_fd b) a w = (cb, w1)" "cb \<noteq> 0"
        "\<exists>cb tv w2. k_select_w K (m_fd b) tval w1 = ((cb, tv), w2) \<and> 0 < cb \<and> k_errno (k_fd K) w2 \<noteq> EHOSTUNREACH \<and>
          k_getsockopt K (m_fd b) SOL_SOCKET SO_ERROR w2 = ((0, 0), w')" unfolding in_progress_def by blast
      then obtain cb2 tv w2 where t: "k_select_w K (m_fd b) tval w1 = ((cb2, tv), w2)" "0 < cb2" "k_errno (k_fd K) w2 \<noteq> EHOSTUNREACH"
        "k_getsockopt K (m_fd b) SOL_SOCKET SO_ERROR w2 = ((0, 0), w')" by blast
      have "select_again K (m_fd b) tval w1 = Some ((Some cb2, tv), w2)" using t(1,2) by (subst select_again.simps) simp
      then have "rec K a b tv w' = Some y" using body c(1,2) t(2-) p by (simp add: good_fd_def)
      from ih [OF this] p show False by blast
    qed
  qed
  with assms show ?thesis by (cases "connect_loop K a b tval w") auto
qed

text \<open>A connection made with \<^verbatim>\<open>ConnectWithTimeOut\<close> on a blocking socket, at once or after some waiting, is reported as good, but the socket is left
  non-blocking.\<close>

theorem ConnectWithTimeOut_leaves_nonblocking:
  assumes "fl_law (k_fd K) (m_fd b)" "flags_kept K a b" "good_fd b" "IsNonblocked (k_fd K) (b, w) = (AOk False, b, w)"
    "connects K a b n (snd (snd (SetNonblocked (k_fd K) True (b, w))))"
  shows "\<exists>w'. ConnectWithTimeOut K a timeout b w = Some (AOk ERR_OK, w') \<and> IsNonblocked (k_fd K) (b, w') = (AOk True, b, w')"
proof -
  note run = IsNonblocked_run [OF assms(1)] and valid = good_fd_valid [OF assms(3)]
  have "nb K b w = 0" using assms(4) run [of w] by simp
  from set_nonblocked [OF assms(1) valid this] obtain w1 where w1: "SetNonblocked (k_fd K) True (b, w) = (AOk ERR_OK, b, w1)" "nb K b w1 = O_NONBLOCK" by blast
  let ?tval = "HMicroTime_of_msec (if timeout \<le> 0 then SOCKET_DEFAULT_TIMEOUT else timeout)"
  obtain w2 where w2: "connect_loop K a b ?tval w1 = Some (AOk ERR_OK, w2)" "nb K b w2 = nb K b w1"
    using connect_loop_connects [OF _ assms(3,2), of n w1 ?tval] assms(5) w1(1) by auto
  from clear_nonblocked [OF assms(1) valid] w1(2) w2(2) obtain w3 where w3: "SetNonblocked (k_fd K) False (b, w2) = (AOk SYS_FAILED, b, w3)" "nb K b w3 = O_NONBLOCK" by metis
  have "ConnectWithTimeOut K a timeout b w = Some (AOk ERR_OK, w3)"
    using valid assms(4) w1(1) w2(1) w3(1) by (simp add: ConnectWithTimeOut_def Let_def)
  with run [of w3] w3(2) show ?thesis by simp
qed

subsection \<open>Ownership\<close>

definition socket_law :: "'w net_kernel \<Rightarrow> ('w \<Rightarrow> int set) \<Rightarrow> bool" where
  "socket_law K opens \<longleftrightarrow> open_close_law (k_fd K) opens \<and>
     (\<forall>d t w fd w'. k_socket K d t w = (fd, w') \<longrightarrow> (if 0 \<le> fd then 0 < fd \<and> fd \<notin> opens w \<and> opens w' = insert fd (opens w) else opens w' = opens w))"

lemma socket_gives:
  assumes "socket_law K opens" "k_socket K d t w = (fd, w')"
  shows "if 0 \<le> fd then 0 < fd \<and> fd \<notin> opens w \<and> opens w' = insert fd (opens w) else opens w' = opens w"
  using assms(1) [unfolded socket_law_def, THEN conjunct2, rule_format, OF assms(2)] .

lemma sock_open_owned:
  assumes "socket_law K opens" "sock_open K d t (b, w) = (out, b', w')"
  shows "opens w' - owned b' = opens w - owned b"
proof -
  have oc: "open_close_law (k_fd K) opens" using assms(1) by (simp add: socket_law_def)
  obtain u b1 w1 where c: "Close (k_fd K) (b, w) = (u, b1, w1)" by (cases "Close (k_fd K) (b, w)") auto
  note cl = Close_owned [OF oc c]
  obtain fd w2 where so: "k_socket K d t w1 = (fd, w2)" by (cases "k_socket K d t w1")
  have law: "if 0 \<le> fd then 0 < fd \<and> fd \<notin> opens w1 \<and> opens w2 = insert fd (opens w1) else opens w2 = opens w1"
    by (rule socket_gives [OF assms(1) so])
  have "(b', w') = (if 0 < fd then (SetFd fd b1, w2) else (b1, w2))"
    using assms(2) c cl(1) so by (auto simp: sock_open_def fd_defs split: if_splits)
  note new = this
  show ?thesis
  proof (cases "0 < fd")
    case True
    then have "b' = SetFd fd b1" "w' = w2" "fd \<notin> opens w1" "opens w2 = insert fd (opens w1)" using new law by simp_all
    moreover have "owned (SetFd fd b1) = {fd}" using True by (simp add: owned_def IsInvalid_def SetFd_def invalid_fd_def)
    ultimately show ?thesis using cl(3) by simp
  next
    case False
    then have "b' = b1" "w' = w2" "opens w2 = opens w1" using new law by (simp_all split: if_splits)
    then show ?thesis using cl(2,3) by (simp add: owned_def)
  qed
qed

datatype sock_op = Op_Tcp_Init | Op_Udp_Init | Op_Unix_Init | Op_Close

fun sock_do :: "'w net_kernel \<Rightarrow> sock_op \<Rightarrow> fd_in \<times> 'w \<Rightarrow> fd_in \<times> 'w" where
  "sock_do K Op_Tcp_Init s = snd (Tcp_Init K s)"
| "sock_do K Op_Udp_Init s = snd (Udp_Init K s)"
| "sock_do K Op_Unix_Init s = snd (Unix_Init K s)"
| "sock_do K Op_Close s = snd (Close (k_fd K) s)"

lemma sock_do_owned:
  assumes "socket_law K opens" "sock_do K op1 (b, w) = (b', w')"
  shows "opens w' - owned b' = opens w - owned b"
proof (cases "op1 = Op_Close")
  case True
  obtain u where "Close (k_fd K) (b, w) = (u, b', w')" using assms(2) True by (cases "Close (k_fd K) (b, w)") simp
  with Close_owned [of "k_fd K" opens b w] assms(1) show ?thesis by (auto simp: socket_law_def owned_def)
next
  case False
  then obtain d t where "snd (sock_open K d t (b, w)) = (b', w')" using assms(2)
    by (cases op1) (auto simp: Tcp_Init_def Udp_Init_def Unix_Init_def)
  then have "sock_open K d t (b, w) = (fst (sock_open K d t (b, w)), b', w')" by (cases "sock_open K d t (b, w)") simp
  from sock_open_owned [OF assms(1) this] show ?thesis .
qed



subsection \<open>A small network\<close>

text \<open>One connection between the descriptors 3 and 4 that takes two bytes and gives three at a time; \<open>tries\<close> counts the attempts to connect that are
  still to be waited for.\<close>

record link =
  chan :: HMEM
  tries :: nat
  lflags :: "32 word"
  lopen :: "int list"

definition link_fd :: "link fd_kernel" where
  "link_fd = \<lparr>k_close = \<lambda>fd w. w\<lparr>lopen := removeAll fd (lopen w)\<rparr>,
     k_read = \<lambda>fd n w. let bs = take (min 3 n) (chan w) in ((int (length bs), bs), w\<lparr>chan := drop (length bs) (chan w)\<rparr>),
     k_write = \<lambda>fd bs w. (int (min 2 (length bs)), w\<lparr>chan := chan w @ take 2 bs\<rparr>),
     k_pread = \<lambda>fd n off w. ((- 1, []), w), k_pwrite = \<lambda>fd bs off w. (- 1, w), k_writev = \<lambda>fd bs w. (- 1, w), k_readv = \<lambda>fd ns w. ((- 1, []), w),
     k_getfl = \<lambda>fd w. lflags w AND 0x7FFFFFFF, k_setfl = \<lambda>fd v w. (0, w\<lparr>lflags := v\<rparr>),
     k_open = \<lambda>f fl m w. (- 1, w), k_dup = \<lambda>fd w. (- 1, w), k_dup2 = \<lambda>a b w. (- 1, w), k_flock = \<lambda>fd x w. (0, w), k_syncfs = \<lambda>fd w. (0, w),
     k_ftruncate = \<lambda>fd n w. (- 1, w), k_tmpfile = \<lambda>w. (None, w), k_setlk = \<lambda>fd a b c d e w. (0, w), k_lockf = \<lambda>fd c w. (0, w), k_errno = \<lambda>w. 115\<rparr>"

definition small_net :: "link net_kernel" where
  "small_net = \<lparr>k_fd = link_fd, k_send = \<lambda>fd bs fl w. (- 1, w), k_recv = \<lambda>fd n fl w. ((- 1, []), w),
     k_select_w = \<lambda>fd tv w. ((1, tv), w), k_select_r = \<lambda>fd tv w. ((if chan w = [] then 0 else 1, tv), w),
     k_socket = \<lambda>d t w. let fd = fold max (lopen w) 2 + 1 in (fd, w\<lparr>lopen := fd # lopen w\<rparr>),
     k_bind = \<lambda>fd a w. (0, w), k_connect = \<lambda>fd a w. (if tries w = 0 then 0 else - 1, w\<lparr>tries := tries w - 1\<rparr>),
     k_accept = \<lambda>fd w. ((- 1, net_zero), w), k_getpeername = \<lambda>fd w. ((- 1, net_zero), w), k_recvfrom = \<lambda>fd n fl w. ((- 1, [], net_zero), w),
     k_sendto = \<lambda>fd bs fl a w. (- 1, w), k_shutdown = \<lambda>fd h w. (0, w), k_listen = \<lambda>fd n w. (0, w), k_setsockopt = \<lambda>fd l n v w. (0, w),
     k_getsockopt = \<lambda>fd l n w. ((0, 0), w)\<rparr>"

definition small_link :: link where
  "small_link = \<lparr>chan = [], tries = 1, lflags = 2, lopen = [3, 4]\<rparr>"

lemma good_small: "good_fd (fd_in_of 3)" "good_fd (fd_in_of 4)"
  by (simp_all add: good_fd_def fd_in_of_def FD_SETSIZE_def)

lemma small_fields:
  "k_write link_fd fd bs w = (int (min 2 (length bs)), w\<lparr>chan := chan w @ take 2 bs\<rparr>)"
  "k_read link_fd fd n w = ((int (min (length (chan w)) (min 3 n)), take (min 3 n) (chan w)), w\<lparr>chan := drop (min 3 n) (chan w)\<rparr>)"
  "k_select_w small_net fd tv w = ((1, tv), w)" "k_select_r small_net fd tv w = ((if chan w = [] then 0 else 1, tv), w)" "k_fd small_net = link_fd"
  by (simp_all add: link_fd_def small_net_def Let_def drop_take min_def)

lemma small_write_law: "write_law small_net (sock_Write small_net ST_TCP) (fd_in_of 3) chan"
  unfolding write_law_def using good_fd_valid [OF good_small(1)]
  by (auto simp: sock_Write_def fd_Write_def net_defs small_fields min_def)

lemma small_stream_law: "stream_law small_net (fd_in_of 3) (fd_in_of 4) chan"
  unfolding stream_law_def
proof (intro conjI allI impI)
  fix pos :: HMEM and w assume "pos \<noteq> []"
  then show "\<exists>r w'. k_write (k_fd small_net) (m_fd (fd_in_of 3)) pos w = (r, w') \<and> 0 < r \<and> r \<le> int (length pos) \<and> chan w' = chan w @ take (nat r) pos"
    by (simp add: small_fields min_def)
next
  fix n w
  show "\<exists>r w'. k_read (k_fd small_net) (m_fd (fd_in_of 4)) n w = ((r, take (nat r) (chan w)), w') \<and> r \<le> int n \<and> r \<le> int (length (chan w)) \<and>
        (chan w \<noteq> [] \<longrightarrow> 0 < n \<longrightarrow> 0 < r) \<and> chan w' = drop (nat r) (chan w)"
    by (auto simp: small_fields min_def)
qed (auto simp: small_fields)

theorem WriteAll_sends_prefix_witness:
  "\<exists>res m w'. WriteAll small_net ST_TCP [1, 2, 3, 4, 5] 1500 (fd_in_of 3, small_link) = (res, fd_in_of 3, w') \<and> m \<le> length [1, 2, 3, 4, 5 :: HUCH] \<and>
     chan w' = chan small_link @ take m [1, 2, 3, 4, 5] \<and>
     (res = AOk (int (length [1, 2, 3, 4, 5 :: HUCH])) \<and> m = length [1, 2, 3, 4, 5 :: HUCH] \<or> (\<exists>r. r \<le> 0 \<and> res = AOk r) \<or> res = AThrow NETWORK_ERROR)"
  using WriteAll_sends_prefix [OF small_write_law good_small(1), of "[1, 2, 3, 4, 5]" 1500 small_link] by simp


theorem ConnectWithTimeOut_leaves_nonblocking_witness:
  "\<exists>w'. ConnectWithTimeOut small_net net_zero 1500 (fd_in_of 3) small_link = Some (AOk ERR_OK, w') \<and>
     IsNonblocked link_fd (fd_in_of 3, w') = (AOk True, fd_in_of 3, w')"
proof -
  have fl: "fl_law (k_fd small_net) (m_fd (fd_in_of 3))" by (simp add: fl_law_def small_net_def link_fd_def flag_bits)
  have kept: "flags_kept small_net net_zero (fd_in_of 3)" by (simp add: flags_kept_def small_net_def link_fd_def)
  have b: "IsNonblocked (k_fd small_net) (fd_in_of 3, small_link) = (AOk False, fd_in_of 3, small_link)"
    by (simp add: IsNonblocked_def fd_defs small_net_def link_fd_def flag_bits) (simp add: small_link_def O_NONBLOCK_def)
  from set_nonblocked [OF fl good_fd_valid [OF good_small(1)], of small_link] IsNonblocked_run [OF fl, of small_link] b
  obtain w1 where w1: "SetNonblocked (k_fd small_net) True (fd_in_of 3, small_link) = (AOk ERR_OK, fd_in_of 3, w1)" by auto
  have "tries w1 = 1" using w1 by (auto simp: SetNonblocked_def fd_defs small_net_def link_fd_def small_link_def split: if_splits)
  then have "connects small_net net_zero (fd_in_of 3) 1 w1"
    by (auto simp: in_progress_def small_net_def link_fd_def EHOSTUNREACH_def)
  with ConnectWithTimeOut_leaves_nonblocking [OF fl kept good_small(1) b, of 1 1500] w1 show ?thesis by (simp add: small_fields)
qed

lemma small_socket_law: "socket_law small_net (set \<circ> lopen)"
proof -
  have "0 < fold max ps 2 + 1 \<and> fold max ps 2 + 1 \<notin> set ps" for ps :: "int list"
    using fold_max_ge [of 2 2 ps] fold_max_ge [of "fold max ps 2 + 1" 2 ps] by auto
  then show ?thesis by (auto simp: socket_law_def open_close_law_def small_net_def link_fd_def Let_def)
qed


end
