(* ===== verification/Lazy_Singleton.thy ===== *)
theory Lazy_Singleton
  imports Hui_Prelude
begin

text \<open>
  Lazy singletons: \<^verbatim>\<open>src/src/hlazysingleton.h\<close> and \<^verbatim>\<open>src/src/detail/lazysingleton\<close>.

  \<^verbatim>\<open>HLazySingleton::Get\<close> goes through two double-checked locks. The first one makes the holder of a type: an entry of a global map
  has a pointer and a mutex, and every compilation unit has its own cache of the pointer. The second one makes the object: the holder
  has a state, a mutex and the pointer to the object. Any number of threads call \<^verbatim>\<open>Get\<close>, for any types and from any units; their
  accesses to the atomics, the mutexes and the plain pointer interleave as steps. Constructing a holder or an object may
  throw. A \<open>key\<close> is a type with its tag; addresses of holders and objects are counted per key, from 0.
\<close>

subsection \<open>State\<close>

datatype SingletonHolderState = Dead | Living | LivingInChildAfterFork

record LazySingletonHolder =
  h_mutex :: "nat option"
  m_state :: SingletonHolderState
  m_instance :: "nat option"

record Entry =
  m_ptr :: "nat option"
  e_mutex :: "nat option"

text \<open>Where a thread is in \<^verbatim>\<open>Get\<close>; the arguments are the addresses it has read.\<close>

datatype pc = Finished | Threw
  | Cache_load | Find_entry | Entry_load | Entry_lock | Entry_check | Entry_make | Entry_store nat | Entry_debug nat | Cache_store nat
  | Holder_load nat | Holder_lock nat | Holder_check nat | Holder_new nat | Holder_set nat nat | Holder_store nat | Holder_unlock nat
  | Read_instance nat

record 'k thread =
  from_unit :: nat
  of_key :: 'k
  at_pc :: pc

record 'k singletons =
  caches :: "nat \<Rightarrow> 'k \<Rightarrow> nat option"
  m_map :: "'k \<Rightarrow> Entry option"
  holders :: "'k \<Rightarrow> LazySingletonHolder list"
  objects :: "'k \<Rightarrow> nat"
  threads :: "nat \<Rightarrow> 'k thread"
  results :: "('k \<times> nat option) list"

definition LazySingletonHolder_new :: LazySingletonHolder where
  "LazySingletonHolder_new = \<lparr>h_mutex = None, m_state = Dead, m_instance = None\<rparr>"

definition Entry_new :: Entry where
  "Entry_new = \<lparr>m_ptr = None, e_mutex = None\<rparr>"

definition singletons_new :: "'k \<Rightarrow> 'k singletons" where
  "singletons_new k = \<lparr>caches = \<lambda>_ _. None, m_map = \<lambda>_. None, holders = \<lambda>_. [], objects = \<lambda>_. 0,
     threads = \<lambda>_. \<lparr>from_unit = 0, of_key = k, at_pc = Finished\<rparr>, results = []\<rparr>"

abbreviation pc_of :: "'k singletons \<Rightarrow> nat \<Rightarrow> pc" where "pc_of s t \<equiv> at_pc (threads s t)"

abbreviation key_of :: "'k singletons \<Rightarrow> nat \<Rightarrow> 'k" where "key_of s t \<equiv> of_key (threads s t)"

definition goto :: "nat \<Rightarrow> pc \<Rightarrow> 'k singletons \<Rightarrow> 'k singletons" where
  "goto t p s = s\<lparr>threads := (threads s)(t := (threads s t)\<lparr>at_pc := p\<rparr>)\<rparr>"

definition entry :: "'k singletons \<Rightarrow> 'k \<Rightarrow> Entry" where
  "entry s k = (case m_map s k of None \<Rightarrow> Entry_new | Some e \<Rightarrow> e)"

definition on_entry :: "nat \<Rightarrow> (Entry \<Rightarrow> Entry) \<Rightarrow> 'k singletons \<Rightarrow> 'k singletons" where
  "on_entry t f s = s\<lparr>m_map := (m_map s)(key_of s t \<mapsto> f (entry s (key_of s t)))\<rparr>"

definition on_holder :: "nat \<Rightarrow> nat \<Rightarrow> (LazySingletonHolder \<Rightarrow> LazySingletonHolder) \<Rightarrow> 'k singletons \<Rightarrow> 'k singletons" where
  "on_holder t a f s = (let k = key_of s t in s\<lparr>holders := (holders s)(k := (holders s k)[a := f (holders s k ! a)])\<rparr>)"

subsection \<open>Operations\<close>

text \<open>Every operation is given by what the thread \<open>t\<close> does at each of its places; \<open>None\<close> where it cannot go on: it waits for a mutex, or the address is none.
  \<open>throws\<close> says whether the construction of that step throws.\<close>

definition StaticSingletonHolder_create :: "nat \<Rightarrow> 'k singletons \<Rightarrow> 'k singletons" where
  "StaticSingletonHolder_create t s = goto t (case caches s (from_unit (threads s t)) (key_of s t) of Some v \<Rightarrow> Holder_load v | None \<Rightarrow> Find_entry) s"

definition create_entry :: "nat \<Rightarrow> 'k singletons \<Rightarrow> 'k singletons" where
  "create_entry t s = goto t Entry_load (on_entry t id s)"

fun Entry_create :: "nat \<Rightarrow> bool \<Rightarrow> pc \<Rightarrow> 'k singletons \<Rightarrow> 'k singletons option" where
  "Entry_create t throws Entry_load s = Some (goto t (case m_ptr (entry s (key_of s t)) of Some v \<Rightarrow> Cache_store v | None \<Rightarrow> Entry_lock) s)"
| "Entry_create t throws Entry_lock s =
     (if e_mutex (entry s (key_of s t)) = None then Some (goto t Entry_check (on_entry t (e_mutex_update (\<lambda>_. Some t)) s)) else None)"
| "Entry_create t throws Entry_check s = Some (case m_ptr (entry s (key_of s t)) of
     Some v \<Rightarrow> goto t (Cache_store v) (on_entry t (e_mutex_update (\<lambda>_. None)) s) | None \<Rightarrow> goto t Entry_make s)"
| "Entry_create t throws Entry_make s = Some (if throws then goto t Threw (on_entry t (e_mutex_update (\<lambda>_. None)) s)
     else let k = key_of s t in goto t (Entry_store (length (holders s k))) (s\<lparr>holders := (holders s)(k := holders s k @ [LazySingletonHolder_new])\<rparr>))"
| "Entry_create t throws (Entry_store v) s = Some (goto t (Entry_debug v) (on_entry t (m_ptr_update (\<lambda>_. Some v)) s))"
| "Entry_create t throws (Entry_debug v) s = Some (goto t (Cache_store v) (on_entry t (e_mutex_update (\<lambda>_. None)) s))"
| "Entry_create t throws _ s = None"

definition StaticSingletonHolderImpl_Create :: "nat \<Rightarrow> nat \<Rightarrow> 'k singletons \<Rightarrow> 'k singletons" where
  "StaticSingletonHolderImpl_Create t v s = goto t (Holder_load v)
     (s\<lparr>caches := (caches s)(from_unit (threads s t) := (caches s (from_unit (threads s t)))(key_of s t \<mapsto> v))\<rparr>)"

fun create_instance :: "nat \<Rightarrow> bool \<Rightarrow> pc \<Rightarrow> 'k singletons \<Rightarrow> 'k singletons option" where
  "create_instance t throws (Holder_lock a) s =
     (if h_mutex (holders s (key_of s t) ! a) = None then Some (goto t (Holder_check a) (on_holder t a (h_mutex_update (\<lambda>_. Some t)) s)) else None)"
| "create_instance t throws (Holder_check a) s =
     Some (goto t (if m_state (holders s (key_of s t) ! a) = Living then Holder_unlock a else Holder_new a) s)"
| "create_instance t throws (Holder_new a) s = Some (if throws then goto t Threw (on_holder t a (h_mutex_update (\<lambda>_. None)) s)
     else goto t (Holder_set a (objects s (key_of s t))) (s\<lparr>objects := (objects s)(key_of s t := Suc (objects s (key_of s t)))\<rparr>))"
| "create_instance t throws (Holder_set a p) s = Some (goto t (Holder_store a) (on_holder t a (m_instance_update (\<lambda>_. Some p)) s))"
| "create_instance t throws (Holder_store a) s = Some (goto t (Holder_unlock a) (on_holder t a (m_state_update (\<lambda>_. Living)) s))"
| "create_instance t throws (Holder_unlock a) s = Some (goto t (Read_instance a) (on_holder t a (h_mutex_update (\<lambda>_. None)) s))"
| "create_instance t throws _ s = None"

fun LazySingletonHolder_Get :: "nat \<Rightarrow> bool \<Rightarrow> nat \<Rightarrow> pc \<Rightarrow> 'k singletons \<Rightarrow> 'k singletons option" where
  "LazySingletonHolder_Get t throws a (Holder_load _) s =
     Some (goto t (if m_state (holders s (key_of s t) ! a) = Living then Read_instance a else Holder_lock a) s)"
| "LazySingletonHolder_Get t throws a (Read_instance _) s =
     Some (goto t Finished (s\<lparr>results := results s @ [(key_of s t, m_instance (holders s (key_of s t) ! a))]\<rparr>))"
| "LazySingletonHolder_Get t throws a p s = create_instance t throws p s"

text \<open>The holder a place of \<^verbatim>\<open>Get\<close> is about.\<close>

fun holder_of :: "pc \<Rightarrow> nat option" where
  "holder_of (Holder_load a) = Some a"
| "holder_of (Holder_lock a) = Some a"
| "holder_of (Holder_check a) = Some a"
| "holder_of (Holder_new a) = Some a"
| "holder_of (Holder_set a p) = Some a"
| "holder_of (Holder_store a) = Some a"
| "holder_of (Holder_unlock a) = Some a"
| "holder_of (Read_instance a) = Some a"
| "holder_of _ = None"

definition HLazySingleton_Get :: "nat \<Rightarrow> bool \<Rightarrow> 'k singletons \<Rightarrow> 'k singletons option" where
  "HLazySingleton_Get t throws s = (case pc_of s t of
     Finished \<Rightarrow> None
   | Threw \<Rightarrow> None
   | Cache_load \<Rightarrow> Some (StaticSingletonHolder_create t s)
   | Find_entry \<Rightarrow> Some (create_entry t s)
   | Cache_store v \<Rightarrow> Some (StaticSingletonHolderImpl_Create t v s)
   | p \<Rightarrow> (case holder_of p of
       None \<Rightarrow> Entry_create t throws p s
     | Some a \<Rightarrow> if a < length (holders s (key_of s t)) then LazySingletonHolder_Get t throws a p s else None))"

inductive lazy_step :: "'k singletons \<Rightarrow> 'k singletons \<Rightarrow> bool" where
  call: "pc_of s t \<in> {Finished, Threw} \<Longrightarrow> lazy_step s (s\<lparr>threads := (threads s)(t := \<lparr>from_unit = u, of_key = k, at_pc = Cache_load\<rparr>)\<rparr>)"
| go: "HLazySingleton_Get t throws s = Some s' \<Longrightarrow> lazy_step s s'"

subsection \<open>Invariant\<close>

definition in_entry :: "pc \<Rightarrow> bool" where
  "in_entry p \<longleftrightarrow> (case p of Entry_check \<Rightarrow> True | Entry_make \<Rightarrow> True | Entry_store _ \<Rightarrow> True | Entry_debug _ \<Rightarrow> True | _ \<Rightarrow> False)"

definition in_holder :: "pc \<Rightarrow> bool" where
  "in_holder p \<longleftrightarrow> (case p of Holder_check _ \<Rightarrow> True | Holder_new _ \<Rightarrow> True | Holder_set _ _ \<Rightarrow> True | Holder_store _ \<Rightarrow> True | Holder_unlock _ \<Rightarrow> True | _ \<Rightarrow> False)"

text \<open>What holds of the cell of a key \<open>k\<close>: its entry \<open>e\<close>, its holders, its objects, its caches, while its threads are at \<open>ps\<close>.\<close>

definition the_state :: "LazySingletonHolder list \<Rightarrow> SingletonHolderState" where
  "the_state hs = (if hs = [] then Dead else m_state (hs ! 0))"

definition the_mutex :: "LazySingletonHolder list \<Rightarrow> nat option" where
  "the_mutex hs = (if hs = [] then None else h_mutex (hs ! 0))"

fun place_ok :: "nat \<Rightarrow> Entry \<Rightarrow> LazySingletonHolder list \<Rightarrow> nat \<Rightarrow> pc \<Rightarrow> bool" where
  "place_ok t e hs n Finished = True"
| "place_ok t e hs n Threw = True"
| "place_ok t e hs n Cache_load = True"
| "place_ok t e hs n Find_entry = True"
| "place_ok t e hs n Entry_load = True"
| "place_ok t e hs n Entry_lock = True"
| "place_ok t e hs n Entry_check = (e_mutex e = Some t \<and> (m_ptr e = None \<longrightarrow> hs = []))"
| "place_ok t e hs n Entry_make = (e_mutex e = Some t \<and> m_ptr e = None \<and> hs = [])"
| "place_ok t e hs n (Entry_store v) = (e_mutex e = Some t \<and> m_ptr e = None \<and> hs = [LazySingletonHolder_new] \<and> v = 0)"
| "place_ok t e hs n (Entry_debug v) = (e_mutex e = Some t \<and> m_ptr e = Some v)"
| "place_ok t e hs n (Cache_store v) = (m_ptr e = Some v)"
| "place_ok t e hs n (Holder_load a) = (m_ptr e = Some a)"
| "place_ok t e hs n (Holder_lock a) = (m_ptr e = Some a)"
| "place_ok t e hs n (Holder_check a) = (m_ptr e = Some a \<and> the_mutex hs = Some t \<and> (the_state hs \<noteq> Living \<longrightarrow> n = 0))"
| "place_ok t e hs n (Holder_new a) = (m_ptr e = Some a \<and> the_mutex hs = Some t \<and> the_state hs \<noteq> Living \<and> n = 0)"
| "place_ok t e hs n (Holder_set a p) = (m_ptr e = Some a \<and> the_mutex hs = Some t \<and> the_state hs \<noteq> Living \<and> n = 1 \<and> p = 0)"
| "place_ok t e hs n (Holder_store a) = (m_ptr e = Some a \<and> the_mutex hs = Some t \<and> the_state hs \<noteq> Living \<and> n = 1 \<and> m_instance (hs ! 0) = Some 0)"
| "place_ok t e hs n (Holder_unlock a) = (m_ptr e = Some a \<and> the_mutex hs = Some t \<and> the_state hs = Living)"
| "place_ok t e hs n (Read_instance a) = (m_ptr e = Some a \<and> the_state hs = Living)"

definition cell_ok :: "Entry \<Rightarrow> LazySingletonHolder list \<Rightarrow> nat \<Rightarrow> bool" where
  "cell_ok e hs n \<longleftrightarrow> (e_mutex e = None \<longrightarrow> m_ptr e = None \<longrightarrow> hs = []) \<and> (m_ptr e = None \<longrightarrow> n = 0 \<and> the_mutex hs = None \<and> the_state hs = Dead) \<and>
     (\<forall>a. m_ptr e = Some a \<longrightarrow> a = 0 \<and> length hs = 1) \<and> (the_mutex hs = None \<longrightarrow> the_state hs \<noteq> Living \<longrightarrow> n = 0) \<and>
     (the_state hs = Living \<longrightarrow> n = 1 \<and> m_instance (hs ! 0) = Some 0)"

definition lazy_inv :: "'k singletons \<Rightarrow> bool" where
  "lazy_inv s \<longleftrightarrow>
     (\<forall>k. cell_ok (entry s k) (holders s k) (objects s k)) \<and>
     (\<forall>t. place_ok t (entry s (key_of s t)) (holders s (key_of s t)) (objects s (key_of s t)) (pc_of s t)) \<and>
     (\<forall>k t. e_mutex (entry s k) = Some t \<longrightarrow> key_of s t = k \<and> in_entry (pc_of s t)) \<and>
     (\<forall>k t. the_mutex (holders s k) = Some t \<longrightarrow> key_of s t = k \<and> in_holder (pc_of s t)) \<and>
     (\<forall>u k v. caches s u k = Some v \<longrightarrow> m_ptr (entry s k) = Some v) \<and>
     (\<forall>k v. (k, v) \<in> set (results s) \<longrightarrow> v = Some 0 \<and> the_state (holders s k) = Living)"


lemma inv_update:
  assumes inv: "lazy_inv s" and k: "k = key_of s t" and th: "threads s' = (threads s)(t := (threads s t)\<lparr>at_pc := p'\<rparr>)"
    and e: "entry s' = (entry s)(k := e')" and h: "holders s' = (holders s)(k := hs')" and n: "objects s' = (objects s)(k := n')"
    and c: "\<And>u k' v. caches s' u k' = Some v \<Longrightarrow> caches s u k' = Some v \<or> k' = k \<and> m_ptr e' = Some v"
    and mono: "\<And>v. m_ptr (entry s k) = Some v \<Longrightarrow> m_ptr e' = Some v" "the_state (holders s k) = Living \<Longrightarrow> the_state hs' = Living"
    and r: "\<And>x. x \<in> set (results s') \<Longrightarrow> x \<in> set (results s) \<or> x = (k, Some 0) \<and> the_state hs' = Living"
    and cell: "cell_ok e' hs' n'" and place: "place_ok t e' hs' n' p'"
    and others: "\<And>t' q. t' \<noteq> t \<Longrightarrow> place_ok t' (entry s k) (holders s k) (objects s k) q \<Longrightarrow> place_ok t' e' hs' n' q"
    and em: "\<And>t'. e_mutex e' = Some t' \<Longrightarrow> t' = t \<and> in_entry p' \<or> t' \<noteq> t \<and> e_mutex (entry s k) = Some t'"
    and hm: "\<And>t'. the_mutex hs' = Some t' \<Longrightarrow> t' = t \<and> in_holder p' \<or> t' \<noteq> t \<and> the_mutex (holders s k) = Some t'"
  shows "lazy_inv s'"
  unfolding lazy_inv_def
proof (intro conjI allI impI)
  note i = inv [unfolded lazy_inv_def]
  show "cell_ok (entry s' k1) (holders s' k1) (objects s' k1)" for k1 using i cell by (simp add: e h n)
  show "place_ok t1 (entry s' (key_of s' t1)) (holders s' (key_of s' t1)) (objects s' (key_of s' t1)) (pc_of s' t1)" for t1
  proof (cases "t1 = t")
    case False
    have "place_ok t1 (entry s (key_of s t1)) (holders s (key_of s t1)) (objects s (key_of s t1)) (pc_of s t1)" using i by blast
    with False others [OF False] show ?thesis by (cases "key_of s t1 = k") (simp_all add: e h n th)
  qed (use place in \<open>simp add: e h n th k\<close>)
  show "key_of s' t1 = k1" "in_entry (pc_of s' t1)" if "e_mutex (entry s' k1) = Some t1" for k1 t1
    using i em [of t1] that by (auto simp: e th k split: if_splits)
  show "key_of s' t1 = k1" "in_holder (pc_of s' t1)" if "the_mutex (holders s' k1) = Some t1" for k1 t1
    using i hm [of t1] that by (auto simp: h th k split: if_splits)
  show "m_ptr (entry s' k1) = Some v" if "caches s' u k1 = Some v" for u k1 v
    using i c [OF that] mono(1) by (auto simp: e)
  show "v = Some 0" "the_state (holders s' k1) = Living" if "(k1, v) \<in> set (results s')" for k1 v
    using i r [OF that] mono(2) by (auto simp: h)
qed


lemma state_simps [simp]:
  "threads (goto t p s) = (threads s)(t := (threads s t)\<lparr>at_pc := p\<rparr>)" "entry (goto t p s) = entry s" "holders (goto t p s) = holders s"
  "objects (goto t p s) = objects s" "caches (goto t p s) = caches s" "results (goto t p s) = results s"
  "threads (on_entry t f s) = threads s" "entry (on_entry t f s) = (entry s)(key_of s t := f (entry s (key_of s t)))"
  "holders (on_entry t f s) = holders s" "objects (on_entry t f s) = objects s" "caches (on_entry t f s) = caches s"
  "results (on_entry t f s) = results s"
  "threads (on_holder t a g s) = threads s" "entry (on_holder t a g s) = entry s"
  "holders (on_holder t a g s) = (holders s)(key_of s t := (holders s (key_of s t))[a := g (holders s (key_of s t) ! a)])"
  "objects (on_holder t a g s) = objects s" "caches (on_holder t a g s) = caches s" "results (on_holder t a g s) = results s"
  "entry (s\<lparr>holders := hf\<rparr>) = entry s" "entry (s\<lparr>objects := nf\<rparr>) = entry s" "entry (s\<lparr>caches := cf\<rparr>) = entry s"
  "entry (s\<lparr>results := rs\<rparr>) = entry s" "entry (s\<lparr>threads := tf\<rparr>) = entry s"
  by (auto simp: goto_def on_entry_def on_holder_def Let_def entry_def fun_eq_iff)

lemma inv_at:
  assumes "lazy_inv s"
  shows "cell_ok (entry s (key_of s t)) (holders s (key_of s t)) (objects s (key_of s t))"
    "place_ok t (entry s (key_of s t)) (holders s (key_of s t)) (objects s (key_of s t)) (pc_of s t)"
  using assms unfolding lazy_inv_def by blast+

lemma own_mutex:
  assumes "lazy_inv s"
  shows "e_mutex (entry s (key_of s t)) = Some t \<Longrightarrow> in_entry (pc_of s t)" "the_mutex (holders s (key_of s t)) = Some t \<Longrightarrow> in_holder (pc_of s t)"
  using assms unfolding lazy_inv_def by blast+

lemmas local_defs = cell_ok_def the_mutex_def the_state_def in_entry_def in_holder_def LazySingletonHolder_new_def

text \<open>A step under a mutex does not disturb the others.\<close>

lemma others_entry:
  assumes "e_mutex e \<noteq> Some t'" "\<And>v. m_ptr e = Some v \<Longrightarrow> m_ptr e' = Some v" "place_ok t' e hs n q"
  shows "place_ok t' e' hs n q"
  using assms by (cases q) auto

lemma others_holder:
  assumes "the_mutex hs \<noteq> Some t'" "m_ptr e \<noteq> None" "the_state hs = Living \<Longrightarrow> the_state hs' = Living" "place_ok t' e hs n q"
  shows "place_ok t' e hs' n' q"
  using assms by (cases q) auto

text \<open>A step that changes only the place, the entry or the holder.\<close>

lemma inv_goto:
  assumes "lazy_inv s" "place_ok t (entry s (key_of s t)) (holders s (key_of s t)) (objects s (key_of s t)) p"
    "in_entry (pc_of s t) \<longleftrightarrow> in_entry p" "in_holder (pc_of s t) \<longleftrightarrow> in_holder p"
  shows "lazy_inv (goto t p s)"
  by (rule inv_update [OF assms(1) refl, of _ _ p "entry s (key_of s t)" "holders s (key_of s t)" "objects s (key_of s t)"])
    (use inv_at [OF assms(1), of t] own_mutex [OF assms(1), of t] assms(2-) in auto)

lemma inv_entry:
  assumes "lazy_inv s" "e_mutex (entry s (key_of s t)) = None \<or> e_mutex (entry s (key_of s t)) = Some t"
    and e: "e' = f (entry s (key_of s t))"
    and mono: "\<And>v. m_ptr (entry s (key_of s t)) = Some v \<Longrightarrow> m_ptr e' = Some v"
    and "cell_ok e' (holders s (key_of s t)) (objects s (key_of s t))" "place_ok t e' (holders s (key_of s t)) (objects s (key_of s t)) p"
    and em: "e_mutex e' = None \<or> e_mutex e' = Some t \<and> in_entry p" and "\<not> in_holder (pc_of s t)"
  shows "lazy_inv (goto t p (on_entry t f s))"
proof (rule inv_update [OF assms(1) refl, of _ _ p e' "holders s (key_of s t)" "objects s (key_of s t)"])
  show "place_ok t' e' (holders s (key_of s t)) (objects s (key_of s t)) q"
    if "t' \<noteq> t" "place_ok t' (entry s (key_of s t)) (holders s (key_of s t)) (objects s (key_of s t)) q" for t' q
    using others_entry [OF _ mono that(2)] assms(2) that(1) by auto
  show "t' = t \<and> in_holder p \<or> t' \<noteq> t \<and> the_mutex (holders s (key_of s t)) = Some t'" if "the_mutex (holders s (key_of s t)) = Some t'" for t'
    using own_mutex(2) [OF assms(1), of t] assms(8) that by auto
qed (use assms(3-) in auto)

lemma inv_holder:
  assumes "lazy_inv s" "m_ptr (entry s (key_of s t)) \<noteq> None"
    "the_mutex (holders s (key_of s t)) = None \<or> the_mutex (holders s (key_of s t)) = Some t"
    and s': "threads s' = threads s" "entry s' = entry s" "caches s' = caches s" "results s' = results s"
      "holders s' = (holders s)(key_of s t := hs')" "objects s' = (objects s)(key_of s t := n')"
    and mono: "the_state (holders s (key_of s t)) = Living \<Longrightarrow> the_state hs' = Living"
    and "cell_ok (entry s (key_of s t)) hs' n'" "place_ok t (entry s (key_of s t)) hs' n' p"
    and hm: "the_mutex hs' = None \<or> the_mutex hs' = Some t \<and> in_holder p" and "\<not> in_entry (pc_of s t)"
  shows "lazy_inv (goto t p s')"
proof (rule inv_update [OF assms(1) refl, of _ _ p "entry s (key_of s t)" hs' n'])
  show "place_ok t' (entry s (key_of s t)) hs' n' q"
    if "t' \<noteq> t" "place_ok t' (entry s (key_of s t)) (holders s (key_of s t)) (objects s (key_of s t)) q" for t' q
    using others_holder [OF _ assms(2) mono that(2)] assms(3) that(1) by auto
  show "t' = t \<and> in_entry p \<or> t' \<noteq> t \<and> e_mutex (entry s (key_of s t)) = Some t'" if "e_mutex (entry s (key_of s t)) = Some t'" for t'
    using own_mutex(1) [OF assms(1), of t] assms(14) that by auto
qed (use assms(3-) in \<open>auto simp: s'\<close>)

lemma Entry_create_inv:
  assumes "lazy_inv s" "Entry_create t throws (pc_of s t) s = Some s'"
  shows "lazy_inv s'"
proof -
  let ?e = "entry s (key_of s t)" and ?hs = "holders s (key_of s t)" and ?n = "objects s (key_of s t)"
  note at = inv_at [OF assms(1), of t]
  show ?thesis
  proof (cases "pc_of s t")
    case Entry_load
    then show ?thesis using assms by (auto intro!: inv_goto simp: local_defs split: option.splits)
  next
    case Entry_lock
    then show ?thesis using assms at by (auto intro!: inv_entry [OF assms(1) _ refl] simp: local_defs split: if_splits)
  next
    case Entry_check
    show ?thesis
    proof (cases "m_ptr ?e")
      case None
      then show ?thesis using Entry_check assms at by (auto intro!: inv_goto simp: local_defs)
    next
      case (Some v)
      then show ?thesis using Entry_check assms at by (auto intro!: inv_entry [OF assms(1) _ refl] simp: local_defs)
    qed
  next
    case (Entry_store v)
    then show ?thesis using assms at by (auto intro!: inv_entry [OF assms(1) _ refl] simp: local_defs)
  next
    case (Entry_debug v)
    then show ?thesis using assms at by (auto intro!: inv_entry [OF assms(1) _ refl] simp: local_defs)
  next
    case Entry_make
    show ?thesis
    proof (cases throws)
      case True
      then show ?thesis using Entry_make assms at by (auto intro!: inv_entry [OF assms(1) _ refl] simp: local_defs)
    next
      case False
      let ?s = "s\<lparr>holders := (holders s)(key_of s t := [LazySingletonHolder_new])\<rparr>"
      have "s' = goto t (Entry_store 0) ?s" using False Entry_make assms(2) at(2) by (simp add: Let_def)
      moreover have "lazy_inv (goto t (Entry_store 0) ?s)"
      proof (rule inv_update [OF assms(1) refl, of _ _ "Entry_store 0" ?e "[LazySingletonHolder_new]" ?n])
        show "place_ok t' ?e [LazySingletonHolder_new] ?n q" if "t' \<noteq> t" "place_ok t' ?e ?hs ?n q" for t' q
          using that Entry_make at(2) by (cases q) (auto simp: the_mutex_def the_state_def)
      qed (use Entry_make at own_mutex [OF assms(1), of t] in \<open>auto simp: local_defs\<close>)
      ultimately show ?thesis by simp
    qed
  qed (use assms(2) in auto)
qed


lemma create_instance_inv:
  assumes "lazy_inv s" "create_instance t throws (pc_of s t) s = Some s'" "holder_of (pc_of s t) = Some a" "a < length (holders s (key_of s t))"
  shows "lazy_inv s'"
proof -
  let ?e = "entry s (key_of s t)" and ?hs = "holders s (key_of s t)" and ?n = "objects s (key_of s t)"
  note at = inv_at [OF assms(1), of t]
  from at(2) assms(3) have p: "m_ptr ?e = Some a" by (cases "pc_of s t") auto
  with at(1) have "a = 0" "length ?hs = 1" by (simp_all add: cell_ok_def)
  then obtain h where h: "?hs = [h]" by (cases ?hs) auto
  note m = at h p assms(2-) \<open>a = 0\<close>
  have st: "in_entry (pc_of s t) = False" using assms(3) by (cases "pc_of s t") (auto simp: in_entry_def)
  show ?thesis
  proof (cases "pc_of s t")
    case (Holder_lock b)
    then show ?thesis using m
      by (auto intro!: inv_holder [OF assms(1), of t _ "[h\<lparr>h_mutex := Some t\<rparr>]" ?n] simp: local_defs split: if_splits)
  next
    case (Holder_check b)
    then show ?thesis using m assms(1) by (auto intro!: inv_goto simp: local_defs)
  next
    case (Holder_new b)
    show ?thesis
    proof (cases throws)
      case True
      then show ?thesis using Holder_new m
        by (auto intro!: inv_holder [OF assms(1), of t _ "[h\<lparr>h_mutex := None\<rparr>]" ?n] simp: local_defs)
    next
      case False
      then show ?thesis using Holder_new m by (auto intro!: inv_holder [OF assms(1), of t _ "[h]" 1] simp: local_defs)
    qed
  next
    case (Holder_set b p)
    then show ?thesis using m by (auto intro!: inv_holder [OF assms(1), of t _ "[h\<lparr>m_instance := Some 0\<rparr>]" ?n] simp: local_defs)
  next
    case (Holder_store b)
    then show ?thesis using m by (auto intro!: inv_holder [OF assms(1), of t _ "[h\<lparr>m_state := Living\<rparr>]" ?n] simp: local_defs)
  next
    case (Holder_unlock b)
    then show ?thesis using m by (auto intro!: inv_holder [OF assms(1), of t _ "[h\<lparr>h_mutex := None\<rparr>]" ?n] simp: local_defs)
  qed (use assms(2) in auto)
qed

lemma Get_inv:
  assumes "lazy_inv s" "HLazySingleton_Get t throws s = Some s'"
  shows "lazy_inv s'"
proof -
  let ?e = "entry s (key_of s t)" and ?hs = "holders s (key_of s t)" and ?n = "objects s (key_of s t)"
  note at = inv_at [OF assms(1), of t] and own = own_mutex [OF assms(1), of t]
  show ?thesis
  proof (cases "pc_of s t")
    case Cache_load
    have "m_ptr ?e = Some v" if "caches s u (key_of s t) = Some v" for u v using assms(1) that by (simp add: lazy_inv_def)
    then show ?thesis using assms Cache_load
      by (auto intro!: inv_goto simp: HLazySingleton_Get_def StaticSingletonHolder_create_def local_defs split: option.splits)
  next
    case Find_entry
    have "lazy_inv (goto t Entry_load (on_entry t id s))"
      by (rule inv_update [OF assms(1) refl, of _ _ Entry_load ?e ?hs ?n]) (use at Find_entry own in \<open>auto simp: local_defs\<close>)
    then show ?thesis using assms(2) Find_entry by (simp add: HLazySingleton_Get_def create_entry_def)
  next
    case (Cache_store v)
    have "lazy_inv (StaticSingletonHolderImpl_Create t v s)"
      unfolding StaticSingletonHolderImpl_Create_def
      by (rule inv_update [OF assms(1) refl, of _ _ "Holder_load v" ?e ?hs ?n]) (use at Cache_store own in \<open>auto simp: local_defs split: if_splits\<close>)
    then show ?thesis using assms(2) Cache_store by (simp add: HLazySingleton_Get_def)
  next
    case (Holder_load a)
    then show ?thesis using assms at by (auto intro!: inv_goto simp: HLazySingleton_Get_def local_defs split: if_splits)
  next
    case (Read_instance a)
    then have "lazy_inv (goto t Finished (s\<lparr>results := results s @ [(key_of s t, m_instance (?hs ! a))]\<rparr>))"
      by (intro inv_update [OF assms(1) refl, of _ _ Finished ?e ?hs ?n]) (use at own in \<open>auto simp: local_defs\<close>)
    then show ?thesis using assms(2) Read_instance by (simp add: HLazySingleton_Get_def split: if_splits)
  qed (use assms Entry_create_inv [OF assms(1), of t throws s'] create_instance_inv [OF assms(1), of t throws s'] in
      \<open>auto simp: HLazySingleton_Get_def simp del: Entry_create.simps create_instance.simps split: if_splits\<close>)
qed

lemma call_inv:
  assumes inv: "lazy_inv s" and "pc_of s t \<in> {Finished, Threw}" and th: "threads s' = (threads s)(t := \<lparr>from_unit = u, of_key = k, at_pc = Cache_load\<rparr>)"
    and same: "entry s' = entry s" "holders s' = holders s" "objects s' = objects s" "caches s' = caches s" "results s' = results s"
  shows "lazy_inv s'"
  unfolding lazy_inv_def same
proof (intro conjI allI impI)
  note i = inv [unfolded lazy_inv_def]
  have out: "\<not> in_entry (pc_of s t)" "\<not> in_holder (pc_of s t)" using assms(2) by (auto simp: in_entry_def in_holder_def)
  show "cell_ok (entry s k1) (holders s k1) (objects s k1)" for k1 using i by blast
  show "place_ok t1 (entry s (key_of s' t1)) (holders s (key_of s' t1)) (objects s (key_of s' t1)) (pc_of s' t1)" for t1
  proof (cases "t1 = t")
    case False
    then show ?thesis using i by (simp add: th)
  qed (simp add: th)
  show "key_of s' t1 = k1" "in_entry (pc_of s' t1)" if "e_mutex (entry s k1) = Some t1" for k1 t1
  proof -
    have "key_of s t1 = k1" "in_entry (pc_of s t1)" using i that by blast+
    then show "key_of s' t1 = k1" "in_entry (pc_of s' t1)" using out(1) by (auto simp: th)
  qed
  show "key_of s' t1 = k1" "in_holder (pc_of s' t1)" if "the_mutex (holders s k1) = Some t1" for k1 t1
  proof -
    have "key_of s t1 = k1" "in_holder (pc_of s t1)" using i that by blast+
    then show "key_of s' t1 = k1" "in_holder (pc_of s' t1)" using out(2) by (auto simp: th)
  qed
  show "m_ptr (entry s k1) = Some v" if "caches s u' k1 = Some v" for u' k1 v using i that by blast
  show "v = Some 0" "the_state (holders s k1) = Living" if "(k1, v) \<in> set (results s)" for k1 v using i that by blast+
qed

lemma lazy_step_inv: "lazy_step s s' \<Longrightarrow> lazy_inv s \<Longrightarrow> lazy_inv s'"
proof (induction rule: lazy_step.induct)
  case (call s t u k)
  show ?case by (rule call_inv [OF call(2,1), of _ u k]) simp_all
next
  case (go t throws s s')
  from Get_inv [OF go(2,1)] show ?case .
qed

lemma lazy_inv_new: "lazy_inv (singletons_new k)"
  by (simp add: lazy_inv_def singletons_new_def local_defs entry_def Entry_new_def)

lemma lazy_reach_inv: "lazy_step\<^sup>*\<^sup>* (singletons_new k) s \<Longrightarrow> lazy_inv s"
  by (induction rule: rtranclp_induct) (auto intro: lazy_inv_new lazy_step_inv)


subsection \<open>One object per type\<close>

lemma mutex_owner:
  assumes "lazy_inv s"
  shows "e_mutex (entry s k) = Some t \<Longrightarrow> key_of s t = k \<and> in_entry (pc_of s t)"
    "the_mutex (holders s k) = Some t \<Longrightarrow> key_of s t = k \<and> in_holder (pc_of s t)"
  using assms unfolding lazy_inv_def by blast+

lemma one_holder:
  assumes "lazy_inv s"
  shows "length (holders s k) \<le> 1"
proof -
  have c: "cell_ok (entry s k) (holders s k) (objects s k)" using assms unfolding lazy_inv_def by blast
  show ?thesis
  proof (cases "e_mutex (entry s k)"; cases "m_ptr (entry s k)")
    fix t assume "e_mutex (entry s k) = Some t" "m_ptr (entry s k) = None"
    with mutex_owner(1) [OF assms this(1)] inv_at(2) [OF assms, of t] show ?thesis by (cases "pc_of s t") (auto simp: in_entry_def)
  qed (use c in \<open>auto simp: cell_ok_def\<close>)
qed

lemma one_object:
  assumes "lazy_inv s"
  shows "objects s k \<le> 1"
proof -
  have c: "cell_ok (entry s k) (holders s k) (objects s k)" using assms unfolding lazy_inv_def by blast
  show ?thesis
  proof (cases "the_mutex (holders s k)")
    case None
    with c show ?thesis by (cases "the_state (holders s k) = Living") (auto simp: cell_ok_def)
  next
    case (Some t)
    with mutex_owner(2) [OF assms this] inv_at(2) [OF assms, of t] c show ?thesis by (cases "pc_of s t") (auto simp: in_holder_def cell_ok_def)
  qed
qed

fun writes_instance :: "pc \<Rightarrow> bool" where
  "writes_instance (Holder_set a p) = True"
| "writes_instance _ = False"

fun reads_instance :: "pc \<Rightarrow> bool" where
  "reads_instance (Read_instance a) = True"
| "reads_instance _ = False"

lemma no_race:
  assumes "lazy_inv s" "t \<noteq> t'" "key_of s t' = key_of s t" "writes_instance (pc_of s t)"
  shows "\<not> reads_instance (pc_of s t') \<and> \<not> writes_instance (pc_of s t')"
proof -
  note at = inv_at(2) [OF assms(1), of t] inv_at(2) [OF assms(1), of t']
  from at(1) assms(4) have "the_mutex (holders s (key_of s t)) = Some t" "the_state (holders s (key_of s t)) \<noteq> Living" by (cases "pc_of s t"; simp)+
  with at(2) assms(2,3) show ?thesis by (cases "pc_of s t'") auto
qed

text \<open>C13: However many threads call \<^verbatim>\<open>Get\<close>, from whatever compilation units, and whichever constructions throw: at most one holder and at most one object of
  every type are made, every call that returns has returned that object, and no thread reads the plain pointer to the object or writes
  it while another one is about to write it.\<close>

theorem lazy_singleton_safe:
  assumes "lazy_step\<^sup>*\<^sup>* (singletons_new k0) s"
  shows "objects s k \<le> 1 \<and> length (holders s k) \<le> 1 \<and> list_all (\<lambda>(k, v). v = Some 0 \<and> objects s k = 1) (results s) \<and>
     \<not> (\<exists>t t'. t \<noteq> t' \<and> key_of s t' = key_of s t \<and> writes_instance (pc_of s t) \<and> (reads_instance (pc_of s t') \<or> writes_instance (pc_of s t')))"
proof (intro conjI)
  note inv = lazy_reach_inv [OF assms]
  have "v = Some 0 \<and> objects s k = 1" if "(k, v) \<in> set (results s)" for k v
  proof -
    have "v = Some 0" "the_state (holders s k) = Living" "cell_ok (entry s k) (holders s k) (objects s k)" using inv that unfolding lazy_inv_def by blast+
    then show ?thesis by (simp add: cell_ok_def)
  qed
  then show "list_all (\<lambda>(k, v). v = Some 0 \<and> objects s k = 1) (results s)" by (auto simp: list_all_iff)
  show "\<not> (\<exists>t t'. t \<noteq> t' \<and> key_of s t' = key_of s t \<and> writes_instance (pc_of s t) \<and> (reads_instance (pc_of s t') \<or> writes_instance (pc_of s t')))"
    using no_race [OF inv] by blast
qed (use one_object one_holder lazy_reach_inv [OF assms] in auto)

subsection \<open>Every call returns\<close>

definition lazy_go :: "'k singletons \<Rightarrow> 'k singletons \<Rightarrow> bool" where
  "lazy_go s s' \<longleftrightarrow> (\<exists>t throws. HLazySingleton_Get t throws s = Some s')"

definition idle :: "'k singletons \<Rightarrow> nat \<Rightarrow> bool" where
  "idle s t \<longleftrightarrow> pc_of s t = Finished \<or> pc_of s t = Threw"

text \<open>The steps a thread has to go at most.\<close>

fun rank :: "pc \<Rightarrow> nat" where
  "rank Finished = 0" | "rank Threw = 0" | "rank (Read_instance a) = 1" | "rank (Holder_unlock a) = 2" | "rank (Holder_store a) = 3"
| "rank (Holder_set a p) = 4" | "rank (Holder_new a) = 5" | "rank (Holder_check a) = 6" | "rank (Holder_lock a) = 7" | "rank (Holder_load a) = 8"
| "rank (Cache_store a) = 9" | "rank (Entry_debug a) = 10" | "rank (Entry_store a) = 11" | "rank Entry_make = 12" | "rank Entry_check = 13"
| "rank Entry_lock = 14" | "rank Entry_load = 15" | "rank Find_entry = 16" | "rank Cache_load = 17"

lemma Get_rank:
  assumes "HLazySingleton_Get t throws s = Some s'"
  shows "rank (pc_of s' t) < rank (pc_of s t)" "\<And>t'. t' \<noteq> t \<Longrightarrow> threads s' t' = threads s t'"
  using assms by (cases "pc_of s t"; force simp: HLazySingleton_Get_def StaticSingletonHolder_create_def create_entry_def
      StaticSingletonHolderImpl_Create_def Let_def split: option.splits if_splits)+

lemma holder_there:
  assumes "lazy_inv s" "holder_of (pc_of s t) = Some a"
  shows "a < length (holders s (key_of s t))"
proof -
  have "m_ptr (entry s (key_of s t)) = Some a" using inv_at(2) [OF assms(1), of t] assms(2) by (cases "pc_of s t") auto
  with inv_at(1) [OF assms(1), of t] show ?thesis by (simp add: cell_ok_def)
qed

lemma lock_free_goes:
  assumes "lazy_inv s" "\<not> idle s t" "pc_of s t \<noteq> Entry_lock" "\<And>a. pc_of s t \<noteq> Holder_lock a"
  shows "\<exists>s'. HLazySingleton_Get t throws s = Some s'"
  using assms holder_there [OF assms(1), of t] by (cases "pc_of s t") (auto simp: HLazySingleton_Get_def idle_def)

lemma lazy_progress:
  assumes "lazy_inv s" "\<not> idle s t"
  shows "\<exists>s'. lazy_go s s'"
proof -
  have free: "lazy_go s (the (HLazySingleton_Get t' False s))" if "in_entry (pc_of s t') \<or> in_holder (pc_of s t')" for t'
  proof -
    have "\<not> idle s t'" "pc_of s t' \<noteq> Entry_lock" "\<And>a. pc_of s t' \<noteq> Holder_lock a" using that by (auto simp: in_entry_def in_holder_def idle_def)
    from lock_free_goes [OF assms(1) this] show ?thesis unfolding lazy_go_def by force
  qed
  consider "pc_of s t = Entry_lock" | a where "pc_of s t = Holder_lock a" | "pc_of s t \<noteq> Entry_lock" "\<And>a. pc_of s t \<noteq> Holder_lock a" by blast
  then show ?thesis
  proof cases
    case 1
    then show ?thesis
    proof (cases "e_mutex (entry s (key_of s t))")
      case None
      with 1 show ?thesis unfolding lazy_go_def by (intro exI [of _ "the (HLazySingleton_Get t False s)"] exI [of _ t] exI [of _ False]) (simp add: HLazySingleton_Get_def)
    qed (use free mutex_owner(1) [OF assms(1)] in blast)
  next
    case (2 a)
    have "a = 0" "length (holders s (key_of s t)) = 1" using inv_at [OF assms(1), of t] 2 by (auto simp: cell_ok_def)
    then have m: "the_mutex (holders s (key_of s t)) = h_mutex (holders s (key_of s t) ! a)" by (auto simp: the_mutex_def)
    show ?thesis
    proof (cases "the_mutex (holders s (key_of s t))")
      case None
      with 2 m holder_there [OF assms(1), of t] show ?thesis unfolding lazy_go_def
        by (intro exI [of _ "the (HLazySingleton_Get t False s)"] exI [of _ t] exI [of _ False]) (simp add: HLazySingleton_Get_def)
    qed (use free mutex_owner(2) [OF assms(1)] in blast)
  next
    case 3
    from lock_free_goes [OF assms this] show ?thesis unfolding lazy_go_def by blast
  qed
qed

lemma go_work:
  assumes "lazy_go s s'" "\<And>t. n \<le> t \<Longrightarrow> idle s t"
  shows "(\<Sum>t<n. rank (pc_of s' t)) < (\<Sum>t<n. rank (pc_of s t))" "\<And>t. n \<le> t \<Longrightarrow> idle s' t"
proof -
  from assms(1) obtain t throws where g: "HLazySingleton_Get t throws s = Some s'" unfolding lazy_go_def by blast
  note r = Get_rank [OF g]
  have "t < n" using assms(2) [of t] r(1) by (cases "t < n") (auto simp: idle_def)
  then show "(\<Sum>t<n. rank (pc_of s' t)) < (\<Sum>t<n. rank (pc_of s t))" using r
    by (intro sum_strict_mono_ex1) (auto intro!: bexI [of _ t] le_eq_less_or_eq [THEN iffD2] simp: less_imp_le dest: r(2), metis less_imp_le order_refl r(2))
  show "idle s' t'" if "n \<le> t'" for t' using assms(2) [OF that] r(2) [of t'] \<open>t < n\<close> that by (auto simp: idle_def)
qed

text \<open>C14: The calls of \<^verbatim>\<open>Get\<close> return. While no new calls are made, \<open>n\<close> threads take at most \<open>17 * n\<close> steps together, and as long as one of them has not returned (or
  thrown), some thread can go on: there is no deadlock.\<close>

theorem lazy_Get_returns:
  assumes "lazy_step\<^sup>*\<^sup>* (singletons_new k0) s" "\<And>t. n \<le> t \<Longrightarrow> idle s t" "(lazy_go ^^ m) s s'"
  shows "m \<le> 17 * n \<and> ((\<exists>s''. lazy_go s' s'') \<or> (\<forall>t. idle s' t))"
proof -
  have run: "lazy_inv s' \<and> (\<forall>t \<ge> n. idle s' t) \<and> (\<Sum>t<n. rank (pc_of s' t)) + m \<le> (\<Sum>t<n. rank (pc_of s t))"
    using assms(3)
  proof (induction m arbitrary: s')
    case 0
    then show ?case using lazy_reach_inv [OF assms(1)] assms(2) by auto
  next
    case (Suc m)
    then obtain s1 where s1: "(lazy_go ^^ m) s s1" "lazy_go s1 s'" by auto
    note ih = Suc.IH [OF s1(1)]
    have "lazy_inv s'" using ih s1(2) Get_inv by (auto simp: lazy_go_def)
    with ih go_work [OF s1(2), of n] show ?case by auto
  qed
  have "rank p \<le> 17" for p by (cases p) auto
  then have "(\<Sum>t<n. rank (pc_of s t)) \<le> (\<Sum>t<n. 17)" by (intro sum_mono)
  with run have "m \<le> 17 * n" by simp
  with run lazy_progress [of s'] show ?thesis by blast
qed


subsection \<open>A run\<close>

primrec schedule :: "(nat \<times> bool) list \<Rightarrow> 'k singletons \<Rightarrow> 'k singletons option" where
  "schedule [] s = Some s"
| "schedule (x # xs) s = (case HLazySingleton_Get (fst x) (snd x) s of None \<Rightarrow> None | Some s' \<Rightarrow> schedule xs s')"

lemma schedule_go: "schedule xs s = Some s' \<Longrightarrow> (lazy_go ^^ length xs) s s'"
proof (induction xs arbitrary: s)
  case (Cons x xs)
  then obtain s1 where "HLazySingleton_Get (fst x) (snd x) s = Some s1" "(lazy_go ^^ length xs) s1 s'" by (auto split: option.splits)
  then have "lazy_go s s1" "(lazy_go ^^ length xs) s1 s'" by (auto simp: lazy_go_def)
  then show ?case unfolding length_Cons relpowp_Suc_left by blast
qed simp

text \<open>Two threads in two compilation units ask for one type; the construction of the object throws in the first one and succeeds in the second one.\<close>

definition two_calls :: "unit singletons" where
  "two_calls = (singletons_new ())\<lparr>threads := (\<lambda>_. \<lparr>from_unit = 0, of_key = (), at_pc = Finished\<rparr>)
     (0 := \<lparr>from_unit = 0, of_key = (), at_pc = Cache_load\<rparr>, 1 := \<lparr>from_unit = 1, of_key = (), at_pc = Cache_load\<rparr>)\<rparr>"

lemma two_calls_reach: "lazy_step\<^sup>*\<^sup>* (singletons_new ()) two_calls"
proof -
  let ?s = "(singletons_new ())\<lparr>threads := (threads (singletons_new ()))(0 := \<lparr>from_unit = 0, of_key = (), at_pc = Cache_load\<rparr>)\<rparr>"
  have "lazy_step (singletons_new ()) ?s" by (rule lazy_step.call) (simp add: singletons_new_def)
  moreover have "lazy_step ?s (?s\<lparr>threads := (threads ?s)(1 := \<lparr>from_unit = 1, of_key = (), at_pc = Cache_load\<rparr>)\<rparr>)"
    by (rule lazy_step.call) (simp add: singletons_new_def)
  moreover have "?s\<lparr>threads := (threads ?s)(1 := \<lparr>from_unit = 1, of_key = (), at_pc = Cache_load\<rparr>)\<rparr> = two_calls"
    by (simp add: two_calls_def singletons_new_def)
  ultimately show ?thesis by (metis converse_rtranclp_into_rtranclp rtranclp.rtrancl_refl)
qed

lemma go_reach: "(lazy_go ^^ m) s s' \<Longrightarrow> lazy_step\<^sup>*\<^sup>* s s'"
proof (induction m arbitrary: s')
  case (Suc m)
  then obtain s1 where "lazy_step\<^sup>*\<^sup>* s s1" "lazy_go s1 s'" by auto
  then show ?case unfolding lazy_go_def by (meson lazy_step.go rtranclp.rtrancl_into_rtrancl)
qed simp

definition interleaved :: "(nat \<times> bool) list" where
  "interleaved = [(0, False), (1, False), (0, False), (1, False), (0, False), (1, False), (0, False), (0, False), (0, False), (0, False), (0, False),
     (0, False), (1, False), (1, False), (0, False), (1, False), (1, False), (0, False), (0, False), (0, True), (1, False), (1, False), (1, False), (1, False),
     (1, False), (1, False), (1, False)]"

lemma interleaved_runs: "case schedule interleaved two_calls of None \<Rightarrow> False | Some s \<Rightarrow> results s = [((), Some 0)] \<and> pc_of s 0 = Threw \<and> pc_of s 1 = Finished"
  by code_simp

theorem lazy_singleton_safe_witness:
  "\<exists>s. lazy_step\<^sup>*\<^sup>* (singletons_new ()) s \<and> results s = [((), Some 0)] \<and> pc_of s 0 = Threw \<and> objects s () = 1 \<and> length (holders s ()) \<le> 1"
proof -
  obtain s where s: "schedule interleaved two_calls = Some s" "results s = [((), Some 0)]" "pc_of s 0 = Threw"
    using interleaved_runs by (auto split: option.splits)
  have "lazy_step\<^sup>*\<^sup>* (singletons_new ()) s" using two_calls_reach go_reach [OF schedule_go [OF s(1)]] by (rule rtranclp_trans)
  with lazy_singleton_safe [OF this, of "()"] s(2,3) show ?thesis by (intro exI [of _ s]) auto
qed

theorem lazy_Get_returns_witness:
  "\<exists>s. (lazy_go ^^ 27) two_calls s \<and> (27::nat) \<le> 17 * 2 \<and> ((\<exists>s''. lazy_go s s'') \<or> (\<forall>t. idle s t))"
proof -
  obtain s where s: "schedule interleaved two_calls = Some s" using interleaved_runs by (auto split: option.splits)
  have "length interleaved = 27" by (simp add: interleaved_def)
  then have "(lazy_go ^^ 27) two_calls s" using schedule_go [OF s] by (simp only:)
  moreover have "idle two_calls t" if "2 \<le> t" for t using that by (auto simp: idle_def two_calls_def)
  ultimately show ?thesis using lazy_Get_returns [OF two_calls_reach, of 2 27 s] by auto
qed

end
