(* ===== verification/Log_File.thy ===== *)
theory Log_File
  imports Descriptors File_Name Log_Roll
begin

text \<open>
  The log: its messages, its file with the roll-over and the backups, the class \<^verbatim>\<open>HLog\<close> with the functions around the global
  log, and the modules that open one: \<^verbatim>\<open>src/src/detail/log/\<close>, \<^verbatim>\<open>hlog.cpp\<close> and \<^verbatim>\<open>hmodule.cpp\<close>.

  The calls of \<^verbatim>\<open>Descriptors\<close> and those on names, the clock, the ids of the process and the thread and the standard output
  are parameters, in \<open>log_sys\<close>. A file is known by a number behind its names, as renaming it does not touch a descriptor.
\<close>

subsection \<open>Messages\<close>

definition INFO :: int where "INFO = 0"
definition WARNING :: int where "WARNING = 1"
definition ERROR :: int where "ERROR = 2"

definition LOG_PRIORITY_NAMES :: "string list" where
  "LOG_PRIORITY_NAMES = [''INFO'', ''WARN'', ''ERROR'']"

definition GetLogPriority :: "int \<Rightarrow> string option" where
  "GetLogPriority val = name_at LOG_PRIORITY_NAMES val"

text \<open>A number in a base up to 16, as \<^verbatim>\<open>std::oct\<close> and \<^verbatim>\<open>%x\<close> print it: the value without a sign.\<close>

function radix_digits :: "nat \<Rightarrow> nat \<Rightarrow> string" where
  "radix_digits b n = (if n < b \<or> b < 2 then [''0123456789abcdef'' ! (n mod 16)]
     else radix_digits b (n div b) @ [''0123456789abcdef'' ! (n mod b mod 16)])"
  by pat_completeness auto
termination by (relation "measure snd") (auto simp: div_less_dividend)

declare radix_digits.simps [simp del]

record LogMessage =
  lm_value :: int
  lm_time :: HMicroTime
  lm_message :: string
  lm_filename :: string
  lm_lineno :: HUN

definition LogMessage_new :: "HMicroTime \<Rightarrow> string \<Rightarrow> string \<Rightarrow> HUN \<Rightarrow> int \<Rightarrow> LogMessage" where
  "LogMessage_new now message fn lineno val = \<lparr>lm_value = val, lm_time = now, lm_message = message, lm_filename = fn, lm_lineno = lineno\<rparr>"

text \<open>The stream is set to octal numbers before the message; the number of the line is the one number printed behind it.\<close>

definition GetLogMessage :: "(int \<Rightarrow> tm_t) \<Rightarrow> int \<Rightarrow> HUN \<Rightarrow> LogMessage \<Rightarrow> string option" where
  "GetLogMessage localtime pid thread m = map_option (\<lambda>p.
     ''['' @ GetTimeStr localtime (lm_time m) @ '']['' @ p @ '']['' @ FromN pid @ '']['' @ radix_digits 16 (unat thread) @ '']''
     @ lm_message m @ (if lm_filename m \<noteq> [] then ''['' @ lm_filename m @ '':'' @ radix_digits 8 (unat (lm_lineno m)) @ '']'' else [])
     @ [CHR 0x0A]) (GetLogPriority (lm_value m))"

subsection \<open>The log file\<close>

record 'w log_sys =
  fdk :: "'w fd_kernel"
  k_rename :: "string \<Rightarrow> string \<Rightarrow> 'w \<Rightarrow> int \<times> 'w"
  k_remove :: "string \<Rightarrow> 'w \<Rightarrow> int \<times> 'w"
  k_mkdir :: "string \<Rightarrow> nat \<Rightarrow> 'w \<Rightarrow> nat \<times> 'w"
  k_stat :: "'w \<Rightarrow> string \<Rightarrow> (nat \<times> nat) option"
  k_now :: "'w \<Rightarrow> HMicroTime \<times> 'w"
  k_stdout :: "string \<Rightarrow> 'w \<Rightarrow> 'w"
  k_cwd :: "'w \<Rightarrow> string"
  k_realpath :: "'w \<Rightarrow> string \<Rightarrow> string"
  k_localtime :: "int \<Rightarrow> tm_t"
  k_dirname :: "string \<Rightarrow> string"
  k_pid :: "'w \<Rightarrow> int"
  k_thread :: "'w \<Rightarrow> HUN"

record LogFile =
  lf_fd :: fd_in
  m_roll_strategy :: LogfileRollbackStrategy
  m_backup_logs :: "string list"

type_synonym ('w, 'a) log_action = "(LogFile \<times> 'w, RET_T, 'a) action"

text \<open>The operations of the base class \<^verbatim>\<open>HFileHandle\<close> on the descriptor of the file.\<close>

definition on_fd :: "('w, 'a) fd_action \<Rightarrow> ('w, 'a) log_action" where
  "on_fd m = (\<lambda>(l, w). case m (lf_fd l, w) of (out, b, w) \<Rightarrow> (out, l\<lparr>lf_fd := b\<rparr>, w))"

definition O_APPEND :: int where "O_APPEND = 0x400"

definition log_flags :: int where "log_flags = O_RDWR OR O_CREAT OR O_APPEND"

definition DEFAULT_BACKUP_LOG_COUNT :: nat where "DEFAULT_BACKUP_LOG_COUNT = 7"

definition LogFile_new :: "'w log_sys \<Rightarrow> string \<Rightarrow> int \<Rightarrow> 'w \<Rightarrow> LogFile \<times> 'w" where
  "LogFile_new S strFileName type w = (case k_now S w of (now, w) \<Rightarrow>
     (\<lparr>lf_fd = fd_in_new, m_roll_strategy = \<lparr>m_value = type, m_mtTime = now, m_filename = strFileName\<rparr>, m_backup_logs = []\<rparr>, w))"

text \<open>\<^verbatim>\<open>Rollback\<close> takes the time of the clock; a name read outside its table is undefined.\<close>

definition log_Rollback :: "'w log_sys \<Rightarrow> ('w, string) log_action" where
  "log_Rollback S = act_bind (kernel (k_now S)) (\<lambda>now. with_obj (\<lambda>l.
     case Rollback (k_localtime S) now (m_roll_strategy l) of (n, s) \<Rightarrow>
       act_seq (set_obj (\<lambda>l. l\<lparr>m_roll_strategy := s\<rparr>)) (case n of None \<Rightarrow> act_stuck | Some n \<Rightarrow> act_ret n)))"

definition LogFile_Init :: "'w log_sys \<Rightarrow> ('w, RET_T) log_action" where
  "LogFile_Init S = act_bind (log_Rollback S) (\<lambda>strFileName. on_fd (Open (fdk S) strFileName log_flags default_modes))"

definition drop_old_backup :: "'w log_sys \<Rightarrow> ('w, unit) log_action" where
  "drop_old_backup S = with_obj (\<lambda>l.
     if length (m_backup_logs l) > DEFAULT_BACKUP_LOG_COUNT \<and> m_value (m_roll_strategy l) = DAY
     then act_seq (kernel (fs_Remove (k_remove S) (hd (m_backup_logs l)))) (set_obj (\<lambda>l. l\<lparr>m_backup_logs := tl (m_backup_logs l)\<rparr>))
     else act_ret ())"

definition doRollback :: "'w log_sys \<Rightarrow> HMicroTime \<Rightarrow> ('w, unit) log_action" where
  "doRollback S mt = with_obj (\<lambda>l. let s = m_roll_strategy l; localtime = k_localtime S in
     if NeedRollback localtime s mt then
       (case (GetFileName localtime s [], GetFileName localtime s ''bak'') of
          (Some strSrcFileName, Some strNewFileName) \<Rightarrow>
            act_bind (log_Rollback S) (\<lambda>strFileName.
              act_seq (on_fd (Dup2 (fdk S) strFileName log_flags default_modes))
                (act_seq (kernel (\<lambda>w. case Rename (k_rename S) strSrcFileName strNewFileName w of (r, _, w) \<Rightarrow> (r, w)))
                  (act_seq (set_obj (\<lambda>l. l\<lparr>m_backup_logs := m_backup_logs l @ [strNewFileName]\<rparr>)) (drop_old_backup S))))
        | _ \<Rightarrow> act_stuck)
     else act_ret ())"

definition rollBack :: "'w log_sys \<Rightarrow> HMicroTime \<Rightarrow> ('w, unit) log_action" where
  "rollBack S mt = with_obj (\<lambda>l. if NeedRollback (k_localtime S) (m_roll_strategy l) mt then doRollback S mt else act_ret ())"

definition LogFile_Write :: "'w log_sys \<Rightarrow> LogMessage \<Rightarrow> ('w, int) log_action" where
  "LogFile_Write S msg = act_seq (rollBack S (lm_time msg)) (act_bind (kernel (\<lambda>w. ((k_pid S w, k_thread S w), w))) (\<lambda>(pid, thread).
     case GetLogMessage (k_localtime S) pid thread msg of None \<Rightarrow> act_stuck | Some t \<Rightarrow> on_fd (WriteString (fdk S) t)))"

subsection \<open>The class HLog and the global log\<close>

text \<open>\<^verbatim>\<open>m_plog\<close> is null or a file. \<^verbatim>\<open>Init\<close> makes a new file in its place without deleting the one that is there.\<close>

type_synonym HLog = "LogFile option"

definition HLog_Init :: "'w log_sys \<Rightarrow> string \<Rightarrow> string \<Rightarrow> (HLog \<times> 'w, RET_T, RET_T) action" where
  "HLog_Init S strFilename strRolloverType = (\<lambda>(h, w).
     let log_dic = GetParentDic (k_cwd S w) (k_realpath S w) (k_dirname S) strFilename;
         (ret, w) = (if Exists (k_stat S w) log_dic then (ERR_OK, w) else CreateDirectory (k_mkdir S) log_dic 0x1F6 w)
     in if \<not> IS_OK ret then (AOk ret, h, w)
        else case LogFile_Init S (LogFile_new S strFilename (GetRolloverTypeName strRolloverType) w) of (out, l, w) \<Rightarrow> (out, Some l, w))"

definition HLog_Uninit :: "'w log_sys \<Rightarrow> (HLog \<times> 'w, RET_T, unit) action" where
  "HLog_Uninit S = (\<lambda>(h, w). (AOk (), None, case h of None \<Rightarrow> w | Some l \<Rightarrow> fd_in_delete (fdk S) (lf_fd l) w))"

definition HLog_WriteLog :: "'w log_sys \<Rightarrow> int \<Rightarrow> string \<Rightarrow> HUN \<Rightarrow> string \<Rightarrow> (HLog \<times> 'w, RET_T, unit) action" where
  "HLog_WriteLog S lt fn ll strlog = (\<lambda>(h, w). case k_now S w of (now, w) \<Rightarrow>
     let message = LogMessage_new now strlog fn ll lt in
     case h of None \<Rightarrow> (AOk (), None, k_stdout S (lm_message message @ [CHR 0x0A]) w)
     | Some l \<Rightarrow> (case act_seq (LogFile_Write S message) (act_ret ()) (l, w) of (out, l, w) \<Rightarrow> (out, Some l, w)))"

text \<open>The text of \<^verbatim>\<open>writelog\<close>, formatted, is cut at the length of its buffer.\<close>

definition writelog :: "'w log_sys \<Rightarrow> int \<Rightarrow> string \<Rightarrow> HUN \<Rightarrow> string \<Rightarrow> (HLog \<times> 'w, RET_T, unit) action" where
  "writelog S lt ff ll formatted = HLog_WriteLog S lt (c_str ff) ll (c_str (take (HSTRING_LEN - 1) formatted))"

text \<open>A \<^verbatim>\<open>LogString\<close> writes the text of its stream when it is destroyed.\<close>

definition LogString_flush :: "'w log_sys \<Rightarrow> int \<Rightarrow> string \<Rightarrow> HUN \<Rightarrow> string \<Rightarrow> (HLog \<times> 'w, RET_T, unit) action" where
  "LogString_flush S m_lt m_strFile m_iLine m_logstr = HLog_WriteLog S m_lt m_strFile m_iLine m_logstr"

text \<open>\<^verbatim>\<open>InitLog\<close> ends the program when the log cannot be opened: the outcome is \<open>None\<close>. \<open>file\<close> is the name of the source the
  build gives.\<close>

definition InitLog :: "string \<Rightarrow> 'w log_sys \<Rightarrow> string \<Rightarrow> string \<Rightarrow> HLog \<times> 'w \<Rightarrow> ((RET_T, RET_T) act_out \<times> HLog \<times> 'w) option" where
  "InitLog file S strFilename strRolloverType hw = (case HLog_Init S strFilename strRolloverType hw of
     (AOk ret, hw) \<Rightarrow> if \<not> IS_OK ret then None
       else Some (act_seq (writelog S INFO file 87 (''init log success with logfile['' @ c_str strFilename @ '']'')) (act_ret ERR_OK) hw)
   | r \<Rightarrow> Some r)"

subsection \<open>Modules\<close>

record HSingleModuleBase =
  m_strName :: string
  m_bEnableLog :: bool
  m_bInited :: bool

definition HSingleModuleBase_new :: "string \<Rightarrow> HSingleModuleBase" where
  "HSingleModuleBase_new strName = \<lparr>m_strName = strName, m_bEnableLog = False, m_bInited = False\<rparr>"

definition EnableLog :: "HSingleModuleBase \<Rightarrow> HSingleModuleBase" where
  "EnableLog m = m\<lparr>m_bEnableLog := True\<rparr>"

definition setAsInited :: "HSingleModuleBase \<Rightarrow> HSingleModuleBase" where
  "setAsInited m = m\<lparr>m_bInited := True\<rparr>"

definition module_init_log :: "string \<Rightarrow> 'w log_sys \<Rightarrow> HSingleModuleBase \<Rightarrow> HLog \<times> 'w \<Rightarrow> ((RET_T, RET_T) act_out \<times> HLog \<times> 'w) option" where
  "module_init_log file S m = (\<lambda>(h, w). InitLog file S (GetDicFile (k_cwd S w) (SetAsCurrent (k_cwd S w)) (m_strName m)) ''10MIN'' (h, w))"

text \<open>\<open>moduleInit\<close> is the function of the subclass. The module counts as initialised whatever it returns.\<close>

definition InitModule :: "string \<Rightarrow> 'w log_sys \<Rightarrow> (string \<Rightarrow> HLog \<times> 'w \<Rightarrow> RET_T \<times> HLog \<times> 'w) \<Rightarrow> string \<Rightarrow> HSingleModuleBase \<Rightarrow>
    HLog \<times> 'w \<Rightarrow> ((RET_T, RET_T) act_out \<times> HSingleModuleBase \<times> HLog \<times> 'w) option" where
  "InitModule file S moduleInit strJson m hw =
     (let run = (\<lambda>hw. case moduleInit strJson hw of (ret, hw) \<Rightarrow> Some (AOk ret, setAsInited m, hw)) in
      if \<not> m_bInited m \<and> m_bEnableLog m
      then (case module_init_log file S m hw of None \<Rightarrow> None
            | Some (AOk ret, hw) \<Rightarrow> if \<not> IS_OK ret then Some (AOk ret, m, hw) else run hw
            | Some (out, hw) \<Rightarrow> Some (out, m, hw))
      else run hw)"

text \<open>The number of a line is printed in octal: line 10 of a file appears as 12.\<close>

lemma line_number_octal:
  assumes "f \<noteq> []"
  shows "\<exists>p. GetLogMessage localtime pid thread (LogMessage_new now message f 10 INFO) = Some (p @ message @ ''['' @ f @ '':12]'' @ [CHR 0x0A])"
proof -
  have "radix_digits 8 10 = ''12''" by code_simp
  moreover have "GetLogPriority INFO = Some ''INFO''" by code_simp
  ultimately show ?thesis using assms by (simp add: GetLogMessage_def LogMessage_new_def)
qed

text \<open>A second \<^verbatim>\<open>Init\<close> of a log replaces the file without closing it.\<close>

lemma HLog_Init_forgets:
  "HLog_Init S f ty (Some l, w) = HLog_Init S f ty (None, w) \<or> fst (snd (HLog_Init S f ty (Some l, w))) = Some l"
  by (simp add: HLog_Init_def Let_def split: prod.splits)

subsection \<open>Names, files and descriptors\<close>

text \<open>A directory of names, the bytes of the files and the file each descriptor appends to.\<close>

record fsys =
  names :: "string \<Rightarrow> nat option"
  bytes :: "nat \<Rightarrow> HMEM"
  opened :: "int \<Rightarrow> nat option"

definition opens_at :: "string \<Rightarrow> int \<Rightarrow> fsys \<Rightarrow> fsys \<Rightarrow> bool" where
  "opens_at n fd s s' \<longleftrightarrow> 0 \<le> fd \<and> opened s fd = None \<and> (\<exists>i. s' =
     (if names s n = None then s\<lparr>names := (names s)(n \<mapsto> i), bytes := (bytes s)(i := []), opened := (opened s)(fd \<mapsto> i)\<rparr>
      else s\<lparr>opened := (opened s)(fd \<mapsto> i)\<rparr>) \<and>
     (if names s n = None then i \<notin> ran (names s) \<and> i \<notin> ran (opened s) else names s n = Some i))"

text \<open>The documented behaviour of the calls on a disk with room, for the flags of a log file.\<close>

definition append_law :: "'w log_sys \<Rightarrow> ('w \<Rightarrow> fsys) \<Rightarrow> bool" where
  "append_law S fs \<longleftrightarrow>
     (\<forall>n w. opens_at n (fst (k_open (fdk S) n log_flags default_modes w)) (fs w) (fs (snd (k_open (fdk S) n log_flags default_modes w)))) \<and>
     (\<forall>a b w i. opened (fs w) a = Some i \<longrightarrow> fs (snd (k_dup2 (fdk S) a b w)) = (fs w)\<lparr>opened := (opened (fs w))(b \<mapsto> i)\<rparr>) \<and>
     (\<forall>fd w. fs (k_close (fdk S) fd w) = (fs w)\<lparr>opened := (opened (fs w))(fd := None)\<rparr>) \<and>
     (\<forall>fd bs w i. opened (fs w) fd = Some i \<longrightarrow> fst (k_write (fdk S) fd bs w) = int (length bs) \<and>
        fs (snd (k_write (fdk S) fd bs w)) = (fs w)\<lparr>bytes := (bytes (fs w))(i := bytes (fs w) i @ bs)\<rparr>) \<and>
     (\<forall>fd w. fs (snd (k_syncfs (fdk S) fd w)) = fs w) \<and>
     (\<forall>a b w i. names (fs w) a = Some i \<longrightarrow> a \<noteq> b \<longrightarrow> fs (snd (k_rename S a b w)) = (fs w)\<lparr>names := (names (fs w))(a := None, b \<mapsto> i)\<rparr>) \<and>
     (\<forall>a w. fs (snd (k_remove S a w)) = (fs w)\<lparr>names := (names (fs w))(a := None)\<rparr>) \<and>
     (\<forall>w. fs (snd (k_now S w)) = fs w)"

lemma append_laws:
  assumes "append_law S fs"
  shows "opens_at n (fst (k_open (fdk S) n log_flags default_modes w)) (fs w) (fs (snd (k_open (fdk S) n log_flags default_modes w)))"
    "opened (fs w) a = Some i \<Longrightarrow> fs (snd (k_dup2 (fdk S) a b w)) = (fs w)\<lparr>opened := (opened (fs w))(b \<mapsto> i)\<rparr>"
    "fs (k_close (fdk S) fd w) = (fs w)\<lparr>opened := (opened (fs w))(fd := None)\<rparr>"
    "opened (fs w) fd = Some i \<Longrightarrow> fst (k_write (fdk S) fd bs w) = int (length bs)"
    "opened (fs w) fd = Some i \<Longrightarrow> fs (snd (k_write (fdk S) fd bs w)) = (fs w)\<lparr>bytes := (bytes (fs w))(i := bytes (fs w) i @ bs)\<rparr>"
    "fs (snd (k_syncfs (fdk S) fd w)) = fs w"
    "names (fs w) a' = Some i \<Longrightarrow> a' \<noteq> b' \<Longrightarrow> fs (snd (k_rename S a' b' w)) = (fs w)\<lparr>names := (names (fs w))(a' := None, b' \<mapsto> i)\<rparr>"
    "fs (snd (k_remove S a' w)) = (fs w)\<lparr>names := (names (fs w))(a' := None)\<rparr>"
    "fs (snd (k_now S w)) = fs w"
  using assms unfolding append_law_def by (elim conjE, simp; fail)+

text \<open>What a reader of the directory sees.\<close>

definition view :: "fsys \<Rightarrow> string \<Rightarrow> HMEM option" where
  "view s n = map_option (bytes s) (names s n)"

text \<open>The log writes to the file with the name \<open>n\<close>; no file has two names.\<close>

definition log_at :: "LogFile \<Rightarrow> fsys \<Rightarrow> string \<Rightarrow> bool" where
  "log_at l s n \<longleftrightarrow> \<not> IsInvalid (lf_fd l) \<and> inj_on (names s) (dom (names s)) \<and>
     names s n \<noteq> None \<and> opened s (m_fd (lf_fd l)) = names s n"

lemma view_names: "view (s\<lparr>names := (names s)(a := x)\<rparr>) = (view s)(a := map_option (bytes s) x)"
  by (auto simp: view_def fun_eq_iff)

lemma view_append:
  assumes "log_at l s n" "names s n = Some i"
  shows "view (s\<lparr>bytes := (bytes s)(i := x)\<rparr>) = (view s)(n \<mapsto> x)" "log_at l (s\<lparr>bytes := (bytes s)(i := x)\<rparr>) n"
proof -
  show "view (s\<lparr>bytes := (bytes s)(i := x)\<rparr>) = (view s)(n \<mapsto> x)"
  proof
    fix m
    have "inj_on (names s) (dom (names s))" using assms(1) unfolding log_at_def by blast
    then have "m \<noteq> n \<Longrightarrow> names s m \<noteq> Some i"
      using assms(2) unfolding inj_on_def dom_def by force
    then show "view (s\<lparr>bytes := (bytes s)(i := x)\<rparr>) m = ((view s)(n \<mapsto> x)) m"
      using assms(2) by (cases "m = n"; cases "names s m") (simp_all add: view_def)
  qed
qed (use assms in \<open>simp add: log_at_def\<close>)

lemma inj_names:
  assumes "inj_on m (dom m)"
  shows "i \<notin> ran m \<Longrightarrow> inj_on (m(n \<mapsto> i)) (dom (m(n \<mapsto> i)))" "inj_on (m(a := None)) (dom (m(a := None)))"
    "inj_on (m(a := None, b := m a)) (dom (m(a := None, b := m a)))"
proof -
  have d: "m x = Some k \<Longrightarrow> m y = Some k \<Longrightarrow> x = y" for x y k using assms by (auto simp: inj_on_def dom_def)
  show "i \<notin> ran m \<Longrightarrow> inj_on (m(n \<mapsto> i)) (dom (m(n \<mapsto> i)))" using d by (auto simp: inj_on_def ran_def split: if_splits; metis)
  show "inj_on (m(a := None)) (dom (m(a := None)))" using d by (auto simp: inj_on_def split: if_splits)
  show "inj_on (m(a := None, b := m a)) (dom (m(a := None, b := m a)))" using d by (auto simp: inj_on_def split: if_splits)
qed

lemma opens_at_view:
  assumes "opens_at n fd s s'" "inj_on (names s) (dom (names s))"
  shows "view s' = (if view s n = None then (view s)(n \<mapsto> []) else view s)" "inj_on (names s') (dom (names s'))"
    "names s' n \<noteq> None" "opened s' fd = names s' n" "names s a = Some j \<Longrightarrow> names s' a = Some j"
    "opened s' = (opened s)(fd := names s' n)" "opened s fd = None" "0 \<le> fd"
proof -
  obtain i where i: "s' = (if names s n = None then s\<lparr>names := (names s)(n \<mapsto> i), bytes := (bytes s)(i := []), opened := (opened s)(fd \<mapsto> i)\<rparr>
      else s\<lparr>opened := (opened s)(fd \<mapsto> i)\<rparr>)" "if names s n = None then i \<notin> ran (names s) \<and> i \<notin> ran (opened s) else names s n = Some i"
    using assms(1) unfolding opens_at_def by blast
  show "view s' = (if view s n = None then (view s)(n \<mapsto> []) else view s)"
  proof
    fix m
    have "names s n = None \<Longrightarrow> names s m \<noteq> Some i" using i(2) by (auto simp: ran_def)
    then show "view s' m = (if view s n = None then (view s)(n \<mapsto> []) else view s) m"
      using i(1) by (cases "names s n"; cases "names s m"; cases "m = n") (simp_all add: view_def)
  qed
  show "inj_on (names s') (dom (names s'))" using i inj_names(1) [OF assms(2), of i n] assms(2) by (cases "names s n") auto
  show "names s' n \<noteq> None" "opened s' fd = names s' n" "names s a = Some j \<Longrightarrow> names s' a = Some j" "opened s' = (opened s)(fd := names s' n)"
    using i by (auto split: if_splits)
  show "opened s fd = None" "0 \<le> fd" using assms(1) by (auto simp: opens_at_def)
qed

lemma Dup2_moves:
  assumes "append_law S fs" "inj_on (names (fs w)) (dom (names (fs w)))" "opened (fs w) (m_fd b) \<noteq> None" "c_str n = n"
  shows "\<exists>r w'. Dup2 (fdk S) n log_flags default_modes (b, w) = (AOk r, b, w') \<and> inj_on (names (fs w')) (dom (names (fs w'))) \<and>
    view (fs w') = (if view (fs w) n = None then (view (fs w))(n \<mapsto> []) else view (fs w)) \<and> names (fs w') n \<noteq> None \<and>
    opened (fs w') (m_fd b) = names (fs w') n \<and> (\<forall>a j. names (fs w) a = Some j \<longrightarrow> names (fs w') a = Some j)"
proof -
  obtain fd w1 where o: "k_open (fdk S) n log_flags default_modes w = (fd, w1)" by (cases "k_open (fdk S) n log_flags default_modes w")
  have at: "opens_at n fd (fs w) (fs w1)" using append_laws(1) [OF assms(1), of n w] o by simp
  note v = opens_at_view [OF at assms(2)]
  obtain i where i: "names (fs w1) n = Some i" using v(3) by auto
  obtain r w2 where d: "k_dup2 (fdk S) fd (m_fd b) w1 = (r, w2)" by (cases "k_dup2 (fdk S) fd (m_fd b) w1")
  have f2: "fs w2 = (fs w1)\<lparr>opened := (opened (fs w1))(m_fd b \<mapsto> i)\<rparr>"
    using append_laws(2) [OF assms(1), of w1 fd i "m_fd b"] v(4) i d by simp
  have f3: "fs (k_close (fdk S) fd w2) = (fs w2)\<lparr>opened := (opened (fs w2))(fd := None)\<rparr>" by (rule append_laws(3) [OF assms(1)])
  have "m_fd b \<noteq> fd" using assms(3) v(7) by auto
  moreover have "view (fs (k_close (fdk S) fd w2)) = view (fs w1)" by (simp add: f2 f3 view_def fun_eq_iff)
  ultimately show ?thesis
    using o d v assms(4) i unfolding Dup2_def
    by (intro exI [of _ "if r \<ge> 0 then ERR_OK else SYS_FAILED"] exI [of _ "k_close (fdk S) fd w2"]) (simp add: fd_defs f2 f3)
qed

lemma rename_moves:
  assumes "append_law S fs" "inj_on (names (fs w)) (dom (names (fs w)))" "names (fs w) a = Some j" "a \<noteq> b" "c_str a = a" "c_str b = b"
  shows "\<exists>r x w'. Rename (k_rename S) a b w = (r, x, w') \<and> inj_on (names (fs w')) (dom (names (fs w'))) \<and>
    names (fs w') = (names (fs w))(a := None, b \<mapsto> j) \<and> opened (fs w') = opened (fs w) \<and>
    view (fs w') = (view (fs w))(a := None, b := view (fs w) a)"
proof -
  obtain r w' where r: "k_rename S a b w = (r, w')" by (cases "k_rename S a b w")
  have f: "fs w' = (fs w)\<lparr>names := (names (fs w))(a := None, b \<mapsto> j)\<rparr>" using append_laws(7) [OF assms(1,3,4)] r by simp
  have "inj_on (names (fs w')) (dom (names (fs w')))" using inj_names(3) [OF assms(2), of a b] assms(3) by (simp add: f)
  moreover have "view (fs w') = (view (fs w))(a := None, b := view (fs w) a)" using assms(3) by (simp add: f view_def fun_eq_iff)
  ultimately show ?thesis using r assms(5,6) by (simp add: Rename_def f)
qed

text \<open>What a roll-over does to the files: the file with the new name is there, the old one gets the backup's name and, by
  days, the oldest of more than seven backups goes.\<close>

definition spec_roll :: "string \<Rightarrow> string \<Rightarrow> string \<Rightarrow> string option \<Rightarrow> (string \<Rightarrow> HMEM option) \<Rightarrow> string \<Rightarrow> HMEM option" where
  "spec_roll src bak n old v = (let v = (if v n = None then v(n \<mapsto> []) else v); v = v(src := None, bak := v src)
     in case old of None \<Rightarrow> v | Some b \<Rightarrow> v(b := None))"

definition spec_backups :: "LogFile \<Rightarrow> string \<Rightarrow> string option \<times> string list" where
  "spec_backups l bak = (let bs = m_backup_logs l @ [bak] in
     if length bs > DEFAULT_BACKUP_LOG_COUNT \<and> m_value (m_roll_strategy l) = DAY then (Some (hd bs), tl bs) else (None, bs))"

lemma drop_old_run:
  assumes "append_law S fs" "\<forall>b \<in> set (m_backup_logs l). c_str b = b" "inj_on (names (fs w)) (dom (names (fs w)))"
    "m_backup_logs l = bs @ [bak]" "old = (if length (bs @ [bak]) > DEFAULT_BACKUP_LOG_COUNT \<and> m_value (m_roll_strategy l) = DAY then Some (hd (bs @ [bak])) else None)"
  shows "\<exists>w'. drop_old_backup S (l, w) = (AOk (), l\<lparr>m_backup_logs := if old = None then bs @ [bak] else tl (bs @ [bak])\<rparr>, w') \<and>
    inj_on (names (fs w')) (dom (names (fs w'))) \<and> opened (fs w') = opened (fs w) \<and>
    names (fs w') = (case old of None \<Rightarrow> names (fs w) | Some b \<Rightarrow> (names (fs w))(b := None)) \<and>
    view (fs w') = (case old of None \<Rightarrow> view (fs w) | Some b \<Rightarrow> (view (fs w))(b := None))"
proof (cases old)
  case None
  then have "drop_old_backup S (l, w) = (AOk (), l, w)" using assms(4,5) by (auto simp: drop_old_backup_def fd_defs split: if_splits)
  moreover have "l\<lparr>m_backup_logs := bs @ [bak]\<rparr> = l" using assms(4) by simp
  ultimately show ?thesis using None assms(3) by simp
next
  case (Some b)
  obtain r w' where r: "k_remove S b w = (r, w')" by (cases "k_remove S b w")
  have f: "fs w' = (fs w)\<lparr>names := (names (fs w))(b := None)\<rparr>" using append_laws(8) [OF assms(1), of b w] r by simp
  have h: "hd (m_backup_logs l) = b" using Some assms(4,5) by (auto split: if_splits)
  then have "b \<in> set (m_backup_logs l)" using assms(4) by (metis append_is_Nil_conv hd_in_set not_Cons_self2)
  then have c: "c_str b = b" "hd (m_backup_logs l) = b" using assms(2) h by auto
  then have "drop_old_backup S (l, w) = (AOk (), l\<lparr>m_backup_logs := tl (m_backup_logs l)\<rparr>, w')"
    using Some assms(4,5) r by (auto simp: drop_old_backup_def fs_Remove_def fd_defs split: if_splits)
  moreover have "inj_on (names (fs w')) (dom (names (fs w')))" using inj_names(2) [OF assms(3), of b] by (simp add: f)
  ultimately show ?thesis using Some assms(4) by (simp add: f view_names)
qed

abbreviation new_backups :: "LogFile \<Rightarrow> string \<Rightarrow> string list" where
  "new_backups l bak \<equiv> snd (spec_backups l bak)"

lemma doRollback_run:
  fixes l :: LogFile
  defines "s \<equiv> m_roll_strategy l"
  assumes "append_law S fs" "log_at l (fs w) src" "NeedRollback (k_localtime S) s mt"
    "GetFileName (k_localtime S) s [] = Some src" "GetFileName (k_localtime S) s ''bak'' = Some bak" "src \<noteq> bak"
    "k_now S w = (now, w1)" "GetFileName (k_localtime S) (s\<lparr>m_mtTime := now\<rparr>) [] = Some n" "n \<noteq> bak"
    "\<forall>x \<in> {src, bak, n} \<union> set (m_backup_logs l). c_str x = x" "here = (if n = src then bak else n)" "here \<notin> set (m_backup_logs l)"
  shows "\<exists>w'. let l' = l\<lparr>m_roll_strategy := s\<lparr>m_mtTime := now\<rparr>, m_backup_logs := new_backups l bak\<rparr> in
    doRollback S mt (l, w) = (AOk (), l', w') \<and> view (fs w') = spec_roll src bak n (fst (spec_backups l bak)) (view (fs w)) \<and> log_at l' (fs w') here"
proof -
  have f1: "fs w1 = fs w" using append_laws(9) [OF assms(2), of w] assms(8) by simp
  let ?l1 = "l\<lparr>m_roll_strategy := s\<lparr>m_mtTime := now\<rparr>\<rparr>" and ?bs = "m_backup_logs l @ [bak]"
  obtain j where j: "names (fs w) src = Some j" "opened (fs w) (m_fd (lf_fd l)) = Some j" "inj_on (names (fs w)) (dom (names (fs w)))"
    "\<not> IsInvalid (lf_fd l)" using assms(3) by (auto simp: log_at_def)
  obtain r w2 where d: "Dup2 (fdk S) n log_flags default_modes (lf_fd l, w1) = (AOk r, lf_fd l, w2)" "inj_on (names (fs w2)) (dom (names (fs w2)))"
    "view (fs w2) = (if view (fs w) n = None then (view (fs w))(n \<mapsto> []) else view (fs w))" "names (fs w2) n \<noteq> None"
    "opened (fs w2) (m_fd (lf_fd l)) = names (fs w2) n" "names (fs w2) src = Some j"
    using Dup2_moves [OF assms(2), of w1 "lf_fd l" n] j assms(11) f1 by auto
  obtain r3 x w3 where m: "Rename (k_rename S) src bak w2 = (r3, x, w3)" "inj_on (names (fs w3)) (dom (names (fs w3)))"
    "names (fs w3) = (names (fs w2))(src := None, bak \<mapsto> j)" "opened (fs w3) = opened (fs w2)"
    "view (fs w3) = (view (fs w2))(src := None, bak := view (fs w2) src)"
    using rename_moves [OF assms(2) d(2,6) assms(7)] assms(11) by auto
  define old where "old = fst (spec_backups l bak)"
  let ?l2 = "?l1\<lparr>m_backup_logs := ?bs\<rparr>" and ?l3 = "?l1\<lparr>m_backup_logs := new_backups l bak\<rparr>"
  have old: "old = (if length ?bs > DEFAULT_BACKUP_LOG_COUNT \<and> m_value (m_roll_strategy ?l2) = DAY then Some (hd ?bs) else None)"
    by (simp add: old_def spec_backups_def s_def Let_def)
  have new: "(if old = None then ?bs else tl ?bs) = new_backups l bak" by (simp add: old_def spec_backups_def Let_def)
  obtain w' where e: "drop_old_backup S (?l2, w3) = (AOk (), ?l3, w')" "inj_on (names (fs w')) (dom (names (fs w')))"
    "opened (fs w') = opened (fs w3)" "names (fs w') = (case old of None \<Rightarrow> names (fs w3) | Some b \<Rightarrow> (names (fs w3))(b := None))"
    "view (fs w') = (case old of None \<Rightarrow> view (fs w3) | Some b \<Rightarrow> (view (fs w3))(b := None))"
    using drop_old_run [OF assms(2) _ m(2), of ?l2 "m_backup_logs l" bak old] assms(11) old unfolding new by auto
  have "doRollback S mt (l, w) = (AOk (), ?l3, w')"
    using assms(4-6,8,9) d(1) m(1) e(1) s_def
    by (simp add: doRollback_def log_Rollback_def Rollback_def on_fd_def fd_defs Let_def)
  moreover have "view (fs w') = spec_roll src bak n old (view (fs w))"
    unfolding e(5) m(5) d(3) spec_roll_def Let_def by (simp split: option.splits)
  moreover have "old \<noteq> Some here"
  proof
    assume "old = Some here"
    then have "hd ?bs = here" "m_backup_logs l \<noteq> []" using old by (auto simp: DEFAULT_BACKUP_LOG_COUNT_def split: if_splits)
    then show False using assms(13) hd_in_set [of "m_backup_logs l"] by (simp add: hd_append)
  qed
  then have "names (fs w') here = names (fs w3) here" unfolding e(4) by (cases old) auto
  then have "log_at ?l3 (fs w') here"
    using e(2,3) m(3,4) d(4-6) j(4) assms(7,10,12) by (auto simp: log_at_def)
  ultimately show ?thesis unfolding old_def Let_def by blast
qed

subsection \<open>Names of log files\<close>

lemma name_tail_chars: "tm_fields t \<Longrightarrow> c \<in> set (name_tail v t) \<Longrightarrow> is_digit c \<or> c = CHR ''_''"
  and name_tail_last: "tm_fields t \<Longrightarrow> name_tail v t \<noteq> [] \<and> is_digit (last (name_tail v t))"
proof -
  assume t: "tm_fields t"
  obtain k where k: "k < 6" "Get10MintuesType (tm_min t) = int k" using ten_minutes [of "tm_min t"] t by (auto simp: tm_fields_def)
  have "\<forall>n \<in> set LOG_TEN_MINTUES_TYPE_NAMES. n \<noteq> [] \<and> (\<forall>c \<in> set n. is_digit c)"
    by (simp add: LOG_TEN_MINTUES_TYPE_NAMES_def is_digit_def)
  moreover have "LOG_TEN_MINTUES_TYPE_NAMES ! k \<in> set LOG_TEN_MINTUES_TYPE_NAMES"
    by (rule nth_mem) (use k(1) in \<open>simp add: LOG_TEN_MINTUES_TYPE_NAMES_def\<close>)
  ultimately have n: "LOG_TEN_MINTUES_TYPE_NAMES ! k \<noteq> []" "\<forall>c \<in> set (LOG_TEN_MINTUES_TYPE_NAMES ! k). is_digit c" by blast+
  have z: "is_digit (CHR ''0'')" by (simp add: is_digit_def)
  show "c \<in> set (name_tail v t) \<Longrightarrow> is_digit c \<or> c = CHR ''_''"
    using k n(2) z by (auto simp: name_tail_def dest: fw_digits split: if_splits)
  have f: "fw 2 m \<noteq> [] \<and> is_digit (last (fw 2 m))" for m
    using length_fw [of 2 m] fw_digits [of _ 2 m] last_in_set [of "fw 2 m"] by fastforce
  show "name_tail v t \<noteq> [] \<and> is_digit (last (name_tail v t))"
    using k n z f last_in_set [OF n(1)] by (simp add: name_tail_def)
qed

definition log_base :: "(int \<Rightarrow> tm_t) \<Rightarrow> LogfileRollbackStrategy \<Rightarrow> string" where
  "log_base localtime s = m_filename s @ ''_'' @ FromN (1900 + tm_year (localtime (mt_sec (m_mtTime s)))) @
     name_tail (m_value s) (localtime (mt_sec (m_mtTime s)))"

text \<open>A backup ends in a way no name of a current file does.\<close>

definition backup_name :: "string \<Rightarrow> bool" where
  "backup_name b \<longleftrightarrow> CHR 0x00 \<notin> set b \<and> (\<exists>p. b = p @ ''_bak.log'')"

lemma log_names:
  assumes "\<forall>n. tm_fields (localtime n)" "CHR 0x00 \<notin> set (m_filename s)"
  shows "GetFileName localtime s [] = Some (log_base localtime s @ ''.log'')"
    "GetFileName localtime s ''bak'' = Some (log_base localtime s @ ''_bak.log'')"
    "c_str (log_base localtime s @ ''.log'') = log_base localtime s @ ''.log''" "backup_name (log_base localtime s @ ''_bak.log'')"
    "backup_name b \<Longrightarrow> b \<noteq> log_base localtime s @ ''.log''" "backup_name b \<Longrightarrow> c_str b = b"
proof -
  let ?t = "localtime (mt_sec (m_mtTime s))"
  have t: "tm_fields ?t" using assms(1) by blast
  show "GetFileName localtime s [] = Some (log_base localtime s @ ''.log'')"
    "GetFileName localtime s ''bak'' = Some (log_base localtime s @ ''_bak.log'')"
    using GetFileName_tail [where localtime = localtime and s = s, OF t] by (simp_all add: log_base_def)
  have z: "\<not> is_digit (CHR 0x00)" "\<not> is_digit (CHR ''k'')" by (simp_all add: is_digit_def)
  have "CHR 0x00 \<notin> set (FromN (1900 + tm_year ?t))"
    using nat_digits_all [of "nat (1900 + tm_year ?t)"] z t by (auto simp: FromN_def tm_fields_def)
  moreover have "CHR 0x00 \<notin> set (name_tail (m_value s) ?t)" using name_tail_chars [OF t, of "CHR 0x00"] z by auto
  ultimately have nul: "CHR 0x00 \<notin> set (log_base localtime s)" using assms(2) by (simp add: log_base_def)
  then show "c_str (log_base localtime s @ ''.log'') = log_base localtime s @ ''.log''" by (intro c_str_id) simp
  show "backup_name (log_base localtime s @ ''_bak.log'')" using nul by (simp add: backup_name_def)
  show "backup_name b \<Longrightarrow> c_str b = b" by (rule c_str_id) (simp add: backup_name_def)
  show "b \<noteq> log_base localtime s @ ''.log''" if "backup_name b"
  proof
    assume "b = log_base localtime s @ ''.log''"
    then obtain p where "log_base localtime s @ ''.log'' = (p @ ''_bak'') @ ''.log''" using \<open>backup_name b\<close> by (auto simp: backup_name_def)
    then have "log_base localtime s = p @ ''_bak''" by (simp only: append_same_eq)
    then have "last (log_base localtime s) = CHR ''k''" by simp
    then show False using name_tail_last [OF t, of "m_value s"] z by (simp add: log_base_def)
  qed
qed

subsection \<open>What a written message does to the files\<close>

definition log_ok :: "'w log_sys \<Rightarrow> ('w \<Rightarrow> fsys) \<Rightarrow> LogFile \<Rightarrow> 'w \<Rightarrow> bool" where
  "log_ok S fs l w \<longleftrightarrow> (let s = m_roll_strategy l in
     log_at l (fs w) (log_base (k_localtime S) s @ ''.log'') \<and> m_value s \<in> {DAY, HOUR, HALFHOUR, TENMIN} \<and>
     CHR 0x00 \<notin> set (m_filename s) \<and> (\<forall>b \<in> set (m_backup_logs l). backup_name b))"

definition spec_append :: "string \<Rightarrow> string \<Rightarrow> (string \<Rightarrow> HMEM option) \<Rightarrow> string \<Rightarrow> HMEM option" where
  "spec_append n t v = v(n \<mapsto> the (v n) @ bytes_of t)"

text \<open>A message goes to the end of the current file; when it opens a new interval, the files are rolled over before.\<close>

definition spec_write :: "'w log_sys \<Rightarrow> LogFile \<Rightarrow> HMicroTime \<Rightarrow> LogMessage \<Rightarrow> string \<Rightarrow> (string \<Rightarrow> HMEM option) \<Rightarrow> string \<Rightarrow> HMEM option" where
  "spec_write S l now msg t v =
     (let s = m_roll_strategy l; base = log_base (k_localtime S) s; base' = log_base (k_localtime S) (s\<lparr>m_mtTime := now\<rparr>);
          bak = base @ ''_bak.log''
      in if NeedRollback (k_localtime S) s (lm_time msg)
         then spec_append (base' @ ''.log'') t (spec_roll (base @ ''.log'') bak (base' @ ''.log'') (fst (spec_backups l bak)) v)
         else spec_append (base @ ''.log'') t v)"

lemma on_fd_WriteString:
  assumes "append_law S fs" "log_at l (fs w) n"
  shows "\<exists>w'. on_fd (WriteString (fdk S) t) (l, w) = (AOk (int (length t)), l, w') \<and> view (fs w') = spec_append n t (view (fs w)) \<and> log_at l (fs w') n"
proof -
  obtain i where i: "names (fs w) n = Some i" "opened (fs w) (m_fd (lf_fd l)) = Some i" "\<not> IsInvalid (lf_fd l)"
    using assms(2) by (auto simp: log_at_def)
  obtain r w1 where k: "k_write (fdk S) (m_fd (lf_fd l)) (bytes_of t) w = (r, w1)" by (cases "k_write (fdk S) (m_fd (lf_fd l)) (bytes_of t) w")
  obtain q w2 where y: "k_syncfs (fdk S) (m_fd (lf_fd l)) w1 = (q, w2)" by (cases "k_syncfs (fdk S) (m_fd (lf_fd l)) w1")
  have "r = int (length t)" "fs w2 = (fs w)\<lparr>bytes := (bytes (fs w))(i := bytes (fs w) i @ bytes_of t)\<rparr>"
    using append_laws(4,5) [OF assms(1) i(2), of "bytes_of t"] append_laws(6) [OF assms(1), of "m_fd (lf_fd l)" w1] k y
    by (simp_all add: bytes_of_def)
  moreover have "on_fd (WriteString (fdk S) t) (l, w) = (AOk r, l, w2)"
    using i(3) k y by (simp add: on_fd_def WriteString_def fd_Write_def Sync_def fd_defs)
  moreover have "the (view (fs w) n) = bytes (fs w) i" using i(1) by (simp add: view_def)
  ultimately show ?thesis using view_append [OF assms(2) i(1)] by (simp add: spec_append_def)
qed

lemma LogFile_Write_steps:
  assumes "rollBack S (lm_time msg) (l, w) = (AOk (), l', w')" "\<forall>w. k_pid S w = pid" "\<forall>w. k_thread S w = thread"
    "GetLogMessage (k_localtime S) pid thread msg = Some t"
  shows "LogFile_Write S msg (l, w) = on_fd (WriteString (fdk S) t) (l', w')"
  using assms by (simp add: LogFile_Write_def fd_defs)

lemma rollBack_run:
  fixes l :: LogFile
  defines "s \<equiv> m_roll_strategy l"
  assumes "append_law S fs" "\<forall>n. tm_fields (k_localtime S n)" "log_ok S fs l w" "NeedRollback (k_localtime S) s mt"
    "k_now S w = (now, w1)" "bak = log_base (k_localtime S) s @ ''_bak.log''" "bak \<notin> set (m_backup_logs l) \<or> n \<noteq> src"
    "src = log_base (k_localtime S) s @ ''.log''" "n = log_base (k_localtime S) (s\<lparr>m_mtTime := now\<rparr>) @ ''.log''"
  shows "\<exists>w'. let l' = l\<lparr>m_roll_strategy := s\<lparr>m_mtTime := now\<rparr>, m_backup_logs := new_backups l bak\<rparr> in
    rollBack S mt (l, w) = (AOk (), l', w') \<and> view (fs w') = spec_roll src bak n (fst (spec_backups l bak)) (view (fs w)) \<and>
    log_at l' (fs w') (if n = src then bak else n)"
proof -
  let ?s' = "s\<lparr>m_mtTime := now\<rparr>"
  have f: "CHR 0x00 \<notin> set (m_filename s)" "CHR 0x00 \<notin> set (m_filename ?s')" and bs: "\<forall>b \<in> set (m_backup_logs l). backup_name b"
    using assms(4) by (simp_all add: log_ok_def s_def Let_def)
  note ns = log_names [OF assms(3) f(1)] and nn = log_names [OF assms(3) f(2)]
  have "log_at l (fs w) src" using assms(4,9) by (simp add: log_ok_def s_def Let_def)
  moreover have "backup_name bak" using ns(4) assms(7) by simp
  moreover have "src \<noteq> bak" "n \<noteq> bak" using ns(5) nn(5) \<open>backup_name bak\<close> assms(9,10) by metis+
  moreover have "\<forall>x \<in> {src, bak, n} \<union> set (m_backup_logs l). c_str x = x"
    using ns(3,6) nn(3) \<open>backup_name bak\<close> bs assms(9,10) by auto
  moreover have "(if n = src then bak else n) \<notin> set (m_backup_logs l)"
    using assms(8,10) nn(5) bs by auto
  ultimately show ?thesis
    using doRollback_run [OF assms(2), of l w src mt bak now w1 n] assms(5,6,7,9,10) ns(1,2) nn(1) s_def
    by (simp add: rollBack_def with_obj_def Let_def)
qed

lemma log_ok_step:
  assumes "log_ok S fs l w" "\<forall>n. tm_fields (k_localtime S n)" "bak = log_base (k_localtime S) (m_roll_strategy l) @ ''_bak.log''"
    "l' = l\<lparr>m_roll_strategy := (m_roll_strategy l)\<lparr>m_mtTime := now\<rparr>, m_backup_logs := new_backups l bak\<rparr>"
    "log_at l' (fs w') (log_base (k_localtime S) ((m_roll_strategy l)\<lparr>m_mtTime := now\<rparr>) @ ''.log'')"
  shows "log_ok S fs l' w'"
proof -
  have "backup_name bak" using log_names(4) [OF assms(2)] assms(1,3) by (simp add: log_ok_def Let_def)
  moreover have "set (new_backups l bak) \<subseteq> set (m_backup_logs l) \<union> {bak}"
    by (cases "m_backup_logs l") (auto simp: spec_backups_def Let_def)
  ultimately show ?thesis using assms(1,4,5) by (auto simp: log_ok_def Let_def)
qed

text \<open>C23: A message written when the clock is in the message's interval goes to the end of the file of that interval. If it opens
  the interval, the file before it is renamed to its backup with all its bytes and, by days, the oldest of more than seven backups is
  removed; no other file changes, and the log goes on at the new file.\<close>

theorem LogFile_Write_refines:
  assumes "append_law S fs" "\<forall>n. tm_fields (k_localtime S n)" "\<forall>w. k_pid S w = pid" "\<forall>w. k_thread S w = thread"
    "GetLogMessage (k_localtime S) pid thread msg = Some t" "log_ok S fs l w" "k_now S w = (now, w1)"
    "\<not> NeedRollback (k_localtime S) ((m_roll_strategy l)\<lparr>m_mtTime := now\<rparr>) (lm_time msg)"
  shows "\<exists>l' w'. LogFile_Write S msg (l, w) = (AOk (int (length t)), l', w') \<and> log_ok S fs l' w' \<and>
    view (fs w') = spec_write S l now msg t (view (fs w))"
proof -
  define s where "s = m_roll_strategy l"
  define src where "src = log_base (k_localtime S) s @ ''.log''"
  define bak where "bak = log_base (k_localtime S) s @ ''_bak.log''"
  define n where "n = log_base (k_localtime S) (s\<lparr>m_mtTime := now\<rparr>) @ ''.log''"
  have ok: "log_at l (fs w) src" "CHR 0x00 \<notin> set (m_filename s)" "m_value s \<in> {DAY, HOUR, HALFHOUR, TENMIN}"
    using assms(6) by (simp_all add: log_ok_def s_def src_def Let_def)
  show ?thesis
  proof (cases "NeedRollback (k_localtime S) s (lm_time msg)")
    case False
    then have "rollBack S (lm_time msg) (l, w) = (AOk (), l, w)" by (simp add: rollBack_def with_obj_def s_def)
    from LogFile_Write_steps [where S = S, OF this assms(3-5)] on_fd_WriteString [OF assms(1) ok(1), of t]
    obtain w' where "LogFile_Write S msg (l, w) = (AOk (int (length t)), l, w')" "view (fs w') = spec_append src t (view (fs w))" "log_at l (fs w') src"
      by auto
    then show ?thesis using False assms(6) by (auto simp: log_ok_def spec_write_def Let_def s_def src_def)
  next
    case True
    let ?name = "GetFileName (k_localtime S)"
    have "?name (s\<lparr>m_mtTime := lm_time msg\<rparr>) [] \<noteq> ?name s []" "?name (s\<lparr>m_mtTime := lm_time msg\<rparr>) [] = ?name (s\<lparr>m_mtTime := now\<rparr>) []"
      using True assms(8) NeedRollback_iff_new_name [where localtime = "k_localtime S" and cmt = "lm_time msg" and s = s and e = "[]"]
        NeedRollback_iff_new_name [where localtime = "k_localtime S" and cmt = "lm_time msg" and s = "s\<lparr>m_mtTime := now\<rparr>" and e = "[]"]
        assms(2) ok(3) by (simp_all add: s_def)
    then have "n \<noteq> src"
      using log_names(1) [OF assms(2), of s] log_names(1) [OF assms(2), of "s\<lparr>m_mtTime := now\<rparr>"] ok(2) by (simp add: n_def src_def)
    define l' where "l' = l\<lparr>m_roll_strategy := s\<lparr>m_mtTime := now\<rparr>, m_backup_logs := new_backups l bak\<rparr>"
    obtain w2 where r: "rollBack S (lm_time msg) (l, w) = (AOk (), l', w2)" "view (fs w2) = spec_roll src bak n (fst (spec_backups l bak)) (view (fs w))"
      "log_at l' (fs w2) n"
      using rollBack_run [OF assms(1,2,6) _ assms(7), of "lm_time msg" bak n src] True \<open>n \<noteq> src\<close>
      by (auto simp: s_def src_def bak_def n_def l'_def Let_def)
    from LogFile_Write_steps [where S = S, OF r(1) assms(3-5)] on_fd_WriteString [OF assms(1) r(3), of t]
    obtain w' where w': "LogFile_Write S msg (l, w) = (AOk (int (length t)), l', w')" "view (fs w') = spec_append n t (view (fs w2))" "log_at l' (fs w') n"
      by auto
    moreover have "log_ok S fs l' w'"
      using log_ok_step [OF assms(6,2) bak_def [unfolded s_def] l'_def [unfolded s_def]] w'(3) by (simp add: n_def s_def)
    ultimately show ?thesis using True r(2) by (auto simp: spec_write_def Let_def s_def src_def bak_def n_def)
  qed
qed

text \<open>C24: A message from before the roll-over that is written after it rolls the current file over once more: the file is renamed to its
  backup while the log still writes to it. The late message and those that follow in the interval are in the backup, and the file of
  the interval does not exist.\<close>

theorem late_message_moves_log:
  assumes "append_law S fs" "\<forall>n. tm_fields (k_localtime S n)" "\<forall>w. k_pid S w = pid" "\<forall>w. k_thread S w = thread"
    "GetLogMessage (k_localtime S) pid thread late = Some t" "GetLogMessage (k_localtime S) pid thread msg = Some t'"
    "log_ok S fs l w" "k_now S w = (now, w1)" "NeedRollback (k_localtime S) (m_roll_strategy l) (lm_time late)"
    "log_base (k_localtime S) ((m_roll_strategy l)\<lparr>m_mtTime := now\<rparr>) = log_base (k_localtime S) (m_roll_strategy l)"
    "\<not> NeedRollback (k_localtime S) ((m_roll_strategy l)\<lparr>m_mtTime := now\<rparr>) (lm_time msg)"
    "log_base (k_localtime S) (m_roll_strategy l) @ ''_bak.log'' \<notin> set (m_backup_logs l)"
  shows "\<exists>l' w' l'' w''. LogFile_Write S late (l, w) = (AOk (int (length t)), l', w') \<and> LogFile_Write S msg (l', w') = (AOk (int (length t')), l'', w'') \<and>
    view (fs w'') (log_base (k_localtime S) (m_roll_strategy l) @ ''.log'') = None \<and>
    view (fs w'') (log_base (k_localtime S) (m_roll_strategy l) @ ''_bak.log'') =
      Some (the (view (fs w) (log_base (k_localtime S) (m_roll_strategy l) @ ''.log'')) @ bytes_of t @ bytes_of t')"
proof -
  define s where "s = m_roll_strategy l"
  define src where "src = log_base (k_localtime S) s @ ''.log''"
  define bak where "bak = log_base (k_localtime S) s @ ''_bak.log''"
  define l' where "l' = l\<lparr>m_roll_strategy := s\<lparr>m_mtTime := now\<rparr>, m_backup_logs := new_backups l bak\<rparr>"
  obtain w2 where r: "rollBack S (lm_time late) (l, w) = (AOk (), l', w2)" "view (fs w2) = spec_roll src bak src (fst (spec_backups l bak)) (view (fs w))"
    "log_at l' (fs w2) bak"
    using rollBack_run [OF assms(1,2,7) assms(9,8), of bak src src] assms(10,12) by (auto simp: s_def src_def bak_def l'_def Let_def)
  from LogFile_Write_steps [where S = S, OF r(1) assms(3,4,5)] on_fd_WriteString [OF assms(1) r(3), of t]
  obtain w' where w': "LogFile_Write S late (l, w) = (AOk (int (length t)), l', w')" "view (fs w') = spec_append bak t (view (fs w2))" "log_at l' (fs w') bak"
    by auto
  have "rollBack S (lm_time msg) (l', w') = (AOk (), l', w')" using assms(11) by (simp add: rollBack_def with_obj_def l'_def s_def)
  from LogFile_Write_steps [where S = S, OF this assms(3,4,6)] on_fd_WriteString [OF assms(1) w'(3), of t']
  obtain w'' where w'': "LogFile_Write S msg (l', w') = (AOk (int (length t')), l', w'')" "view (fs w'') = spec_append bak t' (view (fs w'))" by auto
  have ok: "log_at l (fs w) src" "CHR 0x00 \<notin> set (m_filename s)" "\<forall>b \<in> set (m_backup_logs l). backup_name b"
    using assms(7) by (simp_all add: log_ok_def s_def src_def Let_def)
  have ne: "src \<noteq> bak" using log_names(4,5) [OF assms(2) ok(2)] by (metis src_def bak_def)
  have v: "view (fs w) src \<noteq> None" using ok(1) by (auto simp: log_at_def view_def)
  have "fst (spec_backups l bak) \<noteq> Some bak" using assms(12) hd_in_set [of "m_backup_logs l"]
    by (cases "m_backup_logs l") (auto simp: spec_backups_def Let_def DEFAULT_BACKUP_LOG_COUNT_def bak_def s_def)
  then have "view (fs w2) bak = view (fs w) src" "view (fs w2) src = None"
    using v ne unfolding r(2) spec_roll_def by (auto simp: Let_def split: option.splits)
  then have "view (fs w'') src = None" "view (fs w'') bak = Some (the (view (fs w) src) @ bytes_of t @ bytes_of t')"
    using ne by (simp_all add: w''(2) w'(2) spec_append_def)
  then show ?thesis using w'(1) w''(1) unfolding src_def bak_def s_def by blast
qed

subsection \<open>A small system\<close>

record log_disk =
  d_names :: "(string \<times> nat) list"
  d_bytes :: "nat \<Rightarrow> HMEM"
  d_open :: "(int \<times> nat) list"
  d_now :: HMicroTime

definition fsys_of :: "log_disk \<Rightarrow> fsys" where
  "fsys_of d = \<lparr>names = map_of (d_names d), bytes = d_bytes d, opened = map_of (d_open d)\<rparr>"

definition fresh_above :: "nat list \<Rightarrow> nat" where
  "fresh_above ns = Suc (fold max ns 0)"

definition without :: "'k \<Rightarrow> ('k \<times> 'v) list \<Rightarrow> ('k \<times> 'v) list" where
  "without k xs = filter (\<lambda>p. fst p \<noteq> k) xs"

definition small_log_fd :: "log_disk fd_kernel" where
  "small_log_fd = \<lparr>k_close = \<lambda>fd w. w\<lparr>d_open := without fd (d_open w)\<rparr>, k_read = \<lambda>fd n w. ((- 1, []), w),
     k_write = \<lambda>fd bs w. (case map_of (d_open w) fd of None \<Rightarrow> (- 1, w)
       | Some i \<Rightarrow> (int (length bs), w\<lparr>d_bytes := (d_bytes w)(i := d_bytes w i @ bs)\<rparr>)),
     k_pread = \<lambda>fd n off w. ((- 1, []), w), k_pwrite = \<lambda>fd bs off w. (- 1, w), k_writev = \<lambda>fd bs w. (- 1, w), k_readv = \<lambda>fd ns w. ((- 1, []), w),
     k_getfl = \<lambda>fd w. 0, k_setfl = \<lambda>fd v w. (- 1, w),
     k_open = \<lambda>f fl m w. (let fd = int (fresh_above (map (nat \<circ> fst) (d_open w))); i = fresh_above (map snd (d_names w) @ map snd (d_open w))
       in case map_of (d_names w) f of Some j \<Rightarrow> (fd, w\<lparr>d_open := (fd, j) # d_open w\<rparr>)
          | None \<Rightarrow> (fd, w\<lparr>d_names := (f, i) # d_names w, d_bytes := (d_bytes w)(i := []), d_open := (fd, i) # d_open w\<rparr>)),
     k_dup = \<lambda>fd w. (- 1, w),
     k_dup2 = \<lambda>a b w. (case map_of (d_open w) a of None \<Rightarrow> (- 1, w) | Some i \<Rightarrow> (b, w\<lparr>d_open := (b, i) # d_open w\<rparr>)),
     k_flock = \<lambda>fd x w. (0, w), k_syncfs = \<lambda>fd w. (0, w), k_ftruncate = \<lambda>fd n w. (- 1, w),
     k_tmpfile = \<lambda>w. (None, w), k_setlk = \<lambda>fd a b c d e w. (0, w), k_lockf = \<lambda>fd c w. (0, w), k_errno = \<lambda>w. 0\<rparr>"

definition small_log :: "log_disk log_sys" where
  "small_log = \<lparr>fdk = small_log_fd,
     k_rename = \<lambda>a b w. (case map_of (d_names w) a of None \<Rightarrow> (- 1, w) | Some i \<Rightarrow> (0, w\<lparr>d_names := (b, i) # without a (d_names w)\<rparr>)),
     k_remove = \<lambda>a w. (0, w\<lparr>d_names := without a (d_names w)\<rparr>), k_mkdir = \<lambda>d m w. (0, w), k_stat = \<lambda>w d. Some (S_IFDIR, 0),
     k_now = \<lambda>w. (d_now w, w), k_stdout = \<lambda>t w. w, k_cwd = \<lambda>w. ''/srv/bin'', k_realpath = \<lambda>w p. p, k_localtime = clock_of_days,
     k_dirname = dirname_plain, k_pid = \<lambda>w. 17, k_thread = \<lambda>w. 0xbeef\<rparr>"

lemma map_of_without: "map_of (without k xs) = (map_of xs)(k := None)"
  by (induction xs) (auto simp: without_def)

lemma fresh_above_new: "n \<in> set ns \<Longrightarrow> n < fresh_above ns"
  using fold_max_ge [where ps = ns and b = 0 and x = n] by (auto simp: fresh_above_def less_Suc_eq_le)

lemma small_log_opens: "opens_at n (fst (k_open small_log_fd n fl m w)) (fsys_of w) (fsys_of (snd (k_open small_log_fd n fl m w)))"
proof -
  have "map_of (d_open w) (int (fresh_above (map (nat \<circ> fst) (d_open w)))) = None"
  proof (rule ccontr)
    assume "map_of (d_open w) (int (fresh_above (map (nat \<circ> fst) (d_open w)))) \<noteq> None"
    then obtain i where "(int (fresh_above (map (nat \<circ> fst) (d_open w))), i) \<in> set (d_open w)" by (auto dest: map_of_SomeD)
    then have "fresh_above (map (nat \<circ> fst) (d_open w)) \<in> set (map (nat \<circ> fst) (d_open w))" by force
    then show False using fresh_above_new by blast
  qed
  moreover have "fresh_above (map snd (d_names w) @ map snd (d_open w)) \<notin> ran (map_of (d_names w))"
    "fresh_above (map snd (d_names w) @ map snd (d_open w)) \<notin> ran (map_of (d_open w))"
    using fresh_above_new [of _ "map snd (d_names w) @ map snd (d_open w)"] by (force simp: ran_def dest: map_of_SomeD)+
  ultimately show ?thesis
    by (cases "map_of (d_names w) n") (auto simp: opens_at_def small_log_fd_def fsys_of_def Let_def)
qed

lemma small_log_law: "append_law small_log fsys_of"
  unfolding append_law_def
proof (intro conjI allI impI)
  show "opens_at n (fst (k_open (fdk small_log) n log_flags default_modes w)) (fsys_of w) (fsys_of (snd (k_open (fdk small_log) n log_flags default_modes w)))" for n w
    using small_log_opens by (simp add: small_log_def)
qed (auto simp: small_log_def small_log_fd_def fsys_of_def map_of_without)

lemma small_log_clock: "tm_fields (k_localtime small_log n)"
  using pos_mod_bound [of 28 "n div 86400"] by (simp add: small_log_def tm_fields_def clock_of_days_def tm_zero_def)

definition day_log :: LogFile where
  "day_log = \<lparr>lf_fd = \<lparr>m_fd = 3\<rparr>, m_roll_strategy = \<lparr>m_value = DAY, m_mtTime = \<lparr>mt_sec = 86400, mt_usec = 0\<rparr>, m_filename = ''srv''\<rparr>, m_backup_logs = []\<rparr>"

definition day_disk :: "int \<Rightarrow> log_disk" where
  "day_disk t = \<lparr>d_names = [(''srv_1900_01_02.log'', 0)], d_bytes = \<lambda>_. [65], d_open = [(3, 0)], d_now = \<lparr>mt_sec = t, mt_usec = 0\<rparr>\<rparr>"

definition message_at :: "int \<Rightarrow> string \<Rightarrow> LogMessage" where
  "message_at t text1 = LogMessage_new \<lparr>mt_sec = t, mt_usec = 5000\<rparr> text1 ''a.cpp'' 10 WARNING"

abbreviation message_text :: "int \<Rightarrow> string \<Rightarrow> string" where
  "message_text t text1 \<equiv> the (GetLogMessage clock_of_days 17 0xbeef (message_at t text1))"

lemma message_text_Some: "GetLogMessage (k_localtime small_log) 17 0xbeef (message_at t x) = Some (message_text t x)"
  by (simp add: GetLogMessage_def GetLogPriority_def message_at_def LogMessage_new_def WARNING_def name_at_def LOG_PRIORITY_NAMES_def small_log_def)

lemma day_names:
  "log_base clock_of_days (m_roll_strategy day_log) = ''srv_1900_01_02''"
  "log_base clock_of_days ((m_roll_strategy day_log)\<lparr>m_mtTime := \<lparr>mt_sec = 172800, mt_usec = 0\<rparr>\<rparr>) = ''srv_1900_01_03''"
  "log_base clock_of_days ((m_roll_strategy day_log)\<lparr>m_mtTime := \<lparr>mt_sec = 90000, mt_usec = 0\<rparr>\<rparr>) = ''srv_1900_01_02''"
  by code_simp+

lemma day_log_ok: "log_ok small_log fsys_of day_log (day_disk t)"
  using day_names(1)
  by (simp add: log_ok_def log_at_def small_log_def day_disk_def fsys_of_def Let_def)
    (simp add: day_log_def IsInvalid_def invalid_fd_def DAY_def)

theorem LogFile_Write_refines_witness:
  "\<exists>l' w'. LogFile_Write small_log (message_at 172800 ''up'') (day_log, day_disk 172800) = (AOk (int (length (message_text 172800 ''up''))), l', w') \<and>
     view (fsys_of w') ''srv_1900_01_02.log'' = None \<and> view (fsys_of w') ''srv_1900_01_02_bak.log'' = Some [65] \<and>
     view (fsys_of w') ''srv_1900_01_03.log'' = Some (bytes_of (message_text 172800 ''up''))"
proof -
  have n: "k_now small_log (day_disk 172800) = (\<lparr>mt_sec = 172800, mt_usec = 0\<rparr>, day_disk 172800)" by (simp add: small_log_def day_disk_def)
  have "\<not> NeedRollback (k_localtime small_log) ((m_roll_strategy day_log)\<lparr>m_mtTime := \<lparr>mt_sec = 172800, mt_usec = 0\<rparr>\<rparr>) (lm_time (message_at 172800 ''up''))"
    "NeedRollback clock_of_days (m_roll_strategy day_log) (lm_time (message_at 172800 ''up''))"
    by (simp_all add: small_log_def) code_simp+
  note r = LogFile_Write_refines [OF small_log_law _ _ _ message_text_Some [of 172800 "''up''"] day_log_ok n this(1)] this(2)
  have lt: "k_localtime small_log = clock_of_days" by (simp add: small_log_def)
  have "fst (spec_backups day_log bak) = None" for bak by (simp add: spec_backups_def day_log_def DEFAULT_BACKUP_LOG_COUNT_def)
  moreover have "view (fsys_of (day_disk 172800)) = [''srv_1900_01_02.log'' \<mapsto> [65]]" by (simp add: view_def fsys_of_def day_disk_def fun_eq_iff)
  ultimately show ?thesis
    using r(1) r(2) small_log_clock
    unfolding spec_write_def Let_def day_names lt spec_append_def spec_roll_def by (auto simp: small_log_def)
qed

theorem late_message_moves_log_witness:
  "\<exists>l' w' l'' w''. LogFile_Write small_log (message_at 86399 ''late'') (day_log, day_disk 90000) = (AOk (int (length (message_text 86399 ''late''))), l', w') \<and>
     LogFile_Write small_log (message_at 90001 ''next'') (l', w') = (AOk (int (length (message_text 90001 ''next''))), l'', w'') \<and>
     view (fsys_of w'') ''srv_1900_01_02.log'' = None \<and>
     view (fsys_of w'') ''srv_1900_01_02_bak.log'' = Some ([65] @ bytes_of (message_text 86399 ''late'') @ bytes_of (message_text 90001 ''next''))"
proof -
  have lt: "k_localtime small_log = clock_of_days" by (simp add: small_log_def)
  have n: "k_now small_log (day_disk 90000) = (\<lparr>mt_sec = 90000, mt_usec = 0\<rparr>, day_disk 90000)" by (simp add: small_log_def day_disk_def)
  have c: "NeedRollback (k_localtime small_log) (m_roll_strategy day_log) (lm_time (message_at 86399 ''late''))"
    "log_base (k_localtime small_log) ((m_roll_strategy day_log)\<lparr>m_mtTime := \<lparr>mt_sec = 90000, mt_usec = 0\<rparr>\<rparr>) = log_base (k_localtime small_log) (m_roll_strategy day_log)"
    "\<not> NeedRollback (k_localtime small_log) ((m_roll_strategy day_log)\<lparr>m_mtTime := \<lparr>mt_sec = 90000, mt_usec = 0\<rparr>\<rparr>) (lm_time (message_at 90001 ''next''))"
    "log_base (k_localtime small_log) (m_roll_strategy day_log) @ ''_bak.log'' \<notin> set (m_backup_logs day_log)"
    unfolding lt by code_simp+
  note r = late_message_moves_log [OF small_log_law _ _ _ message_text_Some [of 86399 "''late''"] message_text_Some [of 90001 "''next''"] day_log_ok n c]
  have "view (fsys_of (day_disk 90000)) ''srv_1900_01_02.log'' = Some [65]" by (simp add: view_def fsys_of_def day_disk_def)
  then show ?thesis
    using r small_log_clock unfolding lt day_names by (simp add: small_log_def)
qed

end
