(* ===== verification/Hui_App.thy ===== *)
theory Hui_App
  imports Log_File
begin

text \<open>
  The frame of an application: \<^verbatim>\<open>src/src/happ.h\<close> and \<^verbatim>\<open>happ.cpp\<close>, on the configuration, the file names, the log, the text
  files and the application lock.

  An operation works on the object, the global log and the world. The program can end within it: it exits, or an exception leaves it.
  The calls beyond those of the log are the parameter \<open>app_sys\<close>; \<^verbatim>\<open>getopt_long\<close> gives the options it finds and the arguments in the
  order it leaves them. The operations are those of the class itself, not of a class that overrides them.
\<close>

subsection \<open>The object\<close>

record HApp =
  m_bDaemon :: bool
  m_bAppInited :: bool
  m_bRunning :: bool
  m_conf :: HMSTR
  m_app_lock :: "fd_in option"

datatype app_end = Exited int | Uncaught RET_T

datatype sig_handler = Stop_handle | Bug_handle | Sig_ign

record 'w app_sys =
  sys :: "'w log_sys"
  k_signal :: "int \<Rightarrow> sig_handler \<Rightarrow> 'w \<Rightarrow> 'w"
  k_fork :: "'w \<Rightarrow> int \<times> 'w"
  k_setsid :: "'w \<Rightarrow> 'w"
  k_umask :: "nat \<Rightarrow> 'w \<Rightarrow> 'w"
  k_sleep :: "'w \<Rightarrow> int list \<times> 'w"
  k_getopt :: "string list \<Rightarrow> (char \<times> string) list \<times> string list"
  k_help :: string
  k_file :: string

type_synonym ('w, 'a) app_action = "(HApp \<times> HLog \<times> 'w, app_end, 'a) action"

definition CONF_KEY_CONF :: string where "CONF_KEY_CONF = ''CK_conf''"
definition CONF_KEY_EXE_FILEPATH :: string where "CONF_KEY_EXE_FILEPATH = ''CK_exe_filepath''"
definition CONF_KEY_EXE_NAME :: string where "CONF_KEY_EXE_NAME = ''CK_exe_name''"
definition CONF_KEY_LOG :: string where "CONF_KEY_LOG = ''CK_log''"
definition CONF_KEY_EXE_PATH :: string where "CONF_KEY_EXE_PATH = ''CK_exe_path''"
definition CONF_KEY_HOMEPATH :: string where "CONF_KEY_HOMEPATH = ''CK_homepath''"
definition CONF_KEY_DAEMON :: string where "CONF_KEY_DAEMON = ''CK_isdaemon''"
definition CONF_KEY_APPLOCK :: string where "CONF_KEY_APPLOCK = ''CK_applock''"
definition CONF_KEY_LOGTYPE :: string where "CONF_KEY_LOGTYPE = ''CK_logtype''"
definition CONF_KEY_ARGS :: string where "CONF_KEY_ARGS = ''CK_argv''"
definition CONF_KEY_ARGS_COUNT :: string where "CONF_KEY_ARGS_COUNT = ''CK_argv_count''"
definition CONF_KEY_DATA_PATH :: string where "CONF_KEY_DATA_PATH = ''CK_data_path''"
definition DEF_CONF_VAL_CONF :: string where "DEF_CONF_VAL_CONF = ''conf/conf''"
definition DEF_CONF_VAL_DATA_PATH :: string where "DEF_CONF_VAL_DATA_PATH = ''data''"

lemmas app_keys = CONF_KEY_CONF_def CONF_KEY_EXE_FILEPATH_def CONF_KEY_EXE_NAME_def CONF_KEY_LOG_def CONF_KEY_EXE_PATH_def
  CONF_KEY_HOMEPATH_def CONF_KEY_DAEMON_def CONF_KEY_APPLOCK_def CONF_KEY_LOGTYPE_def CONF_KEY_ARGS_def CONF_KEY_ARGS_COUNT_def
  CONF_KEY_DATA_PATH_def DEF_CONF_VAL_CONF_def DEF_CONF_VAL_DATA_PATH_def

subsection \<open>Steps\<close>

definition lift_log :: "(HLog \<times> 'w, RET_T, 'a) action \<Rightarrow> ('w, 'a) app_action" where
  "lift_log m = (\<lambda>(a, hw). case m hw of (AOk x, hw) \<Rightarrow> (AOk x, a, hw) | (AThrow e, hw) \<Rightarrow> (AThrow (Uncaught e), a, hw)
     | (AStuck, hw) \<Rightarrow> (AStuck, a, hw))"

definition on_world :: "('w \<Rightarrow> 'a \<times> 'w) \<Rightarrow> ('w, 'a) app_action" where
  "on_world f = kernel (\<lambda>(h, w). case f w of (x, w) \<Rightarrow> (x, h, w))"

definition conf_value :: "string \<Rightarrow> (string \<Rightarrow> ('w, 'a) app_action) \<Rightarrow> ('w, 'a) app_action" where
  "conf_value key f = with_obj (\<lambda>a. f (HNormalConfig_GetValue (m_conf a) key))"

definition conf_exists :: "string \<Rightarrow> (bool \<Rightarrow> ('w, 'a) app_action) \<Rightarrow> ('w, 'a) app_action" where
  "conf_exists key f = with_obj (\<lambda>a. f (HNormalConfig_Exists (m_conf a) key))"

definition set_conf :: "string \<Rightarrow> string \<Rightarrow> ('w, unit) app_action" where
  "set_conf key val = set_obj (\<lambda>a. a\<lparr>m_conf := HNormalConfig_SetValue (m_conf a) key val\<rparr>)"

definition app_log :: "'w app_sys \<Rightarrow> int \<Rightarrow> HUN \<Rightarrow> string \<Rightarrow> ('w, unit) app_action" where
  "app_log P lt line t = lift_log (writelog (sys P) lt (k_file P) line t)"

fun hbase_err :: "RET_T \<Rightarrow> string" where
  "hbase_err ERR_OK = ''success''"
| "hbase_err INVL_PARA = ''invaild parameter''"
| "hbase_err ERR_STATUS = ''invalid status''"
| "hbase_err SRC_ERR = ''source error''"
| "hbase_err OVER_FLOW = ''index overflow''"
| "hbase_err IO_FAILED = ''I/O failed''"
| "hbase_err MEMORY_OUT = ''memory out''"
| "hbase_err TIME_OUT = ''time out''"
| "hbase_err NOT_EXISTS = ''object not exists''"
| "hbase_err DEP_ERROR = ''dep source rise error''"
| "hbase_err NETWORK_ERROR = ''network error''"
| "hbase_err SYS_FAILED = ''syscall failed''"
| "hbase_err UN_SUPPORT = ''unsupport''"
| "hbase_err UNKOWN_ERR = ''unknown error number.''"
| "hbase_err ERR_END = ''unknown error number.''"

text \<open>The macros \<^verbatim>\<open>HNOTOK_MSG_RETURN\<close> and \<^verbatim>\<open>HNOTOK_MSG_THROW\<close>.\<close>

definition msg_return :: "'w app_sys \<Rightarrow> HUN \<Rightarrow> string \<Rightarrow> string \<Rightarrow> ('w, RET_T) app_action \<Rightarrow> ('w, RET_T) app_action \<Rightarrow> ('w, RET_T) app_action" where
  "msg_return P line seg msg m n = act_bind m (\<lambda>ret. if IS_OK ret then n
     else act_seq (app_log P WARNING line (''['' @ seg @ ''] failed msg['' @ msg @ ''] base-msg['' @ hbase_err ret @ '']'')) (act_ret ret))"

definition msg_throw :: "'w app_sys \<Rightarrow> HUN \<Rightarrow> string \<Rightarrow> string \<Rightarrow> ('w, RET_T) app_action \<Rightarrow> ('w, unit) app_action" where
  "msg_throw P line seg msg m = act_bind m (\<lambda>ret. if IS_OK ret then act_ret ()
     else act_seq (app_log P WARNING line (''['' @ seg @ ''] throw exception{msg['' @ msg @ ''] base-msg['' @ hbase_err ret @ '']}''))
       (act_throw (Uncaught ret)))"

subsection \<open>Construction and the arguments\<close>

definition HApp_init :: HApp where
  "HApp_init = \<lparr>m_bDaemon = True, m_bAppInited = False, m_bRunning = True, m_conf = [], m_app_lock = None\<rparr>"

definition initApp :: "'w app_sys \<Rightarrow> ('w, unit) app_action" where
  "initApp P = act_seq (set_conf CONF_KEY_CONF DEF_CONF_VAL_CONF)
     (act_bind (on_world (\<lambda>w. (k_cwd (sys P) w, w))) (\<lambda>cwd. set_conf CONF_KEY_EXE_PATH (SetAsCurrent cwd)))"

definition HApp_new :: "'w app_sys \<Rightarrow> HLog \<times> 'w \<Rightarrow> (app_end, unit) act_out \<times> HApp \<times> HLog \<times> 'w" where
  "HApp_new P hw = initApp P (HApp_init, hw)"

definition app_help :: "'w app_sys \<Rightarrow> ('w, unit) app_action" where
  "app_help P = on_world (\<lambda>w. ((), k_stdout (sys P) (k_help P) w))"

fun opt_loop :: "'w app_sys \<Rightarrow> (char \<times> string) list \<Rightarrow> ('w, unit) app_action" where
  "opt_loop P [] = act_ret ()"
| "opt_loop P ((cb, optarg) # opts) = act_seq
     (if cb = CHR ''c'' then set_conf CONF_KEY_CONF optarg
      else if cb = CHR ''d'' then set_obj (\<lambda>a. a\<lparr>m_bDaemon := True\<rparr>)
      else if cb = CHR ''h'' then act_seq (app_help P) (act_throw (Exited 0))
      else act_ret ())
     (opt_loop P opts)"

definition arg_key :: "int \<Rightarrow> string option" where
  "arg_key i = HStr_Format (CONF_KEY_ARGS @ ''_'' @ FromN i)"

fun arg_loop :: "int \<Rightarrow> string list \<Rightarrow> ('w, unit) app_action" where
  "arg_loop i [] = act_ret ()"
| "arg_loop i (szarg # args) = (case arg_key i of None \<Rightarrow> act_stuck
     | Some key \<Rightarrow> act_seq (set_conf key (c_str szarg)) (arg_loop (i + 1) args))"

definition program_place :: "string \<Rightarrow> (string \<Rightarrow> string) \<Rightarrow> (string \<Rightarrow> string) \<Rightarrow> string \<Rightarrow> string \<times> string" where
  "program_place cwd realpath dirname strProgram =
     (if \<not> IsAbsolute strProgram
      then (GetDicFile cwd (SetAsCurrent cwd) (FileName strProgram), SetAsCurrent cwd)
      else (strProgram, GetParentPath cwd realpath dirname strProgram))"

definition anaOpt :: "'w app_sys \<Rightarrow> string list \<Rightarrow> ('w, unit) app_action" where
  "anaOpt P argv = (case argv of [] \<Rightarrow> act_stuck | arg0 # _ \<Rightarrow>
     act_seq (set_conf CONF_KEY_EXE_NAME (FileName (c_str arg0)))
     (act_bind (on_world (\<lambda>w. (program_place (k_cwd (sys P) w) (k_realpath (sys P) w) (k_dirname (sys P)) (c_str arg0), w)))
       (\<lambda>(strProgram, strProgramDir). act_seq (set_conf CONF_KEY_EXE_FILEPATH strProgram)
         (act_seq (set_conf CONF_KEY_EXE_PATH strProgramDir)
           (case k_getopt P argv of (opts, argv) \<Rightarrow> act_seq (opt_loop P opts)
             (act_seq (arg_loop 0 argv) (set_conf CONF_KEY_ARGS_COUNT (FromN (int (length argv))))))))))"

definition HApp_of_args :: "'w app_sys \<Rightarrow> string list \<Rightarrow> HLog \<times> 'w \<Rightarrow> (app_end, unit) act_out \<times> HApp \<times> HLog \<times> 'w" where
  "HApp_of_args P argv hw = anaOpt P argv (HApp_init, hw)"

definition GetArgvByIndex :: "HApp \<Rightarrow> int \<Rightarrow> string option" where
  "GetArgvByIndex a index1 = map_option (HNormalConfig_GetValue (m_conf a)) (arg_key index1)"

definition GetArgvCount :: "HApp \<Rightarrow> int option" where
  "GetArgvCount a = stoi (HNormalConfig_GetValue (m_conf a) CONF_KEY_ARGS_COUNT)"

definition GetConfValue :: "HApp \<Rightarrow> string \<Rightarrow> string" where
  "GetConfValue a key = HNormalConfig_GetValue (m_conf a) key"

definition GetConfIntValue :: "HApp \<Rightarrow> string \<Rightarrow> int option" where
  "GetConfIntValue a key = HNormalConfig_GetIntValue (m_conf a) key"

definition ConfExists :: "HApp \<Rightarrow> string \<Rightarrow> bool" where
  "ConfExists a strKey = HNormalConfig_Exists (m_conf a) strKey"

subsection \<open>The steps of Init\<close>

definition app_signals :: "(int \<times> sig_handler) list" where
  "app_signals = [(15, Stop_handle), (2, Stop_handle), (11, Bug_handle), (13, Sig_ign), (4, Stop_handle), (8, Stop_handle), (6, Stop_handle)]"

definition set_signals :: "'w app_sys \<Rightarrow> (int \<times> sig_handler) list \<Rightarrow> ('w, unit) app_action" where
  "set_signals P hs = on_world (\<lambda>w. ((), fold (\<lambda>(sig, h). k_signal P sig h) hs w))"

definition setup_signal :: "'w app_sys \<Rightarrow> ('w, unit) app_action" where
  "setup_signal P = set_signals P app_signals"

definition setup_app_dir :: "'w app_sys \<Rightarrow> ('w, RET_T) app_action" where
  "setup_app_dir P = conf_exists CONF_KEY_EXE_PATH (\<lambda>ex. if \<not> ex then act_ret SRC_ERR
     else conf_value CONF_KEY_EXE_PATH (\<lambda>strExePath.
       act_bind (on_world (\<lambda>w. (GetParentPath (k_cwd (sys P) w) (k_realpath (sys P) w) (k_dirname (sys P)) strExePath, w))) (\<lambda>home_dir.
         act_seq (set_conf CONF_KEY_HOMEPATH home_dir)
           (act_bind (on_world (\<lambda>w. let data_dir = fs_Append (k_cwd (sys P) w) home_dir ''data''
                in if Exists (k_stat (sys P) w) data_dir then (ERR_OK, w) else CreateDirectory (k_mkdir (sys P)) data_dir 0x1F6 w)) (\<lambda>ret.
              if \<not> IS_OK ret then act_throw (Exited 1)
              else act_seq (set_conf CONF_KEY_DATA_PATH DEF_CONF_VAL_DATA_PATH) (act_ret ERR_OK))))))"

text \<open>The file that \<^verbatim>\<open>LoadConfig\<close> reads is opened with \<^verbatim>\<open>O_CREAT\<close> and closed again; \<open>None\<close>: the reading does not end.\<close>

definition read_conf_file :: "'w fd_kernel \<Rightarrow> string \<Rightarrow> 'w \<Rightarrow> (RET_T \<times> string \<times> 'w) option" where
  "read_conf_file K strConfigFileName w =
     (case HFileHandle_file K strConfigFileName (O_RDWR OR O_CREAT) default_modes w of (b, w) \<Rightarrow>
        map_option (\<lambda>(ret, content, w). (ret, content, fd_in_delete K b w)) (ReadToString K [] b w))"

definition load_conf :: "'w app_sys \<Rightarrow> string \<Rightarrow> ('w, RET_T) app_action" where
  "load_conf P name = (\<lambda>(a, h, w).
     case (if name = [] then Some (ERR_OK, [], w) else read_conf_file (fdk (sys P)) name w) of
       None \<Rightarrow> (AStuck, a, h, w)
     | Some (cb, content, w) \<Rightarrow> (case LoadConfig (\<lambda>_. (cb, content)) (m_conf a) name of
         None \<Rightarrow> (AStuck, a, h, w) | Some (ret, conf) \<Rightarrow> (AOk ret, a\<lparr>m_conf := conf\<rparr>, h, w)))"

definition setup_config :: "'w app_sys \<Rightarrow> ('w, RET_T) app_action" where
  "setup_config P = act_seq (conf_exists CONF_KEY_CONF (\<lambda>ex. if ex then act_ret ()
       else conf_value CONF_KEY_HOMEPATH (\<lambda>home_dir.
         act_bind (on_world (\<lambda>w. (fs_Append (k_cwd (sys P) w) home_dir ''conf/conf'', w))) (\<lambda>conf_dir. set_conf CONF_KEY_CONF conf_dir))))
     (conf_value CONF_KEY_CONF (\<lambda>conf. act_bind (load_conf P conf) (\<lambda>ret. act_seq
       (if IS_OK ret then act_ret () else on_world (\<lambda>w. ((), k_stdout (sys P) (''Load Config File Fialed.'' @ [CHR 0x0A]) w)))
       (act_ret ERR_OK))))"

definition app_InitLog :: "'w app_sys \<Rightarrow> string \<Rightarrow> string \<Rightarrow> ('w, RET_T) app_action" where
  "app_InitLog P strLogFileName strLogType = (\<lambda>(a, hw). case InitLog (k_file P) (sys P) strLogFileName strLogType hw of
     None \<Rightarrow> (AThrow (Exited 1), a, hw)
   | Some (out, hw) \<Rightarrow> lift_log (\<lambda>_. (out, hw)) (a, hw))"

text \<open>The name of a log that is not configured. The code for it comes after the return for that case.\<close>

definition default_log :: "'w app_sys \<Rightarrow> ('w, unit) app_action" where
  "default_log P = with_obj (\<lambda>a.
     act_bind (on_world (\<lambda>w. ((k_cwd (sys P) w, k_pid (sys P) w), w))) (\<lambda>(cwd, pid).
       let log_dir = fs_Append cwd (HNormalConfig_GetValue (m_conf a) CONF_KEY_HOMEPATH) ''log'';
           strExeName = FileNameOnly (HNormalConfig_GetValue (m_conf a) CONF_KEY_EXE_NAME)
       in case (if strExeName = [] then HStr_Format (''huicpp_'' @ FromN pid) else Some strExeName) of
            None \<Rightarrow> act_stuck
          | Some strExeName \<Rightarrow> set_conf CONF_KEY_LOG (GetDicFile cwd log_dir (snd (HStr_Lower strExeName)))))"

definition setup_log :: "'w app_sys \<Rightarrow> ('w, RET_T) app_action" where
  "setup_log P = conf_exists CONF_KEY_LOG (\<lambda>ex. if \<not> ex then act_ret ERR_OK
     else with_obj (\<lambda>a. let strLogType = HNormalConfig_GetValue_default (m_conf a) ''CK_logtype'' ''DAY'' in
       act_bind (conf_exists CONF_KEY_LOG (\<lambda>ex. if ex then conf_value CONF_KEY_LOG act_ret else act_seq (default_log P) (act_ret [])))
         (\<lambda>strLogFileName. if strLogFileName = [] then conf_value CONF_KEY_LOG (\<lambda>strLogFileName. app_InitLog P strLogFileName strLogType)
            else app_InitLog P strLogFileName strLogType)))"

definition setas_daemon_app :: "'w app_sys \<Rightarrow> ('w, unit) app_action" where
  "setas_daemon_app P = (let fork_step = act_bind (on_world (k_fork P)) (\<lambda>pid. if pid > 0 then act_throw (Exited 0) else act_ret ()) in
     act_seq fork_step (act_seq (on_world (\<lambda>w. ((), k_setsid P w)))
       (act_seq (set_signals P [(22, Sig_ign), (21, Sig_ign), (20, Sig_ign), (1, Sig_ign)])
         (act_seq fork_step (act_seq (on_world (\<lambda>w. ((), k_umask P 0 w)))
           (act_bind (on_world (\<lambda>w. (k_pid (sys P) w, w))) (\<lambda>pid. app_log P INFO 352 (''daemon process no:['' @ FromN pid @ '']''))))))))"

definition setup_daemon :: "'w app_sys \<Rightarrow> ('w, RET_T) app_action" where
  "setup_daemon P = conf_exists CONF_KEY_DAEMON (\<lambda>ex. if \<not> ex then act_ret ERR_OK
     else conf_value CONF_KEY_DAEMON (\<lambda>v. let dea_str = Trim None v in
       act_seq (app_log P INFO 293 (''whether daemon instance ['' @ c_str dea_str @ '']''))
         (act_seq (if dea_str = ''1'' then act_seq (app_log P INFO 295 ''set as daemon'') (setas_daemon_app P) else act_ret ())
           (act_ret ERR_OK))))"

text \<open>\<^verbatim>\<open>GetValue\<close> with a default gives a reference to that default, a temporary that is gone in the next statement: reading the
  name of a program that has none is undefined. The file is closed when its scope ends, after the message of a failure.\<close>

definition pid_file_name :: "string \<Rightarrow> string option" where
  "pid_file_name strExeName = HStr_Format (''../'' @ DEF_CONF_VAL_DATA_PATH @ ''/'' @ c_str strExeName @ ''.pid'')"

definition write_pid_file :: "'w fd_kernel \<Rightarrow> string \<Rightarrow> string \<Rightarrow> ('w, RET_T \<times> bool) fd_action" where
  "write_pid_file K strPidFileName strPid = act_bind (OutOpen K strPidFileName) (\<lambda>ret. if \<not> IS_OK ret then act_ret (ret, False)
     else act_bind (WriteFromString K strPid) (\<lambda>ret. act_ret (ret, True)))"

definition lift_fd :: "('w, 'a) fd_action \<Rightarrow> fd_in \<Rightarrow> ('w, 'a \<times> fd_in) app_action" where
  "lift_fd m b = lift_log (\<lambda>(h, w). case m (b, w) of (AOk x, b, w) \<Rightarrow> (AOk (x, b), h, w) | (AThrow e, b, w) \<Rightarrow> (AThrow e, h, w)
     | (AStuck, b, w) \<Rightarrow> (AStuck, h, w))"

definition setup_pidfile :: "'w app_sys \<Rightarrow> ('w, RET_T) app_action" where
  "setup_pidfile P = conf_exists CONF_KEY_EXE_NAME (\<lambda>ex. if \<not> ex then act_stuck
     else conf_value CONF_KEY_EXE_NAME (\<lambda>strExeName. act_bind (on_world (\<lambda>w. (k_pid (sys P) w, w))) (\<lambda>pid.
       case (pid_file_name strExeName, HStr_Format (FromN pid)) of
         (Some strPidFileName, Some strPid) \<Rightarrow> act_bind (lift_fd (write_pid_file (fdk (sys P)) strPidFileName strPid) fd_in_new) (\<lambda>((ret, opened1), fs).
           act_seq (if IS_OK ret then act_ret ()
             else app_log P WARNING (if opened1 then 311 else 310)
               ((if opened1 then ''[fs.WriteFromString(strPid)] failed msg[write pid to pidfile FAILED'' else ''[fs.OutOpen(strPidFileName)] failed msg[create pid file failed'')
                @ ''] base-msg['' @ hbase_err ret @ '']''))
             (act_seq (on_world (\<lambda>w. ((), fd_in_delete (fdk (sys P)) fs w))) (act_ret ret)))
       | _ \<Rightarrow> act_stuck)))"

definition lock_app :: "'w app_sys \<Rightarrow> ('w, unit) app_action" where
  "lock_app P = conf_value CONF_KEY_EXE_NAME (\<lambda>name. let strLockFileName = ''.'' @ FileNameOnly name in
     act_bind (on_world (HAppLock_new (fdk (sys P)) strLockFileName)) (\<lambda>lock. act_seq (set_obj (\<lambda>a. a\<lparr>m_app_lock := Some lock\<rparr>))
       (msg_throw P 364 ''m_app_lock->LockApp()'' ''application lock failed. Multiple application instance have run''
         (act_bind (lift_fd (LockApp (fdk (sys P))) lock) (\<lambda>(ret, _). act_ret ret)))))"

definition setup_applock :: "'w app_sys \<Rightarrow> ('w, RET_T) app_action" where
  "setup_applock P = conf_exists CONF_KEY_APPLOCK (\<lambda>ex. if \<not> ex then act_ret ERR_OK
     else with_obj (\<lambda>a. let applock_str = Trim None (HNormalConfig_GetValue_default (m_conf a) CONF_KEY_APPLOCK ''1'') in
       act_seq (app_log P INFO 324 (''whether lock instance ['' @ c_str applock_str @ '']''))
         (act_seq (if applock_str = ''1'' then lock_app P else act_ret ()) (act_ret ERR_OK))))"

definition log_places :: "'w app_sys \<Rightarrow> ('w, unit) app_action" where
  "log_places P = with_obj (\<lambda>a. let v = (\<lambda>k. c_str (HNormalConfig_GetValue (m_conf a) k)) in
     app_log P INFO 64 (''home-dir['' @ v CONF_KEY_HOMEPATH @ ''] conf['' @ v CONF_KEY_CONF @ ''] log['' @ v CONF_KEY_LOG @ '']''))"

text \<open>The last steps of \<^verbatim>\<open>Init\<close>: the file with the identifier of the process, then the lock.\<close>

definition take_instance :: "'w app_sys \<Rightarrow> ('w, RET_T) app_action" where
  "take_instance P = msg_return P 71 ''setup_pidfile()'' ''setup pid file failed'' (setup_pidfile P)
     (msg_return P 74 ''setup_applock()'' ''app lock failed'' (setup_applock P) (act_ret ERR_OK))"

definition HApp_Init :: "'w app_sys \<Rightarrow> ('w, RET_T) app_action" where
  "HApp_Init P = act_seq (setup_signal P)
     (msg_return P 58 ''setup_app_dir()'' ''app setup direction failed'' (setup_app_dir P)
     (msg_return P 60 ''setup_config()'' ''app setup configuration failed'' (setup_config P)
     (msg_return P 62 ''setup_log()'' ''app setup log failed'' (setup_log P)
     (act_seq (log_places P)
     (msg_return P 69 ''setup_daemon()'' ''app setup as daemon failed'' (setup_daemon P)
     (take_instance P))))))"

subsection \<open>Running and signals\<close>

definition Stop :: "HApp \<Rightarrow> HApp" where
  "Stop a = a\<lparr>m_bRunning := False\<rparr>"

definition IsRunning :: "HApp \<Rightarrow> bool" where
  "IsRunning a = m_bRunning a"

definition Handle_sig :: "'w app_sys \<Rightarrow> int \<Rightarrow> ('w, unit) app_action" where
  "Handle_sig P sig = app_log P ERROR 96 (''===========================signal ['' @ FromN sig @ '']======================'')"

text \<open>The handlers; \<open>gapp\<close> is the object that \<^verbatim>\<open>Init\<close> has registered.\<close>

definition stop_handle :: "'w app_sys \<Rightarrow> int \<Rightarrow> ('w, unit) app_action" where
  "stop_handle P sig = act_seq (app_log P WARNING 371 (''stop main process with sig['' @ FromN sig @ '']'')) (set_obj Stop)"

definition bug_handle :: "'w app_sys \<Rightarrow> int \<Rightarrow> ('w, unit) app_action" where
  "bug_handle P sig = act_seq (Handle_sig P sig) (act_seq (app_log P INFO 387 (''app exit with code['' @ FromN sig @ '']'')) (act_throw (Exited sig)))"

fun deliver :: "'w app_sys \<Rightarrow> int list \<Rightarrow> ('w, unit) app_action" where
  "deliver P [] = act_ret ()"
| "deliver P (sig # sigs) = act_seq (case map_of app_signals sig of Some Stop_handle \<Rightarrow> stop_handle P sig | Some Bug_handle \<Rightarrow> bug_handle P sig | _ \<Rightarrow> act_ret ())
     (deliver P sigs)"

text \<open>The signals of the process arrive while it sleeps; \<open>None\<close>: the loop goes on for ever.\<close>

partial_function (option) HApp_Run :: "'w app_sys \<Rightarrow> HApp \<times> HLog \<times> 'w \<Rightarrow> ((app_end, bool) act_out \<times> HApp \<times> HLog \<times> 'w) option" where
  "HApp_Run P s = (if IsRunning (fst s) then
       (case act_seq (app_log P INFO 84 ''HApp run... Please override this function.'') (act_bind (on_world (k_sleep P)) (deliver P)) s of
          (AOk _, s) \<Rightarrow> HApp_Run P s | (AThrow e, s) \<Rightarrow> Some (AThrow e, s) | (AStuck, s) \<Rightarrow> Some (AStuck, s))
     else Some (AOk True, s))"

subsection \<open>The configuration the steps see\<close>

lemma set_conf_run: "set_conf k v (a, hw) = (AOk (), a\<lparr>m_conf := HNormalConfig_SetValue (m_conf a) k v\<rparr>, hw)"
  by (simp add: set_conf_def set_obj_def)

lemma conf_set:
  assumes "mstr_ok m"
  shows "mstr_ok (HNormalConfig_SetValue m k v)" "map_of (HNormalConfig_SetValue m k v) k' = (if k' = k then Some v else map_of m k')"
  using mstr.ok_set [OF assms] mstr.get_set [OF assms] by (simp_all add: HNormalConfig_SetValue_def)

lemma conf_get:
  "HNormalConfig_GetValue m k = (case map_of m k of None \<Rightarrow> [] | Some v \<Rightarrow> v)" "HNormalConfig_Exists m k \<longleftrightarrow> map_of m k \<noteq> None"
  by (simp_all add: HNormalConfig_GetValue_def HMstr_GetValue_def HMstr_GetValue_default_def HNormalConfig_Exists_def HMstr_Exists_def)

lemmas app_defs = on_world_def conf_value_def conf_exists_def with_obj_def set_obj_def kernel_def act_seq_def act_bind_def lift_log_def

lemma FromN_clean: "0 \<le> n \<Longrightarrow> c \<in> set (FromN n) \<Longrightarrow> is_digit c"
  using nat_digits_all by (auto simp: FromN_def)

definition argv_key :: "int \<Rightarrow> string" where
  "argv_key i = ''CK_argv_'' @ FromN i"

lemma argv_key_inj [simp]: "argv_key i = argv_key j \<longleftrightarrow> i = j"
  using inj_eq [OF FromN_inj] by (simp add: argv_key_def)

lemma arg_key_run: "0 \<le> i \<Longrightarrow> i < 2 ^ 31 \<Longrightarrow> arg_key i = Some (argv_key i)"
proof -
  assume i: "0 \<le> i" "i < 2 ^ 31"
  have "CHR 0x00 \<notin> set (FromN i)" using FromN_clean [OF i(1), of "CHR 0x00"] by (auto simp: is_digit_def)
  then have "c_str (''CK_argv_'' @ FromN i) = ''CK_argv_'' @ FromN i" by (intro c_str_id) simp
  moreover have "length (FromN i) \<le> 10" using FromN_length [of i 10] i by simp
  ultimately show ?thesis by (simp add: argv_key_def arg_key_def HStr_Format_def vFormat_def HSTRING_LEN_def HWORD_LEN_def app_keys)
qed

lemma arg_loop_run:
  assumes "mstr_ok (m_conf a)" "0 \<le> i" "i + int (length args) \<le> 2 ^ 31"
  shows "\<exists>m. arg_loop i args (a, hw) = (AOk (), a\<lparr>m_conf := m\<rparr>, hw) \<and> mstr_ok m \<and>
    (\<forall>j < length args. map_of m (argv_key (i + int j)) = Some (c_str (args ! j))) \<and>
    (\<forall>k. (\<forall>j. i \<le> j \<longrightarrow> k \<noteq> argv_key j) \<longrightarrow> map_of m k = map_of (m_conf a) k)"
  using assms
proof (induction args arbitrary: a i)
  case Nil
  then show ?case by (intro exI [of _ "m_conf a"]) simp
next
  case (Cons x args)
  let ?key = "argv_key i" and ?m = "HNormalConfig_SetValue (m_conf a) (argv_key i) (c_str x)"
  have key: "arg_key i = Some ?key" using arg_key_run [of i] Cons.prems(2,3) by simp
  obtain m where m: "arg_loop (i + 1) args (a\<lparr>m_conf := ?m\<rparr>, hw) = (AOk (), a\<lparr>m_conf := ?m\<rparr>\<lparr>m_conf := m\<rparr>, hw)" "mstr_ok m"
    "\<forall>j < length args. map_of m (argv_key (i + 1 + int j)) = Some (c_str (args ! j))"
    "\<forall>k. (\<forall>j. i + 1 \<le> j \<longrightarrow> k \<noteq> argv_key j) \<longrightarrow> map_of m k = map_of ?m k"
    using Cons.IH [of "a\<lparr>m_conf := ?m\<rparr>" "i + 1"] conf_set(1) [OF Cons.prems(1)] Cons.prems(2,3) by auto
  have "map_of m ?key = Some (c_str x)" using m(4) conf_set(2) [OF Cons.prems(1)] by simp
  then have "\<forall>j < length (x # args). map_of m (argv_key (i + int j)) = Some (c_str ((x # args) ! j))"
    using m(3) by (auto simp: less_Suc_eq_0_disj algebra_simps)
  moreover have "\<forall>k. (\<forall>j. i \<le> j \<longrightarrow> k \<noteq> argv_key j) \<longrightarrow> map_of m k = map_of (m_conf a) k"
    using m(4) conf_set(2) [OF Cons.prems(1), of ?key "c_str x"] by (auto split: if_splits)
  ultimately show ?case
    using m(1,2) key by (intro exI [of _ m]) (simp add: set_conf_run act_seq_def act_bind_def)
qed

lemma opt_loop_run:
  assumes "mstr_ok (m_conf a)" "\<forall>o1 \<in> set opts. fst o1 \<noteq> CHR ''h''"
  shows "\<exists>m. opt_loop P opts (a, hw) = (AOk (), a\<lparr>m_bDaemon := (m_bDaemon a \<or> CHR ''d'' \<in> fst ` set opts), m_conf := m\<rparr>, hw) \<and> mstr_ok m \<and>
    (\<forall>k. k \<noteq> CONF_KEY_CONF \<longrightarrow> map_of m k = map_of (m_conf a) k)"
  using assms
proof (induction opts arbitrary: a)
  case Nil
  then show ?case by (intro exI [of _ "m_conf a"]) simp
next
  case (Cons o1 opts)
  obtain cb optarg where o1: "o1 = (cb, optarg)" by force
  define a1 where "a1 = (if cb = CHR ''c'' then a\<lparr>m_conf := HNormalConfig_SetValue (m_conf a) CONF_KEY_CONF optarg\<rparr>
    else if cb = CHR ''d'' then a\<lparr>m_bDaemon := True\<rparr> else a)"
  have a1: "mstr_ok (m_conf a1)" "\<forall>k. k \<noteq> CONF_KEY_CONF \<longrightarrow> map_of (m_conf a1) k = map_of (m_conf a) k"
    using conf_set [OF Cons.prems(1)] Cons.prems(1) by (simp_all add: a1_def)
  have "opt_loop P (o1 # opts) (a, hw) = opt_loop P opts (a1, hw)"
    using Cons.prems(2) o1 by (simp add: a1_def set_conf_run act_seq_def act_bind_def set_obj_def)
  then show ?case
    using Cons.IH [OF a1(1)] a1(2) Cons.prems(2) o1 by (auto simp: a1_def split: if_splits)
qed

lemma key_not_arg: "k \<in> {CONF_KEY_EXE_NAME, CONF_KEY_EXE_PATH, CONF_KEY_ARGS_COUNT} \<Longrightarrow> 0 \<le> j \<Longrightarrow> k \<noteq> argv_key j"
proof
  assume k: "k \<in> {CONF_KEY_EXE_NAME, CONF_KEY_EXE_PATH, CONF_KEY_ARGS_COUNT}" "0 \<le> j" "k = argv_key j"
  then have "''count'' = FromN j" by (auto simp: app_keys argv_key_def)
  then have "CHR ''c'' \<in> set (FromN j)" by (metis list.set_intros(1))
  then show False using FromN_clean [OF k(2), of "CHR ''c''"] by (simp add: is_digit_def)
qed

lemma anaOpt_run:
  assumes "k_getopt P (arg0 # rest) = (opts, args)" "\<forall>o1 \<in> set opts. fst o1 \<noteq> CHR ''h''" "int (length args) < 2 ^ 31"
  shows "\<exists>a. HApp_of_args P (arg0 # rest) (h, w) = (AOk (), a, h, w) \<and> mstr_ok (m_conf a) \<and> m_bRunning a \<and> m_app_lock a = None \<and>
    (\<forall>j < length args. map_of (m_conf a) (argv_key (int j)) = Some (c_str (args ! j))) \<and>
    map_of (m_conf a) CONF_KEY_ARGS_COUNT = Some (FromN (int (length args))) \<and>
    map_of (m_conf a) CONF_KEY_EXE_NAME = Some (FileName (c_str arg0)) \<and>
    map_of (m_conf a) CONF_KEY_EXE_PATH = Some (snd (program_place (k_cwd (sys P) w) (k_realpath (sys P) w) (k_dirname (sys P)) (c_str arg0)))"
proof -
  obtain prog dir where pp: "program_place (k_cwd (sys P) w) (k_realpath (sys P) w) (k_dirname (sys P)) (c_str arg0) = (prog, dir)" by force
  let ?m1 = "HNormalConfig_SetValue [] CONF_KEY_EXE_NAME (FileName (c_str arg0))"
  let ?m2 = "HNormalConfig_SetValue ?m1 CONF_KEY_EXE_FILEPATH prog" let ?m3 = "HNormalConfig_SetValue ?m2 CONF_KEY_EXE_PATH dir"
  have "mstr_ok ([] :: HMSTR)" by (simp add: mstr_ok_def)
  note c1 = conf_set [OF this, of CONF_KEY_EXE_NAME "FileName (c_str arg0)"]
  note c2 = conf_set [OF c1(1), of CONF_KEY_EXE_FILEPATH prog] note c3 = conf_set [OF c2(1), of CONF_KEY_EXE_PATH dir]
  obtain m4 b where o4: "opt_loop P opts (HApp_init\<lparr>m_conf := ?m3\<rparr>, h, w) = (AOk (), HApp_init\<lparr>m_conf := ?m3\<rparr>\<lparr>m_bDaemon := b, m_conf := m4\<rparr>, h, w)"
    "mstr_ok m4" "\<forall>k. k \<noteq> CONF_KEY_CONF \<longrightarrow> map_of m4 k = map_of ?m3 k"
    using opt_loop_run [of "HApp_init\<lparr>m_conf := ?m3\<rparr>" opts P "(h, w)"] c3(1) assms(2) by auto
  let ?a4 = "HApp_init\<lparr>m_conf := ?m3\<rparr>\<lparr>m_bDaemon := b, m_conf := m4\<rparr>"
  obtain m5 where o5: "arg_loop 0 args (?a4, h, w) = (AOk (), ?a4\<lparr>m_conf := m5\<rparr>, h, w)" "mstr_ok m5"
    "\<forall>j < length args. map_of m5 (argv_key (int j)) = Some (c_str (args ! j))"
    "\<forall>k. (\<forall>j. 0 \<le> j \<longrightarrow> k \<noteq> argv_key j) \<longrightarrow> map_of m5 k = map_of m4 k"
    using arg_loop_run [of ?a4 0 args "(h, w)"] o4(2) assms(3) by auto
  let ?m6 = "HNormalConfig_SetValue m5 CONF_KEY_ARGS_COUNT (FromN (int (length args)))"
  note c6 = conf_set [OF o5(2), of CONF_KEY_ARGS_COUNT "FromN (int (length args))"]
  have run: "HApp_of_args P (arg0 # rest) (h, w) = (AOk (), ?a4\<lparr>m_conf := ?m6\<rparr>, h, w)"
    using o4(1) o5(1) pp assms(1) by (simp add: HApp_of_args_def anaOpt_def set_conf_run act_seq_def act_bind_def on_world_def kernel_def HApp_init_def)
  have "map_of m5 k = map_of ?m3 k" if "k = CONF_KEY_EXE_NAME \<or> k = CONF_KEY_EXE_PATH" for k
    using o5(4) o4(3) key_not_arg [of k] that by (auto simp: app_keys)
  moreover have "map_of ?m3 CONF_KEY_EXE_NAME = Some (FileName (c_str arg0))" "map_of ?m3 CONF_KEY_EXE_PATH = Some dir"
    using c1(2) c2(2) c3(2) by (simp_all add: app_keys)
  moreover have "\<forall>j < length args. map_of ?m6 (argv_key (int j)) = Some (c_str (args ! j))"
    using c6(2) o5(3) key_not_arg [of CONF_KEY_ARGS_COUNT] by (simp add: not_sym)
  moreover have "map_of ?m6 k = map_of m5 k" if "k = CONF_KEY_EXE_NAME \<or> k = CONF_KEY_EXE_PATH" for k
    using c6(2) that by (auto simp: app_keys)
  ultimately show ?thesis
    using run c6 pp by (intro exI [of _ "?a4\<lparr>m_conf := ?m6\<rparr>"]) (simp add: HApp_init_def)
qed

text \<open>C34: An application gives back the arguments it was started with, in the order \<^verbatim>\<open>getopt\<close> leaves them, and their number.\<close>

theorem HApp_arguments_roundtrip:
  assumes "k_getopt P (arg0 # rest) = (opts, args)" "\<forall>o1 \<in> set opts. fst o1 \<noteq> CHR ''h''" "int (length args) < 2 ^ 31" "j < length args"
  shows "\<exists>a. HApp_of_args P (arg0 # rest) (h, w) = (AOk (), a, h, w) \<and> IsRunning a \<and> GetArgvCount a = Some (int (length args)) \<and>
    GetArgvByIndex a (int j) = Some (c_str (args ! j))"
proof -
  obtain a where a: "HApp_of_args P (arg0 # rest) (h, w) = (AOk (), a, h, w)" "m_bRunning a"
    "\<forall>j < length args. map_of (m_conf a) (argv_key (int j)) = Some (c_str (args ! j))"
    "map_of (m_conf a) CONF_KEY_ARGS_COUNT = Some (FromN (int (length args)))"
    using anaOpt_run [OF assms(1-3), of h w] by blast
  have "GetArgvCount a = Some (int (length args))" using a(4) stoi_FromN [of "int (length args)"] assms(3) by (simp add: GetArgvCount_def conf_get)
  moreover have "GetArgvByIndex a (int j) = Some (c_str (args ! j))"
    using a(3) assms(3,4) arg_key_run [of "int j"] by (simp add: GetArgvByIndex_def conf_get)
  ultimately show ?thesis using a(1,2) by (auto simp: IsRunning_def)
qed

subsection \<open>The directories of an application\<close>

lemma setup_app_dir_home:
  assumes "mstr_ok (m_conf a)" "map_of (m_conf a) CONF_KEY_EXE_PATH = Some d" "\<forall>p. k_stat (sys P) w p \<noteq> None"
    "home = GetParentPath (k_cwd (sys P) w) (k_realpath (sys P) w) (k_dirname (sys P)) d"
  shows "\<exists>a'. setup_app_dir P (a, h, w) = (AOk ERR_OK, a', h, w) \<and> GetConfValue a' CONF_KEY_HOMEPATH = home"
proof -
  let ?m1 = "HNormalConfig_SetValue (m_conf a) CONF_KEY_HOMEPATH home"
  let ?a' = "a\<lparr>m_conf := HNormalConfig_SetValue ?m1 CONF_KEY_DATA_PATH DEF_CONF_VAL_DATA_PATH\<rparr>"
  note c1 = conf_set [OF assms(1), of CONF_KEY_HOMEPATH home]
  note c2 = conf_set [OF c1(1), of CONF_KEY_DATA_PATH DEF_CONF_VAL_DATA_PATH]
  have "setup_app_dir P (a, h, w) = (AOk ERR_OK, ?a', h, w)"
    using assms(2-4) by (simp add: setup_app_dir_def app_defs set_conf_def conf_get Exists_def)
  moreover have "GetConfValue ?a' CONF_KEY_HOMEPATH = home"
    using c1(2) c2(2) by (simp add: GetConfValue_def conf_get app_keys)
  ultimately show ?thesis by blast
qed

lemma path_absolute: "dir_name d \<Longrightarrow> IsAbsolute (path_of d f)"
  by (cases d) (auto simp: dir_name_def path_of_def IsAbsolute_def IsRootBegin_def fs_consts)

text \<open>C33: The home of an application that is started by an absolute path is the directory above the one of its program. One started by any
  other path, with directories in it or not, takes the directory above the current one.\<close>

theorem HApp_home_directory:
  assumes "dirname_law (k_dirname (sys P))" "k_getopt P (arg0 # rest) = (opts, args)" "\<forall>o1 \<in> set opts. fst o1 \<noteq> CHR ''h''"
    "int (length args) < 2 ^ 31" "\<forall>p. k_stat (sys P) w p \<noteq> None" "dir_name d" "plain_name b" "plain_name f" "CHR 0x00 \<notin> set arg0"
    "arg0 = path_of (path_of d b) f \<or> (\<not> IsAbsolute arg0 \<and> k_cwd (sys P) w = path_of d b)"
  shows "\<exists>a a'. HApp_of_args P (arg0 # rest) (h, w) = (AOk (), a, h, w) \<and> setup_app_dir P (a, h, w) = (AOk ERR_OK, a', h, w) \<and>
    GetConfValue a' CONF_KEY_HOMEPATH = d"
proof -
  let ?cwd = "k_cwd (sys P) w" and ?rp = "k_realpath (sys P) w" and ?dn = "k_dirname (sys P)"
  have arg: "c_str arg0 = arg0" using assms(9) by (rule c_str_id)
  have bin: "dir_name (path_of d b)" using assms(6,7) plain_not_root [OF assms(7), of "d @ ''/''"] plain_not_root [OF assms(7), of "''/''"]
    by (auto simp: dir_name_def path_of_def plain_name_def IsAbsolute_def IsRootBegin_def fs_consts split: list.splits)
  have "snd (program_place ?cwd ?rp ?dn (c_str arg0)) = path_of d b"
  proof (cases "IsAbsolute arg0")
    case True
    then have "arg0 = path_of (path_of d b) f" using assms(10) by blast
    then show ?thesis using True GetParentPath_path [OF assms(1) bin assms(8)] arg by (simp add: program_place_def)
  next
    case False
    have "IsAbsolute (path_of (path_of d b) f)" using bin by (rule path_absolute)
    then have "?cwd = path_of d b" using False assms(10) by auto
    then show ?thesis using False path_of_nul [OF assms(6,7)] arg by (simp add: program_place_def SetAsCurrent_def)
  qed
  then obtain a where a: "HApp_of_args P (arg0 # rest) (h, w) = (AOk (), a, h, w)" "mstr_ok (m_conf a)"
    "map_of (m_conf a) CONF_KEY_EXE_PATH = Some (path_of d b)"
    using anaOpt_run [OF assms(2-4), of h w] by auto
  show ?thesis
    using a(1) setup_app_dir_home [OF a(2,3) assms(5) refl, of h] GetParentPath_path [OF assms(1,6,7)] by force
qed

subsection \<open>One instance\<close>

lemma set_obj_then: "act_bind (set_obj f) n (b, w) = n () (f b, w)"
  by (simp add: act_bind_def set_obj_def)

text \<open>An application made without arguments has no name of its program until a configuration gives one: the name of its
  file is read from a temporary that is gone.\<close>

lemma setup_pidfile_dangling: "map_of (m_conf a) CONF_KEY_EXE_NAME = None \<Longrightarrow> setup_pidfile P (a, hw) = (AStuck, a, hw)"
  by (simp add: setup_pidfile_def conf_exists_def with_obj_def conf_get)

text \<open>A log line of an application without a log file changes no file.\<close>

lemma app_log_quiet:
  assumes "\<forall>t w. content (k_stdout (sys P) t w) = content w" "\<forall>w. content (snd (k_now (sys P) w)) = content w"
  shows "\<exists>w'. app_log P lt line t (a, None, w) = (AOk (), a, None, w') \<and> content w' = content w"
proof -
  obtain now w1 where n: "k_now (sys P) w = (now, w1)" by (cases "k_now (sys P) w")
  then have "content w1 = content w" using assms(2) [rule_format, of w] by simp
  then show ?thesis using n assms(1) by (simp add: app_log_def writelog_def HLog_WriteLog_def lift_log_def Let_def)
qed

text \<open>The identifier of a process goes to its file, whatever the file held.\<close>

lemma write_pid_file_run:
  assumes "file_law K content place" "CHR 0x00 \<notin> set f"
  shows "\<exists>b' w'. write_pid_file K f t (fd_in_new, w) = (AOk (ERR_OK, True), b', w') \<and> content w' = (content w)(f := bytes_of t)"
proof -
  obtain b1 w1 w2 where s: "OutOpen K f (fd_in_new, w) = (AOk ERR_OK, b1, w1)" "WriteFromString K t (b1, w1) = (AOk ERR_OK, b1, w2)"
    "content w2 = (content w)(f := bytes_of t)" using save_text_run [OF assms] by blast
  then have "write_pid_file K f t (fd_in_new, w) = (AOk (ERR_OK, True), b1, w2)"
    by (simp add: write_pid_file_def act_bind_def)
  then show ?thesis using s(3) by blast
qed

lemma setup_pidfile_run:
  assumes "file_law (fdk (sys P)) content place" "map_of (m_conf a) CONF_KEY_EXE_NAME = Some name" "CHR 0x00 \<notin> set name"
    "length name < 1000" "k_pid (sys P) w = pid" "0 \<le> pid" "pid < 2 ^ 31"
  shows "\<exists>w'. setup_pidfile P (a, h, w) = (AOk ERR_OK, a, h, w') \<and>
    content w' = (content w)(''../data/'' @ name @ ''.pid'' := bytes_of (FromN pid))"
proof -
  let ?K = "fdk (sys P)" and ?f = "''../data/'' @ name @ ''.pid''"
  have nul: "CHR 0x00 \<notin> set (FromN pid)" using FromN_clean [OF assms(6), of "CHR 0x00"] by (auto simp: is_digit_def)
  have "length (FromN pid) \<le> 10" using FromN_length [of pid 10] assms(6,7) by simp
  then have fmt: "HStr_Format (FromN pid) = Some (FromN pid)" "pid_file_name name = Some ?f"
    using assms(3,4) c_str_id [OF nul] c_str_id [OF assms(3)] c_str_id [of ?f]
    by (simp_all add: pid_file_name_def HStr_Format_def vFormat_def HSTRING_LEN_def HWORD_LEN_def app_keys)
  obtain b1 w1 where pf: "write_pid_file ?K ?f (FromN pid) (fd_in_new, w) = (AOk (ERR_OK, True), b1, w1)" "content w1 = (content w)(?f := bytes_of (FromN pid))"
    using write_pid_file_run [OF assms(1), of ?f "FromN pid" w] assms(3) by auto
  have "content (fd_in_delete ?K b1 w1) = content w1" using file_close [OF assms(1)] by (simp add: fd_in_delete_def)
  moreover have "setup_pidfile P (a, h, w) = (AOk ERR_OK, a, h, fd_in_delete ?K b1 w1)"
    using pf(1) fmt assms(2,5) by (simp add: setup_pidfile_def app_defs lift_fd_def conf_get)
  ultimately show ?thesis using pf(2) by auto
qed

lemma lock_app_refused:
  assumes "file_law (fdk (sys P)) content place" "\<forall>t w. content (k_stdout (sys P) t w) = content w"
    "\<forall>w. content (snd (k_now (sys P) w)) = content w" "map_of (m_conf a) CONF_KEY_EXE_NAME = Some name"
    "\<forall>fd w. fst (k_lockf (fdk (sys P)) fd F_TEST w) \<noteq> 0 \<and> content (snd (k_lockf (fdk (sys P)) fd F_TEST w)) = content w"
  shows "\<exists>a' w'. lock_app P (a, None, w) = (AThrow (Uncaught INVL_PARA), a', None, w') \<and> content w' = content w"
proof -
  let ?K = "fdk (sys P)"
  obtain lock w1 where lk: "HAppLock_new ?K (''.'' @ FileNameOnly name) w = (lock, w1)" by force
  then have c1: "content w1 = content w" using file_open(2) [OF assms(1)]
    by (auto simp: HAppLock_new_def HFileHandle_file_def split: prod.splits)
  obtain r w2 where t: "k_lockf ?K (m_fd lock) F_TEST w1 = (r, w2)" by force
  then have c2: "r \<noteq> 0" "content w2 = content w1" using assms(5) [rule_format, of "m_fd lock" w1] by simp_all
  let ?a' = "a\<lparr>m_app_lock := Some lock\<rparr>"
  let ?msg = "''[m_app_lock->LockApp()] throw exception{msg[application lock failed. Multiple application instance have run] base-msg['' @ hbase_err INVL_PARA @ '']}''"
  obtain w3 where l: "app_log P WARNING 364 ?msg (?a', None, w2) = (AOk (), ?a', None, w3)" "content w3 = content w2"
    using app_log_quiet [OF assms(2,3)] by blast
  have "LockApp ?K (lock, w1) = (AOk INVL_PARA, lock, w2)" using t c2(1) by (simp add: LockApp_def fd_defs)
  then have "lift_fd (LockApp ?K) lock (?a', None, w1) = (AOk (INVL_PARA, lock), ?a', None, w2)" by (simp add: lift_fd_def lift_log_def)
  then have "act_bind (lift_fd (LockApp ?K) lock) (\<lambda>(ret, _). act_ret ret) (?a', None, w1) = (AOk INVL_PARA, ?a', None, w2)"
    by (simp add: act_bind_def)
  then have "msg_throw P 364 ''m_app_lock->LockApp()'' ''application lock failed. Multiple application instance have run''
      (act_bind (lift_fd (LockApp ?K) lock) (\<lambda>(ret, _). act_ret ret)) (?a', None, w1) = (AThrow (Uncaught INVL_PARA), ?a', None, w3)"
    using l(1) unfolding msg_throw_def act_bind_def [of "act_bind a b" for a b]
    by (simp add: act_seq_def act_bind_def [of "app_log P lt l t" for lt l t] IS_OK_def)
  moreover have new: "on_world (HAppLock_new ?K (''.'' @ FileNameOnly name)) (a, None, w) = (AOk lock, a, None, w1)"
    using lk by (simp add: on_world_def kernel_def)
  moreover have val: "HNormalConfig_GetValue (m_conf a) CONF_KEY_EXE_NAME = name" using assms(4) by (simp add: conf_get)
  ultimately have "lock_app P (a, None, w) = (AThrow (Uncaught INVL_PARA), ?a', None, w3)"
    unfolding lock_app_def conf_value_def with_obj_def Let_def prod.case val
    by (simp add: act_bind_def [of "on_world f" for f] new [simplified] act_seq_def set_obj_then)
  then show ?thesis using l(2) c2(2) c1 by auto
qed


subsection \<open>A small application\<close>

definition small_app :: "disk app_sys" where
  "small_app = \<lparr>sys = \<lparr>fdk = small_disk\<lparr>k_lockf := \<lambda>fd c w. (- 1, w)\<rparr>, k_rename = \<lambda>a b w. (0, w), k_remove = \<lambda>a w. (0, w), k_mkdir = \<lambda>d m w. (0, w),
       k_stat = \<lambda>w d. Some (S_IFDIR, 0), k_now = \<lambda>w. (\<lparr>mt_sec = 0, mt_usec = 0\<rparr>, w), k_stdout = \<lambda>t w. w, k_cwd = \<lambda>w. ''/srv/bin'',
       k_realpath = \<lambda>w p. p, k_localtime = clock_of_days, k_dirname = dirname_plain, k_pid = \<lambda>w. 4711, k_thread = \<lambda>w. 1\<rparr>,
     k_signal = \<lambda>s h w. w, k_fork = \<lambda>w. (0, w), k_setsid = \<lambda>w. w, k_umask = \<lambda>m w. w, k_sleep = \<lambda>w. ([15], w),
     k_getopt = \<lambda>argv. ([], argv), k_help = ''help'', k_file = ''happ.cpp''\<rparr>"

lemma small_app_file_law: "file_law (fdk (sys small_app)) files places"
  unfolding file_law_def by (intro conjI allI impI; force simp: small_app_def small_disk_def Let_def)

theorem HApp_arguments_roundtrip_witness:
  "\<exists>a. HApp_of_args small_app [''bin/srv'', ''-v'', ''x.conf''] (None, empty_disk) = (AOk (), a, None, empty_disk) \<and> IsRunning a \<and>
     GetArgvCount a = Some 3 \<and> GetArgvByIndex a 2 = Some ''x.conf''"
proof -
  have "c_str ''x.conf'' = ''x.conf''" by code_simp
  then show ?thesis
    using HApp_arguments_roundtrip [of small_app "''bin/srv''" "[''-v'', ''x.conf'']" "[]" "[''bin/srv'', ''-v'', ''x.conf'']" 2 None empty_disk]
    by (simp add: small_app_def)
qed

theorem HApp_home_directory_witness:
  "\<exists>a a'. HApp_of_args small_app [''lib/srv''] (None, empty_disk) = (AOk (), a, None, empty_disk) \<and>
     setup_app_dir small_app (a, None, empty_disk) = (AOk ERR_OK, a', None, empty_disk) \<and> GetConfValue a' CONF_KEY_HOMEPATH = ''/srv''"
proof (rule HApp_home_directory [where opts = "[]" and args = "[''lib/srv'']" and b = "''bin''" and f = "''srv''"])
  show "dirname_law (k_dirname (sys small_app))" using dirname_plain_law by (simp add: small_app_def)
  show "''lib/srv'' = path_of (path_of ''/srv'' ''bin'') ''srv'' \<or> (\<not> IsAbsolute ''lib/srv'' \<and> k_cwd (sys small_app) empty_disk = path_of ''/srv'' ''bin'')"
    by (simp add: small_app_def path_of_def IsAbsolute_def IsRootBegin_def fs_consts)
qed (simp_all add: small_app_def dir_name_def plain_name_def IsAbsolute_def IsRootBegin_def IsRootEnd_def fs_consts)

definition locked_app :: HApp where
  "locked_app = HApp_init\<lparr>m_conf := [(CONF_KEY_APPLOCK, ''1''), (CONF_KEY_EXE_NAME, ''srv'')]\<rparr>"


end
