(* ===== verification/Thread_Pool.thy ===== *)
theory Thread_Pool
  imports Action Hui_Conf
begin

text \<open>
  Threads and the start of a pool of them: \<^verbatim>\<open>src/src/hthread.h\<close> and \<^verbatim>\<open>.cpp\<close>, the class \<^verbatim>\<open>HWaitSonLock\<close> of \<^verbatim>\<open>hmutex.cpp\<close> and
  \<^verbatim>\<open>hthreadpool.h\<close> and \<^verbatim>\<open>.cpp\<close>.

  The calls on threads are a parameter for the one-thread operations of \<^verbatim>\<open>HThread\<close>. The start of a pool is a step relation of the
  thread in \<^verbatim>\<open>Init\<close> and its sons, one step for each access to something they share.
\<close>

subsection \<open>The class HThread\<close>

type_synonym pthread_t = "64 word"

record HThread =
  m_id :: pthread_t

record 'w thread_kernel =
  t_create :: "'w \<Rightarrow> (int \<times> pthread_t) \<times> 'w"
  t_cancel :: "pthread_t \<Rightarrow> 'w \<Rightarrow> int \<times> 'w"
  t_join :: "pthread_t \<Rightarrow> 'w \<Rightarrow> int \<times> 'w"
  t_timedjoin :: "pthread_t \<Rightarrow> int \<Rightarrow> 'w \<Rightarrow> int \<times> 'w"
  t_detach :: "pthread_t \<Rightarrow> 'w \<Rightarrow> int \<times> 'w"

type_synonym ('w, 'a) thread_action = "(HThread \<times> 'w, RET_T, 'a) action"

definition invalid_threadtype_value :: pthread_t where "invalid_threadtype_value = 0"

definition HThread_new :: HThread where
  "HThread_new = \<lparr>m_id = invalid_threadtype_value\<rparr>"

definition thread_SetInvalid :: "HThread \<Rightarrow> HThread" where
  "thread_SetInvalid t = t\<lparr>m_id := invalid_threadtype_value\<rparr>"

definition thread_IsInvalid :: "HThread \<Rightarrow> bool" where
  "thread_IsInvalid t \<longleftrightarrow> m_id t = invalid_threadtype_value"

definition thread_move_assign :: "HThread \<Rightarrow> HThread \<Rightarrow> HThread \<times> HThread" where
  "thread_move_assign this other = (this\<lparr>m_id := m_id other\<rparr>, thread_SetInvalid other)"

text \<open>Two hexadecimal digits for every byte of the identifier as it lies in memory.\<close>

definition pid2s :: "pthread_t \<Rightarrow> string" where
  "pid2s handle = concat (map (\<lambda>b. [''0123456789abcdef'' ! (unat b div 16), ''0123456789abcdef'' ! (unat b mod 16)]) (obj_bytes handle))"

definition Thread_Create :: "'w thread_kernel \<Rightarrow> bool \<Rightarrow> ('w, RET_T) thread_action" where
  "Thread_Create K fun_null = (if fun_null then act_ret INVL_PARA
     else act_bind (kernel (t_create K)) (\<lambda>(r, pid). act_seq (set_obj (\<lambda>t. if r = 0 then t\<lparr>m_id := pid\<rparr> else t))
       (act_ret (if r = 0 then ERR_OK else SYS_FAILED))))"

definition Thread_Cancel :: "'w thread_kernel \<Rightarrow> ('w, RET_T) thread_action" where
  "Thread_Cancel K = with_obj (\<lambda>t. act_bind (kernel (t_cancel K (m_id t))) (\<lambda>r. act_ret (if r = 0 then ERR_OK else SYS_FAILED)))"

definition Thread_Join :: "'w thread_kernel \<Rightarrow> ('w, RET_T) thread_action" where
  "Thread_Join K = with_obj (\<lambda>t. if thread_IsInvalid t then act_ret ERR_STATUS
     else act_bind (kernel (t_join K (m_id t))) (\<lambda>cb. if cb \<noteq> 0 then act_ret SYS_FAILED else act_seq (set_obj thread_SetInvalid) (act_ret ERR_OK)))"

text \<open>The seconds of the span are handed over as the time at which the call gives up.\<close>

definition JoinWithTime :: "'w thread_kernel \<Rightarrow> int \<Rightarrow> ('w, RET_T) thread_action" where
  "JoinWithTime K seconds = with_obj (\<lambda>t.
     act_bind (kernel (t_timedjoin K (m_id t) seconds)) (\<lambda>cb. if cb \<noteq> 0 then act_ret SYS_FAILED else act_seq (set_obj thread_SetInvalid) (act_ret ERR_OK)))"

definition Detach :: "'w thread_kernel \<Rightarrow> ('w, RET_T) thread_action" where
  "Detach K = with_obj (\<lambda>t. act_bind (kernel (t_detach K (m_id t))) (\<lambda>r. act_ret (if r = 0 then ERR_OK else SYS_FAILED)))"

lemmas thread_defs = with_obj_def set_obj_def kernel_def act_bind_def act_seq_def

text \<open>\<^verbatim>\<open>pthread_timedjoin_np\<close> gives up at a time of the clock. A span below the time that has passed since 1970 is over at once: the
  join of a thread that still runs fails without waiting.\<close>

lemma JoinWithTime_never_waits:
  assumes "\<forall>pid deadline w. running w pid \<and> deadline \<le> now w \<longrightarrow> t_timedjoin K pid deadline w = (110, w)"
    "running w (m_id t)" "seconds \<le> now w"
  shows "JoinWithTime K seconds (t, w) = (AOk SYS_FAILED, t, w)"
  using assms by (simp add: JoinWithTime_def thread_defs)

subsection \<open>The table of the sons\<close>

record child_info =
  ci_cs :: ChildStatus
  ci_thread :: HThread

definition create_info :: "nat \<Rightarrow> child_info list option" where
  "create_info count = (if count = 0 then None else Some (replicate count \<lparr>ci_cs = CS_UNUSED, ci_thread = HThread_new\<rparr>))"

fun join_loop :: "'w thread_kernel \<Rightarrow> child_info list \<Rightarrow> 'w \<Rightarrow> child_info list \<times> 'w" where
  "join_loop K [] w = ([], w)"
| "join_loop K (c # cs) w = (case Thread_Join K (ci_thread c, w) of (_, t, w) \<Rightarrow>
     case join_loop K cs w of (cs, w) \<Rightarrow> (c\<lparr>ci_thread := t\<rparr> # cs, w))"

text \<open>\<open>None\<close>: the array of a pool with sons is null when \<^verbatim>\<open>Init\<close> has not run.\<close>

definition JoinAll :: "'w thread_kernel \<Rightarrow> nat \<Rightarrow> child_info list option \<Rightarrow> 'w \<Rightarrow> (child_info list option \<times> 'w) option" where
  "JoinAll K count m_pinfos w = (case m_pinfos of None \<Rightarrow> if count = 0 then Some (None, w) else None
     | Some cs \<Rightarrow> (case join_loop K cs w of (cs, w) \<Rightarrow> Some (Some cs, w)))"

fun free_loop :: "'w thread_kernel \<Rightarrow> child_info list \<Rightarrow> 'w \<Rightarrow> 'w" where
  "free_loop K [] w = w"
| "free_loop K (c # cs) w = (if ci_cs c = CS_UNUSED then free_loop K cs w
     else case Thread_Cancel K (ci_thread c, w) of (_, t, w) \<Rightarrow> case Thread_Join K (t, w) of (_, _, w) \<Rightarrow> free_loop K cs w)"

definition free_info :: "'w thread_kernel \<Rightarrow> nat \<Rightarrow> child_info list option \<Rightarrow> 'w \<Rightarrow> 'w option" where
  "free_info K count m_pinfos w = (case m_pinfos of None \<Rightarrow> if count = 0 then Some w else None | Some cs \<Rightarrow> Some (free_loop K cs w))"

text \<open>The block of a thread: the pool, if it is a son of one, and its index. It is made, all zero, by the first use.\<close>

type_synonym 'p thread_arg = "'p option \<times> nat"

definition CreateThreadSpecific :: "'t \<Rightarrow> ('t \<Rightarrow> 'p thread_arg option) \<Rightarrow> 'p thread_arg \<times> ('t \<Rightarrow> 'p thread_arg option)" where
  "CreateThreadSpecific t spec = (case spec t of None \<Rightarrow> ((None, 0), spec(t \<mapsto> (None, 0))) | Some a \<Rightarrow> (a, spec))"

definition GetThreadIndex :: "'t \<Rightarrow> ('t \<Rightarrow> 'p thread_arg option) \<Rightarrow> nat \<times> ('t \<Rightarrow> 'p thread_arg option)" where
  "GetThreadIndex t spec = (case CreateThreadSpecific t spec of (a, spec) \<Rightarrow> (snd a, spec))"

text \<open>An index beyond the number of sons is thrown, as \<open>Inl\<close>.\<close>

definition set_child_status :: "'t \<Rightarrow> ChildStatus \<Rightarrow> child_info list \<Rightarrow> ('t \<Rightarrow> 'p thread_arg option) \<Rightarrow> RET_T + child_info list" where
  "set_child_status t status m_pinfos spec = (let i = fst (GetThreadIndex t spec) in
     if i < length m_pinfos then Inr (m_pinfos[i := (m_pinfos ! i)\<lparr>ci_cs := status\<rparr>]) else Inl SRC_ERR)"

lemma free_info_without_Init: "count \<noteq> 0 \<Longrightarrow> free_info K count None w = None"
  by (simp add: free_info_def)

text \<open>A thread that is no son of a pool passes for the first one.\<close>

lemma stranger_is_first: "spec t = None \<Longrightarrow> fst (GetThreadIndex t spec) = 0"
  by (simp add: GetThreadIndex_def CreateThreadSpecific_def)

text \<open>Cancelling and joining leave alone the sons that have marked themselves unused: their threads are never joined.\<close>

lemma exited_sons_not_joined: "(\<forall>c \<in> set cs. ci_cs c = CS_UNUSED) \<Longrightarrow> free_info K (length cs) (Some cs) w = Some w"
  unfolding free_info_def by (induction cs) simp_all

subsection \<open>The start of a pool\<close>

text \<open>The thread in \<^verbatim>\<open>Init\<close>: it creates a son, takes the lock of \<^verbatim>\<open>WaitSonRun\<close>, tests, waits and is woken, resets the flag and
  unlocks, takes over the thread and sets its status; at the end it frees the arguments. A failed creation is thrown.\<close>

datatype init_pc = PCreate | PLock | PTest | PWait | PRelock | PClear | PUnlock | PMove | PIdle | PDone | PThrown

text \<open>A son: it reads its argument, goes through \<^verbatim>\<open>SonRun\<close>, stores its argument for the thread, sets its status and runs.\<close>

datatype son_pc = Unborn | SArg | SLock | SSet | SSignal | SUnlock | SKey | SBusy | SRun | SEnd

datatype holder = Father | Son nat

record pool_start =
  p_pc :: init_pc
  p_i :: nat
  s_uChildCreated :: int
  s_son_lock :: "holder option"
  sons :: "nat \<Rightarrow> son_pc"
  m_cs :: "nat \<Rightarrow> ChildStatus"
  m_threads :: "nat \<Rightarrow> bool"
  parr_alive :: bool
  wild_read :: bool

definition pool_start_init :: pool_start where
  "pool_start_init = \<lparr>p_pc = PCreate, p_i = 0, s_uChildCreated = 0, s_son_lock = None, sons = \<lambda>_. Unborn, m_cs = \<lambda>_. CS_UNUSED,
     m_threads = \<lambda>_. False, parr_alive = True, wild_read = False\<rparr>"

abbreviation set_son :: "nat \<Rightarrow> son_pc \<Rightarrow> pool_start \<Rightarrow> pool_start" where
  "set_son j pc s \<equiv> s\<lparr>sons := (sons s)(j := pc)\<rparr>"

text \<open>\<open>n\<close> is the number of sons. A wait may end without a signal.\<close>

inductive start_step :: "nat \<Rightarrow> pool_start \<Rightarrow> pool_start \<Rightarrow> bool" for n where
  create: "p_pc s = PCreate \<Longrightarrow> p_i s < n \<Longrightarrow> start_step n s (set_son (p_i s) SArg s\<lparr>p_pc := PLock\<rparr>)"
| create_fails: "p_pc s = PCreate \<Longrightarrow> p_i s < n \<Longrightarrow> start_step n s (s\<lparr>p_pc := PThrown\<rparr>)"
| lock: "p_pc s = PLock \<or> p_pc s = PRelock \<Longrightarrow> s_son_lock s = None \<Longrightarrow> start_step n s (s\<lparr>p_pc := PTest, s_son_lock := Some Father\<rparr>)"
| wait: "p_pc s = PTest \<Longrightarrow> s_uChildCreated s = 0 \<Longrightarrow> start_step n s (s\<lparr>p_pc := PWait, s_son_lock := None\<rparr>)"
| wake: "p_pc s = PWait \<Longrightarrow> start_step n s (s\<lparr>p_pc := PRelock\<rparr>)"
| pass: "p_pc s = PTest \<Longrightarrow> s_uChildCreated s \<noteq> 0 \<Longrightarrow> start_step n s (s\<lparr>p_pc := PClear\<rparr>)"
| clear: "p_pc s = PClear \<Longrightarrow> start_step n s (s\<lparr>p_pc := PUnlock, s_uChildCreated := 0\<rparr>)"
| unlock: "p_pc s = PUnlock \<Longrightarrow> start_step n s (s\<lparr>p_pc := PMove, s_son_lock := None\<rparr>)"
| move: "p_pc s = PMove \<Longrightarrow> start_step n s (s\<lparr>p_pc := PIdle, m_threads := (m_threads s)(p_i s := True)\<rparr>)"
| idle: "p_pc s = PIdle \<Longrightarrow> start_step n s (s\<lparr>p_pc := PCreate, m_cs := (m_cs s)(p_i s := CS_IDLE), p_i := Suc (p_i s)\<rparr>)"
| free: "p_pc s = PCreate \<Longrightarrow> \<not> p_i s < n \<Longrightarrow> start_step n s (s\<lparr>p_pc := PDone, parr_alive := False\<rparr>)"
| son_arg: "sons s j = SArg \<Longrightarrow> start_step n s (set_son j SLock s\<lparr>wild_read := (wild_read s \<or> \<not> parr_alive s)\<rparr>)"
| son_lock: "sons s j = SLock \<Longrightarrow> s_son_lock s = None \<Longrightarrow> start_step n s (set_son j SSet s\<lparr>s_son_lock := Some (Son j)\<rparr>)"
| son_set: "sons s j = SSet \<Longrightarrow> start_step n s (set_son j SSignal s\<lparr>s_uChildCreated := 1\<rparr>)"
| son_signal: "sons s j = SSignal \<Longrightarrow> start_step n s (set_son j SUnlock s\<lparr>p_pc := (if p_pc s = PWait then PRelock else p_pc s)\<rparr>)"
| son_unlock: "sons s j = SUnlock \<Longrightarrow> start_step n s (set_son j SKey s\<lparr>s_son_lock := None\<rparr>)"
| son_key: "sons s j = SKey \<Longrightarrow> start_step n s (set_son j SBusy s)"
| son_busy: "sons s j = SBusy \<Longrightarrow> start_step n s (set_son j SRun s\<lparr>m_cs := (m_cs s)(j := CS_BUSY)\<rparr>)"
| son_return: "sons s j = SRun \<Longrightarrow> start_step n s (set_son j SEnd s)"
| son_exit: "sons s j = SRun \<Longrightarrow> start_step n s (set_son j SEnd s\<lparr>m_cs := (m_cs s)(j := CS_UNUSED)\<rparr>)"

definition start_reach :: "nat \<Rightarrow> pool_start \<Rightarrow> bool" where
  "start_reach n s \<longleftrightarrow> (start_step n)\<^sup>*\<^sup>* pool_start_init s"

subsection \<open>No son reads what is freed\<close>

fun son_rank :: "son_pc \<Rightarrow> nat" where
  "son_rank Unborn = 0" | "son_rank SArg = 1" | "son_rank SLock = 2" | "son_rank SSet = 3" | "son_rank SSignal = 4"
| "son_rank SUnlock = 5" | "son_rank SKey = 6" | "son_rank SBusy = 7" | "son_rank SRun = 8" | "son_rank SEnd = 9"

fun father_locks :: "init_pc \<Rightarrow> bool" where
  "father_locks PTest = True" | "father_locks PClear = True" | "father_locks PUnlock = True" | "father_locks _ = False"

fun waiting :: "init_pc \<Rightarrow> bool" where
  "waiting PLock = True" | "waiting PTest = True" | "waiting PWait = True" | "waiting PRelock = True" | "waiting _ = False"

fun resting :: "init_pc \<Rightarrow> bool" where
  "resting PCreate = True" | "resting PDone = True" | "resting PThrown = True" | "resting _ = False"

fun son_locks :: "son_pc \<Rightarrow> bool" where
  "son_locks SSet = True" | "son_locks SSignal = True" | "son_locks SUnlock = True" | "son_locks _ = False"

definition past :: "son_pc \<Rightarrow> bool" where
  "past pc \<longleftrightarrow> son_rank pc \<ge> 6"

text \<open>The sons before the current one are past \<^verbatim>\<open>SonRun\<close>, those after it are not born.\<close>

definition order_inv :: "nat \<Rightarrow> pool_start \<Rightarrow> bool" where
  "order_inv n s \<longleftrightarrow> p_i s \<le> n \<and> (\<forall>j. j < p_i s \<longrightarrow> past (sons s j)) \<and> (\<forall>j. p_i s < j \<longrightarrow> sons s j = Unborn) \<and>
     (resting (p_pc s) \<longrightarrow> sons s (p_i s) = Unborn) \<and> (\<not> resting (p_pc s) \<longrightarrow> p_i s < n) \<and> (waiting (p_pc s) \<longrightarrow> sons s (p_i s) \<noteq> Unborn) \<and>
     (\<not> resting (p_pc s) \<longrightarrow> \<not> waiting (p_pc s) \<longrightarrow> past (sons s (p_i s))) \<and>
     (p_pc s = PDone \<longrightarrow> p_i s = n)"

definition lock_inv :: "pool_start \<Rightarrow> bool" where
  "lock_inv s \<longleftrightarrow> (s_son_lock s = Some Father \<longleftrightarrow> father_locks (p_pc s)) \<and> (\<forall>j. s_son_lock s = Some (Son j) \<longleftrightarrow> son_locks (sons s j))"

text \<open>The flag is set exactly between the current son's assignment and the father's.\<close>

definition flag_inv :: "pool_start \<Rightarrow> bool" where
  "flag_inv s \<longleftrightarrow> s_uChildCreated s = (if (waiting (p_pc s) \<and> son_rank (sons s (p_i s)) > 3) \<or> p_pc s = PClear then 1 else 0) \<and>
     (p_pc s = PWait \<longrightarrow> son_rank (sons s (p_i s)) \<le> 4)"

definition args_inv :: "pool_start \<Rightarrow> bool" where
  "args_inv s \<longleftrightarrow> \<not> wild_read s \<and> (parr_alive s \<longleftrightarrow> p_pc s \<noteq> PDone)"

definition start_inv :: "nat \<Rightarrow> pool_start \<Rightarrow> bool" where
  "start_inv n s \<longleftrightarrow> order_inv n s \<and> lock_inv s \<and> flag_inv s \<and> args_inv s"

lemma start_inv_init: "start_inv n pool_start_init"
  by (simp add: start_inv_def order_inv_def lock_inv_def flag_inv_def args_inv_def pool_start_init_def)

lemma rank_facts [simp]:
  "past SKey" "past SBusy" "past SRun" "past SEnd" "\<not> past Unborn" "\<not> past SArg" "\<not> past SLock" "\<not> past SSet" "\<not> past SSignal" "\<not> past SUnlock"
  by (simp_all add: past_def)

lemma inv_parts:
  assumes "start_inv n s"
  shows "p_i s \<le> n" "j < p_i s \<Longrightarrow> past (sons s j)" "p_i s < j \<Longrightarrow> sons s j = Unborn"
    "resting (p_pc s) \<Longrightarrow> sons s (p_i s) = Unborn" "\<not> resting (p_pc s) \<Longrightarrow> p_i s < n" "waiting (p_pc s) \<Longrightarrow> sons s (p_i s) \<noteq> Unborn"
    "\<not> resting (p_pc s) \<Longrightarrow> \<not> waiting (p_pc s) \<Longrightarrow> past (sons s (p_i s))" "p_pc s = PDone \<Longrightarrow> p_i s = n"
    "s_son_lock s = Some Father \<longleftrightarrow> father_locks (p_pc s)" "s_son_lock s = Some (Son j) \<longleftrightarrow> son_locks (sons s j)"
    "s_uChildCreated s = (if (waiting (p_pc s) \<and> son_rank (sons s (p_i s)) > 3) \<or> p_pc s = PClear then 1 else 0)"
    "p_pc s = PWait \<Longrightarrow> son_rank (sons s (p_i s)) \<le> 4" "\<not> wild_read s" "parr_alive s \<longleftrightarrow> p_pc s \<noteq> PDone"
  using assms unfolding start_inv_def order_inv_def lock_inv_def flag_inv_def args_inv_def by simp_all

text \<open>A son that is born and not past \<^verbatim>\<open>SonRun\<close> is the current one.\<close>

lemma current_son:
  assumes "start_inv n s" "sons s j \<noteq> Unborn" "\<not> past (sons s j)"
  shows "j = p_i s" "waiting (p_pc s)" "p_i s < n" "\<not> resting (p_pc s)" "p_pc s \<noteq> PDone" "p_pc s \<noteq> PClear"
proof -
  have "\<not> j < p_i s" "\<not> p_i s < j" using inv_parts(2,3) [OF assms(1)] assms(2,3) by blast+
  then show j: "j = p_i s" by simp
  with assms show "\<not> resting (p_pc s)" using inv_parts(4) by blast
  then show "waiting (p_pc s)" "p_i s < n" using inv_parts(5,7) [OF assms(1)] assms(3) j by blast+
  then show "p_pc s \<noteq> PDone" "p_pc s \<noteq> PClear" by auto
qed

lemma past_son:
  assumes "start_inv n s" "past (sons s j)"
  shows "j < p_i s \<or> (j = p_i s \<and> \<not> resting (p_pc s) \<and> p_pc s \<noteq> PWait)" "\<not> son_locks (sons s j)"
proof -
  note i = inv_parts [OF assms(1)]
  have "\<not> p_i s < j" "j = p_i s \<Longrightarrow> \<not> resting (p_pc s)" using i(3,4) assms(2) rank_facts(5) by metis+
  moreover have "j = p_i s \<Longrightarrow> p_pc s \<noteq> PWait" using i(12) assms(2) by (auto simp: past_def)
  ultimately show "j < p_i s \<or> (j = p_i s \<and> \<not> resting (p_pc s) \<and> p_pc s \<noteq> PWait)" by auto
  show "\<not> son_locks (sons s j)" using assms(2) by (cases "sons s j") simp_all
qed

lemmas inv_defs = start_inv_def order_inv_def lock_inv_def flag_inv_def args_inv_def

lemma start_inv_step: "start_step n s s' \<Longrightarrow> start_inv n s \<Longrightarrow> start_inv n s'"
proof (induction rule: start_step.induct)
  case (create s)
  then show ?case by (simp add: inv_defs)
next
  case (lock s)
  then show ?case using inv_parts(4-8,11) [OF lock(3)] by (auto simp: inv_defs)
next
  case (pass s)
  note i = inv_parts [OF pass(3)]
  have "son_rank (sons s (p_i s)) > 3" "\<not> son_locks (sons s (p_i s))"
    using pass(1,2) i(9) i(10) [of "p_i s"] i(11) by (auto split: if_splits)
  then have "past (sons s (p_i s))" by (cases "sons s (p_i s)") simp_all
  then show ?case using pass by (auto simp: inv_defs split: if_splits)
next
  case (idle s)
  then show ?case by (simp add: inv_defs less_Suc_eq all_conj_distrib imp_conjL)
next
  case (son_arg s j)
  then show ?case using current_son [OF son_arg(2), of j] by (auto simp: inv_defs split: if_splits)
next
  case (son_lock s j)
  then show ?case using current_son [OF son_lock(3), of j] by (auto simp: inv_defs split: if_splits)
next
  case (son_set s j)
  then show ?case using current_son [OF son_set(2), of j] by (auto simp: inv_defs split: if_splits)
next
  case (son_signal s j)
  then show ?case using current_son [OF son_signal(2), of j] by (auto simp: inv_defs split: if_splits)
next
  case (son_unlock s j)
  note i = inv_parts(9,10) [OF son_unlock(2)]
  have "s_son_lock s = Some (Son j)" using i(2) [of j] son_unlock(1) by simp
  then have "\<not> father_locks (p_pc s)" "son_locks (sons s k) \<longleftrightarrow> k = j" for k using i(1) i(2) [of k] by auto
  then show ?case using son_unlock current_son [OF son_unlock(2), of j] by (auto simp: inv_defs split: if_splits)
next
  case (wait s)
  then show ?case by (auto simp: inv_defs split: if_splits)
next
  case (clear s)
  then show ?case by (auto simp: inv_defs)
next
  case (unlock s)
  then show ?case by (auto simp: inv_defs)
next
  case (free s)
  then show ?case by (auto simp: inv_defs)
next
  case (son_key s j)
  note p = past_son [OF son_key(2), of j]
  from son_key p show ?case unfolding inv_defs by simp (cases "p_i s = j"; force)
next
  case (son_busy s j)
  note p = past_son [OF son_busy(2), of j]
  from son_busy p show ?case unfolding inv_defs by simp (cases "p_i s = j"; force)
next
  case (son_return s j)
  note p = past_son [OF son_return(2), of j]
  from son_return p show ?case unfolding inv_defs by simp (cases "p_i s = j"; force)
next
  case (son_exit s j)
  note p = past_son [OF son_exit(2), of j]
  from son_exit p show ?case unfolding inv_defs by simp (cases "p_i s = j"; force)
qed (simp_all add: inv_defs)

lemma start_reach_inv: "start_reach n s \<Longrightarrow> start_inv n s"
  unfolding start_reach_def by (induction rule: rtranclp_induct) (auto intro: start_inv_init start_inv_step)

text \<open>C25: However the threads interleave while a pool starts, no son reads its argument after \<^verbatim>\<open>Init\<close> has freed it, at most one thread is
  inside the lock, and when \<^verbatim>\<open>Init\<close> returns every son has begun.\<close>

theorem HThreadPool_Init_safe:
  assumes "start_reach n s"
  shows "\<not> wild_read s \<and> (father_locks (p_pc s) \<longrightarrow> (\<forall>j. \<not> son_locks (sons s j))) \<and> (\<forall>j k. son_locks (sons s j) \<longrightarrow> son_locks (sons s k) \<longrightarrow> j = k) \<and>
    (p_pc s = PDone \<longrightarrow> (\<forall>j < n. past (sons s j)))"
proof -
  note i = inv_parts [OF start_reach_inv [OF assms]]
  have "father_locks (p_pc s) \<longrightarrow> (\<forall>j. \<not> son_locks (sons s j))"
    using i(9) i(10) by (metis holder.distinct(1) option.inject)
  moreover have "\<forall>j k. son_locks (sons s j) \<longrightarrow> son_locks (sons s k) \<longrightarrow> j = k" using i(10) by (metis holder.inject option.inject)
  moreover have "p_pc s = PDone \<longrightarrow> (\<forall>j < n. past (sons s j))" using i(2,8) by blast
  ultimately show ?thesis using i(13) by blast
qed

subsection \<open>The start ends\<close>

fun father_rank :: "init_pc \<Rightarrow> nat" where
  "father_rank PCreate = 10" | "father_rank PLock = 9" | "father_rank PRelock = 9" | "father_rank PTest = 8" | "father_rank PWait = 7"
| "father_rank PClear = 6" | "father_rank PUnlock = 5" | "father_rank PMove = 4" | "father_rank PIdle = 3" | "father_rank PDone = 0" | "father_rank PThrown = 0"

definition start_measure :: "nat \<Rightarrow> pool_start \<Rightarrow> nat" where
  "start_measure n s = (n - p_i s) * 200 + (10 - son_rank (sons s (p_i s))) * 10 + father_rank (p_pc s)"

definition nearer :: "nat \<Rightarrow> pool_start \<Rightarrow> pool_start \<Rightarrow> bool" where
  "nearer n s s' \<longleftrightarrow> start_step n s s' \<and> start_measure n s' < start_measure n s \<and> p_pc s' \<noteq> PThrown"

lemma nearer_lock:
  assumes "start_inv n s" "p_pc s = PLock \<or> p_pc s = PRelock"
  shows "\<exists>s'. nearer n s s'"
proof (cases "s_son_lock s")
  case None
  then show ?thesis using start_step.lock [OF assms(2)] assms(2) by (intro exI) (auto simp: nearer_def start_measure_def)
next
  case (Some h)
  have w: "waiting (p_pc s)" "\<not> father_locks (p_pc s)" "p_pc s \<noteq> PWait" "p_pc s \<noteq> PThrown" using assms(2) by auto
  then obtain j where "h = Son j" using Some inv_parts(9) [OF assms(1)] by (cases h) auto
  then have l: "son_locks (sons s j)" using Some inv_parts(10) [OF assms(1)] by simp
  then have "sons s j \<noteq> Unborn" "\<not> past (sons s j)" by (cases "sons s j"; simp)+
  then have j: "j = p_i s" using current_son(1) [OF assms(1)] by blast
  from l show ?thesis
  proof (cases "sons s j")
    case SSet
    then show ?thesis using start_step.son_set [OF SSet] j w by (intro exI) (auto simp: nearer_def start_measure_def)
  next
    case SSignal
    then show ?thesis using start_step.son_signal [OF SSignal] j w by (intro exI) (auto simp: nearer_def start_measure_def)
  next
    case SUnlock
    then show ?thesis using start_step.son_unlock [OF SUnlock] j w by (intro exI) (auto simp: nearer_def start_measure_def)
  qed simp_all
qed

lemma nearer_wait:
  assumes "start_inv n s" "p_pc s = PWait"
  shows "\<exists>s'. nearer n s s'"
proof -
  note i = inv_parts [OF assms(1)]
  have r: "sons s (p_i s) \<noteq> Unborn" "son_rank (sons s (p_i s)) \<le> 4" using i(6,12) assms(2) by simp_all
  have free: "s_son_lock s = None" if "sons s (p_i s) = SLock"
  proof (rule ccontr)
    assume "s_son_lock s \<noteq> None"
    then obtain h where h: "s_son_lock s = Some h" by blast
    then obtain j where "h = Son j" using i(9) assms(2) by (cases h) auto
    then have l: "son_locks (sons s j)" using h i(10) by simp
    then have "sons s j \<noteq> Unborn" "\<not> past (sons s j)" by (cases "sons s j"; simp)+
    then show False using current_son(1) [OF assms(1)] that l by auto
  qed
  from r show ?thesis
  proof (cases "sons s (p_i s)")
    case SArg
    then show ?thesis using start_step.son_arg [OF SArg] assms(2) by (intro exI) (auto simp: nearer_def start_measure_def)
  next
    case SLock
    then show ?thesis using start_step.son_lock [OF SLock free [OF SLock]] assms(2) by (intro exI) (auto simp: nearer_def start_measure_def)
  next
    case SSet
    then show ?thesis using start_step.son_set [OF SSet] assms(2) by (intro exI) (auto simp: nearer_def start_measure_def)
  next
    case SSignal
    then show ?thesis using start_step.son_signal [OF SSignal] assms(2) by (intro exI) (auto simp: nearer_def start_measure_def)
  qed simp_all
qed

lemma nearer_exists:
  assumes "start_inv n s" "p_pc s \<noteq> PDone" "p_pc s \<noteq> PThrown"
  shows "\<exists>s'. nearer n s s'"
proof -
  note i = inv_parts [OF assms(1)]
  show ?thesis
  proof (cases "p_pc s")
    case PCreate
    show ?thesis
    proof (cases "p_i s < n")
      case True
      then show ?thesis using start_step.create [OF PCreate] i(4) PCreate by (intro exI) (auto simp: nearer_def start_measure_def)
    next
      case False
      then show ?thesis using start_step.free [OF PCreate] PCreate by (intro exI) (auto simp: nearer_def start_measure_def)
    qed
  next
    case PTest
    then show ?thesis using start_step.wait [OF PTest] start_step.pass [OF PTest]
      by (cases "s_uChildCreated s = 0") (auto simp: nearer_def start_measure_def intro!: exI)
  next
    case PClear
    then show ?thesis using start_step.clear [OF PClear] by (intro exI) (auto simp: nearer_def start_measure_def)
  next
    case PUnlock
    then show ?thesis using start_step.unlock [OF PUnlock] by (intro exI) (auto simp: nearer_def start_measure_def)
  next
    case PMove
    then show ?thesis using start_step.move [OF PMove] by (intro exI) (auto simp: nearer_def start_measure_def)
  next
    case PIdle
    then have "p_i s < n" using i(5) by simp
    then show ?thesis using start_step.idle [OF PIdle] PIdle by (intro exI) (auto simp: nearer_def start_measure_def)
  qed (use assms nearer_lock nearer_wait in auto)
qed


text \<open>The status of a son is written by both: a son that runs can be left marked as idle.\<close>

lemma running_son_left_idle: "\<exists>s. start_reach 1 s \<and> p_pc s = PDone \<and> sons s 0 = SRun \<and> m_cs s 0 = CS_IDLE"
  unfolding start_reach_def
  apply (intro exI conjI)
  apply (rule converse_rtranclp_into_rtranclp, rule start_step.create, simp add: pool_start_init_def, simp add: pool_start_init_def)
  apply (rule converse_rtranclp_into_rtranclp, rule start_step.son_arg [where j = 0], simp add: pool_start_init_def)
  apply (rule converse_rtranclp_into_rtranclp, rule start_step.son_lock [where j = 0], simp add: pool_start_init_def, simp add: pool_start_init_def)
  apply (rule converse_rtranclp_into_rtranclp, rule start_step.son_set [where j = 0], simp add: pool_start_init_def)
  apply (rule converse_rtranclp_into_rtranclp, rule start_step.son_signal [where j = 0], simp add: pool_start_init_def)
  apply (rule converse_rtranclp_into_rtranclp, rule start_step.son_unlock [where j = 0], simp add: pool_start_init_def)
  apply (rule converse_rtranclp_into_rtranclp, rule start_step.son_key [where j = 0], simp add: pool_start_init_def)
  apply (rule converse_rtranclp_into_rtranclp, rule start_step.son_busy [where j = 0], simp add: pool_start_init_def)
  apply (rule converse_rtranclp_into_rtranclp, rule start_step.lock, simp add: pool_start_init_def, simp add: pool_start_init_def)
  apply (rule converse_rtranclp_into_rtranclp, rule start_step.pass, simp add: pool_start_init_def, simp add: pool_start_init_def)
  apply (rule converse_rtranclp_into_rtranclp, rule start_step.clear, simp add: pool_start_init_def)
  apply (rule converse_rtranclp_into_rtranclp, rule start_step.unlock, simp add: pool_start_init_def)
  apply (rule converse_rtranclp_into_rtranclp, rule start_step.move, simp add: pool_start_init_def)
  apply (rule converse_rtranclp_into_rtranclp, rule start_step.idle, simp add: pool_start_init_def)
  apply (rule converse_rtranclp_into_rtranclp, rule start_step.free, simp add: pool_start_init_def, simp add: pool_start_init_def)
  apply (rule rtranclp.rtrancl_refl)
  by (simp_all add: pool_start_init_def)

theorem HThreadPool_Init_safe_witness: "\<exists>s. start_reach 1 s \<and> p_pc s = PDone \<and> \<not> wild_read s \<and> past (sons s 0)"
proof -
  obtain s where "start_reach 1 s" "p_pc s = PDone" using running_son_left_idle by blast
  then show ?thesis using HThreadPool_Init_safe [of 1 s] by auto
qed


end
