(* ===== verification/At_Fork.thy ===== *)
theory At_Fork
  imports Hui_Prelude "HOL-Library.Monad_Syntax"
begin

text \<open>
  The handlers around a fork: \<^verbatim>\<open>src/src/process/atfork.h\<close> and \<^verbatim>\<open>atfork.cpp\<close>.

  A task keeps a reference to the caller's name, not a copy: \<open>strName\<close> is the address of a string and \<open>mem\<close> gives the strings that
  live; reading one that is gone is undefined (\<open>None\<close>). A handler may be empty. What the handlers do is not modelled, only which
  run, in what order.
\<close>

record 'h AtForkTask =
  strName :: nat
  prepare :: "'h option"
  parent :: "'h option"
  child :: "'h option"

type_synonym 'h AtForkList = "'h AtForkTask list"

fun run_handlers :: "('h AtForkTask \<Rightarrow> 'h option) \<Rightarrow> 'h AtForkList \<Rightarrow> 'h list" where
  "run_handlers sel [] = []"
| "run_handlers sel (t # ts) = (case sel t of None \<Rightarrow> run_handlers sel ts | Some h \<Rightarrow> h # run_handlers sel ts)"

definition fork_Prepare :: "'h AtForkList \<Rightarrow> 'h list" where
  "fork_Prepare m_task = run_handlers prepare m_task"

definition fork_Parent :: "'h AtForkList \<Rightarrow> 'h list" where
  "fork_Parent m_task = run_handlers parent m_task"

definition fork_Child :: "'h AtForkList \<Rightarrow> 'h list" where
  "fork_Child m_task = run_handlers child m_task"

definition fork_Append :: "nat \<Rightarrow> 'h option \<Rightarrow> 'h option \<Rightarrow> 'h option \<Rightarrow> 'h AtForkList \<Rightarrow> 'h AtForkList" where
  "fork_Append name pre par son m_task = m_task @ [\<lparr>strName = name, prepare = pre, parent = par, child = son\<rparr>]"

fun fork_Remove :: "(nat \<Rightarrow> string option) \<Rightarrow> string \<Rightarrow> 'h AtForkList \<Rightarrow> 'h AtForkList option" where
  "fork_Remove mem name [] = Some []"
| "fork_Remove mem name (t # ts) = do { n \<leftarrow> mem (strName t); if n = name then Some ts else map_option ((#) t) (fork_Remove mem name ts) }"

text \<open>The list of the process is made by the first use, which registers its three functions with the system: 0, or the program ends.\<close>

definition fork_Get :: "int \<Rightarrow> 'h AtForkList option \<Rightarrow> int + 'h AtForkList" where
  "fork_Get pthread_atfork inst = (case inst of Some m_task \<Rightarrow> Inr m_task | None \<Rightarrow> if pthread_atfork \<noteq> 0 then Inl 1 else Inr [])"

definition RegisterHandler :: "int \<Rightarrow> nat \<Rightarrow> 'h option \<Rightarrow> 'h option \<Rightarrow> 'h option \<Rightarrow> 'h AtForkList option \<Rightarrow> int + 'h AtForkList" where
  "RegisterHandler pthread_atfork name pre par son inst =
     (case fork_Get pthread_atfork inst of Inl e \<Rightarrow> Inl e | Inr m_task \<Rightarrow> Inr (fork_Append name pre par son m_task))"

definition UnregisterHandler :: "int \<Rightarrow> (nat \<Rightarrow> string option) \<Rightarrow> string \<Rightarrow> 'h AtForkList option \<Rightarrow> (int + 'h AtForkList) option" where
  "UnregisterHandler pthread_atfork mem name inst =
     (case fork_Get pthread_atfork inst of Inl e \<Rightarrow> Some (Inl e) | Inr m_task \<Rightarrow> map_option Inr (fork_Remove mem name m_task))"

subsection \<open>Which handlers run\<close>

lemma run_handlers_map: "run_handlers sel ts = map (the \<circ> sel) (filter (\<lambda>t. sel t \<noteq> None) ts)"
  by (induction ts) (auto split: option.splits)

text \<open>The handlers for the preparation run in the order of their registration, as those after the fork do.\<close>

lemma handlers_in_order:
  "fork_Prepare (fork_Append name (Some h) par son ts) = fork_Prepare ts @ [h]"
  "fork_Parent (fork_Append name pre (Some h) son ts) = fork_Parent ts @ [h]"
  "fork_Child (fork_Append name pre par (Some h) ts) = fork_Child ts @ [h]"
  by (simp_all add: fork_Prepare_def fork_Parent_def fork_Child_def fork_Append_def run_handlers_map)

text \<open>While the names live, removing takes out the first task of the name and keeps the others; a name that is gone before one of
  the name makes it undefined.\<close>

lemma fork_Remove_first:
  assumes "\<forall>t \<in> set ts. mem (strName t) \<noteq> None"
  shows "fork_Remove mem name ts = Some (takeWhile (\<lambda>t. mem (strName t) \<noteq> Some name) ts @ tl (dropWhile (\<lambda>t. mem (strName t) \<noteq> Some name) ts))"
  using assms by (induction ts) auto

lemma fork_Remove_dangling:
  assumes "\<forall>t \<in> set us. mem (strName t) \<noteq> Some name" "mem (strName t) = None"
  shows "fork_Remove mem name (us @ t # ts) = None"
  using assms by (induction us) (auto split: Option.bind_split)

lemma Register_Unregister:
  assumes "\<forall>t \<in> set ts. mem (strName t) \<noteq> None \<and> mem (strName t) \<noteq> Some name" "mem a = Some name"
  shows "RegisterHandler r a pre par son (Some ts) = Inr (fork_Append a pre par son ts) \<and>
    UnregisterHandler r mem name (Some (fork_Append a pre par son ts)) = Some (Inr ts)"
proof -
  have "fork_Remove mem name (ts @ [\<lparr>strName = a, prepare = pre, parent = par, child = son\<rparr>]) = Some ts"
    using assms by (induction ts) auto
  then show ?thesis by (simp add: RegisterHandler_def UnregisterHandler_def fork_Get_def fork_Append_def)
qed

subsection \<open>The identifier of the process\<close>

text \<open>
  \<^verbatim>\<open>src/src/process/pid.cpp\<close>: \<^verbatim>\<open>HGetPid\<close> caches the identifier and registers a handler that renews it in a child. Its name is a
  temporary, so its address \<open>tmp\<close> holds no string when the registration returns. \<open>True\<close> is the handler that renews the cache,
  \<open>False\<close> one that does nothing.
\<close>

record pid_cache =
  m_pid :: int
  fork_list :: "bool AtForkList"

definition pid_cache_new :: pid_cache where
  "pid_cache_new = \<lparr>m_pid = 0, fork_list = []\<rparr>"

definition pid_valid :: "pid_cache \<Rightarrow> bool" where
  "pid_valid c \<longleftrightarrow> m_pid c \<noteq> 0"

definition pid_init :: "nat \<Rightarrow> int \<Rightarrow> pid_cache \<Rightarrow> pid_cache" where
  "pid_init tmp getpid c = c\<lparr>fork_list := fork_Append tmp (Some False) (Some False) (Some True) (fork_list c), m_pid := getpid\<rparr>"

definition HGetPid :: "nat \<Rightarrow> int \<Rightarrow> pid_cache \<Rightarrow> int \<times> pid_cache" where
  "HGetPid tmp getpid c = (let c = (if \<not> pid_valid c then pid_init tmp getpid c else c) in (m_pid c, c))"

text \<open>A fork as the child sees it: its handlers run in their order.\<close>

definition forked_child :: "int \<Rightarrow> pid_cache \<Rightarrow> pid_cache" where
  "forked_child getpid c = fold (\<lambda>h c. if h then c\<lparr>m_pid := getpid\<rparr> else c) (fork_Child (fork_list c)) c"

definition pid_ok :: "int \<Rightarrow> pid_cache \<Rightarrow> bool" where
  "pid_ok pid c \<longleftrightarrow> m_pid c = 0 \<or> (m_pid c = pid \<and> True \<in> set (fork_Child (fork_list c)))"

lemma fold_renew: "fold (\<lambda>h c. if h then c\<lparr>m_pid := p\<rparr> else c) hs c = (if True \<in> set hs then c\<lparr>m_pid := p\<rparr> else c)"
  by (induction hs arbitrary: c) auto

lemma HGetPid_ok:
  assumes "pid_ok pid c" "pid \<noteq> 0"
  shows "fst (HGetPid tmp pid c) = pid" "pid_ok pid (snd (HGetPid tmp pid c))"
  using assms by (auto simp: HGetPid_def pid_ok_def pid_valid_def pid_init_def handlers_in_order Let_def)

lemma forked_child_ok: "pid_ok pid c \<Longrightarrow> pid_ok pid' (forked_child pid' c)"
  by (auto simp: forked_child_def pid_ok_def fold_renew)

text \<open>Processes that fork, child after child: every one gets its own identifier, whether an ancestor has asked for its own or not.\<close>

fun family :: "nat \<Rightarrow> (int \<times> bool) list \<Rightarrow> pid_cache \<Rightarrow> int list" where
  "family tmp [] c = []"
| "family tmp ((pid, asks) # ps) c = (let c = forked_child pid c in
     if asks then (case HGetPid tmp pid c of (p, c) \<Rightarrow> p # family tmp ps c) else family tmp ps c)"

lemma family_ok:
  assumes "pid_ok pid c" "\<forall>p \<in> set ps. fst p \<noteq> 0"
  shows "family tmp ps c = map fst (filter snd ps)"
  using assms
proof (induction ps arbitrary: pid c)
  case (Cons p ps)
  obtain q asks where p: "p = (q, asks)" by force
  let ?c = "forked_child q c"
  have c: "pid_ok q ?c" using forked_child_ok [OF Cons.prems(1)] .
  note g = HGetPid_ok [OF c, of tmp]
  show ?case using Cons.IH [OF c] Cons.IH [of q "snd (HGetPid tmp q ?c)"] g Cons.prems(2) p
    by (auto simp: Let_def split: prod.splits)
qed simp

text \<open>C35: In a line of processes where each forks the next, every process that asks gets its own identifier from \<^verbatim>\<open>HGetPid\<close>.\<close>

theorem HGetPid_own_pid:
  assumes "\<forall>p \<in> set ps. fst p \<noteq> 0"
  shows "family tmp ps pid_cache_new = map fst (filter snd ps)"
  by (rule family_ok [OF _ assms, of 0]) (simp add: pid_ok_def pid_cache_new_def)

theorem HGetPid_own_pid_witness:
  "family 1 [(10, False), (11, True), (12, True), (13, False), (14, True)] pid_cache_new = [11, 12, 14]"
  by (subst HGetPid_own_pid) simp_all

text \<open>The name it registers is gone: removing any handler afterwards is undefined.\<close>

lemma Unregister_after_HGetPid:
  assumes "mem tmp = None"
  shows "UnregisterHandler r mem name (Some (fork_list (snd (HGetPid tmp pid pid_cache_new)))) = None"
  using assms by (simp add: HGetPid_def pid_valid_def pid_cache_new_def pid_init_def fork_Append_def UnregisterHandler_def fork_Get_def Let_def)

end
