(* ===== verification/Mem_Map.thy ===== *)
theory Mem_Map
  imports Action Hui_Conf "HOL-Library.Signed_Division"
begin

unbundle bit_operations_syntax

text \<open>
  Mapped files and the bit utilities: \<^verbatim>\<open>src/src/hmmap.h\<close> and \<^verbatim>\<open>.cpp\<close>, \<^verbatim>\<open>utils/base_utils.h\<close> and \<^verbatim>\<open>hbits.h\<close>. The calls on files and
  memory are a parameter; a pointer is an address, 0 the null pointer and \<open>- 1\<close> \<^verbatim>\<open>MAP_FAILED\<close>.
\<close>

subsection \<open>The class HMmap\<close>

record HMmap =
  m_strFileName :: string
  m_len :: nat
  m_off :: int
  m_prot :: int
  m_flags :: int
  m_named :: bool
  m_ptr :: int

record 'w map_kernel =
  mk_open :: "string \<Rightarrow> int \<Rightarrow> 'w \<Rightarrow> int \<times> 'w"
  mk_close :: "int \<Rightarrow> 'w \<Rightarrow> 'w"
  mk_seek_end :: "int \<Rightarrow> int \<Rightarrow> 'w \<Rightarrow> int \<times> 'w"
  mk_mmap :: "nat \<Rightarrow> int \<Rightarrow> int \<Rightarrow> int \<Rightarrow> int \<Rightarrow> 'w \<Rightarrow> int \<times> 'w"
  mk_munmap :: "int \<Rightarrow> nat \<Rightarrow> 'w \<Rightarrow> 'w"

definition DEFAULT_SIZE :: nat where "DEFAULT_SIZE = 128 * 4096"
definition DEFAULT_PROT :: int where "DEFAULT_PROT = 0"
definition DEFAULT_FLAGS :: int where "DEFAULT_FLAGS = 0"
definition MAP_FAILED :: int where "MAP_FAILED = - 1"

text \<open>Both constructors; without a name the string is empty.\<close>

definition HMmap_new :: "string \<Rightarrow> nat \<Rightarrow> int \<Rightarrow> HMmap" where
  "HMmap_new strFileName size1 off = \<lparr>m_strFileName = strFileName, m_len = size1, m_off = off, m_prot = DEFAULT_PROT,
     m_flags = DEFAULT_FLAGS, m_named = True, m_ptr = 0\<rparr>"

definition IsNonNamed :: "HMmap \<Rightarrow> bool" where
  "IsNonNamed m \<longleftrightarrow> \<not> m_named m"

text \<open>The part of \<^verbatim>\<open>Init\<close> inside the scope that closes the descriptor.\<close>

definition map_file :: "'w map_kernel \<Rightarrow> int \<Rightarrow> (HMmap \<times> 'w, RET_T, RET_T) action" where
  "map_file K fd = with_obj (\<lambda>m. act_bind (kernel (mk_seek_end K fd (m_off m))) (\<lambda>flen.
     if \<not> flen \<ge> signed_take_bit 63 (int (m_len m)) then act_ret INVL_PARA
     else act_bind (kernel (mk_mmap K (m_len m) (m_prot m) (m_flags m) fd (m_off m))) (\<lambda>p.
       act_seq (set_obj (\<lambda>m. m\<lparr>m_ptr := p\<rparr>)) (act_ret (if p \<noteq> MAP_FAILED then ERR_OK else SYS_FAILED)))))"

definition HMmap_Init :: "'w map_kernel \<Rightarrow> (HMmap \<times> 'w, RET_T, RET_T) action" where
  "HMmap_Init K = act_seq (set_obj (\<lambda>m. m\<lparr>m_named := False\<rparr>)) (with_obj (\<lambda>m.
     act_bind (if m_strFileName m \<noteq> [] then act_bind (kernel (mk_open K (c_str (m_strFileName m)) 2)) (\<lambda>fd.
         if \<not> fd > 0 then act_ret (Some INVL_PARA, fd) else act_seq (set_obj (\<lambda>m. m\<lparr>m_named := True\<rparr>)) (act_ret (None, fd)))
       else act_ret (None, - 1))
     (\<lambda>(err, fd). case err of Some e \<Rightarrow> act_ret e
       | None \<Rightarrow> act_bind (map_file K fd) (\<lambda>ret. act_seq (kernel (\<lambda>w. ((), mk_close K fd w))) (act_ret ret)))))"

definition HMmap_UnInit :: "'w map_kernel \<Rightarrow> HMmap \<times> 'w \<Rightarrow> HMmap \<times> 'w" where
  "HMmap_UnInit K = (\<lambda>(m, w). if m_ptr m \<noteq> 0 \<or> m_ptr m \<noteq> MAP_FAILED then (m\<lparr>m_ptr := 0\<rparr>, mk_munmap K (m_ptr m) (m_len m) w) else (m, w))"

lemmas map_defs = with_obj_def set_obj_def kernel_def act_bind_def act_seq_def

text \<open>A mapping must be shared or private. The flags of an object are neither, and nothing sets them: no object is ever mapped.\<close>

lemma HMmap_Init_fails:
  assumes "\<forall>n p fd off w. fst (mk_mmap K n p DEFAULT_FLAGS fd off w) = MAP_FAILED" "m_flags m = DEFAULT_FLAGS"
  shows "\<exists>e m' w'. HMmap_Init K (m, w) = (AOk e, m', w') \<and> e \<noteq> ERR_OK \<and> m_flags m' = DEFAULT_FLAGS"
proof -
  have fails: "\<exists>e m' w'. map_file K fd (m, w) = (AOk e, m', w') \<and> e \<noteq> ERR_OK \<and> m_flags m' = DEFAULT_FLAGS"
    if "m_flags m = DEFAULT_FLAGS" for fd m w
  proof -
    obtain flen w1 where s: "mk_seek_end K fd (m_off m) w = (flen, w1)" by force
    obtain p w2 where p: "mk_mmap K (m_len m) (m_prot m) (m_flags m) fd (m_off m) w1 = (p, w2)" by force
    then have "p = MAP_FAILED" using assms(1) that by (metis fst_conv)
    then show ?thesis using s p that by (simp add: map_file_def map_defs)
  qed
  show ?thesis
  proof (cases "m_strFileName m = []")
    case True
    then show ?thesis using fails [of "m\<lparr>m_named := False\<rparr>" "- 1" w] assms(2) by (auto simp: HMmap_Init_def map_defs)
  next
    case False
    obtain fd w1 where o: "mk_open K (c_str (m_strFileName m)) 2 w = (fd, w1)" by force
    then show ?thesis using False fails [of "m\<lparr>m_named := False, m_named := True\<rparr>" fd w1] assms(2)
      by (cases "fd > 0") (auto simp: HMmap_Init_def map_defs)
  qed
qed

text \<open>The test of \<^verbatim>\<open>UnInit\<close> is always true: even an object that was never mapped unmaps its length at address 0.\<close>

lemma UnInit_always_unmaps: "HMmap_UnInit K (m, w) = (m\<lparr>m_ptr := 0\<rparr>, mk_munmap K (m_ptr m) (m_len m) w)"
  by (simp add: HMmap_UnInit_def MAP_FAILED_def)

subsection \<open>Bits and divisions\<close>

text \<open>\<^verbatim>\<open>HN\<close> as an integer; a division by 0 and the one result out of range are undefined.\<close>

definition uper_divied :: "int \<Rightarrow> int \<Rightarrow> int option" where
  "uper_divied n b = (if b = 0 \<or> (n = - (2 ^ 31) \<and> b = - 1) then None else Some (n sdiv b + (if n smod b > 0 then 1 else 0)))"

definition remove_bit :: "'a::len word \<Rightarrow> 'a word \<Rightarrow> 'a word" where
  "remove_bit s v = s AND NOT v"

definition util_set_bit :: "'a::len word \<Rightarrow> 'a word \<Rightarrow> 'a word" where
  "util_set_bit s v = s AND v"

definition has_bit :: "'a::len word \<Rightarrow> 'a word \<Rightarrow> bool" where
  "has_bit s v \<longleftrightarrow> s AND v \<noteq> 0"

definition get_bit :: "'a::len word \<Rightarrow> 'a word \<Rightarrow> 'a word" where
  "get_bit s v = s AND v"

definition HMax :: "'a::linorder \<Rightarrow> 'a \<Rightarrow> 'a" where
  "HMax a b = (if a < b then b else a)"

definition HMin :: "'a::linorder \<Rightarrow> 'a \<Rightarrow> 'a" where
  "HMin a b = (if b < a then b else a)"

definition BYTE_WIDTH :: int where "BYTE_WIDTH = 1"

definition bits_WIDTH :: "int \<Rightarrow> int option" where
  "bits_WIDTH bits = uper_divied bits BYTE_WIDTH"

lemma uper_divied_ceiling:
  assumes "0 \<le> n" "0 < b"
  shows "uper_divied n b = Some ((n + b - 1) div b)"
proof -
  have sd: "n sdiv b = n div b" "n smod b = n mod b"
    using assms by (simp_all add: signed_divide_int_def signed_modulo_int_def sgn_if minus_div_mult_eq_mod abs_if)
  have "(n + b - 1) div b = n div b + (if n mod b > 0 then 1 else 0)"
  proof (cases "n mod b = 0")
    case True
    then obtain k where "n = b * k" by blast
    then show ?thesis using assms by (simp add: add_diff_eq [symmetric] del: add_diff_eq)
  next
    case False
    then have "0 < n mod b" "n mod b < b" using assms pos_mod_bound [of b n] pos_mod_sign [of b n] by (simp_all add: order_less_le)
    moreover have "n + b - 1 = b * (n div b + 1) + (n mod b - 1)" using mult_div_mod_eq [of b n] by (simp add: algebra_simps)
    ultimately have "(n + b - 1) div b = n div b + 1" by (intro int_div_pos_eq [where r = "n mod b - 1"]) simp_all
    then show ?thesis using \<open>0 < n mod b\<close> by simp
  qed
  then show ?thesis using assms sd by (simp add: uper_divied_def)
qed

lemma removed_bit: "\<not> has_bit (remove_bit s v) v"
  by (simp add: has_bit_def remove_bit_def and.assoc)

text \<open>Setting a bit that is not set gives zero: the function masks with the bit.\<close>

lemma util_set_bit_unset: "\<not> has_bit s v \<Longrightarrow> util_set_bit s v = 0"
  by (simp add: has_bit_def util_set_bit_def)

text \<open>The width of a byte is counted in bytes: a sequence of bits takes a byte for each.\<close>

lemma bits_WIDTH_bytes: "0 \<le> bits \<Longrightarrow> bits_WIDTH bits = Some bits"
  by (simp add: bits_WIDTH_def BYTE_WIDTH_def uper_divied_ceiling)

end
