(* ===== verification/Spec2Isabelle.thy ===== *)
theory Spec2Isabelle
  imports Serialize_Containers Fast_Queue Scheduler Hui_Time Roll_Buffer Packet_Buffer File_Name Cryptor Log_Roll
    Job_Workers Net_Addr Bmp_Image Redis_Client Mysql_Drive Db_Config
    Process_Pool Sockets Lazy_Singleton Hui_App Thread_Pool At_Fork Mem_Map
begin

text \<open>
  A verification library for huicpp, a C++17 library of components for servers. Source paths are relative to the
  repository; its library is under \<^verbatim>\<open>src/src\<close>, the crypto classes under \<^verbatim>\<open>src/crypto\<close>, the databases under \<^verbatim>\<open>src/db\<close> and
  the redis client under \<^verbatim>\<open>src/nosql\<close>.

  \<^bold>\<open>Parts and how they interact.\<close> Every part returns codes of \<^verbatim>\<open>internal/error_in.h\<close> or throws them. The serializer
  (\<^verbatim>\<open>hserialize.h\<close>) writes values to a stream object and reads them back; its templates are instantiated with
  \<^verbatim>\<open>CDataStream\<close>, which keeps bytes, and \<^verbatim>\<open>CSizeComputer\<close>, which counts them. The scheduler
  (\<^verbatim>\<open>detail/scheduler\<close>) owns a delay queue of timed tasks, a set of descriptors with callbacks for \<^verbatim>\<open>select\<close>, and an
  array of triggers, and runs them in an event loop. \<^verbatim>\<open>hsinglefastqueue.h\<close> passes values between two threads without
  locks. Configuration files (\<^verbatim>\<open>hnormalconf\<close>) are read through the string class (\<^verbatim>\<open>hstr\<close>) into a map of strings
  (\<^verbatim>\<open>hmstr\<close>). The crypto compositions (\<^verbatim>\<open>hcrypto.cpp\<close>) chain DES, base64 and the URL encoding.

  \<^bold>\<open>Theories.\<close> Each has the data and operations of its part in the order of the code, then its lemmas.
  \<^item> \<open>Hui_Prelude\<close>: the integer types as words, the error codes, the bytes of an integer on the little-endian host, raw
    memory. \<open>Outcome\<close>: what an operation that may throw does. \<open>Action\<close>: the same with a state, and a calculus of triples.
    \<open>Byte_Order\<close>: network byte order.
  \<^item> \<open>Data_Stream\<close>, \<open>Serialize_Int\<close>, \<open>Serialize_Containers\<close>: \<^verbatim>\<open>hserialize.h\<close>. The stream is a record of the buffer and the
    read position. The locales \<open>byte_sink\<close> and \<open>byte_stream\<close> are what a template asks of its stream, \<open>encoder\<close> and \<open>codec\<close>
    what a container asks of its element type; they are interpreted on the two streams and on the serializers of
    integers, strings, vectors and maps. Shown: round trips, agreement of the size computation, the exact effect of
    insert, erase and rewind, and the defects of \<^verbatim>\<open>ignore\<close> and of huge vector elements.
  \<^item> \<open>Fast_Queue\<close>: \<^verbatim>\<open>hsinglefastqueue.h\<close>. One-thread operations refine a bounded queue (locale \<open>bounded_fifo\<close>); the
    interleavings of the atomic accesses of producer and consumer are a step relation, on which order and the absence of
    races are invariants.
  \<^item> \<open>Link_Ring\<close>, \<open>Delay_Time\<close>, \<open>Delay_Queue\<close>, \<open>Delay_Props\<close>, \<open>Handler_Set\<close>, \<open>Scheduler\<close>: \<^verbatim>\<open>detail/scheduler\<close> and \<^verbatim>\<open>hscheduler\<close>.
    Nodes live in an explicit heap, a map from addresses to entries, so a dangling pointer is visible; \<open>dq_rep\<close> and
    \<open>hs_rep\<close> relate the rings to lists. Shown: the queue refines a list of due times, due entries run in order, the
    descriptor sets are those registered (locale \<open>fd_table\<close>), and one step of the loop does its three parts in order.
  \<^item> \<open>Hui_Str\<close>, \<open>Hui_Conf\<close>: \<^verbatim>\<open>hstr\<close>, \<^verbatim>\<open>hmstr\<close>, \<^verbatim>\<open>hnormalconf\<close>. Splitting is equivalent to a reference definition; loading a
    file of assignments gives every key its last value (locale \<open>key_value_store\<close>).
  \<^item> \<open>Hui_Time\<close>: \<^verbatim>\<open>htime\<close> and its inline files. Printing and parsing of times and spans.
  \<^item> \<open>Roll_Buffer\<close>: \<^verbatim>\<open>utils/rollfixedbuffer\<close>. One block of memory cut into blocks (locale \<open>block_layout\<close>) that clients take and
    hand back, as a step relation whose invariant keeps them apart.
  \<^item> \<open>Packet_Buffer\<close>: \<^verbatim>\<open>houtputpacketbuffer\<close>, \<^verbatim>\<open>hrefbuffer\<close>, \<^verbatim>\<open>hiobuffer\<close>. Words in network order, gathered output, appends
    that are taken or refused (locale \<open>sink\<close>, interpreted twice).
  \<^item> \<open>File_Name\<close>: \<^verbatim>\<open>detail/fsname_detail\<close> and \<^verbatim>\<open>hfilename\<close>. Names are put together and taken apart.
  \<^item> \<open>Log_Roll\<close>, \<open>Log_File\<close>: \<^verbatim>\<open>detail/log\<close>, \<^verbatim>\<open>hlog\<close> and \<^verbatim>\<open>hmodule\<close>. A log file is rolled over exactly when its name changes. Files
    are known behind their names (\<open>fsys\<close>, with the law \<open>append_law\<close> of the calls): writing a message refines its specification on
    what a reader of the directory sees, and a late message sends the log into its backup.
  \<^item> \<open>Hui_App\<close>: \<^verbatim>\<open>happ\<close>. The frame of an application puts the configuration, the names, the log, the files and the lock together. Shown:
    the arguments are kept, where the home directory is, and what a second instance does to the first.
  \<^item> \<open>Job_Workers\<close>: \<^verbatim>\<open>utils/jobpool\<close>, \<^verbatim>\<open>summerworkermng\<close>, \<^verbatim>\<open>multithreadjobmng\<close>, \<^verbatim>\<open>hsyncbuffer\<close>. The queues keep the order of
    what is pushed (locale \<open>wait_queue\<close>, interpreted three times); the worker threads are step relations on which no job is
    lost or done twice, and the shutdown of the workers ends.
  \<^item> \<open>Net_Addr\<close>: \<^verbatim>\<open>haddr\<close>. Addresses are printed and parsed, address texts are recognised, the first usable interface is
    the local address.
  \<^item> \<open>Rgb_Image\<close>, \<open>Bmp_Image\<close>: \<^verbatim>\<open>image/hrgb\<close> and \<^verbatim>\<open>image/hbmp\<close>. Blocks from \<^verbatim>\<open>malloc\<close> are lists of bytes with their old
    content, so what a loop leaves unwritten is visible. The conversions compute their formula at every pixel, or only in
    the first line; a bitmap is built, saved, loaded and moved.
  \<^item> \<open>Redis_Client\<close>: \<^verbatim>\<open>nosql/hredis\<close>. The commands are actions on the client and a world that counts connections and replies;
    the triples show that nothing leaks on any path, errors included.
  \<^item> \<open>Sysv_Ipc\<close>: \<^verbatim>\<open>internal/ipcbase_in.h\<close>, \<^verbatim>\<open>hsharememory\<close>, \<^verbatim>\<open>hmessagequeue\<close>, \<^verbatim>\<open>hsemaphore\<close>. The kernel is a record of calls; the
    common protocol of the three classes is the locale \<open>ipc_object\<close>. Messages are received as they were sent, and emptying a queue
    overruns its buffer for long messages.
  \<^item> \<open>Process_Pool\<close>: \<^verbatim>\<open>hprocesspool\<close> and \<^verbatim>\<open>hprocess\<close>. \<^verbatim>\<open>Init\<close> starts the children, and a pass of the parent leaves every entry of the
    table with a live process that was heard of lately.
  \<^item> \<open>Descriptors\<close>, \<open>Sockets\<close>: \<^verbatim>\<open>internal/fd_in\<close>, \<^verbatim>\<open>hfilehandle\<close>, \<^verbatim>\<open>hfilestr\<close>, \<^verbatim>\<open>hfilelock\<close>, \<^verbatim>\<open>happlock\<close>, \<^verbatim>\<open>hsocket\<close>. The kernel is a record of
    calls. A text survives a file, a buffer survives a connection, a socket object leaks nothing, and the blocking mode is never
    restored.
  \<^item> \<open>Lazy_Singleton\<close>: \<^verbatim>\<open>detail/lazysingleton\<close>. The two double-checked locks as a step relation over threads; one object of every type
    is made, every call returns it, and there is no deadlock.
  \<^item> \<open>Thread_Pool\<close>: \<^verbatim>\<open>hthread\<close>, \<^verbatim>\<open>hthreadpool\<close> and \<^verbatim>\<open>HWaitSonLock\<close> of \<^verbatim>\<open>hmutex.cpp\<close>. The start of a pool is a step relation of the thread in
    \<^verbatim>\<open>Init\<close> and its sons, whose control points are \<open>init_pc\<close> and \<open>son_pc\<close>; no son reads freed memory, and \<^verbatim>\<open>Init\<close> can always return.
  \<^item> \<open>At_Fork\<close>, \<open>Mem_Map\<close>: \<^verbatim>\<open>process/atfork.cpp\<close> with \<^verbatim>\<open>process/pid.cpp\<close>, \<^verbatim>\<open>hmmap\<close>, \<^verbatim>\<open>utils/base_utils.h\<close> and \<^verbatim>\<open>hbits.h\<close>. Every forked
    process gets its own identifier from the cache; no memory map can be made.
  \<^item> \<open>Db_Base\<close>, \<open>Sqlite_Drive\<close>, \<open>Mysql_Drive\<close>, \<open>Db_Config\<close>: the files of \<^verbatim>\<open>db\<close>. The virtual functions of a connection are a
    record; the locale \<open>tx_connection\<close> is what a transaction needs of them, and every \<open>mysql_server\<close> gives it through
    \<^verbatim>\<open>HMysqlConnection\<close>. Shown: transactions are all or nothing on a session that stays up, and how SQLite's return codes, a lost
    session and the formatting buffer break them; the table of connections opens and closes what its file lists.
  \<^item> \<open>Url_Hex\<close>, \<open>Cryptor\<close>: the files of \<^verbatim>\<open>crypto\<close>. Round trips of the encodings, digests of files, and the composition that
    encrypts where it should decrypt.

  \<^bold>\<open>Conventions.\<close> Undefined behaviour of the C++ (an access outside a block, a destroyed object, signed overflow where the
  code can reach it) is \<open>None\<close> or \<open>Stuck\<close>, never a value. Sizes are natural numbers with the 64-bit wrap-around written out
  (\<open>size_sub\<close>), values of the 32-bit \<^verbatim>\<open>int\<close> are integers with the range written out. The system and the libraries under
  the code (\<^verbatim>\<open>select\<close>, the clock, \<^verbatim>\<open>malloc\<close>, \<^verbatim>\<open>mktime\<close>, the file system, OpenSSL) are parameters; where a theorem relies
  on their documented behaviour it says so in a hypothesis.

  \<^bold>\<open>Loops.\<close> No fuel is used. A loop that always ends is a \<^theory_text>\<open>fun\<close> or \<^theory_text>\<open>function\<close> with a measure; one that may not is a
  \<^theory_text>\<open>partial_function (option)\<close> whose value \<open>None\<close> means that it does not return (or meets undefined behaviour), and the
  theorems about it state that it returns. \<open>vector_huge_element_diverges\<close> and \<open>Replaces_ends\<close> show two that do not.

  \<^bold>\<open>Not modelled.\<close> \<^verbatim>\<open>CAutoFile\<close> and the other wrappers of stdio, and the wrappers of mutexes, condition variables, read-write and
  spin locks and thread keys: each passes a call on and keeps no state of its own. Where their order matters, as in the thread pool
  and the singletons, the lock is in the state; elsewhere it is the atomicity of the steps it protects. Formatting with
  \<^verbatim>\<open>vsprintf\<close> gets its expanded text. Static objects, backtraces, the HTTP client, the JSON macros and the vendored packages under
  \<^verbatim>\<open>deps\<close> are left out.
\<close>

end
